(* ===== verification/Kernel_Prelude.thy ===== *)
theory Kernel_Prelude
  imports Main "HOL-Library.Word" "HOL-Library.Monad_Syntax"
begin

text \<open>
  Shared vocabulary of the development: the machine integers of the kernel
  (\<^verbatim>\<open>stdint.h\<close> on a 32-bit x86 target), the theorem collections the component
  theories extend, and the generic facts on words, lists and options they share.

  \<^item> \<open>mem_simps\<close>: reading back what was written to the byte store;
  \<^item> \<open>cstr_intros\<close>: building NUL-terminated strings in the byte store;
  \<^item> \<open>no_wrap\<close>: turning word comparisons and sums into facts on \<^typ>\<open>nat\<close>.
\<close>

unbundle bit_operations_syntax

section \<open>Machine integers\<close>

type_synonym u8 = "8 word"
type_synonym u16 = "16 word"
type_synonym u32 = "32 word"
type_synonym u64 = "64 word"

text \<open>\<open>size_t\<close>, \<open>uintptr_t\<close> and every pointer are 32 bits wide on the target.\<close>

type_synonym ptr = u32

abbreviation (input) NULL :: ptr where
  "NULL \<equiv> 0"

named_theorems mem_simps
named_theorems cstr_intros
named_theorems no_wrap

section \<open>Words as numbers\<close>

lemma unat_add_no_wrap [no_wrap]:
  fixes a b :: "'a::len word"
  assumes "unat a + unat b < 2 ^ LENGTH('a)"
  shows "unat (a + b) = unat a + unat b"
  using assms by (simp add: unat_add_lem)

lemma unat_of_nat_small [no_wrap]:
  assumes "n < 2 ^ LENGTH('a::len)"
  shows "unat (of_nat n :: 'a word) = n"
  using assms by (simp add: unat_of_nat take_bit_nat_eq_self)

lemma unat_add_of_nat [no_wrap]:
  fixes a :: "'a::len word"
  assumes "unat a + n < 2 ^ LENGTH('a)"
  shows "unat (a + of_nat n) = unat a + n"
  using assms by (simp add: unat_add_no_wrap unat_of_nat_small)

lemma unat_ucast_up:
  fixes w :: "'a::len word"
  assumes "LENGTH('a) \<le> LENGTH('b::len)"
  shows "unat (ucast w :: 'b word) = unat w"
proof -
  have "unat w < 2 ^ LENGTH('b)"
    using assms unsigned_less[of w] by (meson order_less_le_trans power_increasing one_le_numeral)
  then show ?thesis by (simp add: unsigned_ucast_eq take_bit_nat_eq_self)
qed

lemma word_add_of_nat_inj:
  fixes a :: "'a::len word"
  assumes "a + of_nat i = a + of_nat j" "i < 2 ^ LENGTH('a)" "j < 2 ^ LENGTH('a)"
  shows "i = j"
  using assms by (metis add_left_cancel unat_of_nat_small)

lemma unat_u32_less: "unat (w :: u32) < 4294967296"
  using unsigned_less[of w, where 'a = nat] by simp

lemma of_nat_eq_small:
  "i < 2 ^ LENGTH('a::len) \<Longrightarrow> j < 2 ^ LENGTH('a) \<Longrightarrow> (of_nat i :: 'a word) = of_nat j \<longleftrightarrow> i = j"
  by (metis unat_of_nat_small)

lemma word_diff_of_nat:
  fixes a d :: "'a::len word"
  shows "a = d + of_nat (unat (a - d))"
  by simp

lemma u32_add_of_nat_Suc: "(a :: u32) + of_nat (Suc n) = (a + 1) + of_nat n"
  by simp

section \<open>Bits of a word\<close>

lemma bit_set_single:
  fixes w :: "'a::len word"
  assumes "j < LENGTH('a)"
  shows "bit (w OR 2 ^ j) k \<longleftrightarrow> bit w k \<or> k = j"
  using assms by (auto simp: bit_or_iff bit_exp_iff)

lemma bit_clear_single:
  fixes w :: "'a::len word"
  assumes "j < LENGTH('a)"
  shows "bit (w AND NOT (2 ^ j)) k \<longleftrightarrow> bit w k \<and> k \<noteq> j"
  using assms
  by (auto simp: bit_and_iff bit_not_iff bit_exp_iff dest: bit_imp_le_length)

lemma and_single_bit_iff:
  fixes w :: "'a::len word"
  assumes "j < LENGTH('a)"
  shows "w AND 2 ^ j \<noteq> 0 \<longleftrightarrow> bit w j"
proof -
  have "bit (w AND 2 ^ j) k \<longleftrightarrow> bit w j \<and> k = j" for k
    using assms by (auto simp: bit_and_iff bit_exp_iff)
  then show ?thesis
    by (metis bit_eq_iff bit_0_eq bot_apply bot_bool_def)
qed

section \<open>Lists and options\<close>

lemma nth_append_middle: "i < length ys \<Longrightarrow> (xs @ ys @ zs) ! (length xs + i) = ys ! i"
  by (simp add: nth_append)

lemma list_update_upt_all:
  "length (foldl (\<lambda>ys i. ys[i := v]) xs is) = length xs"
  by (induction "is" arbitrary: xs) auto

lemma all_less_Suc_shift: "(\<forall>i<Suc n. P i) \<longleftrightarrow> P 0 \<and> (\<forall>i<n. P (Suc i))"
  by (auto simp: less_Suc_eq_0_disj)

lemma bind_Some_iff: "Option.bind x f = Some y \<longleftrightarrow> (\<exists>z. x = Some z \<and> f z = Some y)"
  by (cases x) auto

lemma find_SomeD: "find P xs = Some x \<Longrightarrow> x \<in> set xs \<and> P x"
  by (auto simp: find_Some_iff)

lemma find_append:
  "List.find P (xs @ ys) = (case List.find P xs of None \<Rightarrow> List.find P ys | Some x \<Rightarrow> Some x)"
  by (induction xs) auto

end
