(* ===== verification/Bits.thy ===== *)
theory Bits
  imports Kernel_Prelude
begin

text \<open>
  The pure part of \<^verbatim>\<open>kernel/bits.c\<close> and \<^verbatim>\<open>kernel/bits.h\<close>: byte-order switches, the
  population count and the bit macros, and the byte-order conversions of
  \<^verbatim>\<open>kernel/libc/arpa/inet.c\<close> built on them. The port input and output of \<^verbatim>\<open>bits.c\<close>
  is modelled in \<^verbatim>\<open>Ports\<close>.
\<close>

section \<open>Byte order\<close>

definition switch_endian_16 :: "u16 \<Rightarrow> u16" where
  "switch_endian_16 val = push_bit 8 val OR drop_bit 8 val"

definition switch_endian_32 :: "u32 \<Rightarrow> u32" where
  "switch_endian_32 val =
     push_bit 24 val
     OR (push_bit 8 val AND 0x00FF0000)
     OR (drop_bit 8 val AND 0x0000FF00)
     OR drop_bit 24 val"

definition switch_endian_64 :: "u64 \<Rightarrow> u64" where
  "switch_endian_64 val =
     push_bit 56 val
     OR (push_bit 40 val AND 0x00FF000000000000)
     OR (push_bit 24 val AND 0x0000FF0000000000)
     OR (push_bit 8 val AND 0x000000FF00000000)
     OR (drop_bit 8 val AND 0x00000000FF000000)
     OR (drop_bit 24 val AND 0x0000000000FF0000)
     OR (drop_bit 40 val AND 0x000000000000FF00)
     OR drop_bit 56 val"

text \<open>The target is little-endian, so each conversion is the switch.\<close>

definition htonll :: "u64 \<Rightarrow> u64" where "htonll hostlonglong = switch_endian_64 hostlonglong"
definition htonl :: "u32 \<Rightarrow> u32" where "htonl hostlong = switch_endian_32 hostlong"
definition htons :: "u16 \<Rightarrow> u16" where "htons hostshort = switch_endian_16 hostshort"
definition ntohll :: "u64 \<Rightarrow> u64" where "ntohll netlonglong = switch_endian_64 netlonglong"
definition ntohl :: "u32 \<Rightarrow> u32" where "ntohl netlong = switch_endian_32 netlong"
definition ntohs :: "u16 \<Rightarrow> u16" where "ntohs netshort = switch_endian_16 netshort"

section \<open>Population count\<close>

text \<open>The \<^verbatim>\<open>popcnt\<close> instruction counts the set bits of its operand.\<close>

definition popcnt_insn :: "'a::len word \<Rightarrow> nat" where
  "popcnt_insn w = length (filter (bit w) [0..<LENGTH('a)])"

definition popcnt16 :: "u16 \<Rightarrow> u16" where
  "popcnt16 val = of_nat (popcnt_insn val)"

definition popcnt32 :: "u32 \<Rightarrow> u32" where
  "popcnt32 val = of_nat (popcnt_insn val)"

text \<open>On the 32-bit target \<open>popcnt64\<close> adds the counts of the two halves.\<close>

definition popcnt64 :: "u64 \<Rightarrow> u64" where
  "popcnt64 val =
     ucast (popcnt32 (ucast (val AND 0xFFFFFFFF)) + popcnt32 (ucast (drop_bit 32 val)))"

section \<open>Bit macros\<close>

definition GET_BIT :: "'a::len word \<Rightarrow> nat \<Rightarrow> 'a word" where
  "GET_BIT reg b = drop_bit b reg AND 1"

definition SET_BIT :: "u32 \<Rightarrow> nat \<Rightarrow> u32" where
  "SET_BIT reg b = reg OR push_bit b 1"

definition DISABLE_BIT :: "u32 \<Rightarrow> nat \<Rightarrow> u32" where
  "DISABLE_BIT reg b = reg AND NOT (push_bit b 1)"

definition ENABLE_BIT :: "u32 \<Rightarrow> nat \<Rightarrow> u32" where
  "ENABLE_BIT reg b = reg OR push_bit b 1"

definition TOGGLE_BIT :: "u32 \<Rightarrow> nat \<Rightarrow> u32" where
  "TOGGLE_BIT reg b = reg XOR push_bit b 1"

definition ISSET_BIT :: "u32 \<Rightarrow> nat \<Rightarrow> bool" where
  "ISSET_BIT reg b \<longleftrightarrow> reg AND push_bit b 1 \<noteq> 0"

definition DISABLE_BIT_INT :: "'a::len word \<Rightarrow> 'a word \<Rightarrow> 'a word" where
  "DISABLE_BIT_INT reg b = reg AND NOT b"

definition ENABLE_BIT_INT :: "'a::len word \<Rightarrow> 'a word \<Rightarrow> 'a word" where
  "ENABLE_BIT_INT reg b = reg OR b"

definition TOGGLE_BIT_INT :: "'a::len word \<Rightarrow> 'a word \<Rightarrow> 'a word" where
  "TOGGLE_BIT_INT reg b = reg XOR b"

definition ISSET_BIT_INT :: "'a::len word \<Rightarrow> 'a word \<Rightarrow> bool" where
  "ISSET_BIT_INT reg b \<longleftrightarrow> reg AND b \<noteq> 0"

section \<open>What the macros do to single bits\<close>

lemma ISSET_BIT_iff: "b < 32 \<Longrightarrow> ISSET_BIT reg b \<longleftrightarrow> bit reg b"
  by (simp add: ISSET_BIT_def and_single_bit_iff)

lemma bit_ENABLE_BIT: "b < 32 \<Longrightarrow> bit (ENABLE_BIT reg b) k \<longleftrightarrow> bit reg k \<or> k = b"
  by (simp add: ENABLE_BIT_def bit_set_single)

lemma bit_DISABLE_BIT: "b < 32 \<Longrightarrow> bit (DISABLE_BIT reg b) k \<longleftrightarrow> bit reg k \<and> k \<noteq> b"
  by (simp add: DISABLE_BIT_def bit_clear_single)

lemma bit_TOGGLE_BIT: "b < 32 \<Longrightarrow> bit (TOGGLE_BIT reg b) k \<longleftrightarrow> bit reg k \<noteq> (k = b)"
  by (auto simp: TOGGLE_BIT_def bit_xor_iff bit_exp_iff)

lemma DISABLE_ENABLE_BIT: "b < 32 \<Longrightarrow> \<not> bit reg b \<Longrightarrow> DISABLE_BIT (ENABLE_BIT reg b) b = reg"
  by (rule bit_eqI) (auto simp: bit_DISABLE_BIT bit_ENABLE_BIT)

section \<open>Byte-order switches are involutions\<close>

text \<open>Each switch moves the bit at position \<open>k\<close> of byte \<open>k div 8\<close> to the mirrored byte.\<close>

lemma bit_switch_endian_16:
  "bit (switch_endian_16 v) k \<longleftrightarrow> k < 16 \<and> bit v (if k < 8 then k + 8 else k - 8)"
  by (auto simp: switch_endian_16_def bit_or_iff bit_push_bit_iff bit_drop_bit_eq add.commute
      dest: bit_imp_le_length)

lemma byte_masks_32:
  "(0x00FF0000 :: u32) = push_bit 16 (mask 8)" "(0x0000FF00 :: u32) = push_bit 8 (mask 8)"
  by (simp_all add: mask_eq_exp_minus_1 push_bit_eq_mult)

lemma bit_switch_endian_32:
  "bit (switch_endian_32 v) k \<longleftrightarrow>
     k < 32 \<and> bit v (if k < 8 then k + 24 else if k < 16 then k + 8
                      else if k < 24 then k - 8 else k - 24)"
  by (auto simp: switch_endian_32_def byte_masks_32 bit_or_iff bit_and_iff bit_push_bit_iff
      bit_drop_bit_eq bit_mask_iff add.commute dest: bit_imp_le_length)

lemma byte_masks_64:
  "(0x00FF000000000000 :: u64) = push_bit 48 (mask 8)"
  "(0x0000FF0000000000 :: u64) = push_bit 40 (mask 8)"
  "(0x000000FF00000000 :: u64) = push_bit 32 (mask 8)"
  "(0x00000000FF000000 :: u64) = push_bit 24 (mask 8)"
  "(0x0000000000FF0000 :: u64) = push_bit 16 (mask 8)"
  "(0x000000000000FF00 :: u64) = push_bit 8 (mask 8)"
  by (simp_all add: mask_eq_exp_minus_1 push_bit_eq_mult)

lemma byte_lane_cases:
  fixes k :: nat
  obtains j where "k = j" "j < 8" | j where "k = j + 8" "j < 8" | j where "k = j + 16" "j < 8"
    | j where "k = j + 24" "j < 8" | j where "k = j + 32" "j < 8" | j where "k = j + 40" "j < 8"
    | j where "k = j + 48" "j < 8" | j where "k = j + 56" "j < 8" | "64 \<le> k"
proof -
  have "k = k mod 8 + 8 * (k div 8)" "k mod 8 < 8" by simp_all
  moreover have "k div 8 = 0 \<or> k div 8 = 1 \<or> k div 8 = 2 \<or> k div 8 = 3 \<or> k div 8 = 4
      \<or> k div 8 = 5 \<or> k div 8 = 6 \<or> k div 8 = 7 \<or> 64 \<le> k" by linarith
  ultimately show thesis by (elim disjE) (use that in simp_all)
qed

lemma bit_switch_endian_64:
  "bit (switch_endian_64 v) k \<longleftrightarrow>
     k < 64 \<and> bit v (if k < 8 then k + 56 else if k < 16 then k + 40 else if k < 24 then k + 24
                      else if k < 32 then k + 8 else if k < 40 then k - 8
                      else if k < 48 then k - 24 else if k < 56 then k - 40 else k - 56)"
proof -
  have high: "\<not> bit v n" if "64 \<le> n" for n
    using that by (auto dest: bit_imp_le_length)
  consider j where "k = j" "j < 8" | j where "k = j + 8" "j < 8" | j where "k = j + 16" "j < 8"
    | j where "k = j + 24" "j < 8" | j where "k = j + 32" "j < 8" | j where "k = j + 40" "j < 8"
    | j where "k = j + 48" "j < 8" | j where "k = j + 56" "j < 8" | "64 \<le> k"
    by (rule byte_lane_cases)
  then show ?thesis
    by cases (simp_all add: switch_endian_64_def byte_masks_64 bit_or_iff bit_and_iff
        bit_push_bit_iff bit_drop_bit_eq bit_mask_iff add.commute high)
qed

lemma switch_endian_16_involution [simp]: "switch_endian_16 (switch_endian_16 v) = v"
  by (rule bit_word_eqI) (auto simp: bit_switch_endian_16)

lemma switch_endian_32_involution [simp]: "switch_endian_32 (switch_endian_32 v) = v"
  by (rule bit_word_eqI) (auto simp: bit_switch_endian_32)

lemma switch_endian_64_involution [simp]: "switch_endian_64 (switch_endian_64 v) = v"
proof (rule bit_word_eqI)
  fix k assume k: "k < LENGTH(64)"
  consider j where "k = j" "j < 8" | j where "k = j + 8" "j < 8" | j where "k = j + 16" "j < 8"
    | j where "k = j + 24" "j < 8" | j where "k = j + 32" "j < 8" | j where "k = j + 40" "j < 8"
    | j where "k = j + 48" "j < 8" | j where "k = j + 56" "j < 8" | "64 \<le> k"
    by (rule byte_lane_cases)
  then show "bit (switch_endian_64 (switch_endian_64 v)) k = bit v k"
    using k by cases (simp_all add: bit_switch_endian_64 add.commute)
qed

lemmas net_order_defs = htons_def ntohs_def htonl_def ntohl_def htonll_def ntohll_def

section \<open>Population count of the two halves\<close>

lemma popcnt_insn_card: "popcnt_insn (w :: 'a::len word) = card {i. i < LENGTH('a) \<and> bit w i}"
proof -
  have "popcnt_insn w = card (set (filter (bit w) [0..<LENGTH('a)]))"
    by (simp only: popcnt_insn_def distinct_card distinct_filter distinct_upt)
  then show ?thesis by simp
qed

lemma popcnt_insn_le: "popcnt_insn (w :: 'a::len word) \<le> LENGTH('a)"
  unfolding popcnt_insn_def using length_filter_le[of "bit w" "[0..<LENGTH('a)]"] by simp

lemma popcnt_insn_halves:
  "popcnt_insn (v :: u64) =
     popcnt_insn (ucast (v AND 0xFFFFFFFF) :: u32) + popcnt_insn (ucast (drop_bit 32 v) :: u32)"
proof -
  have mask: "(0xFFFFFFFF :: u64) = mask 32" by (simp add: mask_eq_exp_minus_1)
  have lo: "filter (bit v) [0..<32] = filter (bit (ucast (v AND 0xFFFFFFFF) :: u32)) [0..<32]"
    by (rule filter_cong)
      (auto simp: bit_ucast_iff mask bit_and_iff bit_mask_iff simp del: upt_rec_numeral)
  have "filter (bit v) [32..<64] = filter (bit v) (map (\<lambda>i. i + 32) [0..<32])"
    using map_add_upt[of 32 32] by (simp del: upt_rec_numeral)
  also have "\<dots> = map (\<lambda>i. i + 32) (filter (bit v \<circ> (\<lambda>i. i + 32)) [0..<32])"
    by (rule filter_map)
  also have "filter (bit v \<circ> (\<lambda>i. i + 32)) [0..<32] =
      filter (bit (ucast (drop_bit 32 v) :: u32)) [0..<32]"
    by (rule filter_cong) (auto simp: bit_ucast_iff bit_drop_bit_eq add.commute simp del: upt_rec_numeral)
  finally have hi: "length (filter (bit v) [32..<64]) =
      length (filter (bit (ucast (drop_bit 32 v) :: u32)) [0..<32])"
    by (simp del: upt_rec_numeral)
  have "[0..<64] = [0..<32] @ [32..<64::nat]"
    using upt_add_eq_append[of 0 32 32] by (simp del: upt_rec_numeral)
  then show ?thesis
    by (simp add: popcnt_insn_def lo hi del: upt_rec_numeral)
qed

lemma unat_popcnt32: "unat (popcnt32 v) = popcnt_insn v"
  using popcnt_insn_le[of v] by (simp add: popcnt32_def no_wrap)

lemma unat_popcnt64: "unat (popcnt64 v) = popcnt_insn v"
proof -
  let ?a = "popcnt32 (ucast (v AND 0xFFFFFFFF))" and ?b = "popcnt32 (ucast (drop_bit 32 v))"
  have b: "unat ?a \<le> 32" "unat ?b \<le> 32"
    using popcnt_insn_le[where 'a = 32] by (simp_all add: unat_popcnt32)
  then have "unat (?a + ?b) = unat ?a + unat ?b"
    by (intro unat_add_no_wrap) simp
  moreover have "unat (ucast (?a + ?b) :: u64) = unat (?a + ?b)"
    by (rule unat_ucast_up) simp
  ultimately show ?thesis
    by (simp only: popcnt64_def unat_popcnt32 popcnt_insn_halves)
qed

end
