(* ===== verification/Phys_Memory.thy ===== *)
theory Phys_Memory
  imports Bits
begin

text \<open>
  The flat byte store the kernel's C code runs on: 4 GiB of bytes addressed by 32-bit
  pointers, little-endian 16- and 32-bit accesses, block moves and fills. Pointer
  arithmetic wraps at 32 bits. Every component that dereferences pointers
  (\<^verbatim>\<open>string.c\<close>, \<^verbatim>\<open>bitmap.c\<close>, \<^verbatim>\<open>heap.c\<close>, \<^verbatim>\<open>mmu.c\<close>) is modelled over it.
\<close>

type_synonym mem = "ptr \<Rightarrow> u8"

section \<open>Accesses\<close>

definition load16 :: "mem \<Rightarrow> ptr \<Rightarrow> u16" where
  "load16 m a = ucast (m a) OR push_bit 8 (ucast (m (a + 1)))"

definition load32 :: "mem \<Rightarrow> ptr \<Rightarrow> u32" where
  "load32 m a = ucast (m a) OR push_bit 8 (ucast (m (a + 1)))
     OR push_bit 16 (ucast (m (a + 2))) OR push_bit 24 (ucast (m (a + 3)))"

definition store8 :: "mem \<Rightarrow> ptr \<Rightarrow> u8 \<Rightarrow> mem" where
  "store8 m a v = m(a := v)"

definition store16 :: "mem \<Rightarrow> ptr \<Rightarrow> u16 \<Rightarrow> mem" where
  "store16 m a v = m(a := ucast v, a + 1 := ucast (drop_bit 8 v))"

definition store32 :: "mem \<Rightarrow> ptr \<Rightarrow> u32 \<Rightarrow> mem" where
  "store32 m a v = m(a := ucast v, a + 1 := ucast (drop_bit 8 v),
     a + 2 := ucast (drop_bit 16 v), a + 3 := ucast (drop_bit 24 v))"

text \<open>
  \<open>blit m d s n\<close>: the \<open>n\<close> bytes at \<open>s\<close> are read and then written at \<open>d\<close>, as one
  load-then-store instruction does. \<open>fill m p v n\<close>: \<^verbatim>\<open>rep stosb\<close>.
\<close>

definition blit :: "mem \<Rightarrow> ptr \<Rightarrow> ptr \<Rightarrow> nat \<Rightarrow> mem" where
  "blit m d s n = (\<lambda>a. if unat (a - d) < n then m (s + (a - d)) else m a)"

definition fill :: "mem \<Rightarrow> ptr \<Rightarrow> u8 \<Rightarrow> nat \<Rightarrow> mem" where
  "fill m p v n = (\<lambda>a. if unat (a - p) < n then v else m a)"

definition bytes :: "mem \<Rightarrow> ptr \<Rightarrow> nat \<Rightarrow> u8 list" where
  "bytes m p n = map (\<lambda>i. m (p + of_nat i)) [0..<n]"

section \<open>Bytes of multi-byte values\<close>

lemma ucast_load16:
  "ucast (load16 m a) = m a" "ucast (drop_bit 8 (load16 m a)) = m (a + 1)"
  by (rule bit_word_eqI; auto simp: load16_def bit_or_iff bit_push_bit_iff bit_ucast_iff
      bit_drop_bit_eq dest: bit_imp_le_length)+

lemma ucast_load32:
  "ucast (load32 m a) = m a" "ucast (drop_bit 8 (load32 m a)) = m (a + 1)"
  "ucast (drop_bit 16 (load32 m a)) = m (a + 2)" "ucast (drop_bit 24 (load32 m a)) = m (a + 3)"
  by (rule bit_word_eqI; auto simp: load32_def bit_or_iff bit_push_bit_iff bit_ucast_iff
      bit_drop_bit_eq dest: bit_imp_le_length)+

lemma join_bytes32:
  "(ucast (ucast (v :: u32) :: u8) :: u32) OR push_bit 8 (ucast (ucast (drop_bit 8 v) :: u8))
     OR push_bit 16 (ucast (ucast (drop_bit 16 v) :: u8))
     OR push_bit 24 (ucast (ucast (drop_bit 24 v) :: u8)) = v" (is "?l = v")
proof (rule bit_word_eqI)
  fix k assume k: "k < LENGTH(32)"
  consider j where "k = j" "j < 8" | j where "k = j + 8" "j < 8" | j where "k = j + 16" "j < 8"
    | j where "k = j + 24" "j < 8" | "32 \<le> k"
    by (rule byte_lane_cases[of k]) (auto simp: that)
  then show "bit ?l k = bit v k"
    using k by cases (simp_all add: bit_or_iff bit_push_bit_iff bit_ucast_iff bit_drop_bit_eq add.commute)
qed

lemma join_bytes16:
  "(ucast (ucast (v :: u16) :: u8) :: u16) OR push_bit 8 (ucast (ucast (drop_bit 8 v) :: u8)) = v"
  (is "?l = v")
proof (rule bit_word_eqI)
  fix k assume k: "k < LENGTH(16)"
  consider j where "k = j" "j < 8" | j where "k = j + 8" "j < 8" | "16 \<le> k"
    by (rule byte_lane_cases[of k]) (auto simp: that)
  then show "bit ?l k = bit v k"
    using k by cases (simp_all add: bit_or_iff bit_push_bit_iff bit_ucast_iff bit_drop_bit_eq add.commute)
qed

lemma load32_store32_same [mem_simps]: "load32 (store32 m a v) a = v"
  by (simp add: load32_def store32_def join_bytes32)

lemma load16_store16_same [mem_simps]: "load16 (store16 m a v) a = v"
  by (simp add: load16_def store16_def join_bytes16)

section \<open>Aligned accesses do not overlap\<close>

definition aligned4 :: "ptr \<Rightarrow> bool" where
  "aligned4 a \<longleftrightarrow> unat a mod 4 = 0"

lemma aligned4_no_wrap:
  assumes "aligned4 a" "i < 4"
  shows "unat (a + of_nat i) = unat a + i"
proof (rule unat_add_of_nat)
  have "unat a < 2 ^ 32" using unsigned_less[of a] by simp
  then show "unat a + i < 2 ^ LENGTH(32)"
    using assms unfolding aligned4_def by simp presburger
qed

lemma aligned4_disjoint:
  assumes "aligned4 a" "aligned4 b" "a \<noteq> b" "i < 4" "j < 4"
  shows "a + of_nat i \<noteq> b + of_nat j"
proof
  assume "a + of_nat i = b + of_nat j"
  then have "unat a + i = unat b + j"
    using assms by (metis aligned4_no_wrap)
  moreover have "unat a mod 4 = 0" "unat b mod 4 = 0"
    using assms by (simp_all add: aligned4_def)
  ultimately have "unat a = unat b"
    using assms(4,5) by presburger
  then have "a = b" by (simp only: word_unat_eq_iff)
  with assms(3) show False by contradiction
qed

lemma aligned4_disjoint_num:
  assumes "aligned4 a" "aligned4 b" "a \<noteq> b"
  shows "a \<noteq> b + 1" "a \<noteq> b + 2" "a \<noteq> b + 3"
    "a + 1 \<noteq> b" "a + 1 \<noteq> b + 2" "a + 1 \<noteq> b + 3"
    "a + 2 \<noteq> b" "a + 2 \<noteq> b + 1" "a + 2 \<noteq> b + 3"
    "a + 3 \<noteq> b" "a + 3 \<noteq> b + 1" "a + 3 \<noteq> b + 2"
  using aligned4_disjoint[OF assms, of 0 1] aligned4_disjoint[OF assms, of 0 2]
    aligned4_disjoint[OF assms, of 0 3] aligned4_disjoint[OF assms, of 1 0]
    aligned4_disjoint[OF assms, of 1 2] aligned4_disjoint[OF assms, of 1 3]
    aligned4_disjoint[OF assms, of 2 0] aligned4_disjoint[OF assms, of 2 1]
    aligned4_disjoint[OF assms, of 2 3] aligned4_disjoint[OF assms, of 3 0]
    aligned4_disjoint[OF assms, of 3 1] aligned4_disjoint[OF assms, of 3 2]
  by simp_all

lemma load32_store32_other [mem_simps]:
  assumes "aligned4 a" "aligned4 b" "a \<noteq> b"
  shows "load32 (store32 m a v) b = load32 m b"
  using assms aligned4_disjoint_num[OF assms]
  by (simp add: load32_def store32_def not_sym)

lemma aligned4_add:
  assumes "aligned4 a" "unat a + 4 * i < 2 ^ 32"
  shows "aligned4 (a + of_nat (4 * i))"
  using assms unat_add_of_nat[of a "4 * i"] by (simp add: aligned4_def)

section \<open>Block moves\<close>

lemma blit_0 [simp]: "blit m d s 0 = m"
  by (simp add: blit_def)

lemma unat_diff_less_iff:
  fixes a d :: ptr
  shows "unat (a - d) < n \<longleftrightarrow> (\<exists>i < n. i < 2 ^ 32 \<and> a = d + of_nat i)"
proof
  assume "unat (a - d) < n"
  then show "\<exists>i < n. i < 2 ^ 32 \<and> a = d + of_nat i"
    using unsigned_less[of "a - d"] by (intro exI[of _ "unat (a - d)"]) simp
next
  assume "\<exists>i < n. i < 2 ^ 32 \<and> a = d + of_nat i"
  then show "unat (a - d) < n" by (auto simp: unat_of_nat_small)
qed

lemma blit_inside:
  assumes "i < n" "i < 2 ^ 32"
  shows "blit m d s n (d + of_nat i) = m (s + of_nat i)"
  using assms by (simp add: blit_def unat_of_nat_small)

lemma blit_outside: "\<not> unat (a - d) < n \<Longrightarrow> blit m d s n a = m a"
  by (simp add: blit_def)

lemma bytes_blit: "n \<le> 2 ^ 32 \<Longrightarrow> bytes (blit m d s n) d n = bytes m s n"
  by (auto simp: bytes_def blit_inside)

text \<open>
  A copy that runs forward in pieces equals one block move when the two regions do not
  wrap around and the destination does not start inside the source.
\<close>

definition fwd_ok :: "ptr \<Rightarrow> ptr \<Rightarrow> nat \<Rightarrow> bool" where
  "fwd_ok d s n \<longleftrightarrow> unat d + n \<le> 2 ^ 32 \<and> unat s + n \<le> 2 ^ 32 \<and>
     (unat d \<le> unat s \<or> unat s + n \<le> unat d)"

lemma fwd_ok_mono: "fwd_ok d s n \<Longrightarrow> k \<le> n \<Longrightarrow> fwd_ok d s k"
  by (auto simp: fwd_ok_def)

lemma fwd_ok_source_intact:
  assumes "fwd_ok d s n" "j \<le> i" "i < n"
  shows "\<not> unat (s + of_nat i - d) < j"
proof
  assume "unat (s + of_nat i - d) < j"
  then obtain k where k: "k < j" "s + of_nat i = d + of_nat k"
    by (auto simp: unat_diff_less_iff)
  have "unat (s + of_nat i) = unat s + i" "unat (d + of_nat k) = unat d + k"
    using assms k(1) by (auto simp: fwd_ok_def intro!: unat_add_of_nat)
  then have "unat s + i = unat d + k" using k(2) by metis
  then show False using assms k(1) by (auto simp: fwd_ok_def)
qed

lemma blit_append:
  assumes ok: "fwd_ok d s (j + k)"
  shows "blit (blit m d s j) (d + of_nat j) (s + of_nat j) k = blit m d s (j + k)"
proof
  fix a
  have len: "j + k \<le> 2 ^ 32" using ok by (simp add: fwd_ok_def)
  show "blit (blit m d s j) (d + of_nat j) (s + of_nat j) k a = blit m d s (j + k) a"
  proof (cases "unat (a - d) < j + k")
    case False
    have "\<not> unat (a - (d + of_nat j)) < k"
    proof
      assume "unat (a - (d + of_nat j)) < k"
      then obtain i where i: "i < k" "a = d + of_nat j + of_nat i"
        by (auto simp: unat_diff_less_iff)
      then have "a = d + of_nat (j + i)" by (simp add: add.assoc)
      then have "unat (a - d) < j + k"
        unfolding unat_diff_less_iff using i(1) len by (intro exI[of _ "j + i"]) simp
      with False show False by simp
    qed
    with False show ?thesis by (simp add: blit_def)
  next
    case True
    then obtain i where i: "i < j + k" "a = d + of_nat i" by (auto simp: unat_diff_less_iff)
    have i32: "i < 2 ^ 32" using i(1) len by simp
    show ?thesis
    proof (cases "i < j")
      case True
      have "\<not> unat (a - (d + of_nat j)) < k"
      proof
        assume "unat (a - (d + of_nat j)) < k"
        then obtain l where l: "l < k" "a = d + of_nat j + of_nat l"
          by (auto simp: unat_diff_less_iff)
        then have "d + of_nat i = d + (of_nat (j + l) :: ptr)" using i(2) by (simp add: add.assoc)
        then have "i = j + l"
          using i32 l(1) len by (intro word_add_of_nat_inj[of d]) simp_all
        with True show False by simp
      qed
      then show ?thesis
        using True i i32 by (simp add: blit_def unat_of_nat_small)
    next
      case False
      then obtain l where l: "i = j + l" "l < k" using i(1) by (metis add_less_cancel_left le_add_diff_inverse not_le)
      have "\<not> unat (s + of_nat i - d) < j"
        using fwd_ok_source_intact[OF ok _ i(1)] False by simp
      moreover have "a - (d + of_nat j) = of_nat l" "a - d = of_nat i"
        "s + of_nat j + of_nat l = s + of_nat i"
        using l(1) i(2) by simp_all
      moreover have "unat (of_nat l :: ptr) < k" "unat (of_nat i :: ptr) < j + k"
        using l i(1) i32 unat_of_nat_small[of i, where 'a = 32] unat_of_nat_small[of l, where 'a = 32]
        by (simp_all del: of_nat_add)
      ultimately show ?thesis
        unfolding blit_def by (simp only: if_True if_False)
    qed
  qed
qed

lemma store32_load32_blit: "store32 m d (load32 m s) = blit m d s 4"
proof
  fix a :: ptr
  show "store32 m d (load32 m s) a = blit m d s 4 a"
  proof (cases "unat (a - d) < 4")
    case True
    then obtain i where i: "i < 4" "a = d + of_nat i" by (auto simp: unat_diff_less_iff)
    from i(1) have "i = 0 \<or> i = 1 \<or> i = 2 \<or> i = 3" by linarith
    with i(2) consider "a = d" | "a = d + 1" | "a = d + 2" | "a = d + 3"
      by (elim disjE) simp_all
    then show ?thesis
      by cases (simp_all add: store32_def blit_def ucast_load32)
  next
    case False
    then have "a \<noteq> d" "a \<noteq> d + 1" "a \<noteq> d + 2" "a \<noteq> d + 3"
      by auto
    with False show ?thesis by (simp add: store32_def blit_def)
  qed
qed

lemma store16_load16_blit: "store16 m d (load16 m s) = blit m d s 2"
proof
  fix a :: ptr
  show "store16 m d (load16 m s) a = blit m d s 2 a"
  proof (cases "unat (a - d) < 2")
    case True
    then obtain i where i: "i < 2" "a = d + of_nat i" by (auto simp: unat_diff_less_iff)
    from i(1) have "i = 0 \<or> i = 1" by linarith
    with i(2) consider "a = d" | "a = d + 1" by (elim disjE) simp_all
    then show ?thesis
      by cases (simp_all add: store16_def blit_def ucast_load16)
  next
    case False
    then have "a \<noteq> d" "a \<noteq> d + 1"
      by auto
    with False show ?thesis by (simp add: store16_def blit_def)
  qed
qed

lemma store8_blit: "store8 m d (m s) = blit m d s 1"
  by (auto simp: store8_def blit_def fun_eq_iff unat_eq_0)

lemma blit_same [simp]: "blit m a a n = m"
  by (auto simp: blit_def fun_eq_iff)

lemma store32_load32_same [mem_simps]: "store32 m a (load32 m a) = m"
  by (simp add: store32_load32_blit)

lemma store32_store32_same [mem_simps]: "store32 (store32 m a v) a w = store32 m a w"
  by (auto simp: store32_def fun_eq_iff)

lemma store32_outside: "\<not> unat (b - a) < 4 \<Longrightarrow> store32 m a v b = m b"
  by (auto simp: store32_def)

section \<open>Fills\<close>

lemma fill_inside: "i < n \<Longrightarrow> i < 2 ^ 32 \<Longrightarrow> fill m p v n (p + of_nat i) = v"
  by (simp add: fill_def unat_of_nat_small)

lemma fill_outside: "\<not> unat (a - p) < n \<Longrightarrow> fill m p v n a = m a"
  by (simp add: fill_def)

lemma bytes_nth: "i < n \<Longrightarrow> bytes m p n ! i = m (p + of_nat i)"
  by (simp add: bytes_def)

lemma length_bytes [simp]: "length (bytes m p n) = n"
  by (simp add: bytes_def)

section \<open>Offsets from a base\<close>

lemma load32_cong:
  assumes "\<And>j. j < 4 \<Longrightarrow> m' (a + of_nat j) = m (a + of_nat j)"
  shows "load32 m' a = load32 m a"
  using assms[of 0] assms[of 1] assms[of 2] assms[of 3] by (simp add: load32_def)

lemma load32_eq_bytes:
  assumes "load32 m a = load32 m' a" "j < 4"
  shows "m (a + of_nat j) = m' (a + of_nat j)"
proof -
  consider "j = 0" | "j = 1" | "j = 2" | "j = 3" using assms(2) by linarith
  then show ?thesis
    by cases (use ucast_load32[of m a] ucast_load32[of m' a] assms(1) in simp_all)
qed

lemma off_less:
  fixes p :: ptr
  assumes "k < 2 ^ 32" "j + n \<le> 2 ^ 32"
  shows "unat (p + of_nat k - (p + of_nat j)) < n \<longleftrightarrow> j \<le> k \<and> k < j + n"
proof
  assume "unat (p + of_nat k - (p + of_nat j)) < n"
  then obtain i where i: "i < n" "p + of_nat k = p + of_nat j + of_nat i" by (auto simp: unat_diff_less_iff)
  then have "p + of_nat k = p + of_nat (j + i)" by (simp add: add.assoc)
  then have "k = j + i" using assms i(1) by (intro word_add_of_nat_inj[of p]) simp_all
  with i(1) show "j \<le> k \<and> k < j + n" by simp
next
  assume "j \<le> k \<and> k < j + n"
  then obtain i where i: "k = j + i" "i < n" by (metis le_add_diff_inverse nat_add_left_cancel_less)
  then have "p + of_nat k - (p + of_nat j) = of_nat i" by simp
  moreover have "unat (of_nat i :: ptr) = i" using i assms by (intro unat_of_nat_small) simp
  ultimately show "unat (p + of_nat k - (p + of_nat j)) < n" using i(2) by simp
qed

lemma store32_off:
  "k < 2 ^ 32 \<Longrightarrow> j + 4 \<le> 2 ^ 32 \<Longrightarrow> \<not> (j \<le> k \<and> k < j + 4) \<Longrightarrow>
     store32 m (p + of_nat j) v (p + of_nat k) = m (p + of_nat k)"
  using off_less[of k j 4 p] by (intro store32_outside) blast

lemma fill_off:
  "k < 2 ^ 32 \<Longrightarrow> j + n \<le> 2 ^ 32 \<Longrightarrow>
     fill m (p + of_nat j) v n (p + of_nat k) = (if j \<le> k \<and> k < j + n then v else m (p + of_nat k))"
  using off_less[of k j n p] unfolding fill_def by presburger

lemma load32_store32_off:
  assumes "j + 4 \<le> 2 ^ 32" "k + 4 \<le> 2 ^ 32" "j + 4 \<le> k \<or> k + 4 \<le> j"
  shows "load32 (store32 m (p + of_nat j) v) (p + of_nat k) = load32 m (p + of_nat k)"
proof (rule load32_cong)
  fix i :: nat assume i: "i < 4"
  have "store32 m (p + of_nat j) v (p + of_nat (k + i)) = m (p + of_nat (k + i))"
    using assms i by (intro store32_off) auto
  then show "store32 m (p + of_nat j) v (p + of_nat k + of_nat i) = m (p + of_nat k + of_nat i)"
    by (simp add: add.assoc)
qed

lemma load32_fill_off:
  assumes "j + n \<le> 2 ^ 32" "k + 4 \<le> 2 ^ 32" "j + n \<le> k \<or> k + 4 \<le> j"
  shows "load32 (fill m (p + of_nat j) v n) (p + of_nat k) = load32 m (p + of_nat k)"
proof (rule load32_cong)
  fix i :: nat assume i: "i < 4"
  have "fill m (p + of_nat j) v n (p + of_nat (k + i)) = m (p + of_nat (k + i))"
    using assms i by (subst fill_off) auto
  then show "fill m (p + of_nat j) v n (p + of_nat k + of_nat i) = m (p + of_nat k + of_nat i)"
    by (simp add: add.assoc)
qed

end
