(* ===== verification/Ctype.thy ===== *)
theory Ctype
  imports Kernel_Prelude
begin

text \<open>
  \<^verbatim>\<open>kernel/libc/ctype.c\<close>: classification and case mapping of a C \<open>int\<close>. The arguments
  are small, so a C \<open>int\<close> is an \<^typ>\<open>int\<close> here and no sum can overflow. A \<open>char\<close> is a
  signed byte on the target: \<open>char_int\<close> is the conversion a call \<open>toupper(*p)\<close> makes.
\<close>

definition char_int :: "u8 \<Rightarrow> int" where
  "char_int c = sint c"

definition int_char :: "int \<Rightarrow> u8" where
  "int_char i = of_int i"

definition isdigit :: "int \<Rightarrow> bool" where
  "isdigit c \<longleftrightarrow> c \<ge> 48 \<and> c \<le> 57"

definition islower :: "int \<Rightarrow> bool" where
  "islower c \<longleftrightarrow> c \<ge> 97 \<and> c \<le> 122"

definition isupper :: "int \<Rightarrow> bool" where
  "isupper c \<longleftrightarrow> c \<ge> 65 \<and> c \<le> 90"

definition isalpha :: "int \<Rightarrow> bool" where
  "isalpha c \<longleftrightarrow> islower c \<or> isupper c"

definition isalnum :: "int \<Rightarrow> bool" where
  "isalnum c \<longleftrightarrow> isalpha c \<or> isdigit c"

definition isblank :: "int \<Rightarrow> bool" where
  "isblank c \<longleftrightarrow> c = 32 \<or> c = 9"

definition iscntrl :: "int \<Rightarrow> bool" where
  "iscntrl c \<longleftrightarrow> (c \<ge> 0 \<and> c \<le> 31) \<or> c = 127"

definition isgraph :: "int \<Rightarrow> bool" where
  "isgraph c \<longleftrightarrow> c \<ge> 33 \<and> c \<le> 126"

definition isprint :: "int \<Rightarrow> bool" where
  "isprint c \<longleftrightarrow> isgraph c \<or> c = 32"

definition ispunct :: "int \<Rightarrow> bool" where
  "ispunct c \<longleftrightarrow> isgraph c \<and> \<not> isalnum c"

definition isspace :: "int \<Rightarrow> bool" where
  "isspace c \<longleftrightarrow> isblank c \<or> (c \<ge> 9 \<and> c \<le> 13)"

definition isxdigit :: "int \<Rightarrow> bool" where
  "isxdigit c \<longleftrightarrow> isdigit c \<or> (c \<ge> 97 \<and> c \<le> 102) \<or> (c \<ge> 65 \<and> c \<le> 70)"

definition toupper :: "int \<Rightarrow> int" where
  "toupper c = (if c \<ge> 97 \<and> c \<le> 122 then 65 + c - 97 else c)"

definition tolower :: "int \<Rightarrow> int" where
  "tolower c = (if c \<ge> 65 \<and> c \<le> 90 then 97 + c - 65 else c)"

lemmas ctype_defs = isdigit_def islower_def isupper_def isalpha_def isalnum_def isblank_def
  iscntrl_def isgraph_def isprint_def ispunct_def isspace_def isxdigit_def toupper_def tolower_def

text \<open>
  For every character code of a 7-bit string the classes partition the set: a code is a
  control code, the space, a letter, a digit or punctuation, and only one of them.
\<close>

lemma ctype_partition:
  assumes "0 \<le> c" "c \<le> 127"
  shows "(iscntrl c \<or> c = 32 \<or> isalpha c \<or> isdigit c \<or> ispunct c)
    \<and> \<not> (iscntrl c \<and> isprint c) \<and> \<not> (ispunct c \<and> isalnum c) \<and> \<not> (isalpha c \<and> isdigit c)
    \<and> \<not> (islower c \<and> isupper c)"
  using assms by (auto simp: ctype_defs)

lemma toupper_tolower: "islower c \<Longrightarrow> tolower (toupper c) = c"
  by (auto simp: ctype_defs)

lemma toupper_idem [simp]: "toupper (toupper c) = toupper c"
  by (auto simp: ctype_defs)

lemma toupper_not_lower: "\<not> islower (toupper c)"
  by (auto simp: ctype_defs)

lemma char_int_0 [simp]: "char_int 0 = 0"
  by (simp add: char_int_def)

lemma int_char_char_int [simp]: "int_char (char_int c) = c"
  by (simp add: int_char_def char_int_def)

lemma char_int_inj [simp]: "char_int a = char_int b \<longleftrightarrow> a = b"
  by (metis int_char_char_int)

lemma char_int_eq_0 [simp]: "char_int c = 0 \<longleftrightarrow> c = 0"
  using char_int_inj[of c 0] by simp

lemma char_int_range: "-128 \<le> char_int c" "char_int c < 128"
  using sint_ge[of c] sint_lt[of c] by (simp_all add: char_int_def)

end
