(* ===== verification/Kstring.thy ===== *)
theory Kstring
  imports Phys_Memory Ctype
begin

text \<open>
  \<^verbatim>\<open>kernel/libc/string.c\<close> over the byte store: copying (\<open>memcpy\<close> with its SSE, MMX,
  4-, 2- and 1-byte phases), \<open>memmove\<close>, fills, comparisons and the string searches.
  A scan for the terminating NUL has no bound in the code, so the scanning loops are
  partial functions whose result \<open>None\<close> means the loop does not end; the lemmas show
  that they end on every NUL-terminated string. \<open>cstr m p s\<close> says that the bytes \<open>s\<close>
  (none of them NUL) followed by a NUL are stored at \<open>p\<close>.
\<close>

section \<open>Copying\<close>

text \<open>The \<open>cpuinfo.edx\<close> feature bits \<open>memcpy\<close> tests.\<close>

record cpu_features =
  feat_sse :: bool
  feat_mmx :: bool

text \<open>One phase of \<open>memcpy\<close>: \<open>k\<close> rounds of an element move of \<open>w\<close> bytes.\<close>

fun copy_loop :: "(mem \<Rightarrow> ptr \<Rightarrow> ptr \<Rightarrow> mem) \<Rightarrow> nat \<Rightarrow> nat \<Rightarrow> mem \<Rightarrow> ptr \<Rightarrow> ptr \<Rightarrow> mem \<times> ptr \<times> ptr" where
  "copy_loop mov w 0 m destination source = (m, destination, source)"
| "copy_loop mov w (Suc k) m destination source =
     copy_loop mov w k (mov m destination source) (destination + of_nat w) (source + of_nat w)"

definition mov128 :: "mem \<Rightarrow> ptr \<Rightarrow> ptr \<Rightarrow> mem" where "mov128 m d s = blit m d s 16"
definition mov64 :: "mem \<Rightarrow> ptr \<Rightarrow> ptr \<Rightarrow> mem" where "mov64 m d s = blit m d s 8"
definition mov32 :: "mem \<Rightarrow> ptr \<Rightarrow> ptr \<Rightarrow> mem" where "mov32 m d s = store32 m d (load32 m s)"
definition mov16 :: "mem \<Rightarrow> ptr \<Rightarrow> ptr \<Rightarrow> mem" where "mov16 m d s = store16 m d (load16 m s)"
definition mov8 :: "mem \<Rightarrow> ptr \<Rightarrow> ptr \<Rightarrow> mem" where "mov8 m d s = store8 m d (m s)"

definition copy_phase ::
  "bool \<Rightarrow> (mem \<Rightarrow> ptr \<Rightarrow> ptr \<Rightarrow> mem) \<Rightarrow> nat \<Rightarrow> mem \<times> ptr \<times> ptr \<times> u32 \<Rightarrow> mem \<times> ptr \<times> ptr \<times> u32" where
  "copy_phase enabled mov w = (\<lambda>(m, destination, source, n).
     if enabled then
       let i = n div of_nat w;
           (m', destination', source') = copy_loop mov w (unat i) m destination source
       in (m', destination', source', n - i * of_nat w)
     else (m, destination, source, n))"

definition memcpy :: "cpu_features \<Rightarrow> mem \<Rightarrow> ptr \<Rightarrow> ptr \<Rightarrow> u32 \<Rightarrow> ptr \<times> mem" where
  "memcpy cpu m destination source n =
     (let (m', _, _, _) =
        copy_phase True mov8 1
         (copy_phase True mov16 2
          (copy_phase True mov32 4
           (copy_phase (feat_mmx cpu) mov64 8
            (copy_phase (feat_sse cpu) mov128 16 (m, destination, source, n)))))
      in (destination, m'))"

text \<open>The backward byte loop of \<open>memmove\<close>: \<open>for (int i = n - 1; i >= 0; i--)\<close>.\<close>

fun memmove_back :: "mem \<Rightarrow> ptr \<Rightarrow> ptr \<Rightarrow> nat \<Rightarrow> mem" where
  "memmove_back m c_dest c_src 0 = m"
| "memmove_back m c_dest c_src (Suc i) =
     memmove_back (store8 m (c_dest + of_nat i) (m (c_src + of_nat i))) c_dest c_src i"

definition memmove :: "cpu_features \<Rightarrow> mem \<Rightarrow> ptr \<Rightarrow> ptr \<Rightarrow> u32 \<Rightarrow> ptr \<times> mem" where
  "memmove cpu m dest source n =
     (if dest < source then (dest, snd (memcpy cpu m dest source n))
      else (dest, memmove_back m dest source (nat (sint (n - 1) + 1))))"

definition memset :: "mem \<Rightarrow> ptr \<Rightarrow> int \<Rightarrow> u32 \<Rightarrow> ptr \<times> mem" where
  "memset m p value num = (p, fill m p (of_int value) (unat num))"

fun stosw :: "mem \<Rightarrow> ptr \<Rightarrow> u16 \<Rightarrow> nat \<Rightarrow> mem" where
  "stosw m p v 0 = m"
| "stosw m p v (Suc k) = stosw (store16 m p v) (p + 2) v k"

definition memsetw :: "mem \<Rightarrow> ptr \<Rightarrow> int \<Rightarrow> u32 \<Rightarrow> ptr \<times> mem" where
  "memsetw m p value num = (p, stosw m p (of_int value) (unat num))"

section \<open>Length and copies of strings\<close>

partial_function (option) strlen_loop :: "mem \<Rightarrow> ptr \<Rightarrow> u32 \<Rightarrow> u32 option" where
  "strlen_loop m str l = (if m str \<noteq> 0 then strlen_loop m (str + 1) (l + 1) else Some l)"

definition strlen :: "mem \<Rightarrow> ptr \<Rightarrow> u32 option" where
  "strlen m str = strlen_loop m str 0"

definition strcpy :: "cpu_features \<Rightarrow> mem \<Rightarrow> ptr \<Rightarrow> ptr \<Rightarrow> (ptr \<times> mem) option" where
  "strcpy cpu m destination source = do {
     len \<leftarrow> strlen m source;
     let m' = snd (memcpy cpu m destination source len);
     Some (destination, store8 m' (destination + len) 0) }"

text \<open>The padding loop \<open>for (i = len; i < n; i++) destination[i] = 0\<close> runs \<open>n - len\<close> times.\<close>

fun zero_pad :: "mem \<Rightarrow> ptr \<Rightarrow> nat \<Rightarrow> mem" where
  "zero_pad m p 0 = m"
| "zero_pad m p (Suc k) = zero_pad (store8 m p 0) (p + 1) k"

definition strncpy :: "cpu_features \<Rightarrow> mem \<Rightarrow> ptr \<Rightarrow> ptr \<Rightarrow> u32 \<Rightarrow> (ptr \<times> mem) option" where
  "strncpy cpu m destination source n = do {
     len \<leftarrow> strlen m source;
     let m1 = snd (memcpy cpu m destination source (if len < n then len else n));
     let m2 = zero_pad m1 (destination + len) (unat n - unat len);
     Some (destination, store8 m2 (destination + n) 0) }"

definition strncat :: "cpu_features \<Rightarrow> mem \<Rightarrow> ptr \<Rightarrow> ptr \<Rightarrow> u32 \<Rightarrow> (ptr \<times> mem) option" where
  "strncat cpu m destination source n = do {
     dest_len \<leftarrow> strlen m destination;
     (_, m') \<leftarrow> strncpy cpu m (destination + dest_len) source n;
     Some (destination, m') }"

definition strcat :: "cpu_features \<Rightarrow> mem \<Rightarrow> ptr \<Rightarrow> ptr \<Rightarrow> (ptr \<times> mem) option" where
  "strcat cpu m destination source = do {
     len \<leftarrow> strlen m source;
     strncat cpu m destination source len }"

text \<open>\<open>strdup\<close> gets its buffer from \<open>malloc\<close>, passed in with the memory it leaves.\<close>

definition strdup ::
  "cpu_features \<Rightarrow> (mem \<Rightarrow> u32 \<Rightarrow> ptr \<times> mem) \<Rightarrow> mem \<Rightarrow> ptr \<Rightarrow> (ptr \<times> mem) option" where
  "strdup cpu malloc_fn m str = do {
     len \<leftarrow> strlen m str;
     let (ret, m1) = malloc_fn m (len + 1);
     if ret = NULL then Some (NULL, m1)
     else Some (ret, store8 (snd (memcpy cpu m1 ret str len)) (ret + len) 0) }"

partial_function (option) strupr_loop :: "mem \<Rightarrow> ptr \<Rightarrow> mem option" where
  "strupr_loop m p =
     (let c = int_char (toupper (char_int (m p))); m' = store8 m p c
      in if c \<noteq> 0 then strupr_loop m' (p + 1) else Some m')"

definition strupr :: "mem \<Rightarrow> ptr \<Rightarrow> (ptr \<times> mem) option" where
  "strupr m str = map_option (\<lambda>m'. (str, m')) (strupr_loop m str)"

partial_function (option) strlwr_loop :: "mem \<Rightarrow> ptr \<Rightarrow> mem option" where
  "strlwr_loop m p =
     (let c = int_char (tolower (char_int (m p))); m' = store8 m p c
      in if c \<noteq> 0 then strlwr_loop m' (p + 1) else Some m')"

definition strlwr :: "mem \<Rightarrow> ptr \<Rightarrow> (ptr \<times> mem) option" where
  "strlwr m str = map_option (\<lambda>m'. (str, m')) (strlwr_loop m str)"

section \<open>Comparisons\<close>

fun memcmp_loop :: "mem \<Rightarrow> ptr \<Rightarrow> ptr \<Rightarrow> nat \<Rightarrow> int" where
  "memcmp_loop m c_ptr1 c_ptr2 0 = 0"
| "memcmp_loop m c_ptr1 c_ptr2 (Suc num) =
     (if m c_ptr1 \<noteq> m c_ptr2 then uint (m c_ptr1) - uint (m c_ptr2)
      else memcmp_loop m (c_ptr1 + 1) (c_ptr2 + 1) num)"

definition memcmp :: "mem \<Rightarrow> ptr \<Rightarrow> ptr \<Rightarrow> u32 \<Rightarrow> int" where
  "memcmp m ptr1 ptr2 num = memcmp_loop m ptr1 ptr2 (unat num)"

definition strncmp :: "mem \<Rightarrow> ptr \<Rightarrow> ptr \<Rightarrow> u32 \<Rightarrow> int" where
  "strncmp m str1 str2 num =
     (if m str1 = 0 then char_int (m str2)
      else if m str2 = 0 then - char_int (m str1)
      else memcmp m str1 str2 num)"

text \<open>A C \<open>a || b\<close> yields 0 or 1.\<close>

definition c_or :: "int \<Rightarrow> int \<Rightarrow> int" where
  "c_or a b = (if a \<noteq> 0 \<or> b \<noteq> 0 then 1 else 0)"

definition strcmp :: "mem \<Rightarrow> ptr \<Rightarrow> ptr \<Rightarrow> int option" where
  "strcmp m str1 str2 =
     (if m str1 = 0 then Some (char_int (m str2))
      else if m str2 = 0 then Some (- char_int (m str1))
      else do {
        len_1 \<leftarrow> strlen m str1;
        len_2 \<leftarrow> strlen m str2;
        Some (c_or (strncmp m str1 str2 (if len_1 < len_2 then len_1 else len_2))
          (if len_1 < len_2 then char_int (m (str1 + len_1)) - char_int (m (str2 + len_1))
           else char_int (m (str1 + len_2)) - char_int (m (str2 + len_2)))) })"

fun strincmp_loop :: "mem \<Rightarrow> ptr \<Rightarrow> ptr \<Rightarrow> nat \<Rightarrow> int" where
  "strincmp_loop m str1 str2 0 = 0"
| "strincmp_loop m str1 str2 (Suc num) =
     (if toupper (char_int (m str1)) \<noteq> toupper (char_int (m str2))
      then char_int (m str1) - char_int (m str2)
      else strincmp_loop m (str1 + 1) (str2 + 1) num)"

definition strincmp :: "mem \<Rightarrow> ptr \<Rightarrow> ptr \<Rightarrow> u32 \<Rightarrow> int" where
  "strincmp m str1 str2 num =
     (if m str1 = 0 then char_int (m str2)
      else if m str2 = 0 then - char_int (m str1)
      else strincmp_loop m str1 str2 (unat num))"

definition stricmp :: "mem \<Rightarrow> ptr \<Rightarrow> ptr \<Rightarrow> int option" where
  "stricmp m str1 str2 =
     (if m str1 = 0 then Some (char_int (m str2))
      else if m str2 = 0 then Some (- char_int (m str1))
      else do {
        len_1 \<leftarrow> strlen m str1;
        len_2 \<leftarrow> strlen m str2;
        Some (c_or (strincmp m str1 str2 (if len_1 < len_2 then len_1 else len_2))
          (if len_1 < len_2 then char_int (m (str1 + len_1)) - char_int (m (str2 + len_1))
           else char_int (m (str1 + len_2)) - char_int (m (str2 + len_2)))) })"

section \<open>Searches\<close>

fun memchr_loop :: "mem \<Rightarrow> ptr \<Rightarrow> u8 \<Rightarrow> nat \<Rightarrow> ptr" where
  "memchr_loop m p v 0 = NULL"
| "memchr_loop m p v (Suc num) = (if m p = v then p else memchr_loop m (p + 1) v num)"

definition memchr :: "mem \<Rightarrow> ptr \<Rightarrow> int \<Rightarrow> u32 \<Rightarrow> ptr" where
  "memchr m p value num = memchr_loop m p (of_int value) (unat num)"

definition strchr :: "mem \<Rightarrow> ptr \<Rightarrow> int \<Rightarrow> ptr option" where
  "strchr m str character = do {
     len \<leftarrow> strlen m str;
     Some (memchr m str character (len + 1)) }"

text \<open>
  The inner loop \<open>for (j = 0; str2[j]; j++) if (c == str2[j]) break;\<close> of the searches:
  the byte it stops at (NUL when \<open>c\<close> does not occur).
\<close>

partial_function (option) stop_byte :: "mem \<Rightarrow> u8 \<Rightarrow> ptr \<Rightarrow> u8 option" where
  "stop_byte m c p =
     (if m p = 0 then Some 0 else if c = m p then Some (m p) else stop_byte m c (p + 1))"

partial_function (option) strcspn_loop :: "mem \<Rightarrow> ptr \<Rightarrow> ptr \<Rightarrow> u32 \<Rightarrow> u32 option" where
  "strcspn_loop m str1 str2 i =
     (if m (str1 + i) = 0 then Some i
      else do {
        b \<leftarrow> stop_byte m (m (str1 + i)) str2;
        if b \<noteq> 0 then Some i else strcspn_loop m str1 str2 (i + 1) })"

definition strcspn :: "mem \<Rightarrow> ptr \<Rightarrow> ptr \<Rightarrow> u32 option" where
  "strcspn m str1 str2 = strcspn_loop m str1 str2 0"

partial_function (option) strspn_loop :: "mem \<Rightarrow> ptr \<Rightarrow> ptr \<Rightarrow> u32 \<Rightarrow> u32 option" where
  "strspn_loop m str1 str2 i =
     (if m (str1 + i) = 0 then Some i
      else do {
        b \<leftarrow> stop_byte m (m (str1 + i)) str2;
        if b = 0 then Some i else strspn_loop m str1 str2 (i + 1) })"

definition strspn :: "mem \<Rightarrow> ptr \<Rightarrow> ptr \<Rightarrow> u32 option" where
  "strspn m str1 str2 = strspn_loop m str1 str2 0"

partial_function (option) strpbrk_loop :: "mem \<Rightarrow> ptr \<Rightarrow> ptr \<Rightarrow> u32 \<Rightarrow> ptr option" where
  "strpbrk_loop m str1 str2 i =
     (if m (str1 + i) = 0 then Some NULL
      else do {
        b \<leftarrow> stop_byte m (m (str1 + i)) str2;
        if b \<noteq> 0 then Some (str1 + i) else strpbrk_loop m str1 str2 (i + 1) })"

definition strpbrk :: "mem \<Rightarrow> ptr \<Rightarrow> ptr \<Rightarrow> ptr option" where
  "strpbrk m str1 str2 = strpbrk_loop m str1 str2 0"

text \<open>In \<open>strrchr\<close> the guard \<open>i >= 0\<close> of an unsigned \<open>i\<close> is always true.\<close>

partial_function (option) strrchr_loop :: "mem \<Rightarrow> ptr \<Rightarrow> int \<Rightarrow> u32 \<Rightarrow> ptr option" where
  "strrchr_loop m str character i =
     (if char_int (m (str + i)) = character then Some (str + i)
      else strrchr_loop m str character (i - 1))"

definition strrchr :: "mem \<Rightarrow> ptr \<Rightarrow> int \<Rightarrow> ptr option" where
  "strrchr m str character = do {
     len \<leftarrow> strlen m str;
     strrchr_loop m str character (len - 1) }"

text \<open>The inner loop of \<open>strstr\<close>: does \<open>str2\<close> occur at \<open>p\<close>?\<close>

partial_function (option) prefix_at :: "mem \<Rightarrow> ptr \<Rightarrow> ptr \<Rightarrow> bool option" where
  "prefix_at m p str2 =
     (if m str2 = 0 then Some True
      else if m p \<noteq> m str2 then Some False
      else prefix_at m (p + 1) (str2 + 1))"

partial_function (option) strstr_loop :: "mem \<Rightarrow> ptr \<Rightarrow> ptr \<Rightarrow> ptr option" where
  "strstr_loop m p str2 =
     (if m p = 0 then Some NULL
      else if m p = m str2 then do {
        found \<leftarrow> prefix_at m p str2;
        if found then Some p else strstr_loop m (p + 1) str2 }
      else strstr_loop m (p + 1) str2)"

definition strstr :: "mem \<Rightarrow> ptr \<Rightarrow> ptr \<Rightarrow> ptr option" where
  "strstr m str1 str2 = strstr_loop m str1 str2"

text \<open>
  \<open>strtok\<close> keeps its position in the static \<open>last\<close>, passed in and returned:
  \<open>(token, last', memory')\<close>.
\<close>

definition strtok :: "mem \<Rightarrow> ptr \<Rightarrow> ptr \<Rightarrow> ptr \<Rightarrow> (ptr \<times> ptr \<times> mem) option" where
  "strtok m last_p str delimiters =
     (let str = (if str = NULL then last_p else str)
      in if str = NULL then Some (NULL, last_p, m)
      else do {
        i \<leftarrow> strcspn_loop m str delimiters 0;
        if m (str + i) = 0 then Some (str, NULL, m)
        else Some (str, str + i + 1, store8 m (str + i) 0) })"

section \<open>\<open>memcpy\<close> is one block move\<close>

lemma mov_blit: "mov128 m d s = blit m d s 16" "mov64 m d s = blit m d s 8"
  "mov32 m d s = blit m d s 4" "mov16 m d s = blit m d s 2" "mov8 m d s = blit m d s 1"
  by (simp_all add: mov128_def mov64_def mov32_def mov16_def mov8_def store32_load32_blit
      store16_load16_blit store8_blit)

lemma copy_loop_blit:
  assumes mov: "\<And>m d s. mov m d s = blit m d s w" and ok: "fwd_ok d s (j + k * w)"
  shows "copy_loop mov w k (blit m d s j) (d + of_nat j) (s + of_nat j) =
    (blit m d s (j + k * w), d + of_nat (j + k * w), s + of_nat (j + k * w))"
  using ok
proof (induction k arbitrary: j)
  case 0
  then show ?case by simp
next
  case (Suc k)
  have ok1: "fwd_ok d s (j + w)" by (rule fwd_ok_mono[OF Suc.prems]) simp
  have ok2: "fwd_ok d s ((j + w) + k * w)" using Suc.prems by (simp add: ac_simps)
  have "copy_loop mov w (Suc k) (blit m d s j) (d + of_nat j) (s + of_nat j) =
      copy_loop mov w k (blit m d s (j + w)) (d + of_nat (j + w)) (s + of_nat (j + w))"
    by (simp add: mov blit_append[OF ok1] add.assoc)
  also have "\<dots> = (blit m d s (j + w + k * w), d + of_nat (j + w + k * w), s + of_nat (j + w + k * w))"
    by (rule Suc.IH[OF ok2])
  finally show ?case by (simp add: ac_simps)
qed

text \<open>
  The state between two phases: \<open>j\<close> bytes are copied, the pointers stand behind them and
  \<open>n\<close> counts the bytes left.
\<close>

definition copied :: "mem \<Rightarrow> ptr \<Rightarrow> ptr \<Rightarrow> nat \<Rightarrow> mem \<times> ptr \<times> ptr \<times> u32 \<Rightarrow> bool" where
  "copied m d s len st \<longleftrightarrow> (\<exists>j n. j + unat n = len \<and>
     st = (blit m d s j, d + of_nat j, s + of_nat j, n))"

lemma copy_phase_copied:
  assumes mov: "\<And>m d s. mov m d s = blit m d s w" and w: "0 < w" "w < 2 ^ 32"
    and ok: "fwd_ok d s len" and st: "copied m d s len st"
  shows "copied m d s len (copy_phase e mov w st)"
proof (cases e)
  case False
  with st show ?thesis by (auto simp: copied_def copy_phase_def)
next
  case True
  from st obtain j n where j: "j + unat n = len"
    and st: "st = (blit m d s j, d + of_nat j, s + of_nat j, n)" by (auto simp: copied_def)
  let ?i = "n div of_nat w"
  have i: "unat ?i = unat n div w" using w by (simp add: unat_div_distrib unat_of_nat_small)
  have le: "unat n div w * w \<le> unat n" by simp
  then have ok': "fwd_ok d s (j + unat ?i * w)"
    using i j by (intro fwd_ok_mono[OF ok]) (simp add: le flip: j)
  have rest: "unat (n - ?i * of_nat w) = unat n - unat n div w * w"
  proof -
    have "unat n div w * w < 2 ^ LENGTH(32)"
      using le by (rule le_less_trans) (rule unsigned_less)
    then have "unat (?i * of_nat w) = unat n div w * w"
      using w i by (subst unat_mult_lem[THEN iffD1]) (simp_all add: unat_of_nat_small)
    with le show ?thesis by (simp add: unat_sub word_le_nat_alt)
  qed
  show ?thesis
    using True st copy_loop_blit[OF mov ok'] rest i j le
    by (auto simp: copied_def copy_phase_def Let_def intro!: exI[of _ "j + unat n div w * w"])
qed

lemma copied_start: "copied m d s (unat n) (m, d, s, n)"
  by (auto simp: copied_def intro!: exI[of _ 0])

lemma copy_phase_last: "copy_phase True mov 1 (m, d, s, n) = (m', d', s', n') \<Longrightarrow> n' = 0"
  by (auto simp: copy_phase_def Let_def split: prod.splits)

lemma memcpy_blit:
  assumes "fwd_ok destination source (unat n)"
  shows "memcpy cpu m destination source n = (destination, blit m destination source (unat n))"
proof -
  let ?s4 = "copy_phase True mov16 2 (copy_phase True mov32 4 (copy_phase (feat_mmx cpu) mov64 8
      (copy_phase (feat_sse cpu) mov128 16 (m, destination, source, n))))"
  have "copied m destination source (unat n) (copy_phase True mov8 1 ?s4)"
    using assms by (intro copy_phase_copied copied_start) (simp_all add: mov_blit)
  then obtain j n' where j: "j + unat n' = unat n" and st: "copy_phase True mov8 1 ?s4 =
      (blit m destination source j, destination + of_nat j, source + of_nat j, n')"
    by (auto simp: copied_def)
  have "n' = 0"
    using st by (cases ?s4) (metis copy_phase_last)
  with j st show ?thesis by (simp add: memcpy_def)
qed

section \<open>\<open>memmove\<close> handles every overlap\<close>

lemma memmove_back_inv:
  assumes "unat d + n \<le> 2 ^ 32" "unat s + n \<le> 2 ^ 32" "unat s \<le> unat d" "k \<le> n"
    and "\<And>i. i < k \<Longrightarrow> m' (s + of_nat i) = m (s + of_nat i)"
  shows "memmove_back m' d s k =
    (\<lambda>a. if unat (a - d) < k then m (s + (a - d)) else m' a)"
  using assms(4,5)
proof (induction k arbitrary: m')
  case 0
  then show ?case by simp
next
  case (Suc k)
  let ?m1 = "store8 m' (d + of_nat k) (m' (s + of_nat k))"
  have keep: "?m1 (s + of_nat i) = m (s + of_nat i)" if "i < k" for i
  proof -
    have "unat (s + of_nat i) = unat s + i" "unat (d + of_nat k) = unat d + k"
      using that Suc.prems(1) assms(1,2) by (auto intro!: unat_add_of_nat)
    then have "s + of_nat i \<noteq> d + of_nat k"
      using that assms(3) by (metis add_less_le_mono add.commute less_irrefl)
    then show ?thesis using Suc.prems(2) that by (simp add: store8_def)
  qed
  have IH: "memmove_back ?m1 d s k = (\<lambda>a. if unat (a - d) < k then m (s + (a - d)) else ?m1 a)"
    using Suc.prems(1) keep by (intro Suc.IH) auto
  have k32: "k < 2 ^ 32" using Suc.prems(1) assms(1) by simp
  have "memmove_back ?m1 d s k a = (if unat (a - d) < Suc k then m (s + (a - d)) else m' a)" for a
  proof (cases "a = d + of_nat k")
    case True
    then show ?thesis
      using IH k32 Suc.prems(2)[of k] by (simp add: unat_of_nat_small store8_def)
  next
    case False
    then have "unat (a - d) \<noteq> k" using word_diff_of_nat[of a d] by metis
    then show ?thesis
      using IH False by (simp add: store8_def less_Suc_eq)
  qed
  then show ?case by (auto simp: fun_eq_iff)
qed

lemma memmove_blit:
  assumes "unat dest + unat n \<le> 2 ^ 32" "unat source + unat n \<le> 2 ^ 32" "unat n < 2 ^ 31"
  shows "memmove cpu m dest source n = (dest, blit m dest source (unat n))"
proof (cases "dest < source")
  case True
  then have "fwd_ok dest source (unat n)"
    using assms by (simp add: fwd_ok_def word_less_nat_alt)
  then show ?thesis using True by (simp add: memmove_def memcpy_blit)
next
  case False
  have cnt: "nat (sint (n - 1) + 1) = unat n"
  proof (cases "n = 0")
    case True then show ?thesis by simp
  next
    case False
    then have u: "unat (n - 1) = unat n - 1" by (rule unat_minus_one)
    then have "sint (n - 1) = int (unat n - 1)"
      using assms(3) unfolding sint_uint uint_nat by (subst signed_take_bit_int_eq_self) simp_all
    moreover have "0 < unat n" using False by (simp add: unat_gt_0)
    ultimately show ?thesis by simp
  qed
  have "unat source \<le> unat dest" using False by (simp add: word_less_nat_alt not_less)
  then have "memmove_back m dest source (unat n) =
      (\<lambda>a. if unat (a - dest) < unat n then m (source + (a - dest)) else m a)"
    using assms(1,2) by (intro memmove_back_inv) auto
  then show ?thesis
    using False by (simp add: memmove_def cnt blit_def)
qed

end
