(* ===== verification/Kstring_Laws.thy ===== *)
theory Kstring_Laws
  imports Kstring
begin

text \<open>
  What the string functions of \<^verbatim>\<open>string.c\<close> compute on NUL-terminated strings: every
  scanning loop ends, and its result is the list function named in the lemma.
\<close>

section \<open>NUL-terminated strings\<close>

primrec cstr :: "mem \<Rightarrow> ptr \<Rightarrow> u8 list \<Rightarrow> bool" where
  "cstr m p [] \<longleftrightarrow> m p = 0"
| "cstr m p (c # cs) \<longleftrightarrow> m p = c \<and> c \<noteq> 0 \<and> cstr m (p + 1) cs"

lemma cstr_nth: "cstr m p s \<Longrightarrow> i < length s \<Longrightarrow> m (p + of_nat i) = s ! i \<and> s ! i \<noteq> 0"
proof (induction s arbitrary: p i)
  case Nil then show ?case by simp
next
  case (Cons c s)
  then show ?case
    by (cases i) (auto simp: add.assoc dest: Cons.IH[of "p + 1"])
qed

lemma cstr_end: "cstr m p s \<Longrightarrow> m (p + of_nat (length s)) = 0"
proof (induction s arbitrary: p)
  case (Cons c s)
  then have "m (p + 1 + of_nat (length s)) = 0" by auto
  then show ?case by (simp add: add.assoc)
qed simp

lemma cstrI [cstr_intros]:
  assumes "\<And>i. i < length s \<Longrightarrow> m (p + of_nat i) = s ! i" "m (p + of_nat (length s)) = 0" "0 \<notin> set s"
  shows "cstr m p s"
  using assms
proof (induction s arbitrary: p)
  case Nil then show ?case by simp
next
  case (Cons c s)
  have "m p = c" using Cons.prems(1)[of 0] by simp
  moreover have "cstr m (p + 1) s"
  proof (rule Cons.IH)
    show "m (p + 1 + of_nat i) = s ! i" if "i < length s" for i
      using Cons.prems(1)[of "Suc i"] that by (simp add: add.assoc)
  qed (use Cons.prems in \<open>simp_all add: add.assoc\<close>)
  ultimately show ?case using Cons.prems(3) by simp
qed

lemma cstr_not_0: "cstr m p s \<Longrightarrow> 0 \<notin> set s"
  by (induction s arbitrary: p) auto

lemma cstr_unique: "cstr m p s \<Longrightarrow> cstr m p t \<Longrightarrow> s = t"
  by (induction s arbitrary: p t) (case_tac t; auto)+

lemma cstr_drop: "cstr m p s \<Longrightarrow> i \<le> length s \<Longrightarrow> cstr m (p + of_nat i) (drop i s)"
proof (induction i arbitrary: p s)
  case 0 then show ?case by simp
next
  case (Suc i)
  then show ?case by (cases s) (auto simp: add.assoc dest: Suc.IH)
qed

lemma cstr_length: "cstr m p s \<Longrightarrow> length s < 2 ^ 32"
proof (rule ccontr)
  assume c: "cstr m p s" and "\<not> length s < 2 ^ 32"
  then have "2 ^ 32 \<le> length s" by simp
  then obtain k where k: "length s = k + 2 ^ 32" by (metis le_add_diff_inverse2)
  have "(of_nat (2 ^ 32) :: ptr) = 0" by simp
  then have "(of_nat (length s) :: ptr) = of_nat k" unfolding k of_nat_add by simp
  then have "m (p + of_nat k) = 0" using cstr_end[OF c] by simp
  then show False using cstr_nth[OF c, of k] k by simp
qed

lemma unat_cstr_length: "cstr m p s \<Longrightarrow> unat (of_nat (length s) :: u32) = length s"
  using cstr_length by (simp add: unat_of_nat_small)

lemma cstr_cong: "cstr m p s \<Longrightarrow> (\<And>i. i \<le> length s \<Longrightarrow> m' (p + of_nat i) = m (p + of_nat i)) \<Longrightarrow> cstr m' p s"
  by (rule cstrI) (auto simp: cstr_nth cstr_end cstr_not_0)

section \<open>Length and copies\<close>

lemma strlen_loop_cstr: "cstr m p s \<Longrightarrow> strlen_loop m p l = Some (l + of_nat (length s))"
proof (induction s arbitrary: p l)
  case Nil
  then show ?case by (simp add: strlen_loop.simps[of m p])
next
  case (Cons c s)
  then have "strlen_loop m (p + 1) (l + 1) = Some (l + 1 + of_nat (length s))" by simp
  with Cons.prems show ?case by (simp add: strlen_loop.simps[of m p] add.assoc)
qed

lemma strlen_cstr: "cstr m p s \<Longrightarrow> strlen m p = Some (of_nat (length s))"
  by (simp add: strlen_def strlen_loop_cstr)

lemma strcpy_cstr:
  assumes s: "cstr m source s" and ok: "fwd_ok destination source (length s)"
    and fits: "unat destination + length s < 2 ^ 32"
  shows "\<exists>m'. strcpy cpu m destination source = Some (destination, m') \<and> cstr m' destination s
    \<and> (\<forall>a. length s < unat (a - destination) \<longrightarrow> m' a = m a)"
proof -
  let ?n = "of_nat (length s) :: u32"
  let ?m' = "store8 (blit m destination source (length s)) (destination + ?n) 0"
  have n: "unat ?n = length s" by (rule unat_cstr_length[OF s])
  have run: "strcpy cpu m destination source = Some (destination, ?m')"
    using ok by (simp add: strcpy_def strlen_cstr[OF s] memcpy_blit n)
  have "?m' (destination + of_nat i) = s ! i" if "i < length s" for i
  proof -
    have "destination + of_nat i \<noteq> destination + ?n"
      using that cstr_length[OF s] word_add_of_nat_inj[of destination i "length s"] by auto
    then show ?thesis
      using that cstr_length[OF s] cstr_nth[OF s that] by (simp add: store8_def blit_inside)
  qed
  then have "cstr ?m' destination s"
    by (intro cstrI) (simp_all add: store8_def cstr_not_0[OF s])
  moreover have "?m' a = m a" if "length s < unat (a - destination)" for a
    using that n by (auto simp: store8_def blit_def)
  ultimately show ?thesis using run by blast
qed

lemma fill_Suc:
  assumes "Suc k \<le> 2 ^ 32"
  shows "fill (store8 m p v) (p + 1) v k = fill m p v (Suc k)"
proof
  fix a
  show "fill (store8 m p v) (p + 1) v k a = fill m p v (Suc k) a"
  proof (cases "a = p")
    case True
    then show ?thesis by (simp add: fill_def store8_def)
  next
    case False
    then have "unat (a - (p + 1)) = unat (a - p) - 1" "0 < unat (a - p)"
      using unat_minus_one[of "a - p"] by (simp_all add: algebra_simps unat_gt_0)
    then show ?thesis using False by (auto simp: fill_def store8_def)
  qed
qed

lemma zero_pad_fill: "k \<le> 2 ^ 32 \<Longrightarrow> zero_pad m p k = fill m p 0 k"
proof (induction k arbitrary: m p)
  case 0 then show ?case by (simp add: fill_def)
next
  case (Suc k) then show ?case by (simp add: fill_Suc)
qed

text \<open>
  \<open>strncpy\<close> copies at most \<open>n\<close> bytes, pads with NULs up to index \<open>n - 1\<close> and, unlike
  the ISO C function, also writes a NUL at index \<open>n\<close>: it always writes \<open>n + 1\<close> bytes.
\<close>

lemma strncpy_bytes:
  assumes s: "cstr m source s" and ok: "fwd_ok destination source (min (length s) (unat n))"
    and fits: "unat destination + unat n < 2 ^ 32"
  shows "\<exists>m'. strncpy cpu m destination source n = Some (destination, m')
    \<and> (\<forall>i \<le> unat n. m' (destination + of_nat i) = (if i < min (length s) (unat n) then s ! i else 0))
    \<and> (\<forall>a. unat n < unat (a - destination) \<longrightarrow> m' a = m a)"
proof -
  let ?l = "of_nat (length s) :: u32" and ?d = destination
  let ?k = "min (length s) (unat n)"
  have l: "unat ?l = length s" by (rule unat_cstr_length[OF s])
  let ?m1 = "blit m ?d source ?k"
  let ?m2 = "fill ?m1 (?d + ?l) 0 (unat n - length s)"
  let ?m' = "store8 ?m2 (?d + n) 0"
  have "unat (if ?l < n then ?l else n) = ?k" using l by (simp add: word_less_nat_alt)
  then have run: "strncpy cpu m ?d source n = Some (?d, ?m')"
    using ok fits by (simp add: strncpy_def strlen_cstr[OF s] memcpy_blit l zero_pad_fill Let_def)
  have n_idx: "?d + n = ?d + of_nat (unat n)" by simp
  have inj: "?d + of_nat i = ?d + (of_nat j :: ptr) \<longleftrightarrow> i = j" if "i \<le> unat n" "j \<le> unat n" for i j
    using that fits word_add_of_nat_inj[of ?d i j] by auto
  have in_pad: "unat (?d + of_nat i - (?d + ?l)) < unat n - length s \<longleftrightarrow> length s \<le> i" 
    if i: "i < unat n" and ls: "length s < unat n" for i
  proof (cases "length s \<le> i")
    case True
    then have "?d + of_nat i - (?d + ?l) = of_nat (i - length s)" by (simp add: of_nat_diff)
    moreover have "unat (of_nat (i - length s) :: ptr) = i - length s"
      using i fits by (intro unat_of_nat_small) simp
    ultimately show ?thesis using True i by (simp only:) simp
  next
    case False
    have "\<not> unat (?d + of_nat i - (?d + ?l)) < unat n - length s"
    proof
      assume "unat (?d + of_nat i - (?d + ?l)) < unat n - length s"
      then obtain j where j: "j < unat n - length s" "?d + of_nat i = ?d + ?l + of_nat j"
        by (auto simp: unat_diff_less_iff)
      then have "?d + of_nat i = ?d + (of_nat (length s + j) :: ptr)" by (simp add: add.assoc)
      moreover have "length s + j \<le> unat n" using j(1) ls by linarith
      ultimately have "i = length s + j" using inj[of i "length s + j"] i by (simp del: of_nat_add)
      with False show False by simp
    qed
    with False show ?thesis by simp
  qed
  have "?m' (?d + of_nat i) = (if i < ?k then s ! i else 0)" if i: "i \<le> unat n" for i
  proof (cases "i = unat n")
    case True then show ?thesis using n_idx by (simp add: store8_def)
  next
    case False
    then have neq: "?d + of_nat i \<noteq> ?d + n" unfolding n_idx using inj[of i "unat n"] i by blast
    have i32: "i < 2 ^ 32" using i fits by simp
    show ?thesis
    proof (cases "i < length s")
      case True
      then have "?m2 (?d + of_nat i) = ?m1 (?d + of_nat i)"
        using in_pad[of i] False i by (cases "length s < unat n") (simp_all add: fill_def)
      then show ?thesis
        using neq True False i i32 cstr_nth[OF s True] by (simp add: store8_def blit_inside)
    next
      case ge: False
      then show ?thesis
        using neq in_pad[of i] False i by (simp add: store8_def fill_def)
    qed
  qed
  moreover have "?m' a = m a" if a: "unat n < unat (a - ?d)" for a
  proof -
    have "\<not> unat (a - (?d + ?l)) < unat n - length s"
    proof
      assume "unat (a - (?d + ?l)) < unat n - length s"
      then obtain j where j: "j < unat n - length s" "a = ?d + ?l + of_nat j"
        by (auto simp: unat_diff_less_iff)
      then have "a - ?d = of_nat (length s + j)" by simp
      then have "unat (a - ?d) = length s + j" using j(1) fits by (simp add: unat_of_nat_small del: of_nat_add)
      with a j(1) show False by simp
    qed
    with a show ?thesis by (auto simp: store8_def fill_def blit_def)
  qed
  ultimately show ?thesis using run by blast
qed

section \<open>Comparisons\<close>

lemma memcmp_loop_zero: "memcmp_loop m p q n = 0 \<longleftrightarrow> (\<forall>i<n. m (p + of_nat i) = m (q + of_nat i))"
proof (induction n arbitrary: p q)
  case 0 then show ?case by simp
next
  case (Suc n)
  show ?case
    using Suc.IH[of "p + 1" "q + 1"] by (simp add: all_less_Suc_shift add.assoc word_uint_eq_iff)
qed

lemma memcmp_zero: "memcmp m p q n = 0 \<longleftrightarrow> bytes m p (unat n) = bytes m q (unat n)"
  by (simp add: memcmp_def memcmp_loop_zero list_eq_iff_nth_eq bytes_nth)

lemma cstr_eq_iff:
  assumes "cstr m p s" "cstr m q t"
  shows "s = t \<longleftrightarrow> length s = length t \<and> (\<forall>i<length s. m (p + of_nat i) = m (q + of_nat i))"
  using cstr_nth[OF assms(1)] cstr_nth[OF assms(2)] by (auto simp: list_eq_iff_nth_eq)

lemma strcmp_cstr_zero:
  assumes s: "cstr m str1 s" and t: "cstr m str2 t"
  shows "\<exists>r. strcmp m str1 str2 = Some r \<and> (r = 0 \<longleftrightarrow> s = t)"
proof (cases "s = [] \<or> t = []")
  case True
  then show ?thesis
    using s t by (cases s; cases t) (auto simp: strcmp_def)
next
  case False
  then have nz: "m str1 \<noteq> 0" "m str2 \<noteq> 0" using s t by (cases s; cases t; auto)+
  let ?a = "of_nat (length s) :: u32" and ?b = "of_nat (length t) :: u32"
  have u: "unat ?a = length s" "unat ?b = length t"
    using unat_cstr_length s t by blast+
  have lt: "?a < ?b \<longleftrightarrow> length s < length t" by (simp add: word_less_nat_alt u)
  show ?thesis
  proof (cases "length s < length t")
    case True
    then have "m (str1 + ?a) = 0" "m (str2 + ?a) \<noteq> 0"
      using cstr_end[OF s] cstr_nth[OF t True] by auto
    moreover have "s \<noteq> t" using True by auto
    ultimately show ?thesis
      using True nz by (simp add: strcmp_def strlen_cstr[OF s] strlen_cstr[OF t] lt c_or_def)
  next
    case ge: False
    have "m (str1 + ?b) = 0 \<longleftrightarrow> length s = length t"
      using ge cstr_end[OF s] cstr_nth[OF s, of "length t"] by (cases "length s = length t") auto
    moreover have "strncmp m str1 str2 ?b = 0 \<longleftrightarrow>
        (\<forall>i<length t. m (str1 + of_nat i) = m (str2 + of_nat i))"
      using nz by (simp add: strncmp_def memcmp_def memcmp_loop_zero u)
    ultimately show ?thesis
      using ge nz cstr_end[OF t] cstr_eq_iff[OF s t]
      by (auto simp: strcmp_def strlen_cstr[OF s] strlen_cstr[OF t] lt c_or_def)
  qed
qed

text \<open>The comparison through \<open>toupper\<close> that file names on FAT volumes go through.\<close>

lemma strincmp_loop_zero:
  "strincmp_loop m p q n = 0 \<longleftrightarrow>
     (\<forall>i<n. toupper (char_int (m (p + of_nat i))) = toupper (char_int (m (q + of_nat i))))"
proof (induction n arbitrary: p q)
  case 0 then show ?case by simp
next
  case (Suc n)
  have "toupper (char_int (m p)) \<noteq> toupper (char_int (m q)) \<Longrightarrow> char_int (m p) - char_int (m q) \<noteq> 0"
    by auto
  then show ?case
    using Suc.IH[of "p + 1" "q + 1"] by (simp add: all_less_Suc_shift add.assoc)
qed

lemma stricmp_cstr_zero:
  assumes s: "cstr m str1 s" and t: "cstr m str2 t"
  shows "\<exists>r. stricmp m str1 str2 = Some r \<and>
    (r = 0 \<longleftrightarrow> map (toupper \<circ> char_int) s = map (toupper \<circ> char_int) t)"
proof (cases "s = [] \<or> t = []")
  case True
  then show ?thesis
    using s t by (cases s; cases t) (auto simp: stricmp_def)
next
  case False
  then have nz: "m str1 \<noteq> 0" "m str2 \<noteq> 0" using s t by (cases s; cases t; auto)+
  let ?a = "of_nat (length s) :: u32" and ?b = "of_nat (length t) :: u32"
  let ?up = "toupper \<circ> char_int"
  have u: "unat ?a = length s" "unat ?b = length t"
    using unat_cstr_length s t by blast+
  have lt: "?a < ?b \<longleftrightarrow> length s < length t" by (simp add: word_less_nat_alt u)
  show ?thesis
  proof (cases "length s < length t")
    case True
    then have "m (str1 + ?a) = 0" "m (str2 + ?a) \<noteq> 0"
      using cstr_end[OF s] cstr_nth[OF t True] by auto
    moreover have "map ?up s \<noteq> map ?up t" using True map_eq_imp_length_eq by fastforce
    ultimately show ?thesis
      using True nz by (simp add: stricmp_def strlen_cstr[OF s] strlen_cstr[OF t] lt c_or_def)
  next
    case ge: False
    have "m (str1 + ?b) = 0 \<longleftrightarrow> length s = length t"
      using ge cstr_end[OF s] cstr_nth[OF s, of "length t"] by (cases "length s = length t") auto
    moreover have "strincmp m str1 str2 ?b = 0 \<longleftrightarrow>
        (\<forall>i<length t. ?up (m (str1 + of_nat i)) = ?up (m (str2 + of_nat i)))"
      using nz by (simp add: strincmp_def strincmp_loop_zero u)
    moreover have "map ?up s = map ?up t \<longleftrightarrow> length s = length t \<and>
        (\<forall>i<length t. ?up (m (str1 + of_nat i)) = ?up (m (str2 + of_nat i)))"
      using cstr_nth[OF s] cstr_nth[OF t] by (auto simp: list_eq_iff_nth_eq)
    ultimately show ?thesis
      using ge nz cstr_end[OF t]
      by (auto simp: stricmp_def strlen_cstr[OF s] strlen_cstr[OF t] lt c_or_def)
  qed
qed

section \<open>Searches\<close>

lemma stop_byte_cstr: "cstr m p t \<Longrightarrow> stop_byte m c p = Some (if c \<in> set t then c else 0)"
proof (induction t arbitrary: p)
  case Nil
  then show ?case by (simp add: stop_byte.simps[of m c p])
next
  case (Cons b t)
  then show ?case by (simp add: stop_byte.simps[of m c p])
qed

lemma strcspn_loop_cstr:
  assumes t: "cstr m q t"
  shows "cstr m (p + i) s \<Longrightarrow>
    strcspn_loop m p q i = Some (i + of_nat (length (takeWhile (\<lambda>c. c \<notin> set t) s)))"
proof (induction s arbitrary: i)
  case Nil
  then show ?case by (simp add: strcspn_loop.simps[of m p q i])
next
  case (Cons c s)
  then have c: "m (p + i) = c" "c \<noteq> 0" and rest: "cstr m (p + (i + 1)) s" by (simp_all add: add.assoc)
  show ?case
    using c Cons.IH[OF rest] by (simp add: strcspn_loop.simps[of m p q i] stop_byte_cstr[OF t] add.assoc)
qed

lemma strspn_loop_cstr:
  assumes t: "cstr m q t"
  shows "cstr m (p + i) s \<Longrightarrow>
    strspn_loop m p q i = Some (i + of_nat (length (takeWhile (\<lambda>c. c \<in> set t) s)))"
proof (induction s arbitrary: i)
  case Nil
  then show ?case by (simp add: strspn_loop.simps[of m p q i])
next
  case (Cons c s)
  then have c: "m (p + i) = c" "c \<noteq> 0" and rest: "cstr m (p + (i + 1)) s" by (simp_all add: add.assoc)
  show ?case
    using c Cons.IH[OF rest] by (simp add: strspn_loop.simps[of m p q i] stop_byte_cstr[OF t] add.assoc)
qed

text \<open>The index of the first occurrence of a non-empty list in another.\<close>

fun find_sub :: "'a list \<Rightarrow> 'a list \<Rightarrow> nat option" where
  "find_sub [] t = None"
| "find_sub (x # xs) t =
     (if t \<noteq> [] \<and> take (length t) (x # xs) = t then Some 0 else map_option Suc (find_sub xs t))"

lemma prefix_at_cstr:
  "cstr m p s \<Longrightarrow> cstr m q t \<Longrightarrow> prefix_at m p q = Some (take (length t) s = t)"
proof (induction t arbitrary: p q s)
  case Nil
  then show ?case by (simp add: prefix_at.simps[of m p q])
next
  case (Cons b t)
  show ?case
  proof (cases s)
    case Nil
    with Cons.prems show ?thesis by (simp add: prefix_at.simps[of m p q])
  next
    case (Cons c s')
    with Cons.prems Cons.IH[of "p + 1" s' "q + 1"] show ?thesis
      by (simp add: prefix_at.simps[of m p q])
  qed
qed

lemma strstr_loop_cstr:
  assumes t: "cstr m q t"
  shows "cstr m p s \<Longrightarrow> strstr_loop m p q =
    Some (case find_sub s t of None \<Rightarrow> NULL | Some i \<Rightarrow> p + of_nat i)"
proof (induction s arbitrary: p)
  case Nil
  then show ?case by (simp add: strstr_loop.simps[of m p q])
next
  case (Cons c s)
  have IH: "strstr_loop m (p + 1) q = Some (case find_sub s t of None \<Rightarrow> NULL | Some i \<Rightarrow> p + 1 + of_nat i)"
    using Cons by simp
  have shift: "(case map_option Suc (find_sub s t) of None \<Rightarrow> NULL | Some i \<Rightarrow> p + of_nat i) =
      (case find_sub s t of None \<Rightarrow> NULL | Some i \<Rightarrow> p + 1 + of_nat i)"
    by (simp add: option.case_eq_if option.map_sel add.assoc)
  show ?case
  proof (cases "t \<noteq> [] \<and> hd t = c")
    case True
    then have "m p = m q" using Cons.prems t by (cases t) auto
    then show ?thesis
      using True Cons.prems IH shift prefix_at_cstr[OF Cons.prems t]
      by (simp add: strstr_loop.simps[of m p q])
  next
    case False
    then have "m p \<noteq> m q" "\<not> (t \<noteq> [] \<and> take (length t) (c # s) = t)"
      using Cons.prems t by (cases t; auto)+
    then show ?thesis
      using Cons.prems IH shift by (auto simp: strstr_loop.simps[of m p q])
  qed
qed

lemma strstr_cstr:
  assumes "cstr m str1 s" "cstr m str2 t"
  shows "strstr m str1 str2 = Some (case find_sub s t of None \<Rightarrow> NULL | Some i \<Rightarrow> str1 + of_nat i)"
  using strstr_loop_cstr[OF assms(2,1)] by (simp add: strstr_def)

lemma strrchr_loop_found:
  assumes s: "cstr m p s" and "i < length s" "s ! i = c"
    and last: "\<And>j. i < j \<Longrightarrow> j \<le> k \<Longrightarrow> s ! j \<noteq> c" and k: "i \<le> k" "k < length s"
  shows "strrchr_loop m p (char_int c) (of_nat k) = Some (p + of_nat i)"
  using last k
proof (induction "k - i" arbitrary: k)
  case 0
  then have "k = i" by simp
  then show ?case
    using cstr_nth[OF s assms(2)] assms(3) by (simp add: strrchr_loop.simps[of m p])
next
  case (Suc d)
  then have lt: "i < k" by simp
  then have ne: "s ! k \<noteq> c" using Suc.prems(1) by simp
  have "strrchr_loop m p (char_int c) (of_nat (k - 1)) = Some (p + of_nat i)"
    using Suc lt by (intro Suc.hyps(1)) auto
  moreover have "(of_nat k :: u32) - 1 = of_nat (k - 1)" using lt by (simp add: of_nat_diff)
  ultimately show ?case
    using ne cstr_nth[OF s Suc.prems(3)] by (simp add: strrchr_loop.simps[of m p _ "of_nat k"])
qed

text \<open>
  The search has no lower bound: when the character does not occur in the string, the scan
  goes on in front of it.
\<close>

lemma strrchr_loop_runs_past:
  assumes s: "cstr m p s" and "\<And>j. j \<le> k \<Longrightarrow> s ! j \<noteq> c" "k < length s" "m (p - 1) = c"
  shows "strrchr_loop m p (char_int c) (of_nat k) = Some (p - 1)"
  using assms(2,3)
proof (induction k)
  case 0
  have "strrchr_loop m p (char_int c) (- 1) = Some (p - 1)"
    using assms(4) by (simp add: strrchr_loop.simps[of m p _ "-1"])
  moreover have "m p \<noteq> c" using cstr_nth[OF s, of 0] 0 by simp
  ultimately show ?case by (simp add: strrchr_loop.simps[of m p _ 0])
next
  case (Suc k)
  have "strrchr_loop m p (char_int c) (of_nat k) = Some (p - 1)"
    using Suc by (intro Suc.IH) auto
  moreover have "m (p + of_nat (Suc k)) \<noteq> c" using cstr_nth[OF s Suc.prems(2)] Suc.prems(1)[of "Suc k"] by auto
  ultimately show ?case
    by (subst strrchr_loop.simps) (simp add: add.assoc)
qed

section \<open>Tokens\<close>

text \<open>
  One call of \<open>strtok\<close> on a string outside the delimiter set: the token is what precedes the
  first delimiter, and the saved position is the rest behind that delimiter. Delimiters in a
  row give empty tokens.
\<close>

lemma strtok_cstr:
  fixes str last_p delimiters :: ptr
  assumes s: "cstr m p s" and t: "cstr m delimiters ds" and nz: "p \<noteq> NULL"
    and which: "p = (if str = NULL then last_p else str)"
  defines "tok \<equiv> takeWhile (\<lambda>c. c \<notin> set ds) s"
  shows "if tok = s then strtok m last_p str delimiters = Some (p, NULL, m)
    else \<exists>m'. strtok m last_p str delimiters = Some (p, p + of_nat (Suc (length tok)), m')
      \<and> cstr m' p tok \<and> cstr m' (p + of_nat (Suc (length tok))) (drop (Suc (length tok)) s)"
proof -
  let ?n = "length tok"
  have le: "?n \<le> length s" by (simp add: tok_def length_takeWhile_le)
  have scan: "strcspn_loop m p delimiters 0 = Some (of_nat ?n)"
    using strcspn_loop_cstr[OF t, of p 0 s] s by (simp add: tok_def)
  show ?thesis
  proof (cases "tok = s")
    case True
    then show ?thesis
      using nz which scan cstr_end[OF s] by (simp add: strtok_def Let_def)
  next
    case False
    then have lt: "?n < length s"
      using le by (metis le_neq_implies_less takeWhile_eq_take tok_def take_all_iff)
    let ?m' = "store8 m (p + of_nat ?n) 0"
    have inj: "p + of_nat i \<noteq> p + (of_nat ?n :: ptr)" if "i \<le> length s" "i \<noteq> ?n" for i
      using that lt cstr_length[OF s] word_add_of_nat_inj[of p i ?n] by auto
    have tk: "tok = take ?n s" unfolding tok_def by (rule takeWhile_eq_take)
    have "cstr ?m' p tok"
    proof (rule cstrI)
      fix i assume i: "i < length tok"
      then show "?m' (p + of_nat i) = tok ! i"
      proof -
        have "p + of_nat i \<noteq> p + (of_nat ?n :: ptr)" using i lt by (intro inj) simp_all
        moreover have "m (p + of_nat i) = s ! i" using i lt cstr_nth[OF s, of i] by simp
        moreover have "tok ! i = s ! i" using i by (subst tk) simp
        ultimately show ?thesis by (simp add: store8_def)
      qed
    next
      show "0 \<notin> set tok" using cstr_not_0[OF s] by (auto simp: tok_def dest: set_takeWhileD)
    qed (simp add: store8_def)
    moreover have "cstr ?m' (p + of_nat (Suc ?n)) (drop (Suc ?n) s)"
    proof (rule cstr_cong)
      show "cstr m (p + of_nat (Suc ?n)) (drop (Suc ?n) s)"
        using lt by (intro cstr_drop[OF s]) simp
      fix i assume "i \<le> length (drop (Suc ?n) s)"
      then have "p + of_nat (Suc ?n + i) \<noteq> p + (of_nat ?n :: ptr)"
        using lt by (intro inj) auto
      then show "?m' (p + of_nat (Suc ?n) + of_nat i) = m (p + of_nat (Suc ?n) + of_nat i)"
        by (simp add: store8_def add.assoc)
    qed
    moreover have "strtok m last_p str delimiters = Some (p, p + of_nat (Suc ?n), ?m')"
      using nz which scan cstr_nth[OF s lt] by (simp add: strtok_def Let_def add.assoc add.commute)
    ultimately show ?thesis using False by auto
  qed
qed

lemma find_sub_None:
  assumes "t \<noteq> []"
  shows "find_sub s t = None \<longleftrightarrow> (\<forall>i \<le> length s. take (length t) (drop i s) \<noteq> t)"
proof (induction s)
  case (Cons x xs)
  have "(\<forall>i \<le> length (x # xs). take (length t) (drop i (x # xs)) \<noteq> t) \<longleftrightarrow>
      take (length t) (x # xs) \<noteq> t \<and> (\<forall>i \<le> length xs. take (length t) (drop i xs) \<noteq> t)"
    using all_less_Suc_shift[of "Suc (length xs)" "\<lambda>i. take (length t) (drop i (x # xs)) \<noteq> t"]
    by (simp add: less_Suc_eq_le)
  with Cons show ?case using assms by simp
qed (use assms in simp)

lemma find_sub_Some:
  assumes "t \<noteq> []"
  shows "find_sub s t = Some i \<Longrightarrow> i \<le> length s \<and> take (length t) (drop i s) = t \<and>
    (\<forall>j<i. take (length t) (drop j s) \<noteq> t)"
proof (induction s arbitrary: i)
  case (Cons x xs)
  show ?case
  proof (cases "take (length t) (x # xs) = t")
    case False
    then obtain k where k: "find_sub xs t = Some k" "i = Suc k" using Cons.prems assms by auto
    with Cons.IH[OF k(1)] False show ?thesis by (auto simp: less_Suc_eq_0_disj)
  qed (use Cons.prems assms in simp)
qed simp

section \<open>Properties\<close>

text \<open>C11: \<open>memmove\<close> copies correctly for every overlap of source and destination: afterwards the
  destination holds the bytes the source had before, and no other byte changed (sizes below 2 GiB,
  no wrap-around of the two regions).\<close>

theorem memmove_correct:
  assumes "unat dest + unat n \<le> 2 ^ 32" "unat source + unat n \<le> 2 ^ 32" "unat n < 2 ^ 31"
  shows "\<exists>m'. memmove cpu m dest source n = (dest, m') \<and>
    bytes m' dest (unat n) = bytes m source (unat n) \<and>
    (\<forall>a. \<not> unat (a - dest) < unat n \<longrightarrow> m' a = m a)"
  using memmove_blit[OF assms] bytes_blit[of "unat n"] assms(3) by (auto simp: blit_outside)

text \<open>\<open>memcpy\<close> gives the same memory whichever of the SSE and MMX phases the processor lets it
  use, also when the destination overlaps the source from below; that memory is the one block move.\<close>

theorem memcpy_independent_of_cpu:
  assumes "fwd_ok destination source (unat n)"
  shows "memcpy cpu m destination source n = memcpy cpu' m destination source n \<and>
    bytes (snd (memcpy cpu m destination source n)) destination (unat n) = bytes m source (unat n)"
proof -
  have "unat n \<le> 2 ^ 32" using unsigned_less[of n, where 'a = nat] by simp
  then show ?thesis using memcpy_blit[OF assms] bytes_blit[of "unat n"] by simp
qed

text \<open>\<open>strcpy\<close> of a string terminates, stores the string with its terminator at the destination
  and changes no byte beyond the terminator.\<close>

theorem strcpy_copies:
  assumes "cstr m source s" "fwd_ok destination source (length s)" "unat destination + length s < 2 ^ 32"
  shows "\<exists>m'. strcpy cpu m destination source = Some (destination, m') \<and> cstr m' destination s
    \<and> (\<forall>a. length s < unat (a - destination) \<longrightarrow> m' a = m a)"
  using strcpy_cstr[OF assms] .

text \<open>\<open>strncpy\<close> with bound \<open>n\<close> writes \<open>n + 1\<close> bytes: the first \<open>n\<close> characters of the source
  padded with NULs, and one more NUL at index \<open>n\<close>; nothing behind that index changes.\<close>

theorem strncpy_writes_n_plus_1:
  assumes "cstr m source s" "fwd_ok destination source (min (length s) (unat n))"
    "unat destination + unat n < 2 ^ 32"
  shows "\<exists>m'. strncpy cpu m destination source n = Some (destination, m')
    \<and> bytes m' destination (unat n + 1) =
        take (unat n) s @ replicate (unat n + 1 - length (take (unat n) s)) 0
    \<and> (\<forall>a. unat n < unat (a - destination) \<longrightarrow> m' a = m a)"
proof -
  obtain m' where m': "strncpy cpu m destination source n = Some (destination, m')"
    "\<forall>i \<le> unat n. m' (destination + of_nat i) = (if i < min (length s) (unat n) then s ! i else 0)"
    "\<forall>a. unat n < unat (a - destination) \<longrightarrow> m' a = m a"
    using strncpy_bytes[OF assms] by blast
  have "bytes m' destination (unat n + 1) =
      take (unat n) s @ replicate (unat n + 1 - length (take (unat n) s)) 0"
    using m'(2) by (intro nth_equalityI) (auto simp: bytes_nth nth_append simp del: upt_Suc)
  with m' show ?thesis by blast
qed

text \<open>\<open>strcmp\<close> of two strings terminates and returns 0 exactly when they are equal.\<close>

theorem strcmp_zero_iff_equal:
  assumes "cstr m str1 s" "cstr m str2 t"
  shows "\<exists>r. strcmp m str1 str2 = Some r \<and> (r = 0 \<longleftrightarrow> s = t)"
  using strcmp_cstr_zero[OF assms] .

text \<open>\<open>strstr\<close> returns the address of the first occurrence of a non-empty needle, and \<open>NULL\<close>
  exactly when the needle does not occur.\<close>

theorem strstr_first_occurrence:
  assumes "cstr m str1 s" "cstr m str2 t" "t \<noteq> []"
  shows "(\<exists>i \<le> length s. take (length t) (drop i s) = t \<and> (\<forall>j<i. take (length t) (drop j s) \<noteq> t)
      \<and> strstr m str1 str2 = Some (str1 + of_nat i))
    \<or> ((\<forall>i \<le> length s. take (length t) (drop i s) \<noteq> t) \<and> strstr m str1 str2 = Some NULL)"
proof (cases "find_sub s t")
  case None
  then have "strstr m str1 str2 = Some NULL" using strstr_cstr[OF assms(1,2)] by simp
  with None show ?thesis using find_sub_None[OF assms(3)] by blast
next
  case (Some i)
  then have "strstr m str1 str2 = Some (str1 + of_nat i)" using strstr_cstr[OF assms(1,2)] by simp
  with find_sub_Some[OF assms(3) Some] show ?thesis by blast
qed

text \<open>the loop guard of \<open>strrchr\<close> is an unsigned comparison that never fails: searched for a
  character that is not in the (non-empty) string but is the byte right before it, \<open>strrchr\<close> returns
  the address before the string.\<close>

theorem strrchr_runs_past_start:
  assumes "cstr m p s" "s \<noteq> []" "c \<notin> set s" "m (p - 1) = c"
  shows "strrchr m p (char_int c) = Some (p - 1)"
proof -
  have lt: "length s - 1 < length s" using assms(2) by simp
  have "s ! j \<noteq> c" if "j \<le> length s - 1" for j
  proof -
    have "s ! j \<in> set s" using that lt by (intro nth_mem) simp
    with assms(3) show ?thesis by blast
  qed
  then have "strrchr_loop m p (char_int c) (of_nat (length s - 1)) = Some (p - 1)"
    using assms(1,4) lt by (intro strrchr_loop_runs_past)
  moreover have "(of_nat (length s) :: u32) - 1 = of_nat (length s - 1)"
    using assms(2) by (cases s) simp_all
  ultimately show ?thesis using strlen_cstr[OF assms(1)] by (simp add: strrchr_def)
qed

text \<open>one call of \<open>strtok\<close> on a string splits off everything before the first delimiter,
  terminates it in place and remembers the rest; with no delimiter left it returns the whole string
  and remembers \<open>NULL\<close>.\<close>

theorem strtok_splits:
  assumes "cstr m p s" "cstr m delimiters ds" "p \<noteq> NULL" "p = (if str = NULL then last_p else str)"
  shows "(set s \<inter> set ds = {} \<and> strtok m last_p str delimiters = Some (p, NULL, m))
    \<or> (\<exists>tok c rest m'. s = tok @ c # rest \<and> c \<in> set ds \<and> set tok \<inter> set ds = {}
        \<and> strtok m last_p str delimiters = Some (p, p + of_nat (Suc (length tok)), m')
        \<and> cstr m' p tok \<and> cstr m' (p + of_nat (Suc (length tok))) rest)"
proof (cases "takeWhile (\<lambda>c. c \<notin> set ds) s = s")
  case True
  then have "set s \<inter> set ds = {}" by (auto simp: takeWhile_eq_all_conv)
  with True show ?thesis using strtok_cstr[OF assms] by simp
next
  case False
  let ?tok = "takeWhile (\<lambda>c. c \<notin> set ds) s"
  obtain c rest where s: "s = ?tok @ c # rest"
    using False takeWhile_dropWhile_id[of "\<lambda>c. c \<notin> set ds" s] by (metis append_Nil2 list.exhaust)
  have "c \<in> set ds" using s by (metis hd_dropWhile append_same_eq takeWhile_dropWhile_id
        list.sel(1) list.distinct(1) same_append_eq)
  moreover have "set ?tok \<inter> set ds = {}" by (auto dest: set_takeWhileD)
  moreover have "drop (Suc (length ?tok)) s = rest" by (subst s) simp
  moreover obtain m' where "strtok m last_p str delimiters = Some (p, p + of_nat (Suc (length ?tok)), m')"
    "cstr m' p ?tok" "cstr m' (p + of_nat (Suc (length ?tok))) (drop (Suc (length ?tok)) s)"
    using False strtok_cstr[OF assms] by metis
  ultimately show ?thesis using s by metis
qed

section \<open>Concrete strings\<close>

definition sample_mem :: mem where
  "sample_mem = (\<lambda>_. 0)(0xFFF := 120, 0x1000 := 97, 0x1001 := 44, 0x1002 := 98, 0x2000 := 44)"

lemma sample_cstr:
  "cstr sample_mem 0x1000 [97, 44, 98]" "cstr sample_mem 0x2000 [44]"
  by (simp_all add: sample_mem_def)

theorem memmove_correct_witness:
  "\<exists>m'. memmove \<lparr>feat_sse = True, feat_mmx = False\<rparr> sample_mem 0x1001 0x1000 3 = (0x1001, m') \<and>
     bytes m' 0x1001 3 = [97, 44, 98]"
proof -
  have "bytes sample_mem 0x1000 3 = [97, 44, 98]" by (simp add: bytes_def sample_mem_def upt_rec)
  then show ?thesis
    using memmove_correct[of "0x1001" 3 "0x1000" "\<lparr>feat_sse = True, feat_mmx = False\<rparr>" sample_mem] by auto
qed

theorem memcpy_independent_of_cpu_witness:
  "memcpy \<lparr>feat_sse = True, feat_mmx = True\<rparr> sample_mem 0xF00 0x1000 3 =
   memcpy \<lparr>feat_sse = False, feat_mmx = False\<rparr> sample_mem 0xF00 0x1000 3"
  using memcpy_independent_of_cpu[of "0xF00" "0x1000" 3] by (simp add: fwd_ok_def)

theorem strcpy_copies_witness:
  "\<exists>m'. strcpy \<lparr>feat_sse = True, feat_mmx = True\<rparr> sample_mem 0x3000 0x1000 = Some (0x3000, m') \<and>
     cstr m' 0x3000 [97, 44, 98]"
  using strcpy_copies[OF sample_cstr(1), of "0x3000"] by (auto simp: fwd_ok_def)

theorem strncpy_writes_n_plus_1_witness:
  "\<exists>m'. strncpy \<lparr>feat_sse = True, feat_mmx = True\<rparr> sample_mem 0x3000 0x1000 2 = Some (0x3000, m') \<and>
     bytes m' 0x3000 3 = [97, 44, 0]"
  using strncpy_writes_n_plus_1[OF sample_cstr(1), of "0x3000" 2] by (auto simp: fwd_ok_def)

theorem strcmp_zero_iff_equal_witness:
  "\<exists>r. strcmp sample_mem 0x1000 0x2000 = Some r \<and> r \<noteq> 0"
  using strcmp_zero_iff_equal[OF sample_cstr] by auto

theorem strstr_first_occurrence_witness: "strstr sample_mem 0x1000 0x2000 = Some 0x1001"
proof -
  have "(i \<le> length [97, 44, 98 :: u8] \<and> take (length [44 :: u8]) (drop i [97, 44, 98]) = [44 :: u8]) \<longleftrightarrow> i = 1" for i
    by (auto simp: le_Suc_eq numeral_3_eq_3)
  then have "strstr sample_mem 0x1000 0x2000 = Some (0x1000 + of_nat 1)"
    using strstr_first_occurrence[OF sample_cstr, OF list.distinct(2)] by metis
  then show ?thesis by simp
qed

theorem strrchr_runs_past_start_witness: "strrchr sample_mem 0x1000 120 = Some 0xFFF"
  using strrchr_runs_past_start[OF sample_cstr(1), of 120] by (simp add: sample_mem_def char_int_def)

theorem strtok_splits_witness:
  "\<exists>m'. strtok sample_mem 0 0x1000 0x2000 = Some (0x1000, 0x1002, m') \<and> cstr m' 0x1000 [97] \<and> cstr m' 0x1002 [98]"
proof -
  have "\<exists>tok c rest m'. [97, 44, 98 :: u8] = tok @ c # rest \<and> c \<in> set [44] \<and> set tok \<inter> set [44] = {}
        \<and> strtok sample_mem 0 0x1000 0x2000 = Some (0x1000, 0x1000 + of_nat (Suc (length tok)), m')
        \<and> cstr m' 0x1000 tok \<and> cstr m' (0x1000 + of_nat (Suc (length tok))) rest"
    using strtok_splits[OF sample_cstr, of "0x1000" 0] by auto
  then show ?thesis by (auto simp: Cons_eq_append_conv)
qed

end
