(* ===== verification/Spinlock.thy ===== *)
theory Spinlock
  imports Kernel_Prelude
begin

text \<open>
  \<^verbatim>\<open>kernel/modules/spinlock.c\<close> with its assembly half \<^verbatim>\<open>spinlock.asm\<close>. A lock is the
  truth value of its \<open>locked\<close> word; the pool hands out at most \<open>MAX_SPINLOCK\<close> locks. The
  kernel runs on one processor, so a lock that is held when it is requested is never
  released by anybody else: the request spins for ever, which is the result \<open>None\<close>. A
  \<open>panic\<close>, which halts the machine, is \<open>None\<close> as well.
\<close>

type_synonym spinlock = bool

definition MAX_SPINLOCK :: nat where
  "MAX_SPINLOCK = 16"

text \<open>\<open>spinlock_init lock_index\<close>: the new lock, unlocked, and the next index.\<close>

definition spinlock_init :: "nat \<Rightarrow> (spinlock \<times> nat) option" where
  "spinlock_init lock_index =
     (if lock_index \<ge> MAX_SPINLOCK then None else Some (False, Suc lock_index))"

definition spinlock_lock :: "spinlock \<Rightarrow> spinlock option" where
  "spinlock_lock locked = (if locked then None else Some True)"

definition spinlock_unlock :: "spinlock \<Rightarrow> spinlock" where
  "spinlock_unlock locked = False"

lemma spinlock_lock_free [simp]: "spinlock_lock False = Some True"
  by (simp add: spinlock_lock_def)

lemma spinlock_lock_held [simp]: "spinlock_lock True = None"
  by (simp add: spinlock_lock_def)

lemma spinlock_unlock_free [simp]: "spinlock_unlock l = False"
  by (simp add: spinlock_unlock_def)

end
