(* ===== verification/Bitmap.thy ===== *)
theory Bitmap
  imports Kstring Spinlock "HOL-Library.Signed_Division"
begin

text \<open>
  \<^verbatim>\<open>kernel/modules/bitmap.c\<close>: the physical page allocator. One bit per 4 KiB page, kept in
  an array of 32-bit words at the start of the managed memory, in the same byte store the
  pages live in. The operations return \<open>None\<close> where the C function does not return (the
  lock is already held).
\<close>

section \<open>State\<close>

record bitmap_state =
  kmem :: mem
  lock_index :: nat
  bitmap_lock :: "spinlock option"
  bitmap :: ptr
  frames :: u32
  start_addr :: ptr

abbreviation (input) BITMAP_PAGE_SIZE :: u32 where
  "BITMAP_PAGE_SIZE \<equiv> 4096"

text \<open>\<open>bitmap[i]\<close> as an rvalue and as the target of an assignment.\<close>

definition bitmap_word :: "'a bitmap_state_scheme \<Rightarrow> nat \<Rightarrow> u32" where
  "bitmap_word s i = load32 (kmem s) (bitmap s + of_nat (4 * i))"

definition bitmap_put :: "nat \<Rightarrow> u32 \<Rightarrow> 'a bitmap_state_scheme \<Rightarrow> 'a bitmap_state_scheme" where
  "bitmap_put i w s = s\<lparr>kmem := store32 (kmem s) (bitmap s + of_nat (4 * i)) w\<rparr>"

definition bitmap_len :: "'a bitmap_state_scheme \<Rightarrow> nat" where
  "bitmap_len s = unat (frames s div 32)"

definition page_addr :: "'a bitmap_state_scheme \<Rightarrow> nat \<Rightarrow> nat \<Rightarrow> ptr" where
  "page_addr s i j = start_addr s + of_nat (i * 4 * 8 + j) * BITMAP_PAGE_SIZE"

definition bitmap_acquire :: "'a bitmap_state_scheme \<Rightarrow> 'a bitmap_state_scheme option" where
  "bitmap_acquire s = do {
     l \<leftarrow> bitmap_lock s;
     l' \<leftarrow> spinlock_lock l;
     Some (s\<lparr>bitmap_lock := Some l'\<rparr>) }"

definition bitmap_release :: "'a bitmap_state_scheme \<Rightarrow> 'a bitmap_state_scheme" where
  "bitmap_release s = s\<lparr>bitmap_lock := map_option spinlock_unlock (bitmap_lock s)\<rparr>"

section \<open>Operations\<close>

definition round_up_page :: "u32 \<Rightarrow> u32" where
  "round_up_page a =
     (if a mod BITMAP_PAGE_SIZE \<noteq> 0 then a + (BITMAP_PAGE_SIZE - a mod BITMAP_PAGE_SIZE) else a)"

definition bitmap_init :: "ptr \<Rightarrow> u32 \<Rightarrow> 'a bitmap_state_scheme \<Rightarrow> 'a bitmap_state_scheme option" where
  "bitmap_init start_address max_memory s = do {
     s1 \<leftarrow> (if bitmap_lock s = None
            then do { (l, ix) \<leftarrow> spinlock_init (lock_index s);
                      Some (s\<lparr>bitmap_lock := Some l, lock_index := ix\<rparr>) }
            else Some s);
     let start = round_up_page start_address;
     let max_mem = round_up_page (max_memory - start);
     let fr = max_mem div BITMAP_PAGE_SIZE;
     let s2 = s1\<lparr>start_addr := start, bitmap := start, frames := fr,
                 kmem := snd (memset (kmem s1) start 0 (fr div 8))\<rparr>;
     Some (bitmap_put 0 0xFFFFFFFF s2) }"

text \<open>The two nested scans visit the pairs \<open>(i, j)\<close> in the order of \<^const>\<open>List.product\<close>.\<close>

definition bitmap_alloc_page :: "'a bitmap_state_scheme \<Rightarrow> (ptr \<times> 'a bitmap_state_scheme) option" where
  "bitmap_alloc_page s = do {
     s1 \<leftarrow> bitmap_acquire s;
     case find (\<lambda>(i, j). \<not> ISSET_BIT (bitmap_word s1 i) j) (List.product [0..<bitmap_len s1] [0..<32]) of
       None \<Rightarrow> Some (NULL, bitmap_release s1)
     | Some (i, j) \<Rightarrow>
         let s2 = bitmap_release (bitmap_put i (ENABLE_BIT (bitmap_word s1 i) j) s1)
         in Some (page_addr s2 i j, s2) }"

text \<open>The look-ahead loop of the contiguous search, \<open>k\<close> pages still to test.\<close>

fun run_free :: "'a bitmap_state_scheme \<Rightarrow> nat \<Rightarrow> nat \<Rightarrow> nat \<Rightarrow> bool" where
  "run_free s ii jj 0 = True"
| "run_free s ii jj (Suc k) =
     (let (ii', jj') = (if jj = 32 then (Suc ii, 0) else (ii, jj))
      in if ii' = bitmap_len s then False
         else if ISSET_BIT (bitmap_word s ii') jj' then False
         else run_free s ii' (Suc jj') k)"

fun run_mark :: "nat \<Rightarrow> nat \<Rightarrow> nat \<Rightarrow> 'a bitmap_state_scheme \<Rightarrow> 'a bitmap_state_scheme" where
  "run_mark ii jj 0 s = s"
| "run_mark ii jj (Suc k) s =
     (let (ii', jj') = (if jj = 32 then (Suc ii, 0) else (ii, jj))
      in run_mark ii' (Suc jj') k (bitmap_put ii' (ENABLE_BIT (bitmap_word s ii') jj') s))"

definition bitmap_alloc_contiguous_pages ::
  "u32 \<Rightarrow> 'a bitmap_state_scheme \<Rightarrow> (ptr \<times> 'a bitmap_state_scheme) option" where
  "bitmap_alloc_contiguous_pages pages s = do {
     s1 \<leftarrow> bitmap_acquire s;
     case find (\<lambda>(i, j). \<not> ISSET_BIT (bitmap_word s1 i) j \<and> run_free s1 i (Suc j) (unat pages - 1))
            (List.product [0..<bitmap_len s1] [0..<32]) of
       None \<Rightarrow> Some (NULL, bitmap_release s1)
     | Some (i, j) \<Rightarrow>
         let s2 = bitmap_release (run_mark i j (unat pages) s1)
         in Some (page_addr s2 i j, s2) }"

text \<open>
  The page index of an address: the difference of two pointers is a signed 32-bit number
  and \<open>BITMAP_PAGE_SIZE\<close> an \<open>int\<close>, so the division is signed and truncates; the
  quotient is then converted to \<open>size_t\<close>.
\<close>

definition page_index :: "'a bitmap_state_scheme \<Rightarrow> ptr \<Rightarrow> nat" where
  "page_index s addr = unat (of_int (sint (addr - start_addr s) sdiv 4096) :: u32)"

fun free_loop :: "ptr \<Rightarrow> nat \<Rightarrow> 'a bitmap_state_scheme \<Rightarrow> 'a bitmap_state_scheme" where
  "free_loop addr 0 s = s"
| "free_loop addr (Suc k) s =
     (let page_ix = page_index s addr;
          bitmap_index = page_ix div 32;
          bit_index = page_ix mod 32
      in free_loop (addr + BITMAP_PAGE_SIZE) k
           (bitmap_put bitmap_index (DISABLE_BIT (bitmap_word s bitmap_index) bit_index) s))"

definition bitmap_free_pages :: "ptr \<Rightarrow> u32 \<Rightarrow> 'a bitmap_state_scheme \<Rightarrow> 'a bitmap_state_scheme option" where
  "bitmap_free_pages addr pages s = do {
     s1 \<leftarrow> bitmap_acquire s;
     Some (bitmap_release (free_loop addr (unat pages) s1)) }"

text \<open>The counting loop, with (\<open>popcnt\<close>) or without the population count instruction.\<close>

definition word_count :: "bool \<Rightarrow> u32 \<Rightarrow> u32" where
  "word_count popcnt w =
     (if popcnt then ucast (popcnt64 (ucast w))
      else of_nat (length (filter (ISSET_BIT w) [0..<32])))"

definition bitmap_allocated_pages :: "bool \<Rightarrow> 'a bitmap_state_scheme \<Rightarrow> u32" where
  "bitmap_allocated_pages popcnt s =
     foldl (\<lambda>allocated i. allocated + word_count popcnt (bitmap_word s i)) 0 [0..<bitmap_len s]"

definition bitmap_total_pages :: "'a bitmap_state_scheme \<Rightarrow> u32" where
  "bitmap_total_pages s = frames s"

section \<open>The boot-time memory test\<close>

text \<open>
  \<open>memtest\<close> of \<^verbatim>\<open>kernel/kernel.c\<close>: request pages until none is left or \<open>max_pages\<close> were
  handed out, then free the ones obtained in the order they were obtained. The array of
  page addresses (zeroed by \<open>calloc\<close>, so its unused tail is skipped) is the list.
\<close>

fun memtest_alloc :: "('s \<Rightarrow> (ptr \<times> 's) option) \<Rightarrow> nat \<Rightarrow> 's \<Rightarrow> (ptr list \<times> 's) option" where
  "memtest_alloc alloc 0 s = Some ([], s)"
| "memtest_alloc alloc (Suc k) s = do {
     (p, s1) \<leftarrow> alloc s;
     if p = NULL then Some ([], s1)
     else do {
       (ps, s2) \<leftarrow> memtest_alloc alloc k s1;
       Some (p # ps, s2) } }"

fun memtest_free :: "(ptr \<Rightarrow> 's \<Rightarrow> 's option) \<Rightarrow> ptr list \<Rightarrow> 's \<Rightarrow> 's option" where
  "memtest_free release [] s = Some s"
| "memtest_free release (p # ps) s = do { s1 \<leftarrow> release p s; memtest_free release ps s1 }"

definition memtest :: "'a bitmap_state_scheme \<Rightarrow> 'a bitmap_state_scheme option" where
  "memtest s = do {
     (pages, s1) \<leftarrow> memtest_alloc bitmap_alloc_page (unat (bitmap_total_pages s)) s;
     memtest_free (\<lambda>p. bitmap_free_pages p 1) pages s1 }"

section \<open>Abstraction and invariant\<close>

text \<open>Page \<open>k\<close> of the managed memory is allocated.\<close>

definition allocated :: "'a bitmap_state_scheme \<Rightarrow> nat \<Rightarrow> bool" where
  "allocated s k \<longleftrightarrow> bit (bitmap_word s (k div 32)) (k mod 32)"

definition managed :: "'a bitmap_state_scheme \<Rightarrow> nat" where
  "managed s = 32 * bitmap_len s"

definition used_pages :: "'a bitmap_state_scheme \<Rightarrow> nat set" where
  "used_pages s = {k. k < managed s \<and> allocated s k}"

text \<open>
  The allocator is set up: the bitmap starts the managed memory, which is page aligned and
  ends below 4 GiB, and the 32 pages that hold the bitmap are marked.
\<close>

definition bitmap_wf :: "'a bitmap_state_scheme \<Rightarrow> bool" where
  "bitmap_wf s \<longleftrightarrow> bitmap s = start_addr s \<and> unat (start_addr s) mod 4096 = 0
     \<and> unat (start_addr s) + 4096 * managed s < 2 ^ 32
     \<and> (\<forall>k < 32. k < managed s \<longrightarrow> allocated s k)
     \<and> bitmap_lock s \<noteq> None"

definition unlocked :: "'a bitmap_state_scheme \<Rightarrow> bool" where
  "unlocked s \<longleftrightarrow> bitmap_lock s = Some False"

end
