(* ===== verification/Bitmap_Laws.thy ===== *)
theory Bitmap_Laws
  imports Bitmap
begin

text \<open>
  Correctness of the page allocator: what an allocation marks, that it never hands out a
  page that is in use or holds the bitmap, that freeing undoes allocating, and that the two
  ways of counting allocated pages agree. The locale \<open>page_allocator\<close> is the interface
  the paging code relies on; it is interpreted here on the bitmap operations.
\<close>

section \<open>Scanning the grid of bits\<close>

lemma find_grid_Some:
  "find (\<lambda>(i, j). Q i j) (List.product [0..<n] [0..<32]) = Some (i, j) \<longleftrightarrow>
     (\<exists>k < 32 * n. i = k div 32 \<and> j = k mod 32 \<and> Q i j \<and> (\<forall>l < k. \<not> Q (l div 32) (l mod 32)))"
proof -
  have nth: "List.product [0..<n] [0..<32] ! k = (k div 32, k mod 32)" if "k < 32 * n" for k
  proof -
    have "k div 32 < n" using that by (simp add: less_mult_imp_div_less mult.commute)
    then show ?thesis using that by (simp add: product_nth mult.commute del: upt_rec_numeral)
  qed
  have len: "length (List.product [0..<n] [0..<32]) = 32 * n" by simp
  show ?thesis
    unfolding find_Some_iff len
  proof (intro iffI; elim exE conjE)
    fix k assume k: "k < 32 * n" "case List.product [0..<n] [0..<32] ! k of (i, j) \<Rightarrow> Q i j"
      "(i, j) = List.product [0..<n] [0..<32] ! k"
      "\<forall>l<k. \<not> (case List.product [0..<n] [0..<32] ! l of (i, j) \<Rightarrow> Q i j)"
    have "\<not> Q (l div 32) (l mod 32)" if "l < k" for l
      using k(4) that nth[of l] k(1) by (auto dest: spec[of _ l])
    then show "\<exists>k<32 * n. i = k div 32 \<and> j = k mod 32 \<and> Q i j \<and> (\<forall>l<k. \<not> Q (l div 32) (l mod 32))"
      using k(1-3) nth[OF k(1)] by (intro exI[of _ k]) simp
  next
    fix k assume k: "k < 32 * n" "i = k div 32" "j = k mod 32" "Q i j" "\<forall>l<k. \<not> Q (l div 32) (l mod 32)"
    have "\<not> (case List.product [0..<n] [0..<32] ! l of (i, j) \<Rightarrow> Q i j)" if "l < k" for l
      using k(5) that nth[of l] k(1) by simp
    then show "\<exists>k<32 * n. (case List.product [0..<n] [0..<32] ! k of (i, j) \<Rightarrow> Q i j) \<and>
        (i, j) = List.product [0..<n] [0..<32] ! k \<and>
        (\<forall>l<k. \<not> (case List.product [0..<n] [0..<32] ! l of (i, j) \<Rightarrow> Q i j))"
      using k(1-4) nth[OF k(1)] by (intro exI[of _ k]) simp
  qed
qed

lemma find_grid_None:
  "find (\<lambda>(i, j). Q i j) (List.product [0..<n] [0..<32]) = None \<longleftrightarrow>
     (\<forall>k < 32 * n. \<not> Q (k div 32) (k mod 32))"
proof
  assume none: "find (\<lambda>(i, j). Q i j) (List.product [0..<n] [0..<32]) = None"
  show "\<forall>k < 32 * n. \<not> Q (k div 32) (k mod 32)"
  proof (intro allI impI)
    fix k assume "k < 32 * n"
    then have "(k div 32, k mod 32) \<in> set (List.product [0..<n] [0..<32])"
      by (simp add: less_mult_imp_div_less mult.commute del: upt_rec_numeral)
    then show "\<not> Q (k div 32) (k mod 32)" using none by (auto simp: find_None_iff)
  qed
next
  assume none: "\<forall>k < 32 * n. \<not> Q (k div 32) (k mod 32)"
  show "find (\<lambda>(i, j). Q i j) (List.product [0..<n] [0..<32]) = None"
  proof (rule ccontr)
    assume "find (\<lambda>(i, j). Q i j) (List.product [0..<n] [0..<32]) \<noteq> None"
    then obtain i j where "find (\<lambda>(i, j). Q i j) (List.product [0..<n] [0..<32]) = Some (i, j)" by auto
    then show False using none by (auto simp: find_grid_Some)
  qed
qed

section \<open>Reading and writing the bitmap\<close>

lemma bitmap_put_fields [simp]:
  "bitmap (bitmap_put i w s) = bitmap s" "frames (bitmap_put i w s) = frames s"
  "start_addr (bitmap_put i w s) = start_addr s" "bitmap_lock (bitmap_put i w s) = bitmap_lock s"
  "lock_index (bitmap_put i w s) = lock_index s" "bitmap_len (bitmap_put i w s) = bitmap_len s"
  "managed (bitmap_put i w s) = managed s" "bitmap_state.more (bitmap_put i w s) = bitmap_state.more s"
  by (simp_all add: bitmap_put_def bitmap_len_def managed_def)

lemma bitmap_lock_upd [simp]:
  "bitmap_word (s\<lparr>bitmap_lock := l\<rparr>) = bitmap_word s"
  "bitmap_len (s\<lparr>bitmap_lock := l\<rparr>) = bitmap_len s" "managed (s\<lparr>bitmap_lock := l\<rparr>) = managed s"
  "allocated (s\<lparr>bitmap_lock := l\<rparr>) = allocated s"
  "used_pages (s\<lparr>bitmap_lock := l\<rparr>) = used_pages s"
  by (simp_all add: bitmap_word_def bitmap_len_def managed_def allocated_def used_pages_def fun_eq_iff)

text \<open>The words of the bitmap lie below 4 GiB and are aligned.\<close>

definition words_ok :: "'a bitmap_state_scheme \<Rightarrow> bool" where
  "words_ok s \<longleftrightarrow> unat (bitmap s) mod 4 = 0 \<and> unat (bitmap s) + 4 * bitmap_len s \<le> 2 ^ 32"

lemma bitmap_wfD:
  assumes "bitmap_wf s"
  shows "bitmap s = start_addr s" "unat (start_addr s) mod 4096 = 0"
    "unat (start_addr s) + 4096 * managed s < 2 ^ 32"
    "k < 32 \<Longrightarrow> k < managed s \<Longrightarrow> allocated s k" "bitmap_lock s \<noteq> None"
  using assms unfolding bitmap_wf_def by blast+

lemma bitmap_wf_words_ok: "bitmap_wf s \<Longrightarrow> words_ok s"
proof -
  assume wf: "bitmap_wf s"
  have "unat (start_addr s) mod 4096 mod 4 = unat (start_addr s) mod 4" by (rule mod_mod_cancel) simp
  then have "unat (start_addr s) mod 4 = 0" using bitmap_wfD(2)[OF wf] by simp
  moreover have "unat (start_addr s) + 4 * bitmap_len s \<le> 2 ^ 32"
    using bitmap_wfD(3)[OF wf] unfolding managed_def by linarith
  ultimately show ?thesis using bitmap_wfD(1)[OF wf] unfolding words_ok_def by metis
qed

lemma words_ok_put [simp]: "words_ok (bitmap_put i w s) = words_ok s"
  by (simp add: words_ok_def)

lemma words_ok_lock [simp]: "words_ok (s\<lparr>bitmap_lock := l\<rparr>) = words_ok s"
  by (simp add: words_ok_def)

lemma word_addr:
  assumes "words_ok s" "i < bitmap_len s"
  shows "unat (bitmap s + of_nat (4 * i)) = unat (bitmap s) + 4 * i"
    "aligned4 (bitmap s + of_nat (4 * i))"
proof -
  show *: "unat (bitmap s + of_nat (4 * i)) = unat (bitmap s) + 4 * i"
    using assms by (intro unat_add_of_nat) (simp add: words_ok_def)
  show "aligned4 (bitmap s + of_nat (4 * i))"
    using * assms(1) unfolding aligned4_def words_ok_def by presburger
qed

lemma bitmap_word_put:
  assumes "words_ok s" "i < bitmap_len s" "j < bitmap_len s"
  shows "bitmap_word (bitmap_put i w s) j = (if i = j then w else bitmap_word s j)"
proof (cases "i = j")
  case True
  then show ?thesis by (simp add: bitmap_word_def bitmap_put_def load32_store32_same)
next
  case False
  then have "bitmap s + of_nat (4 * i) \<noteq> bitmap s + of_nat (4 * j)"
    using word_addr(1)[OF assms(1,2)] word_addr(1)[OF assms(1,3)] by (metis add_left_cancel mult_left_cancel zero_neq_numeral)
  with False show ?thesis
    using word_addr(2)[OF assms(1,2)] word_addr(2)[OF assms(1,3)]
    by (simp add: bitmap_word_def bitmap_put_def load32_store32_other)
qed

text \<open>Addresses inside the array of bitmap words; a write to the bitmap changes nothing else.\<close>

definition in_bitmap :: "'a bitmap_state_scheme \<Rightarrow> ptr \<Rightarrow> bool" where
  "in_bitmap s a \<longleftrightarrow> unat (bitmap s) \<le> unat a \<and> unat a < unat (bitmap s) + 4 * bitmap_len s"

lemma bitmap_put_outside:
  assumes "words_ok s" "i < bitmap_len s" "\<not> in_bitmap s a"
  shows "kmem (bitmap_put i w s) a = kmem s a"
proof -
  have "\<not> unat (a - (bitmap s + of_nat (4 * i))) < 4"
  proof
    assume "unat (a - (bitmap s + of_nat (4 * i))) < 4"
    then obtain j where j: "j < 4" "a = bitmap s + of_nat (4 * i) + of_nat j"
      by (auto simp: unat_diff_less_iff)
    then have "unat a = unat (bitmap s) + 4 * i + j"
      using word_addr[OF assms(1,2)] aligned4_no_wrap by simp
    with j(1) assms(2,3) show False by (simp add: in_bitmap_def)
  qed
  then show ?thesis by (simp add: bitmap_put_def store32_outside)
qed

lemma index_split: "k < 32 * n \<Longrightarrow> k div 32 < n" "k mod 32 < (32::nat)" for k :: nat
  by (simp_all add: less_mult_imp_div_less mult.commute)

lemma page_split_eq: "l = k \<longleftrightarrow> l div 32 = k div 32 \<and> l mod 32 = k mod 32" for k l :: nat
  by (metis div_mult_mod_eq)

lemma allocated_enable:
  assumes "words_ok s" "k < managed s" "l < managed s"
  shows "allocated (bitmap_put (k div 32) (ENABLE_BIT (bitmap_word s (k div 32)) (k mod 32)) s) l
    \<longleftrightarrow> allocated s l \<or> l = k"
  using assms index_split page_split_eq[of l k]
  by (auto simp: allocated_def bitmap_word_put bit_ENABLE_BIT managed_def)

lemma allocated_disable:
  assumes "words_ok s" "k < managed s" "l < managed s"
  shows "allocated (bitmap_put (k div 32) (DISABLE_BIT (bitmap_word s (k div 32)) (k mod 32)) s) l
    \<longleftrightarrow> allocated s l \<and> l \<noteq> k"
  using assms index_split page_split_eq[of l k]
  by (auto simp: allocated_def bitmap_word_put bit_DISABLE_BIT managed_def)

lemma ISSET_BIT_allocated: "ISSET_BIT (bitmap_word s (k div 32)) (k mod 32) \<longleftrightarrow> allocated s k"
  by (simp add: ISSET_BIT_iff allocated_def)

section \<open>Locking\<close>

lemma bitmap_acquire_unlocked: "unlocked s \<Longrightarrow> bitmap_acquire s = Some (s\<lparr>bitmap_lock := Some True\<rparr>)"
  by (simp add: bitmap_acquire_def unlocked_def)

lemma release_acquired: "unlocked s \<Longrightarrow> bitmap_release (s\<lparr>bitmap_lock := Some True\<rparr>) = s"
  by (simp add: bitmap_release_def unlocked_def)

lemma bitmap_release_put:
  "bitmap_release (bitmap_put i w (s\<lparr>bitmap_lock := Some True\<rparr>)) = bitmap_put i w (s\<lparr>bitmap_lock := Some False\<rparr>)"
  by (simp add: bitmap_release_def bitmap_put_def)

lemma unlocked_id: "unlocked s \<Longrightarrow> s\<lparr>bitmap_lock := Some False\<rparr> = s"
  by (simp add: unlocked_def)

text \<open>Every entry point spins for ever when the lock is held: the operations do not nest.\<close>

lemma bitmap_ops_locked:
  assumes "bitmap_lock s = Some True"
  shows "bitmap_alloc_page s = None" "bitmap_alloc_contiguous_pages n s = None"
    "bitmap_free_pages a n s = None"
  using assms by (simp_all add: bitmap_alloc_page_def bitmap_alloc_contiguous_pages_def
      bitmap_free_pages_def bitmap_acquire_def)

section \<open>One page\<close>

definition page_of :: "'a bitmap_state_scheme \<Rightarrow> nat \<Rightarrow> ptr" where
  "page_of s k = start_addr s + of_nat k * 4096"

definition mark_page :: "nat \<Rightarrow> 'a bitmap_state_scheme \<Rightarrow> 'a bitmap_state_scheme" where
  "mark_page k s = bitmap_put (k div 32) (ENABLE_BIT (bitmap_word s (k div 32)) (k mod 32)) s"

lemma page_addr_page_of: "page_addr s (k div 32) (k mod 32) = page_of s k"
proof -
  have "k div 32 * 4 * 8 + k mod 32 = k" by simp
  then show ?thesis by (simp add: page_addr_def page_of_def)
qed

lemma unat_page_of:
  assumes "bitmap_wf s" "k < managed s"
  shows "unat (page_of s k) = unat (start_addr s) + 4096 * k"
proof -
  have "unat (start_addr s) + 4096 * k < 2 ^ 32"
    using bitmap_wfD(3)[OF assms(1)] assms(2) by linarith
  then have "unat (start_addr s + of_nat (4096 * k)) = unat (start_addr s) + 4096 * k"
    by (intro unat_add_of_nat) simp
  then show ?thesis by (simp add: page_of_def mult.commute)
qed

lemma mark_page_simps [simp]:
  "bitmap (mark_page k s) = bitmap s" "frames (mark_page k s) = frames s"
  "start_addr (mark_page k s) = start_addr s" "bitmap_lock (mark_page k s) = bitmap_lock s"
  "managed (mark_page k s) = managed s" "page_of (mark_page k s) = page_of s"
  "bitmap_state.more (mark_page k s) = bitmap_state.more s" "bitmap_len (mark_page k s) = bitmap_len s"
  "words_ok (mark_page k s) = words_ok s"
  by (simp_all add: mark_page_def page_of_def fun_eq_iff)

lemma allocated_mark_page:
  "words_ok s \<Longrightarrow> k < managed s \<Longrightarrow> l < managed s \<Longrightarrow> allocated (mark_page k s) l \<longleftrightarrow> allocated s l \<or> l = k"
  by (simp add: mark_page_def allocated_enable)

lemma bitmap_alloc_page_Some:
  assumes "words_ok s" "unlocked s" "k < managed s" "\<not> allocated s k" "\<forall>l<k. allocated s l"
  shows "bitmap_alloc_page s = Some (page_of s k, mark_page k s)"
proof -
  let ?s1 = "s\<lparr>bitmap_lock := Some True\<rparr>"
  have scan: "find (\<lambda>(i, j). \<not> ISSET_BIT (bitmap_word s i) j) (List.product [0..<bitmap_len s] [0..<32])
      = Some (k div 32, k mod 32)"
    using assms(3-5) unfolding find_grid_Some by (auto simp: ISSET_BIT_allocated managed_def intro!: exI[of _ k])
  have "bitmap_release (bitmap_put (k div 32) w ?s1) = bitmap_put (k div 32) w s" for w
    using assms(2) by (simp add: bitmap_release_put unlocked_id)
  then show ?thesis
    using assms(2) scan page_addr_page_of[of "mark_page k s" k]
    by (simp add: bitmap_alloc_page_def bitmap_acquire_unlocked mark_page_def[symmetric] page_of_def
        del: upt_rec_numeral)
qed

lemma bitmap_alloc_page_None:
  assumes "unlocked s" "\<forall>k < managed s. allocated s k"
  shows "bitmap_alloc_page s = Some (NULL, s)"
proof -
  have "find (\<lambda>(i, j). \<not> ISSET_BIT (bitmap_word s i) j) (List.product [0..<bitmap_len s] [0..<32]) = None"
    using assms(2) unfolding find_grid_None by (simp add: ISSET_BIT_allocated managed_def)
  then show ?thesis
    using assms(1) by (simp add: bitmap_alloc_page_def bitmap_acquire_unlocked release_acquired del: upt_rec_numeral)
qed

lemma alloc_page_cases:
  assumes "words_ok s" "unlocked s"
  obtains (full) "\<forall>k < managed s. allocated s k" "bitmap_alloc_page s = Some (NULL, s)"
  | (page) k where "k < managed s" "\<not> allocated s k" "\<forall>l<k. allocated s l"
      "bitmap_alloc_page s = Some (page_of s k, mark_page k s)"
proof (cases "\<forall>k < managed s. allocated s k")
  case True
  then show thesis using full bitmap_alloc_page_None assms(2) by blast
next
  case False
  then obtain k where k: "k < managed s" "\<not> allocated s k" "\<forall>l<k. \<not> (l < managed s \<and> \<not> allocated s l)"
    using exists_least_iff[of "\<lambda>k. k < managed s \<and> \<not> allocated s k"] by auto
  then have "\<forall>l<k. allocated s l" by auto
  then show thesis using page[OF k(1,2) _ bitmap_alloc_page_Some[OF assms k(1,2)]] by simp
qed

lemma bitmap_wf_mark_page:
  assumes "bitmap_wf s" "k < managed s"
  shows "bitmap_wf (mark_page k s)"
proof -
  have "allocated (mark_page k s) l" if "l < 32" "l < managed s" for l
    using allocated_mark_page[OF bitmap_wf_words_ok[OF assms(1)] assms(2) that(2)]
      bitmap_wfD(4)[OF assms(1) that] by simp
  then show ?thesis
    unfolding bitmap_wf_def mark_page_simps
    by (intro conjI allI impI bitmap_wfD(1,2,3,5)[OF assms(1)])
qed

lemma used_pages_mark_page:
  assumes "words_ok s" "k < managed s"
  shows "used_pages (mark_page k s) = insert k (used_pages s)"
  using assms by (auto simp: used_pages_def allocated_mark_page)

lemma page_of_not_null:
  assumes "bitmap_wf s" "k < managed s" "\<not> allocated s k"
  shows "page_of s k \<noteq> NULL"
proof -
  have "32 \<le> k" using bitmap_wfD(4)[OF assms(1)] assms(2,3) not_less by blast
  then have "0 < unat (page_of s k)" using unat_page_of[OF assms(1,2)] by simp
  then show ?thesis by (metis unat_0 less_irrefl)
qed

section \<open>Runs of pages\<close>

lemma run_free_iff:
  assumes "ii < bitmap_len s" "jj \<le> 32"
  shows "run_free s ii jj k \<longleftrightarrow>
    (\<forall>t<k. 32 * ii + jj + t < managed s \<and> \<not> allocated s (32 * ii + jj + t))"
  using assms
proof (induction k arbitrary: ii jj)
  case (Suc k)
  define ii' where "ii' = (if jj = 32 then Suc ii else ii)"
  define jj' where "jj' = (if jj = 32 then 0 else jj)"
  have eq: "32 * ii + jj = 32 * ii' + jj'" and jj': "jj' < 32" and ii': "ii' \<le> bitmap_len s"
    using Suc.prems by (auto simp: ii'_def jj'_def)
  have step: "run_free s ii jj (Suc k) \<longleftrightarrow>
      ii' \<noteq> bitmap_len s \<and> \<not> ISSET_BIT (bitmap_word s ii') jj' \<and> run_free s ii' (Suc jj') k"
    by (simp add: ii'_def jj'_def)
  have alloc: "ISSET_BIT (bitmap_word s ii') jj' \<longleftrightarrow> allocated s (32 * ii' + jj')"
    using ISSET_BIT_allocated[of s "32 * ii' + jj'"] jj' by simp
  show ?case
  proof (cases "ii' = bitmap_len s")
    case True
    then show ?thesis unfolding step eq by (auto simp: managed_def)
  next
    case False
    then have "ii' < bitmap_len s" using ii' by simp
    moreover have "32 * ii' + jj' < managed s" using calculation jj' unfolding managed_def by linarith
    ultimately show ?thesis
      unfolding step eq alloc using False Suc.IH[of ii' "Suc jj'"] jj'
      by (simp add: all_less_Suc_shift)
  qed
qed simp

lemma mark_page_split: "j < 32 \<Longrightarrow> bitmap_put i (ENABLE_BIT (bitmap_word s i) j) s = mark_page (32 * i + j) s"
  by (simp add: mark_page_def)

lemma run_mark_fold:
  "jj \<le> 32 \<Longrightarrow> run_mark ii jj k s = fold mark_page [32 * ii + jj ..< 32 * ii + jj + k] s"
proof (induction k arbitrary: ii jj s)
  case (Suc k)
  define ii' where "ii' = (if jj = 32 then Suc ii else ii)"
  define jj' where "jj' = (if jj = 32 then 0 else jj)"
  have eq: "32 * ii + jj = 32 * ii' + jj'" and jj': "jj' < 32"
    using Suc.prems by (auto simp: ii'_def jj'_def)
  have "run_mark ii jj (Suc k) s = run_mark ii' (Suc jj') k (mark_page (32 * ii' + jj') s)"
    using jj' mark_page_split[of jj' ii' s] by (cases "jj = 32") (simp_all add: ii'_def jj'_def)
  also have "\<dots> = fold mark_page [32 * ii' + Suc jj' ..< 32 * ii' + Suc jj' + k] (mark_page (32 * ii' + jj') s)"
    using jj' by (intro Suc.IH) simp
  also have "\<dots> = fold mark_page [32 * ii' + jj' ..< 32 * ii' + jj' + Suc k] s"
    by (simp add: upt_conv_Cons del: upt_Suc)
  finally show ?case by (simp only: eq)
qed simp

definition clear_page :: "nat \<Rightarrow> 'a bitmap_state_scheme \<Rightarrow> 'a bitmap_state_scheme" where
  "clear_page k s = bitmap_put (k div 32) (DISABLE_BIT (bitmap_word s (k div 32)) (k mod 32)) s"

lemma clear_page_simps [simp]:
  "bitmap (clear_page k s) = bitmap s" "frames (clear_page k s) = frames s"
  "start_addr (clear_page k s) = start_addr s" "bitmap_lock (clear_page k s) = bitmap_lock s"
  "managed (clear_page k s) = managed s" "page_of (clear_page k s) = page_of s"
  "bitmap_state.more (clear_page k s) = bitmap_state.more s" "bitmap_len (clear_page k s) = bitmap_len s"
  "words_ok (clear_page k s) = words_ok s"
  by (simp_all add: clear_page_def page_of_def fun_eq_iff)

lemma allocated_clear_page:
  "words_ok s \<Longrightarrow> k < managed s \<Longrightarrow> l < managed s \<Longrightarrow> allocated (clear_page k s) l \<longleftrightarrow> allocated s l \<and> l \<noteq> k"
  by (simp add: clear_page_def allocated_disable)

text \<open>Two states with the same fields are equal when they agree on the bits and outside the bitmap.\<close>

lemma in_bitmapE:
  assumes "words_ok s" "in_bitmap s a"
  obtains i j where "i < bitmap_len s" "j < 4" "a = bitmap s + of_nat (4 * i) + of_nat j"
proof
  let ?d = "unat a - unat (bitmap s)"
  show "?d div 4 < bitmap_len s" "?d mod 4 < 4"
    using assms(2) by (auto simp: in_bitmap_def less_mult_imp_div_less)
  have "a = bitmap s + of_nat ?d" using assms(2) by (simp add: in_bitmap_def of_nat_diff)
  also have "\<dots> = bitmap s + of_nat (4 * (?d div 4) + ?d mod 4)" by simp
  finally show "a = bitmap s + of_nat (4 * (?d div 4)) + of_nat (?d mod 4)"
    by (simp only: of_nat_add add.assoc)
qed

lemma bitmap_state_eqI:
  assumes ok: "words_ok s"
    and fields: "bitmap s' = bitmap s" "frames s' = frames s" "start_addr s' = start_addr s"
      "bitmap_lock s' = bitmap_lock s" "lock_index s' = lock_index s"
      "bitmap_state.more s' = bitmap_state.more s"
    and bits: "\<And>k. k < managed s \<Longrightarrow> allocated s' k = allocated s k"
    and outside: "\<And>a. \<not> in_bitmap s a \<Longrightarrow> kmem s' a = kmem s a"
  shows "s' = s"
proof -
  have word: "bitmap_word s' i = bitmap_word s i" if "i < bitmap_len s" for i
  proof (rule bit_word_eqI)
    fix j assume j: "j < LENGTH(32)"
    have "32 * i + j < managed s" using that j unfolding managed_def by simp
    with bits j show "bit (bitmap_word s' i) j = bit (bitmap_word s i) j"
      by (fastforce simp: allocated_def)
  qed
  have "kmem s' a = kmem s a" for a
  proof (cases "in_bitmap s a")
    case True
    then obtain i j where "i < bitmap_len s" "j < 4" "a = bitmap s + of_nat (4 * i) + of_nat j"
      using in_bitmapE[OF ok] by blast
    then show ?thesis using word[of i] fields(1) load32_eq_bytes by (simp add: bitmap_word_def)
  qed (rule outside)
  then have "kmem s' = kmem s" by (rule ext)
  with fields show ?thesis by simp
qed

lemma fold_page_simps:
  "bitmap (fold mark_page ks s) = bitmap s" "frames (fold mark_page ks s) = frames s"
  "start_addr (fold mark_page ks s) = start_addr s" "bitmap_lock (fold mark_page ks s) = bitmap_lock s"
  "lock_index (fold mark_page ks s) = lock_index s" "managed (fold mark_page ks s) = managed s"
  "bitmap_state.more (fold mark_page ks s) = bitmap_state.more s" "words_ok (fold mark_page ks s) = words_ok s"
  "page_of (fold mark_page ks s) = page_of s" "bitmap_len (fold mark_page ks s) = bitmap_len s"
  "bitmap (fold clear_page ks s) = bitmap s" "frames (fold clear_page ks s) = frames s"
  "start_addr (fold clear_page ks s) = start_addr s" "bitmap_lock (fold clear_page ks s) = bitmap_lock s"
  "lock_index (fold clear_page ks s) = lock_index s" "managed (fold clear_page ks s) = managed s"
  "bitmap_state.more (fold clear_page ks s) = bitmap_state.more s" "words_ok (fold clear_page ks s) = words_ok s"
  by (induction ks arbitrary: s) (simp_all add: mark_page_def clear_page_def page_of_def fun_eq_iff)

lemma allocated_fold_mark:
  assumes "words_ok s" "set ks \<subseteq> {..<managed s}" "l < managed s"
  shows "allocated (fold mark_page ks s) l \<longleftrightarrow> allocated s l \<or> l \<in> set ks"
  using assms by (induction ks arbitrary: s) (auto simp: allocated_mark_page)

lemma allocated_fold_clear:
  assumes "words_ok s" "set ks \<subseteq> {..<managed s}" "l < managed s"
  shows "allocated (fold clear_page ks s) l \<longleftrightarrow> allocated s l \<and> l \<notin> set ks"
  using assms by (induction ks arbitrary: s) (auto simp: allocated_clear_page)

lemma in_bitmap_pages [simp]:
  "in_bitmap (mark_page k s) = in_bitmap s" "in_bitmap (clear_page k s) = in_bitmap s"
  by (simp_all add: in_bitmap_def fun_eq_iff)

lemma fold_page_outside:
  assumes "words_ok s" "set ks \<subseteq> {..<managed s}" "\<not> in_bitmap s a"
  shows "kmem (fold mark_page ks s) a = kmem s a" "kmem (fold clear_page ks s) a = kmem s a"
proof -
  have "kmem (mark_page k t) a = kmem t a" "kmem (clear_page k t) a = kmem t a"
    if "words_ok t" "k < managed t" "\<not> in_bitmap t a" for k and t :: "'a bitmap_state_scheme"
    using that index_split(1)[of k "bitmap_len t"]
    by (simp_all add: mark_page_def clear_page_def bitmap_put_outside managed_def)
  note step = this
  show "kmem (fold mark_page ks s) a = kmem s a" "kmem (fold clear_page ks s) a = kmem s a"
    using assms by (induction ks arbitrary: s) (auto simp: step)
qed

lemma fold_clear_mark:
  assumes "words_ok s" "set ks \<subseteq> {..<managed s}" "\<forall>k \<in> set ks. \<not> allocated s k"
  shows "fold clear_page ks (fold mark_page ks s) = s"
proof (rule bitmap_state_eqI[OF assms(1)])
  fix k assume "k < managed s"
  then show "allocated (fold clear_page ks (fold mark_page ks s)) k = allocated s k"
    using assms by (auto simp: allocated_fold_clear allocated_fold_mark fold_page_simps)
next
  fix a assume "\<not> in_bitmap s a"
  then show "kmem (fold clear_page ks (fold mark_page ks s)) a = kmem s a"
    using assms fold_page_outside(2)[of "fold mark_page ks s" ks a]
    by (simp add: fold_page_outside(1) fold_page_simps in_bitmap_def)
qed (simp_all add: fold_page_simps)

section \<open>Allocation and release of runs\<close>

text \<open>
  Offsets below 2 GiB: there the signed division of \<^const>\<open>page_index\<close> finds the page.
\<close>

lemma page_index_page_of:
  assumes "k < 2 ^ 19"
  shows "page_index s (page_of s k) = k"
proof -
  have "sint (of_nat (4096 * k) :: u32) = int (4096 * k)"
    using assms by (simp add: signed_of_nat signed_take_bit_int_eq_self del: of_nat_mult)
  then have "sint (page_of s k - start_addr s) = 4096 * int k" by (simp add: page_of_def mult.commute)
  moreover have "4096 * int k sdiv 4096 = int k"
    by (cases "k = 0") (simp_all add: signed_divide_int_def sgn_if)
  ultimately show ?thesis using assms by (simp add: page_index_def unat_of_nat_small)
qed

lemma page_lock_commute:
  "mark_page k (t\<lparr>bitmap_lock := l\<rparr>) = (mark_page k t)\<lparr>bitmap_lock := l\<rparr>"
  "clear_page k (t\<lparr>bitmap_lock := l\<rparr>) = (clear_page k t)\<lparr>bitmap_lock := l\<rparr>"
  by (simp_all add: mark_page_def clear_page_def bitmap_put_def)

lemma fold_lock_commute:
  "fold mark_page ks (t\<lparr>bitmap_lock := l\<rparr>) = (fold mark_page ks t)\<lparr>bitmap_lock := l\<rparr>"
  "fold clear_page ks (t\<lparr>bitmap_lock := l\<rparr>) = (fold clear_page ks t)\<lparr>bitmap_lock := l\<rparr>"
  by (induction ks arbitrary: t) (simp_all add: page_lock_commute)

lemma page_of_Suc: "page_of s k + 4096 = page_of s (Suc k)"
  by (simp add: page_of_def algebra_simps)

lemma free_loop_fold:
  "p + k \<le> 2 ^ 19 \<Longrightarrow> free_loop (page_of s p) k s = fold clear_page [p..<p + k] s"
proof (induction k arbitrary: p s)
  case (Suc k)
  have "page_index s (page_of s p) = p" using Suc.prems by (intro page_index_page_of) simp
  then have "free_loop (page_of s p) (Suc k) s = free_loop (page_of s (Suc p)) k (clear_page p s)"
    by (simp add: clear_page_def page_of_Suc Let_def)
  also have "\<dots> = fold clear_page [Suc p..<Suc p + k] (clear_page p s)"
    using Suc.IH[of "Suc p" "clear_page p s"] Suc.prems by simp
  finally show ?case by (simp add: upt_conv_Cons del: upt_Suc)
qed simp

definition run_at :: "'a bitmap_state_scheme \<Rightarrow> nat \<Rightarrow> nat \<Rightarrow> bool" where
  "run_at s p n \<longleftrightarrow> (\<forall>k \<in> {p..<p + n}. k < managed s \<and> \<not> allocated s k)"

lemma run_at_scan:
  assumes "p < managed s"
  shows "\<not> ISSET_BIT (bitmap_word s (p div 32)) (p mod 32) \<and> run_free s (p div 32) (Suc (p mod 32)) (n - 1)
    \<longleftrightarrow> run_at s p (max 1 n)"
proof -
  have p: "p div 32 < bitmap_len s" "Suc (p mod 32) \<le> 32" "32 * (p div 32) + Suc (p mod 32) = Suc p"
    using assms index_split(1)[of p "bitmap_len s"] by (simp_all add: managed_def Suc_le_eq)
  have "run_at s p (max 1 n) \<longleftrightarrow> (\<forall>t < max 1 n. p + t < managed s \<and> \<not> allocated s (p + t))"
    unfolding run_at_def by (force simp: le_iff_add)
  moreover have "max 1 n = Suc (n - 1)" by simp
  ultimately have "run_at s p (max 1 n) \<longleftrightarrow> \<not> allocated s p \<and>
      (\<forall>t < n - 1. Suc (p + t) < managed s \<and> \<not> allocated s (Suc (p + t)))"
    using assms by (simp only: all_less_Suc_shift) simp
  moreover have "run_free s (p div 32) (Suc (p mod 32)) (n - 1) \<longleftrightarrow>
      (\<forall>t < n - 1. Suc (p + t) < managed s \<and> \<not> allocated s (Suc (p + t)))"
    using run_free_iff[OF p(1,2), of "n - 1"] unfolding p(3) by simp
  ultimately show ?thesis by (simp add: ISSET_BIT_allocated)
qed

lemma run_at_lock [simp]: "run_at (s\<lparr>bitmap_lock := l\<rparr>) = run_at s"
  by (simp add: run_at_def fun_eq_iff)

lemma contiguous_scan:
  fixes s :: "'a bitmap_state_scheme"
  defines "scan n \<equiv> find (\<lambda>(i, j). \<not> ISSET_BIT (bitmap_word s i) j \<and> run_free s i (Suc j) (n - 1))
            (List.product [0..<bitmap_len s] [0..<32])"
  shows contiguous_scan_Some: "p < managed s \<Longrightarrow> run_at s p (max 1 n) \<Longrightarrow> \<forall>q<p. \<not> run_at s q (max 1 n)
      \<Longrightarrow> scan n = Some (p div 32, p mod 32)"
    and contiguous_scan_None: "\<forall>p<managed s. \<not> run_at s p (max 1 n) \<Longrightarrow> scan n = None"
proof -
  let ?Q = "\<lambda>i j. \<not> ISSET_BIT (bitmap_word s i) j \<and> run_free s i (Suc j) (n - 1)"
  show "scan n = Some (p div 32, p mod 32)"
    if p: "p < managed s" "run_at s p (max 1 n)" "\<forall>q<p. \<not> run_at s q (max 1 n)"
  proof -
    have "?Q (p div 32) (p mod 32)" using run_at_scan[OF p(1)] p(2) by blast
    moreover have "\<forall>q<p. \<not> ?Q (q div 32) (q mod 32)"
      using run_at_scan p(1,3) less_trans by blast
    ultimately show ?thesis
      unfolding scan_def find_grid_Some using p(1) by (intro exI[of _ p]) (simp add: managed_def)
  qed
  show "scan n = None" if "\<forall>p<managed s. \<not> run_at s p (max 1 n)"
    unfolding scan_def find_grid_None using that run_at_scan managed_def by metis
qed

lemma alloc_contiguous_cases:
  assumes "unlocked s"
  obtains (full) "\<forall>p. \<not> run_at s p (max 1 (unat n))" "bitmap_alloc_contiguous_pages n s = Some (NULL, s)"
  | (run) p where "run_at s p (max 1 (unat n))" "\<forall>q<p. \<not> run_at s q (max 1 (unat n))"
      "bitmap_alloc_contiguous_pages n s = Some (page_of s p, fold mark_page [p..<p + unat n] s)"
proof (cases "\<exists>p. run_at s p (max 1 (unat n))")
  case False
  let ?s1 = "s\<lparr>bitmap_lock := Some True\<rparr>"
  have "bitmap_alloc_contiguous_pages n s = Some (NULL, s)"
    using False contiguous_scan_None[of ?s1 "unat n"] assms
    by (simp add: bitmap_alloc_contiguous_pages_def bitmap_acquire_unlocked release_acquired del: upt_rec_numeral)
  with False full show thesis by blast
next
  case True
  let ?s1 = "s\<lparr>bitmap_lock := Some True\<rparr>"
  obtain p where p: "run_at s p (max 1 (unat n))" "\<forall>q<p. \<not> run_at s q (max 1 (unat n))"
    using True exists_least_iff[of "\<lambda>p. run_at s p (max 1 (unat n))"] by blast
  then have "p < managed s" by (auto simp: run_at_def)
  then have scan: "find (\<lambda>(i, j). \<not> ISSET_BIT (bitmap_word ?s1 i) j \<and> run_free ?s1 i (Suc j) (unat n - 1))
      (List.product [0..<bitmap_len ?s1] [0..<32]) = Some (p div 32, p mod 32)"
    using p by (intro contiguous_scan_Some) simp_all
  have mark: "run_mark (p div 32) (p mod 32) (unat n) ?s1 = fold mark_page [p..<p + unat n] ?s1"
    using run_mark_fold[of "p mod 32" "p div 32" "unat n" ?s1] by simp
  have rel: "bitmap_release (fold mark_page ks ?s1) = fold mark_page ks s" for ks
    using assms unlocked_id[of "fold mark_page ks s"]
    by (simp add: bitmap_release_def unlocked_def fold_page_simps fold_lock_commute)
  have "bitmap_alloc_contiguous_pages n s = Some (page_of s p, fold mark_page [p..<p + unat n] s)"
    using assms scan page_addr_page_of[of "fold mark_page [p..<p + unat n] s" p]
    by (simp add: bitmap_alloc_contiguous_pages_def bitmap_acquire_unlocked mark rel fold_page_simps
        del: upt_rec_numeral)
  with p run show thesis by blast
qed

lemma bitmap_free_pages_run:
  assumes "unlocked s" "p + unat n \<le> 2 ^ 19"
  shows "bitmap_free_pages (page_of s p) n s = Some (fold clear_page [p..<p + unat n] s)"
proof -
  let ?s1 = "s\<lparr>bitmap_lock := Some True\<rparr>"
  have "page_of s p = page_of ?s1 p" by (simp add: page_of_def)
  then have "free_loop (page_of s p) (unat n) ?s1 = fold clear_page [p..<p + unat n] ?s1"
    using free_loop_fold[OF assms(2), of ?s1] by simp
  then show ?thesis
    using assms(1) unlocked_id[of "fold clear_page [p..<p + unat n] s"]
    by (simp add: bitmap_free_pages_def bitmap_acquire_unlocked bitmap_release_def unlocked_def fold_page_simps
        fold_lock_commute)
qed

section \<open>The interface of a page allocator\<close>

text \<open>
  What the users of the allocator rely on. \<open>used\<close> are the addresses of the pages in use;
  \<open>frame s s'\<close> says that \<open>s'\<close> differs from \<open>s\<close> in the allocation of pages only, so two
  states related by it with the same pages in use are the same.
\<close>

locale page_allocator =
  fixes inv :: "'s \<Rightarrow> bool" and used :: "'s \<Rightarrow> ptr set" and frame :: "'s \<Rightarrow> 's \<Rightarrow> bool"
    and alloc :: "'s \<Rightarrow> (ptr \<times> 's) option"
  assumes alloc_total: "inv s \<Longrightarrow> \<exists>p s'. alloc s = Some (p, s')"
    and alloc_inv: "inv s \<Longrightarrow> alloc s = Some (p, s') \<Longrightarrow> inv s' \<and> frame s s'"
    and alloc_fresh: "inv s \<Longrightarrow> alloc s = Some (p, s') \<Longrightarrow> p \<noteq> NULL \<Longrightarrow>
      p \<notin> used s \<and> used s' = insert p (used s)"
    and alloc_null: "inv s \<Longrightarrow> alloc s = Some (NULL, s') \<Longrightarrow> s' = s"
    and frame_refl: "frame s s"
    and frame_trans: "frame s s' \<Longrightarrow> frame s' s'' \<Longrightarrow> frame s s''"
begin

lemma alloc_many:
  assumes "inv s"
  shows "\<exists>ps s'. memtest_alloc alloc n s = Some (ps, s') \<and> inv s' \<and> frame s s' \<and> distinct ps
    \<and> set ps \<inter> used s = {} \<and> used s' = used s \<union> set ps"
  using assms
proof (induction n arbitrary: s)
  case 0
  then show ?case by (simp add: frame_refl)
next
  case (Suc n)
  obtain p s1 where a: "alloc s = Some (p, s1)" using alloc_total Suc.prems by blast
  note s1 = alloc_inv[OF Suc.prems a]
  show ?case
  proof (cases "p = NULL")
    case True
    then show ?thesis using a s1 alloc_null[OF Suc.prems] by simp
  next
    case False
    note fresh = alloc_fresh[OF Suc.prems a False]
    obtain ps s2 where "memtest_alloc alloc n s1 = Some (ps, s2)" "inv s2" "frame s1 s2" "distinct ps"
      "set ps \<inter> used s1 = {}" "used s2 = used s1 \<union> set ps"
      using Suc.IH s1 by blast
    with a False fresh s1 show ?thesis using frame_trans[of s s1 s2] by auto
  qed
qed

end

locale page_pool = page_allocator +
  fixes release :: "ptr \<Rightarrow> 's \<Rightarrow> 's option"
  assumes release_used: "inv s \<Longrightarrow> p \<in> used s \<Longrightarrow> \<exists>s'. release p s = Some s' \<and> frame s s' \<and> used s' = used s - {p}"
    and release_inv: "inv s0 \<Longrightarrow> inv s \<Longrightarrow> frame s0 s \<Longrightarrow> p \<in> used s \<Longrightarrow> p \<notin> used s0 \<Longrightarrow>
      used s0 \<subseteq> used s \<Longrightarrow> release p s = Some s' \<Longrightarrow> inv s'"
    and frame_eq: "inv s \<Longrightarrow> frame s s' \<Longrightarrow> used s' = used s \<Longrightarrow> s' = s"
begin

lemma release_many:
  assumes "inv s0" "inv s" "frame s0 s" "distinct ps" "set ps \<inter> used s0 = {}" "used s = used s0 \<union> set ps"
  shows "memtest_free release ps s = Some s0"
  using assms(2-)
proof (induction ps arbitrary: s)
  case Nil
  then show ?case using frame_eq[OF assms(1)] by simp
next
  case (Cons p ps)
  have p: "p \<in> used s" "p \<notin> used s0" "used s0 \<subseteq> used s" using Cons.prems by auto
  obtain s1 where s1: "release p s = Some s1" "frame s s1" "used s1 = used s - {p}"
    using release_used Cons.prems(1) p(1) by blast
  have "inv s1" using release_inv[OF assms(1) Cons.prems(1,2) p s1(1)] .
  moreover have "frame s0 s1" using frame_trans Cons.prems(2) s1(2) by blast
  ultimately have "memtest_free release ps s1 = Some s0"
    using Cons.prems(3-) s1(3) by (intro Cons.IH) auto
  with s1(1) show ?case by simp
qed

lemma alloc_release_all:
  assumes "inv s"
  shows "\<exists>ps s'. memtest_alloc alloc n s = Some (ps, s') \<and> memtest_free release ps s' = Some s"
  using alloc_many[OF assms, of n] release_many[OF assms] by blast

end

section \<open>The bitmap allocator provides the interface\<close>

definition used_addrs :: "'a bitmap_state_scheme \<Rightarrow> ptr set" where
  "used_addrs s = page_of s ` used_pages s"

definition same_but_bits :: "'a bitmap_state_scheme \<Rightarrow> 'a bitmap_state_scheme \<Rightarrow> bool" where
  "same_but_bits s s' \<longleftrightarrow> bitmap s' = bitmap s \<and> frames s' = frames s \<and> start_addr s' = start_addr s
     \<and> bitmap_lock s' = bitmap_lock s \<and> lock_index s' = lock_index s
     \<and> bitmap_state.more s' = bitmap_state.more s \<and> (\<forall>a. \<not> in_bitmap s a \<longrightarrow> kmem s' a = kmem s a)"

definition bitmap_inv :: "'a bitmap_state_scheme \<Rightarrow> bool" where
  "bitmap_inv s \<longleftrightarrow> bitmap_wf s \<and> unlocked s"

lemma page_of_eq_iff:
  assumes "bitmap_wf s" "k < managed s" "l < managed s"
  shows "page_of s k = page_of s l \<longleftrightarrow> k = l"
proof
  assume "page_of s k = page_of s l"
  then have "unat (start_addr s) + 4096 * k = unat (start_addr s) + 4096 * l"
    using unat_page_of[OF assms(1,2)] unat_page_of[OF assms(1,3)] by metis
  then show "k = l" by linarith
qed simp

lemma page_of_used_addrs:
  assumes "bitmap_wf s" "k < managed s"
  shows "page_of s k \<in> used_addrs s \<longleftrightarrow> allocated s k"
  using assms by (auto simp: used_addrs_def used_pages_def page_of_eq_iff)

lemma same_but_bits_fold:
  assumes "words_ok s" "set ks \<subseteq> {..<managed s}"
  shows "same_but_bits s (fold mark_page ks s)" "same_but_bits s (fold clear_page ks s)"
  using fold_page_outside[OF assms] by (simp_all add: same_but_bits_def fold_page_simps)

lemma same_but_bits_mark: "words_ok s \<Longrightarrow> k < managed s \<Longrightarrow> same_but_bits s (mark_page k s)"
  using same_but_bits_fold(1)[of s "[k]"] by simp

lemma same_but_bits_clear: "words_ok s \<Longrightarrow> k < managed s \<Longrightarrow> same_but_bits s (clear_page k s)"
  using same_but_bits_fold(2)[of s "[k]"] by simp

lemma same_but_bits_refl [simp]: "same_but_bits s s"
  by (simp add: same_but_bits_def)

lemma same_but_bits_trans: "same_but_bits s t \<Longrightarrow> same_but_bits t u \<Longrightarrow> same_but_bits s u"
  by (simp add: same_but_bits_def in_bitmap_def bitmap_len_def)

lemma same_but_bits_page_of: "same_but_bits s t \<Longrightarrow> page_of t = page_of s \<and> managed t = managed s"
  by (simp add: same_but_bits_def page_of_def managed_def bitmap_len_def fun_eq_iff)

lemma used_addrs_mark:
  "words_ok s \<Longrightarrow> k < managed s \<Longrightarrow> used_addrs (mark_page k s) = insert (page_of s k) (used_addrs s)"
  by (simp add: used_addrs_def used_pages_mark_page)

lemma used_addrs_clear:
  assumes "bitmap_wf s" "k < managed s"
  shows "used_addrs (clear_page k s) = used_addrs s - {page_of s k}"
proof -
  have "used_pages (clear_page k s) = used_pages s - {k}"
    using bitmap_wf_words_ok[OF assms(1)] assms(2) by (auto simp: used_pages_def allocated_clear_page)
  moreover have "page_of s l = page_of s k \<longleftrightarrow> l = k" if "l \<in> used_pages s" for l
    using that page_of_eq_iff[OF assms(1) _ assms(2)] by (simp add: used_pages_def)
  ultimately show ?thesis by (auto simp: used_addrs_def)
qed

lemma bitmap_inv_mark: "bitmap_inv s \<Longrightarrow> k < managed s \<Longrightarrow> bitmap_inv (mark_page k s)"
  by (simp add: bitmap_inv_def bitmap_wf_mark_page unlocked_def)

interpretation bm: page_allocator bitmap_inv used_addrs same_but_bits bitmap_alloc_page
proof unfold_locales
  fix s s' :: "'a bitmap_state_scheme" and p
  assume inv: "bitmap_inv s"
  then have s: "words_ok s" "unlocked s" "bitmap_wf s" by (simp_all add: bitmap_inv_def bitmap_wf_words_ok)
  note cases = alloc_page_cases[OF s(1,2)]
  show "\<exists>p s'. bitmap_alloc_page s = Some (p, s')" by (rule cases) blast+
  show "bitmap_inv s' \<and> same_but_bits s s'" if "bitmap_alloc_page s = Some (p, s')"
    by (rule cases) (use that inv s in \<open>auto simp: bitmap_inv_mark same_but_bits_mark\<close>)
  show "p \<notin> used_addrs s \<and> used_addrs s' = insert p (used_addrs s)"
    if "bitmap_alloc_page s = Some (p, s')" "p \<noteq> NULL"
    by (rule cases) (use that s in \<open>auto simp: page_of_used_addrs used_addrs_mark\<close>)
  show "s' = s" if "bitmap_alloc_page s = Some (NULL, s')"
    by (rule cases) (use that s in \<open>auto simp: page_of_not_null\<close>)
qed (auto simp: same_but_bits_def in_bitmap_def bitmap_len_def)

text \<open>
  Freeing finds the page only below 2 GiB of managed memory, so the pool with release is
  provided for such machines.
\<close>

definition pool_inv :: "'a bitmap_state_scheme \<Rightarrow> bool" where
  "pool_inv s \<longleftrightarrow> bitmap_inv s \<and> managed s \<le> 2 ^ 19"

lemma same_but_bits_eq:
  assumes "bitmap_inv s" "same_but_bits s s'" "used_addrs s' = used_addrs s"
  shows "s' = s"
proof (rule bitmap_state_eqI)
  have s: "bitmap_wf s" using assms(1) by (simp add: bitmap_inv_def)
  then show "words_ok s" by (rule bitmap_wf_words_ok)
  fix k assume k: "k < managed s"
  have inj: "page_of s l = page_of s k \<longleftrightarrow> l = k" if "l < managed s" for l
    using page_of_eq_iff[OF s that k] .
  have "allocated s' k \<longleftrightarrow> page_of s k \<in> used_addrs s'"
    using k inj same_but_bits_page_of[OF assms(2)]
    by (simp add: used_addrs_def used_pages_def image_iff) metis
  then show "allocated s' k = allocated s k"
    using assms(3) page_of_used_addrs[OF s k] by simp
qed (use assms(2) in \<open>simp_all add: same_but_bits_def\<close>)

lemma bitmap_free_one:
  assumes "pool_inv s" "k < managed s"
  shows "bitmap_free_pages (page_of s k) 1 s = Some (clear_page k s)"
  using assms bitmap_free_pages_run[of s k 1] by (simp add: pool_inv_def bitmap_inv_def)

lemma bitmap_inv_clear:
  assumes "bitmap_inv s" "k < managed s" "32 \<le> k"
  shows "bitmap_inv (clear_page k s)"
proof -
  have wf: "bitmap_wf s" using assms(1) by (simp add: bitmap_inv_def)
  have "allocated (clear_page k s) l" if "l < 32" "l < managed s" for l
    using allocated_clear_page[OF bitmap_wf_words_ok[OF wf] assms(2) that(2)] that(1) assms(3)
      bitmap_wfD(4)[OF wf that] by simp
  then have "bitmap_wf (clear_page k s)"
    unfolding bitmap_wf_def clear_page_simps by (intro conjI allI impI bitmap_wfD(1,2,3,5)[OF wf])
  then show ?thesis using assms(1) by (simp add: bitmap_inv_def unlocked_def)
qed

lemma used_addrsE:
  assumes "p \<in> used_addrs s"
  obtains k where "p = page_of s k" "k < managed s" "allocated s k"
  using assms by (auto simp: used_addrs_def used_pages_def)

interpretation pool: page_pool pool_inv used_addrs same_but_bits bitmap_alloc_page "\<lambda>p. bitmap_free_pages p 1"
proof unfold_locales
  fix s s' s0 :: "'a bitmap_state_scheme" and p
  assume inv: "pool_inv s"
  then have s: "bitmap_inv s" "bitmap_wf s" "words_ok s"
    by (simp_all add: pool_inv_def bitmap_inv_def bitmap_wf_words_ok)
  show "\<exists>p s'. bitmap_alloc_page s = Some (p, s')" using bm.alloc_total[OF s(1)] .
  show "pool_inv s' \<and> same_but_bits s s'" if "bitmap_alloc_page s = Some (p, s')"
    using bm.alloc_inv[OF s(1) that] inv by (auto simp: pool_inv_def dest: same_but_bits_page_of)
  show "p \<notin> used_addrs s \<and> used_addrs s' = insert p (used_addrs s)"
    if "bitmap_alloc_page s = Some (p, s')" "p \<noteq> NULL" using bm.alloc_fresh[OF s(1) that] .
  show "s' = s" if "bitmap_alloc_page s = Some (NULL, s')" using bm.alloc_null[OF s(1) that] .
  show "\<exists>s'. bitmap_free_pages p 1 s = Some s' \<and> same_but_bits s s' \<and> used_addrs s' = used_addrs s - {p}"
    if "p \<in> used_addrs s"
    using that inv s by (auto elim!: used_addrsE simp: bitmap_free_one same_but_bits_clear used_addrs_clear)
  show "s' = s" if "same_but_bits s s'" "used_addrs s' = used_addrs s"
    using same_but_bits_eq[OF s(1) that] .
  show "pool_inv s'" if s0: "pool_inv s0" "same_but_bits s0 s" "p \<in> used_addrs s" "p \<notin> used_addrs s0"
    "used_addrs s0 \<subseteq> used_addrs s" "bitmap_free_pages p 1 s = Some s'"
  proof -
    obtain k where k: "p = page_of s k" "k < managed s" "allocated s k" using s0(3) by (rule used_addrsE)
    have "bitmap_wf s0" using s0(1) by (simp add: pool_inv_def bitmap_inv_def)
    then have "32 \<le> k"
      using s0(2,4) k page_of_used_addrs[of s0 k] same_but_bits_page_of[OF s0(2)] bitmap_wfD(4)[of s0 k]
      by (simp add: not_less[symmetric]) auto
    then show ?thesis
      using s0(6) k inv bitmap_inv_clear[OF s(1) k(2)] by (auto simp: bitmap_free_one pool_inv_def)
  qed
qed (auto intro: bm.frame_trans)

section \<open>Counting pages\<close>

lemma word_count_card: "word_count popcnt w = of_nat (card {j. j < 32 \<and> bit w j})"
proof (cases popcnt)
  case True
  have "{i. i < LENGTH(64) \<and> bit (ucast w :: u64) i} = {j. j < 32 \<and> bit w j}"
    by (auto simp: bit_ucast_iff dest: bit_imp_le_length)
  then have "unat (popcnt64 (ucast w)) = card {j. j < 32 \<and> bit w j}"
    by (simp add: unat_popcnt64 popcnt_insn_card)
  then have "popcnt64 (ucast w) = of_nat (card {j. j < 32 \<and> bit w j})"
    by (metis of_nat_unat ucast_id)
  moreover have "ucast (of_nat n :: u64) = (of_nat n :: u32)" for n
    by (rule bit_word_eqI) (auto simp: bit_ucast_iff bit_simps)
  ultimately show ?thesis using True by (simp add: word_count_def)
next
  case False
  have "length (filter (ISSET_BIT w) [0..<32]) = card (set (filter (ISSET_BIT w) [0..<32]))"
    by (intro distinct_card[symmetric]) simp
  also have "set (filter (ISSET_BIT w) [0..<32]) = {j. j < 32 \<and> bit w j}"
    by (auto simp: ISSET_BIT_iff simp del: upt_rec_numeral)
  finally show ?thesis using False by (simp add: word_count_def)
qed

lemma foldl_of_nat: "foldl (\<lambda>a i. a + of_nat (f i)) (of_nat c) [0..<n] = (of_nat (c + (\<Sum>i<n. f i)) :: u32)"
  by (induction n) simp_all

lemma card_grid:
  "card {k. k < 32 * n \<and> Q (k div 32) (k mod 32)} = (\<Sum>i<n. card {j. j < 32 \<and> Q i j})" for n :: nat
proof (induction n)
  case (Suc n)
  let ?S = "\<lambda>n. {k. k < 32 * n \<and> Q (k div 32) (k mod 32)}"
  have "?S (Suc n) = ?S n \<union> (+) (32 * n) ` {j. j < 32 \<and> Q n j}" (is "_ = _ \<union> ?T")
  proof (intro set_eqI iffI)
    fix k assume k: "k \<in> ?S (Suc n)"
    show "k \<in> ?S n \<union> ?T"
    proof (cases "k < 32 * n")
      case False
      then obtain j where j: "k = 32 * n + j" by (metis le_add_diff_inverse not_less)
      with k have "j < 32" by simp
      with j k show ?thesis by auto
    qed (use k in simp)
  qed auto
  moreover have "?S n \<inter> ?T = {}" by auto
  ultimately show ?case by (simp add: card_Un_disjoint card_image Suc.IH)
qed simp

lemma allocated_pages_card:
  "bitmap_allocated_pages popcnt s = of_nat (card (used_pages s))"
proof -
  have "used_pages s = {k. k < 32 * bitmap_len s \<and> bit (bitmap_word s (k div 32)) (k mod 32)}"
    by (simp add: used_pages_def managed_def allocated_def)
  then show ?thesis
    using foldl_of_nat[of "\<lambda>i. card {j. j < 32 \<and> bit (bitmap_word s i) j}" 0 "bitmap_len s"]
    by (simp add: bitmap_allocated_pages_def word_count_card card_grid[where Q = "\<lambda>i. bit (bitmap_word s i)"])
qed

section \<open>Set-up\<close>

lemma nat_round_up:
  fixes n :: nat
  assumes "n \<le> 0xFFFFF000" "n mod 4096 \<noteq> 0"
  shows "n + (4096 - n mod 4096) = 4096 * (n div 4096 + 1)" "n + (4096 - n mod 4096) \<le> 0xFFFFF000"
proof -
  have split: "4096 * (n div 4096) + n mod 4096 = n" and lt: "n mod 4096 < 4096" by simp_all
  show eq: "n + (4096 - n mod 4096) = 4096 * (n div 4096 + 1)"
  proof -
    have "q * 4096 + r = n \<Longrightarrow> r < 4096 \<Longrightarrow> n + (4096 - r) = 4096 * (q + 1)" for q r by auto
    then show ?thesis using split lt by (metis mult.commute)
  qed
  have "n div 4096 < 0xFFFFF"
  proof (rule ccontr)
    assume "\<not> n div 4096 < 0xFFFFF"
    then have "0xFFFFF000 + n mod 4096 \<le> n" using split by linarith
    with assms show False by simp
  qed
  then show "n + (4096 - n mod 4096) \<le> 0xFFFFF000" unfolding eq by simp
qed

lemma unat_round_up_page:
  assumes "unat a \<le> 0xFFFFF000"
  shows "unat (round_up_page a) mod 4096 = 0" "unat a \<le> unat (round_up_page a)"
    "unat (round_up_page a) < unat a + 4096" "unat (round_up_page a) \<le> 0xFFFFF000"
proof -
  let ?r = "unat a mod 4096"
  have r: "unat (a mod 4096) = ?r" by (simp add: unat_mod)
  have "unat (round_up_page a) = (if ?r = 0 then unat a else unat a + (4096 - ?r))"
  proof (cases "a mod 4096 = 0")
    case False
    then have "?r \<noteq> 0" using r by (metis unat_eq_zero)
    have "unat (4096 - a mod 4096) = 4096 - ?r"
      using r by (simp add: unat_sub word_le_nat_alt)
    then have "unat (a + (4096 - a mod 4096)) = unat a + (4096 - ?r)"
      using nat_round_up(2)[OF assms \<open>?r \<noteq> 0\<close>] by (subst unat_add_no_wrap) simp_all
    then show ?thesis using False \<open>?r \<noteq> 0\<close> by (simp add: round_up_page_def)
  next
    case True
    then show ?thesis using r by (simp add: round_up_page_def)
  qed
  note up = this
  show "unat (round_up_page a) mod 4096 = 0"
    using nat_round_up(1)[OF assms] by (cases "?r = 0") (simp_all add: up)
  show "unat (round_up_page a) \<le> 0xFFFFF000"
    using nat_round_up(2)[OF assms] assms by (cases "?r = 0") (simp_all add: up)
  show "unat a \<le> unat (round_up_page a)" "unat (round_up_page a) < unat a + 4096"
    unfolding up by auto
qed

text \<open>What \<open>bitmap_init\<close> leaves behind.\<close>

lemma bitmap_init_result:
  assumes "bitmap_lock s = Some False"
  shows "bitmap_init a m s = Some (bitmap_put 0 0xFFFFFFFF
    (s\<lparr>start_addr := round_up_page a, bitmap := round_up_page a,
       frames := round_up_page (m - round_up_page a) div 4096,
       kmem := fill (kmem s) (round_up_page a) 0 (unat (round_up_page (m - round_up_page a) div 4096 div 8))\<rparr>))"
  using assms by (simp add: bitmap_init_def memset_def Let_def)

lemma load32_zeroed:
  assumes "4 * i + 4 \<le> n" "n < 2 ^ 32"
  shows "load32 (fill m p 0 n) (p + of_nat (4 * i)) = 0"
proof -
  have "fill m p 0 n (p + of_nat (4 * i + j)) = 0" if "j < 4" for j
    using that assms by (intro fill_inside) simp_all
  from this[of 0] this[of 1] this[of 2] this[of 3] show ?thesis
    by (simp add: load32_def ac_simps)
qed

lemma bitmap_init_pages:
  assumes lock: "bitmap_lock s = Some False"
    and range: "unat a \<le> 0xFFFFF000" "unat (round_up_page a) \<le> unat m" "unat m \<le> 0xFFFFF000"
  obtains s' where "bitmap_init a m s = Some s'" "start_addr s' = round_up_page a"
    "bitmap_lock s' = Some False" "frames s' = round_up_page (m - round_up_page a) div 4096"
    "bitmap s' = start_addr s'" "unat (start_addr s') mod 4096 = 0"
    "unat (start_addr s') + 4096 * managed s' < 2 ^ 32"
    "\<And>k. k < managed s' \<Longrightarrow> allocated s' k \<longleftrightarrow> k < 32"
proof -
  let ?b = "round_up_page a" and ?fr = "round_up_page (m - round_up_page a) div 4096"
  let ?s2 = "s\<lparr>start_addr := ?b, bitmap := ?b, frames := ?fr, kmem := fill (kmem s) ?b 0 (unat (?fr div 8))\<rparr>"
  let ?s' = "bitmap_put 0 0xFFFFFFFF ?s2"
  have diff: "unat (m - ?b) = unat m - unat ?b" using range(2) by (simp add: unat_sub word_le_nat_alt)
  then have "unat (m - ?b) \<le> 0xFFFFF000" using range(3) by simp
  note mem = unat_round_up_page[OF this] and start = unat_round_up_page[OF range(1)]
  have top: "unat ?b + unat (round_up_page (m - ?b)) < 2 ^ 32"
    using mem(3) diff range(2,3) by simp
  have fr: "unat ?fr = unat (round_up_page (m - ?b)) div 4096" by (simp add: unat_div)
  have man: "managed ?s' = 32 * (unat ?fr div 32)" by (simp add: managed_def bitmap_len_def unat_div)
  then have man_le: "4096 * managed ?s' \<le> unat (round_up_page (m - ?b))" unfolding man fr by linarith
  have ok: "words_ok ?s2"
  proof -
    have "unat ?b mod 4096 mod 4 = unat ?b mod 4" by (rule mod_mod_cancel) simp
    moreover have "unat ?b + 4 * bitmap_len ?s2 \<le> 2 ^ 32"
      using top man_le by (simp add: managed_def bitmap_len_def)
    ultimately show ?thesis using start(1) by (simp add: words_ok_def)
  qed
  have word: "bitmap_word ?s' i = (if i = 0 then 0xFFFFFFFF else 0)" if "i < bitmap_len ?s2" for i
  proof -
    have "4 * i + 4 \<le> unat (?fr div 8)" using that by (simp add: bitmap_len_def unat_div)
    then have "bitmap_word ?s2 i = 0"
      using load32_zeroed[of i "unat (?fr div 8)" "kmem s" ?b] unsigned_less[of "?fr div 8"]
      by (simp add: bitmap_word_def)
    then show ?thesis using bitmap_word_put[OF ok, of 0 i] that by auto
  qed
  have "allocated ?s' k \<longleftrightarrow> k < 32" if "k < managed ?s'" for k
  proof -
    have "k div 32 < bitmap_len ?s2" using that index_split(1) by (simp add: managed_def)
    then have "allocated ?s' k \<longleftrightarrow> bit (if k div 32 = 0 then 0xFFFFFFFF else 0 :: u32) (k mod 32)"
      by (simp add: allocated_def word)
    moreover have "bit (0xFFFFFFFF :: u32) (k mod 32)"
    proof -
      have "bit (mask 32 :: u32) (k mod 32)" by (simp add: bit_mask_iff)
      moreover have "mask 32 = (0xFFFFFFFF :: u32)" by (simp add: mask_eq_exp_minus_1)
      ultimately show ?thesis by metis
    qed
    ultimately show ?thesis by (cases "k < 32") (simp_all add: div_eq_0_iff)
  qed
  moreover have "unat ?b + 4096 * managed ?s' < 2 ^ 32" using top man_le by linarith
  ultimately show thesis
    using that[OF bitmap_init_result[OF lock, of a m]] start(1) lock by simp
qed

section \<open>Pages beyond 2 GiB\<close>

lemma page_index_wraps:
  assumes "2 ^ 19 \<le> k" "k < 2 ^ 20"
  shows "page_index s (page_of s k) = 2 ^ 32 - 2 ^ 20 + k"
proof -
  have "- (2 ^ 31) \<le> x \<Longrightarrow> x < 2 ^ 31 \<Longrightarrow> sint (of_int x :: u32) = x" for x
    by (simp add: signed_of_int signed_take_bit_int_eq_self)
  then have "sint (of_int (4096 * int k - 2 ^ 32) :: u32) = 4096 * int k - 2 ^ 32"
    using assms by (elim meta_allE[of _ "4096 * int k - 2 ^ 32"] meta_mp) simp_all
  moreover have "(of_int (4096 * int k - 2 ^ 32) :: u32) = of_nat k * 4096" by (simp add: mult.commute)
  moreover have "page_of s k - start_addr s = of_nat k * 4096" by (simp add: page_of_def)
  ultimately have "sint (page_of s k - start_addr s) = 4096 * int k - 2 ^ 32" by metis
  moreover have "(4096 * int k - 2 ^ 32) sdiv 4096 = int k - 2 ^ 20"
  proof -
    have "4096 * int k - 2 ^ 32 = (int k - 2 ^ 20) * 4096" by simp
    then show ?thesis using assms
      by (simp add: signed_divide_int_def sgn_if abs_mult split: if_splits)
  qed
  ultimately have "page_index s (page_of s k) = unat (of_int (int k - 2 ^ 20) :: u32)"
    by (simp only: page_index_def)
  also have "(of_int (int k - 2 ^ 20) :: u32) = of_nat (2 ^ 32 - 2 ^ 20 + k)" by simp
  also have "unat (of_nat (2 ^ 32 - 2 ^ 20 + k) :: u32) = 2 ^ 32 - 2 ^ 20 + k"
    using assms by (intro unat_of_nat_small) simp
  finally show ?thesis .
qed

lemma managed_le: "bitmap_wf s \<Longrightarrow> managed s < 2 ^ 20"
  using bitmap_wfD(3)[of s] by simp

lemma bitmap_put_far:
  assumes wf: "bitmap_wf s" and far: "bitmap_len s \<le> i" "unat (start_addr s) + 4 * i + 4 \<le> 2 ^ 32"
    and k: "k < managed s"
  shows "allocated (bitmap_put i w s) k = allocated s k"
proof -
  note ok = bitmap_wf_words_ok[OF wf]
  have j: "k div 32 < bitmap_len s" using k index_split(1) by (simp add: managed_def)
  have ui: "unat (bitmap s + of_nat (4 * i)) = unat (bitmap s) + 4 * i"
    using far(2) bitmap_wfD(1)[OF wf] by (intro unat_add_of_nat) simp
  then have "aligned4 (bitmap s + of_nat (4 * i))"
    using ok unfolding aligned4_def words_ok_def by presburger
  moreover have "bitmap s + of_nat (4 * i) \<noteq> bitmap s + of_nat (4 * (k div 32))"
    using ui word_addr(1)[OF ok j] far(1) j by (metis add_left_cancel leD mult_cancel1 zero_neq_numeral)
  ultimately show ?thesis
    using word_addr(2)[OF ok j]
    by (simp add: allocated_def bitmap_word_def bitmap_put_def load32_store32_other)
qed

section \<open>Properties\<close>


text \<open>in a well-formed unlocked allocator \<open>bitmap_alloc_page\<close> returns the lowest free
  page, marks exactly it, keeps the invariant and touches no byte outside the bitmap; it returns
  \<open>NULL\<close> only when every page is in use.\<close>

theorem bitmap_alloc_page_correct:
  assumes "bitmap_wf s" "unlocked s"
  shows "(\<exists>k s'. bitmap_alloc_page s = Some (page_of s k, s') \<and> page_of s k \<noteq> NULL \<and>
      k < managed s \<and> \<not> allocated s k \<and> (\<forall>l<k. allocated s l) \<and> used_pages s' = insert k (used_pages s) \<and>
      bitmap_wf s' \<and> unlocked s' \<and> (\<forall>b. \<not> in_bitmap s b \<longrightarrow> kmem s' b = kmem s b))
    \<or> ((\<forall>k<managed s. allocated s k) \<and> bitmap_alloc_page s = Some (NULL, s))"
proof -
  note ok = bitmap_wf_words_ok[OF assms(1)]
  show ?thesis
  proof (rule alloc_page_cases[OF ok assms(2)])
    fix k assume k: "k < managed s" "\<not> allocated s k" "\<forall>l<k. allocated s l"
      "bitmap_alloc_page s = Some (page_of s k, mark_page k s)"
    have "unlocked (mark_page k s)" using assms(2) by (simp add: unlocked_def)
    moreover have "\<forall>b. \<not> in_bitmap s b \<longrightarrow> kmem (mark_page k s) b = kmem s b"
      using same_but_bits_mark[OF ok k(1)] by (simp add: same_but_bits_def)
    ultimately show ?thesis
      using k page_of_not_null[OF assms(1) k(1,2)] used_pages_mark_page[OF ok k(1)]
        bitmap_wf_mark_page[OF assms(1) k(1)] by blast
  qed blast
qed

text \<open>C4: \<open>bitmap_alloc_contiguous_pages n\<close> (\<open>n > 0\<close>) returns the lowest run of \<open>n\<close> free
  pages and marks exactly that run, or \<open>NULL\<close> with the state unchanged, and the latter only when
  there is no run of \<open>n\<close> free pages.\<close>

theorem bitmap_alloc_contiguous_correct:
  assumes "bitmap_wf s" "unlocked s" "0 < n"
  shows "(\<exists>p s'. bitmap_alloc_contiguous_pages n s = Some (page_of s p, s') \<and> page_of s p \<noteq> NULL \<and>
      run_at s p (unat n) \<and> (\<forall>q<p. \<not> run_at s q (unat n)) \<and>
      used_pages s' = used_pages s \<union> {p..<p + unat n} \<and> unlocked s')
    \<or> ((\<forall>p. \<not> run_at s p (unat n)) \<and> bitmap_alloc_contiguous_pages n s = Some (NULL, s))"
proof -
  note ok = bitmap_wf_words_ok[OF assms(1)]
  have n: "max 1 (unat n) = unat n" "0 < unat n"
    using assms(3) by (simp_all add: unat_gt_0 word_neq_0_conv max_def Suc_le_eq)
  show ?thesis
  proof (rule alloc_contiguous_cases[OF assms(2), of n]; unfold n(1))
    fix p assume p: "run_at s p (unat n)" "\<forall>q<p. \<not> run_at s q (unat n)"
      "bitmap_alloc_contiguous_pages n s = Some (page_of s p, fold mark_page [p..<p + unat n] s)"
    have sub: "{p..<p + unat n} \<subseteq> {..<managed s}" using p(1) by (auto simp: run_at_def)
    have p0: "p < managed s" "\<not> allocated s p" using p(1) n(2) by (auto simp: run_at_def)
    have "used_pages (fold mark_page [p..<p + unat n] s) = used_pages s \<union> {p..<p + unat n}"
      using allocated_fold_mark[OF ok, of "[p..<p + unat n]"] sub by (auto simp: used_pages_def fold_page_simps)
    moreover have "unlocked (fold mark_page [p..<p + unat n] s)"
      using assms(2) by (simp add: unlocked_def fold_page_simps)
    ultimately show ?thesis using p page_of_not_null[OF assms(1) p0] by blast
  qed blast
qed

text \<open>C37: freeing what a contiguous allocation returned restores the state byte for byte, on
  machines whose managed memory is at most 2 GiB.\<close>

theorem bitmap_free_undoes_alloc:
  assumes "bitmap_wf s" "unlocked s" "managed s \<le> 2 ^ 19"
    and alloc: "bitmap_alloc_contiguous_pages n s = Some (a, s')" "a \<noteq> NULL"
  shows "bitmap_free_pages a n s' = Some s"
proof (rule alloc_contiguous_cases[OF assms(2), of n])
  note ok = bitmap_wf_words_ok[OF assms(1)]
  fix p assume p: "run_at s p (max 1 (unat n))"
    "bitmap_alloc_contiguous_pages n s = Some (page_of s p, fold mark_page [p..<p + unat n] s)"
  let ?s = "fold mark_page [p..<p + unat n] s"
  have sub: "set [p..<p + unat n] \<subseteq> {..<managed s}" and free: "\<forall>k \<in> set [p..<p + unat n]. \<not> allocated s k"
    using p(1) by (auto simp: run_at_def)
  have "p + unat n \<le> 2 ^ 19"
    using p(1) assms(3) unfolding run_at_def by (cases "unat n") (auto dest: bspec[of _ _ "p + unat n - 1"])
  moreover have "unlocked ?s" using assms(2) by (simp add: unlocked_def fold_page_simps)
  ultimately have "bitmap_free_pages (page_of ?s p) n ?s = Some (fold clear_page [p..<p + unat n] ?s)"
    by (rule bitmap_free_pages_run[rotated])
  then show ?thesis
    using alloc(1) p(2) fold_clear_mark[OF ok sub free] by (simp add: fold_page_simps)
qed (use alloc in auto)

text \<open>freeing one page 2 GiB or more above the start of the managed memory frees nothing: the
  signed page index becomes negative, the bit cleared lies outside the bitmap, and the page stays
  allocated for good.\<close>

theorem bitmap_free_beyond_2GiB_leaks:
  assumes "bitmap_wf s" "unlocked s" "2 ^ 19 \<le> k" "k < managed s"
  shows "\<exists>s'. bitmap_free_pages (page_of s k) 1 s = Some s' \<and> used_pages s' = used_pages s"
proof -
  let ?s1 = "s\<lparr>bitmap_lock := Some True\<rparr>"
  have k20: "k < 2 ^ 20" using managed_le[OF assms(1)] assms(4) by linarith
  define i where "i = (2 ^ 32 - 2 ^ 20 + k) div 32"
  have "page_index ?s1 (page_of s k) = 2 ^ 32 - 2 ^ 20 + k"
    using page_index_wraps[OF assms(3) k20, of s] by (simp add: page_index_def page_of_def)
  then have "bitmap_free_pages (page_of s k) 1 s =
      Some (bitmap_put i (DISABLE_BIT (bitmap_word s i) ((2 ^ 32 - 2 ^ 20 + k) mod 32)) s)" (is "_ = Some ?s'")
    using assms(2) by (simp add: bitmap_free_pages_def bitmap_acquire_unlocked i_def bitmap_release_put
        unlocked_id Let_def)
  moreover have "used_pages ?s' = used_pages s"
  proof -
    have top: "unat (start_addr s) + 4096 * managed s < 2 ^ 32" by (rule bitmap_wfD(3)[OF assms(1)])
    then have "bitmap_len s \<le> i" "unat (start_addr s) + 4 * i + 4 \<le> 2 ^ 32"
      using assms(3,4) k20 unfolding i_def managed_def by simp_all
    then show ?thesis using bitmap_put_far[OF assms(1)] by (auto simp: used_pages_def)
  qed
  ultimately show ?thesis by blast
qed

text \<open>the boot-time memory test, which requests every page and frees them in the order it got
  them, terminates and leaves the allocator and all memory as they were (up to 2 GiB).\<close>

theorem memtest_restores:
  assumes "bitmap_wf s" "unlocked s" "managed s \<le> 2 ^ 19"
  shows "memtest s = Some s"
proof -
  have "pool_inv s" using assms by (simp add: pool_inv_def bitmap_inv_def)
  from pool.alloc_release_all[OF this, of "unat (bitmap_total_pages s)"] show ?thesis
    by (auto simp: memtest_def)
qed

text \<open>\<open>bitmap_allocated_pages\<close> counts the pages in use exactly, and gives the same number
  with the population-count instruction as with the bit loop.\<close>

theorem bitmap_allocated_pages_counts:
  assumes "bitmap_wf s"
  shows "unat (bitmap_allocated_pages popcnt s) = card (used_pages s)"
proof -
  have "card (used_pages s) \<le> managed s"
    using card_mono[of "{..<managed s}" "used_pages s"] by (auto simp: used_pages_def)
  then have "card (used_pages s) < 2 ^ 32" using managed_le[OF assms] by simp
  then show ?thesis by (simp add: allocated_pages_card unat_of_nat_small)
qed

section \<open>Concrete allocators\<close>

text \<open>
  64 pages at 2 MiB of which the first 32 are in use, and 2.1 GiB of memory at 1 MiB with
  every page in use.
\<close>

definition sample_bitmap :: bitmap_state where
  "sample_bitmap = \<lparr>kmem = fill (\<lambda>_. 0) 0x200000 0xFF 4, lock_index = 1, bitmap_lock = Some False,
     bitmap = 0x200000, frames = 64, start_addr = 0x200000\<rparr>"

definition big_bitmap :: bitmap_state where
  "big_bitmap = \<lparr>kmem = (\<lambda>_. 0xFF), lock_index = 1, bitmap_lock = Some False,
     bitmap = 0x100000, frames = 0x88000, start_addr = 0x100000\<rparr>"

lemma bit_all_ones: "k < 32 \<Longrightarrow> bit (0xFFFFFFFF :: u32) k"
proof -
  assume "k < 32"
  then have "bit (mask 32 :: u32) k" by (simp add: bit_mask_iff)
  then show ?thesis by (simp add: mask_eq_exp_minus_1)
qed

lemma sample_allocated: "k < 64 \<Longrightarrow> allocated sample_bitmap k \<longleftrightarrow> k < 32"
proof -
  assume "k < 64"
  have "bitmap_word sample_bitmap 0 = 0xFFFFFFFF" "bitmap_word sample_bitmap 1 = 0"
    by (simp_all add: bitmap_word_def sample_bitmap_def load32_def fill_def)
  moreover have "k div 32 = 0 \<or> k div 32 = 1" using \<open>k < 64\<close> by linarith
  ultimately show ?thesis using \<open>k < 64\<close> bit_all_ones[of k] by (auto simp: allocated_def div_eq_0_iff)
qed

lemma sample_managed [simp]: "managed sample_bitmap = 64"
  by (simp add: managed_def bitmap_len_def sample_bitmap_def)

lemma sample_wf: "bitmap_wf sample_bitmap" "unlocked sample_bitmap"
proof -
  have "\<forall>k < 32. k < managed sample_bitmap \<longrightarrow> allocated sample_bitmap k" by (simp add: sample_allocated)
  then show "bitmap_wf sample_bitmap" unfolding bitmap_wf_def by (simp add: sample_bitmap_def managed_def bitmap_len_def)
qed (simp add: unlocked_def sample_bitmap_def)

lemma big_managed: "managed big_bitmap = 0x88000"
  by (simp add: managed_def bitmap_len_def big_bitmap_def unat_div)

lemma big_wf: "bitmap_wf big_bitmap" "unlocked big_bitmap"
proof -
  have "bitmap_word big_bitmap i = 0xFFFFFFFF" for i
    by (simp add: bitmap_word_def big_bitmap_def load32_def)
  moreover have "bit (0xFFFFFFFF :: u32) (k mod 32)" for k by (rule bit_all_ones) simp
  ultimately have "allocated big_bitmap k" for k by (simp add: allocated_def)
  then show "bitmap_wf big_bitmap"
    unfolding bitmap_wf_def big_managed by (simp add: big_bitmap_def)
qed (simp add: unlocked_def big_bitmap_def)

lemma sample_run: "run_at sample_bitmap 32 4"
  by (auto simp: run_at_def sample_allocated)


theorem bitmap_alloc_page_correct_witness:
  "\<exists>k s'. bitmap_alloc_page sample_bitmap = Some (page_of sample_bitmap k, s') \<and> 32 \<le> k"
proof -
  have "\<not> (\<forall>k<managed sample_bitmap. allocated sample_bitmap k)"
    using sample_allocated[of 40] by (simp, intro exI[of _ 40]) simp
  then obtain k s' where "bitmap_alloc_page sample_bitmap = Some (page_of sample_bitmap k, s')"
    "k < 64" "\<not> allocated sample_bitmap k"
    using bitmap_alloc_page_correct[OF sample_wf] by auto
  then show ?thesis using sample_allocated[of k] by auto
qed

theorem bitmap_alloc_contiguous_correct_witness:
  "\<exists>p s'. bitmap_alloc_contiguous_pages 4 sample_bitmap = Some (page_of sample_bitmap p, s') \<and>
     run_at sample_bitmap p 4"
  using bitmap_alloc_contiguous_correct[OF sample_wf, of 4] sample_run by auto

theorem bitmap_free_undoes_alloc_witness:
  "\<exists>a s'. bitmap_alloc_contiguous_pages 4 sample_bitmap = Some (a, s') \<and>
     bitmap_free_pages a 4 s' = Some sample_bitmap"
proof (rule alloc_contiguous_cases[OF sample_wf(2), of 4])
  fix p assume p: "run_at sample_bitmap p (max 1 (unat (4 :: u32)))"
    and a: "bitmap_alloc_contiguous_pages 4 sample_bitmap =
      Some (page_of sample_bitmap p, fold mark_page [p..<p + unat (4 :: u32)] sample_bitmap)"
  then have "p < managed sample_bitmap" "\<not> allocated sample_bitmap p" by (auto simp: run_at_def)
  then show ?thesis
    using a bitmap_free_undoes_alloc[OF sample_wf _ a] page_of_not_null[OF sample_wf(1)] by simp
qed (use sample_run in auto)

theorem bitmap_free_beyond_2GiB_leaks_witness:
  "\<exists>s'. bitmap_free_pages (page_of big_bitmap 0x80001) 1 big_bitmap = Some s' \<and>
     used_pages s' = used_pages big_bitmap"
  using bitmap_free_beyond_2GiB_leaks[OF big_wf, of "0x80001"] big_managed by simp

theorem memtest_restores_witness: "memtest sample_bitmap = Some sample_bitmap"
  using memtest_restores[OF sample_wf] by simp

theorem bitmap_allocated_pages_counts_witness:
  "unat (bitmap_allocated_pages True sample_bitmap) = 32"
proof -
  have "used_pages sample_bitmap = {..<32}" using sample_allocated by (auto simp: used_pages_def)
  then show ?thesis using bitmap_allocated_pages_counts[OF sample_wf(1), of True] by simp
qed

end
