(* ===== verification/Mmu.thy ===== *)
theory Mmu
  imports Bitmap_Laws
begin

text \<open>
  \<^verbatim>\<open>kernel/cpu/mmu.c\<close>: two-level page tables. Page directories and page tables are pages of
  the allocator of \<^verbatim>\<open>bitmap.c\<close>, 1024 little-endian 32-bit entries each, in the same byte
  store; the code reaches them at their physical addresses, which the kernel maps to
  themselves. A bit-field access is a read or a read-modify-write of the entry's word. The
  translation caches of the processor are not part of the model, so \<open>mmu_flush_page\<close> has
  no effect. \<open>None\<close> means that the C function does not return.
\<close>

section \<open>Page directory and page table entries\<close>

definition entry_present :: "u32 \<Rightarrow> bool" where "entry_present e = bit e 0"
definition entry_rw :: "u32 \<Rightarrow> bool" where "entry_rw e = bit e 1"
definition entry_user :: "u32 \<Rightarrow> bool" where "entry_user e = bit e 2"

text \<open>\<open>e->address << 12\<close>, and the assignments to the bit-fields.\<close>

definition entry_base :: "u32 \<Rightarrow> ptr" where "entry_base e = push_bit 12 (drop_bit 12 e)"

definition put_flag :: "nat \<Rightarrow> bool \<Rightarrow> u32 \<Rightarrow> u32" where
  "put_flag n b e = (if b then e OR 2 ^ n else e AND NOT (2 ^ n))"

definition set_present :: "bool \<Rightarrow> u32 \<Rightarrow> u32" where "set_present = put_flag 0"
definition set_rw :: "bool \<Rightarrow> u32 \<Rightarrow> u32" where "set_rw = put_flag 1"
definition set_user :: "bool \<Rightarrow> u32 \<Rightarrow> u32" where "set_user = put_flag 2"

definition set_address :: "u32 \<Rightarrow> u32 \<Rightarrow> u32" where
  "set_address a e = (e AND 0xFFF) OR push_bit 12 a"

definition pd_index :: "ptr \<Rightarrow> nat" where "pd_index virt = unat (drop_bit 22 virt)"
definition pt_index :: "ptr \<Rightarrow> nat" where "pt_index virt = unat (drop_bit 12 virt AND 0x3FF)"

text \<open>\<open>&pdt->entries[i]\<close> and \<open>&pt->entries[i]\<close>.\<close>

definition entry_addr :: "ptr \<Rightarrow> nat \<Rightarrow> ptr" where "entry_addr t i = t + of_nat (4 * i)"

section \<open>State\<close>

record mmu_state = bitmap_state +
  kernel_end :: u32
  mmu_lock :: "spinlock option"
  kernel_pdt :: ptr
  current_pdt :: ptr
  old_pdt :: ptr
  cr3 :: ptr

definition get_entry :: "ptr \<Rightarrow> nat \<Rightarrow> 'a mmu_state_scheme \<Rightarrow> u32" where
  "get_entry t i s = load32 (kmem s) (entry_addr t i)"

definition upd_entry :: "ptr \<Rightarrow> nat \<Rightarrow> (u32 \<Rightarrow> u32) \<Rightarrow> 'a mmu_state_scheme \<Rightarrow> 'a mmu_state_scheme" where
  "upd_entry t i f s = s\<lparr>kmem := store32 (kmem s) (entry_addr t i) (f (get_entry t i s))\<rparr>"

definition mmu_acquire :: "'a mmu_state_scheme \<Rightarrow> 'a mmu_state_scheme option" where
  "mmu_acquire s = do {
     l \<leftarrow> mmu_lock s;
     l' \<leftarrow> spinlock_lock l;
     Some (s\<lparr>mmu_lock := Some l'\<rparr>) }"

definition mmu_release :: "'a mmu_state_scheme \<Rightarrow> 'a mmu_state_scheme" where
  "mmu_release s = s\<lparr>mmu_lock := map_option spinlock_unlock (mmu_lock s)\<rparr>"

section \<open>Translation\<close>

definition mmu_load_pdt :: "ptr \<Rightarrow> 'a mmu_state_scheme \<Rightarrow> 'a mmu_state_scheme" where
  "mmu_load_pdt pdt s =
     (let s1 = s\<lparr>current_pdt := cr3 s\<rparr>
      in if pdt = current_pdt s1 then s1 else s1\<lparr>cr3 := pdt\<rparr>)"

definition mmu_get_physical_address_pdt :: "ptr \<Rightarrow> ptr \<Rightarrow> 'a mmu_state_scheme \<Rightarrow> ptr" where
  "mmu_get_physical_address_pdt virtual_addr pdt s =
     (let pd = get_entry pdt (pd_index virtual_addr) s
      in if \<not> entry_present pd then 0
         else let p = get_entry (entry_base pd) (pt_index virtual_addr) s
              in if \<not> entry_present p then 0
                 else entry_base p + (virtual_addr AND 0xFFF))"

definition mmu_get_physical_address :: "ptr \<Rightarrow> 'a mmu_state_scheme \<Rightarrow> ptr" where
  "mmu_get_physical_address virtual_addr s = mmu_get_physical_address_pdt virtual_addr (current_pdt s) s"

definition mmu_is_mapped :: "ptr \<Rightarrow> ptr \<Rightarrow> 'a mmu_state_scheme \<Rightarrow> bool" where
  "mmu_is_mapped pdt virt_addr s =
     (let pd = get_entry pdt (pd_index virt_addr) s
      in if \<not> entry_present pd then False
         else let p = get_entry (entry_base pd) (pt_index virt_addr) s
              in if \<not> entry_present p then False else True)"

section \<open>Mapping\<close>

definition zero_page :: "ptr \<Rightarrow> 'a bitmap_state_scheme \<Rightarrow> 'a bitmap_state_scheme" where
  "zero_page p s = s\<lparr>kmem := snd (memset (kmem s) p 0 4096)\<rparr>"

definition mmu_new_page_directory :: "'a mmu_state_scheme \<Rightarrow> (ptr \<times> 'a mmu_state_scheme) option" where
  "mmu_new_page_directory s = do {
     (pdt, s1) \<leftarrow> bitmap_alloc_page s;
     Some (pdt, zero_page pdt s1) }"

text \<open>One round of the loop of \<open>mmu_map_pages\<close>: the page table of the directory entry, created
  when the entry is not present, then the two entries.\<close>

definition get_table :: "ptr \<Rightarrow> nat \<Rightarrow> 'a mmu_state_scheme \<Rightarrow> (ptr \<times> 'a mmu_state_scheme) option" where
  "get_table pdt i s =
     (let pd = get_entry pdt i s
      in if entry_present pd then Some (entry_base pd, s)
         else do {
           (pt, s1) \<leftarrow> bitmap_alloc_page s;
           Some (pt, upd_entry pdt i (set_present True) (zero_page pt s1)) })"

definition mmu_map_page ::
  "ptr \<Rightarrow> ptr \<Rightarrow> ptr \<Rightarrow> bool \<Rightarrow> bool \<Rightarrow> 'a mmu_state_scheme \<Rightarrow> 'a mmu_state_scheme option" where
  "mmu_map_page pdt real_addr virt_addr rw user s = do {
     (pt, s1) \<leftarrow> get_table pdt (pd_index virt_addr) s;
     let s2 = upd_entry pdt (pd_index virt_addr)
       (\<lambda>pd. set_address (drop_bit 12 pt) (set_user user (set_rw rw pd))) s1;
     Some (upd_entry pt (pt_index virt_addr)
       (\<lambda>p. set_address (drop_bit 12 real_addr) (set_user user (set_rw rw (set_present True p)))) s2) }"

fun map_loop ::
  "nat \<Rightarrow> ptr \<Rightarrow> ptr \<Rightarrow> ptr \<Rightarrow> bool \<Rightarrow> bool \<Rightarrow> 'a mmu_state_scheme \<Rightarrow> 'a mmu_state_scheme option" where
  "map_loop 0 pdt real_addr virt_addr rw user s = Some s"
| "map_loop (Suc k) pdt real_addr virt_addr rw user s = do {
     s1 \<leftarrow> mmu_map_page pdt real_addr virt_addr rw user s;
     map_loop k pdt (real_addr + BITMAP_PAGE_SIZE) (virt_addr + BITMAP_PAGE_SIZE) rw user s1 }"

text \<open>The parameter \<open>executable\<close> only appears in the debug output.\<close>

definition mmu_map_pages ::
  "ptr \<Rightarrow> ptr \<Rightarrow> ptr \<Rightarrow> u32 \<Rightarrow> bool \<Rightarrow> bool \<Rightarrow> bool \<Rightarrow> 'a mmu_state_scheme \<Rightarrow> 'a mmu_state_scheme option" where
  "mmu_map_pages pdt real_addr virt_addr len rw user executable s = do {
     s1 \<leftarrow> mmu_acquire s;
     s2 \<leftarrow> map_loop (unat len) pdt real_addr virt_addr rw user s1;
     Some (mmu_release s2) }"

definition mmu_unmap_page :: "ptr \<Rightarrow> ptr \<Rightarrow> 'a mmu_state_scheme \<Rightarrow> 'a mmu_state_scheme" where
  "mmu_unmap_page pdt virt_addr s =
     (let pd = get_entry pdt (pd_index virt_addr) s
      in if entry_present pd
         then upd_entry (entry_base pd) (pt_index virt_addr)
                (\<lambda>p. set_address 0 (set_user False (set_rw False (set_present False p)))) s
         else s)"

fun unmap_loop :: "nat \<Rightarrow> ptr \<Rightarrow> ptr \<Rightarrow> 'a mmu_state_scheme \<Rightarrow> 'a mmu_state_scheme" where
  "unmap_loop 0 pdt virt_addr s = s"
| "unmap_loop (Suc k) pdt virt_addr s =
     unmap_loop k pdt (virt_addr + BITMAP_PAGE_SIZE) (mmu_unmap_page pdt virt_addr s)"

definition mmu_unmap_pages :: "ptr \<Rightarrow> ptr \<Rightarrow> u32 \<Rightarrow> 'a mmu_state_scheme \<Rightarrow> 'a mmu_state_scheme option" where
  "mmu_unmap_pages pdt virt_addr len s = do {
     s1 \<leftarrow> mmu_acquire s;
     Some (mmu_release (unmap_loop (unat len) pdt virt_addr s1)) }"

text \<open>\<open>mmu_map_large_pages\<close> writes an ordinary page table entry (the page-size bit is commented
  out in the source) whose frame number is \<open>real_addr >> 22\<close>.\<close>

definition mmu_map_large_page ::
  "ptr \<Rightarrow> ptr \<Rightarrow> ptr \<Rightarrow> bool \<Rightarrow> bool \<Rightarrow> 'a mmu_state_scheme \<Rightarrow> 'a mmu_state_scheme option" where
  "mmu_map_large_page pdt real_addr virt_addr rw user s = do {
     (pt, s1) \<leftarrow> get_table pdt (pd_index virt_addr) s;
     let s2 = upd_entry pdt (pd_index virt_addr)
       (\<lambda>pd. set_address (drop_bit 12 pt) (set_user user (set_rw rw pd))) s1;
     Some (upd_entry pt (pt_index virt_addr)
       (\<lambda>p. set_address (drop_bit 22 real_addr) (set_user user (set_rw rw (set_present True p)))) s2) }"

fun map_large_loop ::
  "nat \<Rightarrow> ptr \<Rightarrow> ptr \<Rightarrow> ptr \<Rightarrow> bool \<Rightarrow> bool \<Rightarrow> 'a mmu_state_scheme \<Rightarrow> (ptr \<times> 'a mmu_state_scheme) option" where
  "map_large_loop 0 pdt real_addr virt_addr rw user s = Some (virt_addr, s)"
| "map_large_loop (Suc k) pdt real_addr virt_addr rw user s = do {
     s1 \<leftarrow> mmu_map_large_page pdt real_addr virt_addr rw user s;
     map_large_loop k pdt (real_addr + BITMAP_PAGE_SIZE * 1024) (virt_addr + BITMAP_PAGE_SIZE * 1024) rw user s1 }"

definition mmu_map_large_pages ::
  "ptr \<Rightarrow> ptr \<Rightarrow> ptr \<Rightarrow> u32 \<Rightarrow> bool \<Rightarrow> bool \<Rightarrow> bool \<Rightarrow> 'a mmu_state_scheme \<Rightarrow> (ptr \<times> 'a mmu_state_scheme) option" where
  "mmu_map_large_pages pdt real_addr virt_addr len rw user executable s = do {
     s1 \<leftarrow> mmu_acquire s;
     (v, s2) \<leftarrow> map_large_loop (unat len) pdt real_addr virt_addr rw user s1;
     Some (v, mmu_release s2) }"

section \<open>Kernel memory\<close>

definition bitmap_id_map :: "ptr \<Rightarrow> 'a mmu_state_scheme \<Rightarrow> 'a mmu_state_scheme option" where
  "bitmap_id_map pdt s = mmu_map_pages pdt (bitmap s) (bitmap s) (frames s) True False True s"

text \<open>The search loop of \<open>mmu_alloc_pages\<close>. The address is page aligned, so the guard
  \<open>addr < 0xFFFFFFFF\<close> always holds and the search wraps around to address 0; it does not end
  when no run of \<open>pages\<close> unmapped pages exists.\<close>

definition unmapped_run :: "ptr \<Rightarrow> ptr \<Rightarrow> nat \<Rightarrow> 'a mmu_state_scheme \<Rightarrow> bool" where
  "unmapped_run pdt addr n s = (\<forall>i \<in> set [0..<n]. \<not> mmu_is_mapped pdt (addr + of_nat i * BITMAP_PAGE_SIZE) s)"

partial_function (option) search_run :: "nat \<Rightarrow> ptr \<Rightarrow> 'a mmu_state_scheme \<Rightarrow> ptr option" where
  "search_run n addr s =
     (if addr < 0xFFFFFFFF
      then if unmapped_run (current_pdt s) addr n s then Some addr
           else search_run n (addr + BITMAP_PAGE_SIZE) s
      else Some NULL)"

definition mmu_alloc_pages :: "u32 \<Rightarrow> 'a mmu_state_scheme \<Rightarrow> (ptr \<times> 'a mmu_state_scheme) option" where
  "mmu_alloc_pages pages s = do {
     s1 \<leftarrow> mmu_acquire s;
     start_addr \<leftarrow> search_run (unat pages) (kernel_end s1) s1;
     let s2 = mmu_release s1;
     if start_addr = NULL then Some (NULL, s2)
     else do {
       (real_addr, s3) \<leftarrow> bitmap_alloc_contiguous_pages pages s2;
       if real_addr = NULL then Some (NULL, s3)
       else do {
         s4 \<leftarrow> mmu_map_pages (current_pdt s3) real_addr start_addr pages True False False s3;
         Some (start_addr, s4) } } }"

fun free_pages_loop :: "nat \<Rightarrow> ptr \<Rightarrow> ptr \<Rightarrow> 'a mmu_state_scheme \<Rightarrow> 'a mmu_state_scheme option" where
  "free_pages_loop 0 pdt virt_addr s = Some s"
| "free_pages_loop (Suc k) pdt virt_addr s =
     (let real_addr = mmu_get_physical_address_pdt virt_addr pdt s
      in if \<not> mmu_is_mapped pdt virt_addr s then free_pages_loop k pdt (virt_addr + BITMAP_PAGE_SIZE) s
         else do {
           s1 \<leftarrow> bitmap_free_pages real_addr 1 s;
           s2 \<leftarrow> mmu_unmap_pages pdt virt_addr 1 s1;
           free_pages_loop k pdt (virt_addr + BITMAP_PAGE_SIZE) s2 })"

definition mmu_free_pages :: "ptr \<Rightarrow> ptr \<Rightarrow> u32 \<Rightarrow> 'a mmu_state_scheme \<Rightarrow> 'a mmu_state_scheme option" where
  "mmu_free_pages pdt addr pages s = free_pages_loop (unat pages) pdt addr s"

definition copy_block :: "cpu_features \<Rightarrow> ptr \<Rightarrow> ptr \<Rightarrow> u32 \<Rightarrow> 'a bitmap_state_scheme \<Rightarrow> 'a bitmap_state_scheme" where
  "copy_block cpu d src n s = s\<lparr>kmem := snd (memcpy cpu (kmem s) d src n)\<rparr>"

definition mmu_copy_kernel_pages :: "cpu_features \<Rightarrow> ptr \<Rightarrow> 'a mmu_state_scheme \<Rightarrow> 'a mmu_state_scheme" where
  "mmu_copy_kernel_pages cpu pdt s =
     foldl (\<lambda>s i. copy_block cpu (entry_addr pdt i) (entry_addr (kernel_pdt s) i) 4 s) s [768..<1024]"

text \<open>The two loops of \<open>mmu_clone_pdt\<close>; \<open>False\<close> is the early return of \<open>NULL\<close>.\<close>

fun clone_table ::
  "cpu_features \<Rightarrow> ptr \<Rightarrow> ptr \<Rightarrow> nat list \<Rightarrow> 'a mmu_state_scheme \<Rightarrow> (bool \<times> 'a mmu_state_scheme) option" where
  "clone_table cpu pt new_pt [] s = Some (True, s)"
| "clone_table cpu pt new_pt (j # js) s =
     (if entry_present (get_entry pt j s) then do {
        (new_page, s1) \<leftarrow> bitmap_alloc_page s;
        if new_page = NULL then Some (False, s1)
        else
          let s2 = copy_block cpu (entry_addr new_pt j) (entry_addr pt j) 4 s1;
              s3 = upd_entry new_pt j (set_address (drop_bit 12 new_page)) s2;
              s4 = copy_block cpu (entry_base (get_entry new_pt j s3)) (entry_base (get_entry pt j s3)) 4096 s3
          in clone_table cpu pt new_pt js s4 }
      else clone_table cpu pt new_pt js s)"

fun clone_directory ::
  "cpu_features \<Rightarrow> ptr \<Rightarrow> ptr \<Rightarrow> nat list \<Rightarrow> 'a mmu_state_scheme \<Rightarrow> (bool \<times> 'a mmu_state_scheme) option" where
  "clone_directory cpu pdt new_pdt [] s = Some (True, s)"
| "clone_directory cpu pdt new_pdt (i # is) s =
     (if entry_present (get_entry pdt i s) then do {
        let pt = entry_base (get_entry pdt i s);
        (new_pt, s1) \<leftarrow> bitmap_alloc_page s;
        if new_pt = NULL then Some (False, s1)
        else do {
          let s2 = zero_page new_pt s1;
          let s3 = copy_block cpu (entry_addr new_pdt i) (entry_addr pdt i) 4 s2;
          let s4 = upd_entry new_pdt i (set_address (drop_bit 12 new_pt)) s3;
          (ok, s5) \<leftarrow> clone_table cpu pt new_pt [0..<1024] s4;
          if \<not> ok then Some (False, s5) else clone_directory cpu pdt new_pdt is s5 } }
      else clone_directory cpu pdt new_pdt is s)"

definition mmu_clone_pdt :: "cpu_features \<Rightarrow> ptr \<Rightarrow> 'a mmu_state_scheme \<Rightarrow> (ptr \<times> 'a mmu_state_scheme) option" where
  "mmu_clone_pdt cpu pdt s = do {
     (new_pdt, s1) \<leftarrow> mmu_new_page_directory s;
     if new_pdt = NULL then Some (NULL, s1)
     else do {
       (ok, s2) \<leftarrow> clone_directory cpu pdt new_pdt [0..<768] s1;
       if \<not> ok then Some (NULL, s2)
       else Some (new_pdt, mmu_copy_kernel_pages cpu new_pdt s2) } }"

definition mmu_load_kernel_pdt :: "'a mmu_state_scheme \<Rightarrow> 'a mmu_state_scheme" where
  "mmu_load_kernel_pdt s =
     (if kernel_pdt s \<noteq> NULL
      then let s1 = mmu_load_pdt (kernel_pdt s) s
           in s1\<lparr>old_pdt := current_pdt s1, current_pdt := kernel_pdt s1\<rparr>
      else s)"

definition mmu_restore_pdt :: "'a mmu_state_scheme \<Rightarrow> 'a mmu_state_scheme" where
  "mmu_restore_pdt s =
     (if old_pdt s \<noteq> NULL
      then let s1 = mmu_load_pdt (old_pdt s) s
           in s1\<lparr>current_pdt := old_pdt s1, old_pdt := NULL\<rparr>
      else s)"

text \<open>\<open>mmu_enable_paging\<close> loads \<open>cr3\<close>; the installation of the page fault handler and the paging
  bit of \<open>cr0\<close> are not part of the state.\<close>

definition mmu_init :: "ptr \<Rightarrow> ptr \<Rightarrow> ptr \<Rightarrow> ptr \<Rightarrow> 'a mmu_state_scheme \<Rightarrow> 'a mmu_state_scheme option" where
  "mmu_init kernel_start_real_addr kernel_end_real_addr kernel_start_addr kernel_end_addr s = do {
     s1 \<leftarrow> (if mmu_lock s = None
            then do { (l, ix) \<leftarrow> spinlock_init (lock_index s);
                      Some (s\<lparr>mmu_lock := Some l, lock_index := ix\<rparr>) }
            else Some s);
     (pdt, s2) \<leftarrow> mmu_new_page_directory s1;
     let s3 = s2\<lparr>kernel_pdt := pdt, current_pdt := pdt\<rparr>;
     s4 \<leftarrow> mmu_map_pages pdt 0 0 1024 True False True s3;
     s5 \<leftarrow> mmu_map_pages pdt kernel_start_real_addr 0xC0100000
            ((kernel_end_real_addr - kernel_start_real_addr) div BITMAP_PAGE_SIZE + 1) True False True s4;
     s6 \<leftarrow> bitmap_id_map pdt s5;
     let s7 = s6\<lparr>kernel_end := round_up_page (kernel_end_addr + 0x1000)\<rparr>;
     Some (s7\<lparr>cr3 := current_pdt s7\<rparr>) }"

section \<open>Access through a page directory\<close>

text \<open>The common head of the access functions: the physical address of \<open>virt_addr\<close>, if mapped.\<close>

definition mmu_walk :: "ptr \<Rightarrow> ptr \<Rightarrow> 'a mmu_state_scheme \<Rightarrow> ptr option" where
  "mmu_walk pdt virt_addr s =
     (let pd = get_entry pdt (pd_index virt_addr) s
      in if \<not> entry_present pd then None
         else let p = get_entry (entry_base pd) (pt_index virt_addr) s
              in if \<not> entry_present p then None
                 else Some (entry_base p + (virt_addr AND 0xFFF)))"

definition mmu_writeb :: "ptr \<Rightarrow> ptr \<Rightarrow> u8 \<Rightarrow> 'a mmu_state_scheme \<Rightarrow> 'a mmu_state_scheme" where
  "mmu_writeb pdt virt_addr data s =
     (case mmu_walk pdt virt_addr s of None \<Rightarrow> s
      | Some real_addr \<Rightarrow> s\<lparr>kmem := store8 (kmem s) real_addr data\<rparr>)"

definition mmu_writew :: "ptr \<Rightarrow> ptr \<Rightarrow> u16 \<Rightarrow> 'a mmu_state_scheme \<Rightarrow> 'a mmu_state_scheme" where
  "mmu_writew pdt virt_addr data s =
     (case mmu_walk pdt virt_addr s of None \<Rightarrow> s
      | Some real_addr \<Rightarrow> s\<lparr>kmem := store16 (kmem s) real_addr data\<rparr>)"

definition mmu_writel :: "ptr \<Rightarrow> ptr \<Rightarrow> u32 \<Rightarrow> 'a mmu_state_scheme \<Rightarrow> 'a mmu_state_scheme" where
  "mmu_writel pdt virt_addr data s =
     (case mmu_walk pdt virt_addr s of None \<Rightarrow> s
      | Some real_addr \<Rightarrow> s\<lparr>kmem := store32 (kmem s) real_addr data\<rparr>)"

definition mmu_readb :: "ptr \<Rightarrow> ptr \<Rightarrow> 'a mmu_state_scheme \<Rightarrow> u8" where
  "mmu_readb pdt virt_addr s =
     (case mmu_walk pdt virt_addr s of None \<Rightarrow> 0 | Some real_addr \<Rightarrow> kmem s real_addr)"

definition mmu_readw :: "ptr \<Rightarrow> ptr \<Rightarrow> 'a mmu_state_scheme \<Rightarrow> u16" where
  "mmu_readw pdt virt_addr s =
     (case mmu_walk pdt virt_addr s of None \<Rightarrow> 0 | Some real_addr \<Rightarrow> load16 (kmem s) real_addr)"

definition mmu_readl :: "ptr \<Rightarrow> ptr \<Rightarrow> 'a mmu_state_scheme \<Rightarrow> u32" where
  "mmu_readl pdt virt_addr s =
     (case mmu_walk pdt virt_addr s of None \<Rightarrow> 0 | Some real_addr \<Rightarrow> load32 (kmem s) real_addr)"

partial_function (option) mmu_strlen_loop :: "ptr \<Rightarrow> ptr \<Rightarrow> u32 \<Rightarrow> 'a mmu_state_scheme \<Rightarrow> u32 option" where
  "mmu_strlen_loop pdt virt_addr len s =
     (if mmu_readb pdt (virt_addr + len) s \<noteq> 0 then mmu_strlen_loop pdt virt_addr (len + 1) s else Some len)"

definition mmu_strlen :: "ptr \<Rightarrow> ptr \<Rightarrow> 'a mmu_state_scheme \<Rightarrow> u32 option" where
  "mmu_strlen pdt virt_addr s = mmu_strlen_loop pdt virt_addr 0 s"

fun mmu_copy_loop ::
  "(ptr \<Rightarrow> ptr \<Rightarrow> 'a mmu_state_scheme \<Rightarrow> 'a mmu_state_scheme) \<Rightarrow> nat \<Rightarrow> nat \<Rightarrow> ptr \<Rightarrow> ptr \<Rightarrow>
   'a mmu_state_scheme \<Rightarrow> ptr \<times> ptr \<times> 'a mmu_state_scheme" where
  "mmu_copy_loop mov w 0 virt_addr destination s = (virt_addr, destination, s)"
| "mmu_copy_loop mov w (Suc k) virt_addr destination s =
     mmu_copy_loop mov w k (virt_addr + of_nat w) (destination + of_nat w) (mov virt_addr destination s)"

definition mmu_memcpy :: "ptr \<Rightarrow> ptr \<Rightarrow> ptr \<Rightarrow> u32 \<Rightarrow> 'a mmu_state_scheme \<Rightarrow> 'a mmu_state_scheme" where
  "mmu_memcpy pdt virt_addr destination n s =
     (let (v1, d1, s1) = mmu_copy_loop (\<lambda>v d s. s\<lparr>kmem := store32 (kmem s) d (mmu_readl pdt v s)\<rparr>) 4
            (unat (n div 4)) virt_addr destination s;
          n1 = n - n div 4 * 4;
          (v2, d2, s2) = mmu_copy_loop (\<lambda>v d s. s\<lparr>kmem := store16 (kmem s) d (mmu_readw pdt v s)\<rparr>) 2
            (unat (n1 div 2)) v1 d1 s1;
          n2 = n1 - n1 div 2 * 2;
          (v3, d3, s3) = mmu_copy_loop (\<lambda>v d s. s\<lparr>kmem := store8 (kmem s) d (mmu_readb pdt v s)\<rparr>) 1
            (unat n2) v2 d2 s2
      in s3)"

definition mmu_strcpy :: "ptr \<Rightarrow> ptr \<Rightarrow> ptr \<Rightarrow> 'a mmu_state_scheme \<Rightarrow> (ptr \<times> 'a mmu_state_scheme) option" where
  "mmu_strcpy pdt virt_addr destination s = do {
     len \<leftarrow> mmu_strlen pdt virt_addr s;
     let s1 = mmu_memcpy pdt virt_addr destination len s;
     Some (destination, s1\<lparr>kmem := store8 (kmem s1) (destination + len) 0\<rparr>) }"

definition mmu_strncpy ::
  "ptr \<Rightarrow> ptr \<Rightarrow> ptr \<Rightarrow> u32 \<Rightarrow> 'a mmu_state_scheme \<Rightarrow> (ptr \<times> 'a mmu_state_scheme) option" where
  "mmu_strncpy pdt virt_addr destination n s = do {
     len \<leftarrow> mmu_strlen pdt virt_addr s;
     let s1 = mmu_memcpy pdt virt_addr destination (if len < n then len else n) s;
     let m2 = zero_pad (kmem s1) (destination + len) (unat n - unat len);
     Some (destination, s1\<lparr>kmem := store8 m2 (destination + n) 0\<rparr>) }"

end
