(* ===== verification/Mmu_Laws.thy ===== *)
theory Mmu_Laws
  imports Mmu
begin

text \<open>
  Correctness of the paging code. Under the invariant \<open>tables_wf\<close> (a page directory and its
  page tables are distinct pages of the allocator), \<open>mmu_map_pages\<close> and \<open>mmu_unmap_pages\<close>
  act on the address translation \<open>mmu_walk\<close> exactly as updates of a finite map do.
\<close>

section \<open>Entries\<close>

lemma bit_put_flag: "n < 32 \<Longrightarrow> bit (put_flag n b e) k \<longleftrightarrow> (if k = n then b else bit e k)"
  by (auto simp: put_flag_def bit_set_single bit_clear_single)

lemma bit_set_address: "bit (set_address a e) k \<longleftrightarrow> (if k < 12 then bit e k else k < 32 \<and> bit a (k - 12))"
proof -
  have "bit (mask 12 :: u32) k \<longleftrightarrow> k < 12" by (auto simp: bit_mask_iff)
  then have "bit (0xFFF :: u32) k \<longleftrightarrow> k < 12" by (simp add: mask_eq_exp_minus_1)
  then show ?thesis
    by (auto simp: set_address_def bit_or_iff bit_and_iff bit_push_bit_iff dest: bit_imp_le_length)
qed

lemma bit_entry_base: "bit (entry_base e) k \<longleftrightarrow> 12 \<le> k \<and> bit e k"
  by (auto simp: entry_base_def bit_push_bit_iff bit_drop_bit_eq dest: bit_imp_le_length)

lemmas entry_flag_defs = entry_present_def entry_rw_def entry_user_def set_present_def set_rw_def set_user_def

lemma entry_flags [simp]:
  "entry_present (set_address a e) = entry_present e" "entry_rw (set_address a e) = entry_rw e"
  "entry_user (set_address a e) = entry_user e"
  "entry_present (set_present b e) = b" "entry_present (set_rw b e) = entry_present e"
  "entry_present (set_user b e) = entry_present e"
  "entry_rw (set_rw b e) = b" "entry_rw (set_user b e) = entry_rw e" "entry_rw (set_present b e) = entry_rw e"
  "entry_user (set_user b e) = b" "entry_user (set_rw b e) = entry_user e"
  "entry_user (set_present b e) = entry_user e" "\<not> entry_present 0"
  by (simp_all add: entry_flag_defs bit_set_address bit_put_flag)

lemma entry_base_set [simp]:
  "entry_base (set_address (drop_bit 12 x) e) = entry_base x"
  "entry_base (set_rw b e) = entry_base e" "entry_base (set_user b e) = entry_base e"
  "entry_base (set_present b e) = entry_base e"
  by (rule bit_word_eqI; auto simp: bit_entry_base bit_set_address bit_drop_bit_eq entry_flag_defs bit_put_flag)+

section \<open>Pages\<close>

definition page_aligned :: "ptr \<Rightarrow> bool" where
  "page_aligned p \<longleftrightarrow> unat p mod 4096 = 0"

lemma take_bit_12: "take_bit 12 (v :: ptr) = v AND 0xFFF"
  by (simp add: take_bit_eq_mask mask_eq_exp_minus_1)

lemma unat_offset: "unat (v AND 0xFFF :: ptr) = unat v mod 4096"
  by (simp add: take_bit_12[symmetric] unsigned_take_bit_eq take_bit_nat_def)

lemma entry_base_offset: "entry_base v + (v AND 0xFFF) = v"
  using bits_ident[of 12 v] by (simp add: entry_base_def take_bit_12)

lemma unat_entry_base: "unat (entry_base v) = unat v - unat v mod 4096"
proof -
  have "unat (entry_base v) = unat v div 4096 * 4096 mod 2 ^ 32"
    by (simp add: entry_base_def push_bit_eq_mult drop_bit_eq_div unat_word_ariths unat_div mod_mult_left_eq)
  moreover have "unat v div 4096 * 4096 < 2 ^ 32"
    using unsigned_less[of v, where 'a = nat] by (simp add: le_less_trans[OF div_times_less_eq_dividend])
  ultimately show ?thesis by (simp add: minus_mod_eq_div_mult)
qed

lemma page_aligned_entry_base [simp]: "page_aligned (entry_base v)"
  by (simp add: page_aligned_def unat_entry_base minus_mod_eq_mult_div)

lemma entry_base_id: "page_aligned p \<Longrightarrow> entry_base p = p"
  by (simp add: page_aligned_def word_unat_eq_iff unat_entry_base)

lemma page_aligned_room: "page_aligned p \<Longrightarrow> unat p + 4096 \<le> 2 ^ 32"
proof -
  assume "page_aligned p"
  then obtain q where q: "unat p = 4096 * q" by (auto simp: page_aligned_def mod_eq_0_iff_dvd elim: dvdE)
  have "4096 * q < 2 ^ 32" using unsigned_less[of p, where 'a = nat] q by simp
  with q show ?thesis by simp
qed

lemma unat_in_page: "page_aligned p \<Longrightarrow> i < 4096 \<Longrightarrow> unat (p + of_nat i) = unat p + i"
  using page_aligned_room[of p] by (intro unat_add_of_nat) simp

lemma entry_addr_props:
  assumes "page_aligned t" "i < 1024"
  shows "unat (entry_addr t i) = unat t + 4 * i" "aligned4 (entry_addr t i)"
proof -
  show u: "unat (entry_addr t i) = unat t + 4 * i"
    unfolding entry_addr_def using assms by (intro unat_in_page) simp_all
  have "unat t mod 4096 mod 4 = unat t mod 4" by (rule mod_mod_cancel) simp
  then show "aligned4 (entry_addr t i)" using assms(1) by (simp add: aligned4_def u page_aligned_def)
qed

lemma page_split:
  assumes "page_aligned t" "page_aligned u" "unat t + i = unat u + j" "i < 4096" "j < 4096"
  shows "t = u \<and> i = j"
proof -
  have "(unat t + i) div 4096 = unat t div 4096" "(unat u + j) div 4096 = unat u div 4096"
    using assms by (auto simp: page_aligned_def mod_eq_0_iff_dvd elim!: dvdE)
  then have "unat t div 4096 = unat u div 4096" using assms(3) by simp
  then have "unat t = unat u" using assms(1,2) by (simp add: page_aligned_def) (metis div_mult_mod_eq)
  with assms(3) show ?thesis by (simp add: word_unat_eq_iff)
qed

lemma entry_addr_inj:
  assumes "page_aligned t" "page_aligned u" "i < 1024" "j < 1024"
  shows "entry_addr t i = entry_addr u j \<longleftrightarrow> t = u \<and> i = j"
proof
  assume "entry_addr t i = entry_addr u j"
  then have "unat t + 4 * i = unat u + 4 * j"
    using entry_addr_props(1)[OF assms(1,3)] entry_addr_props(1)[OF assms(2,4)] by simp
  then show "t = u \<and> i = j" using page_split[OF assms(1,2)] assms(3,4) by fastforce
qed simp

lemma get_upd_entry:
  assumes "page_aligned t" "page_aligned u" "i < 1024" "j < 1024"
  shows "get_entry u j (upd_entry t i f s) = (if t = u \<and> i = j then f (get_entry t i s) else get_entry u j s)"
  using entry_addr_inj[OF assms] entry_addr_props(2)[OF assms(1,3)] entry_addr_props(2)[OF assms(2,4)]
  by (auto simp: get_entry_def upd_entry_def load32_store32_same load32_store32_other)

text \<open>A byte of page \<open>p\<close> is not a byte of an entry of another page.\<close>

lemma in_page_iff:
  assumes "page_aligned p"
  shows "unat (a - p) < 4096 \<longleftrightarrow> entry_base a = p"
proof
  assume "unat (a - p) < 4096"
  then obtain i where i: "i < 4096" "a = p + of_nat i" by (auto simp: unat_diff_less_iff)
  then have "unat a = unat p + i" using unat_in_page[OF assms] by simp
  then have "unat (entry_base a) = unat p"
    using assms i(1) by (auto simp: unat_entry_base page_aligned_def mod_eq_0_iff_dvd elim!: dvdE)
  then show "entry_base a = p" by (simp add: word_unat_eq_iff)
next
  assume "entry_base a = p"
  then have "a - p = a AND 0xFFF" using entry_base_offset[of a] by (metis add_diff_cancel_left')
  then show "unat (a - p) < 4096" by (simp add: unat_offset)
qed

lemma entry_byte_page:
  assumes "page_aligned t" "i < 1024" "j < 4"
  shows "entry_base (entry_addr t i + of_nat j) = t"
proof -
  have "entry_addr t i + of_nat j = t + of_nat (4 * i + j)" by (simp add: entry_addr_def add.assoc)
  moreover have "unat (t + of_nat (4 * i + j) - t) < 4096"
    using assms by (simp add: unat_of_nat_small del: of_nat_add)
  ultimately show ?thesis using in_page_iff[OF assms(1)] by metis
qed

lemma get_entry_cong:
  assumes "page_aligned t" "i < 1024" "\<And>a. entry_base a = t \<Longrightarrow> kmem s' a = kmem s a"
  shows "get_entry t i s' = get_entry t i s"
  unfolding get_entry_def using assms entry_byte_page by (intro load32_cong) blast

lemma get_entry_zero_page:
  fixes s :: "'a mmu_state_scheme"
  assumes "page_aligned t" "page_aligned p" "i < 1024"
  shows "get_entry t i (zero_page p s) = (if t = p then 0 else get_entry t i s)"
proof (cases "t = p")
  case True
  have "get_entry p i (zero_page p s) = load32 (fill (kmem s) p 0 4096) (p + of_nat (4 * i))"
    by (simp add: get_entry_def zero_page_def memset_def entry_addr_def)
  also have "\<dots> = 0" using assms(3) by (intro load32_zeroed) simp_all
  finally show ?thesis using True by simp
next
  case False
  have "kmem (zero_page p s) a = kmem s a" if "entry_base a = t" for a
    using that False in_page_iff[OF assms(2), of a] by (simp add: zero_page_def memset_def fill_def)
  with False show ?thesis using get_entry_cong[OF assms(1,3)] by auto
qed

section \<open>Frames of the allocator\<close>

text \<open>A page in use that is not one of the pages reserved for the bitmap.\<close>

definition used_frame :: "'a bitmap_state_scheme \<Rightarrow> ptr \<Rightarrow> bool" where
  "used_frame s p \<longleftrightarrow> (\<exists>k. 32 \<le> k \<and> k < managed s \<and> allocated s k \<and> p = page_of s k)"

lemma used_frame_aligned:
  assumes "bitmap_wf s" "used_frame s p"
  shows "page_aligned p"
proof -
  obtain k where "k < managed s" "p = page_of s k" using assms(2) by (auto simp: used_frame_def)
  then have "unat p = unat (start_addr s) + 4096 * k" using unat_page_of[OF assms(1)] by simp
  moreover have "(unat (start_addr s) + 4096 * k) mod 4096 = unat (start_addr s) mod 4096" by simp
  ultimately show ?thesis using bitmap_wfD(2)[OF assms(1)] by (simp add: page_aligned_def)
qed

lemma page_of_not_in_bitmap:
  assumes "bitmap_wf s" "32 \<le> k" "k < managed s" "entry_base a = page_of s k"
  shows "\<not> in_bitmap s a"
proof -
  have "unat (page_of s k) \<le> unat a" using assms(4) unat_entry_base[of a] by simp
  then have "unat (start_addr s) + 4096 * 32 \<le> unat a"
    using unat_page_of[OF assms(1,3)] assms(2) by linarith
  moreover have "4 * bitmap_len s \<le> 4096 * 32"
    using managed_le[OF assms(1)] by (simp add: managed_def)
  ultimately show ?thesis using bitmap_wfD(1)[OF assms(1)] by (simp add: in_bitmap_def)
qed

lemma used_frame_not_null: "bitmap_wf s \<Longrightarrow> used_frame s p \<Longrightarrow> p \<noteq> NULL"
proof -
  assume wf: "bitmap_wf s" and "used_frame s p"
  then obtain k where k: "32 \<le> k" "k < managed s" "p = page_of s k" by (auto simp: used_frame_def)
  then have "0 < unat p" using unat_page_of[OF wf k(2)] by simp
  then show ?thesis by (metis unat_0 less_irrefl)
qed

text \<open>States that agree outside the bitmap and have the same allocator fields.\<close>

lemma mmu_more_fields:
  assumes "bitmap_state.more s' = bitmap_state.more (s :: 'a mmu_state_scheme)"
  shows "mmu_lock s' = mmu_lock s" "kernel_pdt s' = kernel_pdt s" "current_pdt s' = current_pdt s"
    "old_pdt s' = old_pdt s" "cr3 s' = cr3 s" "kernel_end s' = kernel_end s"
  using assms by (cases s; cases s'; simp)+

lemma get_entry_mark:
  assumes "bitmap_wf s" "used_frame s t" "i < 1024" "k < managed s"
  shows "get_entry t i (mark_page k s) = get_entry t i s"
proof (rule get_entry_cong)
  show "page_aligned t" using used_frame_aligned assms(1,2) by blast
  fix a assume "entry_base a = t"
  then have "\<not> in_bitmap s a" using assms(1,2) page_of_not_in_bitmap by (auto simp: used_frame_def)
  then show "kmem (mark_page k s) a = kmem s a"
    using same_but_bits_mark[OF bitmap_wf_words_ok[OF assms(1)] assms(4)] by (simp add: same_but_bits_def)
qed (rule assms)

text \<open>Writing to a frame leaves the allocator alone.\<close>

lemma bitmap_word_frame_write:
  assumes wf: "bitmap_wf s" and p: "32 \<le> k" "k < managed s"
    and same: "\<And>a. entry_base a \<noteq> page_of s k \<Longrightarrow> m a = kmem s a" and i: "i < bitmap_len s"
  shows "bitmap_word (s\<lparr>kmem := m\<rparr>) i = bitmap_word s i"
  unfolding bitmap_word_def
proof (simp del: of_nat_mult, rule load32_cong)
  note ok = bitmap_wf_words_ok[OF wf]
  fix j :: nat assume j: "j < 4"
  let ?a = "bitmap s + of_nat (4 * i) + of_nat j"
  have "unat ?a = unat (bitmap s) + 4 * i + j"
    using word_addr[OF ok i] aligned4_no_wrap[OF _ j] by simp
  then have "in_bitmap s ?a" using i j by (simp add: in_bitmap_def)
  then have "entry_base ?a \<noteq> page_of s k" using page_of_not_in_bitmap[OF wf p] by blast
  then show "m ?a = kmem s ?a" by (rule same)
qed

lemma frame_write_keeps:
  assumes wf: "bitmap_wf s" and p: "used_frame s p"
    and same: "\<And>a. entry_base a \<noteq> p \<Longrightarrow> m a = kmem s a"
  shows "bitmap_wf (s\<lparr>kmem := m\<rparr>)" "used_frame (s\<lparr>kmem := m\<rparr>) q = used_frame s q"
    "used_pages (s\<lparr>kmem := m\<rparr>) = used_pages s"
proof -
  obtain k where k: "32 \<le> k" "k < managed s" "p = page_of s k" using p by (auto simp: used_frame_def)
  have len: "bitmap_len (s\<lparr>kmem := m\<rparr>) = bitmap_len s" by (simp add: bitmap_len_def)
  then have man: "managed (s\<lparr>kmem := m\<rparr>) = managed s" by (simp add: managed_def)
  have alloc: "allocated (s\<lparr>kmem := m\<rparr>) l = allocated s l" if "l < managed s" for l
    using that bitmap_word_frame_write[OF wf k(1,2)] same k(3) index_split(1)[of l "bitmap_len s"]
    by (simp add: allocated_def managed_def)
  show "bitmap_wf (s\<lparr>kmem := m\<rparr>)"
    unfolding bitmap_wf_def man using bitmap_wfD[OF wf] alloc by simp
  show "used_frame (s\<lparr>kmem := m\<rparr>) q = used_frame s q" "used_pages (s\<lparr>kmem := m\<rparr>) = used_pages s"
    using alloc by (auto simp: used_frame_def used_pages_def man page_of_def)
qed

section \<open>Page directories and their tables\<close>

text \<open>The frame a directory maps its page \<open>(d, t)\<close> to.\<close>

definition pte :: "ptr \<Rightarrow> 'a mmu_state_scheme \<Rightarrow> nat \<Rightarrow> nat \<Rightarrow> ptr option" where
  "pte pdt s d t =
     (if entry_present (get_entry pdt d s)
      then let p = get_entry (entry_base (get_entry pdt d s)) t s
           in if entry_present p then Some (entry_base p) else None
      else None)"

lemma mmu_walk_pte: "mmu_walk pdt v s = map_option (\<lambda>b. b + (v AND 0xFFF)) (pte pdt s (pd_index v) (pt_index v))"
  by (simp add: mmu_walk_def pte_def Let_def)

lemma mmu_is_mapped_walk: "mmu_is_mapped pdt v s \<longleftrightarrow> mmu_walk pdt v s \<noteq> None"
  by (simp add: mmu_is_mapped_def mmu_walk_def Let_def)

lemma mmu_get_physical_walk:
  "mmu_get_physical_address_pdt v pdt s = (case mmu_walk pdt v s of None \<Rightarrow> 0 | Some r \<Rightarrow> r)"
  by (simp add: mmu_get_physical_address_pdt_def mmu_walk_def Let_def)

definition table_entry :: "ptr \<Rightarrow> nat \<Rightarrow> 'a mmu_state_scheme \<Rightarrow> ptr option" where
  "table_entry pdt i s =
     (if entry_present (get_entry pdt i s) then Some (entry_base (get_entry pdt i s)) else None)"

definition tables_wf :: "ptr \<Rightarrow> 'a mmu_state_scheme \<Rightarrow> bool" where
  "tables_wf pdt s \<longleftrightarrow> bitmap_wf s \<and> unlocked s \<and> used_frame s pdt
     \<and> (\<forall>i<1024. \<forall>pt. table_entry pdt i s = Some pt \<longrightarrow> used_frame s pt \<and> pt \<noteq> pdt)
     \<and> (\<forall>i<1024. \<forall>j<1024. table_entry pdt i s \<noteq> None \<longrightarrow> table_entry pdt i s = table_entry pdt j s \<longrightarrow> i = j)"

lemma tables_wfD:
  assumes "tables_wf pdt s"
  shows "bitmap_wf s" "unlocked s" "used_frame s pdt"
    "i < 1024 \<Longrightarrow> table_entry pdt i s = Some pt \<Longrightarrow> used_frame s pt \<and> pt \<noteq> pdt"
    "i < 1024 \<Longrightarrow> j < 1024 \<Longrightarrow> table_entry pdt i s = Some pt \<Longrightarrow> table_entry pdt j s = Some pt \<Longrightarrow> i = j"
  using assms unfolding tables_wf_def by (metis, metis, metis, metis, metis option.distinct(1))

lemma tables_wf_cong:
  assumes "tables_wf pdt s" "bitmap_wf s'" "unlocked s'" "\<And>q. used_frame s q \<Longrightarrow> used_frame s' q"
    "\<And>i. i < 1024 \<Longrightarrow> table_entry pdt i s' = table_entry pdt i s"
  shows "tables_wf pdt s'"
  unfolding tables_wf_def
  using assms(2-) tables_wfD[OF assms(1)] by (metis option.exhaust)

lemma pte_table_entry:
  "pte pdt s d t = (case table_entry pdt d s of None \<Rightarrow> None
     | Some pt \<Rightarrow> let p = get_entry pt t s in if entry_present p then Some (entry_base p) else None)"
  by (simp add: pte_def table_entry_def)

lemma upd_entry_fields [simp]:
  "bitmap_state.more (upd_entry t i f s) = bitmap_state.more s" "bitmap_lock (upd_entry t i f s) = bitmap_lock s"
  "managed (upd_entry t i f s) = managed s" "start_addr (upd_entry t i f s) = start_addr s"
  by (simp_all add: upd_entry_def managed_def bitmap_len_def)

lemma upd_entry_outside:
  assumes "page_aligned t" "i < 1024" "entry_base a \<noteq> t"
  shows "kmem (upd_entry t i f s) a = kmem s a"
proof -
  have "\<not> unat (a - entry_addr t i) < 4"
  proof
    assume "unat (a - entry_addr t i) < 4"
    then obtain j where "j < 4" "a = entry_addr t i + of_nat j" by (auto simp: unat_diff_less_iff)
    with entry_byte_page[OF assms(1,2)] assms(3) show False by simp
  qed
  then show ?thesis by (simp add: upd_entry_def store32_outside)
qed

lemma upd_entry_keeps:
  assumes "bitmap_wf s" "used_frame s t" "i < 1024"
  shows "bitmap_wf (upd_entry t i f s)" "used_frame (upd_entry t i f s) q = used_frame s q"
    "used_pages (upd_entry t i f s) = used_pages s" "unlocked (upd_entry t i f s) = unlocked s"
proof -
  note out = upd_entry_outside[OF used_frame_aligned[OF assms(1,2)] assms(3)]
  define m where "m = kmem (upd_entry t i f s)"
  have u: "upd_entry t i f s = s\<lparr>kmem := m\<rparr>" by (simp add: upd_entry_def m_def)
  note keep = frame_write_keeps[OF assms(1,2), of m]
  have "entry_base a \<noteq> t \<Longrightarrow> m a = kmem s a" for a using out m_def by simp
  then show "bitmap_wf (upd_entry t i f s)" "used_frame (upd_entry t i f s) q = used_frame s q"
    "used_pages (upd_entry t i f s) = used_pages s"
    unfolding u using keep by blast+
qed (simp add: unlocked_def)

lemma table_entry_upd:
  assumes "page_aligned pdt" "page_aligned t" "i < 1024" "d < 1024"
  shows "table_entry pdt d (upd_entry t i f s) =
    (if t = pdt \<and> i = d then if entry_present (f (get_entry pdt d s)) then Some (entry_base (f (get_entry pdt d s))) else None
     else table_entry pdt d s)"
  using assms by (auto simp: table_entry_def get_upd_entry)

text \<open>The two entry updates of one round, from a state in which the table \<open>pt\<close> exists.\<close>

lemma finish_map:
  fixes s :: "'a mmu_state_scheme"
  assumes wf: "bitmap_wf s" "unlocked s" "used_frame s pdt" "used_frame s pt" "pt \<noteq> pdt"
    and d: "d < 1024" "t < 1024" "entry_present (get_entry pdt d s)"
    and others': "\<forall>i<1024. \<forall>q. i \<noteq> d \<longrightarrow> table_entry pdt i s = Some q \<longrightarrow> used_frame s q \<and> q \<noteq> pdt \<and> q \<noteq> pt"
    and inj': "\<forall>i<1024. \<forall>j<1024. \<forall>q. i \<noteq> d \<longrightarrow> j \<noteq> d \<longrightarrow> table_entry pdt i s = Some q \<longrightarrow>
      table_entry pdt j s = Some q \<longrightarrow> i = j"
    and F: "\<forall>e. entry_present (F e) = entry_present e" "\<forall>e. entry_base (F e) = pt"
    and G: "\<forall>e. entry_present (G e)" "\<forall>e. entry_base (G e) = r"
  defines "s' \<equiv> upd_entry pt t G (upd_entry pdt d F s)"
  shows "tables_wf pdt s'" "used_pages s' = used_pages s" "bitmap_state.more s' = bitmap_state.more s"
    and "\<And>d' t'. d' < 1024 \<Longrightarrow> t' < 1024 \<Longrightarrow> pte pdt s' d' t' =
      (if d' = d then if t' = t then Some r
                      else let p = get_entry pt t' s in if entry_present p then Some (entry_base p) else None
       else pte pdt s d' t')"
proof -
  have others: "used_frame s q \<and> q \<noteq> pdt \<and> q \<noteq> pt" if "i < 1024" "i \<noteq> d" "table_entry pdt i s = Some q" for i q
    using others' that by blast
  have inj: "i = j" if "i < 1024" "j < 1024" "i \<noteq> d" "j \<noteq> d" "table_entry pdt i s = Some q"
    "table_entry pdt j s = Some q" for i j q using inj' that by blast
  have al: "page_aligned pdt" "page_aligned pt" using used_frame_aligned wf(1,3,4) by blast+
  let ?s1 = "upd_entry pdt d F s"
  have s1: "bitmap_wf ?s1" "\<And>q. used_frame ?s1 q = used_frame s q" "unlocked ?s1" "used_pages ?s1 = used_pages s"
    using upd_entry_keeps[OF wf(1,3) d(1)] wf(2) by blast+
  then have pt1: "used_frame ?s1 pt" using wf(4) by simp
  note s' = upd_entry_keeps[OF s1(1) pt1 d(2), of G, folded s'_def]
  show "used_pages s' = used_pages s" using s'(3) s1(4) by simp
  show "bitmap_state.more s' = bitmap_state.more s" by (simp add: s'_def)
  have te: "table_entry pdt i s' = (if i = d then Some pt else table_entry pdt i s)" if "i < 1024" for i
    using that al d F wf(5) by (simp add: s'_def table_entry_upd)
  show "tables_wf pdt s'"
    unfolding tables_wf_def
  proof (intro conjI allI impI)
    show "bitmap_wf s'" "unlocked s'" "used_frame s' pdt" using s' s1 wf(2,3) by blast+
    fix i assume i: "i < (1024 :: nat)"
    fix q assume "table_entry pdt i s' = Some q"
    then show "used_frame s' q" "q \<noteq> pdt"
      using te[OF i] others[OF i] wf(4,5) s'(2) s1(2) by (auto split: if_splits)
  next
    fix i j assume ij: "i < (1024 :: nat)" "j < (1024 :: nat)" "table_entry pdt i s' \<noteq> None"
      "table_entry pdt i s' = table_entry pdt j s'"
    then obtain q where "table_entry pdt i s' = Some q" "table_entry pdt j s' = Some q" by auto
    then show "i = j"
      using te[OF ij(1)] te[OF ij(2)] others[OF ij(1)] others[OF ij(2)] inj[OF ij(1,2)] by (auto split: if_splits)
  qed
  fix d' t' assume d': "d' < (1024 :: nat)" "t' < (1024 :: nat)"
  have ge: "get_entry q t' s' = (if q = pt \<and> t' = t then G (get_entry pt t s) else get_entry q t' s)"
    if "page_aligned q" "q \<noteq> pdt" for q
    using that al d d'(2) wf(5) by (auto simp: s'_def get_upd_entry)
  show "pte pdt s' d' t' =
      (if d' = d then if t' = t then Some r
                      else let p = get_entry pt t' s in if entry_present p then Some (entry_base p) else None
       else pte pdt s d' t')"
  proof (cases "d' = d")
    case True
    then show ?thesis using te[OF d'(1)] ge[OF al(2) wf(5)] G by (simp add: pte_table_entry Let_def)
  next
    case False
    show ?thesis
    proof (cases "table_entry pdt d' s")
      case None
      then show ?thesis using False te[OF d'(1)] by (simp add: pte_table_entry)
    next
      case (Some q)
      then have q: "used_frame s q" "q \<noteq> pdt" "q \<noteq> pt" using others[OF d'(1) False] by blast+
      then show ?thesis
        using False Some te[OF d'(1)] ge[of q] used_frame_aligned[OF wf(1) q(1)] by (simp add: pte_table_entry)
    qed
  qed
qed

lemma index_bounds [simp]: "pd_index v < 1024" "pt_index v < 1024"
proof -
  have "unat (drop_bit 22 v) = unat v div 2 ^ 22" by (simp add: drop_bit_eq_div unat_div)
  then show "pd_index v < 1024" using unsigned_less[of v, where 'a = nat] by (simp add: pd_index_def)
  have "drop_bit 12 v AND 0x3FF = take_bit 10 (drop_bit 12 v)" by (simp add: take_bit_eq_mask mask_eq_exp_minus_1)
  then show "pt_index v < 1024" by (simp add: pt_index_def unsigned_take_bit_eq take_bit_nat_def)
qed

text \<open>A page fresh from the allocator, zeroed, becomes the table of a directory entry.\<close>

lemma get_table_fresh:
  fixes s :: "'a mmu_state_scheme"
  assumes wf: "tables_wf pdt s" and d: "d < 1024" "\<not> entry_present (get_entry pdt d s)"
    and room: "\<exists>k<managed s. \<not> allocated s k"
  obtains pt s1 where "get_table pdt d s = Some (pt, s1)" "bitmap_wf s1" "unlocked s1" "used_frame s1 pdt"
    "used_frame s1 pt" "pt \<noteq> pdt" "entry_present (get_entry pdt d s1)"
    "card (used_pages s1) = card (used_pages s) + 1" "managed s1 = managed s"
    "bitmap_state.more s1 = bitmap_state.more s"
    "\<And>q. used_frame s q \<Longrightarrow> used_frame s1 q \<and> q \<noteq> pt"
    "\<And>i. i < 1024 \<Longrightarrow> i \<noteq> d \<Longrightarrow> table_entry pdt i s1 = table_entry pdt i s"
    "\<And>q t. used_frame s q \<Longrightarrow> q \<noteq> pdt \<Longrightarrow> t < 1024 \<Longrightarrow> get_entry q t s1 = get_entry q t s"
    "\<And>t. t < 1024 \<Longrightarrow> get_entry pt t s1 = 0"
proof -
  note wf' = tables_wfD[OF wf]
  note ok = bitmap_wf_words_ok[OF wf'(1)]
  obtain k where k: "k < managed s" "\<not> allocated s k" "bitmap_alloc_page s = Some (page_of s k, mark_page k s)"
    using alloc_page_cases[OF ok wf'(2)] room by metis
  let ?pt = "page_of s k" and ?s1 = "mark_page k s"
  let ?s2 = "zero_page ?pt ?s1"
  let ?s3 = "upd_entry pdt d (set_present True) ?s2"
  have k32: "32 \<le> k" using bitmap_wfD(4)[OF wf'(1)] k(1,2) not_less by blast
  have wf1: "bitmap_wf ?s1" by (rule bitmap_wf_mark_page[OF wf'(1) k(1)])
  have used1: "used_frame ?s1 q \<longleftrightarrow> used_frame s q \<or> q = ?pt" for q
    using k32 k(1) allocated_mark_page[OF ok k(1)] by (auto simp: used_frame_def)
  have fresh: "q \<noteq> ?pt" if "used_frame s q" for q
    using that k(1,2) page_of_eq_iff[OF wf'(1)] by (auto simp: used_frame_def)
  have al: "page_aligned ?pt" "page_aligned pdt"
    using used_frame_aligned[OF wf1] used1 wf'(3) by blast+
  have z: "?s2 = ?s1\<lparr>kmem := fill (kmem ?s1) ?pt 0 4096\<rparr>" by (simp add: zero_page_def memset_def)
  have zout: "entry_base a \<noteq> ?pt \<Longrightarrow> fill (kmem ?s1) ?pt 0 4096 a = kmem ?s1 a" for a
    using in_page_iff[OF al(1)] by (simp add: fill_def)
  have pt1: "used_frame ?s1 ?pt" using used1 by blast
  have s2: "bitmap_wf ?s2" "\<And>q. used_frame ?s2 q = used_frame ?s1 q" "used_pages ?s2 = used_pages ?s1"
    unfolding z using frame_write_keeps[OF wf1 pt1] zout by blast+
  have pdt2: "used_frame ?s2 pdt" using s2(2) used1 wf'(3) by blast
  note s3 = upd_entry_keeps[OF s2(1) pdt2 d(1), of "set_present True"]
  have ge3: "get_entry q t ?s3 = (if q = pdt \<and> t = d then set_present True (get_entry pdt d s)
      else if q = ?pt then 0 else get_entry q t s)" if "used_frame ?s1 q" "t < 1024" for q t
  proof -
    have q: "page_aligned q" using used_frame_aligned[OF wf1 that(1)] .
    have "get_entry q t ?s2 = (if q = ?pt then 0 else get_entry q t s)"
      using that get_entry_zero_page[OF q al(1) that(2), of ?s1] get_entry_mark[OF wf'(1) _ that(2) k(1)] used1 by auto
    moreover have "get_entry pdt d ?s2 = get_entry pdt d s"
      using get_entry_zero_page[OF al(2,1) d(1), of ?s1] get_entry_mark[OF wf'(1,3) d(1) k(1)] fresh[OF wf'(3)] by auto
    ultimately show ?thesis using get_upd_entry[OF al(2) q d(1) that(2), of "set_present True" ?s2] by auto
  qed
  have card: "card (used_pages ?s3) = card (used_pages s) + 1"
    using s3(3) s2(3) used_pages_mark_page[OF ok k(1)] k(1,2) by (simp add: used_pages_def)
  have pdt1: "used_frame ?s1 pdt" using used1 wf'(3) by blast
  show thesis
  proof (rule that)
    show "get_table pdt d s = Some (?pt, ?s3)" using d(2) k(3) by (simp add: get_table_def)
    show "bitmap_wf ?s3" "used_frame ?s3 pdt" "used_frame ?s3 ?pt" using s3 pdt2 s2(2) pt1 by blast+
    show "unlocked ?s3" using wf'(2) by (simp add: unlocked_def z)
    show "?pt \<noteq> pdt" using fresh[OF wf'(3)] by blast
    show "entry_present (get_entry pdt d ?s3)" using ge3[OF pdt1 d(1)] by simp
    show "managed ?s3 = managed s" by (simp add: z) (simp add: managed_def bitmap_len_def mark_page_def bitmap_put_def)
    show "bitmap_state.more ?s3 = bitmap_state.more s" by (simp add: z)
    show "card (used_pages ?s3) = card (used_pages s) + 1" by (rule card)
    show "used_frame ?s3 q \<and> q \<noteq> ?pt" if "used_frame s q" for q
      using that s3(2) s2(2) used1 fresh by blast
    show "table_entry pdt i ?s3 = table_entry pdt i s" if "i < 1024" "i \<noteq> d" for i
      using that ge3[OF pdt1] fresh[OF wf'(3)] by (simp add: table_entry_def)
    show "get_entry q t ?s3 = get_entry q t s" if "used_frame s q" "q \<noteq> pdt" "t < 1024" for q t
      using that ge3[of q t] used1 fresh by simp
    show "get_entry ?pt t ?s3 = 0" if "t < 1024" for t
      using that ge3[OF pt1] fresh[OF wf'(3)] by auto
  qed
qed

lemma mmu_map_page_step:
  fixes s :: "'a mmu_state_scheme"
  assumes wf: "tables_wf pdt s" and room: "\<exists>k<managed s. \<not> allocated s k"
  obtains s' where "mmu_map_page pdt real virt rw user s = Some s'" "tables_wf pdt s'"
    "managed s' = managed s" "card (used_pages s') \<le> card (used_pages s) + 1"
    "bitmap_state.more s' = bitmap_state.more s"
    "\<And>d t. d < 1024 \<Longrightarrow> t < 1024 \<Longrightarrow> pte pdt s' d t =
      (if d = pd_index virt \<and> t = pt_index virt then Some (entry_base real) else pte pdt s d t)"
proof -
  let ?d = "pd_index virt" and ?t = "pt_index virt"
  let ?F = "\<lambda>pt pd. set_address (drop_bit 12 pt) (set_user user (set_rw rw pd))"
  let ?G = "\<lambda>p. set_address (drop_bit 12 real) (set_user user (set_rw rw (set_present True p)))"
  let ?s' = "\<lambda>pt s1. upd_entry pt ?t ?G (upd_entry pdt ?d (?F pt) s1)"
  note wf' = tables_wfD[OF wf]
  have flags: "\<forall>e. entry_present (?F pt e) = entry_present e" "\<forall>e. entry_present (?G e)"
    "\<forall>e. entry_base (?G e) = entry_base real" for pt by simp_all
  show thesis
  proof (cases "entry_present (get_entry pdt ?d s)")
    case True
    let ?pt = "entry_base (get_entry pdt ?d s)"
    have te: "table_entry pdt ?d s = Some ?pt" using True by (simp add: table_entry_def)
    have pt: "used_frame s ?pt" "?pt \<noteq> pdt" using wf'(4)[OF index_bounds(1) te] by blast+
    have oth: "\<forall>i<1024. \<forall>q. i \<noteq> ?d \<longrightarrow> table_entry pdt i s = Some q \<longrightarrow> used_frame s q \<and> q \<noteq> pdt \<and> q \<noteq> ?pt"
      using wf'(4,5) te index_bounds(1) by metis
    have inj: "\<forall>i<1024. \<forall>j<1024. \<forall>q. i \<noteq> ?d \<longrightarrow> j \<noteq> ?d \<longrightarrow> table_entry pdt i s = Some q \<longrightarrow>
        table_entry pdt j s = Some q \<longrightarrow> i = j" using wf'(5) by blast
    have base: "\<forall>e. entry_base (?F ?pt e) = ?pt" by (simp add: entry_base_id)
    note fin = finish_map[OF wf'(1,2,3) pt index_bounds True oth inj flags(1) base flags(2) flags(3)]
    have run: "mmu_map_page pdt real virt rw user s = Some (?s' ?pt s)"
      using True by (simp add: mmu_map_page_def get_table_def)
    have "pte pdt s ?d t = (let p = get_entry ?pt t s in if entry_present p then Some (entry_base p) else None)" for t
      by (simp add: pte_table_entry te)
    then show thesis using that[OF run fin(1) _ _ fin(3)] fin(2,4) by simp
  next
    case False
    obtain pt s1 where s1: "get_table pdt ?d s = Some (pt, s1)" "bitmap_wf s1" "unlocked s1" "used_frame s1 pdt"
      "used_frame s1 pt" "pt \<noteq> pdt" "entry_present (get_entry pdt ?d s1)"
      "card (used_pages s1) = card (used_pages s) + 1" "managed s1 = managed s"
      "bitmap_state.more s1 = bitmap_state.more s"
      "\<And>q. used_frame s q \<Longrightarrow> used_frame s1 q \<and> q \<noteq> pt"
      "\<And>i. i < 1024 \<Longrightarrow> i \<noteq> ?d \<Longrightarrow> table_entry pdt i s1 = table_entry pdt i s"
      "\<And>q t. used_frame s q \<Longrightarrow> q \<noteq> pdt \<Longrightarrow> t < 1024 \<Longrightarrow> get_entry q t s1 = get_entry q t s"
      "\<And>t. t < 1024 \<Longrightarrow> get_entry pt t s1 = 0"
      using get_table_fresh[OF wf index_bounds(1) False room] by metis
    have base: "\<forall>e. entry_base (?F pt e) = pt" using entry_base_id[OF used_frame_aligned[OF s1(2,5)]] by simp
    have oth: "\<forall>i<1024. \<forall>q. i \<noteq> ?d \<longrightarrow> table_entry pdt i s1 = Some q \<longrightarrow> used_frame s1 q \<and> q \<noteq> pdt \<and> q \<noteq> pt"
      using wf'(4) s1(11,12) by metis
    have inj: "\<forall>i<1024. \<forall>j<1024. \<forall>q. i \<noteq> ?d \<longrightarrow> j \<noteq> ?d \<longrightarrow> table_entry pdt i s1 = Some q \<longrightarrow>
        table_entry pdt j s1 = Some q \<longrightarrow> i = j" using wf'(5) s1(12) by metis
    note fin = finish_map[OF s1(2-6) index_bounds s1(7) oth inj flags(1) base flags(2) flags(3)]
    have run: "mmu_map_page pdt real virt rw user s = Some (?s' pt s1)"
      using s1(1) by (simp add: mmu_map_page_def)
    have same: "pte pdt s1 d t = pte pdt s d t" if "d < 1024" "t < 1024" "d \<noteq> ?d" for d t
      using s1(12)[OF that(1,3)] wf'(4)[OF that(1)] s1(13)[OF _ _ that(2)]
      by (simp add: pte_table_entry split: option.split)
    have none: "pte pdt s ?d t = None" for t using False by (simp add: pte_def)
    have "pte pdt (?s' pt s1) d t =
        (if d = ?d \<and> t = ?t then Some (entry_base real) else pte pdt s d t)" if "d < 1024" "t < 1024" for d t
      using fin(4)[OF that] same[OF that] none s1(14)[OF that(2)] by simp
    then show thesis using that[OF run fin(1)] fin(2,3) s1(8-10) by simp
  qed
qed

section \<open>Runs of virtual pages\<close>

definition vpn :: "ptr \<Rightarrow> nat" where
  "vpn v = unat v div 4096"

lemma vpn_index: "vpn v = 1024 * pd_index v + pt_index v" "pd_index v = vpn v div 1024" "pt_index v = vpn v mod 1024"
proof -
  have "drop_bit 12 v AND 0x3FF = take_bit 10 (drop_bit 12 v)" by (simp add: take_bit_eq_mask mask_eq_exp_minus_1)
  moreover have "unat v mod 4294967296 = unat v" using unsigned_less[of v, where 'a = nat] by simp
  ultimately show t: "pt_index v = vpn v mod 1024"
    by (simp add: pt_index_def vpn_def unsigned_take_bit_eq take_bit_nat_def unsigned_drop_bit_eq drop_bit_nat_def)
  have "unat (drop_bit 22 v) = unat v div 2 ^ 22" by (simp add: drop_bit_eq_div unat_div)
  then show d: "pd_index v = vpn v div 1024"
    by (simp add: pd_index_def vpn_def div_mult2_eq[of _ 4096 1024, symmetric])
  show "vpn v = 1024 * pd_index v + pt_index v" unfolding t d by simp
qed

lemma vpn_eq_iff: "vpn v = vpn w \<longleftrightarrow> pd_index v = pd_index w \<and> pt_index v = pt_index w"
  by (metis vpn_index)

lemma vpn_step: "unat v + 4096 < 2 ^ 32 \<Longrightarrow> vpn (v + 4096) = Suc (vpn v)"
  using unat_add_no_wrap[of v 4096] by (simp add: vpn_def)

lemma entry_base_step: "entry_base (v + 4096) = entry_base v + 4096"
proof -
  have "unat (v + 4096) mod 4096 = (unat v + 4096) mod 2 ^ 32 mod 4096" by (simp add: unat_word_ariths)
  also have "\<dots> = (unat v + 4096) mod 4096" by (rule mod_mod_cancel) simp
  finally have "unat ((v + 4096) AND 0xFFF) = unat (v AND 0xFFF)" by (simp only: unat_offset mod_add_self2)
  then have "take_bit 12 (v + 4096) = take_bit 12 v" by (simp add: word_unat_eq_iff take_bit_12)
  moreover have "entry_base w = w - take_bit 12 w" for w :: ptr
    using entry_base_offset[of w] by (metis add_diff_cancel_right' take_bit_12)
  ultimately show ?thesis by simp
qed

lemma free_page_exists:
  assumes "card (used_pages s) < managed s"
  shows "\<exists>k<managed s. \<not> allocated s k"
proof (rule ccontr)
  assume "\<not> ?thesis"
  then have "used_pages s = {..<managed s}" by (auto simp: used_pages_def)
  with assms show False by simp
qed

lemma map_loop_step:
  fixes s :: "'a mmu_state_scheme"
  assumes "tables_wf pdt s" "card (used_pages s) + n \<le> managed s" "vpn virt + n \<le> 2 ^ 20"
  shows "\<exists>s'. map_loop n pdt real virt rw user s = Some s' \<and> tables_wf pdt s' \<and> managed s' = managed s \<and>
    card (used_pages s') \<le> card (used_pages s) + n \<and> bitmap_state.more s' = bitmap_state.more s \<and>
    (\<forall>v. mmu_walk pdt v s' = (if vpn virt \<le> vpn v \<and> vpn v < vpn virt + n
       then Some (entry_base real + of_nat (vpn v - vpn virt) * 4096 + (v AND 0xFFF)) else mmu_walk pdt v s))"
  using assms
proof (induction n arbitrary: real virt s)
  case (Suc n)
  have "card (used_pages s) < managed s" using Suc.prems(2) by simp
  from mmu_map_page_step[OF Suc.prems(1) free_page_exists[OF this]]
  obtain s1 where s1: "mmu_map_page pdt real virt rw user s = Some s1" "tables_wf pdt s1"
    "managed s1 = managed s" "card (used_pages s1) \<le> card (used_pages s) + 1"
    "bitmap_state.more s1 = bitmap_state.more s"
    "\<And>d t. d < 1024 \<Longrightarrow> t < 1024 \<Longrightarrow> pte pdt s1 d t =
      (if d = pd_index virt \<and> t = pt_index virt then Some (entry_base real) else pte pdt s d t)"
    by metis
  have w1: "mmu_walk pdt v s1 = (if vpn v = vpn virt then Some (entry_base real + (v AND 0xFFF)) else mmu_walk pdt v s)" for v
    by (simp add: mmu_walk_pte s1(6) vpn_eq_iff)
  show ?case
  proof (cases n)
    case 0
    then show ?thesis using s1 w1 by (auto simp: le_less_Suc_eq)
  next
    case (Suc m)
    have "unat virt < 4096 * (unat virt div 4096 + 1)"
      using dividend_less_div_times[of 4096 "unat virt"] by simp
    then have "unat virt + 4096 < 2 ^ 32" using Suc.prems(3) \<open>n = Suc m\<close> unfolding vpn_def by simp
    note step = vpn_step[OF this]
    have "\<exists>s'. map_loop n pdt (real + 4096) (virt + 4096) rw user s1 = Some s' \<and> tables_wf pdt s' \<and>
      managed s' = managed s1 \<and> card (used_pages s') \<le> card (used_pages s1) + n \<and>
      bitmap_state.more s' = bitmap_state.more s1 \<and>
      (\<forall>v. mmu_walk pdt v s' = (if vpn (virt + 4096) \<le> vpn v \<and> vpn v < vpn (virt + 4096) + n
       then Some (entry_base (real + 4096) + of_nat (vpn v - vpn (virt + 4096)) * 4096 + (v AND 0xFFF))
       else mmu_walk pdt v s1))"
      using Suc.prems(2,3) s1(2,3,4) step by (intro Suc.IH) simp_all
    then obtain s' where s': "map_loop n pdt (real + 4096) (virt + 4096) rw user s1 = Some s'" "tables_wf pdt s'"
      "managed s' = managed s1" "card (used_pages s') \<le> card (used_pages s1) + n"
      "bitmap_state.more s' = bitmap_state.more s1"
      "\<And>v. mmu_walk pdt v s' = (if Suc (vpn virt) \<le> vpn v \<and> vpn v < Suc (vpn virt) + n
       then Some (entry_base real + 4096 + of_nat (vpn v - Suc (vpn virt)) * 4096 + (v AND 0xFFF))
       else mmu_walk pdt v s1)" unfolding step entry_base_step by blast
    have "mmu_walk pdt v s' = (if vpn virt \<le> vpn v \<and> vpn v < vpn virt + Suc n
       then Some (entry_base real + of_nat (vpn v - vpn virt) * 4096 + (v AND 0xFFF)) else mmu_walk pdt v s)" for v
    proof (cases "Suc (vpn virt) \<le> vpn v")
      case True
      then have "vpn v - vpn virt = Suc (vpn v - Suc (vpn virt))" by simp
      with True show ?thesis using s'(6)[of v] w1[of v] by (simp add: algebra_simps)
    next
      case False
      then show ?thesis using s'(6)[of v] w1[of v] by auto
    qed
    then show ?thesis using s1 s' by simp
  qed
qed auto

text \<open>Unmapping: the walk forgets the pages.\<close>

lemma mmu_unmap_page_step:
  fixes s :: "'a mmu_state_scheme" and virt :: ptr
  assumes wf: "tables_wf pdt s"
  defines "s' \<equiv> mmu_unmap_page pdt virt s"
  shows "tables_wf pdt s'" "bitmap_state.more s' = bitmap_state.more s" "used_pages s' = used_pages s"
    "mmu_walk pdt v s' = (if vpn v = vpn virt then None else mmu_walk pdt v s)"
proof -
  let ?d = "pd_index virt" and ?t = "pt_index virt"
  let ?G = "\<lambda>p. set_address 0 (set_user False (set_rw False (set_present False p)))"
  note wf' = tables_wfD[OF wf]
  have "tables_wf pdt s' \<and> bitmap_state.more s' = bitmap_state.more s \<and> used_pages s' = used_pages s \<and>
    (\<forall>d<1024. \<forall>t<1024. pte pdt s' d t = (if d = ?d \<and> t = ?t then None else pte pdt s d t))"
  proof (cases "entry_present (get_entry pdt ?d s)")
    case False
    then show ?thesis using wf by (simp add: s'_def mmu_unmap_page_def pte_def)
  next
    case True
    let ?pt = "entry_base (get_entry pdt ?d s)"
    have s': "s' = upd_entry ?pt ?t ?G s" using True by (simp add: s'_def mmu_unmap_page_def)
    have te: "table_entry pdt ?d s = Some ?pt" using True by (simp add: table_entry_def)
    have pt: "used_frame s ?pt" "?pt \<noteq> pdt" using wf'(4)[OF index_bounds(1) te] by blast+
    have al: "page_aligned pdt" "page_aligned ?pt" using used_frame_aligned wf'(1,3) by (blast, simp)
    have keep: "bitmap_wf s'" "unlocked s' = unlocked s" "\<And>q. used_frame s' q = used_frame s q"
      "used_pages s' = used_pages s"
      unfolding s' using upd_entry_keeps[OF wf'(1) pt(1) index_bounds(2)] by blast+
    have te': "table_entry pdt i s' = table_entry pdt i s" if "i < 1024" for i
      using that al pt(2) by (simp add: s' table_entry_upd)
    have "tables_wf pdt s'"
      using tables_wf_cong[OF wf keep(1)] keep(2,3) te' wf'(2) by blast
    moreover have "pte pdt s' d t = (if d = ?d \<and> t = ?t then None else pte pdt s d t)" if "d < 1024" "t < 1024" for d t
    proof (cases "table_entry pdt d s")
      case None
      then show ?thesis using te' that te by (auto simp: pte_table_entry)
    next
      case (Some q)
      have "page_aligned q" using used_frame_aligned wf'(1) wf'(4)[OF that(1) Some] by blast
      moreover have "q = ?pt \<longleftrightarrow> d = ?d"
      proof
        assume "q = ?pt"
        with te have "table_entry pdt ?d s = Some q" by simp
        then show "d = ?d" by (rule wf'(5)[OF that(1) index_bounds(1) Some])
      next
        assume "d = ?d"
        with te Some show "q = ?pt" by simp
      qed
      ultimately show ?thesis
        using Some te'[OF that(1)] get_upd_entry[OF al(2) _ index_bounds(2) that(2), where u = q and f = ?G and s = s]
        by (auto simp: pte_table_entry s')
    qed
    ultimately show ?thesis using keep by (simp add: s')
  qed
  then show "tables_wf pdt s'" "bitmap_state.more s' = bitmap_state.more s" "used_pages s' = used_pages s"
    "mmu_walk pdt v s' = (if vpn v = vpn virt then None else mmu_walk pdt v s)"
    by (auto simp: mmu_walk_pte vpn_eq_iff)
qed

lemma unmap_loop_step:
  fixes s :: "'a mmu_state_scheme"
  assumes "tables_wf pdt s" "vpn virt + n \<le> 2 ^ 20"
  shows "tables_wf pdt (unmap_loop n pdt virt s) \<and>
    bitmap_state.more (unmap_loop n pdt virt s) = bitmap_state.more s \<and>
    used_pages (unmap_loop n pdt virt s) = used_pages s \<and>
    (\<forall>v. mmu_walk pdt v (unmap_loop n pdt virt s) =
      (if vpn virt \<le> vpn v \<and> vpn v < vpn virt + n then None else mmu_walk pdt v s))"
  using assms
proof (induction n arbitrary: virt s)
  case (Suc n)
  let ?s1 = "mmu_unmap_page pdt virt s"
  note s1 = mmu_unmap_page_step[OF Suc.prems(1), where virt = virt]
  show ?case
  proof (cases n)
    case 0
    then show ?thesis using s1 by (auto simp: le_less_Suc_eq)
  next
    case (Suc m)
    have "unat virt < 4096 * (unat virt div 4096 + 1)" using dividend_less_div_times[of 4096 "unat virt"] by simp
    then have "unat virt + 4096 < 2 ^ 32" using Suc.prems(2) \<open>n = Suc m\<close> unfolding vpn_def by simp
    note step = vpn_step[OF this]
    have "vpn (virt + 4096) + n \<le> 2 ^ 20" using Suc.prems(2) step by simp
    note IH = Suc.IH[OF s1(1) this, unfolded step]
    have "Suc (vpn virt) \<le> w \<and> w < Suc (vpn virt) + n \<or> w = vpn virt \<longleftrightarrow> vpn virt \<le> w \<and> w < vpn virt + Suc n" for w
      by auto
    then show ?thesis using IH s1 by auto
  qed
qed auto

section \<open>Locks and registers\<close>

lemma bitmap_view_mmu [simp]:
  "bitmap_word (s\<lparr>mmu_lock := l\<rparr>) = bitmap_word s" "allocated (s\<lparr>mmu_lock := l\<rparr>) = allocated s"
  "managed (s\<lparr>mmu_lock := l\<rparr>) = managed s" "page_of (s\<lparr>mmu_lock := l\<rparr>) = page_of s"
  "used_pages (s\<lparr>mmu_lock := l\<rparr>) = used_pages s" "unlocked (s\<lparr>mmu_lock := l\<rparr>) = unlocked s"
  "bitmap_wf (s\<lparr>mmu_lock := l\<rparr>) = bitmap_wf s" "used_frame (s\<lparr>mmu_lock := l\<rparr>) = used_frame s"
  by (simp_all add: bitmap_word_def allocated_def managed_def bitmap_len_def page_of_def used_pages_def
      unlocked_def bitmap_wf_def used_frame_def fun_eq_iff)

lemma mmu_view_lock [simp]:
  "get_entry t i (s\<lparr>mmu_lock := l\<rparr>) = get_entry t i s" "table_entry pdt i (s\<lparr>mmu_lock := l\<rparr>) = table_entry pdt i s"
  "tables_wf pdt (s\<lparr>mmu_lock := l\<rparr>) = tables_wf pdt s" "mmu_walk pdt v (s\<lparr>mmu_lock := l\<rparr>) = mmu_walk pdt v s"
  by (simp_all add: get_entry_def table_entry_def tables_wf_def mmu_walk_def Let_def)

text \<open>The state in which the paging code works on a directory: tables well formed, lock free.\<close>

definition space_inv :: "ptr \<Rightarrow> 'a mmu_state_scheme \<Rightarrow> bool" where
  "space_inv pdt s \<longleftrightarrow> tables_wf pdt s \<and> mmu_lock s = Some False"

definition free_frames :: "'a bitmap_state_scheme \<Rightarrow> nat" where
  "free_frames s = managed s - card (used_pages s)"

lemma used_pages_le: "card (used_pages s) \<le> managed s"
  using card_mono[of "{..<managed s}" "used_pages s"] by (auto simp: used_pages_def)

lemma mmu_map_pages_walk:
  fixes s :: "'a mmu_state_scheme"
  assumes "space_inv pdt s" "unat len \<le> free_frames s" "vpn virt + unat len \<le> 2 ^ 20"
  shows "\<exists>s'. mmu_map_pages pdt real virt len rw user executable s = Some s' \<and> space_inv pdt s' \<and>
    (\<forall>v. mmu_walk pdt v s' = (if vpn virt \<le> vpn v \<and> vpn v < vpn virt + unat len
       then Some (entry_base real + of_nat (vpn v - vpn virt) * 4096 + (v AND 0xFFF)) else mmu_walk pdt v s))"
proof -
  let ?s1 = "s\<lparr>mmu_lock := Some True\<rparr>"
  have s1: "mmu_acquire s = Some ?s1" "tables_wf pdt ?s1"
    using assms(1) by (simp_all add: mmu_acquire_def space_inv_def)
  have "card (used_pages ?s1) + unat len \<le> managed ?s1"
    using assms(2) used_pages_le[of s] by (simp add: free_frames_def)
  from map_loop_step[OF s1(2) this assms(3), of real rw user]
  obtain s2 where s2: "map_loop (unat len) pdt real virt rw user ?s1 = Some s2" "tables_wf pdt s2"
    "bitmap_state.more s2 = bitmap_state.more ?s1"
    "\<And>v. mmu_walk pdt v s2 = (if vpn virt \<le> vpn v \<and> vpn v < vpn virt + unat len
       then Some (entry_base real + of_nat (vpn v - vpn virt) * 4096 + (v AND 0xFFF)) else mmu_walk pdt v ?s1)"
    by blast
  have "mmu_lock s2 = Some True" using mmu_more_fields(1)[OF s2(3)] by simp
  then show ?thesis
    using s1(1) s2 by (intro exI[of _ "mmu_release s2"]) (simp add: mmu_map_pages_def mmu_release_def space_inv_def)
qed

lemma mmu_unmap_pages_walk:
  fixes s :: "'a mmu_state_scheme"
  assumes "space_inv pdt s" "vpn virt + unat len \<le> 2 ^ 20"
  shows "\<exists>s'. mmu_unmap_pages pdt virt len s = Some s' \<and> space_inv pdt s' \<and>
    (\<forall>v. mmu_walk pdt v s' = (if vpn virt \<le> vpn v \<and> vpn v < vpn virt + unat len then None else mmu_walk pdt v s))"
proof -
  let ?s1 = "s\<lparr>mmu_lock := Some True\<rparr>"
  have s1: "mmu_acquire s = Some ?s1" "tables_wf pdt ?s1"
    using assms(1) by (simp_all add: mmu_acquire_def space_inv_def)
  note s2 = unmap_loop_step[OF s1(2) assms(2)]
  then have "mmu_lock (unmap_loop (unat len) pdt virt ?s1) = Some True"
    using mmu_more_fields(1)[of "unmap_loop (unat len) pdt virt ?s1" ?s1] by simp
  then show ?thesis
    using s1(1) s2 by (simp add: mmu_unmap_pages_def mmu_release_def space_inv_def)
qed

section \<open>The interface of an address space\<close>

text \<open>What the users of the paging code (the kernel heap, process creation) rely on: the
  translation behaves as a finite map on page numbers.\<close>

locale address_space =
  fixes inv :: "'s \<Rightarrow> bool" and room :: "'s \<Rightarrow> nat" and lookup :: "'s \<Rightarrow> ptr \<Rightarrow> ptr option"
    and map_op :: "ptr \<Rightarrow> ptr \<Rightarrow> u32 \<Rightarrow> 's \<Rightarrow> 's option" and unmap_op :: "ptr \<Rightarrow> u32 \<Rightarrow> 's \<Rightarrow> 's option"
  assumes map_law: "inv s \<Longrightarrow> unat n \<le> room s \<Longrightarrow> vpn virt + unat n \<le> 2 ^ 20 \<Longrightarrow>
      \<exists>s'. map_op real virt n s = Some s' \<and> inv s' \<and>
        (\<forall>v. lookup s' v = (if vpn virt \<le> vpn v \<and> vpn v < vpn virt + unat n
           then Some (entry_base real + of_nat (vpn v - vpn virt) * 4096 + (v AND 0xFFF)) else lookup s v))"
    and unmap_law: "inv s \<Longrightarrow> vpn virt + unat n \<le> 2 ^ 20 \<Longrightarrow>
      \<exists>s'. unmap_op virt n s = Some s' \<and> inv s' \<and>
        (\<forall>v. lookup s' v = (if vpn virt \<le> vpn v \<and> vpn v < vpn virt + unat n then None else lookup s v))"
begin

lemma map_then_unmap:
  assumes "inv s" "unat n \<le> room s" "vpn virt + unat n \<le> 2 ^ 20"
    and unmapped: "\<And>v. vpn virt \<le> vpn v \<Longrightarrow> vpn v < vpn virt + unat n \<Longrightarrow> lookup s v = None"
  shows "\<exists>s' s''. map_op real virt n s = Some s' \<and> unmap_op virt n s' = Some s'' \<and> inv s'' \<and> lookup s'' = lookup s"
proof -
  obtain s' where s': "map_op real virt n s = Some s'" "inv s'"
    "\<And>v. lookup s' v = (if vpn virt \<le> vpn v \<and> vpn v < vpn virt + unat n
       then Some (entry_base real + of_nat (vpn v - vpn virt) * 4096 + (v AND 0xFFF)) else lookup s v)"
    using map_law[OF assms(1-3)] by blast
  obtain s'' where s'': "unmap_op virt n s' = Some s''" "inv s''"
    "\<And>v. lookup s'' v = (if vpn virt \<le> vpn v \<and> vpn v < vpn virt + unat n then None else lookup s' v)"
    using unmap_law[OF s'(2) assms(3)] by blast
  have "lookup s'' v = lookup s v" for v using s''(3)[of v] s'(3)[of v] unmapped[of v] by auto
  with s' s'' show ?thesis by blast
qed

end

interpretation vm: address_space "space_inv pdt" free_frames "\<lambda>s v. mmu_walk pdt v s"
  "\<lambda>real virt n. mmu_map_pages pdt real virt n rw user executable" "mmu_unmap_pages pdt"
  for pdt rw user executable
  by unfold_locales (rule mmu_map_pages_walk mmu_unmap_pages_walk; assumption)+

section \<open>Data behind the tables\<close>

text \<open>A physical address outside the directory and its tables; a store there leaves the translation alone.\<close>

definition data_addr :: "ptr \<Rightarrow> 'a mmu_state_scheme \<Rightarrow> ptr \<Rightarrow> bool" where
  "data_addr pdt s r \<longleftrightarrow> page_aligned pdt \<and> entry_base r \<noteq> pdt \<and>
     (\<forall>i<1024. table_entry pdt i s \<noteq> Some (entry_base r))"

lemma store_data_walk:
  fixes s :: "'a mmu_state_scheme"
  assumes "\<And>a. m a \<noteq> kmem s a \<Longrightarrow> data_addr pdt s a" "page_aligned pdt"
  shows "mmu_walk pdt v (s\<lparr>kmem := m\<rparr>) = mmu_walk pdt v s"
proof -
  have same: "get_entry t i (s\<lparr>kmem := m\<rparr>) = get_entry t i s"
    if "page_aligned t" "i < 1024" "t = pdt \<or> (\<exists>j<1024. table_entry pdt j s = Some t)" for t i
    using that(3) assms(1) by (intro get_entry_cong[OF that(1,2)]) (auto simp: data_addr_def)
  have dir: "get_entry pdt (pd_index v) (s\<lparr>kmem := m\<rparr>) = get_entry pdt (pd_index v) s"
    using same[OF assms(2) index_bounds(1)] by simp
  have "get_entry (entry_base (get_entry pdt (pd_index v) s)) (pt_index v) (s\<lparr>kmem := m\<rparr>) =
      get_entry (entry_base (get_entry pdt (pd_index v) s)) (pt_index v) s"
    if "entry_present (get_entry pdt (pd_index v) s)"
    using that by (intro same) (auto simp: table_entry_def intro!: exI[of _ "pd_index v"])
  then show ?thesis by (simp add: mmu_walk_def dir Let_def)
qed

lemma aligned_word_in_page:
  assumes "unat v mod 4096 + k < 4096"
  shows "entry_base (v + of_nat k) = entry_base v" "vpn (v + of_nat k) = vpn v"
    "(v + of_nat k) AND 0xFFF = (v AND 0xFFF) + of_nat k"
proof -
  let ?i = "unat v mod 4096"
  have v: "v = entry_base v + of_nat ?i" using entry_base_offset[of v] by (metis unat_offset ucast_id of_nat_unat)
  then have vk: "v + of_nat k = entry_base v + of_nat (?i + k)" by (simp add: add.assoc)
  then have "unat (v + of_nat k - entry_base v) < 4096"
    using assms by (simp add: unat_of_nat_small del: of_nat_add)
  then show base: "entry_base (v + of_nat k) = entry_base v" by (simp add: in_page_iff)
  have "vpn w = unat (entry_base w) div 4096" for w by (simp add: vpn_def unat_entry_base minus_mod_eq_mult_div)
  then show "vpn (v + of_nat k) = vpn v" by (simp add: base)
  show "(v + of_nat k) AND 0xFFF = (v AND 0xFFF) + of_nat k"
  proof -
    have "w AND 0xFFF = w - entry_base w" for w using entry_base_offset[of w] by (metis add_diff_cancel_left')
    then show ?thesis by (simp add: base)
  qed
qed

lemma walk_in_page:
  assumes "unat v mod 4096 + k < 4096" "mmu_walk pdt v s = Some r"
  shows "mmu_walk pdt (v + of_nat k) s = Some (r + of_nat k)"
  using assms(2) aligned_word_in_page[OF assms(1)]
  by (auto simp: mmu_walk_pte vpn_eq_iff add.assoc)

definition user_access :: "ptr \<Rightarrow> ptr \<Rightarrow> 'a mmu_state_scheme \<Rightarrow> bool" where
  "user_access pdt v s \<longleftrightarrow> mmu_is_mapped pdt v s \<and> entry_user (get_entry pdt (pd_index v) s) \<and>
     entry_user (get_entry (entry_base (get_entry pdt (pd_index v) s)) (pt_index v) s)"

lemma mmu_map_page_dir:
  fixes s :: "'a mmu_state_scheme"
  assumes wf: "tables_wf pdt s" and room: "\<exists>k<managed s. \<not> allocated s k"
    and run: "mmu_map_page pdt real virt rw user s = Some s'"
  shows "entry_user (get_entry pdt (pd_index virt) s') = user \<and> entry_rw (get_entry pdt (pd_index virt) s') = rw"
proof -
  let ?d = "pd_index virt"
  note wf' = tables_wfD[OF wf]
  obtain pt s1 where s1: "get_table pdt ?d s = Some (pt, s1)" "pt \<noteq> pdt" "page_aligned pt"
  proof (cases "entry_present (get_entry pdt ?d s)")
    case True
    then have "table_entry pdt ?d s = Some (entry_base (get_entry pdt ?d s))" by (simp add: table_entry_def)
    from wf'(4)[OF index_bounds(1) this] True show thesis
      by (intro that[of "entry_base (get_entry pdt ?d s)" s]) (simp_all add: get_table_def)
  next
    case False
    from get_table_fresh[OF wf index_bounds(1) False room] show thesis using that used_frame_aligned by metis
  qed
  have "page_aligned pdt" using used_frame_aligned wf'(1,3) by blast
  then show ?thesis using run s1 by (auto simp: mmu_map_page_def get_upd_entry)
qed

section \<open>Properties\<close>

text \<open>C1: \<open>mmu_map_pages\<close> returns, keeps the invariant of the page tables, and changes the address
  translation exactly as requested: the \<open>len\<close> pages from \<open>virt_addr\<close> translate to the frames from
  \<open>real_addr\<close>, offsets included, and every other address translates as before.\<close>

theorem mmu_map_pages_correct:
  fixes s :: "'a mmu_state_scheme"
  assumes "tables_wf pdt s" "mmu_lock s = Some False" "unat len \<le> free_frames s" "vpn virt + unat len \<le> 2 ^ 20"
  shows "\<exists>s'. mmu_map_pages pdt real virt len rw user executable s = Some s' \<and> tables_wf pdt s' \<and>
    (\<forall>v. mmu_walk pdt v s' = (if vpn virt \<le> vpn v \<and> vpn v < vpn virt + unat len
       then Some (entry_base real + of_nat (vpn v - vpn virt) * 4096 + (v AND 0xFFF)) else mmu_walk pdt v s))"
  using mmu_map_pages_walk[of pdt s len virt real rw user executable] assms by (auto simp: space_inv_def)

text \<open>C39: mapping unmapped pages and unmapping them again returns and restores the translation of
  every address; no page stays reachable through the directory.\<close>

theorem mmu_map_unmap_restores:
  fixes s :: "'a mmu_state_scheme"
  assumes "tables_wf pdt s" "mmu_lock s = Some False" "unat len \<le> free_frames s" "vpn virt + unat len \<le> 2 ^ 20"
    and "\<forall>v. vpn virt \<le> vpn v \<and> vpn v < vpn virt + unat len \<longrightarrow> \<not> mmu_is_mapped pdt v s"
  shows "\<exists>s' s''. mmu_map_pages pdt real virt len rw user executable s = Some s' \<and>
    mmu_unmap_pages pdt virt len s' = Some s'' \<and> tables_wf pdt s'' \<and>
    (\<forall>v. mmu_get_physical_address_pdt v pdt s'' = mmu_get_physical_address_pdt v pdt s)"
proof -
  have "space_inv pdt s" using assms(1,2) by (simp add: space_inv_def)
  from vm.map_then_unmap[OF this assms(3,4), of real rw user executable]
  obtain s' s'' where "mmu_map_pages pdt real virt len rw user executable s = Some s'"
    "mmu_unmap_pages pdt virt len s' = Some s''" "space_inv pdt s''"
    "(\<lambda>v. mmu_walk pdt v s'') = (\<lambda>v. mmu_walk pdt v s)"
    using assms(5) by (auto simp: mmu_is_mapped_walk)
  then show ?thesis by (auto simp: space_inv_def mmu_get_physical_walk fun_eq_iff)
qed

text \<open>\<open>mmu_unmap_pages\<close> on well-formed tables makes exactly the given pages unmapped.\<close>

theorem mmu_unmap_pages_correct:
  fixes s :: "'a mmu_state_scheme"
  assumes "tables_wf pdt s" "mmu_lock s = Some False" "vpn virt + unat len \<le> 2 ^ 20"
  shows "\<exists>s'. mmu_unmap_pages pdt virt len s = Some s' \<and> tables_wf pdt s' \<and>
    (\<forall>v. mmu_is_mapped pdt v s' \<longleftrightarrow> mmu_is_mapped pdt v s \<and> \<not> (vpn virt \<le> vpn v \<and> vpn v < vpn virt + unat len))"
  using mmu_unmap_pages_walk[of pdt s virt len] assms by (auto simp: space_inv_def mmu_is_mapped_walk)

text \<open>what \<open>mmu_writeb\<close> stores at a mapped address \<open>mmu_readb\<close> reads back, other addresses read
  as before unless they share the physical byte, and the translation does not change (the byte is not
  part of the directory or its tables).\<close>

theorem mmu_writeb_readb:
  fixes s :: "'a mmu_state_scheme"
  assumes "mmu_walk pdt v s = Some r" "data_addr pdt s r"
  shows "mmu_readb pdt w (mmu_writeb pdt v b s) = (if mmu_walk pdt w s = Some r then b else mmu_readb pdt w s)
    \<and> mmu_walk pdt w (mmu_writeb pdt v b s) = mmu_walk pdt w s"
proof -
  have W: "mmu_writeb pdt v b s = s\<lparr>kmem := (kmem s)(r := b)\<rparr>"
    using assms(1) by (simp add: mmu_writeb_def store8_def)
  have walk: "mmu_walk pdt w (mmu_writeb pdt v b s) = mmu_walk pdt w s" for w
    unfolding W using assms(2) by (intro store_data_walk) (auto simp: data_addr_def split: if_splits)
  then show ?thesis unfolding mmu_readb_def by (auto simp: W split: option.split)
qed

text \<open>a 32-bit read that stays within a page returns the four bytes at the virtual addresses.\<close>

theorem mmu_readl_within_page:
  fixes s :: "'a mmu_state_scheme"
  assumes "unat v mod 4096 \<le> 4092"
  shows "mmu_readl pdt v s = ucast (mmu_readb pdt v s) OR push_bit 8 (ucast (mmu_readb pdt (v + 1) s))
    OR push_bit 16 (ucast (mmu_readb pdt (v + 2) s)) OR push_bit 24 (ucast (mmu_readb pdt (v + 3) s))"
proof (cases "mmu_walk pdt v s")
  case None
  have "mmu_walk pdt (v + of_nat k) s = None" if "k < 4" for k
    using None aligned_word_in_page(2)[of v k] assms that by (simp add: mmu_walk_pte vpn_eq_iff)
  from this[of 1] this[of 2] this[of 3] None show ?thesis by (simp add: mmu_readl_def mmu_readb_def)
next
  case (Some r)
  have "mmu_walk pdt (v + of_nat k) s = Some (r + of_nat k)" if "k < 4" for k
    using walk_in_page[OF _ Some, of k] assms that by simp
  from this[of 1] this[of 2] this[of 3] Some show ?thesis by (simp add: mmu_readl_def mmu_readb_def load32_def)
qed

text \<open>a 32-bit read at the last bytes of a page takes the remaining bytes from the physically
  next frame, whatever the next virtual page is mapped to.\<close>

theorem mmu_readl_across_pages:
  fixes s :: "'a mmu_state_scheme"
  assumes "mmu_walk pdt v s = Some r" "unat v mod 4096 = 4094"
    "mmu_walk pdt (v + 2) s = Some q" "q \<noteq> r + 2"
  shows "ucast (drop_bit 16 (mmu_readl pdt v s)) = kmem s (r + 2) \<and> mmu_readb pdt (v + 2) s = kmem s q"
  using assms by (simp add: mmu_readl_def mmu_readb_def ucast_load32)

text \<open>mapping one kernel page (\<open>user = false\<close>) clears the user bit of the directory entry, so
  every page already mapped in the same 4 MiB region loses its user access.\<close>

theorem mmu_map_kernel_page_revokes_user:
  fixes s :: "'a mmu_state_scheme"
  assumes "tables_wf pdt s" "mmu_lock s = Some False" "1 \<le> free_frames s"
    "user_access pdt v s" "pd_index v = pd_index virt"
  shows "\<exists>s'. mmu_map_pages pdt real virt 1 rw False executable s = Some s' \<and>
    mmu_is_mapped pdt v s' \<and> \<not> user_access pdt v s'"
proof -
  have "vpn virt < 2 ^ 20" using unsigned_less[of virt, where 'a = nat] by (simp add: vpn_def)
  then obtain s' where s': "mmu_map_pages pdt real virt 1 rw False executable s = Some s'"
    "\<And>v. mmu_walk pdt v s' = (if vpn virt \<le> vpn v \<and> vpn v < vpn virt + 1
       then Some (entry_base real + of_nat (vpn v - vpn virt) * 4096 + (v AND 0xFFF)) else mmu_walk pdt v s)"
    using mmu_map_pages_walk[of pdt s 1 virt real rw False executable] assms(1-3) by (auto simp: space_inv_def)
  let ?s1 = "s\<lparr>mmu_lock := Some True\<rparr>"
  obtain s2 where s2: "mmu_map_page pdt real virt rw False ?s1 = Some s2" "s' = mmu_release s2"
    using s'(1) assms(2) by (auto simp: mmu_map_pages_def mmu_acquire_def bind_Some_iff)
  have "\<exists>k<managed ?s1. \<not> allocated ?s1 k"
    using assms(3) used_pages_le[of s] by (intro free_page_exists) (simp add: free_frames_def)
  then have "\<not> entry_user (get_entry pdt (pd_index virt) s2)"
    using mmu_map_page_dir[OF _ _ s2(1)] assms(1) by simp
  then have "\<not> user_access pdt v s'" using s2(2) assms(5) by (simp add: user_access_def mmu_release_def)
  moreover have "mmu_is_mapped pdt v s'" using assms(4) s'(2)[of v] by (simp add: user_access_def mmu_is_mapped_walk)
  ultimately show ?thesis using s'(1) by blast
qed

text \<open>loading the kernel directory and restoring the previous one brings \<open>cr3\<close> back, and
  \<open>current_pdt\<close> agrees with it.\<close>

theorem mmu_load_restore_pdt:
  fixes s :: "'a mmu_state_scheme"
  assumes "kernel_pdt s \<noteq> NULL" "cr3 s \<noteq> NULL"
  shows "cr3 (mmu_load_kernel_pdt s) = kernel_pdt s \<and> current_pdt (mmu_load_kernel_pdt s) = kernel_pdt s
    \<and> cr3 (mmu_restore_pdt (mmu_load_kernel_pdt s)) = cr3 s
    \<and> current_pdt (mmu_restore_pdt (mmu_load_kernel_pdt s)) = cr3 s"
  using assms by (auto simp: mmu_load_kernel_pdt_def mmu_restore_pdt_def mmu_load_pdt_def Let_def)

section \<open>A concrete address space\<close>

text \<open>
  64 pages at 2 MiB; page 32 is a directory, page 33 its first table, which maps virtual
  pages 0 and 1 to the frames 34 and 36.
\<close>

definition bare_mmu :: mmu_state where
  "bare_mmu = \<lparr>kmem = store32 (store32 (\<lambda>_. 0) 0x200000 0xFFFFFFFF) 0x200004 0x17, lock_index = 2,
     bitmap_lock = Some False, bitmap = 0x200000, frames = 64, start_addr = 0x200000,
     kernel_end = 0xC0200000, mmu_lock = Some False, kernel_pdt = 0x220000, current_pdt = 0x220000,
     old_pdt = 0, cr3 = 0x220000\<rparr>"

definition sample_mmu :: mmu_state where
  "sample_mmu = upd_entry 0x221000 1 (\<lambda>_. 0x224007) (upd_entry 0x221000 0 (\<lambda>_. 0x222007)
     (upd_entry 0x220000 0 (\<lambda>_. 0x221007) bare_mmu))"

lemma bare_allocated: "k < 64 \<Longrightarrow> allocated bare_mmu k \<longleftrightarrow> k < 32 \<or> k \<in> {32, 33, 34, 36}"
proof -
  assume k: "k < 64"
  have w: "bitmap_word bare_mmu 0 = 0xFFFFFFFF" "bitmap_word bare_mmu 1 = 0x17"
    by (simp_all add: bitmap_word_def bare_mmu_def load32_store32_same load32_store32_other aligned4_def)
  show ?thesis
  proof (cases "k < 32")
    case True
    then show ?thesis using w bit_all_ones[of k] by (simp add: allocated_def)
  next
    case False
    then obtain j where j: "k = 32 + j" "j < 32" using k by (metis le_add_diff_inverse nat_add_left_cancel_less not_less numeral_Bit0)
    have "(0x17 :: u32) = 2 ^ 0 OR 2 ^ 1 OR 2 ^ 2 OR 2 ^ 4" by simp
    then have "bit (0x17 :: u32) j \<longleftrightarrow> j \<in> {0, 1, 2, 4}"
      by (simp only: bit_or_iff bit_exp_iff) auto
    moreover have "(32 + j) div 32 = 1" using j(2) by (simp add: div_nat_eqI)
    ultimately show ?thesis using w(2) False j by (auto simp: allocated_def)
  qed
qed

lemma bare_wf: "bitmap_wf bare_mmu" "managed bare_mmu = 64" "unlocked bare_mmu" "start_addr bare_mmu = 0x200000"
proof -
  show m: "managed bare_mmu = 64" by (simp add: managed_def bitmap_len_def bare_mmu_def)
  have "\<forall>k < 32. k < managed bare_mmu \<longrightarrow> allocated bare_mmu k" by (simp add: m bare_allocated)
  then show "bitmap_wf bare_mmu" unfolding bitmap_wf_def m by (simp add: bare_mmu_def)
qed (simp_all add: bare_mmu_def unlocked_def)

lemma bare_frames: "used_frame bare_mmu 0x220000" "used_frame bare_mmu 0x221000"
  unfolding used_frame_def
  by (rule exI[of _ 32], simp add: bare_wf bare_allocated page_of_def,
      rule exI[of _ 33], simp add: bare_wf bare_allocated page_of_def)

lemma bare_entries:
  assumes "page_aligned t" "t \<noteq> 0x200000" "i < 1024"
  shows "get_entry t i bare_mmu = 0"
proof -
  have "get_entry t i bare_mmu = get_entry t i (bare_mmu\<lparr>kmem := \<lambda>_. 0\<rparr>)"
  proof (rule get_entry_cong[OF assms(1,3)])
    fix a assume "entry_base a = t"
    then have "\<not> unat (a - 0x200000) < 4096"
      using in_page_iff[of "0x200000" a] assms(2) by (simp add: page_aligned_def)
    then have "\<not> unat (a - 0x200000) < 4" "\<not> unat (a - 0x200004) < 4"
    proof (simp, intro notI)
      assume "unat (a - 0x200004) < 4"
      then obtain j where j: "j < 4" "a = 0x200004 + of_nat j" by (auto simp: unat_diff_less_iff)
      then have "a - 0x200000 = of_nat (4 + j)" by simp
      moreover have "unat (of_nat (4 + j) :: ptr) = 4 + j" using j(1) by (intro unat_of_nat_small) simp
      ultimately have "unat (a - 0x200000) = 4 + j" by metis
      with j(1) \<open>\<not> unat (a - 0x200000) < 4096\<close> show False by simp
    qed
    then show "kmem bare_mmu a = kmem (bare_mmu\<lparr>kmem := \<lambda>_. 0\<rparr>) a" by (simp add: bare_mmu_def store32_outside)
  qed
  then show ?thesis by (simp add: get_entry_def load32_def)
qed

lemma sample_entries:
  "i < 1024 \<Longrightarrow> get_entry 0x220000 i sample_mmu = (if i = 0 then 0x221007 else 0)"
  "i < 1024 \<Longrightarrow> get_entry 0x221000 i sample_mmu = (if i = 0 then 0x222007 else if i = 1 then 0x224007 else 0)"
  by (simp_all add: sample_mmu_def get_upd_entry page_aligned_def bare_entries)

lemma sample_mmu_keeps:
  "bitmap_wf sample_mmu" "unlocked sample_mmu" "used_frame sample_mmu q = used_frame bare_mmu q"
  "used_pages sample_mmu = used_pages bare_mmu" "managed sample_mmu = 64"
proof -
  note k1 = upd_entry_keeps[OF bare_wf(1) bare_frames(1), of 0 "\<lambda>_. 0x221007"]
  have f1: "used_frame (upd_entry 0x220000 0 (\<lambda>_. 0x221007) bare_mmu) 0x221000" using k1(2) bare_frames(2) by simp
  note k2 = upd_entry_keeps[OF k1(1) f1, of 0 "\<lambda>_. 0x222007"]
  have f2: "used_frame (upd_entry 0x221000 0 (\<lambda>_. 0x222007) (upd_entry 0x220000 0 (\<lambda>_. 0x221007) bare_mmu)) 0x221000"
    using k2(2) f1 by simp
  note k3 = upd_entry_keeps[OF k2(1) f2, of 1 "\<lambda>_. 0x224007"]
  show "bitmap_wf sample_mmu" "unlocked sample_mmu" "used_frame sample_mmu q = used_frame bare_mmu q"
    "used_pages sample_mmu = used_pages bare_mmu" "managed sample_mmu = 64"
    using k1 k2 k3 bare_wf by (simp_all add: sample_mmu_def)
qed

lemma sample_entry_values [simp]:
  "entry_present 0x221007" "entry_present 0x222007" "entry_present 0x224007"
  "entry_user 0x221007" "entry_user 0x222007" "entry_user 0x224007"
  "entry_base 0x221007 = 0x221000" "entry_base 0x222007 = 0x222000" "entry_base 0x224007 = 0x224000"
  by (simp_all add: entry_present_def entry_user_def entry_base_def bit_iff_odd)

lemma sample_tables: "i < 1024 \<Longrightarrow> table_entry 0x220000 i sample_mmu = (if i = 0 then Some 0x221000 else None)"
  by (simp add: table_entry_def sample_entries)

lemma sample_tables_wf: "tables_wf 0x220000 sample_mmu" "mmu_lock sample_mmu = Some False"
  by (simp_all add: tables_wf_def sample_mmu_keeps bare_frames sample_tables)
    (simp add: sample_mmu_def upd_entry_def bare_mmu_def)

lemma sample_room: "1 \<le> free_frames sample_mmu"
proof -
  have "used_pages sample_mmu = {..<32} \<union> {32, 33, 34, 36}"
    unfolding sample_mmu_keeps(4) using bare_allocated bare_wf(2) by (auto simp: used_pages_def)
  then have "card (used_pages sample_mmu) \<le> card {..<32 :: nat} + card {32, 33, 34, 36 :: nat}"
    by (simp only: card_Un_le)
  then show ?thesis by (simp add: free_frames_def sample_mmu_keeps)
qed

lemma sample_walk:
  "mmu_walk 0x220000 0xFFE sample_mmu = Some 0x222FFE" "mmu_walk 0x220000 0x1000 sample_mmu = Some 0x224000"
  by (simp_all add: mmu_walk_def pd_index_def pt_index_def sample_entries)

theorem mmu_map_pages_correct_witness:
  "\<exists>s'. mmu_map_pages 0x220000 0x225000 0x3000 1 True True True sample_mmu = Some s' \<and>
     mmu_walk 0x220000 0x3123 s' = Some 0x225123 \<and> mmu_walk 0x220000 0xFFE s' = Some 0x222FFE"
proof -
  have "unat (1 :: u32) \<le> free_frames sample_mmu" "vpn 0x3000 + unat (1 :: u32) \<le> 2 ^ 20"
    using sample_room by (simp_all add: vpn_def)
  from mmu_map_pages_correct[OF sample_tables_wf this, of "0x225000" True True True] show ?thesis
    by (auto simp: vpn_def sample_walk entry_base_def)
qed

theorem mmu_map_unmap_restores_witness:
  "\<exists>s' s''. mmu_map_pages 0x220000 0x225000 0x3000 1 True True True sample_mmu = Some s' \<and>
     mmu_unmap_pages 0x220000 0x3000 1 s' = Some s'' \<and>
     mmu_get_physical_address_pdt 0x3123 0x220000 s'' = 0"
proof -
  have r: "unat (1 :: u32) \<le> free_frames sample_mmu" "vpn 0x3000 + unat (1 :: u32) \<le> 2 ^ 20"
    using sample_room by (simp_all add: vpn_def)
  have un: "\<not> mmu_is_mapped 0x220000 v sample_mmu" if "vpn v = 3" for v
    using that by (simp add: mmu_is_mapped_def sample_entries vpn_index(2,3))
  then have "\<forall>v. vpn 0x3000 \<le> vpn v \<and> vpn v < vpn 0x3000 + unat (1 :: u32) \<longrightarrow> \<not> mmu_is_mapped 0x220000 v sample_mmu"
    by (auto simp: vpn_def[of "0x3000"] intro!: un)
  from mmu_map_unmap_restores[OF sample_tables_wf r this, of "0x225000" True True True]
  obtain s' s'' where "mmu_map_pages 0x220000 0x225000 0x3000 1 True True True sample_mmu = Some s'"
    "mmu_unmap_pages 0x220000 0x3000 1 s' = Some s''"
    "mmu_get_physical_address_pdt 0x3123 0x220000 s'' = mmu_get_physical_address_pdt 0x3123 0x220000 sample_mmu"
    by blast
  moreover have "mmu_walk 0x220000 0x3123 sample_mmu = None"
    using un[of "0x3123"] by (simp add: mmu_is_mapped_walk vpn_def)
  ultimately show ?thesis by (auto simp: mmu_get_physical_walk)
qed

theorem mmu_unmap_pages_correct_witness:
  "\<exists>s'. mmu_unmap_pages 0x220000 0 1 sample_mmu = Some s' \<and> \<not> mmu_is_mapped 0x220000 0xFFE s'"
  using mmu_unmap_pages_correct[OF sample_tables_wf, of 0 1] by (auto simp: vpn_def)

theorem mmu_writeb_readb_witness:
  "mmu_readb 0x220000 0xFFE (mmu_writeb 0x220000 0xFFE 65 sample_mmu) = 65"
proof -
  have "entry_base 0x222FFE = 0x222000" by (simp add: entry_base_def)
  then have "data_addr 0x220000 sample_mmu 0x222FFE"
    by (simp add: data_addr_def page_aligned_def sample_tables)
  then show ?thesis using mmu_writeb_readb[OF sample_walk(1)] sample_walk(1) by simp
qed

theorem mmu_readl_within_page_witness:
  "mmu_readl 0x220000 0 sample_mmu = ucast (mmu_readb 0x220000 0 sample_mmu) OR
     push_bit 8 (ucast (mmu_readb 0x220000 1 sample_mmu)) OR push_bit 16 (ucast (mmu_readb 0x220000 2 sample_mmu)) OR
     push_bit 24 (ucast (mmu_readb 0x220000 3 sample_mmu))"
  using mmu_readl_within_page[of 0 "0x220000" sample_mmu] by simp

theorem mmu_readl_across_pages_witness:
  "ucast (drop_bit 16 (mmu_readl 0x220000 0xFFE sample_mmu)) = kmem sample_mmu 0x223000 \<and>
     mmu_readb 0x220000 0x1000 sample_mmu = kmem sample_mmu 0x224000"
  using mmu_readl_across_pages[OF sample_walk(1), of "0x224000"] sample_walk(2) by simp

theorem mmu_map_kernel_page_revokes_user_witness:
  "\<exists>s'. mmu_map_pages 0x220000 0x225000 0x3000 1 True False False sample_mmu = Some s' \<and>
     mmu_is_mapped 0x220000 0x1000 s' \<and> \<not> user_access 0x220000 0x1000 s'"
proof -
  have "user_access 0x220000 0x1000 sample_mmu"
    by (simp add: user_access_def mmu_is_mapped_walk sample_walk(2) pd_index_def pt_index_def sample_entries)
  moreover have "pd_index 0x1000 = pd_index 0x3000" by (simp add: pd_index_def)
  ultimately show ?thesis
    using mmu_map_kernel_page_revokes_user[OF sample_tables_wf sample_room] by blast
qed

theorem mmu_load_restore_pdt_witness:
  "cr3 (mmu_restore_pdt (mmu_load_kernel_pdt (bare_mmu\<lparr>cr3 := 0x223000\<rparr>))) = 0x223000"
  using mmu_load_restore_pdt[of "bare_mmu\<lparr>cr3 := 0x223000\<rparr>"] by (simp add: bare_mmu_def)

end
