(* ===== verification/Kheap.thy ===== *)
theory Kheap
  imports Kstring
begin

text \<open>
  \<^verbatim>\<open>kernel/modules/heap.c\<close>: the bitmap heap. A heap is a chain of blocks; a block starts with a
  20-byte header (\<open>next\<close>, \<open>size\<close>, \<open>used\<close>, \<open>block_size\<close>, \<open>lfb\<close>), followed by one byte per
  small block: 0 when it is free, otherwise the identifier of the allocation it belongs to.
  The operations act on the byte store the kernel addresses. The loops over the chain and
  over the bitmap are partial functions; the laws show that they end.
\<close>

section \<open>Header fields\<close>

record heap =
  first_block :: ptr

abbreviation (input) HB_SIZE :: u32 where "HB_SIZE \<equiv> 20"

definition hb_next :: "mem \<Rightarrow> ptr \<Rightarrow> ptr" where "hb_next m hb = load32 m hb"
definition hb_size :: "mem \<Rightarrow> ptr \<Rightarrow> u32" where "hb_size m hb = load32 m (hb + 4)"
definition hb_used :: "mem \<Rightarrow> ptr \<Rightarrow> u32" where "hb_used m hb = load32 m (hb + 8)"
definition hb_block_size :: "mem \<Rightarrow> ptr \<Rightarrow> u32" where "hb_block_size m hb = load32 m (hb + 12)"
definition hb_lfb :: "mem \<Rightarrow> ptr \<Rightarrow> u32" where "hb_lfb m hb = load32 m (hb + 16)"

text \<open>\<open>bitmap[x]\<close> with \<open>bitmap = (uint8_t *)&hb[1]\<close>.\<close>

definition hb_map :: "ptr \<Rightarrow> u32 \<Rightarrow> ptr" where "hb_map hb x = hb + HB_SIZE + x"

text \<open>\<open>for (x = 0; x < n; x++) p[x] = v\<close>\<close>

fun set_bytes :: "mem \<Rightarrow> ptr \<Rightarrow> u8 \<Rightarrow> nat \<Rightarrow> mem" where
  "set_bytes m p v 0 = m"
| "set_bytes m p v (Suc k) = set_bytes (store8 m p v) (p + 1) v k"

text \<open>\<open>n / b\<close> rounded up, as both functions of the source write it.\<close>

definition blocks_for :: "u32 \<Rightarrow> u32 \<Rightarrow> u32" where
  "blocks_for n b = (if n div b * b < n then n div b + 1 else n div b)"

section \<open>Operations\<close>

definition heap_init :: "heap \<Rightarrow> heap" where
  "heap_init this = this\<lparr>first_block := NULL\<rparr>"

definition heap_add_block :: "heap \<Rightarrow> ptr \<Rightarrow> u32 \<Rightarrow> u32 \<Rightarrow> mem \<Rightarrow> int \<times> heap \<times> mem" where
  "heap_add_block this addr sz block_size m =
     (let hb = addr;
          m1 = store32 m (hb + 4) (sz - HB_SIZE);
          m2 = store32 m1 (hb + 12) block_size;
          m3 = store32 m2 hb (first_block this);
          this' = this\<lparr>first_block := hb\<rparr>;
          block_count = hb_size m3 hb div hb_block_size m3 hb;
          m4 = set_bytes m3 (hb_map hb 0) 0 (unat block_count);
          reserved = blocks_for block_count block_size;
          m5 = set_bytes m4 (hb_map hb 0) 5 (unat reserved);
          m6 = store32 m5 (hb + 16) (reserved - 1);
          m7 = store32 m6 (hb + 8) reserved
      in (1, this', m7))"

partial_function (option) new_id_loop :: "u8 \<Rightarrow> u8 \<Rightarrow> u8 option" where
  "new_id_loop b c = (if c = b \<or> c = 0 then new_id_loop b (c + 1) else Some c)"

definition heap_get_new_id :: "u8 \<Rightarrow> u8 \<Rightarrow> u8 option" where
  "heap_get_new_id a b = new_id_loop b (a + 1)"

text \<open>The loop that counts free blocks from \<open>x\<close> on.\<close>

partial_function (option) count_free :: "mem \<Rightarrow> ptr \<Rightarrow> u32 \<Rightarrow> u32 \<Rightarrow> u32 \<Rightarrow> u32 \<Rightarrow> u32 option" where
  "count_free m hb block_count blocks_needed x y =
     (if m (hb_map hb (x + y)) = 0 \<and> y < blocks_needed \<and> x + y < block_count
      then count_free m hb block_count blocks_needed x (y + 1) else Some y)"

text \<open>
  The search of one heap block from index \<open>x\<close> on; the result is the start index of the
  run found, or none when the search ends.
\<close>

partial_function (option) scan_block ::
  "mem \<Rightarrow> ptr \<Rightarrow> u32 \<Rightarrow> u32 \<Rightarrow> bool \<Rightarrow> u32 \<Rightarrow> u32 option option" where
  "scan_block m hb block_count blocks_needed wrapped x =
     (if x = hb_lfb m hb then Some None
      else if x \<ge> block_count \<and> wrapped then Some None
      else let x' = (if x \<ge> block_count then 0 else x);
               wrapped' = (wrapped \<or> x \<ge> block_count)
           in if m (hb_map hb x') = 0 then do {
                y \<leftarrow> count_free m hb block_count blocks_needed x' 0;
                if y = blocks_needed then Some (Some x')
                else scan_block m hb block_count blocks_needed wrapped' (x' + (y - 1) + 1) }
              else scan_block m hb block_count blocks_needed wrapped' (x' + 1))"

definition take_run :: "mem \<Rightarrow> ptr \<Rightarrow> u32 \<Rightarrow> u32 \<Rightarrow> (ptr \<times> mem) option" where
  "take_run m hb x y = do {
     new_id \<leftarrow> heap_get_new_id (m (hb_map hb (x - 1))) (m (hb_map hb (x + y)));
     let m1 = set_bytes m (hb_map hb x) new_id (unat y);
     let m2 = store32 m1 (hb + 16) (x + y - 2);
     let m3 = store32 m2 (hb + 8) (hb_used m2 hb + y);
     Some (x * hb_block_size m3 hb + hb_map hb 0, m3) }"

definition first_index :: "mem \<Rightarrow> ptr \<Rightarrow> u32 \<Rightarrow> u32" where
  "first_index m hb block_count = (if hb_lfb m hb + 1 \<ge> block_count then 0 else hb_lfb m hb + 1)"

partial_function (option) heap_alloc_from :: "u32 \<Rightarrow> mem \<Rightarrow> ptr \<Rightarrow> (ptr \<times> mem) option" where
  "heap_alloc_from sz m hb =
     (if hb = NULL then Some (NULL, m)
      else if hb_size m hb - hb_used m hb * hb_block_size m hb \<ge> sz then do {
        let block_count = hb_size m hb div hb_block_size m hb;
        let blocks_needed = blocks_for sz (hb_block_size m hb);
        r \<leftarrow> scan_block m hb block_count blocks_needed False (first_index m hb block_count);
        case r of Some x \<Rightarrow> take_run m hb x blocks_needed
        | None \<Rightarrow> heap_alloc_from sz m (hb_next m hb) }
      else heap_alloc_from sz m (hb_next m hb))"

definition heap_alloc :: "heap \<Rightarrow> u32 \<Rightarrow> mem \<Rightarrow> (ptr \<times> mem) option" where
  "heap_alloc this sz m = heap_alloc_from sz m (first_block this)"

text \<open>The block of the chain an address lies in.\<close>

partial_function (option) find_block :: "mem \<Rightarrow> ptr \<Rightarrow> ptr \<Rightarrow> ptr option" where
  "find_block m addr hb =
     (if hb = NULL then Some NULL
      else if addr > hb \<and> addr < hb + HB_SIZE + hb_size m hb then Some hb
      else find_block m addr (hb_next m hb))"

definition heap_allocated_size :: "heap \<Rightarrow> ptr \<Rightarrow> mem \<Rightarrow> u32 option" where
  "heap_allocated_size this addr m =
     (if addr = NULL then Some 0
      else do {
        hb \<leftarrow> find_block m addr (first_block this);
        if hb = NULL then Some 0
        else
          let x1 = (addr - hb_map hb 0) div hb_block_size m hb * hb_block_size m hb + hb_map hb 0
          in Some (hb_block_size m hb - (addr - x1)) })"

partial_function (option) clear_run :: "mem \<Rightarrow> ptr \<Rightarrow> u8 \<Rightarrow> u32 \<Rightarrow> u32 \<Rightarrow> (u32 \<times> mem) option" where
  "clear_run m hb ident mx x =
     (if m (hb_map hb x) = ident \<and> x < mx
      then clear_run (store8 m (hb_map hb x) 0) hb ident mx (x + 1) else Some (x, m))"

definition heap_free :: "heap \<Rightarrow> ptr \<Rightarrow> mem \<Rightarrow> (bool \<times> mem) option" where
  "heap_free this addr m = do {
     hb \<leftarrow> find_block m addr (first_block this);
     if hb = NULL then Some (False, m)
     else do {
       let bi = (addr - hb_map hb 0) div hb_block_size m hb;
       (x, m1) \<leftarrow> clear_run m hb (m (hb_map hb bi)) (hb_size m hb div hb_block_size m hb) bi;
       Some (True, store32 m1 (hb + 8) (hb_used m1 hb - (x - bi))) } }"

declare new_id_loop.simps [code] count_free.simps [code] scan_block.simps [code]
  heap_alloc_from.simps [code] find_block.simps [code] clear_run.simps [code]

end
