(* ===== verification/Kheap_Laws.thy ===== *)
theory Kheap_Laws
  imports Kheap Kstring_Laws
begin

text \<open>
  Correctness of the bitmap heap: the search of a block ends and finds only free runs, an
  allocation lies inside its block, clear of the header, the bitmap and every other
  allocation, and freeing it restores the bitmap.
\<close>

section \<open>Cells of the bitmap\<close>

definition cell :: "mem \<Rightarrow> ptr \<Rightarrow> nat \<Rightarrow> u8" where
  "cell m hb i = m (hb_map hb (of_nat i))"

definition hb_count :: "mem \<Rightarrow> ptr \<Rightarrow> nat" where
  "hb_count m hb = unat (hb_size m hb) div unat (hb_block_size m hb)"

definition hb_reserved :: "mem \<Rightarrow> ptr \<Rightarrow> nat" where
  "hb_reserved m hb = unat (blocks_for (hb_size m hb div hb_block_size m hb) (hb_block_size m hb))"

text \<open>A heap block: inside the address space, with the cells of its own bitmap taken.\<close>

definition block_ok :: "mem \<Rightarrow> ptr \<Rightarrow> bool" where
  "block_ok m hb \<longleftrightarrow> hb \<noteq> NULL \<and> unat hb + 20 + unat (hb_size m hb) < 2 ^ 32 \<and> hb_block_size m hb \<noteq> 0
     \<and> 0 < hb_count m hb \<and> (\<forall>i < hb_reserved m hb. i < hb_count m hb \<longrightarrow> cell m hb i \<noteq> 0)"

definition run_free_at :: "mem \<Rightarrow> ptr \<Rightarrow> nat \<Rightarrow> nat \<Rightarrow> bool" where
  "run_free_at m hb x n \<longleftrightarrow> x + n \<le> hb_count m hb \<and> (\<forall>i<n. cell m hb (x + i) = 0)"

lemma set_bytes_fill: "k \<le> 2 ^ 32 \<Longrightarrow> set_bytes m p v k = fill m p v k"
proof (induction k arbitrary: m p)
  case 0 then show ?case by (simp add: fill_def)
next
  case (Suc k) then show ?case by (simp add: fill_Suc)
qed

lemma unat_hb_count: "unat (hb_size m hb div hb_block_size m hb) = hb_count m hb"
  by (simp add: hb_count_def unat_div)

lemma hb_count_bounds:
  assumes "block_ok m hb"
  shows "hb_count m hb * unat (hb_block_size m hb) \<le> unat (hb_size m hb)"
    "hb_count m hb \<le> unat (hb_size m hb)" "hb_count m hb < 2 ^ 32" "0 < unat (hb_block_size m hb)"
proof -
  show "hb_count m hb * unat (hb_block_size m hb) \<le> unat (hb_size m hb)" by (simp add: hb_count_def)
  show "hb_count m hb \<le> unat (hb_size m hb)" by (simp add: hb_count_def)
  then show "hb_count m hb < 2 ^ 32" using unsigned_less[of "hb_size m hb", where 'a = nat] by simp
  show "0 < unat (hb_block_size m hb)" using assms by (simp add: block_ok_def unat_gt_0)
qed

lemma hb_map_nat:
  assumes "block_ok m hb" "i \<le> unat (hb_size m hb)"
  shows "unat (hb_map hb (of_nat i)) = unat hb + 20 + i"
proof -
  have "hb_map hb (of_nat i) = hb + of_nat (20 + i)" by (simp add: hb_map_def)
  moreover have "unat (hb + of_nat (20 + i)) = unat hb + (20 + i)"
    using assms by (intro unat_add_of_nat) (simp add: block_ok_def)
  ultimately show ?thesis by simp
qed

lemma blocks_for_enough:
  assumes "b \<noteq> 0"
  shows "unat n \<le> unat (blocks_for n b) * unat b" "n \<noteq> 0 \<Longrightarrow> blocks_for n b \<noteq> 0"
proof -
  let ?q = "unat n div unat b"
  have b: "0 < unat b" using assms by (simp add: unat_gt_0)
  have q: "unat (n div b) = ?q" by (simp add: unat_div)
  have "?q * unat b \<le> unat n" by simp
  then have "unat (n div b) * unat b < 2 ^ LENGTH(32)"
    unfolding q using unsigned_less[of n, where 'a = nat] by (rule order.strict_trans1)
  then have "unat (n div b * b) = ?q * unat b" using unat_mult_lem[of "n div b" b] q by simp
  then have cond: "n div b * b < n \<longleftrightarrow> ?q * unat b < unat n" by (simp add: word_less_nat_alt)
  have "unat (n div b + 1) = ?q + 1" if "?q * unat b < unat n"
  proof -
    have "?q * 1 \<le> ?q * unat b" using b by (intro mult_le_mono2) simp
    then have "?q < unat n" using that by linarith
    then have "?q + 1 < 2 ^ 32" using unsigned_less[of n, where 'a = nat] by simp
    then show ?thesis using unat_add_no_wrap[of "n div b" 1] q by simp
  qed
  then have "unat (blocks_for n b) = (if ?q * unat b < unat n then ?q + 1 else ?q)"
    by (simp add: blocks_for_def cond q)
  moreover have "unat n < ?q * unat b + unat b" using b dividend_less_div_times[of "unat b" "unat n"] by simp
  ultimately show "unat n \<le> unat (blocks_for n b) * unat b" by (simp add: algebra_simps)
  then show "blocks_for n b \<noteq> 0" if "n \<noteq> 0" using that by (auto simp: unat_eq_0)
qed

section \<open>Searching\<close>

lemma count_free_spec:
  assumes "X + Y \<le> C" "Y \<le> N" "C < 2 ^ 32" "N < 2 ^ 32" "\<forall>i<Y. cell m hb (X + i) = 0"
  shows "\<exists>Z. count_free m hb (of_nat C) (of_nat N) (of_nat X) (of_nat Y) = Some (of_nat Z) \<and> Y \<le> Z \<and> Z \<le> N \<and>
    X + Z \<le> C \<and> (\<forall>i<Z. cell m hb (X + i) = 0) \<and> (Z = N \<or> X + Z = C \<or> cell m hb (X + Z) \<noteq> 0)"
  using assms
proof (induction "N - Y" arbitrary: Y)
  case 0
  then show ?case by (subst count_free.simps) auto
next
  case (Suc k)
  have xy: "(of_nat X :: u32) + of_nat Y = of_nat (X + Y)" by simp
  have lt: "(of_nat Y :: u32) < of_nat N" "(of_nat (X + Y) :: u32) < of_nat C \<longleftrightarrow> X + Y < C"
    using Suc.hyps(2) Suc.prems by (simp_all add: word_less_nat_alt unat_of_nat_small del: of_nat_add)
  show ?case
  proof (cases "cell m hb (X + Y) = 0 \<and> X + Y < C")
    case True
    have "\<forall>i<Suc Y. cell m hb (X + i) = 0" using Suc.prems(5) True by (auto simp: less_Suc_eq)
    moreover have "k = N - Suc Y" "X + Suc Y \<le> C" "Suc Y \<le> N" using Suc.hyps(2) True by simp_all
    ultimately obtain Z where Z: "count_free m hb (of_nat C) (of_nat N) (of_nat X) (of_nat (Suc Y)) = Some (of_nat Z)"
      "Suc Y \<le> Z" "Z \<le> N" "X + Z \<le> C" "\<forall>i<Z. cell m hb (X + i) = 0" "Z = N \<or> X + Z = C \<or> cell m hb (X + Z) \<noteq> 0"
      using Suc.hyps(1)[of "Suc Y"] Suc.prems(3,4) by blast
    moreover have "count_free m hb (of_nat C) (of_nat N) (of_nat X) (of_nat Y) =
        count_free m hb (of_nat C) (of_nat N) (of_nat X) (of_nat (Suc Y))"
      by (subst count_free.simps) (use True lt in \<open>simp add: cell_def add.commute\<close>)
    ultimately show ?thesis by (intro exI[of _ Z]) simp
  next
    case False
    then have "count_free m hb (of_nat C) (of_nat N) (of_nat X) (of_nat Y) = Some (of_nat Y)"
      by (subst count_free.simps) (use lt in \<open>auto simp: cell_def\<close>)
    then show ?thesis using Suc.prems False by (intro exI[of _ Y]) auto
  qed
qed

lemma scan_block_spec:
  assumes ok: "block_ok m hb" and N: "0 < N" "N < 2 ^ 32"
  shows "x \<le> 2 * hb_count m hb \<Longrightarrow> x < 2 ^ 32 \<Longrightarrow> \<exists>r. scan_block m hb (of_nat (hb_count m hb)) (of_nat N) wrapped (of_nat x) = Some r \<and>
    (\<forall>y. r = Some y \<longrightarrow> run_free_at m hb (unat y) N \<and> (y = hb_lfb m hb \<longrightarrow> y = 0))"
proof (induction "(if wrapped then 0 else hb_count m hb + 1) + (hb_count m hb - x)" arbitrary: x wrapped rule: less_induct)
  case less
  let ?C = "hb_count m hb"
  have C: "?C < 2 ^ 32" "0 < ?C" using hb_count_bounds(3)[OF ok] ok by (simp_all add: block_ok_def)
  have ge: "(of_nat x :: u32) \<ge> of_nat ?C \<longleftrightarrow> ?C \<le> x"
    using C less.prems(2) by (simp add: word_le_nat_alt unat_of_nat_small)
  show ?case
  proof (cases "of_nat x = hb_lfb m hb \<or> (?C \<le> x \<and> wrapped)")
    case True
    then show ?thesis by (subst scan_block.simps) (use ge in auto)
  next
    case False
    define x' where "x' = (if ?C \<le> x then 0 else x)"
    define w' where "w' = (wrapped \<or> ?C \<le> x)"
    have x': "x' < ?C" using C by (auto simp: x'_def)
    have ge': "of_nat ?C \<le> (of_nat x :: u32) \<longleftrightarrow> ?C \<le> x" using ge by simp
    have step: "scan_block m hb (of_nat ?C) (of_nat N) wrapped (of_nat x) =
      (if cell m hb x' = 0 then do {
         y \<leftarrow> count_free m hb (of_nat ?C) (of_nat N) (of_nat x') 0;
         if y = of_nat N then Some (Some (of_nat x'))
         else scan_block m hb (of_nat ?C) (of_nat N) w' (of_nat x' + (y - 1) + 1) }
       else scan_block m hb (of_nat ?C) (of_nat N) w' (of_nat x' + 1))"
    proof (cases "?C \<le> x")
      case True
      then have e: "x' = 0" "w' = True" by (simp_all add: x'_def w'_def)
      show ?thesis unfolding e
        by (subst scan_block.simps) (use False ge' True in \<open>simp add: cell_def Let_def cong: if_cong\<close>)
    next
      case less: False
      then have e: "x' = x" "w' = wrapped" by (simp_all add: x'_def w'_def)
      show ?thesis unfolding e
        by (subst scan_block.simps) (use False ge' less in \<open>simp add: cell_def Let_def\<close>)
    qed
    have rec: "\<exists>r. scan_block m hb (of_nat ?C) (of_nat N) w' (of_nat z) = Some r \<and>
      (\<forall>y. r = Some y \<longrightarrow> run_free_at m hb (unat y) N \<and> (y = hb_lfb m hb \<longrightarrow> y = 0))"
      if "x' < z" "z \<le> ?C" for z
      using that False x' C by (intro less.hyps) (auto simp: x'_def w'_def split: if_splits)
    show ?thesis
    proof (cases "cell m hb x' = 0")
      case True
      obtain Z where Z: "count_free m hb (of_nat ?C) (of_nat N) (of_nat x') 0 = Some (of_nat Z)" "Z \<le> N"
        "x' + Z \<le> ?C" "\<forall>i<Z. cell m hb (x' + i) = 0" "Z = N \<or> x' + Z = ?C \<or> cell m hb (x' + Z) \<noteq> 0"
        using count_free_spec[of x' 0 ?C N m hb] x' C(1) N(2) by auto
      have "Z \<noteq> 0"
      proof
        assume "Z = 0"
        with Z(5) N(1) x' True show False by simp
      qed
      have eq: "(of_nat Z :: u32) = of_nat N \<longleftrightarrow> Z = N"
        using Z(2) N(2) by (intro of_nat_eq_small) simp_all
      show ?thesis
      proof (cases "Z = N")
        case True
        have "unat (of_nat x' :: u32) = x'" using x' C by (simp add: unat_of_nat_small)
        moreover have "of_nat x' = hb_lfb m hb \<Longrightarrow> (of_nat x' :: u32) = 0"
          using False by (auto simp: x'_def split: if_splits)
        ultimately show ?thesis
          using True step \<open>cell m hb x' = 0\<close> Z(1,3,4) by (auto simp: run_free_at_def)
      next
        case False
        have "of_nat x' + ((of_nat Z :: u32) - 1) + 1 = of_nat (x' + Z)" by simp
        then show ?thesis
          using rec[of "x' + Z"] False step \<open>cell m hb x' = 0\<close> Z(1,3) eq \<open>Z \<noteq> 0\<close> by simp
      qed
    next
      case False
      then show ?thesis using step rec[of "Suc x'"] x' by (simp add: add.commute)
    qed
  qed
qed

section \<open>Identifiers\<close>

lemma new_id_loop_stop: "c \<noteq> b \<Longrightarrow> c \<noteq> 0 \<Longrightarrow> new_id_loop b c = Some c"
  by (subst new_id_loop.simps) simp

lemma new_id_loop_skip: "c = b \<or> c = 0 \<Longrightarrow> new_id_loop b c = new_id_loop b (c + 1)"
  by (subst new_id_loop.simps) simp

lemma heap_get_new_id_spec: "\<exists>c. heap_get_new_id a b = Some c \<and> c \<noteq> 0 \<and> c \<noteq> b \<and> c \<noteq> a"
proof -
  have ne: "a + 1 \<noteq> a" "a + 1 + 1 \<noteq> a" "a + 1 + 1 + 1 \<noteq> a" "a + 1 + 1 \<noteq> a + 1" "a + 1 + 1 + 1 \<noteq> a + 1"
    "a + 1 + 1 + 1 \<noteq> a + 1 + 1" by (simp_all add: add.assoc)
  consider "a + 1 \<noteq> b \<and> a + 1 \<noteq> 0" | "a + 1 = b \<or> a + 1 = 0" "a + 1 + 1 \<noteq> b \<and> a + 1 + 1 \<noteq> 0"
    | "a + 1 = b \<or> a + 1 = 0" "a + 1 + 1 = b \<or> a + 1 + 1 = 0" by blast
  then show ?thesis
  proof cases
    case 1
    then show ?thesis using ne(1) by (auto simp: heap_get_new_id_def new_id_loop_stop)
  next
    case 2
    then have "heap_get_new_id a b = Some (a + 1 + 1)"
      by (metis heap_get_new_id_def new_id_loop_skip new_id_loop_stop)
    with 2 ne show ?thesis by blast
  next
    case 3
    have "a + 1 + 1 + 1 \<noteq> b" "a + 1 + 1 + 1 \<noteq> 0" using 3 ne by metis+
    moreover from this 3 have "heap_get_new_id a b = Some (a + 1 + 1 + 1)"
      by (metis heap_get_new_id_def new_id_loop_skip new_id_loop_stop)
    ultimately show ?thesis using ne by blast
  qed
qed

section \<open>Taking a run\<close>

lemma hb_map_off: "hb_map hb (of_nat i) = hb + of_nat (20 + i)"
  by (simp add: hb_map_def)

lemma hb_fields_off:
  "hb_next m hb = load32 m (hb + of_nat 0)" "hb_size m hb = load32 m (hb + of_nat 4)"
  "hb_used m hb = load32 m (hb + of_nat 8)" "hb_block_size m hb = load32 m (hb + of_nat 12)"
  "hb_lfb m hb = load32 m (hb + of_nat 16)"
  by (simp_all add: hb_next_def hb_size_def hb_used_def hb_block_size_def hb_lfb_def)

text \<open>
  \<open>taken m hb x n ident m'\<close>: \<open>m'\<close> is \<open>m\<close> with the free run of \<open>n\<close> cells from \<open>x\<close> given the
  identifier \<open>ident\<close> and the header words \<open>used\<close> (offset 8) and \<open>lfb\<close> (offset 16) updated.
\<close>

definition taken :: "mem \<Rightarrow> ptr \<Rightarrow> nat \<Rightarrow> nat \<Rightarrow> u8 \<Rightarrow> mem \<Rightarrow> bool" where
  "taken m hb x n ident m' \<longleftrightarrow> ident \<noteq> 0 \<and> ident \<noteq> cell m hb (x + n)
     \<and> (0 < x \<longrightarrow> ident \<noteq> cell m hb (x - 1))
     \<and> hb_used m' hb = hb_used m hb + of_nat n
     \<and> (\<forall>k < 2 ^ 32. \<not> (8 \<le> k \<and> k < 12) \<longrightarrow> \<not> (16 \<le> k \<and> k < 20) \<longrightarrow>
          m' (hb + of_nat k) = (if 20 + x \<le> k \<and> k < 20 + x + n then ident else m (hb + of_nat k)))"

lemma taken_bytes:
  assumes "taken m hb x n ident m'" "k < 2 ^ 32" "k < 8 \<or> 12 \<le> k \<and> k < 16 \<or> 20 \<le> k"
  shows "m' (hb + of_nat k) = (if 20 + x \<le> k \<and> k < 20 + x + n then ident else m (hb + of_nat k))"
  using assms unfolding taken_def by auto

lemma taken_cell: "taken m hb x n ident m' \<Longrightarrow> 20 + i < 2 ^ 32 \<Longrightarrow>
    cell m' hb i = (if x \<le> i \<and> i < x + n then ident else cell m hb i)"
  unfolding cell_def hb_map_off by (subst taken_bytes) auto

lemma taken_fields:
  assumes "taken m hb x n ident m'"
  shows "hb_next m' hb = hb_next m hb" "hb_size m' hb = hb_size m hb" "hb_block_size m' hb = hb_block_size m hb"
proof -
  have "load32 m' (hb + of_nat k) = load32 m (hb + of_nat k)" if "k + 4 \<le> 8 \<or> k = 12" for k
  proof (rule load32_cong)
    fix j :: nat assume "j < 4"
    then have "m' (hb + of_nat (k + j)) = m (hb + of_nat (k + j))"
      using that by (subst taken_bytes[OF assms]) auto
    then show "m' (hb + of_nat k + of_nat j) = m (hb + of_nat k + of_nat j)" by (simp add: add.assoc)
  qed
  from this[of 0] this[of 4] this[of 12]
  show "hb_next m' hb = hb_next m hb" "hb_size m' hb = hb_size m hb" "hb_block_size m' hb = hb_block_size m hb"
    by (simp_all add: hb_fields_off)
qed

lemma take_run_spec:
  assumes ok: "block_ok m hb" and run: "run_free_at m hb x n" and n: "0 < n"
  obtains ident m' where
    "take_run m hb (of_nat x) (of_nat n) = Some (hb + of_nat (20 + x * unat (hb_block_size m hb)), m')"
    "taken m hb x n ident m'"
proof -
  note bounds = hb_count_bounds[OF ok]
  have xn: "x + n \<le> hb_count m hb" using run by (simp add: run_free_at_def)
  have room: "20 + (x + n) < 2 ^ 32" using xn bounds(2) ok unfolding block_ok_def by linarith
  have un: "unat (of_nat n :: u32) = n" using room by (intro unat_of_nat_small) simp
  obtain ident where ident: "heap_get_new_id (m (hb_map hb (of_nat x - 1))) (m (hb_map hb (of_nat x + of_nat n))) = Some ident"
    "ident \<noteq> 0" "ident \<noteq> cell m hb (x + n)" "ident \<noteq> m (hb_map hb (of_nat x - 1))"
    using heap_get_new_id_spec by (force simp: cell_def)
  define m1 where "m1 = fill m (hb + of_nat (20 + x)) ident n"
  define m2 where "m2 = store32 m1 (hb + of_nat 16) (of_nat x + of_nat n - 2)"
  define m3 where "m3 = store32 m2 (hb + of_nat 8) (hb_used m2 hb + of_nat n)"
  have used: "hb_used m2 hb = hb_used m hb"
    unfolding hb_fields_off m2_def m1_def using room by (simp add: load32_store32_off load32_fill_off del: of_nat_add of_nat_numeral)
  have bs: "hb_block_size m3 hb = hb_block_size m hb"
    unfolding hb_fields_off m3_def m2_def m1_def using room
    by (simp add: load32_store32_off load32_fill_off del: of_nat_add of_nat_numeral)
  have t: "taken m hb x n ident m3"
    unfolding taken_def
  proof (intro conjI allI impI)
    show "hb_used m3 hb = hb_used m hb + of_nat n"
      unfolding m3_def used by (simp add: hb_used_def load32_store32_same)
    show "ident \<noteq> cell m hb (x - 1)" if "0 < x" using that ident(4) by (simp add: cell_def of_nat_diff)
    fix k assume k: "k < (2 :: nat) ^ 32" "\<not> (8 \<le> k \<and> k < 12)" "\<not> (16 \<le> k \<and> k < 20)"
    have "m3 (hb + of_nat k) = m1 (hb + of_nat k)"
      unfolding m3_def m2_def using k by (simp add: store32_off del: of_nat_numeral)
    then show "m3 (hb + of_nat k) = (if 20 + x \<le> k \<and> k < 20 + x + n then ident else m (hb + of_nat k))"
      unfolding m1_def using k(1) room by (subst (asm) fill_off) simp_all
  qed (use ident in simp_all)
  have "take_run m hb (of_nat x) (of_nat n) = Some (of_nat x * hb_block_size m3 hb + hb_map hb 0, m3)"
  proof -
    have "set_bytes m (hb_map hb (of_nat x)) ident n = m1"
      using room unfolding m1_def hb_map_off by (intro set_bytes_fill) simp
    then show ?thesis by (simp add: take_run_def ident(1) un m3_def m2_def Let_def)
  qed
  moreover have "of_nat x * hb_block_size m3 hb + hb_map hb 0 = hb + of_nat (20 + x * unat (hb_block_size m hb))"
    by (simp add: bs hb_map_def algebra_simps)
  ultimately show thesis using that t by simp
qed

section \<open>The chain of blocks\<close>

fun chain :: "mem \<Rightarrow> ptr \<Rightarrow> ptr list \<Rightarrow> bool" where
  "chain m p [] \<longleftrightarrow> p = NULL"
| "chain m p (h # hs) \<longleftrightarrow> p = h \<and> block_ok m h \<and> chain m (hb_next m h) hs"

definition in_block :: "mem \<Rightarrow> ptr \<Rightarrow> ptr \<Rightarrow> bool" where
  "in_block m h a \<longleftrightarrow> unat h \<le> unat a \<and> unat a < unat h + 20 + unat (hb_size m h)"

definition heap_wf :: "heap \<Rightarrow> mem \<Rightarrow> ptr list \<Rightarrow> bool" where
  "heap_wf this m hs \<longleftrightarrow> chain m (first_block this) hs \<and>
     (\<forall>h \<in> set hs. \<forall>h' \<in> set hs. \<forall>a. in_block m h a \<longrightarrow> in_block m h' a \<longrightarrow> h = h')"

lemma chain_block_ok: "chain m p hs \<Longrightarrow> h \<in> set hs \<Longrightarrow> block_ok m h"
  by (induction hs arbitrary: p) auto

text \<open>What an allocation of \<open>sz\<close> bytes did: block \<open>h\<close>, cells \<open>x\<close> to \<open>x + n - 1\<close>.\<close>

definition allocated_run :: "mem \<Rightarrow> u32 \<Rightarrow> ptr \<Rightarrow> nat \<Rightarrow> nat \<Rightarrow> u8 \<Rightarrow> ptr \<Rightarrow> mem \<Rightarrow> bool" where
  "allocated_run m sz h x n ident r m' \<longleftrightarrow> n = unat (blocks_for sz (hb_block_size m h)) \<and> run_free_at m h x n \<and>
     r = h + of_nat (20 + x * unat (hb_block_size m h)) \<and> taken m h x n ident m' \<and> (of_nat x = hb_lfb m h \<longrightarrow> x = 0)"

lemma heap_alloc_from_spec:
  assumes "chain m p hs" "sz \<noteq> 0"
  shows "heap_alloc_from sz m p = Some (NULL, m) \<or>
    (\<exists>h \<in> set hs. \<exists>x n ident r m'. heap_alloc_from sz m p = Some (r, m') \<and> allocated_run m sz h x n ident r m')"
  using assms
proof (induction hs arbitrary: p)
  case Nil
  then show ?case by (subst heap_alloc_from.simps) simp
next
  case (Cons h hs)
  have p: "p = h" "block_ok m h" "chain m (hb_next m h) hs" using Cons.prems(1) by simp_all
  have nz: "h \<noteq> NULL" using p(2) by (simp add: block_ok_def)
  note IH = Cons.IH[OF p(3) Cons.prems(2)]
  let ?C = "hb_count m h" and ?N = "unat (blocks_for sz (hb_block_size m h))"
  have N: "0 < ?N" "?N < 2 ^ 32"
    using blocks_for_enough(2)[of "hb_block_size m h" sz] p(2) Cons.prems(2)
    by (simp_all add: block_ok_def unat_gt_0 unat_u32_less)
  have fi: "\<exists>k \<le> ?C. first_index m h (hb_size m h div hb_block_size m h) = of_nat k"
  proof (cases "hb_lfb m h + 1 \<ge> hb_size m h div hb_block_size m h")
    case False
    then have "unat (hb_lfb m h + 1) < ?C" by (simp add: word_le_nat_alt unat_hb_count)
    then show ?thesis using False by (intro exI[of _ "unat (hb_lfb m h + 1)"]) (simp add: first_index_def)
  qed (auto simp: first_index_def intro!: exI[of _ 0])
  then obtain k where k: "k \<le> ?C" "first_index m h (hb_size m h div hb_block_size m h) = of_nat k" by blast
  have cw: "(of_nat ?C :: u32) = hb_size m h div hb_block_size m h" by (metis unat_hb_count of_nat_unat ucast_id)
  obtain r where r: "scan_block m h (hb_size m h div hb_block_size m h) (blocks_for sz (hb_block_size m h)) False (of_nat k) = Some r"
    "\<And>y. r = Some y \<Longrightarrow> run_free_at m h (unat y) ?N \<and> (y = hb_lfb m h \<longrightarrow> y = 0)"
    using scan_block_spec[OF p(2) N, of k False] k(1) hb_count_bounds(3)[OF p(2)] by (auto simp: cw)
  show ?case
  proof (cases "hb_size m h - hb_used m h * hb_block_size m h \<ge> sz")
    case False
    then have "heap_alloc_from sz m p = heap_alloc_from sz m (hb_next m h)"
      by (subst heap_alloc_from.simps) (simp add: p(1) nz)
    then show ?thesis using IH by (simp only:) (meson list.set_intros(2))
  next
    case fits: True
    show ?thesis
    proof (cases r)
      case None
      then have "heap_alloc_from sz m p = heap_alloc_from sz m (hb_next m h)"
        by (subst heap_alloc_from.simps) (use fits r(1) k(2) in \<open>simp add: p(1) nz\<close>)
      then show ?thesis using IH by (simp only:) (meson list.set_intros(2))
    next
      case (Some y)
      have run: "run_free_at m h (unat y) ?N" and lfb: "of_nat (unat y) = hb_lfb m h \<longrightarrow> unat y = 0"
        using r(2)[OF Some] by auto
      obtain ident m' where t: "take_run m h (of_nat (unat y)) (of_nat ?N) =
          Some (h + of_nat (20 + unat y * unat (hb_block_size m h)), m')" "taken m h (unat y) ?N ident m'"
        using take_run_spec[OF p(2) run N(1)] by blast
      have "heap_alloc_from sz m p = take_run m h y (blocks_for sz (hb_block_size m h))"
        by (subst heap_alloc_from.simps) (use fits r(1) k(2) Some in \<open>simp add: p(1) nz\<close>)
      then show ?thesis using t run lfb unfolding allocated_run_def by (intro disjI2 bexI[of _ h] exI conjI) auto
    qed
  qed
qed

section \<open>Allocation keeps the heap well formed\<close>

lemma block_off:
  assumes "in_block m h a"
  obtains k where "a = h + of_nat k" "k < 20 + unat (hb_size m h)" "unat a = unat h + k"
proof
  show "a = h + of_nat (unat a - unat h)" using assms by (simp add: in_block_def of_nat_diff)
  show "unat a - unat h < 20 + unat (hb_size m h)" "unat a = unat h + (unat a - unat h)"
    using assms by (auto simp: in_block_def)
qed

lemma off_in_block:
  assumes "block_ok m h" "k < 20 + unat (hb_size m h)"
  shows "in_block m h (h + of_nat k)" "unat (h + of_nat k) = unat h + k"
proof -
  show *: "unat (h + of_nat k) = unat h + k" using assms by (intro unat_add_of_nat) (simp add: block_ok_def)
  show "in_block m h (h + of_nat k)" using assms(2) by (simp add: in_block_def *)
qed

lemma taken_outside_block:
  assumes "block_ok m h" "taken m h x n ident m'" "x + n \<le> hb_count m h" "\<not> in_block m h a"
  shows "m' a = m a"
proof -
  let ?k = "unat (a - h)"
  have a: "a = h + of_nat ?k" by simp
  have "\<not> ?k < 20 + unat (hb_size m h)" using off_in_block(1)[OF assms(1), of ?k] assms(4) a by metis
  then have "20 + x + n \<le> ?k" using assms(3) hb_count_bounds(2)[OF assms(1)] by linarith
  then have "m' (h + of_nat ?k) = m (h + of_nat ?k)"
    using taken_bytes[OF assms(2), of ?k] unat_u32_less[of "a - h"] by auto
  then show ?thesis using a by metis
qed

lemma header_in_block: "block_ok m h \<Longrightarrow> k < 20 \<Longrightarrow> in_block m h (h + of_nat k)"
  using off_in_block(1) by simp

lemma block_unchanged:
  assumes ok: "block_ok m h" and same: "\<And>a. in_block m h a \<Longrightarrow> m' a = m a"
  shows "hb_next m' h = hb_next m h" "hb_size m' h = hb_size m h" "hb_block_size m' h = hb_block_size m h"
    "block_ok m' h"
proof -
  have f: "load32 m' (h + of_nat k) = load32 m (h + of_nat k)" if "k + 4 \<le> 20" for k
  proof (rule load32_cong)
    fix j :: nat assume "j < 4"
    then have "m' (h + of_nat (k + j)) = m (h + of_nat (k + j))"
      using that by (intro same header_in_block[OF ok]) simp
    then show "m' (h + of_nat k + of_nat j) = m (h + of_nat k + of_nat j)" by (simp add: add.assoc)
  qed
  show n: "hb_next m' h = hb_next m h" and s: "hb_size m' h = hb_size m h" and b: "hb_block_size m' h = hb_block_size m h"
    unfolding hb_fields_off by (rule f; simp)+
  have c: "hb_count m' h = hb_count m h" "hb_reserved m' h = hb_reserved m h"
    by (simp_all add: hb_count_def hb_reserved_def s b)
  have "cell m' h i = cell m h i" if "i < hb_count m h" for i
    unfolding cell_def hb_map_off using that hb_count_bounds(2)[OF ok] by (intro same off_in_block(1)[OF ok]) simp
  then show "block_ok m' h" using ok unfolding block_ok_def by (simp add: s b c)
qed

lemma taken_block_ok:
  assumes "block_ok m h" "taken m h x n ident m'" "x + n \<le> hb_count m h"
  shows "block_ok m' h"
proof -
  note f = taken_fields[OF assms(2)]
  have c: "hb_count m' h = hb_count m h" "hb_reserved m' h = hb_reserved m h"
    by (simp_all add: hb_count_def hb_reserved_def f)
  have "cell m' h i \<noteq> 0" if "i < hb_reserved m h" "i < hb_count m h" for i
  proof -
    have "20 + i < 2 ^ 32" using that(2) hb_count_bounds(2)[OF assms(1)] assms(1) by (simp add: block_ok_def)
    moreover have "cell m h i \<noteq> 0" using that assms(1) by (simp add: block_ok_def)
    ultimately show ?thesis using taken_cell[OF assms(2)] assms(2) by (simp add: taken_def)
  qed
  then show ?thesis using assms(1) unfolding block_ok_def by (simp add: f c)
qed

lemma heap_wf_taken:
  assumes wf: "heap_wf this m hs" and h: "h \<in> set hs" and t: "taken m h x n ident m'" "x + n \<le> hb_count m h"
  shows "heap_wf this m' hs"
proof -
  have ch: "chain m (first_block this) hs" and
    dis: "\<And>g g' a. g \<in> set hs \<Longrightarrow> g' \<in> set hs \<Longrightarrow> in_block m g a \<Longrightarrow> in_block m g' a \<Longrightarrow> g = g'"
    using wf unfolding heap_wf_def by blast+
  have okh: "block_ok m h" using chain_block_ok[OF ch h] .
  have blk: "hb_next m' g = hb_next m g" "hb_size m' g = hb_size m g" "block_ok m' g" if g: "g \<in> set hs" for g
  proof -
    have "hb_next m' g = hb_next m g \<and> hb_size m' g = hb_size m g \<and> block_ok m' g"
    proof (cases "g = h")
      case True
      then show ?thesis using taken_fields[OF t(1)] taken_block_ok[OF okh t] by simp
    next
      case False
      have "m' a = m a" if "in_block m g a" for a
        using taken_outside_block[OF okh t] dis[OF g h that] False by blast
      then show ?thesis using block_unchanged[OF chain_block_ok[OF ch g]] by blast
    qed
    then show "hb_next m' g = hb_next m g" "hb_size m' g = hb_size m g" "block_ok m' g" by blast+
  qed
  have "set gs \<subseteq> set hs \<Longrightarrow> chain m p gs \<Longrightarrow> chain m' p gs" for p gs
    by (induction gs arbitrary: p) (auto simp: blk)
  moreover have "in_block m' g a = in_block m g a" if "g \<in> set hs" for g a using blk(2)[OF that] by (simp add: in_block_def)
  ultimately show ?thesis unfolding heap_wf_def using ch dis by blast
qed

section \<open>Freeing\<close>

lemma find_block_spec:
  assumes "chain m p hs" "h \<in> set hs" "addr > h" "in_block m h addr"
    and "\<And>g. g \<in> set hs \<Longrightarrow> in_block m g addr \<Longrightarrow> g = h"
  shows "find_block m addr p = Some h"
  using assms
proof (induction hs arbitrary: p)
  case (Cons g gs)
  have p: "p = g" "block_ok m g" "chain m (hb_next m g) gs" using Cons.prems(1) by simp_all
  have nz: "g \<noteq> NULL" using p(2) by (simp add: block_ok_def)
  have top: "unat (g + 20 + hb_size m g) = unat g + 20 + unat (hb_size m g)"
    using off_less[of 0 0 0] p(2) unat_add_of_nat[of g "20 + unat (hb_size m g)"] by (simp add: block_ok_def add.assoc)
  have test: "addr > g \<and> addr < g + 20 + hb_size m g \<longleftrightarrow> addr > g \<and> in_block m g addr"
    unfolding in_block_def word_less_nat_alt top by auto
  show ?case
  proof (cases "g = h")
    case True
    then have "addr > g \<and> addr < g + 20 + hb_size m g" using test Cons.prems(3,4) by simp
    then show ?thesis using True by (subst find_block.simps) (simp add: p(1) nz)
  next
    case False
    then have "\<not> (addr > g \<and> addr < g + 20 + hb_size m g)" using test Cons.prems(5) by auto
    then have "find_block m addr p = find_block m addr (hb_next m g)"
      by (subst find_block.simps) (auto simp: p(1) nz)
    moreover have "find_block m addr (hb_next m g) = Some h"
      using p(3) Cons.prems(2-5) False by (intro Cons.IH) auto
    ultimately show ?thesis by simp
  qed
next
  case Nil
  from Nil.prems(2) show ?case by simp
qed

lemma clear_run_spec:
  assumes "\<forall>i. x \<le> i \<and> i < e \<longrightarrow> cell m hb i = ident" "e = C \<or> cell m hb e \<noteq> ident" "x \<le> e" "e \<le> C" "20 + C < 2 ^ 32"
  shows "clear_run m hb ident (of_nat C) (of_nat x) = Some (of_nat e, fill m (hb + of_nat (20 + x)) 0 (e - x))"
  using assms
proof (induction "e - x" arbitrary: x m)
  case 0
  then have "x = e" by simp
  have lt: "(of_nat e :: u32) < of_nat C \<longleftrightarrow> e < C"
    using 0 by (simp add: word_less_nat_alt unat_of_nat_small)
  have "\<not> (m (hb_map hb (of_nat e)) = ident \<and> e < C)" using 0 by (auto simp: cell_def)
  then show ?case unfolding \<open>x = e\<close> by (subst clear_run.simps) (use lt in \<open>auto simp: fill_def\<close>)
next
  case (Suc d)
  then have xe: "x < e" by simp
  have lt: "(of_nat x :: u32) < of_nat C"
    using xe Suc.prems(4,5) by (simp add: word_less_nat_alt unat_of_nat_small)
  let ?m = "store8 m (hb_map hb (of_nat x)) 0"
  have cell': "cell ?m hb i = cell m hb i" if "i \<noteq> x" "i \<le> C" for i
  proof -
    have "hb + of_nat (20 + i) \<noteq> hb + of_nat (20 + x)"
      using that xe Suc.prems(4,5) word_add_of_nat_inj[of hb "20 + i" "20 + x"] by auto
    then show ?thesis by (simp add: cell_def hb_map_off store8_def del: of_nat_add)
  qed
  have "clear_run m hb ident (of_nat C) (of_nat x) = clear_run ?m hb ident (of_nat C) (of_nat (Suc x))"
    by (subst clear_run.simps) (use Suc.prems(1) xe lt in \<open>simp add: cell_def add.commute\<close>)
  also have "\<dots> = Some (of_nat e, fill ?m (hb + of_nat (20 + Suc x)) 0 (e - Suc x))"
    using Suc.hyps(2) Suc.prems xe cell' by (intro Suc.hyps(1)) auto
  also have "fill ?m (hb + of_nat (20 + Suc x)) 0 (e - Suc x) = fill m (hb + of_nat (20 + x)) 0 (e - x)"
    using fill_Suc[of "e - Suc x" m "hb_map hb (of_nat x)" 0] xe Suc.prems(4,5)
    by (simp add: hb_map_off Suc_diff_Suc add.assoc)
  finally show ?case .
qed

lemma heap_alloc_region:
  assumes ok: "block_ok m h" and run: "allocated_run m sz h x n ident r m'" and sz: "sz \<noteq> 0"
  shows "unat r = unat h + 20 + x * unat (hb_block_size m h)"
    "unat h + 20 + hb_count m h \<le> unat r" "unat r + unat sz \<le> unat h + 20 + unat (hb_size m h)"
    "0 < n" "x + n \<le> hb_count m h"
proof -
  let ?b = "unat (hb_block_size m h)"
  note bounds = hb_count_bounds[OF ok]
  have n: "n = unat (blocks_for sz (hb_block_size m h))" and xn: "x + n \<le> hb_count m h"
    and free: "\<forall>i<n. cell m h (x + i) = 0" and r: "r = h + of_nat (20 + x * ?b)"
    using run by (simp_all add: allocated_run_def run_free_at_def)
  show "x + n \<le> hb_count m h" by (rule xn)
  have bs: "hb_block_size m h \<noteq> 0" using ok by (simp add: block_ok_def)
  show "0 < n" using blocks_for_enough(2)[OF bs sz] n by (simp add: unat_gt_0)
  have "unat sz \<le> n * ?b" using blocks_for_enough(1)[OF bs] n by simp
  moreover have "(x + n) * ?b \<le> hb_count m h * ?b" using xn by (rule mult_le_mono1)
  ultimately have fit: "x * ?b + unat sz \<le> unat (hb_size m h)"
    using bounds(1) by (simp add: add_mult_distrib)
  have u: "unat r = unat h + (20 + x * ?b)"
    unfolding r using fit ok by (intro unat_add_of_nat) (simp add: block_ok_def)
  then show "unat r = unat h + 20 + x * ?b" by simp
  show "unat r + unat sz \<le> unat h + 20 + unat (hb_size m h)" using u fit by simp
  have "hb_reserved m h \<le> x"
  proof (rule ccontr)
    assume "\<not> hb_reserved m h \<le> x"
    then have "cell m h x \<noteq> 0" using ok xn \<open>0 < n\<close> by (simp add: block_ok_def)
    moreover have "cell m h x = 0" using free \<open>0 < n\<close> by (metis add.right_neutral)
    ultimately show False by simp
  qed
  then have "hb_reserved m h * ?b \<le> x * ?b" by (rule mult_le_mono1)
  moreover have "hb_count m h \<le> hb_reserved m h * ?b"
    using blocks_for_enough(1)[OF bs, of "hb_size m h div hb_block_size m h"] by (simp add: unat_hb_count hb_reserved_def)
  ultimately show "unat h + 20 + hb_count m h \<le> unat r" using u by linarith
qed

text \<open>The block and the cell of a pointer that was just allocated.\<close>

lemma alloc_found:
  assumes wf: "heap_wf this m hs" and h: "h \<in> set hs" and run: "allocated_run m sz h x n ident r m'" and sz: "sz \<noteq> 0"
  shows "find_block m' r (first_block this) = Some h" "hb_block_size m' h = hb_block_size m h"
    "(r - hb_map h 0) div hb_block_size m h = of_nat x"
proof -
  have ch: "chain m (first_block this) hs" using wf by (simp add: heap_wf_def)
  have ok: "block_ok m h" using chain_block_ok[OF ch h] .
  note reg = heap_alloc_region[OF ok run sz] and bounds = hb_count_bounds[OF ok]
  let ?b = "unat (hb_block_size m h)"
  have t: "taken m h x n ident m'" and r: "r = h + of_nat (20 + x * ?b)"
    using run unfolding allocated_run_def by blast+
  note f = taken_fields[OF t]
  show "hb_block_size m' h = hb_block_size m h" by (rule f)
  have wf': "heap_wf this m' hs" using heap_wf_taken[OF wf h t reg(5)] .
  have "0 < unat sz" using sz by (simp add: unat_gt_0)
  then have inb: "in_block m' h r" "r > h"
    using reg(1,3) unfolding in_block_def f word_less_nat_alt by linarith+
  show "find_block m' r (first_block this) = Some h"
    using wf' h inb unfolding heap_wf_def by (intro find_block_spec) blast+
  have xb: "x * ?b < 2 ^ 32" using reg(1) unat_u32_less[of r] by simp
  have "r - hb_map h 0 = of_nat (x * ?b)" by (simp add: r hb_map_def)
  moreover have "unat (of_nat (x * ?b) :: u32) = x * ?b" using xb by (intro unat_of_nat_small) simp
  ultimately have "unat ((r - hb_map h 0) div hb_block_size m h) = x"
    using bounds(4) by (simp add: unat_div del: of_nat_mult)
  then show "(r - hb_map h 0) div hb_block_size m h = of_nat x" by (metis of_nat_unat ucast_id)
qed

section \<open>Adding a block\<close>

lemma blocks_for_le: "b \<noteq> 0 \<Longrightarrow> blocks_for n b \<le> n"
proof -
  assume b: "b \<noteq> 0"
  have "unat n div unat b * 1 \<le> unat n div unat b * unat b"
    using b by (intro mult_le_mono2) (simp add: Suc_le_eq unat_gt_0)
  moreover have "unat n div unat b * unat b \<le> unat n" by simp
  moreover have "unat (n div b * b) = unat n div unat b * unat b"
    using unat_mult_lem[of "n div b" b] le_less_trans[OF div_times_less_eq_dividend unat_u32_less[of n]]
    by (simp add: unat_div)
  moreover have "unat (n div b + 1) \<le> unat n div unat b + 1"
    using unat_word_ariths(1)[of "n div b" 1] by (simp add: unat_div)
  moreover have "unat (n div b) = unat n div unat b" by (simp add: unat_div)
  ultimately show ?thesis
    unfolding blocks_for_def word_le_nat_alt word_less_nat_alt by (simp only: split: if_split) linarith
qed

lemma heap_add_block_bytes:
  assumes "20 \<le> unat sz" "unat addr + unat sz < 2 ^ 32" "b \<noteq> 0"
  defines "cnt \<equiv> (unat sz - 20) div unat b"
  defines "res \<equiv> unat (blocks_for (of_nat cnt) b)"
  obtains m' where "heap_add_block this addr sz b m = (1, this\<lparr>first_block := addr\<rparr>, m')"
    "hb_next m' addr = first_block this" "unat (hb_size m' addr) = unat sz - 20" "hb_block_size m' addr = b"
    "hb_used m' addr = of_nat res" "res \<le> cnt"
    "\<And>k. k < 2 ^ 32 \<Longrightarrow> 20 \<le> k \<Longrightarrow> m' (addr + of_nat k) =
      (if k < 20 + res then 5 else if k < 20 + cnt then 0 else m (addr + of_nat k))"
proof -
  have cnt: "cnt \<le> unat sz - 20" by (simp add: cnt_def)
  have c32: "20 + cnt < 2 ^ 32" using cnt assms(1,2) by linarith
  have res: "res \<le> cnt"
    using blocks_for_le[OF assms(3), of "of_nat cnt"] c32 by (simp add: res_def word_le_nat_alt unat_of_nat_small)
  let ?p = "\<lambda>k. addr + of_nat k :: ptr"
  define m1 where "m1 = store32 m (?p 4) (sz - 20)"
  define m2 where "m2 = store32 m1 (?p 12) b"
  define m3 where "m3 = store32 m2 (?p 0) (first_block this)"
  define m4 where "m4 = fill m3 (?p 20) 0 cnt"
  define m5 where "m5 = fill m4 (?p 20) 5 res"
  define m6 where "m6 = store32 m5 (?p 16) (of_nat res - 1)"
  define m7 where "m7 = store32 m6 (?p 8) (of_nat res)"
  have hi: "load32 m7 (?p k) = load32 m3 (?p k)" if "k = 0 \<or> k = 4 \<or> k = 12" for k
  proof -
    have "load32 m7 (?p k) = load32 m6 (?p k)" unfolding m7_def using that by (intro load32_store32_off) auto
    also have "\<dots> = load32 m5 (?p k)" unfolding m6_def using that by (intro load32_store32_off) auto
    also have "\<dots> = load32 m4 (?p k)" unfolding m5_def using that c32 res by (intro load32_fill_off) auto
    also have "\<dots> = load32 m3 (?p k)" unfolding m4_def using that c32 by (intro load32_fill_off) auto
    finally show ?thesis .
  qed
  have f3: "load32 m3 (?p 0) = first_block this" "load32 m3 (?p 4) = sz - 20" "load32 m3 (?p 12) = b"
  proof -
    have "load32 m3 (?p 4) = load32 m2 (?p 4)" "load32 m3 (?p 12) = load32 m2 (?p 12)"
      unfolding m3_def by (intro load32_store32_off; simp)+
    moreover have "load32 m2 (?p 4) = load32 m1 (?p 4)" unfolding m2_def by (intro load32_store32_off) simp_all
    ultimately show "load32 m3 (?p 0) = first_block this" "load32 m3 (?p 4) = sz - 20" "load32 m3 (?p 12) = b"
      by (simp_all add: m3_def m2_def m1_def load32_store32_same)
  qed
  have count: "hb_size m3 addr div hb_block_size m3 addr = of_nat cnt"
  proof -
    have "unat ((sz - 20) div b) = cnt" using assms(1) by (simp add: cnt_def unat_div unat_sub word_le_nat_alt)
    then show ?thesis using f3 by (metis hb_fields_off(2,4) of_nat_unat ucast_id)
  qed
  have res_eq: "unat (blocks_for (of_nat cnt) b) = res" by (simp add: res_def)
  have uc: "unat (of_nat cnt :: u32) = cnt" using c32 by (intro unat_of_nat_small) simp
  have m3_alt: "m3 = store32 (store32 (store32 m (addr + 4) (sz - 20)) (addr + 12) b) addr (first_block this)"
    by (simp add: m3_def m2_def m1_def)
  have "heap_add_block this addr sz b m = (1, this\<lparr>first_block := addr\<rparr>, m7)"
  proof -
    have "set_bytes m3 (hb_map addr 0) 0 cnt = m4" "set_bytes m4 (hb_map addr 0) 5 res = m5"
      using c32 res by (simp_all add: set_bytes_fill m4_def m5_def hb_map_def)
    moreover have "blocks_for (of_nat cnt) b = of_nat res" by (metis res_def of_nat_unat ucast_id)
    ultimately show ?thesis
      unfolding heap_add_block_def Let_def m3_alt[symmetric] count uc
      using res_eq by (simp add: m7_def m6_def)
  qed
  moreover have "m7 (?p k) = (if k < 20 + res then 5 else if k < 20 + cnt then 0 else m (?p k))"
    if k: "k < 2 ^ 32" "20 \<le> k" for k
  proof -
    have "m7 (?p k) = m5 (?p k)" unfolding m7_def m6_def using k by (simp add: store32_off del: of_nat_numeral)
    also have "\<dots> = (if k < 20 + res then 5 else m4 (?p k))" unfolding m5_def using k c32 res by (subst fill_off) auto
    also have "m4 (?p k) = (if k < 20 + cnt then 0 else m3 (?p k))" unfolding m4_def using k c32 by (subst fill_off) auto
    also have "m3 (?p k) = m2 (?p k)" unfolding m3_def using k by (intro store32_off) simp_all
    also have "m2 (?p k) = m1 (?p k)" unfolding m2_def using k by (intro store32_off) simp_all
    also have "m1 (?p k) = m (?p k)" unfolding m1_def using k by (intro store32_off) simp_all
    finally show ?thesis by simp
  qed
  moreover have "unat (sz - 20) = unat sz - 20" using assms(1) by (simp add: unat_sub word_le_nat_alt)
  moreover have "hb_used m7 addr = of_nat res" by (simp add: hb_used_def m7_def load32_store32_same)
  ultimately show thesis using that[of m7] hi[of 0] hi[of 4] hi[of 12] f3 res by (simp only: hb_fields_off) simp
qed

section \<open>Properties\<close>


text \<open>C38: freeing a pointer \<open>heap_alloc\<close> returned, right after the allocation, succeeds and restores
  every byte of memory except the search hint \<open>lfb\<close> of the block's header.\<close>

theorem heap_free_undoes_alloc:
  assumes "heap_wf this m hs" "sz \<noteq> 0" "heap_alloc this sz m = Some (r, m')" "r \<noteq> NULL"
  shows "\<exists>h \<in> set hs. \<exists>m''. heap_free this r m' = Some (True, m'') \<and>
    (\<forall>a. \<not> unat (a - (h + 16)) < 4 \<longrightarrow> m'' a = m a)"
proof -
  have ch: "chain m (first_block this) hs" using assms(1) by (simp add: heap_wf_def)
  obtain h x n ident where h: "h \<in> set hs" and run: "allocated_run m sz h x n ident r m'"
    using heap_alloc_from_spec[OF ch assms(2)] assms(3,4) unfolding heap_alloc_def by auto
  have ok: "block_ok m h" using chain_block_ok[OF ch h] .
  note reg = heap_alloc_region[OF ok run assms(2)] and bounds = hb_count_bounds[OF ok]
  let ?b = "unat (hb_block_size m h)"
  have t: "taken m h x n ident m'" and free: "run_free_at m h x n" and r: "r = h + of_nat (20 + x * ?b)"
    using run unfolding allocated_run_def by blast+
  note f = taken_fields[OF t]
  have wf': "heap_wf this m' hs" using heap_wf_taken[OF assms(1) h t reg(5)] .
  have C: "20 + hb_count m h < 2 ^ 32" using bounds(2) ok by (simp add: block_ok_def)
  note found = alloc_found[OF assms(1) h run assms(2)]
  have find: "find_block m' r (first_block this) = Some h" by (rule found(1))
  have bi: "(r - hb_map h 0) div hb_block_size m' h = of_nat x" using found(2,3) by simp
  have cells: "cell m' h i = (if x \<le> i \<and> i < x + n then ident else cell m h i)" if "i \<le> hb_count m h" for i
    using that C by (intro taken_cell[OF t]) simp
  have e: "x + n = hb_count m h \<or> cell m' h (x + n) \<noteq> ident"
    using cells[OF reg(5)] t by (auto simp: taken_def)
  have cw: "hb_size m' h div hb_block_size m' h = of_nat (hb_count m h)"
    by (metis f(2,3) unat_hb_count of_nat_unat ucast_id)
  let ?m1 = "fill m' (h + of_nat (20 + x)) 0 n"
  have clear: "clear_run m' h ident (of_nat (hb_count m h)) (of_nat x) = Some (of_nat (x + n), ?m1)"
    using clear_run_spec[of x "x + n" m' h ident "hb_count m h"] cells e reg(5) C by simp
  have id: "m' (hb_map h (of_nat x)) = ident" using cells[of x] reg(4,5) by (simp add: cell_def)
  have used: "hb_used ?m1 h - (of_nat (x + n) - of_nat x) = hb_used m h"
  proof -
    have "hb_used ?m1 h = hb_used m' h"
      unfolding hb_fields_off using reg(5) C by (intro load32_fill_off) simp_all
    then show ?thesis using t by (simp add: taken_def)
  qed
  define m2 where "m2 = store32 ?m1 (h + of_nat 8) (hb_used m h)"
  have free_eq: "heap_free this r m' = Some (True, m2)"
    using used by (simp add: heap_free_def find bi id cw clear m2_def)
      (metis (no_types) find ok block_ok_def)
  moreover have "m2 a = m a" if a: "\<not> unat (a - (h + 16)) < 4" for a
  proof -
    let ?k = "unat (a - h)"
    have k: "a = h + of_nat ?k" "?k < 2 ^ 32" using unat_u32_less by simp_all
    have "\<not> (16 \<le> ?k \<and> ?k < 20)"
      using a off_less[of ?k 16 4 h] k by simp
    moreover have "m2 (h + of_nat ?k) = m (h + of_nat ?k)" if "8 \<le> ?k \<and> ?k < 12"
    proof -
      have "load32 m2 (h + of_nat 8) = load32 m (h + of_nat 8)"
        unfolding m2_def by (simp add: load32_store32_same hb_used_def)
      then have "m2 (h + of_nat 8 + of_nat (?k - 8)) = m (h + of_nat 8 + of_nat (?k - 8))"
        using that by (intro load32_eq_bytes) auto
      then show ?thesis using that by (simp add: add.assoc flip: of_nat_add)
    qed
    moreover have "m2 (h + of_nat ?k) = m (h + of_nat ?k)" if "\<not> (8 \<le> ?k \<and> ?k < 12)" "\<not> (16 \<le> ?k \<and> ?k < 20)"
    proof -
      have "m2 (h + of_nat ?k) = ?m1 (h + of_nat ?k)"
        unfolding m2_def using that k(2) by (intro store32_off) auto
      also have "\<dots> = (if 20 + x \<le> ?k \<and> ?k < 20 + x + n then 0 else m' (h + of_nat ?k))"
        using k(2) reg(5) C by (intro fill_off) simp_all
      also have "\<dots> = m (h + of_nat ?k)"
      proof (cases "20 + x \<le> ?k \<and> ?k < 20 + x + n")
        case True
        then have "?k - (20 + x) < n" by linarith
        then have "cell m h (x + (?k - (20 + x))) = 0" using free by (simp only: run_free_at_def)
        moreover have "20 + (x + (?k - (20 + x))) = ?k" using True by simp
        ultimately have "m (h + of_nat ?k) = 0" unfolding cell_def hb_map_off by metis
        with True show ?thesis by simp
      next
        case False
        then show ?thesis using t that k(2) unfolding taken_def by auto
      qed
      finally show ?thesis .
    qed
    ultimately show ?thesis using k(1) by metis
  qed
  ultimately show ?thesis using h by blast
qed

text \<open>\<open>heap_add_block\<close> links a fresh block into a well-formed heap: the result is well formed, and
  the free cells of the new block are exactly the ones behind those that cover its bitmap.\<close>

theorem heap_add_block_correct:
  assumes "heap_wf this m hs" "addr \<noteq> NULL" "b \<noteq> 0" "20 + unat b \<le> unat sz" "unat addr + unat sz < 2 ^ 32"
    and fresh: "\<forall>h \<in> set hs. \<forall>a. in_block m h a \<longrightarrow> \<not> (unat addr \<le> unat a \<and> unat a < unat addr + unat sz)"
  shows "\<exists>this' m'. heap_add_block this addr sz b m = (1, this', m') \<and> heap_wf this' m' (addr # hs) \<and>
    (\<forall>i < hb_count m' addr. cell m' addr i = 0 \<longleftrightarrow> hb_reserved m' addr \<le> i)"
proof -
  have sz: "20 \<le> unat sz" using assms(4) by simp
  obtain m' cnt res where m': "heap_add_block this addr sz b m = (1, this\<lparr>first_block := addr\<rparr>, m')"
    "hb_next m' addr = first_block this" "unat (hb_size m' addr) = unat sz - 20" "hb_block_size m' addr = b"
    "cnt = (unat sz - 20) div unat b" "res = unat (blocks_for (of_nat cnt) b)" "res \<le> cnt"
    "\<And>k. k < 2 ^ 32 \<Longrightarrow> 20 \<le> k \<Longrightarrow> m' (addr + of_nat k) =
      (if k < 20 + res then 5 else if k < 20 + cnt then 0 else m (addr + of_nat k))"
    using heap_add_block_bytes[OF sz assms(5,3)] by metis
  have cnt: "hb_count m' addr = cnt" by (simp add: hb_count_def m'(3,4,5))
  have "(of_nat cnt :: u32) = hb_size m' addr div b" using unat_hb_count[of m' addr] m'(4) cnt by (metis of_nat_unat ucast_id)
  then have res: "hb_reserved m' addr = res" by (simp add: hb_reserved_def m'(4,6))
  have cells: "cell m' addr i = (if i < res then 5 else 0)" if "i < cnt" for i
  proof -
    have "cnt \<le> unat sz - 20" by (simp add: m'(5))
    then have "20 + i < 2 ^ 32" using that sz assms(5) by linarith
    then show ?thesis unfolding cell_def hb_map_off using m'(8)[of "20 + i"] that by simp
  qed
  have "0 < cnt" using assms(3,4) by (simp add: m'(5) div_greater_zero_iff unat_gt_0)
  then have new: "block_ok m' addr"
    unfolding block_ok_def using assms(2,3,5) sz cells by (simp add: cnt res m'(3,4))
  have out: "m' a = m a" if a: "\<not> (unat addr \<le> unat a \<and> unat a < unat addr + unat sz)" for a
  proof -
    let ?k = "unat (a - addr)"
    have k: "a = addr + of_nat ?k" by simp
    have "unat sz \<le> ?k"
    proof (rule ccontr)
      assume "\<not> unat sz \<le> ?k"
      then have "unat (addr + of_nat ?k) = unat addr + ?k" using assms(5) by (intro unat_add_of_nat) simp
      with k have "unat a = unat addr + ?k" by metis
      with a \<open>\<not> unat sz \<le> ?k\<close> show False by linarith
    qed
    moreover have "20 + cnt \<le> unat sz" using sz div_le_dividend[of "unat sz - 20" "unat b"] unfolding m'(5) by linarith
    ultimately have "m' (addr + of_nat ?k) = m (addr + of_nat ?k)"
      using m'(7) m'(8)[of ?k] unat_u32_less[of "a - addr"] by simp
    then show ?thesis using k by metis
  qed
  have same: "m' a = m a" if "h \<in> set hs" "in_block m h a" for h a using out fresh that by blast
  have ch: "chain m (first_block this) hs" and
    dis: "\<And>g g' a. g \<in> set hs \<Longrightarrow> g' \<in> set hs \<Longrightarrow> in_block m g a \<Longrightarrow> in_block m g' a \<Longrightarrow> g = g'"
    using assms(1) unfolding heap_wf_def by blast+
  note old = block_unchanged[OF chain_block_ok[OF ch] same]
  have "set gs \<subseteq> set hs \<Longrightarrow> chain m p gs \<Longrightarrow> chain m' p gs" for p gs
    by (induction gs arbitrary: p) (auto simp: old)
  then have "chain m' addr (addr # hs)" using ch new m'(2) by simp
  moreover have "in_block m' g a = in_block m g a" if "g \<in> set hs" for g a using old(2)[OF that that] by (simp add: in_block_def)
  moreover have "in_block m' addr a \<longleftrightarrow> unat addr \<le> unat a \<and> unat a < unat addr + unat sz" for a
    using sz by (simp add: in_block_def m'(3))
  ultimately have "heap_wf (this\<lparr>first_block := addr\<rparr>) m' (addr # hs)"
    unfolding heap_wf_def using dis fresh by auto
  moreover have "\<forall>i < hb_count m' addr. cell m' addr i = 0 \<longleftrightarrow> hb_reserved m' addr \<le> i"
    using cells by (auto simp: cnt res)
  ultimately show ?thesis using m'(1) by blast
qed

text \<open>the search hint \<open>lfb\<close> hides a cell: an allocation never starts at the cell \<open>lfb\<close> (unless that
  is cell 0), so a free run that starts there is not found.\<close>

theorem heap_alloc_never_starts_at_lfb:
  assumes "heap_wf this m [h]" "sz \<noteq> 0" "heap_alloc this sz m = Some (r, m')" "r \<noteq> NULL" "hb_lfb m h \<noteq> 0"
    "unat (hb_lfb m h) < hb_count m h"
  shows "r \<noteq> h + 20 + hb_lfb m h * hb_block_size m h"
proof
  assume eq: "r = h + 20 + hb_lfb m h * hb_block_size m h"
  let ?b = "unat (hb_block_size m h)"
  have ch: "chain m (first_block this) [h]" using assms(1) by (simp add: heap_wf_def)
  obtain x n ident where run: "allocated_run m sz h x n ident r m'"
    using heap_alloc_from_spec[OF ch assms(2)] assms(3,4) unfolding heap_alloc_def by auto
  have ok: "block_ok m h" using chain_block_ok[OF ch] by simp
  note reg = heap_alloc_region[OF ok run assms(2)] and bounds = hb_count_bounds[OF ok]
  have "unat (hb_lfb m h) * ?b \<le> hb_count m h * ?b" using assms(6) by (intro mult_le_mono1) simp
  then have small: "unat (hb_lfb m h) * ?b \<le> unat (hb_size m h)" using bounds(1) by linarith
  have "h + 20 + hb_lfb m h * hb_block_size m h = h + of_nat (20 + unat (hb_lfb m h) * ?b)" by simp
  moreover have "unat (h + of_nat (20 + unat (hb_lfb m h) * ?b)) = unat h + (20 + unat (hb_lfb m h) * ?b)"
    using small ok by (intro unat_add_of_nat) (simp add: block_ok_def)
  ultimately have "unat r = unat h + (20 + unat (hb_lfb m h) * ?b)" using eq by metis
  then have "x * ?b = unat (hb_lfb m h) * ?b" using reg(1) by linarith
  then have "x = unat (hb_lfb m h)" using bounds(4) by simp
  moreover have "of_nat x = hb_lfb m h \<longrightarrow> x = 0" using run unfolding allocated_run_def by blast
  ultimately show False using assms(5) by (auto simp: unat_eq_0)
qed

text \<open>\<open>heap_allocated_size\<close> is at most the size of one small block, whatever the size of the
  allocation.\<close>

theorem heap_allocated_size_one_block:
  assumes "heap_wf this m hs" "heap_alloc this sz m = Some (r, m')" "r \<noteq> NULL" "sz \<noteq> 0"
  shows "\<exists>h \<in> set hs. heap_allocated_size this r m' = Some (hb_block_size m h)"
proof -
  have ch: "chain m (first_block this) hs" using assms(1) by (simp add: heap_wf_def)
  obtain h x n ident where h: "h \<in> set hs" and run: "allocated_run m sz h x n ident r m'"
    using heap_alloc_from_spec[OF ch assms(4)] assms(2,3) unfolding heap_alloc_def by auto
  note found = alloc_found[OF assms(1) h run assms(4)]
  have nz: "h \<noteq> NULL" using chain_block_ok[OF ch h] by (simp add: block_ok_def)
  have r: "r = h + of_nat (20 + x * unat (hb_block_size m h))" using run unfolding allocated_run_def by blast
  have "of_nat x * hb_block_size m h + hb_map h 0 = r" by (simp add: r hb_map_def)
  then show ?thesis using assms(3) h nz found by (intro bexI[of _ h]) (simp_all add: heap_allocated_size_def Let_def)
qed

section \<open>A concrete heap\<close>

text \<open>One block of four 16-byte cells at 4 KiB; the first cell holds the bitmap.\<close>

definition sample_heap :: heap where "sample_heap = \<lparr>first_block = 0x1000\<rparr>"

definition sample_heap_mem :: mem where
  "sample_heap_mem = (\<lambda>_. 0)(0x1004 := 64, 0x1008 := 1, 0x100C := 16, 0x1014 := 5)"

lemma sample_heap_runs: "map_option fst (heap_alloc sample_heap 20 sample_heap_mem) = Some 0x1024"
  by code_simp

lemma sample_heap_fields:
  "hb_next sample_heap_mem 0x1000 = 0" "hb_size sample_heap_mem 0x1000 = 64"
  "hb_block_size sample_heap_mem 0x1000 = 16" "hb_lfb sample_heap_mem 0x1000 = 0"
  "cell sample_heap_mem 0x1000 0 = 5"
  by (code_simp)+

lemma sample_heap_wf: "heap_wf sample_heap sample_heap_mem [0x1000]"
proof -
  have "hb_reserved sample_heap_mem 0x1000 = 1"
    by (simp add: hb_reserved_def sample_heap_fields blocks_for_def)
  then have "block_ok sample_heap_mem 0x1000"
    by (simp add: block_ok_def sample_heap_fields hb_count_def)
  then show ?thesis by (simp add: heap_wf_def sample_heap_def sample_heap_fields)
qed


theorem heap_free_undoes_alloc_witness:
  "\<exists>m' m''. heap_alloc sample_heap 20 sample_heap_mem = Some (0x1024, m') \<and>
     heap_free sample_heap 0x1024 m' = Some (True, m'') \<and> m'' 0x1015 = 0"
proof -
  obtain m' where a: "heap_alloc sample_heap 20 sample_heap_mem = Some (0x1024, m')"
    using sample_heap_runs by auto
  from heap_free_undoes_alloc[OF sample_heap_wf _ a] obtain m'' where
    "heap_free sample_heap 0x1024 m' = Some (True, m'')" "\<forall>a. \<not> unat (a - (0x1000 + 16)) < 4 \<longrightarrow> m'' a = sample_heap_mem a"
    by auto
  with a show ?thesis by (auto simp: sample_heap_mem_def)
qed

theorem heap_add_block_correct_witness:
  "\<exists>this' m'. heap_add_block \<lparr>first_block = 0\<rparr> 0x1000 84 16 (\<lambda>_. 0) = (1, this', m') \<and> heap_wf this' m' [0x1000]"
  using heap_add_block_correct[of "\<lparr>first_block = 0\<rparr>" "\<lambda>_. 0" "[]" "0x1000" 16 84] by (auto simp: heap_wf_def)

definition sample_heap_mem' :: mem where
  "sample_heap_mem' = sample_heap_mem(0x1010 := 2)"

lemma sample_heap_wf': "heap_wf sample_heap sample_heap_mem' [0x1000]"
proof -
  have f: "hb_next sample_heap_mem' 0x1000 = 0" "hb_size sample_heap_mem' 0x1000 = 64"
    "hb_block_size sample_heap_mem' 0x1000 = 16" "cell sample_heap_mem' 0x1000 0 = 5" by code_simp+
  have "hb_reserved sample_heap_mem' 0x1000 = 1" by (simp add: hb_reserved_def f blocks_for_def)
  then have "block_ok sample_heap_mem' 0x1000" by (simp add: block_ok_def f hb_count_def)
  then show ?thesis by (simp add: heap_wf_def sample_heap_def f)
qed

theorem heap_alloc_never_starts_at_lfb_witness:
  "\<exists>r m'. heap_alloc sample_heap 16 sample_heap_mem' = Some (r, m') \<and> r \<noteq> 0x1000 + 20 + 2 * 16"
proof -
  have "map_option fst (heap_alloc sample_heap 16 sample_heap_mem') = Some 0x1044" by code_simp
  then obtain m' where a: "heap_alloc sample_heap 16 sample_heap_mem' = Some (0x1044, m')" by auto
  have f: "hb_lfb sample_heap_mem' 0x1000 = 2" "hb_block_size sample_heap_mem' 0x1000 = 16"
    "hb_count sample_heap_mem' 0x1000 = 4" by code_simp+
  then show ?thesis using heap_alloc_never_starts_at_lfb[OF sample_heap_wf' _ a] a by auto
qed

theorem heap_allocated_size_one_block_witness:
  "\<exists>m'. heap_alloc sample_heap 20 sample_heap_mem = Some (0x1024, m') \<and>
     heap_allocated_size sample_heap 0x1024 m' = Some 16"
proof -
  obtain m' where a: "heap_alloc sample_heap 20 sample_heap_mem = Some (0x1024, m')"
    using sample_heap_runs by auto
  then show ?thesis using heap_allocated_size_one_block[OF sample_heap_wf a] by (simp add: sample_heap_fields)
qed

end
