(* ===== verification/Kstdlib.thy ===== *)
theory Kstdlib
  imports Kheap Mmu "HOL-Library.Signed_Division"
begin

text \<open>
  \<^verbatim>\<open>kernel/libc/stdlib.c\<close>: number conversion, the kernel's \<open>malloc\<close> family, sorting and
  searching, division and random numbers. The floating point functions, the process control
  stubs and the multi-byte stubs are not modelled. \<open>int\<close> and \<open>long int\<close> are 32 bits wide;
  a value of type \<open>long int\<close> is a word read with \<^const>\<open>sint\<close>.
\<close>

section \<open>Numbers to text\<close>

definition numbase :: "u8 list" where
  "numbase = map (\<lambda>i. of_nat (122 - i)) [0..<26] @ map (\<lambda>i. of_nat (57 - i)) [0..<9] @
     map (\<lambda>i. of_nat (48 + i)) [0..<10] @ map (\<lambda>i. of_nat (97 + i)) [0..<26]"

text \<open>\<open>do { *ptr++ = numbase[35 + value % base]; value /= base; } while (value)\<close>; the operators
  truncate towards zero.\<close>

partial_function (option) emit_signed :: "mem \<Rightarrow> ptr \<Rightarrow> int \<Rightarrow> int \<Rightarrow> (mem \<times> ptr) option" where
  "emit_signed m p value base =
     (let m' = store8 m p (numbase ! nat (35 + value smod base));
          value' = value sdiv base
      in if value' \<noteq> 0 then emit_signed m' (p + 1) value' base else Some (m', p + 1))"

partial_function (option) emit_unsigned :: "mem \<Rightarrow> ptr \<Rightarrow> u32 \<Rightarrow> u32 \<Rightarrow> (mem \<times> ptr) option" where
  "emit_unsigned m p value base =
     (let m' = store8 m p (numbase ! (35 + unat (value mod base)));
          value' = value div base
      in if value' \<noteq> 0 then emit_unsigned m' (p + 1) value' base else Some (m', p + 1))"

partial_function (option) reverse_bytes :: "mem \<Rightarrow> ptr \<Rightarrow> ptr \<Rightarrow> mem option" where
  "reverse_bytes m low p =
     (if low < p
      then let tmp = m low; m1 = store8 m low (m p); m2 = store8 m1 p tmp
           in reverse_bytes m2 (low + 1) (p - 1)
      else Some m)"

text \<open>\<open>-value\<close> of the smallest number is that number again.\<close>

definition ltoa :: "mem \<Rightarrow> u32 \<Rightarrow> ptr \<Rightarrow> int \<Rightarrow> (ptr \<times> mem) option" where
  "ltoa m value str base =
     (if base < 2 \<or> base > 36 then Some (str, store8 m str 0)
      else do {
        let (m1, low, value1) =
          (if sint value < 0
           then if base = 10 then (store8 m str 45, str + 1, value) else (m, str, - value)
           else (m, str, value));
        (m2, p) \<leftarrow> emit_signed m1 low (sint value1) base;
        m3 \<leftarrow> reverse_bytes (store8 m2 p 0) low (p - 1);
        Some (str, m3) })"

definition itoa :: "mem \<Rightarrow> u32 \<Rightarrow> ptr \<Rightarrow> int \<Rightarrow> (ptr \<times> mem) option" where
  "itoa m value str base = ltoa m value str base"

definition htoa :: "mem \<Rightarrow> u16 \<Rightarrow> ptr \<Rightarrow> int \<Rightarrow> (ptr \<times> mem) option" where
  "htoa m value str base = ltoa m (scast value) str base"

definition lutoa :: "mem \<Rightarrow> u32 \<Rightarrow> ptr \<Rightarrow> int \<Rightarrow> (ptr \<times> mem) option" where
  "lutoa m value str base =
     (if base < 2 \<or> base > 36 then Some (str, store8 m str 0)
      else do {
        (m2, p) \<leftarrow> emit_unsigned m str value (of_int base);
        m3 \<leftarrow> reverse_bytes (store8 m2 p 0) str (p - 1);
        Some (str, m3) })"

definition utoa :: "mem \<Rightarrow> u32 \<Rightarrow> ptr \<Rightarrow> int \<Rightarrow> (ptr \<times> mem) option" where
  "utoa m value str base = lutoa m value str base"

definition hutoa :: "mem \<Rightarrow> u16 \<Rightarrow> ptr \<Rightarrow> int \<Rightarrow> (ptr \<times> mem) option" where
  "hutoa m value str base = lutoa m (ucast value) str base"

section \<open>Text to numbers\<close>

partial_function (option) skip_spaces :: "mem \<Rightarrow> ptr \<Rightarrow> ptr option" where
  "skip_spaces m str = (if isspace (char_int (m str)) then skip_spaces m (str + 1) else Some str)"

definition digit_value :: "u8 \<Rightarrow> int option" where
  "digit_value c =
     (let ch = char_int c
      in if ch \<ge> 48 \<and> ch \<le> 57 then Some (ch - 48)
         else if ch \<ge> 97 \<and> ch \<le> 122 then Some (ch - 97 + 10)
         else if ch \<ge> 65 \<and> ch \<le> 90 then Some (ch - 65 + 10)
         else None)"

text \<open>The digit loop; the inner \<open>None\<close> is the early \<open>return 0\<close>.\<close>

partial_function (option) digits_loop :: "mem \<Rightarrow> ptr \<Rightarrow> int \<Rightarrow> u32 \<Rightarrow> (ptr \<times> u32) option option" where
  "digits_loop m str base value =
     (if m str = 0 then Some (Some (str, value))
      else case digit_value (m str) of None \<Rightarrow> Some None
      | Some digit \<Rightarrow>
          if digit \<ge> base then Some None
          else digits_loop m (str + 1) base (value * of_int base + of_int digit))"

text \<open>The result is the returned value and what is stored through \<open>endptr\<close>, if anything.\<close>

definition strtol :: "mem \<Rightarrow> ptr \<Rightarrow> int \<Rightarrow> (u32 \<times> ptr option) option" where
  "strtol m str base =
     (if base < 0 \<or> base = 1 \<or> base > 36 then Some (0, Some str)
      else do {
        str1 \<leftarrow> skip_spaces m str;
        let neg = (m str1 = 45);
        let str2 = (if m str1 = 45 \<or> m str1 = 43 then str1 + 1 else str1);
        let hex = (m str2 = 48 \<and> (m (str2 + 1) = 120 \<or> m (str2 + 1) = 88));
        let (base', str3) =
          (if base = 0
           then if m str2 = 48 then if hex then (16, str2 + 2) else (8, str2 + 1) else (10, str2)
           else if base = 16 \<and> hex then (base, str2 + 2) else (base, str2));
        if m str3 = 0 then Some (0, None)
        else do {
          r \<leftarrow> digits_loop m str3 base' 0;
          case r of None \<Rightarrow> Some (0, None)
          | Some (str4, value) \<Rightarrow> Some (if neg then - value else value, Some str4) } })"

definition atol :: "mem \<Rightarrow> ptr \<Rightarrow> u32 option" where
  "atol m str = map_option fst (strtol m str 10)"

definition atoi :: "mem \<Rightarrow> ptr \<Rightarrow> u32 option" where
  "atoi m str = atol m str"

definition strtoul :: "mem \<Rightarrow> ptr \<Rightarrow> int \<Rightarrow> u32" where
  "strtoul m str base = 0"

section \<open>Kernel heap\<close>

text \<open>
  \<open>vmem\<close> is the kernel heap as the kernel addresses it, at the virtual addresses
  \<open>mmu_alloc_pages\<close> returns; the page tables and the frames themselves are in \<open>kmem\<close>.
\<close>

record kernel_state = mmu_state +
  vmem :: mem
  kernel_heap :: heap
  malloc_lock :: "spinlock option"

definition kernel_malloc_init :: "'a kernel_state_scheme \<Rightarrow> 'a kernel_state_scheme option" where
  "kernel_malloc_init s = do {
     s1 \<leftarrow> (if malloc_lock s = None
            then do { (l, ix) \<leftarrow> spinlock_init (lock_index s);
                      Some (s\<lparr>malloc_lock := Some l, lock_index := ix\<rparr>) }
            else Some s);
     (addr, s2) \<leftarrow> mmu_alloc_pages 256 s1;
     let (_, h, m) = heap_add_block (heap_init (kernel_heap s2)) addr (256 * BITMAP_PAGE_SIZE) 16 (vmem s2);
     Some (s2\<lparr>kernel_heap := h, vmem := m\<rparr>) }"

definition malloc_acquire :: "'a kernel_state_scheme \<Rightarrow> 'a kernel_state_scheme option" where
  "malloc_acquire s = do {
     l \<leftarrow> malloc_lock s;
     l' \<leftarrow> spinlock_lock l;
     Some (s\<lparr>malloc_lock := Some l'\<rparr>) }"

definition malloc_release :: "'a kernel_state_scheme \<Rightarrow> 'a kernel_state_scheme" where
  "malloc_release s = s\<lparr>malloc_lock := map_option spinlock_unlock (malloc_lock s)\<rparr>"

abbreviation (input) MIN_MALLOC_SIZE :: u32 where "MIN_MALLOC_SIZE \<equiv> 16"

text \<open>\<open>while (pages * BITMAP_PAGE_SIZE < size && pages < 4096) pages *= 2\<close> from 256 takes at most
  four rounds.\<close>

fun grow_pages :: "nat \<Rightarrow> u32 \<Rightarrow> u32 \<Rightarrow> u32" where
  "grow_pages 0 sz pages = pages"
| "grow_pages (Suc k) sz pages =
     (if pages * BITMAP_PAGE_SIZE < sz \<and> pages < 4096 then grow_pages k sz (pages * 2) else pages)"

definition malloc :: "u32 \<Rightarrow> 'a kernel_state_scheme \<Rightarrow> (ptr \<times> 'a kernel_state_scheme) option" where
  "malloc sz s =
     (if sz = 0 then Some (NULL, s)
      else do {
        s1 \<leftarrow> malloc_acquire s;
        let sz' = (if sz < MIN_MALLOC_SIZE then MIN_MALLOC_SIZE else sz);
        (addr, m) \<leftarrow> heap_alloc (kernel_heap s1) sz' (vmem s1);
        let s2 = s1\<lparr>vmem := m\<rparr>;
        if addr \<noteq> NULL then Some (addr, malloc_release s2)
        else
          let pages = grow_pages 4 sz' 256
          in if pages \<ge> 4096 then Some (NULL, malloc_release s2)
             else do {
               (block_addr, s3) \<leftarrow> mmu_alloc_pages pages s2;
               let (_, h, m1) = heap_add_block (kernel_heap s3) block_addr (pages * BITMAP_PAGE_SIZE) 16 (vmem s3);
               (addr', m2) \<leftarrow> heap_alloc h sz' m1;
               Some (addr', malloc_release (s3\<lparr>kernel_heap := h, vmem := m2\<rparr>)) } })"

definition free :: "ptr \<Rightarrow> 'a kernel_state_scheme \<Rightarrow> 'a kernel_state_scheme option" where
  "free p s =
     (if p = NULL then Some s
      else do {
        s1 \<leftarrow> malloc_acquire s;
        (ok, m) \<leftarrow> heap_free (kernel_heap s1) p (vmem s1);
        Some (malloc_release (s1\<lparr>vmem := m\<rparr>)) })"

definition calloc :: "u32 \<Rightarrow> u32 \<Rightarrow> 'a kernel_state_scheme \<Rightarrow> (ptr \<times> 'a kernel_state_scheme) option" where
  "calloc num sz s = do {
     (addr, s1) \<leftarrow> malloc (num * sz) s;
     if addr \<noteq> NULL then Some (addr, s1\<lparr>vmem := snd (memset (vmem s1) addr 0 (num * sz))\<rparr>)
     else Some (addr, s1) }"

definition calloc_align :: "u32 \<Rightarrow> u32 \<Rightarrow> u32 \<Rightarrow> 'a kernel_state_scheme \<Rightarrow> (ptr \<times> 'a kernel_state_scheme) option" where
  "calloc_align num sz align s = do {
     (addr, s1) \<leftarrow> calloc 1 (num * sz + align) s;
     Some (if addr \<noteq> NULL then addr + (align - addr mod align) else addr, s1) }"

definition malloc_align :: "u32 \<Rightarrow> u32 \<Rightarrow> 'a kernel_state_scheme \<Rightarrow> (ptr \<times> 'a kernel_state_scheme) option" where
  "malloc_align sz align s = do {
     (addr, s1) \<leftarrow> malloc (sz + align) s;
     Some (if addr \<noteq> NULL \<and> addr mod align \<noteq> 0 then addr + (align - addr mod align) else addr, s1) }"

text \<open>\<open>min\<close> takes its arguments as \<open>int\<close>.\<close>

definition int_min :: "u32 \<Rightarrow> u32 \<Rightarrow> u32" where
  "int_min a b = (if sint a < sint b then a else b)"

definition realloc :: "cpu_features \<Rightarrow> ptr \<Rightarrow> u32 \<Rightarrow> 'a kernel_state_scheme \<Rightarrow> (ptr \<times> 'a kernel_state_scheme) option" where
  "realloc cpu p sz s =
     (if sz = 0 then Some (NULL, s)
      else do {
        (new_addr, s1) \<leftarrow> malloc sz s;
        if new_addr = NULL then Some (NULL, s1)
        else do {
          old \<leftarrow> heap_allocated_size (kernel_heap s1) p (vmem s1);
          let s2 = s1\<lparr>vmem := snd (memcpy cpu (vmem s1) new_addr p (int_min sz old))\<rparr>;
          s3 \<leftarrow> free p s2;
          Some (new_addr, s3) } })"

section \<open>Searching and sorting\<close>

text \<open>
  The array is a list of elements and an element address its index; \<open>compar\<close> is the caller's
  comparison of two elements. \<open>swap\<close> exchanges two elements through a buffer from the
  heap, which it does not check to have got: the heap is taken not to be exhausted while sorting.
\<close>

partial_function (option) bsearch_loop :: "('k \<Rightarrow> 'e \<Rightarrow> int) \<Rightarrow> 'k \<Rightarrow> 'e list \<Rightarrow> u32 \<Rightarrow> u32 \<Rightarrow> u32 option option" where
  "bsearch_loop compar key base start end =
     (if start < end
      then let mid = (start + end) div 2; cmp = compar key (base ! unat mid)
           in if cmp = 0 then Some (Some mid)
              else if cmp < 0 then bsearch_loop compar key base start mid
              else bsearch_loop compar key base (mid + 1) end
      else Some None)"

definition bsearch :: "'k \<Rightarrow> 'e list \<Rightarrow> u32 \<Rightarrow> ('k \<Rightarrow> 'e \<Rightarrow> int) \<Rightarrow> u32 option option" where
  "bsearch key base num compar = bsearch_loop compar key base 0 num"

definition swap :: "nat \<Rightarrow> nat \<Rightarrow> 'e list \<Rightarrow> 'e list" where
  "swap a b xs = xs[a := xs ! b, b := xs ! a]"

text \<open>The partition loop over \<open>j\<close>; \<open>i\<close> starts at \<open>start - 1\<close>, which wraps around for \<open>start = 0\<close>.\<close>

fun partition_loop :: "('e \<Rightarrow> 'e \<Rightarrow> int) \<Rightarrow> nat \<Rightarrow> nat list \<Rightarrow> u32 \<Rightarrow> 'e list \<Rightarrow> u32 \<times> 'e list" where
  "partition_loop compar pivot_index [] i base = (i, base)"
| "partition_loop compar pivot_index (j # js) i base =
     (if compar (base ! j) (base ! pivot_index) < 0
      then partition_loop compar pivot_index js (i + 1) (swap (unat (i + 1)) j base)
      else partition_loop compar pivot_index js i base)"

partial_function (option) qsort_inplace :: "('e \<Rightarrow> 'e \<Rightarrow> int) \<Rightarrow> u32 \<Rightarrow> u32 \<Rightarrow> 'e list \<Rightarrow> 'e list option" where
  "qsort_inplace compar start end base =
     (if end - start \<le> 1 then Some base
      else
        let pivot_index = end - 1;
            (i, base1) = partition_loop compar (unat pivot_index) [unat start..<unat pivot_index] (start - 1) base;
            base2 = swap (unat (i + 1)) (unat pivot_index) base1;
            pivot_index' = i + 1
        in do {
          base3 \<leftarrow> qsort_inplace compar start pivot_index' base2;
          qsort_inplace compar (pivot_index' + 1) end base3 })"

definition qsort :: "'e list \<Rightarrow> u32 \<Rightarrow> ('e \<Rightarrow> 'e \<Rightarrow> int) \<Rightarrow> 'e list option" where
  "qsort base num compar = qsort_inplace compar 0 num base"

section \<open>Arithmetic\<close>

text \<open>Division by zero, and of the smallest number by -1, raises a processor exception: \<open>None\<close>.\<close>

definition ldiv :: "u32 \<Rightarrow> u32 \<Rightarrow> (u32 \<times> u32) option" where
  "ldiv numer denom =
     (if denom = 0 \<or> (sint numer = - (2 ^ 31) \<and> sint denom = -1) then None
      else
        let quot = sint numer sdiv sint denom; rem = sint numer smod sint denom
        in if sint numer \<ge> 0 \<and> rem < 0 then Some (of_int (quot + 1), of_int (rem - sint denom))
           else Some (of_int quot, of_int rem))"

definition div_c :: "u32 \<Rightarrow> u32 \<Rightarrow> (u32 \<times> u32) option" where
  "div_c numer denom =
     (if denom = 0 \<or> (sint numer = - (2 ^ 31) \<and> sint denom = -1) then None
      else
        let quot = sint numer sdiv sint denom; rem = sint numer smod sint denom
        in if sint numer \<ge> 0 \<and> rem < 0 then Some (of_int (quot + 1), of_int (rem - sint denom))
           else Some (of_int quot, of_int rem))"

definition labs :: "u32 \<Rightarrow> u32" where
  "labs x = (if sint x < 0 then - x else x)"

definition abs_c :: "u32 \<Rightarrow> u32" where
  "abs_c x = labs x"

text \<open>\<open>rdrand\<close> is the value the instruction delivers, if the processor has it and it succeeds; a failing
  instruction leaves 0 in the register.\<close>

definition rand :: "bool \<Rightarrow> u32 option \<Rightarrow> u32 \<Rightarrow> u32 \<times> u32" where
  "rand has_rdrand rdrand rand_next =
     (let next = (if has_rdrand then (case rdrand of Some v \<Rightarrow> v | None \<Rightarrow> 0) else rand_next)
      in if has_rdrand \<and> rdrand \<noteq> None then (next, next)
         else let next' = next * 1103515245 + 12345 in (next' div 65536 mod 32768, next'))"

definition srand :: "u32 \<Rightarrow> u32" where
  "srand seed = seed"

end
