(* ===== verification/Kstdlib_Laws.thy ===== *)
theory Kstdlib_Laws
  imports Kstdlib Kheap_Laws Kstring_Laws "HOL-Library.Multiset"
begin

text \<open>
  Correctness of \<^verbatim>\<open>stdlib.c\<close>: \<open>qsort\<close> terminates, permutes and sorts for every consistent
  comparison function, \<open>bsearch\<close> finds what is there, the text form of every 32-bit number
  reads back as that number.
\<close>

section \<open>Segments of an array\<close>

definition seg :: "nat \<Rightarrow> nat \<Rightarrow> 'e list \<Rightarrow> 'e list" where
  "seg s e xs = take (e - s) (drop s xs)"

lemma seg_nth: "s \<le> t \<Longrightarrow> t < e \<Longrightarrow> e \<le> length xs \<Longrightarrow> xs ! t \<in> set (seg s e xs)"
  by (auto simp: seg_def in_set_conv_nth intro!: exI[of _ "t - s"])

lemma seg_mem: "x \<in> set (seg s e xs) \<Longrightarrow> e \<le> length xs \<Longrightarrow> \<exists>t. s \<le> t \<and> t < e \<and> x = xs ! t"
  by (auto simp: seg_def in_set_conv_nth) (metis add.commute le_add2 less_diff_conv)

lemma seg_split: "s \<le> e \<Longrightarrow> xs = take s xs @ seg s e xs @ drop e xs"
  by (simp add: seg_def) (metis append_take_drop_id drop_drop le_add_diff_inverse2 add.commute)

text \<open>\<open>ys\<close> is \<open>xs\<close> with the elements of positions \<open>s\<close> to \<open>e - 1\<close> rearranged.\<close>

definition permuted :: "nat \<Rightarrow> nat \<Rightarrow> 'e list \<Rightarrow> 'e list \<Rightarrow> bool" where
  "permuted s e xs ys \<longleftrightarrow> length ys = length xs \<and> mset ys = mset xs \<and> (\<forall>t. t < s \<or> e \<le> t \<longrightarrow> ys ! t = xs ! t)"

lemma permuted_refl [simp]: "permuted s e xs xs"
  by (simp add: permuted_def)

lemma permuted_trans: "permuted s e xs ys \<Longrightarrow> permuted s e ys zs \<Longrightarrow> permuted s e xs zs"
  by (auto simp: permuted_def)

lemma permuted_widen: "permuted s e xs ys \<Longrightarrow> s' \<le> s \<Longrightarrow> e \<le> e' \<Longrightarrow> permuted s' e' xs ys"
  by (auto simp: permuted_def)

lemma permuted_seg:
  assumes "permuted s e xs ys" "s \<le> e" "e \<le> length xs"
  shows "mset (seg s e ys) = mset (seg s e xs)"
proof -
  have len: "length ys = length xs" and same: "\<And>t. t < s \<or> e \<le> t \<Longrightarrow> ys ! t = xs ! t"
    using assms(1) by (auto simp: permuted_def)
  have "take s ys = take s xs" using len same by (intro nth_equalityI) auto
  moreover have "drop e ys = drop e xs" using len same by (intro nth_equalityI) auto
  moreover have "mset ys = mset xs" using assms(1) by (simp add: permuted_def)
  ultimately show ?thesis
    using seg_split[OF assms(2), of xs] seg_split[OF assms(2), of ys]
    by (metis add_left_imp_eq add_right_imp_eq mset_append)
qed

lemma permuted_forall:
  assumes "permuted s e xs ys" "s \<le> e" "e \<le> length xs" "\<And>t. s \<le> t \<Longrightarrow> t < e \<Longrightarrow> P (xs ! t)" "s \<le> t" "t < e"
  shows "P (ys ! t)"
proof -
  have "ys ! t \<in> set (seg s e ys)" using assms by (intro seg_nth) (auto simp: permuted_def)
  then have "ys ! t \<in> set (seg s e xs)" using permuted_seg[OF assms(1-3)] by (metis mset_eq_setD)
  then show ?thesis using seg_mem[OF _ assms(3)] assms(4) by metis
qed

lemma swap_permuted:
  assumes "s \<le> a" "a < e" "s \<le> b" "b < e" "e \<le> length xs"
  shows "permuted s e xs (swap a b xs)"
  using assms by (auto simp: permuted_def swap_def mset_swap)

lemma swap_nth:
  "a < length xs \<Longrightarrow> b < length xs \<Longrightarrow> swap a b xs ! t = (if t = b then xs ! a else if t = a then xs ! b else xs ! t)"
  by (auto simp: swap_def nth_list_update)

section \<open>\<open>qsort\<close>\<close>

text \<open>A consistent comparison function: the sign is antisymmetric and the order transitive.\<close>

definition comparator :: "('e \<Rightarrow> 'e \<Rightarrow> int) \<Rightarrow> bool" where
  "comparator cmp \<longleftrightarrow> (\<forall>a b. cmp a b < 0 \<longleftrightarrow> 0 < cmp b a) \<and> (\<forall>a b c. cmp a b \<le> 0 \<longrightarrow> cmp b c \<le> 0 \<longrightarrow> cmp a c \<le> 0)"

lemma partition_loop_spec:
  assumes "i + 1 = of_nat K" "s \<le> K" "K \<le> j" "j \<le> p" "p < length xs" "length xs < 2 ^ 32"
    and "\<forall>t. s \<le> t \<and> t < K \<longrightarrow> cmp (xs ! t) (xs ! p) < 0" "\<forall>t. K \<le> t \<and> t < j \<longrightarrow> \<not> cmp (xs ! t) (xs ! p) < 0"
  shows "\<exists>i' K' ys. partition_loop cmp p [j..<p] i xs = (i', ys) \<and> i' + 1 = of_nat K' \<and> s \<le> K' \<and> K' \<le> p \<and>
    permuted s p xs ys \<and> (\<forall>t. s \<le> t \<and> t < K' \<longrightarrow> cmp (ys ! t) (xs ! p) < 0) \<and>
    (\<forall>t. K' \<le> t \<and> t < p \<longrightarrow> \<not> cmp (ys ! t) (xs ! p) < 0)"
  using assms
proof (induction "p - j" arbitrary: i K j xs)
  case 0
  then have "j = p" by simp
  then show ?case using 0 by (intro exI[of _ i] exI[of _ K] exI[of _ xs]) simp
next
  case (Suc d)
  then have jp: "j < p" by simp
  have list: "[j..<p] = j # [Suc j..<p]" using jp by (simp add: upt_conv_Cons)
  show ?case
  proof (cases "cmp (xs ! j) (xs ! p) < 0")
    case False
    then have "\<forall>t. K \<le> t \<and> t < Suc j \<longrightarrow> \<not> cmp (xs ! t) (xs ! p) < 0" using Suc.prems(8) by (auto simp: less_Suc_eq)
    then show ?thesis
      using False Suc.hyps(1)[of "Suc j" i K xs] Suc.hyps(2) Suc.prems jp by (simp add: list)
  next
    case True
    let ?ys = "swap K j xs"
    have K: "unat (i + 1) = K" using Suc.prems by (simp add: unat_of_nat_small)
    have perm: "permuted s p xs ?ys" using Suc.prems jp by (intro swap_permuted) simp_all
    have nth: "?ys ! t = (if t = j then xs ! K else if t = K then xs ! j else xs ! t)" for t
      using Suc.prems jp by (intro swap_nth) simp_all
    have piv: "?ys ! p = xs ! p" using nth[of p] jp Suc.prems(3) by auto
    have "\<exists>i' K' ys. partition_loop cmp p [Suc j..<p] (i + 1) ?ys = (i', ys) \<and> i' + 1 = of_nat K' \<and> s \<le> K' \<and>
      K' \<le> p \<and> permuted s p ?ys ys \<and> (\<forall>t. s \<le> t \<and> t < K' \<longrightarrow> cmp (ys ! t) (?ys ! p) < 0) \<and>
      (\<forall>t. K' \<le> t \<and> t < p \<longrightarrow> \<not> cmp (ys ! t) (?ys ! p) < 0)"
    proof (rule Suc.hyps(1))
      show "d = p - Suc j" using Suc.hyps(2) by simp
      show "i + 1 + 1 = of_nat (Suc K)" using Suc.prems(1) by simp
      show "\<forall>t. s \<le> t \<and> t < Suc K \<longrightarrow> cmp (?ys ! t) (?ys ! p) < 0"
        unfolding piv using nth True Suc.prems(3,7) by (auto simp: less_Suc_eq)
      show "\<forall>t. Suc K \<le> t \<and> t < Suc j \<longrightarrow> \<not> cmp (?ys ! t) (?ys ! p) < 0"
        unfolding piv using nth Suc.prems(3,8) by (auto simp: less_Suc_eq)
    qed (use Suc.prems jp in \<open>auto simp: swap_def\<close>)
    then show ?thesis unfolding piv using True perm K by (auto simp: list dest: permuted_trans)
  qed
qed

lemma qsort_inplace_spec:
  assumes cmp: "comparator cmp"
  shows "s \<le> e \<Longrightarrow> e \<le> length xs \<Longrightarrow> length xs < 2 ^ 32 \<Longrightarrow>
    \<exists>ys. qsort_inplace cmp (of_nat s) (of_nat e) xs = Some ys \<and> permuted s e xs ys \<and>
      (\<forall>t u. s \<le> t \<and> t \<le> u \<and> u < e \<longrightarrow> cmp (ys ! t) (ys ! u) \<le> 0)"
proof (induction "e - s" arbitrary: s e xs rule: less_induct)
  case less
  have refl: "cmp a a \<le> 0" for a using cmp unfolding comparator_def by (metis not_less_iff_gr_or_eq order.refl not_le)
  have diff: "(of_nat e :: u32) - of_nat s = of_nat (e - s)" using less.prems(1) by (simp add: of_nat_diff)
  have small: "(of_nat (e - s) :: u32) \<le> 1 \<longleftrightarrow> e - s \<le> 1"
  proof -
    have "unat (of_nat (e - s) :: u32) = e - s" using less.prems by (intro unat_of_nat_small) simp
    then show ?thesis by (simp only: word_le_nat_alt unat_1)
  qed
  show ?case
  proof (cases "e - s \<le> 1")
    case True
    then have "qsort_inplace cmp (of_nat s) (of_nat e) xs = Some xs"
      using True small by (subst qsort_inplace.simps) (simp only: diff if_True)
    moreover have "cmp (xs ! t) (xs ! u) \<le> 0" if "s \<le> t \<and> t \<le> u \<and> u < e" for t u
    proof -
      have "t = u" using that True by linarith
      then show ?thesis using refl by simp
    qed
    ultimately show ?thesis by auto
  next
    case False
    define p where "p = e - 1"
    have p: "s < p" "p < e" "e = Suc p" "p < length xs" using False less.prems by (auto simp: p_def)
    have pw: "(of_nat e :: u32) - 1 = of_nat p" by (simp add: p(3))
    have up: "unat (of_nat p :: u32) = p" "unat (of_nat s :: u32) = s"
      using p less.prems by (auto intro!: unat_of_nat_small)
    obtain i K ys where part: "partition_loop cmp p [s..<p] (of_nat s - 1) xs = (i, ys)" "i + 1 = of_nat K"
      "s \<le> K" "K \<le> p" "permuted s p xs ys" "\<forall>t. s \<le> t \<and> t < K \<longrightarrow> cmp (ys ! t) (xs ! p) < 0"
      "\<forall>t. K \<le> t \<and> t < p \<longrightarrow> \<not> cmp (ys ! t) (xs ! p) < 0"
      using partition_loop_spec[of "of_nat s - 1" s s s p xs cmp] p less.prems(3) by auto
    have uK: "unat (i + 1) = K" using part(2,4) p less.prems by (simp add: unat_of_nat_small)
    let ?zs = "swap K p ys"
    have len: "length ys = length xs" "ys ! p = xs ! p" using part(5) by (simp_all add: permuted_def)
    have nth: "?zs ! t = (if t = p then ys ! K else if t = K then ys ! p else ys ! t)" for t
      using part(4) p len by (intro swap_nth) simp_all
    have zs: "permuted s e xs ?zs"
    proof (rule permuted_trans)
      show "permuted s e xs ys" using permuted_widen[OF part(5), of s e] p(2) by simp
      show "permuted s e ys ?zs" using part(3,4) p(1,2) less.prems(2) len(1) by (intro swap_permuted) simp_all
    qed
    have lo: "cmp (?zs ! t) (xs ! p) \<le> 0" if "s \<le> t" "t < K" for t
      using that part(4,6) p nth[of t] by (auto simp: less_imp_le)
    have hi: "cmp (xs ! p) (?zs ! t) \<le> 0" if "K < t" "t < e" for t
    proof -
      have "\<not> cmp (?zs ! t) (xs ! p) < 0"
      proof (cases "t = p")
        case True
        then show ?thesis using that(1) part(7) nth[of t] by simp
      next
        case False
        then have "t < p" using that(2) p(3) by simp
        then show ?thesis using that(1) part(7) nth[of t] by simp
      qed
      then show ?thesis using cmp unfolding comparator_def by (metis not_le)
    qed
    have dlo: "K - s < e - s" and dhi: "e - Suc K < e - s" using part(3,4) p(1,3) by linarith+
    have lz: "length ?zs = length xs" using zs by (simp add: permuted_def)
    obtain as where as: "qsort_inplace cmp (of_nat s) (of_nat K) ?zs = Some as" "permuted s K ?zs as"
      "\<forall>t u. s \<le> t \<and> t \<le> u \<and> u < K \<longrightarrow> cmp (as ! t) (as ! u) \<le> 0"
      using less.hyps[of K s ?zs, OF dlo] part(3,4) p less.prems lz by auto
    have la: "length as = length xs" using as(2) lz by (simp add: permuted_def)
    obtain bs where bs: "qsort_inplace cmp (of_nat (Suc K)) (of_nat e) as = Some bs" "permuted (Suc K) e as bs"
      "\<forall>t u. Suc K \<le> t \<and> t \<le> u \<and> u < e \<longrightarrow> cmp (bs ! t) (bs ! u) \<le> 0"
      using less.hyps[of e "Suc K" as, OF dhi] part(3,4) p less.prems la by auto
    have run: "qsort_inplace cmp (of_nat s) (of_nat e) xs = Some bs"
    proof -
      have nle: "\<not> (of_nat e :: u32) - of_nat s \<le> 1" unfolding diff small using False .
      have nK: "unat (of_nat K :: u32) = K" "(of_nat K :: u32) + 1 = of_nat (Suc K)" using uK part(2) by simp_all
      show ?thesis
        by (subst qsort_inplace.simps)
          (simp only: nle if_False Let_def pw up part(1,2) prod.case nK as(1) bs(1) Option.bind.bind_lunit)
    qed
    have perm: "permuted s e xs bs"
      using zs permuted_widen[OF as(2), of s e] permuted_widen[OF bs(2), of s e] part(3,4) p
      by (auto intro: permuted_trans)
    have low: "bs ! t = as ! t" if "t \<le> K" for t using bs(2) that by (simp add: permuted_def)
    have asK: "as ! t = ?zs ! t" if "K \<le> t" for t using as(2) that by (simp add: permuted_def)
    have lo': "cmp (bs ! t) (xs ! p) \<le> 0" if "s \<le> t" "t \<le> K" for t
    proof (cases "t = K")
      case True
      then show ?thesis using low[of K] asK[of K] nth[of K] part(4) p len(2) refl by auto
    next
      case False
      have "cmp (as ! t) (xs ! p) \<le> 0"
        using permuted_forall[OF as(2), of "\<lambda>x. cmp x (xs ! p) \<le> 0" t] lo that False part(3,4) p lz by simp
      then show ?thesis using low[of t] that by simp
    qed
    have hi': "cmp (xs ! p) (bs ! t) \<le> 0" if "K \<le> t" "t < e" for t
    proof (cases "t = K")
      case True
      then show ?thesis using low[of K] asK[of K] nth[of K] part(4) p len(2) refl by auto
    next
      case False
      have "cmp (xs ! p) (as ! u) \<le> 0" if "Suc K \<le> u" "u < e" for u using hi[of u] asK[of u] that by simp
      then show ?thesis
        using permuted_forall[OF bs(2), of "\<lambda>x. cmp (xs ! p) x \<le> 0" t] that False part(4) p la less.prems by simp
    qed
    have "cmp (bs ! t) (bs ! u) \<le> 0" if tu: "s \<le> t \<and> t \<le> u \<and> u < e" for t u
    proof -
      consider "u < K" | "K < t" | "t \<le> K" "K \<le> u" by linarith
      then show ?thesis
      proof cases
        case 1
        then show ?thesis using as(3) low[of t] low[of u] tu by auto
      next
        case 2
        then show ?thesis using bs(3) tu by auto
      next
        case 3
        then show ?thesis using lo'[of t] hi'[of u] tu cmp unfolding comparator_def by blast
      qed
    qed
    then show ?thesis using run perm by blast
  qed
qed

section \<open>Bytes written one after the other\<close>

definition put :: "mem \<Rightarrow> ptr \<Rightarrow> u8 list \<Rightarrow> mem" where
  "put m p bs = (\<lambda>a. if unat (a - p) < length bs then bs ! unat (a - p) else m a)"

lemma unat_diff_Suc:
  assumes "(a :: u32) \<noteq> p"
  shows "unat (a - p) = Suc (unat (a - (p + 1)))"
proof -
  have "a - p = (a - (p + 1)) + 1" by simp
  moreover have "(a - (p + 1)) + 1 \<noteq> 0" using assms by simp
  ultimately show ?thesis by (metis unatSuc add.commute)
qed

lemma len32: "LENGTH(32) = 32"
  by simp

lemma unat_diff_eq_iff:
  assumes "n < 2 ^ 32"
  shows "unat ((a :: u32) - p) = n \<longleftrightarrow> a = p + of_nat n"
  using assms unat_of_nat_small[of n, where 'a = 32] word_diff_of_nat[of a p] by (metis add_diff_cancel_left' len32)

lemma unat_pred_diff: "unat ((p :: u32) - (p + 1)) = 2 ^ 32 - 1"
proof -
  have "p - (p + 1) = 4294967295" by simp
  then show ?thesis by (simp only:) simp
qed

lemma put_Nil [simp]: "put m p [] = m"
  by (simp add: put_def)

lemma put_Cons: "length bs < 2 ^ 32 \<Longrightarrow> put m p (b # bs) = put (store8 m p b) (p + 1) bs"
proof (rule ext)
  fix a assume len: "length bs < 2 ^ 32"
  have wrap: "unat (p - (p + 1)) = 2 ^ 32 - 1" by (rule unat_pred_diff)
  show "put m p (b # bs) a = put (store8 m p b) (p + 1) bs a"
    using len wrap unat_diff_Suc[of a p] by (cases "a = p") (auto simp: put_def store8_def)
qed

lemma put_snoc:
  assumes "length bs < 2 ^ 32"
  shows "put m p (bs @ [b]) = store8 (put m p bs) (p + of_nat (length bs)) b"
proof (rule ext)
  fix a
  have "unat (a - p) = length bs \<longleftrightarrow> a = p + of_nat (length bs)"
    using assms by (rule unat_diff_eq_iff)
  then show "put m p (bs @ [b]) a = store8 (put m p bs) (p + of_nat (length bs)) b a"
    by (auto simp: put_def store8_def nth_append less_Suc_eq)
qed

lemma put_at: "i < length bs \<Longrightarrow> i < 2 ^ 32 \<Longrightarrow> put m p bs (p + of_nat i) = bs ! i"
  by (simp add: put_def unat_of_nat_small)

lemma put_outside: "length bs \<le> unat (a - p) \<Longrightarrow> put m p bs a = m a"
  by (simp add: put_def)

lemma store8_same_twice [simp]: "store8 (store8 m a x) a y = store8 m a y"
  by (simp add: store8_def)

lemma store8_put_head: "store8 (put m p (x # bs)) p y = put m p (y # bs)"
  by (rule ext) (auto simp: put_def store8_def nth_Cons' unat_eq_zero)

lemma reverse_bytes_put:
  "unat low + length bs \<le> 2 ^ 32 \<Longrightarrow> bs \<noteq> [] \<Longrightarrow>
   reverse_bytes (put m low bs) low (low + of_nat (length bs) - 1) = Some (put m low (rev bs))"
proof (induction "length bs" arbitrary: m low bs rule: less_induct)
  case less
  show ?case
  proof (cases "length bs = 1")
    case True
    then obtain x where "bs = [x]" by (auto simp: length_Suc_conv)
    then show ?thesis by (subst reverse_bytes.simps) simp
  next
    case False
    then obtain x ys where xys: "bs = x # ys" "ys \<noteq> []" using less.prems(2) by (cases bs) auto
    then obtain mid y where mid: "ys = mid @ [y]" by (metis rev_exhaust)
    have bs: "bs = x # mid @ [y]" using xys mid by simp
    let ?n = "length mid"
    let ?p = "low + of_nat (Suc ?n)"
    have n: "unat low + Suc (Suc ?n) \<le> 2 ^ 32" using less.prems(1) bs by simp
    have p: "low + of_nat (length bs) - 1 = ?p" by (simp add: bs)
    have up: "unat ?p = unat low + Suc ?n" using n by (intro unat_add_of_nat) simp
    have lt: "low < ?p" using up by (simp add: word_less_nat_alt del: of_nat_Suc)
    have ends: "put m low bs low = x" "put m low bs ?p = y"
      using put_at[of 0 bs m low] put_at[of "Suc ?n" bs m low] n by (simp_all add: bs nth_append del: of_nat_Suc)
    have swapped: "store8 (store8 (put m low bs) low y) ?p x = put m low (y # mid @ [x])"
      using n put_snoc[of "y # mid" m low y] put_snoc[of "y # mid" m low x] store8_put_head[of m low x "mid @ [y]" y]
      by (simp add: bs)
    have inner: "put m low (y # r @ [x]) = put (store8 (store8 m low y) ?p x) (low + 1) r"
      if "length r = ?n" for r
    proof (rule ext)
      fix a
      have "unat (a - low) = Suc ?n \<longleftrightarrow> a = ?p"
        using n by (intro unat_diff_eq_iff) simp
      moreover have "unat (low - (low + 1)) = 2 ^ 32 - 1" by (rule unat_pred_diff)
      moreover have "low \<noteq> ?p" using lt by auto
      ultimately show "put m low (y # r @ [x]) a = put (store8 (store8 m low y) ?p x) (low + 1) r a"
        using that n unat_diff_Suc[of a low]
        by (cases "a = low"; cases "a = ?p") (auto simp: put_def store8_def nth_append less_Suc_eq)
    qed
    have step: "reverse_bytes (put m low bs) low (low + of_nat (length bs) - 1) =
        reverse_bytes (put (store8 (store8 m low y) ?p x) (low + 1) mid) (low + 1) (?p - 1)"
      unfolding p by (subst reverse_bytes.simps) (use lt ends swapped inner[of mid] in \<open>simp add: Let_def\<close>)
    have last: "put (store8 (store8 m low y) ?p x) (low + 1) (rev mid) = put m low (rev bs)"
      using inner[of "rev mid"] by (simp add: bs)
    show ?thesis
    proof (cases "mid = []")
      case True
      have "\<not> low + 1 < low" using up True by (simp add: word_less_nat_alt)
      then show ?thesis using step last True by (subst (asm) (2) reverse_bytes.simps) simp
    next
      case False
      have "unat (low + 1) = unat low + 1" using n unat_add_of_nat[of low 1] by simp
      then have "reverse_bytes (put (store8 (store8 m low y) ?p x) (low + 1) mid) (low + 1)
          (low + 1 + of_nat (length mid) - 1) = Some (put (store8 (store8 m low y) ?p x) (low + 1) (rev mid))"
        using less.hyps[of mid "low + 1"] n False bs by simp
      then show ?thesis using step last by (simp add: add.commute add.left_commute)
    qed
  qed
qed

section \<open>Digits of a number\<close>

text \<open>The digits of \<open>n\<close> to the base \<open>b\<close>, the lowest first, and the character of a digit.\<close>

fun digs :: "nat \<Rightarrow> nat \<Rightarrow> nat list" where
  "digs b n = (if b < 2 \<or> n < b then [n] else n mod b # digs b (n div b))"

declare digs.simps [simp del]

definition dig_char :: "nat \<Rightarrow> u8" where
  "dig_char k = numbase ! (35 + k)"

definition dig_text :: "nat \<Rightarrow> nat \<Rightarrow> u8 list" where
  "dig_text b n = map dig_char (rev (digs b n))"

lemma digs_not_Nil [simp]: "digs b n \<noteq> []"
  by (subst digs.simps) simp

lemma digs_less: "2 \<le> b \<Longrightarrow> d \<in> set (digs b n) \<Longrightarrow> d < b"
proof (induction b n rule: digs.induct)
  case (1 b n)
  then show ?case using digs.simps[of b n] by (cases "n < b") auto
qed

lemma length_digs: "2 \<le> b \<Longrightarrow> n < 2 ^ k \<Longrightarrow> 0 < k \<Longrightarrow> length (digs b n) \<le> k"
proof (induction k arbitrary: n)
  case 0
  then show ?case by simp
next
  case (Suc k)
  show ?case
  proof (cases "n < b")
    case True
    then show ?thesis by (subst digs.simps) simp
  next
    case False
    have "n div b \<le> n div 2" using Suc.prems(1) by (simp add: div_le_mono2)
    also have "\<dots> < 2 ^ k" using Suc.prems(2) by (simp add: less_mult_imp_div_less)
    finally have "n div b < 2 ^ k" .
    moreover have "0 < n div b" using False Suc.prems(1) by (simp add: div_greater_zero_iff)
    ultimately have "length (digs b (n div b)) \<le> k" using Suc.IH Suc.prems(1) by (cases k) auto
    then show ?thesis using False Suc.prems(1) by (subst digs.simps) simp
  qed
qed

lemma foldr_digs: "2 \<le> b \<Longrightarrow> foldr (\<lambda>d a. a * of_nat b + of_nat d) (digs b n) (0 :: 'a::comm_semiring_1) = of_nat n"
proof (induction b n rule: digs.induct)
  case (1 b n)
  show ?case
  proof (cases "n < b")
    case True
    then show ?thesis by (subst digs.simps) simp
  next
    case False
    have "(of_nat (n div b) :: 'a) * of_nat b + of_nat (n mod b) = of_nat n"
      unfolding of_nat_mult[symmetric] of_nat_add[symmetric] by simp
    then show ?thesis using False 1 by (subst digs.simps) simp
  qed
qed

lemma dig_char_code: "k < 36 \<Longrightarrow> dig_char k = of_nat (if k < 10 then 48 + k else 87 + k)"
proof (cases "k < 10")
  case True
  then show ?thesis by (simp add: dig_char_def numbase_def nth_append)
next
  case False
  moreover assume "k < 36"
  ultimately show ?thesis by (simp add: dig_char_def numbase_def nth_append)
qed

lemma numbase_sym: "k < 36 \<Longrightarrow> numbase ! (35 - k) = dig_char k"
proof -
  have "list_all (\<lambda>k. numbase ! (35 - k) = dig_char k) [0..<36]" by code_simp
  then show "k < 36 \<Longrightarrow> numbase ! (35 - k) = dig_char k" by (simp add: list_all_iff)
qed

lemma sint_of_nat_byte: "n < 128 \<Longrightarrow> sint (of_nat n :: u8) = int n"
  by (simp add: sint_uint uint_nat unat_of_nat_small signed_take_bit_int_eq_self)

lemma dig_char_facts:
  assumes "k < 36"
  shows "digit_value (dig_char k) = Some (int k)" "dig_char k \<noteq> 0" "\<not> isspace (char_int (dig_char k))"
    "dig_char k \<noteq> 45" "dig_char k \<noteq> 43" "k < 16 \<Longrightarrow> dig_char k \<noteq> 120" "k < 16 \<Longrightarrow> dig_char k \<noteq> 88"
proof -
  have code: "char_int (dig_char k) = (if k < 10 then 48 + int k else 87 + int k)"
    using assms by (simp add: char_int_def dig_char_code sint_of_nat_byte)
  show "digit_value (dig_char k) = Some (int k)" using assms by (simp add: digit_value_def Let_def code)
  show "\<not> isspace (char_int (dig_char k))" by (simp add: code isspace_def isblank_def)
  have *: "dig_char k \<noteq> c" if "char_int c \<noteq> char_int (dig_char k)" for c using that by auto
  show "dig_char k \<noteq> 0" "dig_char k \<noteq> 45" "dig_char k \<noteq> 43" by (rule *; simp add: code; simp add: char_int_def)+
  show "dig_char k \<noteq> 120" "dig_char k \<noteq> 88" if "k < 16"
    using that by - (rule *; simp add: code; simp add: char_int_def)+
qed

lemma sdiv_smod_nat:
  "int n sdiv int b = int (n div b)" "int n smod int b = int (n mod b)"
  "- int n sdiv int b = - int (n div b)" "- int n smod int b = - int (n mod b)"
  by (simp_all add: signed_divide_int_def signed_modulo_int_def sgn_if zdiv_int zmod_int minus_div_mult_eq_mod)

lemma put_digs_step:
  assumes "2 \<le> b" "n < 2 ^ 32" "b \<le> n"
  shows "put (store8 m p (dig_char (n mod b))) (p + 1) (map dig_char (digs b (n div b))) = put m p (map dig_char (digs b n))"
    and "length (digs b n) = Suc (length (digs b (n div b)))"
proof -
  have "n div b < 2 ^ 32" using assms(2) div_le_dividend[of n b] by linarith
  then have "length (digs b (n div b)) \<le> 32" using length_digs[of b "n div b" 32] assms(1) by simp
  moreover have digs: "digs b n = n mod b # digs b (n div b)" using assms by (subst digs.simps) simp
  ultimately show "put (store8 m p (dig_char (n mod b))) (p + 1) (map dig_char (digs b (n div b))) = put m p (map dig_char (digs b n))"
    by (simp add: put_Cons)
  show "length (digs b n) = Suc (length (digs b (n div b)))" by (simp add: digs)
qed

lemma emit_signed_digs:
  assumes "2 \<le> b" "b \<le> 36"
  shows "n < 2 ^ 32 \<Longrightarrow> value = int n \<or> value = - int n \<Longrightarrow>
    emit_signed m p value (int b) = Some (put m p (map dig_char (digs b n)), p + of_nat (length (digs b n)))"
proof (induction n arbitrary: m p "value" rule: less_induct)
  case (less n)
  have "n mod b < 36" using assms mod_less_divisor[of b n] by linarith
  then have ch: "numbase ! nat (35 + value smod int b) = dig_char (n mod b)"
    using less.prems(2) numbase_sym[of "n mod b"]
    by (auto simp: sdiv_smod_nat dig_char_def nat_add_distrib nat_diff_distrib)
  have q: "value sdiv int b = int (n div b) \<or> value sdiv int b = - int (n div b)"
    using less.prems(2) by (auto simp: sdiv_smod_nat)
  show ?case
  proof (cases "n < b")
    case True
    then have "value sdiv int b = 0" using q by simp
    then show ?thesis
      using True ch by (subst emit_signed.simps) (simp add: Let_def digs.simps[of b n] put_Cons[of "[]", simplified])
  next
    case False
    then have nz: "value sdiv int b \<noteq> 0" using q assms(1) by (auto simp: div_eq_0_iff)
    have "n div b < n" using False assms(1) by simp
    then have "emit_signed (store8 m p (dig_char (n mod b))) (p + 1) (value sdiv int b) (int b) =
        Some (put (store8 m p (dig_char (n mod b))) (p + 1) (map dig_char (digs b (n div b))),
          p + 1 + of_nat (length (digs b (n div b))))"
      using less.IH[of "n div b"] q less.prems(1) by auto
    then show ?thesis
      using ch nz put_digs_step(1)[of b n m p] put_digs_step(2)[of b n] False assms(1) less.prems(1)
      by (subst emit_signed.simps) (simp add: Let_def add.assoc)
  qed
qed

lemma emit_unsigned_digs:
  assumes "2 \<le> b" "b \<le> 36"
  shows "emit_unsigned m p value (of_nat b) =
    Some (put m p (map dig_char (digs b (unat value))), p + of_nat (length (digs b (unat value))))"
proof (induction "unat value" arbitrary: m p "value" rule: less_induct)
  case less
  let ?n = "unat value"
  have ub: "unat (of_nat b :: u32) = b" using assms by (intro unat_of_nat_small) simp
  have q: "unat (value div of_nat b) = ?n div b" and r: "unat (value mod of_nat b) = ?n mod b"
    by (simp_all add: unat_div_distrib unat_mod_distrib ub)
  have n: "?n < 2 ^ 32" using unat_u32_less[of "value"] by simp
  show ?case
  proof (cases "?n < b")
    case True
    then have "value div of_nat b = 0" using q by (simp add: unat_eq_zero[symmetric])
    then show ?thesis
      using True r by (subst emit_unsigned.simps) (simp add: Let_def digs.simps[of b ?n] put_Cons[of "[]", simplified] dig_char_def)
  next
    case False
    then have nz: "value div of_nat b \<noteq> 0" using q assms(1) by (auto simp: div_eq_0_iff unat_eq_zero[symmetric])
    have "?n div b < ?n" using False assms(1) by simp
    then have "emit_unsigned (store8 m p (dig_char (?n mod b))) (p + 1) (value div of_nat b) (of_nat b) =
        Some (put (store8 m p (dig_char (?n mod b))) (p + 1) (map dig_char (digs b (?n div b))),
          p + 1 + of_nat (length (digs b (?n div b))))"
      using less.hyps q by simp
    then show ?thesis
      using r nz put_digs_step(1)[of b ?n m p] put_digs_step(2)[of b ?n] False assms(1) n
      by (subst emit_unsigned.simps) (simp add: Let_def add.assoc dig_char_def)
  qed
qed

lemma cstr_put:
  assumes "0 \<notin> set s" "length s < 2 ^ 32"
  shows "cstr (put m p (s @ [0])) p s"
  using assms by (intro cstrI) (simp_all add: put_at nth_append)

text \<open>The text \<open>lutoa\<close> and \<open>ltoa\<close> leave in the buffer.\<close>

lemma emit_reverse:
  assumes b: "2 \<le> b" "b \<le> 36" and n: "n < 2 ^ 32" and fits: "unat low + 33 \<le> 2 ^ 32"
  shows "reverse_bytes (store8 (put m low (map dig_char (digs b n))) (low + of_nat (length (digs b n))) 0) low
     (low + of_nat (length (digs b n)) - 1) = Some (put m low (dig_text b n @ [0]))"
proof -
  let ?ds = "map dig_char (digs b n)"
  let ?k = "length (digs b n)"
  have k: "?k \<le> 32" using length_digs[of b n 32] b n by simp
  have "store8 (put m low cs) (low + of_nat ?k) 0 = put (store8 m (low + of_nat ?k) 0) low cs" if "length cs = ?k" for cs
    using that k by (intro ext) (auto simp: store8_def put_def unat_of_nat_small)
  note swap0 = this
  have "reverse_bytes (put (store8 m (low + of_nat ?k) 0) low ?ds) low (low + of_nat (length ?ds) - 1) =
    Some (put (store8 m (low + of_nat ?k) 0) low (rev ?ds))"
    using k fits by (intro reverse_bytes_put) simp_all
  moreover have "put (store8 m (low + of_nat ?k) 0) low (rev ?ds) = put m low (dig_text b n @ [0])"
    using swap0[of "rev ?ds"] put_snoc[of "rev ?ds" m low 0] k by (simp add: dig_text_def rev_map)
  ultimately show ?thesis using swap0[of ?ds] by simp
qed

lemma lutoa_text:
  assumes "2 \<le> b" "b \<le> 36" "unat str + 33 \<le> 2 ^ 32"
  shows "lutoa m value str (int b) = Some (str, put m str (dig_text b (unat value) @ [0]))"
  using assms emit_unsigned_digs[of b m str "value"] emit_reverse[of b "unat value" str m] unat_u32_less[of "value"]
  by (simp add: lutoa_def)

lemma unat_uminus:
  assumes "v \<noteq> 0"
  shows "unat (- v :: u32) = 2 ^ 32 - unat v"
proof -
  have v: "unat v \<le> 2 ^ 32" using unat_u32_less[of v] by simp
  have "(of_nat (2 ^ 32 - unat v) :: u32) = of_nat (2 ^ 32) - of_nat (unat v)" using v by (rule of_nat_diff)
  also have "(of_nat (2 ^ 32) :: u32) = 0" by simp
  finally have "- v = of_nat (2 ^ 32 - unat v)" by simp
  moreover have "2 ^ 32 - unat v < 2 ^ 32" using assms by (simp add: unat_gt_0)
  ultimately show ?thesis by (metis unat_of_nat_small len32)
qed

lemma sint_of_int_small: "- (2 ^ 31) \<le> x \<Longrightarrow> x < 2 ^ 31 \<Longrightarrow> sint (of_int x :: u32) = x"
  by (simp add: signed_of_int signed_take_bit_int_eq_self)

lemma sint_cases: "sint (v :: u32) = (if unat v < 2 ^ 31 then int (unat v) else int (unat v) - 2 ^ 32)"
proof -
  have "v = of_int (if unat v < 2 ^ 31 then int (unat v) else int (unat v) - 2 ^ 32)" by simp
  moreover have "sint (of_int (if unat v < 2 ^ 31 then int (unat v) else int (unat v) - 2 ^ 32) :: u32) =
    (if unat v < 2 ^ 31 then int (unat v) else int (unat v) - 2 ^ 32)"
    using unat_u32_less[of v] by (intro sint_of_int_small) (auto simp del: of_nat_unat)
  ultimately show ?thesis by metis
qed

lemma sint_magnitude:
  fixes v :: u32
  assumes "sint v < 0"
  shows "sint v = - int (unat (- v))"
    and "sint (- v) = int (unat (- v)) \<or> sint (- v) = - int (unat (- v))"
proof -
  have big: "2 ^ 31 \<le> unat v" using assms sint_cases[of v] by (metis not_le of_nat_less_0_iff)
  then have um: "unat (- v) = 2 ^ 32 - unat v" by (intro unat_uminus) auto
  have i: "int (unat (- v)) = 2 ^ 32 - int (unat v)" using unat_u32_less[of v] by (simp add: um)
  then show "sint v = - int (unat (- v))" using big sint_cases[of v] by simp
  show "sint (- v) = int (unat (- v)) \<or> sint (- v) = - int (unat (- v))"
    using big i sint_cases[of "- v"] um by (cases "unat v = 2 ^ 31") auto
qed

lemma ltoa_text:
  assumes b: "2 \<le> b" "b \<le> 36" and fits: "unat str + 34 \<le> 2 ^ 32"
  shows "ltoa m value str (int b) = Some (str,
    if b = 10 \<and> sint value < 0 then put m str (45 # dig_text b (unat (- value)) @ [0])
    else put m str (dig_text b (unat (labs value)) @ [0]))"
proof (cases "sint value < 0")
  case False
  then have "sint value = int (unat value)"
    using sint_cases[of "value"] unat_u32_less[of "value"] by (auto split: if_splits simp del: of_nat_unat)
  then show ?thesis
    using False b fits emit_signed_digs[of b "unat value" "sint value" m str] emit_reverse[of b "unat value" str m]
      unat_u32_less[of "value"] by (simp add: ltoa_def labs_def)
next
  case True
  have n: "unat (- value) < 2 ^ 32" using unat_u32_less[of "- value"] by simp
  show ?thesis
  proof (cases "b = 10")
    case False
    then show ?thesis
      using True b fits n emit_signed_digs[of b "unat (- value)" "sint (- value)" m str] sint_magnitude(2)[OF True]
        emit_reverse[of b "unat (- value)" str m] by (simp add: ltoa_def labs_def)
  next
    case b10: True
    have s1: "unat (str + 1) + 33 \<le> 2 ^ 32" using fits unat_add_of_nat[of str 1] by simp
    have len: "length (dig_text 10 (unat (- value)) @ [0]) < 2 ^ 32"
      using length_digs[of 10 "unat (- value)" 32] n by (simp add: dig_text_def)
    then show ?thesis
      using True b10 n sint_magnitude(1)[OF True] emit_signed_digs[of 10 "unat (- value)" "sint value" "store8 m str 45" "str + 1"]
        emit_reverse[of 10 "unat (- value)" "str + 1" "store8 m str 45", OF _ _ n s1] put_Cons[OF len, of m str 45]
      by (simp add: ltoa_def)
  qed
qed

section \<open>Reading a number back\<close>

lemma digits_loop_text:
  assumes "2 \<le> b" "b \<le> 36"
  shows "cstr m p (map dig_char ds) \<Longrightarrow> \<forall>d\<in>set ds. d < b \<Longrightarrow>
    digits_loop m p (int b) acc = Some (Some (p + of_nat (length ds), foldl (\<lambda>a d. a * of_nat b + of_nat d) acc ds))"
proof (induction ds arbitrary: p acc)
  case Nil
  then show ?case by (subst digits_loop.simps) simp
next
  case (Cons d ds)
  then have "d < b" "m p = dig_char d" by simp_all
  then show ?case
    using Cons assms dig_char_facts[of d] by (subst digits_loop.simps) (simp add: add.assoc)
qed

lemma dig_text_props:
  assumes "2 \<le> b" "b \<le> 36" "n < 2 ^ 32"
  shows "0 \<notin> set (dig_text b n)" "length (dig_text b n) \<le> 32" "dig_text b n \<noteq> []"
    "\<forall>c\<in>set (dig_text b n). \<exists>d<b. c = dig_char d"
proof -
  have all: "\<exists>d<b. c = dig_char d" if "c \<in> set (dig_text b n)" for c
    using that digs_less[OF assms(1)] by (auto simp: dig_text_def)
  then show "\<forall>c\<in>set (dig_text b n). \<exists>d<b. c = dig_char d" by blast
  show "0 \<notin> set (dig_text b n)" using all[of 0] dig_char_facts(2) assms(2) by (metis less_le_trans)
  show "length (dig_text b n) \<le> 32" using length_digs[of b n 32] assms by (simp add: dig_text_def)
  show "dig_text b n \<noteq> []" by (simp add: dig_text_def)
qed

lemma digits_loop_dig_text:
  assumes "2 \<le> b" "b \<le> 36" "cstr m p (dig_text b n)"
  shows "digits_loop m p (int b) 0 = Some (Some (p + of_nat (length (dig_text b n)), of_nat n))"
  using assms digits_loop_text[of b m p "rev (digs b n)" 0] digs_less[of b _ n] foldr_digs[of b n, where 'a = u32]
  by (simp add: dig_text_def foldr_conv_foldl rev_map)

text \<open>No digit to the base 16 is an \<open>x\<close>, so that no prefix is skipped; to the other bases none is looked for.\<close>

lemma strtol_dig_text:
  assumes b: "2 \<le> b" "b \<le> 36" and n: "n < 2 ^ 32" and c: "cstr m p (dig_text b n)"
  shows "strtol m p (int b) = Some (of_nat n, Some (p + of_nat (length (dig_text b n))))"
proof -
  note props = dig_text_props[OF b n]
  obtain c0 cs where cs: "dig_text b n = c0 # cs" using props(3) by (cases "dig_text b n") auto
  have m0: "m p = c0" "cstr m (p + 1) cs" using c by (simp_all add: cs)
  obtain d where d: "d < b" "c0 = dig_char d" using props(4) by (auto simp: cs)
  note f = dig_char_facts[of d]
  have sp: "skip_spaces m p = Some p" using m0 d b f by (subst skip_spaces.simps) simp
  have hex: "\<not> (m (p + 1) = 120 \<or> m (p + 1) = 88)" if "b = 16"
  proof (cases cs)
    case Nil
    then show ?thesis using m0(2) by simp
  next
    case (Cons c1 cs')
    then obtain d1 where "d1 < b" "c1 = dig_char d1" using props(4) by (auto simp: cs)
    then show ?thesis using m0(2) Cons that dig_char_facts(6,7)[of d1] by simp
  qed
  show ?thesis
    using b sp m0(1) d f hex digits_loop_dig_text[OF b c] by (auto simp: strtol_def Let_def)
qed

lemma strtol_neg_text:
  assumes n: "n < 2 ^ 32" and c: "cstr m p (45 # dig_text 10 n)"
  shows "strtol m p 10 = Some (- of_nat n, Some (p + of_nat (Suc (length (dig_text 10 n)))))"
proof -
  note props = dig_text_props[of 10 n, simplified, OF n[simplified]]
  obtain c0 cs where cs: "dig_text 10 n = c0 # cs" using props(3) by (cases "dig_text 10 n") auto
  have m0: "m p = 45" "m (p + 1) = c0" "c0 \<noteq> 0" using c by (simp_all add: cs)
  have sp: "skip_spaces m p = Some p" by (subst skip_spaces.simps) (simp add: m0 char_int_def isspace_def isblank_def)
  have "cstr m (p + 1) (dig_text 10 n)" using c by simp
  then show ?thesis
    using sp m0 digits_loop_dig_text[of 10 m "p + 1" n] by (simp add: strtol_def Let_def add.assoc)
qed

text \<open>What \<open>ltoa\<close> writes, \<open>strtol\<close> reads back: for every 32-bit value, the smallest included, and every
  base from 2 to 36, \<open>ltoa\<close> returns the buffer with a NUL-terminated text of at most 33 characters in it and
  nothing else changed, and \<open>strtol\<close> of that text yields the value itself to the base 10 and its magnitude
  to any other base, where no sign is written, with the end pointer at the terminator.\<close>

theorem ltoa_strtol_round_trip:
  assumes "2 \<le> b" "b \<le> 36" "unat str + 34 \<le> 2 ^ 32"
  shows "\<exists>m' chars. ltoa m v str (int b) = Some (str, m') \<and> cstr m' str chars \<and> length chars \<le> 33
    \<and> (\<forall>a. 34 \<le> unat (a - str) \<longrightarrow> m' a = m a)
    \<and> strtol m' str (int b) = Some (if b = 10 then v else labs v, Some (str + of_nat (length chars)))"
proof -
  define w where "w = (if b = 10 \<and> sint v < 0 then - v else labs v)"
  define chars where "chars = (if b = 10 \<and> sint v < 0 then [45] else []) @ dig_text b (unat w)"
  let ?m = "put m str (chars @ [0])"
  have w: "unat w < 2 ^ 32" using unat_u32_less[of w] by simp
  note props = dig_text_props[OF assms(1,2) w]
  have run: "ltoa m v str (int b) = Some (str, ?m)"
    using ltoa_text[OF assms, of m v] by (auto simp: chars_def w_def)
  have len: "length chars \<le> 33" using props(2) by (auto simp: chars_def)
  have c: "cstr ?m str chars" using props(1) len by (intro cstr_put) (auto simp: chars_def)
  have rest: "\<forall>a. 34 \<le> unat (a - str) \<longrightarrow> ?m a = m a" using len by (auto intro!: put_outside)
  have "strtol ?m str (int b) = Some (if b = 10 then v else labs v, Some (str + of_nat (length chars)))"
  proof (cases "b = 10 \<and> sint v < 0")
    case True
    then show ?thesis using strtol_neg_text[OF w, of ?m str] c by (simp add: chars_def w_def)
  next
    case False
    then show ?thesis using strtol_dig_text[OF assms(1,2) w, of ?m str] c by (auto simp: chars_def w_def labs_def)
  qed
  then show ?thesis using run len c rest by blast
qed

theorem ltoa_strtol_round_trip_witness:
  "\<exists>m' chars. ltoa (\<lambda>_. 1) 0x80000000 0x1000 (int 10) = Some (0x1000, m') \<and> cstr m' 0x1000 chars \<and> length chars \<le> 33
    \<and> (\<forall>a. 34 \<le> unat (a - 0x1000) \<longrightarrow> m' a = 1)
    \<and> strtol m' 0x1000 (int 10) = Some (0x80000000, Some (0x1000 + of_nat (length chars)))"
  using ltoa_strtol_round_trip[of 10 "0x1000" "\<lambda>_. 1" "0x80000000"] by simp

section \<open>\<open>qsort\<close> and \<open>bsearch\<close>\<close>

text \<open>C31: \<open>qsort\<close> terminates on every array and every consistent comparison function; the result is the
  array's own elements rearranged, ascending in its first \<open>num\<close> entries, and untouched behind them. The
  index \<open>i = start - 1\<close> that wraps around at the start of the array does no harm.\<close>

theorem qsort_sorts:
  assumes "comparator cmp" "unat num \<le> length xs" "length xs < 2 ^ 32"
  shows "\<exists>ys. qsort xs num cmp = Some ys \<and> mset ys = mset xs \<and> drop (unat num) ys = drop (unat num) xs
    \<and> sorted_wrt (\<lambda>a b. cmp a b \<le> 0) (take (unat num) ys)"
proof -
  obtain ys where ys: "qsort_inplace cmp (of_nat 0) (of_nat (unat num)) xs = Some ys" "permuted 0 (unat num) xs ys"
    "\<forall>t u. 0 \<le> t \<and> t \<le> u \<and> u < unat num \<longrightarrow> cmp (ys ! t) (ys ! u) \<le> 0"
    using qsort_inplace_spec[of cmp 0 "unat num" xs] assms by blast
  have "drop (unat num) ys = drop (unat num) xs"
    using ys(2) by (intro nth_equalityI) (auto simp: permuted_def)
  moreover have "sorted_wrt (\<lambda>a b. cmp a b \<le> 0) (take (unat num) ys)"
    using ys(3) by (auto simp: sorted_wrt_iff_nth_less)
  ultimately show ?thesis using ys(1,2) by (auto simp: qsort_def permuted_def)
qed

theorem qsort_sorts_witness:
  "\<exists>ys. qsort [3, 1, 2 :: int] 3 (\<lambda>a b. a - b) = Some ys \<and> mset ys = mset [3, 1, 2] \<and>
     drop (unat (3 :: u32)) ys = drop (unat (3 :: u32)) [3, 1, 2] \<and>
     sorted_wrt (\<lambda>a b. a - b \<le> 0) (take (unat (3 :: u32)) ys)"
  using qsort_sorts[of "\<lambda>a b. a - b" 3 "[3, 1, 2 :: int]"] by (simp add: comparator_def)

text \<open>The array is ascending as the comparison with \<open>key\<close> sees it.\<close>

definition ascending_for :: "('k \<Rightarrow> 'e \<Rightarrow> int) \<Rightarrow> 'k \<Rightarrow> 'e list \<Rightarrow> nat \<Rightarrow> bool" where
  "ascending_for cmp key xs n \<longleftrightarrow> (\<forall>i j. i \<le> j \<and> j < n \<longrightarrow>
     (cmp key (xs ! i) < 0 \<longrightarrow> cmp key (xs ! j) < 0) \<and> (0 < cmp key (xs ! j) \<longrightarrow> 0 < cmp key (xs ! i)))"

lemma unat_eq_of_nat_iff: "unat (w :: u32) = n \<Longrightarrow> w = of_nat n"
  by auto

lemma Suc_word: "(of_nat n :: u32) + 1 = of_nat (Suc n)"
  by simp

lemma bsearch_loop_spec:
  assumes asc: "ascending_for cmp key xs n" and n: "n < 2 ^ 31"
  shows "s \<le> e \<Longrightarrow> e \<le> n \<Longrightarrow> \<forall>t < s. cmp key (xs ! t) \<noteq> 0 \<Longrightarrow> \<forall>t. e \<le> t \<and> t < n \<longrightarrow> cmp key (xs ! t) \<noteq> 0 \<Longrightarrow>
    \<exists>r. bsearch_loop cmp key xs (of_nat s) (of_nat e) = Some r \<and>
      (case r of Some i \<Rightarrow> unat i < n \<and> cmp key (xs ! unat i) = 0 | None \<Rightarrow> \<forall>t<n. cmp key (xs ! t) \<noteq> 0)"
proof (induction "e - s" arbitrary: s e rule: less_induct)
  case less
  have us: "unat (of_nat s :: u32) = s" and ue: "unat (of_nat e :: u32) = e"
    using less.prems n by (intro unat_of_nat_small; simp)+
  show ?case
  proof (cases "s < e")
    case False
    then have "\<forall>t<n. cmp key (xs ! t) \<noteq> 0" using less.prems by (metis not_less le_antisym)
    then show ?thesis using False us ue
      by (intro exI[of _ None]) (subst bsearch_loop.simps, simp add: word_less_nat_alt)
  next
    case True
    define mid where "mid = (s + e) div 2"
    have mid: "s \<le> mid" "mid < e" using True by (auto simp: mid_def)
    have se: "unat ((of_nat s :: u32) + of_nat e) = s + e"
      using us ue less.prems n by (subst unat_add_no_wrap) simp_all
    have "unat (((of_nat s :: u32) + of_nat e) div 2) = mid" using se by (simp add: unat_div_distrib mid_def)
    then have w: "((of_nat s :: u32) + of_nat e) div 2 = of_nat mid" 
      by (metis unat_eq_of_nat_iff)
    have umid: "unat (of_nat mid :: u32) = mid" using mid less.prems n by (intro unat_of_nat_small) simp
    have step: "bsearch_loop cmp key xs (of_nat s) (of_nat e) =
      (if cmp key (xs ! mid) = 0 then Some (Some (of_nat mid))
       else if cmp key (xs ! mid) < 0 then bsearch_loop cmp key xs (of_nat s) (of_nat mid)
       else bsearch_loop cmp key xs (of_nat (Suc mid)) (of_nat e))"
      using True us ue by (subst bsearch_loop.simps) (simp add: w umid Let_def word_less_nat_alt Suc_word del: of_nat_Suc)
    have asc': "i \<le> j \<Longrightarrow> j < n \<Longrightarrow> (cmp key (xs ! i) < 0 \<longrightarrow> cmp key (xs ! j) < 0) \<and>
      (0 < cmp key (xs ! j) \<longrightarrow> 0 < cmp key (xs ! i))" for i j using asc unfolding ascending_for_def by blast
    consider "cmp key (xs ! mid) = 0" | "cmp key (xs ! mid) < 0" | "0 < cmp key (xs ! mid)" by linarith
    then show ?thesis
    proof cases
      case 1
      then show ?thesis using step umid mid less.prems(2) by (intro exI[of _ "Some (of_nat mid)"]) simp
    next
      case 2
      have "\<forall>t. mid \<le> t \<and> t < n \<longrightarrow> cmp key (xs ! t) \<noteq> 0" using asc' 2 by fastforce
      then show ?thesis using step 2 less.hyps[of mid s] mid less.prems by simp
    next
      case 3
      have "\<forall>t<Suc mid. cmp key (xs ! t) \<noteq> 0" using asc' 3 mid less.prems(2) by (metis less_Suc_eq_le le_less_trans less_le_trans less_irrefl)
      then show ?thesis using step 3 less.hyps[of e "Suc mid"] mid less.prems by simp
    qed
  qed
qed

text \<open>\<open>bsearch\<close> terminates on every array of fewer than \<open>2 ^ 31\<close> elements; if the array is ascending as
  the comparison with the key sees it, \<open>bsearch\<close> returns an element that compares equal whenever there is one,
  and \<open>NULL\<close> exactly when there is none.\<close>

theorem bsearch_finds:
  assumes "ascending_for compar key base (unat num)" "unat num < 2 ^ 31"
  shows "\<exists>r. bsearch key base num compar = Some r \<and>
    (case r of Some i \<Rightarrow> unat i < unat num \<and> compar key (base ! unat i) = 0
     | None \<Rightarrow> \<forall>t<unat num. compar key (base ! t) \<noteq> 0)"
  using bsearch_loop_spec[OF assms, of 0 "unat num"] by (simp add: bsearch_def)

theorem bsearch_finds_witness:
  "\<exists>r. bsearch 5 [1, 3, 5, 7 :: int] 4 (\<lambda>k e. k - e) = Some r \<and>
    (case r of Some i \<Rightarrow> unat i < unat (4 :: u32) \<and> 5 - [1, 3, 5, 7 :: int] ! unat i = 0
     | None \<Rightarrow> \<forall>t<unat (4 :: u32). 5 - [1, 3, 5, 7 :: int] ! t \<noteq> 0)"
proof (rule bsearch_finds)
  have "list_all (\<lambda>i. list_all (\<lambda>j. i \<le> j \<longrightarrow> [1, 3, 5, 7 :: int] ! i \<le> [1, 3, 5, 7] ! j) [0..<4]) [0..<4]"
    by code_simp
  then have "[1, 3, 5, 7 :: int] ! i \<le> [1, 3, 5, 7] ! j" if "i \<le> j" "j < 4" for i j :: nat
    unfolding list_all_iff set_upt using that by (metis atLeastLessThan_iff le0 le_less_trans)
  then show "ascending_for (\<lambda>k e. k - e) 5 [1, 3, 5, 7 :: int] (unat (4 :: u32))"
    unfolding ascending_for_def by force
qed simp

end
