(* ===== verification/Net.thy ===== *)
theory Net
  imports Phys_Memory
begin

text \<open>
  The lower half of the network stack: \<^verbatim>\<open>drivers/ethernet.c\<close>, \<^verbatim>\<open>modules/net/arp.c\<close>,
  \<^verbatim>\<open>ip.c\<close> and \<^verbatim>\<open>udp.c\<close>. A packet that is sent is the list of its bytes; a packet that is
  received lies in the byte store \<open>pmem\<close>, where the code overwrites its checksum fields while it
  verifies them. What the network card's \<open>write\<close> is given is appended to \<open>sent\<close>. The buffers an
  outgoing packet is put together in are taken to be available.

  \<open>timer_wait(10)\<close> lets interrupts in, and with them other packets: what happens to the state
  meanwhile is the argument \<open>tick\<close> of the operations that wait.
\<close>

section \<open>State\<close>

record ipv4_config =
  ip :: "u8 list"
  netmask :: "u8 list"
  gateway :: "u8 list"
  dns :: "u8 list"
  lease_time :: u32

record ethernet_driver =
  mac :: "u8 list"
  ipv4 :: ipv4_config
  int_no :: u32

record frame =
  destination_mac :: "u8 list"
  source_mac :: "u8 list"
  ethertype :: u16
  payload :: "u8 list"

record arp_map =
  map_ip :: "u8 list"
  map_mac :: "u8 list"

datatype udp_listener = Dhcp_udp_listener | Dns_udp_listener

text \<open>
  \<open>driver\<close> is the interface an operation is called for. \<open>arp_list\<close> is the array of ten entries
  and the memory behind it. \<open>udp_listeners\<close> is \<open>None\<close> until \<open>udp_init\<close> has run.
\<close>

record net_state =
  driver :: ethernet_driver
  pmem :: mem
  sent :: "frame list"
  arp_list :: "nat \<Rightarrow> arp_map"
  curr_arp :: u32
  udp_listeners :: "(u16 \<Rightarrow> udp_listener option) option"

section \<open>Bytes of the packets\<close>

definition le16 :: "u16 \<Rightarrow> u8 list" where
  "le16 v = [ucast v, ucast (drop_bit 8 v)]"

definition le32 :: "u32 \<Rightarrow> u8 list" where
  "le32 v = [ucast v, ucast (drop_bit 8 v), ucast (drop_bit 16 v), ucast (drop_bit 24 v)]"

section \<open>Ethernet\<close>

abbreviation (input) ETHERTYPE_IPV4 :: u16 where "ETHERTYPE_IPV4 \<equiv> 0x0800"
abbreviation (input) ETHERTYPE_ARP :: u16 where "ETHERTYPE_ARP \<equiv> 0x0806"

definition ethernet_send_packet :: "u8 list \<Rightarrow> u16 \<Rightarrow> u8 list \<Rightarrow> 'a net_state_scheme \<Rightarrow> 'a net_state_scheme" where
  "ethernet_send_packet dest etype data s =
     s\<lparr>sent := sent s @ [\<lparr>destination_mac = dest, source_mac = mac (driver s), ethertype = htons etype, payload = data\<rparr>]\<rparr>"

text \<open>The two interface slots.\<close>

definition ethernet_assign_driver :: "'d \<Rightarrow> 'd option list \<Rightarrow> bool \<times> 'd option list" where
  "ethernet_assign_driver drv eth =
     (if eth ! 0 = None then (True, eth[0 := Some drv])
      else if eth ! 1 = None then (True, eth[1 := Some drv])
      else (False, eth))"

section \<open>ARP\<close>

abbreviation (input) ARP_OP_REQUEST :: u16 where "ARP_OP_REQUEST \<equiv> 1"
abbreviation (input) ARP_OP_REPLY :: u16 where "ARP_OP_REPLY \<equiv> 2"

text \<open>\<open>struct arp_packet\<close>: 28 bytes, packed; the multi-byte fields in network order.\<close>

record arp_packet =
  hardware_type :: u16
  protocol_type :: u16
  hardware_size :: u8
  protocol_size :: u8
  opcode :: u16
  sender_mac :: "u8 list"
  sender_ip :: "u8 list"
  target_mac :: "u8 list"
  target_ip :: "u8 list"

definition arp_bytes :: "arp_packet \<Rightarrow> u8 list" where
  "arp_bytes p = le16 (hardware_type p) @ le16 (protocol_type p) @ [hardware_size p, protocol_size p] @
     le16 (opcode p) @ sender_mac p @ sender_ip p @ target_mac p @ target_ip p"

definition arp_at :: "mem \<Rightarrow> ptr \<Rightarrow> arp_packet" where
  "arp_at m p = \<lparr>hardware_type = load16 m p, protocol_type = load16 m (p + 2), hardware_size = m (p + 4),
     protocol_size = m (p + 5), opcode = load16 m (p + 6), sender_mac = bytes m (p + 8) 6,
     sender_ip = bytes m (p + 14) 4, target_mac = bytes m (p + 18) 6, target_ip = bytes m (p + 24) 4\<rparr>"

definition arp_packet_of :: "'a net_state_scheme \<Rightarrow> u16 \<Rightarrow> u8 list \<Rightarrow> u8 list \<Rightarrow> arp_packet" where
  "arp_packet_of s op tmac tip =
     \<lparr>hardware_type = htons 1, protocol_type = htons 0x0800, hardware_size = 6, protocol_size = 4,
      opcode = htons op, sender_mac = mac (driver s), sender_ip = ip (ipv4 (driver s)),
      target_mac = tmac, target_ip = tip\<rparr>"

definition arp_send_request :: "u8 list \<Rightarrow> 'a net_state_scheme \<Rightarrow> 'a net_state_scheme" where
  "arp_send_request tip s =
     ethernet_send_packet (replicate 6 0xFF) ETHERTYPE_ARP
       (arp_bytes (arp_packet_of s ARP_OP_REQUEST (replicate 6 0) tip)) s"

definition arp_send_reply :: "u8 list \<Rightarrow> u8 list \<Rightarrow> 'a net_state_scheme \<Rightarrow> 'a net_state_scheme" where
  "arp_send_reply tip tmac s =
     ethernet_send_packet tmac ETHERTYPE_ARP (arp_bytes (arp_packet_of s ARP_OP_REPLY tmac tip)) s"

text \<open>\<open>for (i = 0; i < curr_arp; i++) if (arp_list[i].ip == ip) ...\<close>: the first entry for the address.\<close>

definition arp_lookup :: "'a net_state_scheme \<Rightarrow> u8 list \<Rightarrow> u8 list option" where
  "arp_lookup s tip =
     map_option (\<lambda>i. map_mac (arp_list s i))
       (List.find (\<lambda>i. map_ip (arp_list s i) = tip) [0..<unat (curr_arp s)])"

fun arp_wait :: "('a net_state_scheme \<Rightarrow> 'a net_state_scheme) \<Rightarrow> nat \<Rightarrow> u8 list \<Rightarrow> 'a net_state_scheme \<Rightarrow>
    u8 list option \<times> 'a net_state_scheme" where
  "arp_wait tick 0 tip s = (None, s)"
| "arp_wait tick (Suc k) tip s =
     (let s' = tick s
      in case arp_lookup s' tip of Some m \<Rightarrow> (Some m, s') | None \<Rightarrow> arp_wait tick k tip s')"

text \<open>\<open>for (t = 0; t < timeout; t += 10)\<close>\<close>

definition rounds :: "nat \<Rightarrow> nat" where
  "rounds timeout = (timeout + 9) div 10"

definition arp_get_mac :: "('a net_state_scheme \<Rightarrow> 'a net_state_scheme) \<Rightarrow> u8 list \<Rightarrow> nat \<Rightarrow> 'a net_state_scheme \<Rightarrow>
    u8 list option \<times> 'a net_state_scheme" where
  "arp_get_mac tick tip timeout s =
     (case arp_lookup s tip of Some m \<Rightarrow> (Some m, s)
      | None \<Rightarrow> arp_wait tick (rounds timeout) tip (arp_send_request tip s))"

definition arp_process_request :: "arp_packet \<Rightarrow> 'a net_state_scheme \<Rightarrow> 'a net_state_scheme" where
  "arp_process_request packet s =
     (if ip (ipv4 (driver s)) = target_ip packet then arp_send_reply (sender_ip packet) (sender_mac packet) s else s)"

text \<open>The bound is \<open>sizeof(arp_list)\<close>, the 100 bytes of the ten entries.\<close>

definition arp_process_reply :: "arp_packet \<Rightarrow> 'a net_state_scheme \<Rightarrow> 'a net_state_scheme" where
  "arp_process_reply packet s =
     (if curr_arp s < 100
      then s\<lparr>arp_list := (arp_list s)(unat (curr_arp s) := \<lparr>map_ip = sender_ip packet, map_mac = sender_mac packet\<rparr>),
             curr_arp := curr_arp s + 1\<rparr>
      else s)"

definition arp_receive_packet :: "ptr \<Rightarrow> 'a net_state_scheme \<Rightarrow> 'a net_state_scheme" where
  "arp_receive_packet p s =
     (let packet = arp_at (pmem s) p; op = ntohs (opcode packet)
      in if op = ARP_OP_REQUEST then arp_process_request packet s
         else if op = ARP_OP_REPLY then arp_process_reply packet s else s)"

section \<open>IPv4\<close>

definition ipv4_is_cidr_subnet :: "u8 list \<Rightarrow> u8 list \<Rightarrow> u8 list \<Rightarrow> bool" where
  "ipv4_is_cidr_subnet addr netip netmsk \<longleftrightarrow>
     addr ! 0 AND netmsk ! 0 = netip ! 0 AND netmsk ! 0 \<and> addr ! 1 AND netmsk ! 1 = netip ! 1 AND netmsk ! 1 \<and>
     addr ! 2 AND netmsk ! 2 = netip ! 2 AND netmsk ! 2 \<and> addr ! 3 AND netmsk ! 3 = netip ! 3 AND netmsk ! 3"

text \<open>\<open>checksum += data16[i]\<close> over the 16-bit words of a region.\<close>

fun sum16 :: "u32 \<Rightarrow> u8 list \<Rightarrow> u32" where
  "sum16 checksum (a # b # bs) = sum16 (checksum + (ucast a + 256 * ucast b)) bs"
| "sum16 checksum _ = checksum"

lemma unat_low_half: "unat ((c :: u32) AND 0xFFFF) = unat c mod 65536"
proof -
  have "c AND 0xFFFF = take_bit 16 c" by (simp add: take_bit_eq_mask mask_eq_exp_minus_1)
  then show ?thesis by (simp add: take_bit_eq_mod unat_mod_distrib)
qed

lemma unat_high_half: "unat (drop_bit 16 (c :: u32)) = unat c div 65536"
  by (simp add: drop_bit_eq_div unat_div_distrib)

lemma unat_fold_step:
  "unat ((c :: u32) AND 0xFFFF) + unat (drop_bit 16 c) < 2 ^ 32"
  "unat ((c AND 0xFFFF) + drop_bit 16 c) = unat c mod 65536 + unat c div 65536"
proof -
  have "unat c div 65536 < 65536" using unat_u32_less[of c] by (simp add: less_mult_imp_div_less)
  moreover have "unat c mod 65536 < 65536" by simp
  ultimately show *: "unat (c AND 0xFFFF) + unat (drop_bit 16 c) < 2 ^ 32"
    unfolding unat_low_half unat_high_half by simp
  show "unat ((c AND 0xFFFF) + drop_bit 16 c) = unat c mod 65536 + unat c div 65536"
    using * by (subst unat_add_no_wrap) (simp_all add: unat_low_half unat_high_half)
qed

text \<open>\<open>while (checksum >> 16) checksum = (checksum & 0xFFFF) + (checksum >> 16)\<close>\<close>

function fold_carry :: "u32 \<Rightarrow> u32" where
  "fold_carry checksum =
     (if drop_bit 16 checksum \<noteq> 0 then fold_carry ((checksum AND 0xFFFF) + drop_bit 16 checksum) else checksum)"
  by auto
termination
proof (relation "measure unat", goal_cases)
  case (2 c)
  then have h: "0 < unat c div 65536" unfolding unat_high_half[symmetric] by (simp add: unat_gt_0)
  have "unat c div 65536 < unat c div 65536 * 65536" using h by linarith
  then have "unat c mod 65536 + unat c div 65536 < unat c"
    using mod_div_mult_eq[of "unat c" 65536] by linarith
  then show ?case by (simp add: unat_fold_step(2))
qed simp

declare fold_carry.simps [simp del]

text \<open>\<open>return ~checksum\<close> as a \<open>uint16_t\<close>.\<close>

definition checksum_of :: "u32 \<Rightarrow> u16" where
  "checksum_of acc = ucast (NOT (fold_carry acc))"

definition ipv4_calculate_checksum :: "u8 list \<Rightarrow> u16" where
  "ipv4_calculate_checksum packet = checksum_of (sum16 0 (take 20 packet))"

text \<open>\<open>struct ipv4_packet\<close>: version 4, header length 5, no fragmentation, ttl 64.\<close>

definition ipv4_header :: "nat \<Rightarrow> u8 \<Rightarrow> u16 \<Rightarrow> u8 list \<Rightarrow> u8 list \<Rightarrow> u8 list" where
  "ipv4_header total_length protocol header_checksum source_ip destination_ip =
     [0x45, 0] @ le16 (htons (of_nat total_length)) @ le16 (htons 0) @ le16 (htons 0) @ [64, protocol] @
     le16 header_checksum @ source_ip @ destination_ip"

definition ipv4_send_packet :: "('a net_state_scheme \<Rightarrow> 'a net_state_scheme) \<Rightarrow> u8 list \<Rightarrow> u8 list \<Rightarrow> u8 \<Rightarrow>
    u8 list \<Rightarrow> u8 list \<Rightarrow> 'a net_state_scheme \<Rightarrow> bool \<times> 'a net_state_scheme" where
  "ipv4_send_packet tick source_ip destination_ip protocol protocol_packet data s =
     (let to_gateway = (\<lambda>s'. arp_get_mac tick (gateway (ipv4 (driver s'))) 100 s');
          (dest, s1) =
            (if destination_ip = [255, 255, 255, 255] then (Some (replicate 6 0xFF), s)
             else if ipv4_is_cidr_subnet destination_ip (ip (ipv4 (driver s))) (netmask (ipv4 (driver s)))
             then (case arp_get_mac tick destination_ip 100 s of
                     (None, s') \<Rightarrow> (None, s') | (Some _, s') \<Rightarrow> to_gateway s')
             else to_gateway s)
      in case dest of None \<Rightarrow> (False, s1)
         | Some dmac \<Rightarrow>
             let total_length = 20 + length protocol_packet + length data;
                 header = ipv4_header total_length protocol (htons 0) source_ip destination_ip;
                 checksum = ipv4_calculate_checksum (header @ protocol_packet @ data);
                 packet = ipv4_header total_length protocol checksum source_ip destination_ip @ protocol_packet @ data
             in (True, ethernet_send_packet dmac ETHERTYPE_IPV4 packet s1))"

section \<open>UDP\<close>

abbreviation (input) IP_PROTOCOL_ICMP :: u8 where "IP_PROTOCOL_ICMP \<equiv> 0x01"
abbreviation (input) IP_PROTOCOL_TCP :: u8 where "IP_PROTOCOL_TCP \<equiv> 0x06"
abbreviation (input) IP_PROTOCOL_UDP :: u8 where "IP_PROTOCOL_UDP \<equiv> 0x11"

text \<open>\<open>struct ipv4_pseudo_header\<close>; \<open>len\<close> is in network order.\<close>

definition pseudo_header :: "u8 list \<Rightarrow> u8 list \<Rightarrow> u8 \<Rightarrow> u16 \<Rightarrow> u8 list" where
  "pseudo_header source_ip destination_ip protocol len = source_ip @ destination_ip @ [0, protocol] @ le16 len"

text \<open>The words of the data, and its last byte when their number is odd.\<close>

definition sum_data :: "u32 \<Rightarrow> u8 list \<Rightarrow> u32" where
  "sum_data checksum data =
     sum16 checksum data + (if length data mod 2 \<noteq> 0 then ucast (data ! (length data - 1)) else 0)"

text \<open>\<open>struct udp_packet\<close>, all fields in network order but the checksum.\<close>

definition udp_header :: "u16 \<Rightarrow> u16 \<Rightarrow> u16 \<Rightarrow> u16 \<Rightarrow> u8 list" where
  "udp_header source_port destination_port len checksum =
     le16 source_port @ le16 destination_port @ le16 len @ le16 checksum"

definition udp_calculate_checksum :: "u16 \<Rightarrow> u16 \<Rightarrow> u16 \<Rightarrow> u8 list \<Rightarrow> u8 list \<Rightarrow> u8 list \<Rightarrow> u16" where
  "udp_calculate_checksum source_port destination_port len source_ip destination_ip data =
     (let c1 = sum16 0 (pseudo_header source_ip destination_ip IP_PROTOCOL_UDP len);
          c2 = sum16 c1 (udp_header source_port destination_port len 0)
      in checksum_of (sum_data c2 data))"

definition udp_send_packet :: "('a net_state_scheme \<Rightarrow> 'a net_state_scheme) \<Rightarrow> u8 list \<Rightarrow> u16 \<Rightarrow> u8 list \<Rightarrow> u16 \<Rightarrow>
    u8 list \<Rightarrow> 'a net_state_scheme \<Rightarrow> bool \<times> 'a net_state_scheme" where
  "udp_send_packet tick source_ip source_port destination_ip destination_port data s =
     (let sp = htons source_port; dp = htons destination_port; len = htons (of_nat (length data + 8));
          checksum = udp_calculate_checksum sp dp len source_ip destination_ip data
      in ipv4_send_packet tick source_ip destination_ip IP_PROTOCOL_UDP (udp_header sp dp len checksum) data s)"

definition udp_init :: "'a net_state_scheme \<Rightarrow> 'a net_state_scheme" where
  "udp_init s = s\<lparr>udp_listeners := Some (\<lambda>_. None)\<rparr>"

text \<open>Before \<open>udp_init\<close> the table is NULL and the access faults: \<open>None\<close>.\<close>

definition udp_install_listener :: "u16 \<Rightarrow> udp_listener \<Rightarrow> 'a net_state_scheme \<Rightarrow> (bool \<times> 'a net_state_scheme) option" where
  "udp_install_listener port listener s =
     (case udp_listeners s of None \<Rightarrow> None
      | Some t \<Rightarrow>
          Some (if t port \<noteq> None then (False, s) else (True, s\<lparr>udp_listeners := Some (t(port := Some listener))\<rparr>)))"

definition udp_uninstall_listener :: "u16 \<Rightarrow> 'a net_state_scheme \<Rightarrow> 'a net_state_scheme option" where
  "udp_uninstall_listener port s =
     (case udp_listeners s of None \<Rightarrow> None | Some t \<Rightarrow> Some (s\<lparr>udp_listeners := Some (t(port := None))\<rparr>))"

end
