(* ===== verification/Net_Apps.thy ===== *)
theory Net_Apps
  imports Net
begin

text \<open>
  The protocols above UDP and IP and the receive path: \<^verbatim>\<open>modules/net/dhcp.c\<close>, \<^verbatim>\<open>tcp.c\<close>,
  the receive functions of \<^verbatim>\<open>udp.c\<close> and \<^verbatim>\<open>ip.c\<close> and \<open>ethernet_process_packet\<close>. The listeners
  installed in the kernel are DHCP's and DNS's for UDP and HTTP's for TCP. What DNS does with a
  datagram is the argument \<open>dns_listener\<close>; HTTP only prints what it is given.
\<close>

section \<open>State\<close>

record dhcp_offer =
  server_ip :: "u8 list"
  offered_ip :: "u8 list"

record tcp_syn_cache_entry =
  port :: u16
  syn :: bool
  ack :: u32

text \<open>\<open>tcp_syn_cache\<close> has 16 entries, and memory behind them; \<open>tcp_listeners\<close> is the set of ports
  with a listener, \<open>None\<close> before \<open>tcp_init\<close>.\<close>

record net_apps = net_state +
  offers :: "nat \<Rightarrow> dhcp_offer"
  offer_count :: nat
  syn_c :: u32
  tcp_listeners :: "(u16 \<Rightarrow> bool) option"
  tcp_syn_cache :: "nat \<Rightarrow> tcp_syn_cache_entry"
  curr_tcp_syn :: nat

section \<open>DHCP\<close>

abbreviation (input) DHCP_OPTION_SUBNET_MASK :: u8 where "DHCP_OPTION_SUBNET_MASK \<equiv> 0x01"
abbreviation (input) DHCP_OPTION_ROUTER :: u8 where "DHCP_OPTION_ROUTER \<equiv> 0x03"
abbreviation (input) DHCP_OPTION_DNS_SERVER :: u8 where "DHCP_OPTION_DNS_SERVER \<equiv> 0x06"
abbreviation (input) DHCP_OPTION_DOMAIN_NAME :: u8 where "DHCP_OPTION_DOMAIN_NAME \<equiv> 0x0f"
abbreviation (input) DHCP_OPTION_REQUESTED_IP :: u8 where "DHCP_OPTION_REQUESTED_IP \<equiv> 0x32"
abbreviation (input) DHCP_OPTION_LEASE_TIME :: u8 where "DHCP_OPTION_LEASE_TIME \<equiv> 0x33"
abbreviation (input) DHCP_OPTION_MESSAGE_TYPE :: u8 where "DHCP_OPTION_MESSAGE_TYPE \<equiv> 0x35"
abbreviation (input) DHCP_OPTION_SERVER_IDENTIFIER :: u8 where "DHCP_OPTION_SERVER_IDENTIFIER \<equiv> 0x36"
abbreviation (input) DHCP_OPTION_PARAMETER_REQUEST_LIST :: u8 where "DHCP_OPTION_PARAMETER_REQUEST_LIST \<equiv> 0x37"
abbreviation (input) DHCP_OPTION_END :: u8 where "DHCP_OPTION_END \<equiv> 0xff"

text \<open>Fields of the \<open>dhcp_packet\<close> at \<open>p\<close>; its options start at offset 240.\<close>

abbreviation (input) dhcp_op :: "mem \<Rightarrow> ptr \<Rightarrow> u8" where "dhcp_op m p \<equiv> m p"
abbreviation (input) yiaddr :: "mem \<Rightarrow> ptr \<Rightarrow> u8 list" where "yiaddr m p \<equiv> bytes m (p + 16) 4"
abbreviation (input) siaddr :: "mem \<Rightarrow> ptr \<Rightarrow> u8 list" where "siaddr m p \<equiv> bytes m (p + 20) 4"
abbreviation (input) giaddr :: "mem \<Rightarrow> ptr \<Rightarrow> u8 list" where "giaddr m p \<equiv> bytes m (p + 24) 4"

definition dhcp_process_offer :: "ptr \<Rightarrow> 'a net_apps_scheme \<Rightarrow> 'a net_apps_scheme" where
  "dhcp_process_offer p s =
     (if offer_count s \<ge> 2 then s
      else s\<lparr>offers := (offers s)(offer_count s := \<lparr>server_ip = siaddr (pmem s) p, offered_ip = yiaddr (pmem s) p\<rparr>),
             offer_count := offer_count s + 1\<rparr>)"

text \<open>What one option at \<open>op\<close> does to the configuration.\<close>

definition dhcp_apply_option :: "mem \<Rightarrow> ptr \<Rightarrow> ipv4_config \<Rightarrow> ipv4_config" where
  "dhcp_apply_option m op c =
     (if m op = DHCP_OPTION_SUBNET_MASK then c\<lparr>netmask := bytes m (op + 2) 4\<rparr>
      else if m op = DHCP_OPTION_ROUTER then c\<lparr>gateway := bytes m (op + 2) 4\<rparr>
      else if m op = DHCP_OPTION_DNS_SERVER then c\<lparr>dns := bytes m (op + 2) 4\<rparr>
      else if m op = DHCP_OPTION_LEASE_TIME
      then c\<lparr>lease_time := push_bit 24 (ucast (m (op + 2))) OR push_bit 16 (ucast (m (op + 3)))
               OR push_bit 8 (ucast (m (op + 4))) OR ucast (m (op + 5))\<rparr>
      else c)"

text \<open>The loop over the options; \<open>k\<close> is \<open>op - packet->options\<close>.\<close>

function dhcp_ack_options :: "mem \<Rightarrow> ptr \<Rightarrow> nat \<Rightarrow> ipv4_config \<Rightarrow> ipv4_config" where
  "dhcp_ack_options m options k c =
     (let op = options + of_nat k
      in if m op = DHCP_OPTION_END \<or> k \<ge> 312 then c
         else dhcp_ack_options m options (k + (unat (m (op + 1)) + 2)) (dhcp_apply_option m op c))"
  by auto
termination
  by (relation "measure (\<lambda>(m, options, k, c). 312 - k)") auto

definition dhcp_process_ack :: "ptr \<Rightarrow> 'a net_apps_scheme \<Rightarrow> 'a net_apps_scheme" where
  "dhcp_process_ack p s =
     (let c1 = (ipv4 (driver s))\<lparr>ip := yiaddr (pmem s) p, gateway := giaddr (pmem s) p\<rparr>;
          c2 = dhcp_ack_options (pmem s) (p + 240) 0 c1
      in s\<lparr>driver := (driver s)\<lparr>ipv4 := c2\<rparr>\<rparr>)"

function dhcp_dispatch :: "ptr \<Rightarrow> nat \<Rightarrow> 'a net_apps_scheme \<Rightarrow> 'a net_apps_scheme" where
  "dhcp_dispatch p k s =
     (let m = pmem s; op = p + 240 + of_nat k
      in if m op = DHCP_OPTION_END \<or> k \<ge> 312 then s
         else if m op = DHCP_OPTION_MESSAGE_TYPE \<and> m (op + 2) = 2 then dhcp_process_offer p s
         else if m op = DHCP_OPTION_MESSAGE_TYPE \<and> m (op + 2) = 5 then dhcp_process_ack p s
         else dhcp_dispatch p (k + (unat (m (op + 1)) + 2)) s)"
  by auto
termination
  by (relation "measure (\<lambda>(p, k, s). 312 - k)") auto

declare dhcp_ack_options.simps [simp del] dhcp_dispatch.simps [simp del]

definition dhcp_udp_listener :: "ptr \<Rightarrow> 'a net_apps_scheme \<Rightarrow> 'a net_apps_scheme" where
  "dhcp_udp_listener data s = (if dhcp_op (pmem s) data \<noteq> 2 then s else dhcp_dispatch data 0 s)"

text \<open>The packets DHCP sends. The buffer comes from \<open>malloc\<close>: behind the options written the packet
  carries what the heap held there, \<open>junk\<close>.\<close>

definition dhcp_bytes :: "'a net_state_scheme \<Rightarrow> u8 list \<Rightarrow> u8 list \<Rightarrow> (nat \<Rightarrow> u8) \<Rightarrow> u8 list" where
  "dhcp_bytes s si opts junk =
     [1, 1, 6, 0] @ le32 (htonl 0x12345678) @ le16 (htons 0) @ le16 (htons 0) @
     replicate 4 0 @ replicate 4 0 @ si @ replicate 4 0 @ mac (driver s) @ replicate 10 0 @
     replicate 64 0 @ replicate 128 0 @ le32 (htonl 0x63825363) @ opts @ map junk [0..<312 - length opts]"

definition dhcp_send_discover :: "('a net_state_scheme \<Rightarrow> 'a net_state_scheme) \<Rightarrow> (nat \<Rightarrow> u8) \<Rightarrow>
    'a net_state_scheme \<Rightarrow> 'a net_state_scheme" where
  "dhcp_send_discover tick junk s =
     snd (udp_send_packet tick [0, 0, 0, 0] 68 [255, 255, 255, 255] 67
       (dhcp_bytes s (replicate 4 0) [DHCP_OPTION_MESSAGE_TYPE, 1, 1, DHCP_OPTION_END] junk) s)"

definition dhcp_send_request :: "('a net_state_scheme \<Rightarrow> 'a net_state_scheme) \<Rightarrow> (nat \<Rightarrow> u8) \<Rightarrow> u8 list \<Rightarrow> u8 list \<Rightarrow>
    'a net_state_scheme \<Rightarrow> 'a net_state_scheme" where
  "dhcp_send_request tick junk server requested_ip s =
     snd (udp_send_packet tick [0, 0, 0, 0] 68 [255, 255, 255, 255] 67
       (dhcp_bytes s server
         ([DHCP_OPTION_MESSAGE_TYPE, 1, 3, DHCP_OPTION_REQUESTED_IP, 4] @ requested_ip @
          [DHCP_OPTION_SERVER_IDENTIFIER, 4] @ server @
          [DHCP_OPTION_PARAMETER_REQUEST_LIST, 4, DHCP_OPTION_SUBNET_MASK, DHCP_OPTION_ROUTER,
           DHCP_OPTION_DOMAIN_NAME, DHCP_OPTION_DNS_SERVER, DHCP_OPTION_END]) junk) s)"

fun dhcp_wait_offer :: "('a net_apps_scheme \<Rightarrow> 'a net_apps_scheme) \<Rightarrow> nat \<Rightarrow> 'a net_apps_scheme \<Rightarrow> 'a net_apps_scheme" where
  "dhcp_wait_offer tick 0 s = s"
| "dhcp_wait_offer tick (Suc k) s =
     (let s' = tick s in if offer_count s' > 0 then s' else dhcp_wait_offer tick k s')"

text \<open>Ask for the first offered address no other host answers for. \<open>offer_count\<close> is read anew in each
  round, after other packets have come in.\<close>

partial_function (option) dhcp_take_offer :: "('a net_apps_scheme \<Rightarrow> 'a net_apps_scheme) \<Rightarrow> (nat \<Rightarrow> u8) \<Rightarrow> nat \<Rightarrow>
    'a net_apps_scheme \<Rightarrow> 'a net_apps_scheme option" where
  "dhcp_take_offer tick junk i s =
     (if i < offer_count s
      then case arp_get_mac tick (offered_ip (offers s i)) 100 s of
             (None, s') \<Rightarrow> Some (dhcp_send_request tick junk (server_ip (offers s' i)) (offered_ip (offers s' i)) s')
           | (Some _, s') \<Rightarrow> dhcp_take_offer tick junk (i + 1) s'
      else Some s)"

definition dhcp_init :: "('a net_apps_scheme \<Rightarrow> 'a net_apps_scheme) \<Rightarrow> (nat \<Rightarrow> u8) \<Rightarrow> 'a net_apps_scheme \<Rightarrow>
    'a net_apps_scheme option" where
  "dhcp_init tick junk s = do {
     (_, s1) \<leftarrow> udp_install_listener 68 Dhcp_udp_listener s;
     let s2 = dhcp_send_discover tick junk s1;
     dhcp_take_offer tick junk 0 (dhcp_wait_offer tick (rounds 10000) s2) }"

section \<open>Receiving UDP\<close>

definition call_udp_listener :: "(ptr \<Rightarrow> u32 \<Rightarrow> 'a net_apps_scheme \<Rightarrow> 'a net_apps_scheme) \<Rightarrow> udp_listener \<Rightarrow>
    ptr \<Rightarrow> u32 \<Rightarrow> 'a net_apps_scheme \<Rightarrow> 'a net_apps_scheme" where
  "call_udp_listener dns_listener l data data_size s =
     (case l of Dhcp_udp_listener \<Rightarrow> dhcp_udp_listener data s | Dns_udp_listener \<Rightarrow> dns_listener data data_size s)"

text \<open>The size of the data is what the length field says, less 8; it wraps around below 8.\<close>

definition udp_receive_packet :: "(ptr \<Rightarrow> u32 \<Rightarrow> 'a net_apps_scheme \<Rightarrow> 'a net_apps_scheme) \<Rightarrow> ptr \<Rightarrow> ptr \<Rightarrow> ptr \<Rightarrow>
    'a net_apps_scheme \<Rightarrow> 'a net_apps_scheme" where
  "udp_receive_packet dns_listener ipv4_packet packet data s =
     (case udp_listeners s of None \<Rightarrow> s
      | Some listeners \<Rightarrow>
          let m = pmem s;
              dport = ntohs (load16 m (packet + 2));
              checksum = load16 m (packet + 6);
              m1 = store16 m (packet + 6) 0;
              data_size = ucast (ntohs (load16 m1 (packet + 4))) - 8 :: u32
          in if checksum \<noteq> udp_calculate_checksum (load16 m1 packet) (load16 m1 (packet + 2)) (load16 m1 (packet + 4))
                 (bytes m1 (ipv4_packet + 12) 4) (bytes m1 (ipv4_packet + 16) 4) (bytes m1 data (unat data_size))
             then s\<lparr>pmem := m1\<rparr>
             else
               let s2 = s\<lparr>pmem := store16 m1 (packet + 6) checksum\<rparr>
               in case listeners dport of None \<Rightarrow> s2
                  | Some l \<Rightarrow> call_udp_listener dns_listener l data (ucast (ntohs (load16 (pmem s2) (packet + 4))) - 8) s2)"

section \<open>TCP\<close>

definition tcp_init :: "'a net_apps_scheme \<Rightarrow> 'a net_apps_scheme" where
  "tcp_init s = s\<lparr>tcp_syn_cache := (\<lambda>i. if i < 16 then \<lparr>port = 0, syn = False, ack = 0\<rparr> else tcp_syn_cache s i),
     tcp_listeners := Some (\<lambda>_. False)\<rparr>"

text \<open>\<open>struct tcp_packet\<close>: data offset 5, window 32768; the flag bits are FIN, SYN, RST, PSH, ACK from bit 0 on.\<close>

definition tcp_flags :: "bool \<Rightarrow> bool \<Rightarrow> bool \<Rightarrow> bool \<Rightarrow> u8" where
  "tcp_flags is_syn is_ack is_fin is_data =
     of_bool is_fin + 2 * of_bool is_syn + 8 * of_bool is_data + 16 * of_bool is_ack"

definition tcp_header :: "u16 \<Rightarrow> u16 \<Rightarrow> u32 \<Rightarrow> u32 \<Rightarrow> u8 \<Rightarrow> u16 \<Rightarrow> u8 list" where
  "tcp_header sport dport seq acknr flags checksum =
     le16 sport @ le16 dport @ le32 seq @ le32 acknr @ [0x50, flags] @ le16 (htons 32768) @ le16 checksum @ le16 (htons 0)"

text \<open>\<open>header\<close> is the 20 bytes of the TCP header with the checksum cleared.\<close>

definition tcp_calculate_checksum :: "u8 list \<Rightarrow> u8 list \<Rightarrow> u8 list \<Rightarrow> u8 list \<Rightarrow> u16" where
  "tcp_calculate_checksum header source_ip destination_ip data =
     (let c1 = sum16 0 (pseudo_header source_ip destination_ip IP_PROTOCOL_TCP (htons (of_nat (length data + 20))));
          c2 = sum16 c1 header
      in checksum_of (sum_data c2 data))"

definition tcp_send_packet :: "('a net_apps_scheme \<Rightarrow> 'a net_apps_scheme) \<Rightarrow> u8 list \<Rightarrow> u16 \<Rightarrow> u8 list \<Rightarrow> u16 \<Rightarrow> u32 \<Rightarrow> u32 \<Rightarrow>
    bool \<Rightarrow> bool \<Rightarrow> bool \<Rightarrow> bool \<Rightarrow> u8 list \<Rightarrow> 'a net_apps_scheme \<Rightarrow> 'a net_apps_scheme" where
  "tcp_send_packet tick source_ip source_port destination_ip destination_port seq acknr is_syn is_ack is_fin is_data data s =
     (let (seq', s1) = (if seq = 0 then (syn_c s, s\<lparr>syn_c := syn_c s + 1\<rparr>) else (seq, s));
          header = tcp_header (htons source_port) (htons destination_port) (htonl seq') (htonl acknr)
                     (tcp_flags is_syn is_ack is_fin is_data);
          checksum = tcp_calculate_checksum (header 0) source_ip destination_ip data
      in snd (ipv4_send_packet tick source_ip destination_ip IP_PROTOCOL_TCP (header checksum) data s1))"

definition syn_entry :: "u16 \<Rightarrow> 'a net_apps_scheme \<Rightarrow> nat option" where
  "syn_entry p s = List.find (\<lambda>i. port (tcp_syn_cache s i) = p) [0..<curr_tcp_syn s]"

definition set_syn_entry :: "u16 \<Rightarrow> bool \<Rightarrow> u32 \<Rightarrow> 'a net_apps_scheme \<Rightarrow> 'a net_apps_scheme" where
  "set_syn_entry p is_syn acknr s =
     (case syn_entry p s of None \<Rightarrow> s
      | Some i \<Rightarrow> s\<lparr>tcp_syn_cache := (tcp_syn_cache s)(i := (tcp_syn_cache s i)\<lparr>syn := is_syn, ack := acknr\<rparr>)\<rparr>)"

text \<open>Every entry for the port is looked at, the first that is established counts.\<close>

fun tcp_wait_syn :: "('a net_apps_scheme \<Rightarrow> 'a net_apps_scheme) \<Rightarrow> nat \<Rightarrow> u16 \<Rightarrow> 'a net_apps_scheme \<Rightarrow>
    u32 option \<times> 'a net_apps_scheme" where
  "tcp_wait_syn tick 0 p s = (None, s)"
| "tcp_wait_syn tick (Suc k) p s =
     (let s' = tick s
      in case List.find (\<lambda>i. port (tcp_syn_cache s' i) = p \<and> syn (tcp_syn_cache s' i)) [0..<curr_tcp_syn s'] of
           Some i \<Rightarrow> (Some (ack (tcp_syn_cache s' i)), s')
         | None \<Rightarrow> tcp_wait_syn tick k p s')"

definition tcp_syn :: "('a net_apps_scheme \<Rightarrow> 'a net_apps_scheme) \<Rightarrow> u8 list \<Rightarrow> u16 \<Rightarrow> u16 \<Rightarrow> nat \<Rightarrow> 'a net_apps_scheme \<Rightarrow>
    u32 option \<times> 'a net_apps_scheme" where
  "tcp_syn tick destination_ip destination_port source_port timeout s =
     (let s1 = s\<lparr>tcp_syn_cache := (tcp_syn_cache s)(curr_tcp_syn s := \<lparr>port = source_port, syn = False, ack = 0\<rparr>),
                 curr_tcp_syn := curr_tcp_syn s + 1\<rparr>;
          s2 = tcp_send_packet tick (ip (ipv4 (driver s1))) source_port destination_ip destination_port 0 0
                 True False False False [] s1
      in tcp_wait_syn tick (rounds timeout) source_port s2)"

definition tcp_close_connection :: "('a net_apps_scheme \<Rightarrow> 'a net_apps_scheme) \<Rightarrow> u8 list \<Rightarrow> u16 \<Rightarrow> u16 \<Rightarrow>
    'a net_apps_scheme \<Rightarrow> 'a net_apps_scheme" where
  "tcp_close_connection tick destination_ip destination_port source_port s =
     tcp_send_packet tick (ip (ipv4 (driver s))) source_port destination_ip destination_port 0 0
       False True True False [] s"

definition tcp_install_listener :: "u16 \<Rightarrow> 'a net_apps_scheme \<Rightarrow> (bool \<times> 'a net_apps_scheme) option" where
  "tcp_install_listener p s =
     (case tcp_listeners s of None \<Rightarrow> None
      | Some t \<Rightarrow> Some (if t p then (False, s) else (True, s\<lparr>tcp_listeners := Some (t(p := True))\<rparr>)))"

definition tcp_uninstall_listener :: "u16 \<Rightarrow> 'a net_apps_scheme \<Rightarrow> 'a net_apps_scheme option" where
  "tcp_uninstall_listener p s =
     (case tcp_listeners s of None \<Rightarrow> None | Some t \<Rightarrow> Some (s\<lparr>tcp_listeners := Some (t(p := False))\<rparr>))"

text \<open>\<open>http_receive_response\<close> prints the data and returns true.\<close>

definition http_receive_response :: "ptr \<Rightarrow> u32 \<Rightarrow> 'a net_apps_scheme \<Rightarrow> bool \<times> 'a net_apps_scheme" where
  "http_receive_response data data_size s = (True, s)"

text \<open>The answer to the segment at \<open>packet\<close>: its acknowledgement number as sequence number, its sequence
  number plus \<open>advance\<close> as acknowledgement number.\<close>

definition tcp_answer :: "('a net_apps_scheme \<Rightarrow> 'a net_apps_scheme) \<Rightarrow> ptr \<Rightarrow> ptr \<Rightarrow> u16 \<Rightarrow> u32 \<Rightarrow> bool \<Rightarrow>
    'a net_apps_scheme \<Rightarrow> 'a net_apps_scheme" where
  "tcp_answer tick ipv4_pkt packet p advance is_fin s =
     tcp_send_packet tick (ip (ipv4 (driver s))) p (bytes (pmem s) (ipv4_pkt + 12) 4) (ntohs (load16 (pmem s) packet))
       (ntohl (load32 (pmem s) (packet + 8))) (ntohl (load32 (pmem s) (packet + 4)) + advance) False True is_fin False [] s"

definition tcp_receive_packet :: "('a net_apps_scheme \<Rightarrow> 'a net_apps_scheme) \<Rightarrow> ptr \<Rightarrow> ptr \<Rightarrow> ptr \<Rightarrow>
    'a net_apps_scheme \<Rightarrow> 'a net_apps_scheme" where
  "tcp_receive_packet tick ipv4_pkt packet data s =
     (case tcp_listeners s of None \<Rightarrow> s
      | Some _ \<Rightarrow>
          let m = pmem s;
              p = ntohs (load16 m (packet + 2));
              total_len = ucast (ntohs (load16 m (ipv4_pkt + 2))) :: u32;
              data_offset = ucast (drop_bit 4 (m (packet + 12))) :: u32;
              len = total_len - 20 - 20;
              data_len = total_len - 20 - data_offset * 4;
              checksum = load16 m (packet + 16);
              m1 = store16 m (packet + 16) 0
          in if checksum \<noteq> tcp_calculate_checksum (bytes m1 packet 20) (bytes m1 (ipv4_pkt + 12) 4)
                 (bytes m1 (ipv4_pkt + 16) 4) (bytes m1 data (unat len))
             then s\<lparr>pmem := m1\<rparr>
             else
               let s1 = s\<lparr>pmem := store16 m1 (packet + 16) checksum\<rparr>;
                   is_fin = (\<lambda>s'. bit (pmem s' (packet + 13)) 0);
                   is_syn = (\<lambda>s'. bit (pmem s' (packet + 13)) 1);
                   is_ack = (\<lambda>s'. bit (pmem s' (packet + 13)) 4)
               in if is_syn s1 \<and> is_ack s1
                  then let s2 = tcp_answer tick ipv4_pkt packet p 1 False s1
                       in set_syn_entry p True (ntohl (load32 (pmem s2) (packet + 8))) s2
                  else
                    let s3 = (if (case tcp_listeners s1 of Some t \<Rightarrow> t p | None \<Rightarrow> False) \<and> data_len > 0
                              then case http_receive_response (data + (data_offset - 5) * 4) data_len s1 of
                                     (True, s2) \<Rightarrow> tcp_answer tick ipv4_pkt packet p data_len False s2
                                   | (False, s2) \<Rightarrow> s2
                              else s1)
                    in if is_fin s3 \<and> \<not> is_ack s3
                       then tcp_answer tick ipv4_pkt packet p 1 True (set_syn_entry p False 0 s3)
                       else if is_fin s3 \<and> is_ack s3
                       then tcp_answer tick ipv4_pkt packet p 1 False (set_syn_entry p False 0 s3)
                       else s3)"

section \<open>Receiving IPv4 and Ethernet\<close>

text \<open>\<open>icmp_receive_packet\<close> is empty.\<close>

definition icmp_receive_packet :: "ptr \<Rightarrow> ptr \<Rightarrow> 'a net_apps_scheme \<Rightarrow> 'a net_apps_scheme" where
  "icmp_receive_packet packet data s = s"

definition ipv4_receive_packet :: "('a net_apps_scheme \<Rightarrow> 'a net_apps_scheme) \<Rightarrow>
    (ptr \<Rightarrow> u32 \<Rightarrow> 'a net_apps_scheme \<Rightarrow> 'a net_apps_scheme) \<Rightarrow> ptr \<Rightarrow> ptr \<Rightarrow> 'a net_apps_scheme \<Rightarrow> 'a net_apps_scheme" where
  "ipv4_receive_packet tick dns_listener packet data s =
     (if drop_bit 4 (pmem s packet) \<noteq> 4 then s
      else
        let checksum = load16 (pmem s) (packet + 10);
            m1 = store16 (pmem s) (packet + 10) 0
        in if checksum \<noteq> ipv4_calculate_checksum (bytes m1 packet 20) then s\<lparr>pmem := m1\<rparr>
           else
             let s1 = s\<lparr>pmem := store16 m1 (packet + 10) checksum\<rparr>;
                 protocol = pmem s1 (packet + 9)
             in if protocol = IP_PROTOCOL_ICMP then icmp_receive_packet data (data + 8) s1
                else if protocol = IP_PROTOCOL_UDP then udp_receive_packet dns_listener packet data (data + 8) s1
                else if protocol = IP_PROTOCOL_TCP then tcp_receive_packet tick packet data (data + 20) s1
                else s1)"

definition ethernet_process_packet :: "('a net_apps_scheme \<Rightarrow> 'a net_apps_scheme) \<Rightarrow>
    (ptr \<Rightarrow> u32 \<Rightarrow> 'a net_apps_scheme \<Rightarrow> 'a net_apps_scheme) \<Rightarrow> u16 \<Rightarrow> ptr \<Rightarrow> 'a net_apps_scheme \<Rightarrow> 'a net_apps_scheme" where
  "ethernet_process_packet tick dns_listener etype data s =
     (if ntohs etype = ETHERTYPE_ARP then arp_receive_packet data s
      else if ntohs etype = ETHERTYPE_IPV4 then ipv4_receive_packet tick dns_listener data (data + 20) s
      else s)"

end
