(* ===== verification/Net_Laws.thy ===== *)
theory Net_Laws
  imports Net_Apps
begin

text \<open>
  Correctness of the network stack: what the Internet checksum detects, that a datagram the kernel
  sends reaches the listener on the other side unchanged, how ARP answers are learned, which
  interface configuration a DHCP acknowledgement leaves, and to whom packets go.
\<close>

section \<open>The Internet checksum\<close>

lemma fold_carry_less: "unat (fold_carry c) < 65536"
proof (induction c rule: fold_carry.induct)
  case (1 c)
  show ?case
  proof (cases "drop_bit 16 c = 0")
    case True
    then have "unat c div 65536 = 0" using unat_high_half[of c] by simp
    then show ?thesis using True by (simp add: fold_carry.simps div_eq_0_iff)
  qed (use 1 in \<open>simp add: fold_carry.simps[of c]\<close>)
qed

lemma fold_carry_mod: "unat (fold_carry c) mod 65535 = unat c mod 65535"
proof (induction c rule: fold_carry.induct)
  case (1 c)
  have "unat c = (unat c mod 65536 + unat c div 65536) + unat c div 65536 * 65535"
    using mod_div_mult_eq[of "unat c" 65536] by linarith
  then have "unat c mod 65535 = (unat c mod 65536 + unat c div 65536) mod 65535" by (metis mod_mult_self1)
  then show ?case using 1 unat_fold_step(2)[of c] by (simp add: fold_carry.simps[of c])
qed

text \<open>The sum over the 16-bit words of a region, as a number.\<close>

fun words_sum :: "u8 list \<Rightarrow> nat" where
  "words_sum (a # b # bs) = unat a + 256 * unat b + words_sum bs"
| "words_sum _ = 0"

lemma unat_word16: "unat (ucast (a :: u8) + 256 * ucast (b :: u8) :: u32) = unat a + 256 * unat b"
proof -
  have ab: "unat a < 256" "unat b < 256" using unsigned_less[of a] unsigned_less[of b] by simp_all
  have b: "unat (256 * ucast b :: u32) = 256 * unat b"
    using ab by (subst unat_mult_lem[THEN iffD1]) (simp_all add: unat_ucast_up)
  then show ?thesis using ab by (subst unat_add_no_wrap) (simp_all add: unat_ucast_up)
qed

lemma words_sum_less: "words_sum bs \<le> 65535 * (length bs div 2)"
proof (induction bs rule: words_sum.induct)
  case (1 a b bs)
  have "unat a < 256" "unat b < 256" using unsigned_less[of a] unsigned_less[of b] by simp_all
  then show ?case using 1 by simp
qed simp_all

lemma unat_sum16: "unat c + words_sum bs < 2 ^ 32 \<Longrightarrow> unat (sum16 c bs) = unat c + words_sum bs"
proof (induction c bs rule: sum16.induct)
  case (1 c a b bs)
  have "unat (c + (ucast a + 256 * ucast b)) = unat c + (unat a + 256 * unat b)"
    using 1(2) by (subst unat_add_no_wrap) (simp_all add: unat_word16)
  then show ?case using 1 by simp
qed simp_all

lemma checksum_of_inj: "checksum_of c = checksum_of d \<Longrightarrow> unat c mod 65535 = unat d mod 65535"
proof -
  assume eq: "checksum_of c = checksum_of d"
  have val: "ucast (NOT (fold_carry x)) = (NOT (ucast (fold_carry x)) :: u16)" for x
    by (rule bit_word_eqI) (simp add: bit_ucast_iff bit_not_iff)
  have "ucast (fold_carry c) = (ucast (fold_carry d) :: u16)"
    using eq unfolding checksum_of_def val by simp
  moreover have "unat (ucast (fold_carry x) :: u16) = unat (fold_carry x)" for x
    using fold_carry_less[of x] by (simp add: unsigned_ucast_eq take_bit_nat_eq_self)
  ultimately have "unat (fold_carry c) = unat (fold_carry d)" by metis
  then show ?thesis by (metis fold_carry_mod)
qed

section \<open>Words of a region in memory\<close>

lemma unat_load16: "unat (load16 m a) = unat (m a) + 256 * unat (m (a + 1))"
proof -
  have "load16 m a = ucast (m a) + push_bit 8 (ucast (m (a + 1)))"
    unfolding load16_def
    by (rule disjunctive_add[symmetric]) (auto simp: bit_ucast_iff bit_push_bit_iff dest: bit_imp_le_length)
  then have *: "load16 m a = ucast (m a) + 256 * ucast (m (a + 1))" by (simp add: push_bit_eq_mult mult.commute)
  have ab: "unat (m a) < 256" "unat (m (a + 1)) < 256"
    using unsigned_less[of "m a"] unsigned_less[of "m (a + 1)"] by simp_all
  have b: "unat (256 * ucast (m (a + 1)) :: u16) = 256 * unat (m (a + 1))"
    using ab by (subst unat_mult_lem[THEN iffD1]) (simp_all add: unat_ucast_up)
  then show ?thesis unfolding * using ab by (subst unat_add_no_wrap) (simp_all add: unat_ucast_up)
qed

lemma off_eq_iff: "j < 2 ^ 32 \<Longrightarrow> k < 2 ^ 32 \<Longrightarrow> (p :: u32) + of_nat j = p + of_nat k \<longleftrightarrow> j = k"
  using of_nat_eq_small[of j k, where 'a = 32] by simp

lemma store16_off:
  "store16 m (p + of_nat j) v = m(p + of_nat j := ucast v, p + of_nat (Suc j) := ucast (drop_bit 8 v))"
  by (simp add: store16_def add.assoc add.commute[of 1])

lemma load16_off: "load16 m (p + of_nat j) = ucast (m (p + of_nat j)) OR push_bit 8 (ucast (m (p + of_nat (Suc j))))"
  by (simp add: load16_def add.assoc add.commute[of 1])

lemma load16_store16_off:
  assumes "i < 2 ^ 31" "j < 2 ^ 31"
  shows "load16 (store16 m (p + of_nat (2 * i)) v) (p + of_nat (2 * j)) = (if i = j then v else load16 m (p + of_nat (2 * j)))"
proof (cases "i = j")
  case True
  then show ?thesis by (simp add: load16_store16_same)
next
  case False
  then have "2 * i \<noteq> 2 * j" "2 * i \<noteq> Suc (2 * j)" "Suc (2 * i) \<noteq> 2 * j" by presburger+
  then show ?thesis
    using False assms unfolding load16_off store16_off
    by (simp add: of_nat_eq_small[where 'a = 32] del: of_nat_Suc of_nat_mult)
qed

lemma store16_swap:
  assumes "i < 2 ^ 31" "j < 2 ^ 31" "i \<noteq> j"
  shows "store16 (store16 m (p + of_nat (2 * i)) v) (p + of_nat (2 * j)) w =
    store16 (store16 m (p + of_nat (2 * j)) w) (p + of_nat (2 * i)) v"
proof -
  have "2 * i \<noteq> 2 * j" "2 * i \<noteq> Suc (2 * j)" "Suc (2 * i) \<noteq> 2 * j" using assms(3) by presburger+
  then show ?thesis using assms unfolding store16_off
    by (intro ext) (auto simp: of_nat_eq_small[where 'a = 32] simp del: of_nat_Suc of_nat_mult)
qed

lemma bytes_append: "bytes m p (a + b) = bytes m p a @ bytes m (p + of_nat a) b"
  by (induction b) (simp_all add: bytes_def add.assoc)

lemma words_sum_bytes: "words_sum (bytes m p (2 * n)) = (\<Sum>i<n. unat (load16 m (p + of_nat (2 * i))))"
proof (induction n arbitrary: p)
  case (Suc n)
  have "bytes m p (2 * Suc n) = m p # m (p + 1) # bytes m (p + 2) (2 * n)"
    using bytes_append[of m p 2 "2 * n"] by (simp add: bytes_def numeral_2_eq_2)
  moreover have "(\<Sum>i<Suc n. unat (load16 m (p + of_nat (2 * i)))) =
    unat (load16 m p) + (\<Sum>i<n. unat (load16 m (p + 2 + of_nat (2 * i))))"
    by (subst sum.lessThan_Suc_shift) (simp add: add.assoc add.commute)
  ultimately show ?case using Suc by (simp add: unat_load16)
qed (simp add: bytes_def)

lemma words_sum_store16:
  assumes "i < n" "n < 2 ^ 31"
  shows "words_sum (bytes (store16 m (p + of_nat (2 * i)) v) p (2 * n)) + unat (load16 m (p + of_nat (2 * i))) =
    words_sum (bytes m p (2 * n)) + unat v"
proof -
  let ?f = "\<lambda>m i. unat (load16 m (p + of_nat (2 * i)))"
  have rest: "(\<Sum>j\<in>{..<n} - {i}. ?f (store16 m (p + of_nat (2 * i)) v) j) = (\<Sum>j\<in>{..<n} - {i}. ?f m j)"
    using assms by (intro sum.cong) (auto simp: load16_store16_off simp del: of_nat_mult)
  have "?f (store16 m (p + of_nat (2 * i)) v) i = unat v" using assms by (simp add: load16_store16_off del: of_nat_mult)
  then show ?thesis
    unfolding words_sum_bytes using assms rest
      sum.remove[of "{..<n}" i "?f m"] sum.remove[of "{..<n}" i "?f (store16 m (p + of_nat (2 * i)) v)"] by simp
qed

lemma store16_store16_same [mem_simps]: "store16 (store16 m a v) a w = store16 m a w"
  by (auto simp: store16_def fun_eq_iff)

lemma store16_load16_same [mem_simps]: "store16 m a (load16 m a) = m"
  by (simp add: store16_load16_blit)

section \<open>What the header checksum detects\<close>

definition header_ok :: "mem \<Rightarrow> ptr \<Rightarrow> bool" where
  "header_ok m p \<longleftrightarrow> load16 m (p + 10) = ipv4_calculate_checksum (bytes (store16 m (p + 10) 0) p 20)"

lemma unat_header_sum: "unat (sum16 0 (bytes m p 20)) = words_sum (bytes m p 20)"
  using words_sum_less[of "bytes m p 20"] by (subst unat_sum16) simp_all

lemma mod_cancel:
  assumes "(a :: nat) mod n = b mod n" "a + x = b + y"
  shows "x mod n = y mod n"
proof -
  have "int n dvd int a - int b" using assms(1) by (metis mod_eq_dvd_iff of_nat_mod)
  moreover have "int a - int b = int y - int x" using assms(2) by linarith
  ultimately have "int y mod int n = int x mod int n" by (simp add: mod_eq_dvd_iff)
  then show ?thesis by (metis of_nat_eq_iff of_nat_mod)
qed

lemma header_word_error:
  assumes ok: "header_ok m p" and i: "i < 10" "i \<noteq> 5"
    and w: "unat w mod 65535 \<noteq> unat (load16 m (p + of_nat (2 * i))) mod 65535"
  shows "\<not> header_ok (store16 m (p + of_nat (2 * i)) w) p"
proof
  let ?a = "p + of_nat (2 * i)"
  let ?z = "\<lambda>m. store16 m (p + 10) 0"
  let ?m' = "store16 m ?a w"
  assume ok': "header_ok ?m' p"
  have ten: "p + 10 = p + of_nat (2 * 5)" by simp
  have ck: "load16 ?m' (p + 10) = load16 m (p + 10)" unfolding ten using i by (subst load16_store16_off) auto
  have swap: "?z ?m' = store16 (?z m) ?a w"
    unfolding ten using i by (intro store16_swap) simp_all
  have wi: "load16 (?z m) ?a = load16 m ?a" unfolding ten using i by (subst load16_store16_off) auto
  have "ipv4_calculate_checksum (bytes (?z ?m') p 20) = ipv4_calculate_checksum (bytes (?z m) p 20)"
    using ok ok' ck by (simp add: header_ok_def)
  then have "words_sum (bytes (?z ?m') p 20) mod 65535 = words_sum (bytes (?z m) p 20) mod 65535"
    unfolding ipv4_calculate_checksum_def by (auto dest!: checksum_of_inj simp: unat_header_sum)
  moreover have "words_sum (bytes (?z ?m') p 20) + unat (load16 m ?a) = words_sum (bytes (?z m) p 20) + unat w"
    unfolding swap using words_sum_store16[of i 10 "?z m" p w] i wi by simp
  ultimately have "unat (load16 m ?a) mod 65535 = unat w mod 65535"
    by (rule mod_cancel)
  then show False using w by simp
qed

text \<open>A packet whose header was damaged in one 16-bit word, in such a way that the word is another number
  modulo 65535, is dropped: whatever the packet's protocol, no listener runs, nothing is sent, and no table of the
  network stack changes; only the packet buffer itself may. Every word counts, the checksum and the version
  included.\<close>

theorem ipv4_damaged_header_dropped:
  assumes "header_ok m packet" "i < 10"
    and "unat w mod 65535 \<noteq> unat (load16 m (packet + of_nat (2 * i))) mod 65535"
  shows "\<exists>m'. ipv4_receive_packet tick dns_listener packet data (s\<lparr>pmem := store16 m (packet + of_nat (2 * i)) w\<rparr>)
    = s\<lparr>pmem := m'\<rparr>"
proof -
  let ?m = "store16 m (packet + of_nat (2 * i)) w"
  have bad: "\<not> header_ok ?m packet"
  proof (cases "i = 5")
    case True
    have "store16 ?m (packet + 10) 0 = store16 m (packet + 10) 0" by (simp add: True store16_store16_same)
    moreover have "load16 ?m (packet + 10) = w" by (simp add: True load16_store16_same)
    moreover have "w \<noteq> load16 m (packet + 10)" using assms(3) True by auto
    ultimately show ?thesis using assms(1) by (simp add: header_ok_def)
  qed (use header_word_error assms in blast)
  show ?thesis
  proof (cases "drop_bit 4 (?m packet) = 4")
    case True
    then show ?thesis using bad by (simp add: ipv4_receive_packet_def header_ok_def Let_def) blast
  next
    case False
    then show ?thesis by (simp add: ipv4_receive_packet_def) blast
  qed
qed

text \<open>A host 10.0.0.2/24 behind the gateway 10.0.0.1, whose address and that of 10.0.0.3 are known, with DHCP
  listening on port 68.\<close>

definition sample_driver :: ethernet_driver where
  "sample_driver = \<lparr>mac = [2, 0, 0, 0, 0, 2], ipv4 = \<lparr>ip = [10, 0, 0, 2], netmask = [255, 255, 255, 0],
     gateway = [10, 0, 0, 1], dns = [10, 0, 0, 1], lease_time = 0\<rparr>, int_no = 11\<rparr>"

definition sample_net :: net_apps where
  "sample_net = \<lparr>driver = sample_driver, pmem = (\<lambda>_. 0), sent = [],
     arp_list = (\<lambda>i. if i = 0 then \<lparr>map_ip = [10, 0, 0, 1], map_mac = [2, 0, 0, 0, 0, 1]\<rparr>
                     else \<lparr>map_ip = [10, 0, 0, 3], map_mac = [2, 0, 0, 0, 0, 3]\<rparr>),
     curr_arp = 2, udp_listeners = Some ((\<lambda>_. None)(68 := Some Dhcp_udp_listener)),
     offers = (\<lambda>_. \<lparr>server_ip = [], offered_ip = []\<rparr>), offer_count = 0, syn_c = 0,
     tcp_listeners = None, tcp_syn_cache = (\<lambda>_. \<lparr>port = 0, syn = False, ack = 0\<rparr>), curr_tcp_syn = 0\<rparr>"

theorem ipv4_damaged_header_dropped_witness:
  "\<exists>m'. ipv4_receive_packet (\<lambda>s. s) (\<lambda>_ _ s. s) 0 20
     (sample_net\<lparr>pmem := store16 (store16 (\<lambda>_. 0) 10 0xFFFF) (0 + of_nat (2 * 4)) 0x4011\<rparr>) = sample_net\<lparr>pmem := m'\<rparr>"
proof (rule ipv4_damaged_header_dropped)
  have "bytes (store16 (store16 (\<lambda>_. 0) 10 0xFFFF) (0 + 10) 0) 0 20 = replicate 20 0"
    by (simp add: bytes_def store16_store16_same) (simp add: store16_def upt_rec numeral_eq_Suc)
  moreover have "sum16 0 (take 20 (replicate 20 0)) = 0" by (simp add: numeral_eq_Suc)
  moreover have "(ucast (NOT 0 :: u32) :: u16) = 0xFFFF" by code_simp
  then have "checksum_of 0 = 0xFFFF" unfolding checksum_of_def by (simp add: fold_carry.simps)
  ultimately show "header_ok (store16 (\<lambda>_. 0) 10 0xFFFF) 0"
    by (simp add: header_ok_def load16_store16_same ipv4_calculate_checksum_def)
  have "load16 (store16 (\<lambda>_. 0) 10 0xFFFF) (0 + of_nat (2 * 4)) = 0" by (simp add: load16_def store16_def)
  then show "unat (0x4011 :: u16) mod 65535 \<noteq>
    unat (load16 (store16 (\<lambda>_. 0) 10 0xFFFF) (0 + of_nat (2 * 4))) mod 65535" by simp
qed simp

section \<open>Delivery of datagrams\<close>

lemma load16_eqI: "m a = ucast v \<Longrightarrow> m (a + 1) = ucast (drop_bit 8 v) \<Longrightarrow> load16 m a = v"
  by (simp add: load16_def join_bytes16)

lemma bytes_eq_nth: "bytes m p n = xs \<Longrightarrow> k < n \<Longrightarrow> m (p + of_nat k) = xs ! k"
  by (auto simp: bytes_nth)

lemma bytes_drop: "bytes m p (a + b) = xs \<Longrightarrow> bytes m (p + of_nat a) b = drop a xs"
  by (auto simp: bytes_append)

lemma bytes_take: "bytes m p (a + b) = xs \<Longrightarrow> bytes m p a = take a xs"
  by (auto simp: bytes_append)

lemma bytes_cong: "(\<And>k. k < n \<Longrightarrow> m (p + of_nat k) = m' (p + of_nat k)) \<Longrightarrow> bytes m p n = bytes m' p n"
  by (simp add: bytes_def)

lemma store16_above: "unat (b - a) < 2 ^ 32 - 1 \<Longrightarrow> 2 \<le> unat (b - a) \<Longrightarrow> store16 m a v b = m b"
  by (auto simp: store16_def)

lemma bytes_store16_inside:
  assumes "k + 1 < n" "n < 2 ^ 32"
  shows "bytes (store16 m (p + of_nat k) v) p n = (bytes m p n)[k := ucast v, Suc k := ucast (drop_bit 8 v)]"
  using assms unfolding store16_off
  by (intro nth_equalityI) (auto simp: bytes_nth nth_list_update of_nat_eq_small[where 'a = 32] simp del: of_nat_Suc)

lemma bytes_store16_before:
  assumes "k + 2 \<le> b" "b + n \<le> 2 ^ 32"
  shows "bytes (store16 m (p + of_nat k) v) (p + of_nat b) n = bytes m (p + of_nat b) n"
proof (rule bytes_cong)
  fix j assume "j < n"
  then have "p + of_nat b + of_nat j = p + of_nat (b + j)" "b + j < 2 ^ 32" using assms by (simp_all add: add.assoc)
  then show "store16 m (p + of_nat k) v (p + of_nat b + of_nat j) = m (p + of_nat b + of_nat j)"
    using assms unfolding store16_off by (simp add: of_nat_eq_small[where 'a = 32] del: of_nat_Suc of_nat_add)
qed

lemma bytes_store16_after:
  assumes "b + n \<le> k" "k + 2 \<le> 2 ^ 32"
  shows "bytes (store16 m (p + of_nat k) v) (p + of_nat b) n = bytes m (p + of_nat b) n"
proof (rule bytes_cong)
  fix j assume "j < n"
  then have "p + of_nat b + of_nat j = p + of_nat (b + j)" "b + j < k" using assms by (simp_all add: add.assoc)
  then show "store16 m (p + of_nat k) v (p + of_nat b + of_nat j) = m (p + of_nat b + of_nat j)"
    using assms unfolding store16_off by (simp add: of_nat_eq_small[where 'a = 32] del: of_nat_Suc of_nat_add)
qed

lemma ipv4_send_packet_True:
  assumes "ipv4_send_packet tick source_ip destination_ip protocol pp data s = (True, s')"
  shows "\<exists>dmac s1. s' = ethernet_send_packet dmac ETHERTYPE_IPV4
    (ipv4_header (20 + length pp + length data) protocol
       (ipv4_calculate_checksum (ipv4_header (20 + length pp + length data) protocol 0 source_ip destination_ip @ pp @ data))
       source_ip destination_ip @ pp @ data) s1"
proof -
  have "htons 0 = 0" by (simp add: htons_def switch_endian_16_def)
  then show ?thesis
    using assms by (auto simp: ipv4_send_packet_def Let_def split: prod.splits option.splits if_splits)
qed

lemma ipv4_receive_ok:
  assumes "header_ok (pmem s) packet" "drop_bit 4 (pmem s packet) = 4"
  shows "ipv4_receive_packet tick dns_listener packet data s =
    (if pmem s (packet + 9) = IP_PROTOCOL_ICMP then icmp_receive_packet data (data + 8) s
     else if pmem s (packet + 9) = IP_PROTOCOL_UDP then udp_receive_packet dns_listener packet data (data + 8) s
     else if pmem s (packet + 9) = IP_PROTOCOL_TCP then tcp_receive_packet tick packet data (data + 20) s
     else s)"
proof -
  have "ipv4_calculate_checksum (bytes (store16 (pmem s) (packet + 10) 0) packet 20) = load16 (pmem s) (packet + 10)"
    using assms(1) by (simp add: header_ok_def)
  then show ?thesis
    using assms(2) by (simp add: ipv4_receive_packet_def Let_def store16_store16_same store16_load16_same)
qed

lemma list4: "length xs = 4 \<Longrightarrow> xs = [xs ! 0, xs ! 1, xs ! 2, xs ! 3]"
  by (auto simp: numeral_eq_Suc length_Suc_conv)

lemma length_ipv4_header: "length si = 4 \<Longrightarrow> length di = 4 \<Longrightarrow> length (ipv4_header n pr ck si di) = 20"
  by (simp add: ipv4_header_def le16_def)

lemma length_udp_header: "length (udp_header sp dp len ck) = 8"
  by (simp add: udp_header_def le16_def)

lemma header_ok_sent:
  assumes b: "bytes m p 20 = ipv4_header n pr ck si di" and len: "length si = 4" "length di = 4"
    and ck: "ck = ipv4_calculate_checksum (ipv4_header n pr 0 si di @ rest)"
  shows "header_ok m p" "drop_bit 4 (m p) = 4" "m (p + 9) = pr" "bytes m (p + 12) 4 = si" "bytes m (p + 16) 4 = di"
proof -
  obtain s0 s1 s2 s3 where si: "si = [s0, s1, s2, s3]" using list4[OF len(1)] by blast
  obtain d0 d1 d2 d3 where di: "di = [d0, d1, d2, d3]" using list4[OF len(2)] by blast
  note nth = bytes_eq_nth[OF b]
  have hdr: "ipv4_header n pr ck si di ! 10 = ucast ck" "ipv4_header n pr ck si di ! 11 = ucast (drop_bit 8 ck)"
    "ipv4_header n pr ck si di ! 9 = pr" "ipv4_header n pr ck si di ! 0 = 0x45"
    by (simp_all add: ipv4_header_def le16_def si di)
  have ck': "load16 m (p + 10) = ck" using nth[of 10] nth[of 11] hdr by (intro load16_eqI) (simp_all add: add.assoc)
  have "bytes (store16 m (p + 10) 0) p 20 = ipv4_header n pr 0 si di"
    using bytes_store16_inside[of 10 20 m p 0] b by (simp add: ipv4_header_def le16_def si di)
  moreover have "ipv4_calculate_checksum (ipv4_header n pr 0 si di @ rest) = ipv4_calculate_checksum (ipv4_header n pr 0 si di)"
    using length_ipv4_header[OF len, of n pr 0] by (simp add: ipv4_calculate_checksum_def)
  ultimately show "header_ok m p" using ck ck' by (simp add: header_ok_def)
  have "m p = 0x45" using nth[of 0] hdr by simp
  moreover have "drop_bit 4 (0x45 :: u8) = 4" by code_simp
  ultimately show "drop_bit 4 (m p) = 4" by simp
  show "m (p + 9) = pr" using nth[of 9] hdr by simp
  show "bytes m (p + 12) 4 = si" using bytes_drop[of m p 12 8] b bytes_take[of m "p + 12" 4 4]
    by (simp add: ipv4_header_def le16_def si di)
  show "bytes m (p + 16) 4 = di" using bytes_drop[of m p 16 4] b by (simp add: ipv4_header_def le16_def si di)
qed

lemma ucast_of_nat_16: "k < 65536 \<Longrightarrow> (ucast (of_nat k :: u16) :: u32) = of_nat k"
  by (simp add: word_unat_eq_iff unat_ucast_up unat_of_nat_small)

lemma udp_data_size:
  assumes "n + 8 < 65536"
  shows "unat (ucast (ntohs (htons (of_nat (n + 8)))) - 8 :: u32) = n"
    and "(ucast (ntohs (htons (of_nat (n + 8)))) - 8 :: u32) = of_nat n"
proof -
  have "(ucast (of_nat (n + 8) :: u16) :: u32) = of_nat (n + 8)" using assms by (rule ucast_of_nat_16)
  then show *: "(ucast (ntohs (htons (of_nat (n + 8)))) - 8 :: u32) = of_nat n" by (simp add: net_order_defs)
  show "unat (ucast (ntohs (htons (of_nat (n + 8)))) - 8 :: u32) = n"
    unfolding * using assms by (intro unat_of_nat_small) simp
qed

lemma udp_receive_ok:
  assumes b: "bytes m (p + 20) (8 + length data) = udp_header sp dp len ck @ data"
    and si: "bytes m (p + 12) 4 = si" and di: "bytes m (p + 16) 4 = di"
    and ck: "ck = udp_calculate_checksum sp dp len si di data"
    and len: "len = htons (of_nat (length data + 8))" "length data + 28 < 65536"
    and s: "pmem s = m" "udp_listeners s = Some t"
  shows "udp_receive_packet dns_listener p (p + 20) (p + 28) s =
    (case t (ntohs dp) of None \<Rightarrow> s | Some l \<Rightarrow> call_udp_listener dns_listener l (p + 28) (of_nat (length data)) s)"
proof -
  let ?n = "length data"
  let ?m1 = "store16 m (p + 26) 0"
  note nth = bytes_eq_nth[OF b]
  have hdr: "load16 m (p + 20) = sp" "load16 m (p + 22) = dp" "load16 m (p + 24) = len" "load16 m (p + 26) = ck"
    using nth[of 0] nth[of 1] nth[of 2] nth[of 3] nth[of 4] nth[of 5] nth[of 6] nth[of 7]
    by (auto intro!: load16_eqI simp: udp_header_def le16_def add.assoc)
  have other: "load16 ?m1 (p + 20) = sp" "load16 ?m1 (p + 22) = dp" "load16 ?m1 (p + 24) = len"
    using hdr by (simp_all add: load16_def store16_def)
  have bs: "bytes ?m1 (p + 12) 4 = si" "bytes ?m1 (p + 16) 4 = di"
    using si di bytes_store16_after[of 12 4 26 m p 0] bytes_store16_after[of 16 4 26 m p 0] by simp_all
  have "bytes m (p + 28) ?n = data" using bytes_drop[OF b] by (simp add: length_udp_header add.commute)
  then have bd: "bytes ?m1 (p + 28) ?n = data" using bytes_store16_before[of 26 28 ?n m p 0] len(2) by simp
  have size: "unat (ucast (ntohs len) - 8 :: u32) = ?n" "(ucast (ntohs len) - 8 :: u32) = of_nat ?n"
    using udp_data_size[of ?n] len by auto
  have "udp_calculate_checksum sp dp len si di data = load16 m (p + 26)" using hdr(4) ck by simp
  moreover have "store16 m (p + 26) ck = m" using hdr(4) store16_load16_same[of m "p + 26"] by simp
  moreover have sm: "s\<lparr>pmem := m\<rparr> = s" by (simp add: s(1)[symmetric])
  ultimately show ?thesis
    using s hdr other bs bd size
    by (simp add: sm udp_receive_packet_def Let_def store16_store16_same store16_load16_same add.assoc split: option.split)
qed

text \<open>C6: A datagram reaches its listener unchanged. When \<open>udp_send_packet\<close> reports success, the last frame it
  handed to the network card, lying at address \<open>p\<close> in the memory of a receiver that listens on the destination
  port, makes \<open>ethernet_process_packet\<close> call exactly that listener, with a pointer to the data sent and their
  length: both checksums pass, the byte orders cancel, and the receiver's buffer is as before. With no listener on
  the port the frame changes nothing.\<close>

theorem udp_datagram_delivered:
  assumes send: "udp_send_packet tick source_ip source_port destination_ip destination_port data s = (True, s')"
    and len: "length source_ip = 4" "length destination_ip = 4" "length data + 28 < 65536"
    and mem: "bytes (pmem r) p (28 + length data) = payload (last (sent s'))"
    and listeners: "udp_listeners r = Some t"
  shows "ethernet_process_packet tick' dns_listener (ethertype (last (sent s'))) p r =
      (case t destination_port of None \<Rightarrow> r
       | Some l \<Rightarrow> call_udp_listener dns_listener l (p + 28) (of_nat (length data)) r)
    \<and> bytes (pmem r) (p + 28) (length data) = data"
proof -
  let ?sp = "htons source_port" and ?dp = "htons destination_port" and ?len = "htons (of_nat (length data + 8))"
  let ?uck = "udp_calculate_checksum ?sp ?dp ?len source_ip destination_ip data"
  let ?uh = "udp_header ?sp ?dp ?len ?uck"
  let ?total = "20 + length ?uh + length data"
  let ?ck = "ipv4_calculate_checksum (ipv4_header ?total IP_PROTOCOL_UDP 0 source_ip destination_ip @ ?uh @ data)"
  let ?ih = "ipv4_header ?total IP_PROTOCOL_UDP ?ck source_ip destination_ip"
  obtain dmac s1 where s': "s' = ethernet_send_packet dmac ETHERTYPE_IPV4 (?ih @ ?uh @ data) s1"
    using ipv4_send_packet_True[OF send[unfolded udp_send_packet_def Let_def]] by blast
  have et: "ntohs (ethertype (last (sent s'))) = ETHERTYPE_IPV4" by (simp add: s' ethernet_send_packet_def net_order_defs)
  have b: "bytes (pmem r) p (20 + (8 + length data)) = ?ih @ ?uh @ data"
    using mem by (simp add: s' ethernet_send_packet_def)
  have ih: "bytes (pmem r) p 20 = ?ih" using bytes_take[OF b] length_ipv4_header[OF len(1,2)] by simp
  have ud: "bytes (pmem r) (p + 20) (8 + length data) = ?uh @ data"
    using bytes_drop[OF b] length_ipv4_header[OF len(1,2)] by simp
  note ok = header_ok_sent[OF ih len(1,2) refl]
  have "ethernet_process_packet tick' dns_listener (ethertype (last (sent s'))) p r =
      udp_receive_packet dns_listener p (p + 20) (p + 28) r"
    using et by (simp add: ethernet_process_packet_def ipv4_receive_ok[OF ok(1,2)] ok(3) add.assoc)
  also have "\<dots> = (case t (ntohs ?dp) of None \<Rightarrow> r
      | Some l \<Rightarrow> call_udp_listener dns_listener l (p + 28) (of_nat (length data)) r)"
    by (rule udp_receive_ok[OF ud ok(4,5) refl refl len(3) refl listeners])
  finally show ?thesis using bytes_drop[OF ud] by (simp add: length_udp_header net_order_defs add.commute)
qed

definition sample_sent :: net_apps where
  "sample_sent = snd (udp_send_packet (\<lambda>s. s) [0, 0, 0, 0] 67 [255, 255, 255, 255] 68 [7, 8, 9] sample_net)"

definition sample_receiver :: net_apps where
  "sample_receiver = sample_net\<lparr>pmem := (\<lambda>a. payload (last (sent sample_sent)) ! unat a)\<rparr>"

lemma sample_send: "udp_send_packet (\<lambda>s. s) [0, 0, 0, 0] 67 [255, 255, 255, 255] 68 [7, 8, 9] sample_net = (True, sample_sent)"
  by (simp add: sample_sent_def udp_send_packet_def ipv4_send_packet_def Let_def)

lemma sample_payload: "length (payload (last (sent sample_sent))) = 31"
  by (simp add: sample_sent_def udp_send_packet_def ipv4_send_packet_def Let_def ethernet_send_packet_def
      length_ipv4_header length_udp_header)

theorem udp_datagram_delivered_witness:
  "ethernet_process_packet (\<lambda>s. s) (\<lambda>_ _ s. s) (ethertype (last (sent sample_sent))) 0 sample_receiver =
     (case ((\<lambda>_. None)(68 := Some Dhcp_udp_listener)) (68 :: u16) of None \<Rightarrow> sample_receiver
      | Some l \<Rightarrow> call_udp_listener (\<lambda>_ _ s. s) l (0 + 28) (of_nat (length [7, 8, 9 :: u8])) sample_receiver)
   \<and> bytes (pmem sample_receiver) (0 + 28) (length [7, 8, 9 :: u8]) = [7, 8, 9]"
proof (rule udp_datagram_delivered[OF sample_send, where t = "(\<lambda>_. None)(68 := Some Dhcp_udp_listener)"])
  show "bytes (pmem sample_receiver) 0 (28 + length [7, 8, 9 :: u8]) = payload (last (sent sample_sent))"
    using sample_payload by (intro nth_equalityI) (simp_all add: bytes_nth sample_receiver_def unat_of_nat_small)
qed (simp_all add: sample_receiver_def sample_net_def)

section \<open>ARP\<close>

lemma arp_lookup_new:
  assumes "arp_lookup s tip = None" "unat (curr_arp s) < 100"
  shows "arp_lookup (arp_process_reply q s) tip = (if sender_ip q = tip then Some (sender_mac q) else None)"
proof -
  have c: "unat (curr_arp s + 1) = Suc (unat (curr_arp s))" using assms(2) unat_add_of_nat[of "curr_arp s" 1] by simp
  have "curr_arp s < 100" using assms(2) by (simp add: word_less_nat_alt)
  moreover have "List.find (\<lambda>i. map_ip (arp_list s i) = tip) [0..<unat (curr_arp s)] = None"
    using assms(1) by (simp add: arp_lookup_def)
  then have "List.find (\<lambda>i. map_ip (((arp_list s)(unat (curr_arp s) := e)) i) = tip) [0..<unat (curr_arp s)] = None" for e
    by (auto simp: find_None_iff)
  ultimately show ?thesis
    by (simp add: arp_process_reply_def arp_lookup_def c find_append)
qed

lemma arp_lookup_stays:
  assumes "arp_lookup s tip = Some x"
  shows "arp_lookup (arp_receive_packet p s) tip = Some x"
proof -
  have "arp_lookup (arp_process_reply q s) tip = Some x" for q
  proof (cases "curr_arp s < 100")
    case True
    then have "unat (curr_arp s) < 100" by (simp add: word_less_nat_alt)
    then have c: "unat (curr_arp s + 1) = Suc (unat (curr_arp s))" using unat_add_of_nat[of "curr_arp s" 1] by simp
    obtain i where i: "List.find (\<lambda>i. map_ip (arp_list s i) = tip) [0..<unat (curr_arp s)] = Some i" "map_mac (arp_list s i) = x"
      using assms by (auto simp: arp_lookup_def)
    let ?l = "(arp_list s)(unat (curr_arp s) := \<lparr>map_ip = sender_ip q, map_mac = sender_mac q\<rparr>)"
    have cong: "List.find (\<lambda>i. map_ip (?l i) = tip) [0..<unat (curr_arp s)] = List.find (\<lambda>i. map_ip (arp_list s i) = tip) [0..<unat (curr_arp s)]"
      by (rule find_cong) auto
    have "i < unat (curr_arp s)" using i(1) by (auto simp: find_Some_iff)
    moreover have "List.find (\<lambda>i. map_ip (?l i) = tip) [0..<Suc (unat (curr_arp s))] = Some i"
      by (simp add: find_append cong i(1) del: fun_upd_apply)
    moreover have "arp_process_reply q s = s\<lparr>arp_list := ?l, curr_arp := curr_arp s + 1\<rparr>"
      using True by (simp add: arp_process_reply_def)
    ultimately show ?thesis using i(2) unfolding arp_lookup_def by (simp add: c)
  qed (simp add: arp_process_reply_def assms)
  then show ?thesis
    using assms by (simp add: arp_receive_packet_def arp_process_request_def arp_send_reply_def ethernet_send_packet_def
        Let_def arp_lookup_def)
qed

lemma arp_lookup_stays_fold:
  "arp_lookup s tip = Some x \<Longrightarrow> arp_lookup (fold arp_receive_packet ps s) tip = Some x"
  by (induction ps arbitrary: s) (auto dest: arp_lookup_stays)

text \<open>An answer is learned and used, and the first answer for an address is the one that stays. When no entry
  for an address is known and fewer than 100 answers have come in, then after an ARP reply from that address
  \<open>arp_get_mac\<close> returns the sender's hardware address at once, without sending a request and without waiting, and
  no later packet changes that.\<close>

theorem arp_reply_learned:
  assumes "arp_lookup s tip = None" "unat (curr_arp s) < 100" "sender_ip (arp_at (pmem s) p) = tip"
    "ntohs (opcode (arp_at (pmem s) p)) = 2"
  shows "let s2 = fold arp_receive_packet later (arp_receive_packet p s) in
    arp_get_mac tick tip timeout s2 = (Some (sender_mac (arp_at (pmem s) p)), s2)"
proof -
  have "arp_lookup (arp_receive_packet p s) tip = Some (sender_mac (arp_at (pmem s) p))"
    using assms arp_lookup_new[OF assms(1,2), of "arp_at (pmem s) p"] by (simp add: arp_receive_packet_def Let_def)
  then show ?thesis using arp_lookup_stays_fold by (fastforce simp: arp_get_mac_def Let_def)
qed

text \<open>The reply of 10.0.0.9 as it lies in memory at address 0.\<close>

definition sample_reply :: net_apps where
  "sample_reply = sample_net\<lparr>pmem := (\<lambda>a. ([0, 1, 8, 0, 6, 4, 0, 2, 2, 0, 0, 0, 0, 9, 10, 0, 0, 9, 2, 0, 0, 0, 0, 2, 10, 0, 0, 2] :: u8 list) ! unat a)\<rparr>"

theorem arp_reply_learned_witness:
  "let s2 = fold arp_receive_packet [0] (arp_receive_packet 0 sample_reply) in
    arp_get_mac (\<lambda>s. s) [10, 0, 0, 9] 100 s2 = (Some (sender_mac (arp_at (pmem sample_reply) 0)), s2)"
proof (rule arp_reply_learned)
  show "arp_lookup sample_reply [10, 0, 0, 9] = None"
    by (simp add: arp_lookup_def sample_reply_def sample_net_def upt_rec)
  show "sender_ip (arp_at (pmem sample_reply) 0) = [10, 0, 0, 9]"
    by (simp add: arp_at_def bytes_def sample_reply_def upt_rec)
  show "ntohs (opcode (arp_at (pmem sample_reply) 0)) = 2"
    by (simp add: arp_at_def sample_reply_def load16_def ntohs_def switch_endian_16_def)
qed (simp add: sample_reply_def sample_net_def)

text \<open>The bound of the ARP table is its size in bytes, 100, not its ten entries: once ten answers have
  come in, the next one is written behind the end of the array, into whatever memory follows it, and so on up to the
  hundredth.\<close>

theorem arp_table_overflow:
  assumes "10 \<le> unat (curr_arp s)" "unat (curr_arp s) < 100" "ntohs (opcode (arp_at (pmem s) p)) = 2"
  shows "let s' = arp_receive_packet p s in
    \<exists>i\<ge>10. arp_list s' i = \<lparr>map_ip = sender_ip (arp_at (pmem s) p), map_mac = sender_mac (arp_at (pmem s) p)\<rparr>
      \<and> (\<forall>j<10. arp_list s' j = arp_list s j) \<and> unat (curr_arp s') = unat (curr_arp s) + 1"
proof -
  have "unat (curr_arp s + 1) = unat (curr_arp s) + 1" using assms(2) unat_add_of_nat[of "curr_arp s" 1] by simp
  moreover have "curr_arp s < 100" using assms(2) by (simp add: word_less_nat_alt)
  ultimately show ?thesis
    using assms by (auto simp: arp_receive_packet_def arp_process_reply_def Let_def intro!: exI[of _ "unat (curr_arp s)"])
qed

theorem arp_table_overflow_witness:
  "let s' = arp_receive_packet 0 (sample_reply\<lparr>curr_arp := 10\<rparr>) in
    \<exists>i\<ge>10. arp_list s' i = \<lparr>map_ip = sender_ip (arp_at (pmem (sample_reply\<lparr>curr_arp := 10\<rparr>)) 0),
        map_mac = sender_mac (arp_at (pmem (sample_reply\<lparr>curr_arp := 10\<rparr>)) 0)\<rparr>
      \<and> (\<forall>j<10. arp_list s' j = arp_list (sample_reply\<lparr>curr_arp := 10\<rparr>) j)
      \<and> unat (curr_arp s') = unat (curr_arp (sample_reply\<lparr>curr_arp := 10\<rparr>)) + 1"
proof (rule arp_table_overflow)
  show "ntohs (opcode (arp_at (pmem (sample_reply\<lparr>curr_arp := 10\<rparr>)) 0)) = 2"
    by (simp add: arp_at_def sample_reply_def load16_def ntohs_def switch_endian_16_def)
qed simp_all

section \<open>Routing\<close>

text \<open>A packet for a host of the own subnet goes to the gateway. When the addresses of both are known, the frame
  \<open>ipv4_send_packet\<close> sends carries the gateway's hardware address, not that of the destination, whose address has
  just been looked up: the branch for known subnet addresses falls through to the one for other networks.\<close>

theorem ipv4_local_packet_sent_to_gateway:
  assumes "destination_ip \<noteq> [255, 255, 255, 255]"
    "ipv4_is_cidr_subnet destination_ip (ip (ipv4 (driver s))) (netmask (ipv4 (driver s)))"
    "arp_lookup s destination_ip = Some dest_mac" "arp_lookup s (gateway (ipv4 (driver s))) = Some gateway_mac"
  shows "\<exists>f. ipv4_send_packet tick source_ip destination_ip protocol protocol_packet data s =
      (True, s\<lparr>sent := sent s @ [f]\<rparr>) \<and> destination_mac f = gateway_mac"
  using assms
  by (simp add: ipv4_send_packet_def arp_get_mac_def ethernet_send_packet_def Let_def) (intro exI conjI, rule refl, simp)

theorem ipv4_local_packet_sent_to_gateway_witness:
  "\<exists>f. ipv4_send_packet (\<lambda>s. s) [10, 0, 0, 2] [10, 0, 0, 3] 0x11 [] [1] sample_net =
      (True, sample_net\<lparr>sent := sent sample_net @ [f]\<rparr>) \<and> destination_mac f = [2, 0, 0, 0, 0, 1]"
proof (rule ipv4_local_packet_sent_to_gateway)
  show "arp_lookup sample_net [10, 0, 0, 3] = Some [2, 0, 0, 0, 0, 3]"
    "arp_lookup sample_net (gateway (ipv4 (driver sample_net))) = Some [2, 0, 0, 0, 0, 1]"
    by (simp_all add: arp_lookup_def sample_net_def sample_driver_def upt_rec)
qed (simp_all add: sample_net_def sample_driver_def ipv4_is_cidr_subnet_def)

section \<open>DHCP options\<close>

text \<open>The options field as the protocol defines it: code, length, value.\<close>

type_synonym dhcp_option = "u8 \<times> u8 list"

definition encode_option :: "dhcp_option \<Rightarrow> u8 list" where
  "encode_option opt = fst opt # of_nat (length (snd opt)) # snd opt"

definition option_ok :: "dhcp_option \<Rightarrow> bool" where
  "option_ok opt \<longleftrightarrow> fst opt \<noteq> DHCP_OPTION_END \<and> length (snd opt) \<le> 255 \<and>
     (fst opt \<in> {DHCP_OPTION_SUBNET_MASK, DHCP_OPTION_ROUTER, DHCP_OPTION_DNS_SERVER, DHCP_OPTION_LEASE_TIME}
        \<longrightarrow> 4 \<le> length (snd opt))"

definition configure :: "ipv4_config \<Rightarrow> dhcp_option \<Rightarrow> ipv4_config" where
  "configure c opt =
     (let v = snd opt
      in if fst opt = DHCP_OPTION_SUBNET_MASK then c\<lparr>netmask := take 4 v\<rparr>
         else if fst opt = DHCP_OPTION_ROUTER then c\<lparr>gateway := take 4 v\<rparr>
         else if fst opt = DHCP_OPTION_DNS_SERVER then c\<lparr>dns := take 4 v\<rparr>
         else if fst opt = DHCP_OPTION_LEASE_TIME
         then c\<lparr>lease_time := push_bit 24 (ucast (v ! 0)) OR push_bit 16 (ucast (v ! 1))
                  OR push_bit 8 (ucast (v ! 2)) OR ucast (v ! 3)\<rparr>
         else c)"

lemma dhcp_apply_option_configure:
  assumes "option_ok opt" "bytes m op (length (encode_option opt)) = encode_option opt"
  shows "m op = fst opt" "unat (m (op + 1)) = length (snd opt)" "dhcp_apply_option m op c = configure c opt"
proof -
  let ?v = "snd opt"
  have len: "length ?v < 256" using assms(1) by (simp add: option_ok_def)
  have b: "bytes m op (2 + length ?v) = fst opt # of_nat (length ?v) # ?v"
    using assms(2) by (simp add: encode_option_def)
  show code: "m op = fst opt" using bytes_eq_nth[OF b, of 0] by simp
  show "unat (m (op + 1)) = length ?v" using bytes_eq_nth[OF b, of 1] len by (simp add: unat_of_nat_small)
  have v: "bytes m (op + 2) (length ?v) = ?v" using bytes_drop[OF b] by (simp add: add.commute)
  have four: "bytes m (op + 2) 4 = take 4 ?v \<and> (\<forall>k<4. m (op + 2 + of_nat k) = ?v ! k)" if l: "4 \<le> length ?v"
    using bytes_take[of m "op + 2" 4 "length ?v - 4"] v l bytes_eq_nth[OF v] by simp
  have word: "m (op + 2) = ?v ! 0 \<and> m (op + 3) = ?v ! 1 \<and> m (op + 4) = ?v ! 2 \<and> m (op + 5) = ?v ! 3" if l: "4 \<le> length ?v"
    using four[OF l, THEN conjunct2, rule_format, of 0] four[OF l, THEN conjunct2, rule_format, of 1]
      four[OF l, THEN conjunct2, rule_format, of 2] four[OF l, THEN conjunct2, rule_format, of 3]
    by (simp add: add.commute)
  show "dhcp_apply_option m op c = configure c opt"
    using assms(1) four word by (auto simp: dhcp_apply_option_def configure_def code option_ok_def Let_def)
qed

lemma dhcp_ack_options_configure:
  assumes "\<forall>opt\<in>set opts. option_ok opt"
    "bytes m (options + of_nat k) (length (concat (map encode_option opts)) + 1) = concat (map encode_option opts) @ [DHCP_OPTION_END]"
    "k + length (concat (map encode_option opts)) < 312"
  shows "dhcp_ack_options m options k c = foldl configure c opts"
  using assms
proof (induction opts arbitrary: k c)
  case Nil
  then show ?case using bytes_eq_nth[OF Nil(2), of 0] by (subst dhcp_ack_options.simps) simp
next
  case (Cons opt opts)
  let ?e = "encode_option opt" and ?r = "concat (map encode_option opts)" and ?op = "options + of_nat k"
  have b: "bytes m ?op (length ?e + (length ?r + 1)) = ?e @ ?r @ [DHCP_OPTION_END]"
    using Cons.prems(2) by (simp add: add.assoc)
  have le: "length ?e = length (snd opt) + 2" by (simp add: encode_option_def)
  note app = dhcp_apply_option_configure[of opt m ?op]
  have ok: "option_ok opt" and be: "bytes m ?op (length ?e) = ?e" using Cons.prems(1) bytes_take[OF b] by simp_all
  have br: "bytes m (options + of_nat (k + length ?e)) (length ?r + 1) = ?r @ [DHCP_OPTION_END]"
    using bytes_drop[OF b] by (simp add: add.assoc)
  have nend: "fst opt \<noteq> DHCP_OPTION_END" using ok by (simp add: option_ok_def)
  have "dhcp_ack_options m options k c = dhcp_ack_options m options (k + length ?e) (configure c opt)"
    using Cons.prems(3) nend app[OF ok be] le by (subst dhcp_ack_options.simps) (simp add: Let_def)
  also have "\<dots> = foldl configure (configure c opt) opts"
    using Cons.IH[OF _ br] Cons.prems(1,3) by simp
  finally show ?case by simp
qed

text \<open>C40: A DHCP acknowledgement configures the interface as the protocol says. If the options field of the packet
  holds well-formed options, each of code, length and value, ended by the end marker within its 312 bytes, then
  \<open>dhcp_process_ack\<close> gives the interface the offered address and, over the relay address as default gateway, exactly
  what the options say, in their order; nothing else of the state changes. The loop always ends.\<close>

theorem dhcp_ack_configures:
  assumes "\<forall>opt\<in>set opts. option_ok opt"
    "bytes (pmem s) (p + 240) (length (concat (map encode_option opts)) + 1) = concat (map encode_option opts) @ [0xff]"
    "length (concat (map encode_option opts)) < 312"
  shows "dhcp_process_ack p s = s\<lparr>driver := (driver s)\<lparr>ipv4 :=
      foldl configure ((ipv4 (driver s))\<lparr>ip := bytes (pmem s) (p + 16) 4, gateway := bytes (pmem s) (p + 24) 4\<rparr>) opts\<rparr>\<rparr>"
  using assms dhcp_ack_options_configure[of opts "pmem s" "p + 240" 0] by (simp add: dhcp_process_ack_def Let_def)

definition sample_ack :: net_apps where
  "sample_ack = sample_net\<lparr>pmem := (\<lambda>a. if unat a < 240 then 7 else
     ([1, 4, 255, 255, 0, 0, 3, 4, 10, 0, 0, 1, 12, 2, 65, 66, 255] :: u8 list) ! (unat a - 240))\<rparr>"

theorem dhcp_ack_configures_witness:
  "dhcp_process_ack 0 sample_ack = sample_ack\<lparr>driver := (driver sample_ack)\<lparr>ipv4 :=
      foldl configure ((ipv4 (driver sample_ack))\<lparr>ip := bytes (pmem sample_ack) (0 + 16) 4, gateway := bytes (pmem sample_ack) (0 + 24) 4\<rparr>)
        [(1, [255, 255, 0, 0]), (3, [10, 0, 0, 1]), (12, [65, 66])]\<rparr>\<rparr>"
proof (rule dhcp_ack_configures)
  show "bytes (pmem sample_ack) (0 + 240) (length (concat (map encode_option [(1, [255, 255, 0, 0]), (3, [10, 0, 0, 1]), (12, [65, 66])])) + 1) =
    concat (map encode_option [(1, [255, 255, 0, 0]), (3, [10, 0, 0, 1]), (12, [65, 66])]) @ [0xff]"
    by (simp add: sample_ack_def encode_option_def bytes_def upt_rec)
qed (simp_all add: option_ok_def encode_option_def)

end
