(* ===== verification/Framebuffer.thy ===== *)
theory Framebuffer
  imports Kstring "HOL-Library.Signed_Division"
begin

text \<open>
  \<^verbatim>\<open>drivers/video/framebuffer.c\<close>: drawing, scrolling and the read and write calls of the frame buffer
  over the byte store that holds video memory and the back buffer. The caret of text mode is the
  pair of registers the code writes through the screen's ports.
\<close>

record framebuffer_t =
  fb_addr :: ptr
  fb_pitch :: u32
  fb_width :: u32
  fb_height :: u32
  fb_bpp :: u8
  fb_type :: u8
  fb_backbuffer :: ptr

abbreviation (input) FRAMEBUFFER_TYPE_RGB :: u8 where "FRAMEBUFFER_TYPE_RGB \<equiv> 1"
abbreviation (input) FRAMEBUFFER_TYPE_TEXT :: u8 where "FRAMEBUFFER_TYPE_TEXT \<equiv> 2"

definition fb0 :: framebuffer_t where
  "fb0 = \<lparr>fb_addr = 0xB8000, fb_pitch = 160, fb_width = 80, fb_height = 25, fb_bpp = 16,
     fb_type = FRAMEBUFFER_TYPE_TEXT, fb_backbuffer = 0\<rparr>"

text \<open>The screen: memory, caret position and the processor features \<open>memmove\<close> looks at.\<close>

record screen =
  cpu :: cpu_features
  vram :: mem
  caret :: u16

definition framebuffer_rgb_draw_pixel :: "framebuffer_t \<Rightarrow> int \<Rightarrow> int \<Rightarrow> u32 \<Rightarrow> 's screen_scheme \<Rightarrow> 's screen_scheme" where
  "framebuffer_rgb_draw_pixel fb x y color s =
     (let where = of_int y * fb_pitch fb + of_int (x * uint (fb_bpp fb) sdiv 8);
          put = (\<lambda>i v m. store8 (store8 m (fb_backbuffer fb + (where + i)) v) (fb_addr fb + (where + i)) v)
      in s\<lparr>vram := put 2 (ucast (drop_bit 16 color)) (put 1 (ucast (drop_bit 8 color)) (put 0 (ucast color) (vram s)))\<rparr>)"

text \<open>\<open>c\<close> is a signed \<open>char\<close>: from 0x80 on its sign extension overwrites the colour.\<close>

definition framebuffer_text_draw_char :: "framebuffer_t \<Rightarrow> int \<Rightarrow> int \<Rightarrow> u8 \<Rightarrow> u8 \<Rightarrow> 's screen_scheme \<Rightarrow> 's screen_scheme" where
  "framebuffer_text_draw_char fb x y c color s =
     s\<lparr>vram := store16 (vram s) (fb_addr fb + 2 * (of_int y * fb_width fb + of_int x)) (scast c OR push_bit 8 (ucast color))\<rparr>"

definition framebuffer_move_cursor_caret :: "framebuffer_t \<Rightarrow> int \<Rightarrow> int \<Rightarrow> 's screen_scheme \<Rightarrow> 's screen_scheme" where
  "framebuffer_move_cursor_caret fb x y s =
     (if fb_type fb = FRAMEBUFFER_TYPE_TEXT then s\<lparr>caret := ucast (of_int y * fb_width fb + of_int x)\<rparr> else s)"

definition framebuffer_text_scroll :: "framebuffer_t \<Rightarrow> ptr \<Rightarrow> u32 \<Rightarrow> 's screen_scheme \<Rightarrow> 's screen_scheme" where
  "framebuffer_text_scroll fb back h s =
     (let m1 = snd (memmove (cpu s) (vram s) (fb_addr fb) (back + fb_pitch fb * h) (fb_pitch fb * (fb_height fb - h)))
      in s\<lparr>vram := snd (memset m1 (fb_addr fb + fb_pitch fb * (fb_height fb - h)) 0 (fb_pitch fb * h))\<rparr>)"

definition framebuffer_rgb_scroll :: "framebuffer_t \<Rightarrow> ptr \<Rightarrow> u32 \<Rightarrow> 's screen_scheme \<Rightarrow> 's screen_scheme" where
  "framebuffer_rgb_scroll fb back h s =
     (let m1 = snd (memmove (cpu s) (vram s) (fb_addr fb) (back + fb_pitch fb * h) (fb_pitch fb * (fb_height fb - h)))
      in s\<lparr>vram := snd (memset m1 (fb_addr fb + fb_pitch fb * (fb_height fb - h)) 0 (fb_pitch fb * h))\<rparr>)"

text \<open>How many bytes of a transfer the buffer has room for; \<open>offset + count\<close> wraps around.\<close>

definition fb_clamp :: "framebuffer_t \<Rightarrow> u32 \<Rightarrow> u32 \<Rightarrow> u32" where
  "fb_clamp fb count offset =
     (let size = fb_pitch fb * fb_height fb in if offset + count > size then size - offset else count)"

definition framebuffer_read :: "framebuffer_t \<Rightarrow> ptr \<Rightarrow> u32 \<Rightarrow> u32 \<Rightarrow> 's screen_scheme \<Rightarrow> u32 \<times> 's screen_scheme" where
  "framebuffer_read fb buf count offset s =
     (if offset \<ge> fb_pitch fb * fb_height fb then (0, s)
      else let n = fb_clamp fb count offset
           in (n, s\<lparr>vram := snd (memcpy (cpu s) (vram s) buf (fb_backbuffer fb + offset) n)\<rparr>))"

definition framebuffer_write :: "framebuffer_t \<Rightarrow> ptr \<Rightarrow> u32 \<Rightarrow> u32 \<Rightarrow> 's screen_scheme \<Rightarrow> u32 \<times> 's screen_scheme" where
  "framebuffer_write fb buf count offset s =
     (if offset \<ge> fb_pitch fb * fb_height fb then (0, s)
      else let n = fb_clamp fb count offset;
               m1 = snd (memcpy (cpu s) (vram s) (fb_backbuffer fb + offset) buf n)
           in (n, s\<lparr>vram := snd (memcpy (cpu s) m1 (fb_addr fb + offset) buf n)\<rparr>))"

end
