(* ===== verification/Errno.thy ===== *)
theory Errno
  imports Kernel_Prelude
begin

text \<open>
  The error numbers of \<^verbatim>\<open>libc/include/errno.h\<close> the kernel returns, negated, from operations of type
  \<open>int\<close>.
\<close>

abbreviation (input) ENOENT :: int where "ENOENT \<equiv> 2"
abbreviation (input) ESRCH :: int where "ESRCH \<equiv> 3"
abbreviation (input) EIO :: int where "EIO \<equiv> 5"
abbreviation (input) ENOEXEC :: int where "ENOEXEC \<equiv> 8"
abbreviation (input) ENOMEM :: int where "ENOMEM \<equiv> 12"
abbreviation (input) EBUSY :: int where "EBUSY \<equiv> 16"
abbreviation (input) EEXIST :: int where "EEXIST \<equiv> 17"
abbreviation (input) ENODEV :: int where "ENODEV \<equiv> 19"
abbreviation (input) ENOTDIR :: int where "ENOTDIR \<equiv> 20"
abbreviation (input) EACCES :: int where "EACCES \<equiv> 13"
abbreviation (input) EISDIR :: int where "EISDIR \<equiv> 21"
abbreviation (input) EINVAL :: int where "EINVAL \<equiv> 22"
abbreviation (input) ENOSPC :: int where "ENOSPC \<equiv> 28"
abbreviation (input) EROFS :: int where "EROFS \<equiv> 30"
abbreviation (input) ENOSYS :: int where "ENOSYS \<equiv> 38"
abbreviation (input) EBADFD :: int where "EBADFD \<equiv> 77"

end
