(* ===== verification/Tty.thy ===== *)
theory Tty
  imports Framebuffer Errno Ctype
begin

text \<open>
  \<^verbatim>\<open>drivers/tty.c\<close>: the terminals. A terminal has an input buffer the keyboard fills, an output buffer,
  and a buffer of character cells that mirrors the screen. The cells are the list \<open>text_buffer\<close>; an
  access outside of it, or outside of the input and output buffers, is the result \<open>None\<close>. The screen
  is drawn through \<^verbatim>\<open>framebuffer.c\<close>; the glyphs of \<^verbatim>\<open>rasterized.h\<close> are the argument \<open>ascii\<close>, the
  keyboard layout the argument \<open>kblayout\<close>.
\<close>

record tty_t =
  in_buffer :: "u8 list"
  in_buffer_size :: int
  in_buffer_start :: int
  in_buffer_end :: int
  out_buffer :: "u8 list"
  out_buffer_size :: int
  out_buffer_start :: int
  out_buffer_end :: int
  num :: int
  canon :: bool
  echo :: bool
  fb :: framebuffer_t
  text_buffer :: "u16 list"
  text_buffer_width :: int
  text_buffer_height :: int
  text_buffer_pos_x :: int
  text_buffer_pos_y :: int
  text_color :: u8
  char_width :: u8
  char_height :: u8

type_synonym font = "int \<Rightarrow> nat \<Rightarrow> u8"

text \<open>A terminal and the screen it draws on.\<close>

type_synonym 's term_state = "tty_t \<times> 's screen_scheme"

definition cell_get :: "'e list \<Rightarrow> int \<Rightarrow> 'e option" where
  "cell_get xs i = (if 0 \<le> i \<and> i < int (length xs) then Some (xs ! nat i) else None)"

definition cell_set :: "'e list \<Rightarrow> int \<Rightarrow> 'e \<Rightarrow> 'e list option" where
  "cell_set xs i v = (if 0 \<le> i \<and> i < int (length xs) then Some (xs[nat i := v]) else None)"

section \<open>Drawing\<close>

definition vgacolor_to_rgb :: "u8 \<Rightarrow> u32" where
  "vgacolor_to_rgb vgacolor =
     (if vgacolor = 0 then 0x000000 else if vgacolor = 1 then 0x0000AA else if vgacolor = 2 then 0x00AA00
      else if vgacolor = 3 then 0x00AAAA else if vgacolor = 4 then 0xAA0000 else if vgacolor = 5 then 0xAA00AA
      else if vgacolor = 6 then 0xAA5500 else if vgacolor = 7 then 0xAAAAAA else if vgacolor = 8 then 0x555555
      else if vgacolor = 9 then 0x5555FF else if vgacolor = 10 then 0x55FF55 else if vgacolor = 11 then 0x55FFFF
      else if vgacolor = 12 then 0xFF5555 else if vgacolor = 13 then 0xFF55FF else if vgacolor = 14 then 0xFFFF55
      else if vgacolor = 15 then 0xFFFFFF else 0)"

definition tty_draw_char_framebuffer :: "font \<Rightarrow> tty_t \<Rightarrow> int \<Rightarrow> int \<Rightarrow> u8 \<Rightarrow> u8 \<Rightarrow> 's screen_scheme \<Rightarrow> 's screen_scheme" where
  "tty_draw_char_framebuffer ascii tty x y c color s =
     (if fb_type (fb tty) = FRAMEBUFFER_TYPE_RGB then
        let font_char = ascii (char_int c);
            color_on = vgacolor_to_rgb (color AND 0xF);
            color_off = vgacolor_to_rgb (drop_bit 4 color AND 0xF);
            w = unat (char_width tty); h = unat (char_height tty)
        in fold (\<lambda>i s. fold (\<lambda>j s.
             let on = (GET_BIT (font_char i) (if j = w - 1 then 0 else w - j - 1) \<noteq> 0)
             in framebuffer_rgb_draw_pixel (fb tty) (x * int w + int j) (y * int h + int i)
                  (if on then color_on else color_off) s) [0..<w] s) [0..<h] s
      else if fb_type (fb tty) = FRAMEBUFFER_TYPE_TEXT then framebuffer_text_draw_char (fb tty) x y c color s
      else s)"

definition tty_flush_text_buffer :: "font \<Rightarrow> tty_t \<Rightarrow> 's screen_scheme \<Rightarrow> 's screen_scheme" where
  "tty_flush_text_buffer ascii tty s =
     fold (\<lambda>i s. fold (\<lambda>j s.
       let c = text_buffer tty ! (j * nat (text_buffer_width tty) + i)
       in tty_draw_char_framebuffer ascii tty (int i) (int j) (ucast c) (ucast (drop_bit 8 c)) s)
       [0..<nat (text_buffer_height tty)] s) [0..<nat (text_buffer_width tty)] s"

definition tty_gotoxy :: "tty_t \<Rightarrow> int \<Rightarrow> int \<Rightarrow> 's screen_scheme \<Rightarrow> int \<times> 's term_state" where
  "tty_gotoxy tty x y s =
     (let x' = (if x < 0 then x + text_buffer_width tty else x);
          y' = (if y < 0 then y + text_buffer_height tty else y)
      in if x' \<ge> text_buffer_width tty \<or> y' \<ge> text_buffer_height tty then (- EINVAL, (tty, s))
         else (0, (tty\<lparr>text_buffer_pos_x := x', text_buffer_pos_y := y'\<rparr>,
                   framebuffer_move_cursor_caret (fb tty) x' y' s)))"

text \<open>One line up: \<open>memmove\<close> by a line and \<open>memset\<close> of the last one.\<close>

definition scroll_cells :: "nat \<Rightarrow> nat \<Rightarrow> u16 list \<Rightarrow> u16 list" where
  "scroll_cells w h cells = take (w * (h - 1)) (drop w cells) @ replicate w 0 @ drop (w * h) cells"

definition tty_handle_scroll :: "tty_t \<Rightarrow> 's screen_scheme \<Rightarrow> 's term_state" where
  "tty_handle_scroll tty s =
     (let tty1 = tty\<lparr>text_buffer := scroll_cells (nat (text_buffer_width tty)) (nat (text_buffer_height tty)) (text_buffer tty)\<rparr>;
          s1 = (if fb_type (fb tty) = FRAMEBUFFER_TYPE_RGB
                then framebuffer_rgb_scroll (fb tty) (fb_addr (fb tty)) (ucast (char_height tty)) s
                else if fb_type (fb tty) = FRAMEBUFFER_TYPE_TEXT
                then framebuffer_text_scroll (fb tty) (fb_addr (fb tty)) 1 s else s)
      in snd (tty_gotoxy tty1 0 (text_buffer_height tty - 1) s1))"

definition tty_write_char_at :: "font \<Rightarrow> int \<Rightarrow> int \<Rightarrow> u8 \<Rightarrow> u8 \<Rightarrow> 's term_state \<Rightarrow> 's term_state option" where
  "tty_write_char_at ascii x y c color ts = (case ts of (tty, s) \<Rightarrow> do {
     cells \<leftarrow> cell_set (text_buffer tty) (y * text_buffer_width tty + x) (push_bit 8 (ucast color) OR scast c);
     Some (tty\<lparr>text_buffer := cells\<rparr>, tty_draw_char_framebuffer ascii tty x y c color s) })"

definition move_caret :: "'s term_state \<Rightarrow> 's term_state" where
  "move_caret ts = (case ts of (tty, s) \<Rightarrow>
     (tty, framebuffer_move_cursor_caret (fb tty) (text_buffer_pos_x tty) (text_buffer_pos_y tty) s))"

text \<open>\<open>while (l-- && x < width)\<close>\<close>

fun tab_loop :: "font \<Rightarrow> nat \<Rightarrow> 's term_state \<Rightarrow> 's term_state option" where
  "tab_loop ascii 0 ts = Some ts"
| "tab_loop ascii (Suc l) (tty, s) =
     (if text_buffer_pos_x tty < text_buffer_width tty
      then do {
        (tty1, s1) \<leftarrow> tty_write_char_at ascii (text_buffer_pos_x tty) (text_buffer_pos_y tty) 32 (text_color tty) (tty, s);
        tab_loop ascii l (tty1\<lparr>text_buffer_pos_x := text_buffer_pos_x tty1 + 1\<rparr>, s1) }
      else Some (tty, s))"

definition tty_backspace :: "font \<Rightarrow> 's term_state \<Rightarrow> 's term_state option" where
  "tty_backspace ascii ts = (case ts of (tty, s) \<Rightarrow>
     if text_buffer_pos_x tty = 0 \<and> text_buffer_pos_y tty = 0 then Some (tty, s)
     else
       let x = text_buffer_pos_x tty - 1;
           tty1 = (if x = -1
                   then tty\<lparr>text_buffer_pos_x := text_buffer_width tty - 1, text_buffer_pos_y := text_buffer_pos_y tty - 1\<rparr>
                   else tty\<lparr>text_buffer_pos_x := x\<rparr>)
       in map_option move_caret
            (tty_write_char_at ascii (text_buffer_pos_x tty1) (text_buffer_pos_y tty1) 32 (text_color tty1) (tty1, s)))"

definition tty_put_glyph :: "font \<Rightarrow> u8 \<Rightarrow> 's term_state \<Rightarrow> 's term_state option" where
  "tty_put_glyph ascii c ts = (case ts of (tty, s) \<Rightarrow> do {
     let (tty1, s1) =
       (if text_buffer_pos_y tty * text_buffer_width tty + text_buffer_pos_x tty = text_buffer_width tty * text_buffer_height tty
        then tty_handle_scroll tty s else (tty, s));
     (tty2, s2) \<leftarrow> tty_write_char_at ascii (text_buffer_pos_x tty1) (text_buffer_pos_y tty1) c (text_color tty1) (tty1, s1);
     let x = text_buffer_pos_x tty2 + 1;
     let tty3 = (if x = text_buffer_width tty2
                 then tty2\<lparr>text_buffer_pos_x := 0, text_buffer_pos_y := text_buffer_pos_y tty2 + 1\<rparr>
                 else tty2\<lparr>text_buffer_pos_x := x\<rparr>);
     Some (move_caret (tty3, s2)) })"

definition tty_write_char :: "font \<Rightarrow> u8 \<Rightarrow> 's term_state \<Rightarrow> 's term_state option" where
  "tty_write_char ascii c ts = (case ts of (tty, s) \<Rightarrow>
     if c = 8 then tty_backspace ascii (tty, s)
     else if c = 9 then map_option move_caret (tab_loop ascii (nat (8 - text_buffer_pos_x tty smod 8)) (tty, s))
     else if c = 13 then Some (snd (tty_gotoxy tty 0 (text_buffer_pos_y tty) s))
     else if c = 10 then
       Some (if text_buffer_pos_y tty + 1 = text_buffer_height tty then tty_handle_scroll tty s
             else snd (tty_gotoxy tty 0 (text_buffer_pos_y tty + 1) s))
     else tty_put_glyph ascii c (tty, s))"

section \<open>Output\<close>

partial_function (option) flush_loop :: "font \<Rightarrow> int \<Rightarrow> 's term_state \<Rightarrow> 's term_state option" where
  "flush_loop ascii i ts =
     (if i = out_buffer_end (fst ts) then Some ts
      else do {
        let i' = (if i = out_buffer_size (fst ts) then 0 else i);
        c \<leftarrow> cell_get (out_buffer (fst ts)) i';
        ts' \<leftarrow> tty_write_char ascii c ts;
        flush_loop ascii (i' + 1) ts' })"

definition tty_flush :: "font \<Rightarrow> 's term_state \<Rightarrow> 's term_state option" where
  "tty_flush ascii ts = do {
     (tty, s) \<leftarrow> flush_loop ascii (out_buffer_start (fst ts)) ts;
     Some (tty\<lparr>out_buffer_start := 0, out_buffer_end := 0\<rparr>, s) }"

fun write_loop :: "font \<Rightarrow> u8 list \<Rightarrow> 's term_state \<Rightarrow> 's term_state option" where
  "write_loop ascii [] ts = Some ts"
| "write_loop ascii (c # cs) ts = do {
     (tty, s) \<leftarrow> (if out_buffer_end (fst ts) = out_buffer_size (fst ts) then tty_flush ascii ts else Some ts);
     out \<leftarrow> cell_set (out_buffer tty) (out_buffer_end tty) c;
     write_loop ascii cs (tty\<lparr>out_buffer := out, out_buffer_end := out_buffer_end tty + 1\<rparr>, s) }"

definition tty_write :: "font \<Rightarrow> u8 list \<Rightarrow> 's term_state \<Rightarrow> (int \<times> 's term_state) option" where
  "tty_write ascii buf ts = do {
     ts1 \<leftarrow> write_loop ascii buf ts;
     ts2 \<leftarrow> tty_flush ascii ts1;
     Some (int (length buf), ts2) }"

section \<open>Input\<close>

definition tty_chars_ready :: "tty_t \<Rightarrow> int" where
  "tty_chars_ready tty =
     (let e = in_buffer_end tty in (if e < in_buffer_start tty then e + in_buffer_size tty else e) - in_buffer_start tty)"

definition tty_read_char :: "font \<Rightarrow> (nat \<Rightarrow> u8) \<Rightarrow> nat \<Rightarrow> 's term_state \<Rightarrow> (int \<times> 's term_state) option" where
  "tty_read_char ascii kblayout scancode ts = (case ts of (tty, s) \<Rightarrow>
     if in_buffer_end tty = in_buffer_size tty then Some (- ENOMEM, ts)
     else
       let c = kblayout scancode
       in if canon tty \<and> c = 8 \<and> \<not> in_buffer_end tty > in_buffer_start tty then Some (0, ts)
          else do {
            tty1 \<leftarrow> (if canon tty \<and> c = 8 then Some (tty\<lparr>in_buffer_end := in_buffer_end tty - 1\<rparr>)
                     else do { buf \<leftarrow> cell_set (in_buffer tty) (in_buffer_end tty) c;
                               Some (tty\<lparr>in_buffer := buf, in_buffer_end := in_buffer_end tty + 1\<rparr>) });
            ts2 \<leftarrow> (if echo tty1 then map_option snd (tty_write ascii [c] (tty1, s)) else Some (tty1, s));
            Some (0, ts2) })"

partial_function (option) eol_loop :: "tty_t \<Rightarrow> int \<Rightarrow> bool option" where
  "eol_loop tty i =
     (if i = in_buffer_end tty then Some False
      else do {
        let i' = (if i = in_buffer_size tty then 0 else i);
        c \<leftarrow> cell_get (in_buffer tty) i';
        if c = 10 then Some True else eol_loop tty (i' + 1) })"

definition tty_canon_has_eol :: "tty_t \<Rightarrow> bool option" where
  "tty_canon_has_eol tty = eol_loop tty (in_buffer_start tty)"

text \<open>The bytes stored in \<open>buf\<close> are returned; a negative \<open>len\<close> never reaches 0.\<close>

partial_function (option) tty_read_loop :: "int \<Rightarrow> tty_t \<Rightarrow> u8 list \<Rightarrow> (u8 list \<times> tty_t) option" where
  "tty_read_loop len tty acc =
     (if len = 0 \<or> in_buffer_start tty = in_buffer_end tty then Some (acc, tty)
      else
        let tty1 = (if in_buffer_start tty = in_buffer_size tty then tty\<lparr>in_buffer_start := 0\<rparr> else tty)
        in if in_buffer_start tty1 = in_buffer_end tty1 then Some (acc, tty1)
           else do {
             c \<leftarrow> cell_get (in_buffer tty1) (in_buffer_start tty1);
             tty_read_loop (len - 1) (tty1\<lparr>in_buffer_start := in_buffer_start tty1 + 1\<rparr>) (acc @ [c]) })"

definition tty_read :: "int \<Rightarrow> tty_t \<Rightarrow> (u8 list \<times> tty_t) option" where
  "tty_read len tty = tty_read_loop len tty []"

section \<open>Colour, position, clearing\<close>

definition tty_getcolor :: "tty_t \<Rightarrow> u8" where
  "tty_getcolor tty = text_color tty"

definition tty_setcolor :: "u8 \<Rightarrow> tty_t \<Rightarrow> tty_t" where
  "tty_setcolor c tty = tty\<lparr>text_color := c\<rparr>"

definition tty_getxy :: "tty_t \<Rightarrow> int \<times> int" where
  "tty_getxy tty = (text_buffer_pos_x tty, text_buffer_pos_y tty)"

definition tty_clear :: "font \<Rightarrow> 's term_state \<Rightarrow> 's term_state" where
  "tty_clear ascii ts = (case ts of (tty, s) \<Rightarrow>
     let n = nat (text_buffer_width tty * text_buffer_height tty);
         tty1 = tty\<lparr>text_buffer := replicate n (push_bit 8 (ucast (text_color tty)) OR 32) @ drop n (text_buffer tty)\<rparr>
     in snd (tty_gotoxy tty1 0 0 (tty_flush_text_buffer ascii tty1 s)))"

section \<open>The terminals\<close>

text \<open>The buffers come from \<open>malloc\<close> with the contents \<open>inb\<close>, \<open>outb\<close> and \<open>junk\<close>. For a frame buffer that is neither
  text nor RGB the character size stays 0 and the division faults. The operations above are given the
  terminal itself; a NULL argument of the code stands for terminal \<open>current_tty\<close>.\<close>

definition tty_new :: "framebuffer_t \<Rightarrow> u8 list \<Rightarrow> u8 list \<Rightarrow> (nat \<Rightarrow> u16) \<Rightarrow> int \<Rightarrow> tty_t option" where
  "tty_new f inb outb junk i =
     (let cw = (if fb_type f = FRAMEBUFFER_TYPE_TEXT then 1 else if fb_type f = FRAMEBUFFER_TYPE_RGB then 9 else 0);
          ch = (if fb_type f = FRAMEBUFFER_TYPE_TEXT then 1 else if fb_type f = FRAMEBUFFER_TYPE_RGB then 16 else 0);
          w = uint (fb_width f) div uint cw; h = uint (fb_height f) div uint ch
      in if cw = 0 then None
         else Some \<lparr>in_buffer = inb, in_buffer_size = 1024, in_buffer_start = 0, in_buffer_end = 0,
           out_buffer = outb, out_buffer_size = 1024, out_buffer_start = 0, out_buffer_end = 0,
           num = i, canon = True, echo = True, fb = f,
           text_buffer = map junk [0..<nat (w * h)], text_buffer_width = w, text_buffer_height = h,
           text_buffer_pos_x = 0, text_buffer_pos_y = 0, text_color = 7, char_width = cw, char_height = ch\<rparr>)"

record tty_table =
  ttys :: "tty_t list"
  current_tty :: int

definition tty_init :: "framebuffer_t \<Rightarrow> u8 list \<Rightarrow> u8 list \<Rightarrow> (nat \<Rightarrow> u16) \<Rightarrow> tty_table \<Rightarrow> tty_table option" where
  "tty_init f inb outb junk t = do {
     t0 \<leftarrow> tty_new f inb outb junk 0; t1 \<leftarrow> tty_new f inb outb junk 1;
     t2 \<leftarrow> tty_new f inb outb junk 2; t3 \<leftarrow> tty_new f inb outb junk 3;
     Some (t\<lparr>ttys := [t0, t1, t2, t3], current_tty := 0\<rparr>) }"

definition tty_open :: "int \<Rightarrow> tty_table \<Rightarrow> nat option" where
  "tty_open tty_num t = (if tty_num < 0 \<or> tty_num \<ge> 4 then None else Some (nat tty_num))"

definition tty_switch :: "int \<Rightarrow> tty_table \<Rightarrow> int \<times> tty_table" where
  "tty_switch tty_num t = (if tty_num < 0 \<or> tty_num \<ge> 4 then (- ENODEV, t) else (0, t\<lparr>current_tty := tty_num\<rparr>))"

definition tty_get_current :: "tty_table \<Rightarrow> int" where
  "tty_get_current t = current_tty t"

definition tty_get_count :: int where
  "tty_get_count = 4"

section \<open>The keyboard\<close>

text \<open>\<^verbatim>\<open>drivers/keyboard.c\<close>: the interrupt handler, given the scan code read from the data port. The result
  \<open>None\<close> is the panic of control, alt and delete together, or a fault of the terminal; a key press goes
  to the current terminal.\<close>

record keyboard =
  scancode :: u8
  irq_c :: int
  pressed :: "u8 \<Rightarrow> bool"

definition keyboard_handler :: "font \<Rightarrow> (nat \<Rightarrow> u8) \<Rightarrow> u8 \<Rightarrow> keyboard \<Rightarrow> 's term_state \<Rightarrow> (keyboard \<times> 's term_state) option" where
  "keyboard_handler ascii kblayout code k ts = do {
     let k1 = k\<lparr>irq_c := irq_c k + 1, scancode := code\<rparr>;
     (k2, ts2) \<leftarrow>
       (if code AND 0x80 = 0
        then do { (_, ts') \<leftarrow> tty_read_char ascii kblayout (unat code) ts;
                  Some (k1\<lparr>pressed := (pressed k1)(code := True)\<rparr>, ts') }
        else Some (k1\<lparr>pressed := (pressed k1)(code AND NOT 0x80 := False)\<rparr>, ts));
     if pressed k2 0x1d \<and> pressed k2 0x38 \<and> pressed k2 0x53 then None else Some (k2, ts2) }"

definition keyboard_init :: "keyboard \<Rightarrow> keyboard" where
  "keyboard_init k = k\<lparr>irq_c := 0, pressed := (\<lambda>_. False)\<rparr>"

declare flush_loop.simps [code] eol_loop.simps [code] tty_read_loop.simps [code]

end
