(* ===== verification/Tty_Laws.thy ===== *)
theory Tty_Laws
  imports Tty
begin

text \<open>
  The terminals: no character but a tabulator behind a full screen is ever written outside the
  cells, output appears in order whatever its length, and what is typed is read in order until the
  input buffer has been filled once.
\<close>

section \<open>Invariant\<close>

text \<open>The position is measured along the cells: it may be one line long, at most just behind the last cell.\<close>

definition tty_ok :: "tty_t \<Rightarrow> bool" where
  "tty_ok t \<longleftrightarrow> 0 < text_buffer_width t \<and> 0 < text_buffer_height t
     \<and> int (length (text_buffer t)) = text_buffer_width t * text_buffer_height t
     \<and> 0 \<le> text_buffer_pos_x t \<and> 0 \<le> text_buffer_pos_y t
     \<and> text_buffer_pos_y t * text_buffer_width t + text_buffer_pos_x t \<le> text_buffer_width t * text_buffer_height t"

definition same_setup :: "tty_t \<Rightarrow> tty_t \<Rightarrow> bool" where
  "same_setup t t' \<longleftrightarrow> t'\<lparr>text_buffer := [], text_buffer_pos_x := 0, text_buffer_pos_y := 0\<rparr>
     = t\<lparr>text_buffer := [], text_buffer_pos_x := 0, text_buffer_pos_y := 0\<rparr>"

lemma same_setup_refl [simp]: "same_setup t t"
  by (simp add: same_setup_def)

lemma same_setup_trans: "same_setup t u \<Longrightarrow> same_setup u v \<Longrightarrow> same_setup t v"
  by (simp add: same_setup_def)

lemma same_setupD:
  assumes "same_setup t t'"
  shows "text_buffer_width t' = text_buffer_width t" "text_buffer_height t' = text_buffer_height t"
    "out_buffer t' = out_buffer t" "out_buffer_end t' = out_buffer_end t" "out_buffer_size t' = out_buffer_size t"
    "out_buffer_start t' = out_buffer_start t" "in_buffer t' = in_buffer t" "in_buffer_start t' = in_buffer_start t"
    "in_buffer_end t' = in_buffer_end t" "in_buffer_size t' = in_buffer_size t" "canon t' = canon t" "echo t' = echo t"
    "text_color t' = text_color t"
  using assms by (cases t; cases t'; simp add: same_setup_def)+

lemma same_setup_move [simp]:
  "same_setup t (t\<lparr>text_buffer_pos_x := x\<rparr>)" "same_setup t (t\<lparr>text_buffer_pos_x := x, text_buffer_pos_y := y\<rparr>)"
  "same_setup t (t\<lparr>text_buffer := cells\<rparr>)"
  by (simp_all add: same_setup_def)

section \<open>Writing one character\<close>

definition safe_step :: "'s term_state option \<Rightarrow> tty_t \<Rightarrow> bool" where
  "safe_step r t \<longleftrightarrow> (\<exists>t' s'. r = Some (t', s') \<and> tty_ok t' \<and> same_setup t t')"

lemma safe_stepI: "r = Some (t', s') \<Longrightarrow> tty_ok t' \<Longrightarrow> same_setup t t' \<Longrightarrow> safe_step r t"
  by (auto simp: safe_step_def)

lemma write_char_at_in_range:
  assumes "0 \<le> y * text_buffer_width t + x" "y * text_buffer_width t + x < int (length (text_buffer t))"
  shows "\<exists>cells s'. tty_write_char_at ascii x y c color (t, s) = Some (t\<lparr>text_buffer := cells\<rparr>, s')
    \<and> length cells = length (text_buffer t)"
  using assms by (simp add: tty_write_char_at_def cell_set_def) (metis length_list_update)

lemma tty_ok_cells:
  "length cells = length (text_buffer t) \<Longrightarrow> tty_ok (t\<lparr>text_buffer := cells\<rparr>) = tty_ok t"
  by (simp add: tty_ok_def)

lemma tty_ok_gotoxy:
  assumes "tty_ok t" "0 \<le> x" "0 \<le> y"
  shows "safe_step (Some (snd (tty_gotoxy t x y s))) t"
proof (cases "x \<ge> text_buffer_width t \<or> y \<ge> text_buffer_height t")
  case True
  then show ?thesis using assms by (auto simp: tty_gotoxy_def Let_def safe_step_def)
next
  case False
  have "(y + 1) * text_buffer_width t \<le> text_buffer_height t * text_buffer_width t"
    using False assms(1) by (intro mult_right_mono) (auto simp: tty_ok_def)
  then show ?thesis using False assms
    by (auto simp: tty_gotoxy_def Let_def tty_ok_def algebra_simps intro!: safe_stepI)
qed

lemma length_scroll_cells: "length cells = w * h \<Longrightarrow> 0 < h \<Longrightarrow> length (scroll_cells w h cells) = length cells"
  by (simp add: scroll_cells_def algebra_simps diff_mult_distrib2)

lemma tty_ok_scroll:
  assumes "tty_ok t"
  shows "\<exists>cells s'. tty_handle_scroll t s = (t\<lparr>text_buffer := cells, text_buffer_pos_x := 0,
      text_buffer_pos_y := text_buffer_height t - 1\<rparr>, s') \<and> length cells = length (text_buffer t)"
proof -
  have "length (text_buffer t) = nat (text_buffer_width t) * nat (text_buffer_height t)"
    using assms unfolding tty_ok_def by (metis less_imp_le nat_int nat_mult_distrib)
  then have "length (scroll_cells (nat (text_buffer_width t)) (nat (text_buffer_height t)) (text_buffer t)) = length (text_buffer t)"
    using assms by (intro length_scroll_cells) (auto simp: tty_ok_def)
  then show ?thesis using assms by (auto simp: tty_handle_scroll_def tty_gotoxy_def Let_def tty_ok_def)
qed

lemma tty_backspace_safe:
  assumes ok: "tty_ok t"
  shows "safe_step (tty_backspace ascii (t, s)) t"
proof (cases "text_buffer_pos_x t = 0 \<and> text_buffer_pos_y t = 0")
  case True
  then show ?thesis using ok by (auto simp: tty_backspace_def intro: safe_stepI)
next
  case False
  define t1 where "t1 = (if text_buffer_pos_x t - 1 = -1
    then t\<lparr>text_buffer_pos_x := text_buffer_width t - 1, text_buffer_pos_y := text_buffer_pos_y t - 1\<rparr>
    else t\<lparr>text_buffer_pos_x := text_buffer_pos_x t - 1\<rparr>)"
  have pos: "text_buffer_pos_y t1 * text_buffer_width t1 + text_buffer_pos_x t1 =
      text_buffer_pos_y t * text_buffer_width t + text_buffer_pos_x t - 1"
    by (simp add: t1_def left_diff_distrib)
  have ok1: "tty_ok t1" using ok False pos by (auto simp: t1_def tty_ok_def)
  have pos0: "0 < text_buffer_pos_y t * text_buffer_width t + text_buffer_pos_x t"
  proof (cases "text_buffer_pos_y t = 0")
    case True
    then show ?thesis using ok False by (auto simp: tty_ok_def)
  next
    case nz: False
    have "0 < text_buffer_pos_y t * text_buffer_width t" using nz ok by (intro mult_pos_pos) (auto simp: tty_ok_def)
    then show ?thesis using ok by (simp add: tty_ok_def)
  qed
  have len: "int (length (text_buffer t1)) = text_buffer_width t * text_buffer_height t"
    using ok by (simp add: t1_def tty_ok_def)
  obtain cells s' where w: "tty_write_char_at ascii (text_buffer_pos_x t1) (text_buffer_pos_y t1) 32 (text_color t1) (t1, s)
      = Some (t1\<lparr>text_buffer := cells\<rparr>, s')" "length cells = length (text_buffer t1)"
    using write_char_at_in_range[of "text_buffer_pos_y t1" t1 "text_buffer_pos_x t1"] pos pos0 len ok
    by (force simp: tty_ok_def)
  have "same_setup t t1" by (simp add: t1_def)
  then have "same_setup t (t1\<lparr>text_buffer := cells\<rparr>)" by (rule same_setup_trans) simp
  moreover have "tty_ok (t1\<lparr>text_buffer := cells\<rparr>)" using w(2) ok1 by (simp add: tty_ok_cells)
  moreover have "tty_backspace ascii (t, s) = map_option move_caret (tty_write_char_at ascii (text_buffer_pos_x t1)
      (text_buffer_pos_y t1) 32 (text_color t1) (t1, s))"
    using False by (cases "text_buffer_pos_x t = 0") (simp_all add: tty_backspace_def Let_def t1_def)
  ultimately show ?thesis using w(1) by (auto simp: move_caret_def intro!: safe_stepI)
qed

lemma tty_put_glyph_safe:
  assumes ok: "tty_ok t"
  shows "safe_step (tty_put_glyph ascii c (t, s)) t"
proof -
  let ?w = "text_buffer_width t" and ?h = "text_buffer_height t"
  obtain t1 s1 where t1: "(if text_buffer_pos_y t * ?w + text_buffer_pos_x t = ?w * ?h then tty_handle_scroll t s else (t, s)) = (t1, s1)"
    by (metis surj_pair)
  have su: "same_setup t t1" and ok1: "tty_ok t1"
    and pos: "text_buffer_pos_y t1 * ?w + text_buffer_pos_x t1 < ?w * ?h"
  proof -
    have "same_setup t t1 \<and> tty_ok t1 \<and> text_buffer_pos_y t1 * ?w + text_buffer_pos_x t1 < ?w * ?h"
    proof (cases "text_buffer_pos_y t * ?w + text_buffer_pos_x t = ?w * ?h")
      case True
      then obtain cells where "t1 = t\<lparr>text_buffer := cells, text_buffer_pos_x := 0, text_buffer_pos_y := ?h - 1\<rparr>"
        "length cells = length (text_buffer t)" using t1 tty_ok_scroll[OF ok, of s] by auto
      then show ?thesis using ok by (simp add: tty_ok_def same_setup_def algebra_simps)
    qed (use t1 ok in \<open>auto simp: tty_ok_def\<close>)
    then show "same_setup t t1" "tty_ok t1" "text_buffer_pos_y t1 * ?w + text_buffer_pos_x t1 < ?w * ?h" by auto
  qed
  note [simp] = same_setupD(1,2)[OF su]
  obtain cells s2 where w: "tty_write_char_at ascii (text_buffer_pos_x t1) (text_buffer_pos_y t1) c (text_color t1) (t1, s1)
      = Some (t1\<lparr>text_buffer := cells\<rparr>, s2)" "length cells = length (text_buffer t1)"
    using write_char_at_in_range[of "text_buffer_pos_y t1" t1 "text_buffer_pos_x t1"] pos ok1 by (force simp: tty_ok_def)
  define t3 where "t3 = (if text_buffer_pos_x t1 + 1 = ?w
    then t1\<lparr>text_buffer := cells, text_buffer_pos_x := 0, text_buffer_pos_y := text_buffer_pos_y t1 + 1\<rparr>
    else t1\<lparr>text_buffer := cells, text_buffer_pos_x := text_buffer_pos_x t1 + 1\<rparr>)"
  have "tty_ok t3" using ok1 pos w(2) by (auto simp: t3_def tty_ok_def algebra_simps)
  moreover have "same_setup t t3" using su by (auto simp: t3_def same_setup_def)
  moreover have "tty_put_glyph ascii c (t, s) = Some (move_caret (t3, s2))"
    using t1 w(1) by (simp add: tty_put_glyph_def t3_def)
  ultimately show ?thesis by (auto simp: move_caret_def intro!: safe_stepI)
qed

lemma tab_loop_safe:
  assumes "tty_ok t" "text_buffer_pos_y t < text_buffer_height t"
  shows "safe_step (tab_loop ascii l (t, s)) t"
  using assms
proof (induction l arbitrary: t s)
  case 0
  then show ?case by (auto intro: safe_stepI)
next
  case (Suc l)
  show ?case
  proof (cases "text_buffer_pos_x t < text_buffer_width t")
    case False
    then show ?thesis using Suc.prems by (auto intro: safe_stepI)
  next
    case True
    have row: "(text_buffer_pos_y t + 1) * text_buffer_width t \<le> text_buffer_height t * text_buffer_width t"
      using Suc.prems by (intro mult_right_mono) (auto simp: tty_ok_def)
    then have pos: "text_buffer_pos_y t * text_buffer_width t + text_buffer_pos_x t < int (length (text_buffer t))"
      using True Suc.prems(1) by (simp add: tty_ok_def algebra_simps)
    obtain cells s' where w: "tty_write_char_at ascii (text_buffer_pos_x t) (text_buffer_pos_y t) 32 (text_color t) (t, s)
        = Some (t\<lparr>text_buffer := cells\<rparr>, s')" "length cells = length (text_buffer t)"
      using write_char_at_in_range[of "text_buffer_pos_y t" t "text_buffer_pos_x t"] pos Suc.prems(1) by (force simp: tty_ok_def)
    let ?t = "t\<lparr>text_buffer := cells, text_buffer_pos_x := text_buffer_pos_x t + 1\<rparr>"
    have "tty_ok ?t" using Suc.prems(1) w(2) pos by (auto simp: tty_ok_def)
    then have "safe_step (tab_loop ascii l (?t, s')) ?t" using Suc.IH[of ?t s'] Suc.prems(2) by simp
    moreover have "same_setup t ?t" by (simp add: same_setup_def)
    ultimately show ?thesis using w(1) True by (auto simp: safe_step_def dest: same_setup_trans)
  qed
qed

lemma tty_write_char_safe_step:
  assumes "tty_ok t" "c = 9 \<Longrightarrow> text_buffer_pos_y t < text_buffer_height t"
  shows "safe_step (tty_write_char ascii c (t, s)) t"
proof -
  have y: "0 \<le> text_buffer_pos_y t" using assms(1) by (simp add: tty_ok_def)
  have scroll: "safe_step (Some (tty_handle_scroll t s)) t"
  proof -
    obtain cells s' where c: "tty_handle_scroll t s = (t\<lparr>text_buffer := cells, text_buffer_pos_x := 0,
      text_buffer_pos_y := text_buffer_height t - 1\<rparr>, s')" "length cells = length (text_buffer t)"
      using tty_ok_scroll[OF assms(1)] by blast
    moreover have "tty_ok (t\<lparr>text_buffer := cells, text_buffer_pos_x := 0, text_buffer_pos_y := text_buffer_height t - 1\<rparr>)"
      using assms(1) c(2) by (simp add: tty_ok_def algebra_simps)
    ultimately show ?thesis by (auto simp: same_setup_def intro!: safe_stepI)
  qed
  have tab: "safe_step (map_option move_caret (tab_loop ascii l (t, s))) t" if "c = 9" for l
    using tab_loop_safe[OF assms(1) assms(2)[OF that], of ascii l s] by (auto simp: safe_step_def move_caret_def)
  show ?thesis
    using tty_backspace_safe[OF assms(1)] tty_put_glyph_safe[OF assms(1)] tab scroll y
      tty_ok_gotoxy[OF assms(1), of 0 "text_buffer_pos_y t"] tty_ok_gotoxy[OF assms(1), of 0 "text_buffer_pos_y t + 1"]
    by (auto simp: tty_write_char_def)
qed

text \<open>A tabulator behind the last line of a full screen, at the left margin: the first blank is already outside.\<close>

lemma tty_tab_overflow:
  assumes "tty_ok t" "text_buffer_pos_y t = text_buffer_height t"
  shows "tty_write_char ascii 9 (t, s) = None"
proof -
  have x: "text_buffer_pos_x t = 0" using assms by (simp add: tty_ok_def mult.commute)
  have w: "tty_write_char_at ascii 0 (text_buffer_height t) 32 color (t, s) = None" for color
    using assms(1) by (simp add: tty_write_char_at_def cell_set_def tty_ok_def mult.commute)
  have "tab_loop ascii (Suc l) (t, s) = None" for l using x w assms by (simp add: tty_ok_def)
  from this[of 7] show ?thesis using x by (simp add: tty_write_char_def)
qed

text \<open>C29: Writing characters keeps the terminal consistent and inside its cells. Started in a consistent state, every
  character, control characters included, is processed without an access outside the cell buffer and leaves a
  consistent state with the same buffers and settings, with one exception: a tabulator written when the last cell
  of the screen has just been filled. That one is always written behind the buffer.\<close>

theorem tty_write_char_safe:
  assumes "tty_ok t"
  shows "if c = 9 \<and> text_buffer_pos_y t = text_buffer_height t
    then tty_write_char ascii c (t, s) = None
    else \<exists>t' s'. tty_write_char ascii c (t, s) = Some (t', s') \<and> tty_ok t' \<and> same_setup t t'"
proof -
  have "text_buffer_pos_y t * text_buffer_width t \<le> text_buffer_width t * text_buffer_height t"
    using assms unfolding tty_ok_def by linarith
  then have "text_buffer_pos_y t \<le> text_buffer_height t"
    using assms by (metis mult.commute mult_le_cancel_right_pos tty_ok_def)
  then show ?thesis
    using tty_tab_overflow[OF assms] tty_write_char_safe_step[OF assms, of c ascii s] by (auto simp: safe_step_def)
qed

definition sample_tty :: tty_t where
  "sample_tty = the (tty_new fb0 (replicate 1024 0) (replicate 1024 0) (\<lambda>_. 0) 0)"

lemma sample_tty_simps [simp]:
  "text_buffer_width sample_tty = 80" "text_buffer_height sample_tty = 25" "text_buffer_pos_x sample_tty = 0"
  "text_buffer_pos_y sample_tty = 0" "length (text_buffer sample_tty) = 2000" "in_buffer_start sample_tty = 0"
  "in_buffer_end sample_tty = 0" "in_buffer_size sample_tty = 1024" "length (in_buffer sample_tty) = 1024"
  "out_buffer_start sample_tty = 0" "out_buffer_end sample_tty = 0" "out_buffer_size sample_tty = 1024"
  "length (out_buffer sample_tty) = 1024" "canon sample_tty" "echo sample_tty"
  by (simp_all add: sample_tty_def tty_new_def fb0_def)

lemma sample_tty_ok: "tty_ok sample_tty"
  by (simp add: tty_ok_def)

definition sample_screen :: screen where
  "sample_screen = \<lparr>cpu = \<lparr>feat_sse = True, feat_mmx = False\<rparr>, vram = (\<lambda>_. 0), caret = 0\<rparr>"

theorem tty_write_char_safe_witness:
  "\<exists>t' s'. tty_write_char (\<lambda>_ _. 0) 65 (sample_tty, sample_screen) = Some (t', s') \<and> tty_ok t' \<and> same_setup sample_tty t'"
  using tty_write_char_safe[OF sample_tty_ok, of 65 "\<lambda>_ _. 0" sample_screen] by simp

section \<open>Output\<close>

text \<open>The reference: one character after the other, without a buffer in between.\<close>

fun feed :: "font \<Rightarrow> u8 list \<Rightarrow> 's term_state \<Rightarrow> 's term_state option" where
  "feed ascii [] ts = Some ts"
| "feed ascii (c # cs) ts = Option.bind (tty_write_char ascii c ts) (feed ascii cs)"

text \<open>The output buffer is not looked at while a character is drawn.\<close>

definition rebuf :: "u8 list \<Rightarrow> int \<Rightarrow> 's term_state \<Rightarrow> 's term_state" where
  "rebuf out e ts = ((fst ts)\<lparr>out_buffer := out, out_buffer_end := e\<rparr>, snd ts)"

lemma rebuf_pair: "rebuf out e (t, s) = (t\<lparr>out_buffer := out, out_buffer_end := e\<rparr>, s)"
  by (simp add: rebuf_def)

lemma rebuf_moved:
  "(t\<lparr>out_buffer := out, out_buffer_end := e, text_buffer_pos_x := x\<rparr>, s) = rebuf out e (t\<lparr>text_buffer_pos_x := x\<rparr>, s)"
  "(t\<lparr>out_buffer := out, out_buffer_end := e, text_buffer_pos_x := x, text_buffer_pos_y := y\<rparr>, s)
     = rebuf out e (t\<lparr>text_buffer_pos_x := x, text_buffer_pos_y := y\<rparr>, s)"
  by (cases t; simp add: rebuf_def)+

lemma draw_rebuf [simp]:
  "tty_draw_char_framebuffer ascii (t\<lparr>out_buffer := out, out_buffer_end := e\<rparr>) x y c color s = tty_draw_char_framebuffer ascii t x y c color s"
  by (simp add: tty_draw_char_framebuffer_def)

lemma write_char_at_rebuf:
  "tty_write_char_at ascii x y c color (rebuf out e ts) = map_option (rebuf out e) (tty_write_char_at ascii x y c color ts)"
  by (cases ts) (auto simp: rebuf_def tty_write_char_at_def split: bind_splits)

lemma move_caret_rebuf: "move_caret (rebuf out e ts) = rebuf out e (move_caret ts)"
  by (cases ts) (simp add: rebuf_def move_caret_def)

lemma gotoxy_rebuf:
  "snd (tty_gotoxy (t\<lparr>out_buffer := out, out_buffer_end := e\<rparr>) x y s) = rebuf out e (snd (tty_gotoxy t x y s))"
  by (simp add: rebuf_def tty_gotoxy_def Let_def)

lemma scroll_rebuf: "tty_handle_scroll (t\<lparr>out_buffer := out, out_buffer_end := e\<rparr>) s = rebuf out e (tty_handle_scroll t s)"
  by (cases t) (simp add: tty_handle_scroll_def tty_gotoxy_def rebuf_def Let_def)

lemma tab_loop_rebuf: "tab_loop ascii l (rebuf out e ts) = map_option (rebuf out e) (tab_loop ascii l ts)"
proof (induction l arbitrary: ts)
  case (Suc l)
  obtain t s where ts: "ts = (t, s)" by force
  have "tty_write_char_at ascii x y c color (t\<lparr>out_buffer := out, out_buffer_end := e\<rparr>, s)
      = map_option (rebuf out e) (tty_write_char_at ascii x y c color (t, s))" for x y c color
    using write_char_at_rebuf[of ascii x y c color out e "(t, s)"] by (simp add: rebuf_def)
  moreover have "tab_loop ascii l (u\<lparr>out_buffer := out, out_buffer_end := e, text_buffer_pos_x := x\<rparr>, s')
      = map_option (rebuf out e) (tab_loop ascii l (u\<lparr>text_buffer_pos_x := x\<rparr>, s'))" for u x and s' :: "'a screen_scheme"
    using Suc.IH[of "(u\<lparr>text_buffer_pos_x := x\<rparr>, s')"] by (simp add: rebuf_moved)
  ultimately show ?case by (auto simp: ts rebuf_pair split: bind_splits)
qed simp

lemma tty_write_char_rebuf:
  "tty_write_char ascii c (rebuf out e ts) = map_option (rebuf out e) (tty_write_char ascii c ts)"
proof -
  obtain t s where ts: "ts = (t, s)" by force
  let ?t = "t\<lparr>out_buffer := out, out_buffer_end := e\<rparr>"
  have bs: "tty_backspace ascii (?t, s) = map_option (rebuf out e) (tty_backspace ascii (t, s))"
    by (simp add: tty_backspace_def Let_def rebuf_moved write_char_at_rebuf option.map_comp comp_def move_caret_rebuf)
       (simp add: rebuf_def)
  have glyph: "tty_put_glyph ascii c (?t, s) = map_option (rebuf out e) (tty_put_glyph ascii c (t, s))"
  proof -
    obtain t1 s1 where t1: "(if text_buffer_pos_y t * text_buffer_width t + text_buffer_pos_x t = text_buffer_width t * text_buffer_height t
        then tty_handle_scroll t s else (t, s)) = (t1, s1)" by (metis surj_pair)
    then have "(if text_buffer_pos_y t * text_buffer_width t + text_buffer_pos_x t = text_buffer_width t * text_buffer_height t
        then tty_handle_scroll ?t s else (?t, s)) = rebuf out e (t1, s1)"
      by (auto simp: scroll_rebuf rebuf_pair split: if_splits)
    then show ?thesis using t1 write_char_at_rebuf[of ascii "text_buffer_pos_x t1" "text_buffer_pos_y t1" c "text_color t1" out e "(t1, s1)"]
      by (auto simp: tty_put_glyph_def rebuf_pair move_caret_def rebuf_moved Let_def split: bind_splits)
  qed
  show ?thesis
    using bs glyph tab_loop_rebuf[of ascii _ out e "(t, s)"]
    by (simp add: ts rebuf_pair tty_write_char_def gotoxy_rebuf scroll_rebuf option.map_comp comp_def move_caret_rebuf)
qed

lemma feed_append: "feed ascii (xs @ ys) ts = Option.bind (feed ascii xs ts) (feed ascii ys)"
  by (induction xs arbitrary: ts) (auto split: bind_splits)

lemma plain_char_safe:
  assumes "tty_ok t" "c \<noteq> 9"
  shows "\<exists>t' s'. tty_write_char ascii c (t, s) = Some (t', s') \<and> tty_ok t' \<and> same_setup t t'"
  using tty_write_char_safe_step[of t c ascii s] assms by (auto simp: safe_step_def)

lemma feed_safe:
  assumes "tty_ok t" "9 \<notin> set cs"
  shows "\<exists>t' s'. feed ascii cs (t, s) = Some (t', s') \<and> tty_ok t' \<and> same_setup t t'"
proof -
  have "safe_step (feed ascii cs (t, s)) t" using assms
  proof (induction cs arbitrary: t s)
    case Nil
    then show ?case by (auto intro: safe_stepI)
  next
    case (Cons c cs)
    then obtain t1 s1 where "tty_write_char ascii c (t, s) = Some (t1, s1)" "tty_ok t1" "same_setup t t1"
      using plain_char_safe[of t c ascii s] by auto
    then show ?case using Cons.IH[of t1 s1] Cons.prems by (auto simp: safe_step_def dest: same_setup_trans)
  qed
  then show ?thesis by (simp add: safe_step_def)
qed

lemma flush_loop_feed:
  assumes "tty_ok t" "9 \<notin> set (drop i (take e out))" "i \<le> e" "e \<le> length out" "out_buffer_size t = int (length out)"
  shows "flush_loop ascii (int i) (rebuf out (int e) (t, s)) = map_option (rebuf out (int e)) (feed ascii (drop i (take e out)) (t, s))"
  using assms
proof (induction "e - i" arbitrary: i t s)
  case 0
  then show ?case by (subst flush_loop.simps) (simp add: rebuf_pair)
next
  case (Suc n)
  then have i: "i < e" "i < length out" by auto
  then have d: "drop i (take e out) = out ! i # drop (Suc i) (take e out)" by (simp add: Cons_nth_drop_Suc[symmetric])
  then obtain t1 s1 where w: "tty_write_char ascii (out ! i) (t, s) = Some (t1, s1)" "tty_ok t1" "same_setup t t1"
    using plain_char_safe[OF Suc.prems(1), of "out ! i" ascii s] Suc.prems(2) by auto
  have "flush_loop ascii (int i) (rebuf out (int e) (t, s)) = flush_loop ascii (int (Suc i)) (rebuf out (int e) (t1, s1))"
    using i Suc.prems(5) w(1) tty_write_char_rebuf[of ascii "out ! i" out "int e" "(t, s)"]
    by (subst flush_loop.simps) (simp add: rebuf_pair cell_get_def add.commute)
  also have "\<dots> = map_option (rebuf out (int e)) (feed ascii (drop (Suc i) (take e out)) (t1, s1))"
    using Suc.hyps(2) Suc.prems i d w same_setupD[OF w(3)] by (intro Suc.hyps(1)) auto
  finally show ?case using w(1) d by simp
qed

lemma tty_flush_feed:
  assumes "tty_ok t" "9 \<notin> set (take e out)" "e \<le> length out" "out_buffer_size t = int (length out)" "out_buffer_start t = 0"
    "feed ascii (take e out) (t, s) = Some (t', s')"
  shows "tty_flush ascii (rebuf out (int e) (t, s)) = Some (rebuf out 0 (t', s'))"
proof -
  have "same_setup t t'" using feed_safe[OF assms(1,2), of ascii s] assms(6) by auto
  then have "out_buffer_start t' = 0" using assms(5) by (simp add: same_setupD)
  then show ?thesis
    using flush_loop_feed[of t 0 e out ascii s] assms by (cases t') (simp add: tty_flush_def rebuf_pair)
qed

lemma write_loop_feed:
  assumes "tty_ok t" "9 \<notin> set (take e out @ cs)" "e \<le> length out" "0 < length out"
    "out_buffer_size t = int (length out)" "out_buffer_start t = 0"
    "feed ascii (take e out @ cs) (t, s) = Some (t', s')"
  shows "\<exists>out'. length out' = length out \<and>
    Option.bind (write_loop ascii cs (rebuf out (int e) (t, s))) (tty_flush ascii) = Some (rebuf out' 0 (t', s'))"
  using assms
proof (induction cs arbitrary: out e t s)
  case Nil
  then show ?case using tty_flush_feed[of t e out ascii s t' s'] by auto
next
  case (Cons c cs)
  show ?case
  proof (cases "e = length out")
    case True
    obtain t1 s1 where f: "feed ascii out (t, s) = Some (t1, s1)" "tty_ok t1" "same_setup t t1"
      using feed_safe[of t out ascii s] Cons.prems True by auto
    have fl: "tty_flush ascii (rebuf out (int e) (t, s)) = Some (rebuf out 0 (t1, s1))"
      using tty_flush_feed[of t e out ascii s t1 s1] Cons.prems True f by auto
    have one: "take 1 (out[0 := c]) = [c]" using Cons.prems(4) by (cases out) auto
    have "\<exists>out'. length out' = length (out[0 := c]) \<and>
        Option.bind (write_loop ascii cs (rebuf (out[0 := c]) (int 1) (t1, s1))) (tty_flush ascii) = Some (rebuf out' 0 (t', s'))"
      using Cons.prems True f one same_setupD[OF f(3)]
      by (intro Cons.IH) (auto simp: feed_append Suc_le_eq split: bind_splits)
    then show ?thesis using fl True Cons.prems(4,5) by (simp add: rebuf_pair cell_set_def)
  next
    case False
    then have t: "take (Suc e) (out[e := c]) = take e out @ [c]"
      using Cons.prems(3) by (simp add: take_Suc_conv_app_nth)
    have "\<exists>out'. length out' = length (out[e := c]) \<and>
        Option.bind (write_loop ascii cs (rebuf (out[e := c]) (int (Suc e)) (t, s))) (tty_flush ascii) = Some (rebuf out' 0 (t', s'))"
      using Cons.prems t False by (intro Cons.IH) auto
    then show ?thesis using False Cons.prems(3,5) by (simp add: rebuf_pair cell_set_def add.commute)
  qed
qed

definition out_ok :: "tty_t \<Rightarrow> bool" where
  "out_ok t \<longleftrightarrow> out_buffer_start t = 0 \<and> out_buffer_end t = 0 \<and> 0 < length (out_buffer t)
     \<and> out_buffer_size t = int (length (out_buffer t))"

lemma tty_write_feed:
  assumes "tty_ok t" "9 \<notin> set buf" "out_ok t"
  shows "\<exists>t' s' out'. feed ascii buf (t, s) = Some (t', s') \<and> tty_ok t' \<and> same_setup t t' \<and> length out' = length (out_buffer t) \<and>
    tty_write ascii buf (t, s) = Some (int (length buf), (t'\<lparr>out_buffer := out', out_buffer_end := 0\<rparr>, s'))"
proof -
  obtain t' s' where f: "feed ascii buf (t, s) = Some (t', s')" "tty_ok t'" "same_setup t t'"
    using feed_safe[OF assms(1,2), of ascii s] by auto
  have "(t, s) = rebuf (out_buffer t) 0 (t, s)" using assms(3) by (cases t) (simp add: rebuf_pair out_ok_def)
  then have "\<exists>out'. length out' = length (out_buffer t) \<and>
      Option.bind (write_loop ascii buf (t, s)) (tty_flush ascii) = Some (rebuf out' 0 (t', s'))"
    using write_loop_feed[of t 0 "out_buffer t" buf ascii s t' s'] assms f by (simp add: out_ok_def)
  then show ?thesis using f by (auto simp: tty_write_def rebuf_pair split: bind_splits)
qed

text \<open>C7: Buffered output is faithful. Starting with an empty output buffer, \<open>tty_write\<close> processes exactly the
  characters it is given, each once and in order, as if they were written one by one without a buffer, however long
  the text is compared with the 1024 byte buffer; it ends with the output buffer empty and reports the number of
  bytes given. (Text without tabulators, so that every character is safe.)\<close>

theorem tty_write_unbuffered:
  assumes "tty_ok t" "9 \<notin> set buf" "out_ok t"
  shows "\<exists>t' s' out'. feed ascii buf (t, s) = Some (t', s') \<and> tty_ok t' \<and> length out' = length (out_buffer t) \<and>
    tty_write ascii buf (t, s) = Some (int (length buf), (t'\<lparr>out_buffer := out', out_buffer_end := 0\<rparr>, s'))"
  using tty_write_feed[OF assms] by blast

theorem tty_write_unbuffered_witness:
  "\<exists>t' s' out'. feed (\<lambda>_ _. 0) [72, 105, 10] (sample_tty, sample_screen) = Some (t', s') \<and> tty_ok t' \<and> length out' = 1024 \<and>
    tty_write (\<lambda>_ _. 0) [72, 105, 10] (sample_tty, sample_screen) = Some (3, (t'\<lparr>out_buffer := out', out_buffer_end := 0\<rparr>, s'))"
  using tty_write_unbuffered[OF sample_tty_ok, of "[72, 105, 10]" "\<lambda>_ _. 0" sample_screen] by (simp add: out_ok_def)

section \<open>Input\<close>

text \<open>What drawing and flushing leave alone.\<close>

definition inpart :: "tty_t \<Rightarrow> u8 list \<times> int \<times> int \<times> int \<times> bool \<times> bool" where
  "inpart t = (in_buffer t, in_buffer_start t, in_buffer_end t, in_buffer_size t, canon t, echo t)"

lemma inpart_updates [simp]:
  "inpart (t\<lparr>text_buffer := cells\<rparr>) = inpart t" "inpart (t\<lparr>text_buffer_pos_x := x\<rparr>) = inpart t"
  "inpart (t\<lparr>text_buffer_pos_y := y\<rparr>) = inpart t" "inpart (t\<lparr>out_buffer := out\<rparr>) = inpart t"
  "inpart (t\<lparr>out_buffer_end := e\<rparr>) = inpart t" "inpart (t\<lparr>out_buffer_start := e\<rparr>) = inpart t"
  by (simp_all add: inpart_def)

lemma inpart_basic:
  "inpart (fst (move_caret ts)) = inpart (fst ts)"
  "inpart (fst (snd (tty_gotoxy t x y s))) = inpart t"
  "inpart (fst (tty_handle_scroll t s)) = inpart t"
  by (simp_all add: move_caret_def tty_gotoxy_def tty_handle_scroll_def Let_def split: prod.split)

lemma inpart_write_char_at: "tty_write_char_at ascii x y c color ts = Some ts' \<Longrightarrow> inpart (fst ts') = inpart (fst ts)"
  by (auto simp: tty_write_char_at_def split: prod.splits bind_splits)

lemma inpart_tab_loop: "tab_loop ascii l ts = Some ts' \<Longrightarrow> inpart (fst ts') = inpart (fst ts)"
proof (induction l arbitrary: ts)
  case (Suc l)
  then show ?case by (cases ts) (auto split: if_splits bind_splits dest!: inpart_write_char_at)
qed simp

lemma inpart_glyph: "tty_put_glyph ascii c ts = Some ts' \<Longrightarrow> inpart (fst ts') = inpart (fst ts)"
  by (auto simp: tty_put_glyph_def Let_def inpart_basic split: prod.splits bind_splits if_splits
      dest!: inpart_write_char_at) (metis fst_conv inpart_basic(3))+

lemma inpart_write_char: "tty_write_char ascii c ts = Some ts' \<Longrightarrow> inpart (fst ts') = inpart (fst ts)"
  by (cases ts) (auto simp: tty_write_char_def tty_backspace_def Let_def inpart_basic split: if_splits
      dest!: inpart_write_char_at inpart_tab_loop inpart_glyph)

lemma inpart_flush_loop:
  assumes "flush_loop ascii i ts = Some ts'"
  shows "inpart (fst ts') = inpart (fst ts)"
proof (rule flush_loop.raw_induct[OF _ assms])
  fix f :: "font \<Rightarrow> int \<Rightarrow> 'a term_state \<Rightarrow> 'a term_state option" and ascii i ts y
  assume IH: "\<And>ascii i ts y. f ascii i ts = Some y \<Longrightarrow> inpart (fst y) = inpart (fst ts)"
    and step: "(if i = out_buffer_end (fst ts) then Some ts
      else do {
        let i' = (if i = out_buffer_size (fst ts) then 0 else i);
        c \<leftarrow> cell_get (out_buffer (fst ts)) i';
        ts' \<leftarrow> tty_write_char ascii c ts;
        f ascii (i' + 1) ts' }) = Some y"
  from step show "inpart (fst y) = inpart (fst ts)"
    by (auto simp: Let_def split: if_splits bind_splits dest!: IH inpart_write_char)
qed

lemma inpart_flush: "tty_flush ascii ts = Some ts' \<Longrightarrow> inpart (fst ts') = inpart (fst ts)"
  by (auto simp: tty_flush_def split: bind_splits dest!: inpart_flush_loop)

lemma inpart_write_loop: "write_loop ascii cs ts = Some ts' \<Longrightarrow> inpart (fst ts') = inpart (fst ts)"
  by (induction cs arbitrary: ts) (force split: bind_splits if_splits dest!: inpart_flush)+

lemma inpart_write: "tty_write ascii cs ts = Some (n, ts') \<Longrightarrow> inpart (fst ts') = inpart (fst ts)"
  by (auto simp: tty_write_def split: bind_splits dest!: inpart_flush inpart_write_loop)

lemma inpartD:
  "inpart t' = inpart t \<Longrightarrow> in_buffer t' = in_buffer t \<and> in_buffer_start t' = in_buffer_start t
     \<and> in_buffer_end t' = in_buffer_end t \<and> in_buffer_size t' = in_buffer_size t"
  by (simp add: inpart_def)

text \<open>The characters typed and not yet read, oldest first.\<close>

definition in_ok :: "tty_t \<Rightarrow> bool" where
  "in_ok t \<longleftrightarrow> 0 \<le> in_buffer_start t \<and> in_buffer_start t \<le> in_buffer_end t \<and> in_buffer_end t \<le> in_buffer_size t
     \<and> in_buffer_size t = int (length (in_buffer t))"

definition pending :: "tty_t \<Rightarrow> u8 list" where
  "pending t = drop (nat (in_buffer_start t)) (take (nat (in_buffer_end t)) (in_buffer t))"

lemma inpart_pending: "inpart t' = inpart t \<Longrightarrow> in_ok t' = in_ok t \<and> pending t' = pending t"
  by (simp add: inpart_def in_ok_def pending_def)

lemma pending_eq_Nil: "in_ok t \<Longrightarrow> (pending t = []) = (in_buffer_start t = in_buffer_end t)"
  by (auto simp: in_ok_def pending_def)

lemma key_stored:
  assumes "in_ok t" "in_buffer_end t \<noteq> in_buffer_size t" "tty_read_char ascii kblayout sc (t, s) = Some (r, (t', s'))"
  shows "in_ok t' \<and> r = 0 \<and> pending t' = (if canon t \<and> kblayout sc = 8 then butlast (pending t) else pending t @ [kblayout sc])"
proof -
  let ?t = "if canon t \<and> kblayout sc = 8 then (if in_buffer_end t > in_buffer_start t then t\<lparr>in_buffer_end := in_buffer_end t - 1\<rparr> else t)
    else t\<lparr>in_buffer := (in_buffer t)[nat (in_buffer_end t) := kblayout sc], in_buffer_end := in_buffer_end t + 1\<rparr>"
  have "inpart t' = inpart ?t \<and> r = 0" using assms
    by (auto simp: tty_read_char_def Let_def cell_set_def in_ok_def split: if_splits bind_splits dest!: inpart_write)
  moreover have "in_ok ?t \<and> pending ?t = (if canon t \<and> kblayout sc = 8 then butlast (pending t) else pending t @ [kblayout sc])"
  proof (cases "canon t \<and> kblayout sc = 8")
    case True
    then show ?thesis using assms(1,2)
      by (auto simp: in_ok_def pending_def butlast_drop butlast_take nat_diff_distrib)
  next
    case False
    have n: "nat (in_buffer_end t + 1) = Suc (nat (in_buffer_end t))" using assms(1) by (auto simp: in_ok_def)
    have "nat (in_buffer_end t) < length (in_buffer t)" using assms(1,2) by (auto simp: in_ok_def)
    then show ?thesis using False assms(1,2) by (auto simp: in_ok_def pending_def n take_Suc_conv_app_nth)
  qed
  ultimately show ?thesis using inpart_pending[of t' ?t] by simp
qed

lemma read_loop_takes:
  assumes "in_ok t"
  shows "\<exists>t'. tty_read_loop (int n) t acc = Some (acc @ take n (pending t), t') \<and> in_ok t' \<and> pending t' = drop n (pending t)
    \<and> in_buffer_end t' = in_buffer_end t \<and> in_buffer_size t' = in_buffer_size t \<and> tty_ok t' = tty_ok t \<and> out_ok t' = out_ok t"
  using assms
proof (induction n arbitrary: t acc)
  case 0
  then show ?case by (subst tty_read_loop.simps) simp
next
  case (Suc n)
  show ?case
  proof (cases "in_buffer_start t = in_buffer_end t")
    case True
    then show ?thesis using Suc.prems by (subst tty_read_loop.simps) (simp add: pending_def)
  next
    case False
    let ?i = "nat (in_buffer_start t)" and ?t = "t\<lparr>in_buffer_start := in_buffer_start t + 1\<rparr>"
    have lt: "in_buffer_start t < in_buffer_size t" "?i < length (in_buffer t)" "?i < nat (in_buffer_end t)"
      using False Suc.prems by (auto simp: in_ok_def)
    have n: "nat (in_buffer_start t + 1) = Suc ?i" using Suc.prems by (auto simp: in_ok_def)
    have p: "pending t = in_buffer t ! ?i # pending ?t" using lt by (simp add: pending_def n Cons_nth_drop_Suc[symmetric])
    have "tty_read_loop (int (Suc n)) t acc = tty_read_loop (int n) ?t (acc @ [in_buffer t ! ?i])"
      using False lt Suc.prems by (subst tty_read_loop.simps) (auto simp: cell_get_def in_ok_def)
    moreover have "in_ok ?t" using lt Suc.prems False by (auto simp: in_ok_def)
    ultimately show ?thesis using Suc.IH[of ?t "acc @ [in_buffer t ! ?i]"] p
      by (simp add: tty_ok_def out_ok_def)
  qed
qed

text \<open>The contract between the keyboard and a reading process: a queue of bounded total capacity.\<close>

fun iterate_opt :: "('k \<Rightarrow> 's \<Rightarrow> 's option) \<Rightarrow> 'k list \<Rightarrow> 's \<Rightarrow> 's option" where
  "iterate_opt f [] s = Some s"
| "iterate_opt f (k # ks) s = Option.bind (f k s) (iterate_opt f ks)"

locale input_queue =
  fixes good :: "'s \<Rightarrow> bool"
    and contents :: "'s \<Rightarrow> 'b list"
    and room :: "'s \<Rightarrow> nat"
    and storable :: "'k \<Rightarrow> bool"
    and code :: "'k \<Rightarrow> 'b"
    and put :: "'k \<Rightarrow> 's \<Rightarrow> 's option"
    and get :: "nat \<Rightarrow> 's \<Rightarrow> ('b list \<times> 's) option"
  assumes put_stores: "good s \<Longrightarrow> storable k \<Longrightarrow> 0 < room s \<Longrightarrow>
      \<exists>s'. put k s = Some s' \<and> good s' \<and> contents s' = contents s @ [code k] \<and> Suc (room s') = room s"
    and get_takes: "good s \<Longrightarrow>
      \<exists>s'. get n s = Some (take n (contents s), s') \<and> good s' \<and> contents s' = drop n (contents s) \<and> room s' = room s"
begin

lemma puts_store:
  "good s \<Longrightarrow> \<forall>k\<in>set ks. storable k \<Longrightarrow> length ks \<le> room s \<Longrightarrow>
     \<exists>s'. iterate_opt put ks s = Some s' \<and> good s' \<and> contents s' = contents s @ map code ks \<and> room s' + length ks = room s"
proof (induction ks arbitrary: s)
  case (Cons k ks)
  obtain s1 where "put k s = Some s1" "good s1" "contents s1 = contents s @ [code k]" "Suc (room s1) = room s"
    using put_stores[of s k] Cons.prems by auto
  then show ?case using Cons.IH[of s1] Cons.prems by auto
qed simp

lemma typed_is_read:
  assumes "good s" "\<forall>k\<in>set ks. storable k" "length ks \<le> room s"
  shows "\<exists>s1 s2. iterate_opt put ks s = Some s1 \<and> get n s1 = Some (take n (contents s @ map code ks), s2)
    \<and> good s2 \<and> contents s2 = drop n (contents s @ map code ks)"
proof -
  obtain s1 where "iterate_opt put ks s = Some s1" "good s1" "contents s1 = contents s @ map code ks"
    using puts_store[OF assms] by auto
  then show ?thesis using get_takes[of s1 n] by auto
qed

end

definition tty_good :: "'s term_state \<Rightarrow> bool" where
  "tty_good ts \<longleftrightarrow> tty_ok (fst ts) \<and> out_ok (fst ts) \<and> in_ok (fst ts)"

definition tty_room :: "'s term_state \<Rightarrow> nat" where
  "tty_room ts = nat (in_buffer_size (fst ts) - in_buffer_end (fst ts))"

definition press :: "font \<Rightarrow> (nat \<Rightarrow> u8) \<Rightarrow> nat \<Rightarrow> 's term_state \<Rightarrow> 's term_state option" where
  "press ascii kblayout sc ts = map_option snd (tty_read_char ascii kblayout sc ts)"

definition tty_read' :: "nat \<Rightarrow> 's term_state \<Rightarrow> (u8 list \<times> 's term_state) option" where
  "tty_read' n ts = map_option (\<lambda>(bs, t). (bs, (t, snd ts))) (tty_read (int n) (fst ts))"

text \<open>Backspaces are not stored, and the echo of a tabulator is the one character that may be unsafe.\<close>

definition plain_key :: "(nat \<Rightarrow> u8) \<Rightarrow> nat \<Rightarrow> bool" where
  "plain_key kblayout sc \<longleftrightarrow> kblayout sc \<noteq> 8 \<and> kblayout sc \<noteq> 9"

lemma in_updates_good [simp]:
  "tty_ok (t\<lparr>in_buffer := b, in_buffer_end := e\<rparr>) = tty_ok t" "out_ok (t\<lparr>in_buffer := b, in_buffer_end := e\<rparr>) = out_ok t"
  by (simp_all add: tty_ok_def out_ok_def)

lemma press_stores:
  assumes good: "tty_good ts" and plain: "plain_key kblayout sc" and room: "0 < tty_room ts"
  shows "\<exists>ts'. press ascii kblayout sc ts = Some ts' \<and> tty_good ts' \<and> pending (fst ts') = pending (fst ts) @ [kblayout sc]
    \<and> Suc (tty_room ts') = tty_room ts"
proof -
  obtain t s where ts: "ts = (t, s)" by force
  let ?c = "kblayout sc"
  let ?t = "t\<lparr>in_buffer := (in_buffer t)[nat (in_buffer_end t) := ?c], in_buffer_end := in_buffer_end t + 1\<rparr>"
  have ok: "tty_ok ?t" "out_ok ?t" "in_buffer_end t \<noteq> in_buffer_size t" "in_ok t"
    using good room by (auto simp: ts tty_good_def tty_room_def)
  obtain t' s' out' where w: "tty_ok t'" "same_setup ?t t'" "length out' = length (out_buffer t)"
      "tty_write ascii [?c] (?t, s) = Some (1, (t'\<lparr>out_buffer := out', out_buffer_end := 0\<rparr>, s'))"
    using tty_write_feed[OF ok(1) _ ok(2), of "[?c]" ascii s] plain by (auto simp: plain_key_def)
  let ?r = "if echo t then (t'\<lparr>out_buffer := out', out_buffer_end := 0\<rparr>, s') else (?t, s)"
  have r: "tty_read_char ascii kblayout sc ts = Some (0, ?r)"
    using ok(3,4) plain w(4) by (auto simp: ts tty_read_char_def Let_def cell_set_def plain_key_def in_ok_def)
  have e: "in_buffer_end (fst ?r) = in_buffer_end t + 1" "in_buffer_size (fst ?r) = in_buffer_size t"
    using same_setupD[OF w(2)] by auto
  have "tty_ok (fst ?r)" "out_ok (fst ?r)" using w(1,3) ok(1,2) same_setupD[OF w(2)] by (auto simp: tty_ok_def out_ok_def)
  moreover have "in_ok (fst ?r)" "pending (fst ?r) = pending t @ [?c]"
    using key_stored[OF ok(4,3), of ascii kblayout sc s 0 "fst ?r" "snd ?r"] r plain by (simp_all add: ts plain_key_def)
  moreover have "Suc (tty_room ?r) = tty_room ts" using e room by (simp add: tty_room_def ts)
  ultimately show ?thesis using r by (simp add: press_def tty_good_def ts)
qed

interpretation keys: input_queue tty_good "\<lambda>ts. pending (fst ts)" tty_room "plain_key kblayout" kblayout "press ascii kblayout" tty_read'
  for ascii kblayout
proof
  fix ts :: "'a term_state" and n :: nat
  assume good: "tty_good ts"
  obtain t' where t': "tty_read (int n) (fst ts) = Some (take n (pending (fst ts)), t')" "in_ok t'"
      "pending t' = drop n (pending (fst ts))" "in_buffer_end t' = in_buffer_end (fst ts)" "in_buffer_size t' = in_buffer_size (fst ts)"
      "tty_ok t' = tty_ok (fst ts)" "out_ok t' = out_ok (fst ts)"
    using read_loop_takes[of "fst ts" n "[]"] good by (auto simp: tty_good_def tty_read_def)
  then show "\<exists>ts'. tty_read' n ts = Some (take n (pending (fst ts)), ts') \<and> tty_good ts' \<and>
      pending (fst ts') = drop n (pending (fst ts)) \<and> tty_room ts' = tty_room ts"
    using good by (auto simp: tty_read'_def tty_good_def tty_room_def)
qed (rule press_stores)

text \<open>C21: What is typed is what is read. With the terminal in a consistent state and room in the input buffer, any
  sequence of key presses (other than backspace and tabulator) is accepted, with its echo, and a read of any length
  then returns the oldest characters not yet read, in the order they were typed, and leaves the others for the next
  read.\<close>

theorem tty_typed_is_read:
  assumes "tty_good ts" "\<forall>sc\<in>set scs. plain_key kblayout sc" "length scs \<le> tty_room ts"
  shows "\<exists>ts1 ts2. iterate_opt (press ascii kblayout) scs ts = Some ts1
    \<and> tty_read' n ts1 = Some (take n (pending (fst ts) @ map kblayout scs), ts2)
    \<and> tty_good ts2 \<and> pending (fst ts2) = drop n (pending (fst ts) @ map kblayout scs)"
  using assms by (rule keys.typed_is_read)

lemma sample_good: "tty_good (sample_tty, sample_screen)" "tty_room (sample_tty, sample_screen) = 1024" "pending sample_tty = []"
  by (simp_all add: tty_good_def sample_tty_ok out_ok_def in_ok_def tty_room_def pending_def)

theorem tty_typed_is_read_witness:
  "\<exists>ts1 ts2. iterate_opt (press (\<lambda>_ _. 0) of_nat) [104, 101, 121] (sample_tty, sample_screen) = Some ts1
    \<and> tty_read' 2 ts1 = Some ([104, 101], ts2) \<and> tty_good ts2 \<and> pending (fst ts2) = [121]"
proof -
  have "\<forall>sc\<in>set [104, 101, 121]. plain_key of_nat sc" by (simp add: plain_key_def)
  then show ?thesis
    using tty_typed_is_read[of "(sample_tty, sample_screen)" "[104, 101, 121]" of_nat "\<lambda>_ _. 0" 2] by (simp add: sample_good)
qed

text \<open>A session with one terminal: key presses and reads in any order. The results of the key presses are collected.\<close>

datatype tty_event = Key nat | Read int

fun tty_session :: "font \<Rightarrow> (nat \<Rightarrow> u8) \<Rightarrow> tty_event list \<Rightarrow> 's term_state \<Rightarrow> int list option" where
  "tty_session ascii kblayout [] ts = Some []"
| "tty_session ascii kblayout (Key sc # es) ts = do {
     (r, ts') \<leftarrow> tty_read_char ascii kblayout sc ts;
     rs \<leftarrow> tty_session ascii kblayout es ts';
     Some (r # rs) }"
| "tty_session ascii kblayout (Read len # es) ts = do {
     (_, t') \<leftarrow> tty_read len (fst ts);
     tty_session ascii kblayout es (t', snd ts) }"

lemma read_loop_keeps_end:
  assumes "tty_read_loop len t acc = Some (bs, t')"
  shows "in_buffer_end t' = in_buffer_end t \<and> in_buffer_size t' = in_buffer_size t"
proof -
  have "in_buffer_end (snd (bs, t')) = in_buffer_end t \<and> in_buffer_size (snd (bs, t')) = in_buffer_size t"
    by (rule tty_read_loop.raw_induct[OF _ assms, where P = "\<lambda>_ t _ y. in_buffer_end (snd y) = in_buffer_end t \<and> in_buffer_size (snd y) = in_buffer_size t"])
       (fastforce simp: Let_def split: if_splits bind_splits)
  then show ?thesis by simp
qed

text \<open>The input buffer is a one-way street. Once 1024 characters have been typed, so that the end index has
  reached the size of the buffer, every later key press of the session is refused with \<open>-ENOMEM\<close>, however much of
  the input is read in between: neither reading nor typing ever moves the end index back.\<close>

theorem tty_input_exhausted:
  assumes "in_buffer_end (fst ts) = in_buffer_size (fst ts)" "tty_session ascii kblayout es ts = Some rs"
  shows "set rs \<subseteq> {- ENOMEM}"
  using assms
proof (induction es arbitrary: ts rs)
  case (Cons e es)
  show ?case
  proof (cases e)
    case (Key sc)
    then obtain rs' where "tty_session ascii kblayout es ts = Some rs'" "rs = - ENOMEM # rs'"
      using Cons.prems by (auto simp: tty_read_char_def split: prod.splits bind_splits)
    then show ?thesis using Cons.IH[of ts rs'] Cons.prems(1) by simp
  next
    case (Read len)
    then obtain bs t' where "tty_read_loop len (fst ts) [] = Some (bs, t')" "tty_session ascii kblayout es (t', snd ts) = Some rs"
      using Cons.prems by (auto simp: tty_read_def split: bind_splits)
    then show ?thesis using Cons.IH[of "(t', snd ts)" rs] Cons.prems(1) read_loop_keeps_end[of len "fst ts"] by auto
  qed
qed simp

definition full_tty :: tty_t where
  "full_tty = sample_tty\<lparr>in_buffer_start := 1022, in_buffer_end := 1024\<rparr>"

theorem tty_input_exhausted_witness:
  "tty_session (\<lambda>_ _. 0) (\<lambda>_. 65) [Key 1, Read 1, Read 1, Key 2] (full_tty, sample_screen) = Some [- ENOMEM, - ENOMEM]
    \<and> set [- ENOMEM, - ENOMEM] \<subseteq> {- ENOMEM}"
proof -
  have "tty_session (\<lambda>_ _. 0) (\<lambda>_. 65) [Key 1, Read 1, Read 1, Key 2] (full_tty, sample_screen) = Some [- ENOMEM, - ENOMEM]"
    by (simp add: full_tty_def tty_read_char_def tty_read_def tty_read_loop.simps cell_get_def)
  moreover from tty_input_exhausted[OF _ this] have "set [- ENOMEM, - ENOMEM] \<subseteq> {- ENOMEM}" by (simp add: full_tty_def)
  ultimately show ?thesis by blast
qed

end
