(* ===== verification/Vfs.thy ===== *)
theory Vfs
  imports Kstdlib Errno
begin

text \<open>
  \<^verbatim>\<open>modules/vfs.c\<close>: the mount table and the resolution of path names. Strings are their bytes without
  the terminating NUL, a NULL string is \<open>None\<close>. A file system is the record of its function pointers, as in
  \<^verbatim>\<open>drivers/filesystem.h\<close>: \<open>readdir\<close> and \<open>fs_read\<close> are whatever the mounted file system provides, with a
  negative return value as the left and the data they store as the right alternative, and \<open>None\<close> when they do not
  return. The loop over the directory entries ends only when \<open>readdir\<close> fails or the name is found, hence the option
  type. The object behind \<open>st_private\<close> belongs to the file system, which fills it in once and never changes it again:
  \<open>st_object\<close> holds its bytes.
\<close>

section \<open>Data\<close>

record stat =
  st_dev :: u32
  st_ino :: u32
  st_mode :: u32
  st_nlink :: u32
  st_uid :: u32
  st_gid :: u32
  st_rdev :: u32
  st_size :: u32
  st_blksize :: u32
  st_blocks :: u32
  st_atime :: u32
  st_mtime :: u32
  st_ctime :: u32
  st_private :: ptr
  st_object :: "u8 list"

abbreviation (input) S_IFMT :: u32 where "S_IFMT \<equiv> 0xF000"
abbreviation (input) S_IFCHR :: u32 where "S_IFCHR \<equiv> 0x2000"
abbreviation (input) S_IFDIR :: u32 where "S_IFDIR \<equiv> 0x4000"
abbreviation (input) S_IFREG :: u32 where "S_IFREG \<equiv> 0x8000"
abbreviation (input) S_IFBLK :: u32 where "S_IFBLK \<equiv> 0x6000"
abbreviation (input) S_IRUSR :: u32 where "S_IRUSR \<equiv> 0x100"
abbreviation (input) S_IWUSR :: u32 where "S_IWUSR \<equiv> 0x80"
abbreviation (input) S_IXUSR :: u32 where "S_IXUSR \<equiv> 0x40"
abbreviation (input) S_IRGRP :: u32 where "S_IRGRP \<equiv> 0x20"
abbreviation (input) S_IWGRP :: u32 where "S_IWGRP \<equiv> 0x10"
abbreviation (input) S_IXGRP :: u32 where "S_IXGRP \<equiv> 8"
abbreviation (input) S_IROTH :: u32 where "S_IROTH \<equiv> 4"
abbreviation (input) S_IWOTH :: u32 where "S_IWOTH \<equiv> 2"
abbreviation (input) S_IXOTH :: u32 where "S_IXOTH \<equiv> 1"

definition zero_stat :: stat where
  "zero_stat = \<lparr>st_dev = 0, st_ino = 0, st_mode = 0, st_nlink = 0, st_uid = 0, st_gid = 0, st_rdev = 0, st_size = 0,
     st_blksize = 0, st_blocks = 0, st_atime = 0, st_mtime = 0, st_ctime = 0, st_private = 0,
     st_object = []\<rparr>"

record iodriver =
  device :: u16
  sector_size :: u16
  io_size :: u32
  read_sector :: "u32 \<Rightarrow> int + u8 list"

datatype FileSystemType = FS_EMPTY | FS_FAT12 | FS_FAT16 | FS_EXT2 | FS_ISO9660 | FS_TMPFS | FS_DEVFS | FS_PROCFS | FS_SYSFS
  | FS_PTYFS

record filesystem =
  fs_type :: FileSystemType
  start_lba :: u32
  fs_name :: "u8 list"
  fs_rootdir :: stat
  case_sensitive :: bool
  fs_read :: "iodriver \<Rightarrow> stat \<Rightarrow> u32 \<Rightarrow> u32 \<Rightarrow> (int + u8 list) option"
  fs_write :: "iodriver \<Rightarrow> stat \<Rightarrow> u8 list \<Rightarrow> u32 \<Rightarrow> int"
  readdir :: "iodriver \<Rightarrow> stat \<Rightarrow> u32 \<Rightarrow> (int + (u8 list \<times> stat)) option"

record mount_t =
  driver :: iodriver
  fs :: filesystem
  rootdir_name :: "u8 list"
  rootdir_st :: stat
  ino :: u32

record vfs_state =
  root_mount :: "mount_t option"
  mounts :: "mount_t list"

section \<open>Mounting\<close>

text \<open>\<open>rootfs\<close> and \<open>rootfs_io\<close> are global variables set up elsewhere. Failed allocations end in a panic.\<close>

definition vfs_init :: "iodriver \<Rightarrow> filesystem \<Rightarrow> bool \<Rightarrow> vfs_state \<Rightarrow> vfs_state option" where
  "vfs_init rootfs_io rootfs alloc_ok v =
     (if alloc_ok
      then Some (v\<lparr>root_mount := Some \<lparr>driver = rootfs_io, fs = rootfs, rootdir_name = [47],
                     rootdir_st = fs_rootdir rootfs, ino = st_ino (fs_rootdir rootfs)\<rparr>, mounts := []\<rparr>)
      else None)"

abbreviation (input) mounts_capacity :: nat where "mounts_capacity \<equiv> 10"

section \<open>Path resolution\<close>

text \<open>\<open>strtok(str, "/")\<close> on the rest of the string: the token, and the new rest or NULL.\<close>

definition slash_tok :: "u8 list option \<Rightarrow> u8 list option \<times> u8 list option" where
  "slash_tok rest = (case rest of None \<Rightarrow> (None, None)
     | Some xs \<Rightarrow> (Some (takeWhile (\<lambda>c. c \<noteq> 47) xs),
         (case dropWhile (\<lambda>c. c \<noteq> 47) xs of [] \<Rightarrow> None | _ # ys \<Rightarrow> Some ys)))"

definition name_matches :: "filesystem \<Rightarrow> u8 list \<Rightarrow> u8 list \<Rightarrow> bool" where
  "name_matches f n filename =
     (if case_sensitive f then n = filename
      else map (\<lambda>c. toupper (char_int c)) n = map (\<lambda>c. toupper (char_int c)) filename)"

partial_function (option) scan_dir :: "mount_t \<Rightarrow> stat \<Rightarrow> u8 list \<Rightarrow> u32 \<Rightarrow> (int + stat) option" where
  "scan_dir m dir filename i =
     do {
       r \<leftarrow> readdir (fs m) (driver m) dir i;
       case r of
         Inl e \<Rightarrow> Some (Inl e)
       | Inr (n, st) \<Rightarrow> if name_matches (fs m) n filename then Some (Inr st) else scan_dir m dir filename (i + 1) }"

text \<open>The directory to go on in, in the file system mounted on it if there is one. What is no directory leaves
  the current directory as it is.\<close>

definition enter_dir :: "mount_t list \<Rightarrow> mount_t \<Rightarrow> stat \<Rightarrow> stat \<Rightarrow> mount_t \<times> stat" where
  "enter_dir ms m dir st =
     (if st_mode st AND S_IFDIR \<noteq> 0
      then (case find (\<lambda>x. ino x = st_ino st) ms of Some x \<Rightarrow> (x, rootdir_st x) | None \<Rightarrow> (m, st))
      else (m, dir))"

partial_function (option) walk ::
  "mount_t list \<Rightarrow> mount_t \<Rightarrow> stat \<Rightarrow> stat \<Rightarrow> u8 list option \<Rightarrow> u8 list option \<Rightarrow> (int + mount_t \<times> stat) option" where
  "walk ms m dir st filename rest =
     (case filename of
        None \<Rightarrow> Some (Inr (m, st))
      | Some f \<Rightarrow>
          if f = [] then Some (Inr (m, st))
          else do {
            r \<leftarrow> scan_dir m dir f 0;
            case r of
              Inl e \<Rightarrow> Some (Inl e)
            | Inr st' \<Rightarrow>
                let (m', dir') = enter_dir ms m dir st'; (filename', rest') = slash_tok rest
                in walk ms m' dir' st' filename' rest' })"

text \<open>The return value, and what is stored in \<open>*out_mount\<close> and \<open>*out_st\<close>. The arguments \<open>cwd_mount\<close> and \<open>st\<close> of the
  code are not used by it. \<open>alloc_ok\<close> tells whether the buffer for the directory entry could be allocated.\<close>

type_synonym stat_result = "int \<times> mount_t option \<times> stat option"

definition vfs_stat :: "bool \<Rightarrow> u8 list option \<Rightarrow> vfs_state \<Rightarrow> stat_result option" where
  "vfs_stat alloc_ok path v =
     (case root_mount v of
        None \<Rightarrow> Some (- ENODEV, None, None)
      | Some root \<Rightarrow>
          (case path of
             None \<Rightarrow> Some (- EINVAL, None, None)
           | Some p \<Rightarrow>
               if p = [] then Some (- EINVAL, None, None)
               else if p = [47] then Some (0, None, Some (rootdir_st root))
               else
                 let (filename, rest) = slash_tok (Some (if hd p = 47 then tl p else p))
                 in if \<not> alloc_ok then Some (- ENOMEM, None, None)
                    else do {
                      r \<leftarrow> walk (mounts v) root (rootdir_st root) (rootdir_st root) filename rest;
                      case r of
                        Inl e \<Rightarrow> Some (e, None, None)
                      | Inr (m, st) \<Rightarrow> Some (0, Some m, Some st) }))"

text \<open>\<open>driver\<close>, \<open>fs\<close> and \<open>path\<close> are optional pointers; the name of the mount point is cut after 256 bytes.\<close>

definition vfs_mount ::
  "bool \<Rightarrow> iodriver option \<Rightarrow> filesystem option \<Rightarrow> u8 list option \<Rightarrow> vfs_state \<Rightarrow> (int \<times> vfs_state) option" where
  "vfs_mount alloc_ok drv f path v =
     (if root_mount v = None then Some (- ENODEV, v)
      else case (drv, f, path) of
        (Some d, Some g, Some p) \<Rightarrow>
          if length (mounts v) = mounts_capacity then Some (- ENOSPC, v)
          else if p = [] \<or> hd p \<noteq> 47 then Some (- EINVAL, v)
          else do {
            r \<leftarrow> vfs_stat alloc_ok path v;
            case r of
              (_, _, None) \<Rightarrow> Some (- ENOENT, v)
            | (_, _, Some st) \<Rightarrow>
                if \<exists>x\<in>set (mounts v). ino x = st_ino st then Some (- EEXIST, v)
                else Some (0, v\<lparr>mounts := mounts v @ [\<lparr>driver = d, fs = g, rootdir_name = take 256 p,
                       rootdir_st = fs_rootdir g, ino = st_ino st\<rparr>]\<rparr>) }
      | _ \<Rightarrow> Some (- EINVAL, v))"

definition vfs_unmount :: int where "vfs_unmount = - EIO"
definition vfs_open :: int where "vfs_open = - EIO"
definition vfs_close :: int where "vfs_close = - EIO"
definition vfs_read :: int where "vfs_read = - EIO"
definition vfs_write :: int where "vfs_write = - EROFS"

section \<open>Loading a file\<close>

definition put_bytes :: "mem \<Rightarrow> ptr \<Rightarrow> u8 list \<Rightarrow> mem" where
  "put_bytes m p bs = (\<lambda>a. if unat (a - p) < length bs then bs ! unat (a - p) else m a)"

definition vfs_load_file :: "mount_t \<Rightarrow> stat \<Rightarrow> 'a kernel_state_scheme \<Rightarrow> (ptr \<times> 'a kernel_state_scheme) option" where
  "vfs_load_file m st s = do {
     (addr, s1) \<leftarrow> malloc_align (st_size st) BITMAP_PAGE_SIZE s;
     r \<leftarrow> fs_read (fs m) (driver m) st (st_size st) 0;
     case r of
       Inl _ \<Rightarrow> do { s2 \<leftarrow> free addr s1; Some (NULL, s2) }
     | Inr bs \<Rightarrow> Some (addr, s1\<lparr>vmem := put_bytes (vmem s1) addr bs\<rparr>) }"

declare scan_dir.simps [code] walk.simps [code]

end
