(* ===== verification/Disk.thy ===== *)
theory Disk
  imports Vfs Bits
begin

text \<open>
  Block devices and partitions. A sector is the list of its bytes; \<open>read_sector\<close> gives the bytes it leaves in the
  driver's \<open>io_buffer\<close>, or a non-zero error code. Reading outside of a buffer gives an unspecified byte. The RAM disk
  of \<^verbatim>\<open>drivers/io/ramdisk.c\<close> is one such driver, and \<^verbatim>\<open>drivers/mbr.c\<close> finds the file system of a partition.
\<close>

section \<open>Bytes of a buffer\<close>

definition slice :: "u8 list \<Rightarrow> nat \<Rightarrow> nat \<Rightarrow> u8 list" where
  "slice bs off n = map (\<lambda>i. bs ! (off + i)) [0..<n]"

definition le16 :: "u8 list \<Rightarrow> nat \<Rightarrow> u16" where
  "le16 bs i = ucast (bs ! i) OR push_bit 8 (ucast (bs ! (i + 1)))"

definition le32 :: "u8 list \<Rightarrow> nat \<Rightarrow> u32" where
  "le32 bs i = ucast (bs ! i) OR push_bit 8 (ucast (bs ! (i + 1))) OR push_bit 16 (ucast (bs ! (i + 2)))
     OR push_bit 24 (ucast (bs ! (i + 3)))"

definition le32_bytes :: "u32 \<Rightarrow> u8 list" where
  "le32_bytes w = [ucast w, ucast (drop_bit 8 w), ucast (drop_bit 16 w), ucast (drop_bit 24 w)]"

text \<open>The contents of \<open>io_buffer\<close> after a read whose result the code does not look at: a failed read is taken to leave
  the buffer as it was.\<close>

definition buffer_after :: "iodriver \<Rightarrow> u32 \<Rightarrow> u8 list \<Rightarrow> u8 list" where
  "buffer_after d lba io_buffer = (case read_sector d lba of Inl _ \<Rightarrow> io_buffer | Inr bs \<Rightarrow> bs)"

section \<open>RAM disk\<close>

text \<open>\<open>driver->partitions\<close> holds the data.\<close>

record ramdisk =
  rd_sector_size :: u16
  rd_size :: u32
  rd_data :: "u8 list"

definition ramdisk_init :: "u32 \<Rightarrow> u8 list \<Rightarrow> ramdisk" where
  "ramdisk_init sz garbage = \<lparr>rd_sector_size = 4096, rd_size = sz, rd_data = garbage\<rparr>"

definition ramdisk_read_sector :: "ramdisk \<Rightarrow> u32 \<Rightarrow> int + u8 list" where
  "ramdisk_read_sector r lba =
     (if lba * ucast (rd_sector_size r) \<ge> rd_size r then Inl (- EIO)
      else Inr (slice (rd_data r) (unat (lba * ucast (rd_sector_size r))) (unat (rd_sector_size r))))"

definition ramdisk_write_sector :: "ramdisk \<Rightarrow> u32 \<Rightarrow> u8 list \<Rightarrow> int \<times> ramdisk" where
  "ramdisk_write_sector r lba data =
     (if lba * ucast (rd_sector_size r) \<ge> rd_size r then (- EIO, r)
      else (let a = unat (lba * ucast (rd_sector_size r)); n = unat (rd_sector_size r)
            in (0, r\<lparr>rd_data := take a (rd_data r) @ slice data 0 n @ drop (a + n) (rd_data r)\<rparr>)))"

definition ramdisk_driver :: "u16 \<Rightarrow> ramdisk \<Rightarrow> iodriver" where
  "ramdisk_driver dev r = \<lparr>device = dev, sector_size = rd_sector_size r, io_size = rd_size r,
     read_sector = ramdisk_read_sector r\<rparr>"

section \<open>Partitions\<close>

record mbr_partition =
  bootable :: u8
  start_head :: u8
  start_sector :: u8
  start_cylinder :: u8
  part_type :: u8
  end_head :: u8
  end_sector :: u8
  end_cylinder :: u8
  part_start_lba :: u32
  part_size :: u32

definition mbr_partition_at :: "u8 list \<Rightarrow> nat \<Rightarrow> mbr_partition" where
  "mbr_partition_at bs i = \<lparr>bootable = bs ! i, start_head = bs ! (i + 1), start_sector = bs ! (i + 2),
     start_cylinder = bs ! (i + 3), part_type = bs ! (i + 4), end_head = bs ! (i + 5), end_sector = bs ! (i + 6),
     end_cylinder = bs ! (i + 7), part_start_lba = le32 bs (i + 8), part_size = le32 bs (i + 12)\<rparr>"

text \<open>What \<open>mbr_get_fs\<close> sets up: the kind of the file system, which determines its functions, and where it starts.\<close>

definition mbr_get_fs :: "mbr_partition list \<Rightarrow> nat \<Rightarrow> (FileSystemType \<times> u32) option" where
  "mbr_get_fs partitions part =
     (let p = partitions ! part; t = part_type p
      in if t = 0x00 then None
         else if t = 0x01 then Some (FS_FAT12, part_start_lba p)
         else if t = 0x04 \<or> t = 0x06 then Some (FS_FAT16, part_start_lba p)
         else if t = 0x83 then Some (FS_EXT2, part_start_lba p)
         else if t = 0x96 \<or> t = 0xCD then Some (FS_ISO9660, part_start_lba p)
         else None)"

definition mbr_init :: "iodriver \<Rightarrow> u8 list \<Rightarrow> nat \<Rightarrow> (FileSystemType \<times> u32) option" where
  "mbr_init d io_buffer part =
     (let b = buffer_after d 0 io_buffer
      in if b ! 510 \<noteq> 0x55 \<or> b ! 511 \<noteq> 0xAA then None
         else mbr_get_fs (map (\<lambda>i. mbr_partition_at b (446 + 16 * i)) [0..<4]) part)"

section \<open>The path walk of the drivers\<close>

text \<open>\<open>fat_stat\<close>, \<open>ext2_stat\<close> and \<open>iso9660_stat\<close> share one text: they differ in \<open>readdir\<close> and in the comparison of names.
  The result is an error or what is stored in \<open>*out_st\<close>, which a path without components leaves alone (\<open>None\<close>).\<close>

type_synonym dir_reader = "stat \<Rightarrow> u32 \<Rightarrow> (int + u8 list \<times> stat) option"

partial_function (option) entry_lookup :: "dir_reader \<Rightarrow> (u8 list \<Rightarrow> bool) \<Rightarrow> stat \<Rightarrow> u32 \<Rightarrow> stat option option" where
  "entry_lookup rd is_name dir i = do {
     r \<leftarrow> rd dir i;
     case r of
       Inl _ \<Rightarrow> Some None
     | Inr (n, st) \<Rightarrow> if is_name n then Some (Some st) else entry_lookup rd is_name dir (i + 1) }"

partial_function (option) driver_walk ::
  "dir_reader \<Rightarrow> (u8 list \<Rightarrow> u8 list \<Rightarrow> bool) \<Rightarrow> stat \<Rightarrow> stat option \<Rightarrow> u8 list option \<Rightarrow> u8 list option \<Rightarrow> (int + stat option) option" where
  "driver_walk rd same dir out filename rest =
     (case filename of
        None \<Rightarrow> Some (Inr out)
      | Some f \<Rightarrow>
          if f = [] then Some (Inr out)
          else if \<not> ISSET_BIT_INT (st_mode dir) S_IFDIR then Some (Inl (- ENOTDIR))
          else do {
            r \<leftarrow> entry_lookup rd (\<lambda>n. same n f) dir 0;
            case r of
              None \<Rightarrow> Some (Inl (- ENOENT))
            | Some st \<Rightarrow> let (filename', rest') = slash_tok rest in driver_walk rd same st (Some st) filename' rest' })"

definition driver_stat ::
  "dir_reader \<Rightarrow> (u8 list \<Rightarrow> u8 list \<Rightarrow> bool) \<Rightarrow> stat \<Rightarrow> stat \<Rightarrow> u8 list \<Rightarrow> (int + stat option) option" where
  "driver_stat rd same rootdir st path =
     (if path = [47] then Some (Inr (Some rootdir))
      else let (filename, rest) = slash_tok (Some (tl path)) in driver_walk rd same st None filename rest)"

definition same_name :: "u8 list \<Rightarrow> u8 list \<Rightarrow> bool" where
  "same_name n f \<longleftrightarrow> n = f"

definition same_name_nocase :: "u8 list \<Rightarrow> u8 list \<Rightarrow> bool" where
  "same_name_nocase n f \<longleftrightarrow> map (\<lambda>c. toupper (char_int c)) n = map (\<lambda>c. toupper (char_int c)) f"

section \<open>Facts on buffers\<close>

lemma length_slice [simp]: "length (slice bs off n) = n"
  by (simp add: slice_def)

lemma nth_slice [simp]: "i < n \<Longrightarrow> slice bs off n ! i = bs ! (off + i)"
  by (simp add: slice_def)

lemma slice_take_drop: "off + n \<le> length bs \<Longrightarrow> slice bs off n = take n (drop off bs)"
  by (simp add: list_eq_iff_nth_eq)

lemma slice_append: "slice bs off n @ slice bs (off + n) k = slice bs off (n + k)"
  by (auto simp: list_eq_iff_nth_eq nth_append)

lemma slice_0 [simp]: "slice bs off 0 = []"
  by (simp add: slice_def)

lemma slice_all: "n = length bs \<Longrightarrow> slice bs 0 n = bs"
  by (simp add: slice_take_drop)

lemma part_of_prefix:
  assumes "a + min c (n - a) \<le> length A"
  shows "take c (drop a (take n (A @ B))) = take (min c (n - a)) (drop a A)"
proof -
  have "take c (drop a (take n (A @ B))) = take (min c (n - a)) (drop a (A @ B))" by (simp only: drop_take take_take)
  also have "\<dots> = take (min c (n - a)) (drop a A @ drop (a - length A) B)" by (simp only: drop_append)
  also have "\<dots> = take (min c (n - a)) (drop a A)"
  proof -
    have "min c (n - a) - length (drop a A) = 0" using assms by simp
    then show ?thesis by (simp only: take_append take0 append_Nil2)
  qed
  finally show ?thesis .
qed

lemma length_le32_bytes [simp]: "length (le32_bytes w) = 4"
  by (simp add: le32_bytes_def)

lemma le32_of_bytes: "le32 (le32_bytes w @ bs) 0 = w"
  using join_bytes32[of w] by (simp add: le32_def le32_bytes_def numeral_2_eq_2 numeral_3_eq_3)

lemma le32_cong:
  assumes "\<And>j. j < 4 \<Longrightarrow> bs ! (i + j) = cs ! (k + j)"
  shows "le32 bs i = le32 cs k"
  using assms[of 0] assms[of 1] assms[of 2] assms[of 3] by (simp add: le32_def)

lemma le16_cong:
  assumes "\<And>j. j < 2 \<Longrightarrow> bs ! (i + j) = cs ! (k + j)"
  shows "le16 bs i = le16 cs k"
  using assms[of 0] assms[of 1] by (simp add: le16_def)

text \<open>The two copies out of the buffer are one.\<close>

lemma chunk_slice:
  fixes off to_read :: u32
  assumes "unat off + unat to_read < 2 ^ 32" "len = (if off < to_read then to_read - off else to_read)"
  shows "slice b (unat off) (unat len) @ slice b (unat (off + len)) (unat (to_read - len)) = slice b (unat off) (unat to_read)"
proof -
  have l: "unat len \<le> unat to_read"
    using assms(2) by (auto simp: unat_sub word_less_nat_alt word_le_nat_alt)
  then have "unat (off + len) = unat off + unat len" "unat (to_read - len) = unat to_read - unat len"
    using assms(1) by (auto simp: unat_sub word_le_nat_alt intro!: unat_add_no_wrap)
  then show ?thesis using l by (simp add: slice_append)
qed

text \<open>The part of a request that lies inside the file.\<close>

lemma clipped_count:
  fixes offset count sz :: u32
  assumes "offset < sz" "unat offset + unat count < 2 ^ 32"
  shows "unat (if offset + count > sz then sz - offset else count) = min (unat count) (unat sz - unat offset)"
  using assms by (auto simp: unat_sub word_le_nat_alt word_less_nat_alt unat_add_no_wrap)

section \<open>Sectors that can be read\<close>

definition sector_bytes :: "iodriver \<Rightarrow> u32 \<Rightarrow> u8 list" where
  "sector_bytes d lba = (case read_sector d lba of Inl _ \<Rightarrow> [] | Inr bs \<Rightarrow> bs)"

definition readable :: "iodriver \<Rightarrow> u32 \<Rightarrow> nat \<Rightarrow> bool" where
  "readable d lba n \<longleftrightarrow> (\<exists>bs. read_sector d lba = Inr bs \<and> length bs = n)"

lemma readableE:
  assumes "readable d lba n"
  shows "read_sector d lba = Inr (sector_bytes d lba)" "length (sector_bytes d lba) = n"
  using assms by (auto simp: readable_def sector_bytes_def)

section \<open>Listings\<close>

text \<open>What \<open>readdir\<close> is to answer for an index of a directory with the entries \<open>es\<close>.\<close>

definition nth_entry :: "'a list \<Rightarrow> nat \<Rightarrow> int + 'a" where
  "nth_entry es i = (if i < length es then Inr (es ! i) else Inl (- ENOENT))"

lemma nth_entry_Cons: "nth_entry (e # es) (Suc i) = nth_entry es i" "nth_entry (e # es) 0 = Inr e" "nth_entry [] i = Inl (- ENOENT)"
  by (simp_all add: nth_entry_def)

lemma nth_entry_append: "nth_entry (xs @ ys) (length xs + i) = nth_entry ys i"
  by (simp add: nth_entry_def)

lemma unat_diff_step: "(i :: u32) < k \<Longrightarrow> unat (k - i) = Suc (unat (k - (i + 1)))"
proof -
  assume "i < k"
  then have i: "unat i < unat k" by (simp add: word_less_nat_alt)
  then have "unat (i + 1) = unat i + 1" using unat_u32_less[of k] by (subst unat_add_no_wrap) simp_all
  then show ?thesis using i by (simp add: unat_sub word_le_nat_alt)
qed

end
