(* ===== verification/Disk_Laws.thy ===== *)
theory Disk_Laws
  imports Disk
begin

text \<open>
  The RAM disk is an array of sectors, and the partition table of a master boot record is read as it was written.
\<close>

section \<open>RAM disk\<close>

definition ramdisk_ok :: "ramdisk \<Rightarrow> bool" where
  "ramdisk_ok r \<longleftrightarrow> length (rd_data r) = unat (rd_size r) \<and> rd_sector_size r \<noteq> 0 \<and>
     unat (rd_sector_size r) dvd unat (rd_size r)"

definition on_disk :: "ramdisk \<Rightarrow> u32 \<Rightarrow> bool" where
  "on_disk r lba \<longleftrightarrow> (unat lba + 1) * unat (rd_sector_size r) \<le> unat (rd_size r)"

lemma sector_address:
  assumes "on_disk r lba" "rd_sector_size r \<noteq> 0"
  shows "unat (lba * ucast (rd_sector_size r)) = unat lba * unat (rd_sector_size r)"
    "lba * ucast (rd_sector_size r) < rd_size r"
proof -
  have n: "0 < unat (rd_sector_size r)" using assms(2) by (simp add: unat_gt_0)
  then have l: "unat lba * unat (rd_sector_size r) < unat (rd_size r)" using assms(1) by (simp add: on_disk_def)
  then have "unat lba * unat (rd_sector_size r) < 2 ^ 32" using unat_u32_less[of "rd_size r"] by simp
  then show u: "unat (lba * ucast (rd_sector_size r)) = unat lba * unat (rd_sector_size r)"
    by (subst unat_mult_lem[THEN iffD1]) (simp_all add: unat_ucast_up)
  then show "lba * ucast (rd_sector_size r) < rd_size r" using l by (simp add: word_less_nat_alt)
qed

lemma sector_fits:
  assumes "ramdisk_ok r" "on_disk r lba"
  shows "unat lba * unat (rd_sector_size r) + unat (rd_sector_size r) \<le> length (rd_data r)"
  using assms by (simp add: ramdisk_ok_def on_disk_def add.commute)

lemma sectors_apart:
  fixes a b n :: nat assumes "a \<noteq> b" shows "a * n + n \<le> b * n \<or> b * n + n \<le> a * n"
proof (cases "a < b")
  case True
  then have "(a + 1) * n \<le> b * n" by (intro mult_le_mono1) simp
  then show ?thesis by simp
next
  case False
  then have "(b + 1) * n \<le> a * n" using assms by (intro mult_le_mono1) simp
  then show ?thesis by simp
qed

text \<open>The RAM disk stores sectors. Writing a sector of the disk succeeds, keeps the disk well formed, afterwards the
  sector reads back as the bytes written, and every other sector as before; a sector behind the end of the disk gives
  \<open>-EIO\<close> and changes nothing (as long as its address fits into 32 bits).\<close>

theorem ramdisk_write_read:
  assumes ok: "ramdisk_ok r" and on: "on_disk r lba" and len: "length data = unat (rd_sector_size r)"
    and other: "on_disk r lba'"
    and beyond: "unat (rd_size r) \<le> unat lba'' * unat (rd_sector_size r)" "unat lba'' * unat (rd_sector_size r) < 2 ^ 32"
  shows "(case ramdisk_write_sector r lba data of (e, r') \<Rightarrow> e = 0 \<and> ramdisk_ok r' \<and>
      ramdisk_read_sector r' lba' = (if lba' = lba then Inr data else ramdisk_read_sector r lba')) \<and>
    ramdisk_read_sector r lba'' = Inl (- EIO) \<and> ramdisk_write_sector r lba'' data = (- EIO, r)"
proof -
  let ?n = "unat (rd_sector_size r)"
  let ?r = "r\<lparr>rd_data := take (unat lba * ?n) (rd_data r) @ data @ drop (unat lba * ?n + ?n) (rd_data r)\<rparr>"
  have n: "rd_sector_size r \<noteq> 0" using ok by (simp add: ramdisk_ok_def)
  note a = sector_address[OF on n] and b = sector_address[OF other n] and f = sector_fits[OF ok on] sector_fits[OF ok other]
  have w: "ramdisk_write_sector r lba data = (0, ?r)"
    using a len by (simp add: ramdisk_write_sector_def not_le slice_all Let_def)
  have okr: "ramdisk_ok ?r" using ok f(1) len by (simp add: ramdisk_ok_def)
  have "slice (rd_data ?r) (unat lba' * ?n) ?n = (if lba' = lba then data else slice (rd_data r) (unat lba' * ?n) ?n)"
  proof (cases "lba' = lba")
    case True
    then show ?thesis using f len by (auto simp: list_eq_iff_nth_eq nth_append min_def)
  next
    case False
    then have "unat lba' * ?n + ?n \<le> unat lba * ?n \<or> unat lba * ?n + ?n \<le> unat lba' * ?n"
      by (intro sectors_apart) (simp add: word_unat_eq_iff)
    then show ?thesis using False f len by (auto simp: list_eq_iff_nth_eq nth_append min_def)
  qed
  moreover have "ramdisk_read_sector q lba' = Inr (slice (rd_data q) (unat lba' * ?n) ?n)"
    if "rd_sector_size q = rd_sector_size r" "rd_size q = rd_size r" for q
    using that b(1) b(2)[folded not_le] by (simp add: ramdisk_read_sector_def)
  ultimately have "ramdisk_read_sector ?r lba' = (if lba' = lba then Inr data else ramdisk_read_sector r lba')" by simp
  moreover have "rd_size r \<le> lba'' * ucast (rd_sector_size r)"
    using beyond by (subst word_le_nat_alt, subst unat_mult_lem[THEN iffD1]) (simp_all add: unat_ucast_up)
  ultimately show ?thesis using w okr by (simp add: ramdisk_read_sector_def ramdisk_write_sector_def)
qed

theorem ramdisk_write_read_witness:
  "(case ramdisk_write_sector \<lparr>rd_sector_size = 2, rd_size = 4, rd_data = [1, 2, 3, 4]\<rparr> 1 [8, 9] of (e, r') \<Rightarrow>
     e = 0 \<and> ramdisk_read_sector r' 0 = Inr [1, 2])"
  using ramdisk_write_read[of "\<lparr>rd_sector_size = 2, rd_size = 4, rd_data = [1, 2, 3, 4]\<rparr>" 1 "[8, 9]" 0 7]
    ramdisk_read_sector_def[of "\<lparr>rd_sector_size = 2, rd_size = 4, rd_data = [1, 2, 3, 4]\<rparr>" 0]
  by (simp add: ramdisk_ok_def on_disk_def slice_def upt_rec split: prod.splits)

section \<open>Partitions\<close>

definition partition_bytes :: "mbr_partition \<Rightarrow> u8 list" where
  "partition_bytes p = [bootable p, start_head p, start_sector p, start_cylinder p, part_type p, end_head p, end_sector p, end_cylinder p]
     @ le32_bytes (part_start_lba p) @ le32_bytes (part_size p)"

definition mbr_sector :: "u8 list \<Rightarrow> mbr_partition list \<Rightarrow> u8 list" where
  "mbr_sector boot_code ps = boot_code @ concat (map partition_bytes ps) @ [0x55, 0xAA]"

lemma length_partition_bytes: "length (partition_bytes p) = 16"
  by (simp add: partition_bytes_def)

lemma nth_concat_16:
  "i < length ps \<Longrightarrow> j < 16 \<Longrightarrow> concat (map partition_bytes ps) ! (16 * i + j) = partition_bytes (ps ! i) ! j"
proof (induction ps arbitrary: i)
  case (Cons p ps)
  then show ?case by (cases i) (simp_all add: nth_append length_partition_bytes)
qed simp

lemma length_concat_16: "length (concat (map partition_bytes ps)) = 16 * length ps"
  by (induction ps) (simp_all add: length_partition_bytes)

lemma partition_at:
  assumes "\<And>j. j < 16 \<Longrightarrow> bs ! (a + j) = partition_bytes p ! j"
  shows "mbr_partition_at bs a = p"
proof -
  have "le32 bs (a + 8) = le32 (le32_bytes (part_start_lba p) @ le32_bytes (part_size p)) 0"
    by (rule le32_cong) (use assms in \<open>simp add: partition_bytes_def add.assoc\<close>)
  moreover have "le32 bs (a + 12) = le32 (le32_bytes (part_size p) @ []) 0"
    by (rule le32_cong) (use assms in \<open>simp add: partition_bytes_def add.assoc nth_append\<close>)
  ultimately have "part_start_lba (mbr_partition_at bs a) = part_start_lba p" "part_size (mbr_partition_at bs a) = part_size p"
    by (simp_all only: mbr_partition_at_def mbr_partition.simps le32_of_bytes)
  moreover have "bs ! a = bootable p" using assms[of 0] by (simp add: partition_bytes_def)
  ultimately show ?thesis
    using assms[of 1] assms[of 2] assms[of 3] assms[of 4] assms[of 5] assms[of 6] assms[of 7]
    by (cases p) (simp add: mbr_partition_at_def partition_bytes_def)
qed

text \<open>Partition tables are read as they are written. If the first sector of the disk is a master boot record with any
  boot code and four partitions, \<open>mbr_init\<close> answers for partition \<open>i\<close> with the file system its type byte names and its
  first sector, and without one for an empty or unknown type.\<close>

theorem mbr_init_reads_table:
  assumes "length boot_code = 446" "length ps = 4" "i < 4" "read_sector d 0 = Inr (mbr_sector boot_code ps)"
  shows "mbr_init d io i = mbr_get_fs [ps ! i] 0"
proof -
  let ?b = "mbr_sector boot_code ps"
  have sig: "?b ! 510 = 0x55" "?b ! 511 = 0xAA"
    using assms(1,2) by (simp_all add: mbr_sector_def nth_append length_concat_16)
  have "mbr_partition_at ?b (446 + 16 * k) = ps ! k" if "k < 4" for k
    using assms(1,2) that nth_concat_16[of k ps]
    by (intro partition_at) (simp add: mbr_sector_def nth_append length_concat_16 add.assoc)
  then show ?thesis using sig assms(3,4) by (simp add: mbr_init_def buffer_after_def mbr_get_fs_def)
qed

theorem mbr_init_reads_table_witness:
  "mbr_init (ramdisk_driver 0 \<lparr>rd_sector_size = 512, rd_size = 512, rd_data = mbr_sector (replicate 446 0)
     (replicate 3 (mbr_partition_at (replicate 16 0) 0) @ [mbr_partition_at [0x80, 0, 0, 0, 0x83, 0, 0, 0, 0, 8, 0, 0, 0, 0, 0, 0] 0])\<rparr>) [] 3
   = Some (FS_EXT2, 2048)"
proof -
  let ?ps = "replicate 3 (mbr_partition_at (replicate 16 0) 0) @ [mbr_partition_at [0x80, 0, 0, 0, 0x83, 0, 0, 0, 0, 8, 0, 0, 0, 0, 0, 0] 0]"
  let ?b = "mbr_sector (replicate 446 0) ?ps"
  let ?d = "ramdisk_driver 0 \<lparr>rd_sector_size = 512, rd_size = 512, rd_data = ?b\<rparr>"
  have "length ?b = 512" unfolding mbr_sector_def length_append length_concat_16 by simp
  then have "read_sector ?d 0 = Inr ?b"
    by (simp add: ramdisk_driver_def ramdisk_read_sector_def slice_all)
  then have "mbr_init ?d [] 3 = mbr_get_fs [?ps ! 3] 0" by (intro mbr_init_reads_table) simp_all
  also have "\<dots> = Some (FS_EXT2, 2048)" by (simp add: mbr_get_fs_def mbr_partition_at_def le32_def Let_def nth_append)
  finally show ?thesis .
qed

end
