(* ===== verification/Fat.thy ===== *)
theory Fat
  imports Disk
begin

text \<open>
  \<^verbatim>\<open>drivers/fs/fat.c\<close>: the FAT12 and FAT16 file systems, read only. A directory entry is its 32 bytes, as on the disk
  and behind \<open>st_private\<close>. Of the \<open>filesystem\<close> structure the driver uses the fields of \<open>fat_fs\<close>; \<open>bitmap\<close> is the cached
  allocation table. \<open>None\<close> stands for a division by zero, a panic or a loop that does not end.
\<close>

section \<open>Data\<close>

record bios_params =
  bytes_per_sector :: u16
  sectors_per_cluster :: u8
  reserved_sectors :: u16
  number_of_fat :: u8
  rootdir_entries :: u16
  small_sectors :: u16
  media_type :: u8
  sectors_per_fat :: u16
  sectors_per_track :: u16
  num_of_heads :: u16
  hidden_sectors :: u32
  large_sectors :: u32
  disk_number :: u8
  checkdisk :: u8
  signature :: u8
  serial_number :: u32
  volume_label :: "u8 list"
  filesystem_name :: "u8 list"

definition bios_params_at :: "u8 list \<Rightarrow> nat \<Rightarrow> bios_params" where
  "bios_params_at bs i = \<lparr>bytes_per_sector = le16 bs i, sectors_per_cluster = bs ! (i + 2), reserved_sectors = le16 bs (i + 3),
     number_of_fat = bs ! (i + 5), rootdir_entries = le16 bs (i + 6), small_sectors = le16 bs (i + 8),
     media_type = bs ! (i + 10), sectors_per_fat = le16 bs (i + 11), sectors_per_track = le16 bs (i + 13),
     num_of_heads = le16 bs (i + 15), hidden_sectors = le32 bs (i + 17), large_sectors = le32 bs (i + 21),
     disk_number = bs ! (i + 25), checkdisk = bs ! (i + 26), signature = bs ! (i + 27), serial_number = le32 bs (i + 28),
     volume_label = slice bs (i + 32) 11, filesystem_name = slice bs (i + 43) 8\<rparr>"

record fat_fs =
  fat_type :: FileSystemType
  fat_start_lba :: u32
  fat_params :: bios_params
  fat_bitmap :: "u8 list"
  fat_rootdir :: stat

type_synonym fat_entry = "u8 list"

definition fe_name :: "fat_entry \<Rightarrow> u8 list" where "fe_name f = slice f 0 8"
definition fe_ext :: "fat_entry \<Rightarrow> u8 list" where "fe_ext f = slice f 8 3"
definition fe_attributes :: "fat_entry \<Rightarrow> u8" where "fe_attributes f = f ! 11"
definition fe_cluster :: "fat_entry \<Rightarrow> u16" where "fe_cluster f = le16 f 26"
definition fe_size :: "fat_entry \<Rightarrow> u32" where "fe_size f = le32 f 28"

definition read_only :: "fat_entry \<Rightarrow> bool" where "read_only f = bit (fe_attributes f) 0"
definition volume :: "fat_entry \<Rightarrow> bool" where "volume f = bit (fe_attributes f) 3"
definition directory :: "fat_entry \<Rightarrow> bool" where "directory f = bit (fe_attributes f) 4"
definition archive :: "fat_entry \<Rightarrow> bool" where "archive f = bit (fe_attributes f) 5"
definition fe_device :: "fat_entry \<Rightarrow> bool" where "fe_device f = bit (fe_attributes f) 6"

definition set_size :: "fat_entry \<Rightarrow> u32 \<Rightarrow> fat_entry" where
  "set_size f n = slice f 0 28 @ le32_bytes n"

section \<open>Cluster chains\<close>

definition fat12_next_cluster :: "u32 \<Rightarrow> u8 list \<Rightarrow> nat \<Rightarrow> u32 \<Rightarrow> u16" where
  "fat12_next_cluster cluster table base ent_offset =
     (let table_value = le16 table (base + unat ent_offset)
      in if cluster AND 1 \<noteq> 0 then drop_bit 4 table_value else table_value AND 0x0FFF)"

definition fat16_next_cluster :: "u8 list \<Rightarrow> nat \<Rightarrow> u32 \<Rightarrow> u16" where
  "fat16_next_cluster table base ent_offset = le16 table (base + unat ent_offset)"

definition invalid :: "fat_fs \<Rightarrow> u32" where
  "invalid v = (case fat_type v of FS_FAT12 \<Rightarrow> 0xFF8 | FS_FAT16 \<Rightarrow> 0xFFF8 | _ \<Rightarrow> 0xFFFF)"

definition bps :: "fat_fs \<Rightarrow> u32" where "bps v = ucast (bytes_per_sector (fat_params v))"

text \<open>The step to the next cluster, the same in three loops of the code. For a file system that is neither FAT12 nor
  FAT16 the variable \<open>fat_offset\<close> would be used uninitialised; the driver is only installed for these two.\<close>

definition next_cluster :: "fat_fs \<Rightarrow> u16 \<Rightarrow> u16" where
  "next_cluster v cluster =
     (let fat_offset = (if fat_type v = FS_FAT12 then ucast cluster + ucast cluster div 2 else ucast cluster * 2) :: u32;
          ent_offset = fat_offset mod bps v;
          base = unat (fat_offset div bps v * bps v)
      in if fat_type v = FS_FAT12 then fat12_next_cluster (ucast cluster) (fat_bitmap v) base ent_offset
         else fat16_next_cluster (fat_bitmap v) base ent_offset)"

partial_function (option) actual_size_loop :: "fat_fs \<Rightarrow> u16 \<Rightarrow> u32 \<Rightarrow> u32 option" where
  "actual_size_loop v cluster sz =
     (if ucast cluster < invalid v
      then if bps v = 0 then None else actual_size_loop v (next_cluster v cluster) (sz + bps v)
      else Some sz)"

definition fat_calculate_actual_size :: "fat_fs \<Rightarrow> fat_entry \<Rightarrow> u32 option" where
  "fat_calculate_actual_size v f =
     (if fe_cluster f = 0 then Some (ucast (rootdir_entries (fat_params v)) * 32)
      else actual_size_loop v (fe_cluster f) 0)"

section \<open>Names and attributes\<close>

text \<open>\<open>dos83toStr\<close>: the name up to the first blank or NUL, and unless the extension is blank a dot and the three bytes
  of the extension up to a NUL.\<close>

definition dos83toStr :: "u8 list \<Rightarrow> u8 list \<Rightarrow> u8 list" where
  "dos83toStr name ext =
     takeWhile (\<lambda>c. c \<noteq> 0 \<and> c \<noteq> 32) (slice name 0 8) @
     (if ext ! 0 \<noteq> 32 \<or> ext ! 1 \<noteq> 32 \<or> ext ! 2 \<noteq> 32 then 46 # takeWhile (\<lambda>c. c \<noteq> 0) (slice ext 0 3) else [])"

definition fat_stat_fill :: "iodriver \<Rightarrow> fat_fs \<Rightarrow> ptr \<Rightarrow> fat_entry \<Rightarrow> stat" where
  "fat_stat_fill d v p f =
     \<lparr>st_dev = scast (device d), st_ino = 0,
      st_mode = (if read_only f then S_IRUSR OR S_IRGRP OR S_IROTH
                 else S_IRUSR OR S_IWUSR OR S_IRGRP OR S_IWGRP OR S_IROTH OR S_IWGRP) OR S_IXUSR OR S_IXGRP OR S_IXOTH
        OR (if directory f then S_IFDIR else 0) OR (if fe_device f then S_IFBLK else 0) OR (if archive f then S_IFREG else 0),
      st_nlink = 1, st_uid = 0, st_gid = 0, st_rdev = 0, st_size = fe_size f, st_blksize = bps v,
      st_blocks = fe_size f div 512 + (if fe_size f mod 512 \<noteq> 0 then 1 else 0),
      st_atime = 0, st_mtime = 0, st_ctime = 0, st_private = p, st_object = f\<rparr>"

section \<open>Initialisation\<close>

fun fat_read_sector_loop :: "iodriver \<Rightarrow> u32 \<Rightarrow> nat \<Rightarrow> u8 list option" where
  "fat_read_sector_loop d lba 0 = Some []"
| "fat_read_sector_loop d lba (Suc n) =
     (case read_sector d lba of Inl _ \<Rightarrow> None
      | Inr bs \<Rightarrow> map_option ((@) (slice bs 0 (unat (sector_size d)))) (fat_read_sector_loop d lba n))"

text \<open>One round for each driver sector of a file system sector; every round reads the same sector, and the three
  tries of a deterministic driver give the same result.\<close>

definition fat_read_sector :: "iodriver \<Rightarrow> fat_fs \<Rightarrow> u32 \<Rightarrow> u8 list option" where
  "fat_read_sector d v lba =
     fat_read_sector_loop d (fat_start_lba v + lba)
       ((unat (bps v) + unat (sector_size d) - 1) div unat (sector_size d))"

fun cache_sectors :: "iodriver \<Rightarrow> u32 \<Rightarrow> nat \<Rightarrow> nat list \<Rightarrow> u8 list \<Rightarrow> bool \<times> u8 list" where
  "cache_sectors d lba n [] table = (True, table)"
| "cache_sectors d lba n (i # is) table =
     (case read_sector d (lba + of_nat i) of
        Inl _ \<Rightarrow> (False, table)
      | Inr bs \<Rightarrow> cache_sectors d lba n is (take (i * n) table @ slice bs 0 n @ drop (i * n + n) table))"

fun cache_fat :: "iodriver \<Rightarrow> u32 \<Rightarrow> bios_params \<Rightarrow> nat list \<Rightarrow> u8 list \<Rightarrow> u8 list" where
  "cache_fat d lba params [] table = table"
| "cache_fat d lba params (k # ks) table =
     (let spf = unat (sectors_per_fat params); n = unat (bytes_per_sector params);
          (ok, table') = cache_sectors d (lba + ucast (reserved_sectors params) + of_nat (k * spf * n)) n [0..<spf] table
      in if ok then table' else cache_fat d lba params ks table')"

text \<open>\<open>p\<close> is the address of the structure for the root directory.\<close>

definition fat_root_entry :: "bios_params \<Rightarrow> fat_entry" where
  "fat_root_entry params = replicate 11 0 @ [0x10] @ replicate 16 0 @ le32_bytes (ucast (rootdir_entries params) * 32)"

definition fat_init :: "iodriver \<Rightarrow> u8 list \<Rightarrow> FileSystemType \<Rightarrow> u32 \<Rightarrow> ptr \<Rightarrow> fat_fs option" where
  "fat_init d io_buffer t lba p =
     (let params = bios_params_at (buffer_after d lba io_buffer) 11;
          v = \<lparr>fat_type = t, fat_start_lba = lba, fat_params = params, fat_bitmap = [], fat_rootdir = zero_stat\<rparr>;
          n = unat (bytes_per_sector params); spf = unat (sectors_per_fat params)
      in if bytes_per_sector params < sector_size d \<or> sector_size d = 0 \<or> bytes_per_sector params mod sector_size d \<noteq> 0 then None
         else Some (v\<lparr>fat_rootdir := fat_stat_fill d v p (fat_root_entry params),
                fat_bitmap := cache_fat d lba params [0..<unat (number_of_fat params)] (replicate (spf * n) 0)\<rparr>))"

section \<open>Reading files\<close>

definition rootdir_sector :: "fat_fs \<Rightarrow> u32" where
  "rootdir_sector v = fat_start_lba v + ucast (reserved_sectors (fat_params v))
     + ucast (number_of_fat (fat_params v)) * ucast (sectors_per_fat (fat_params v))"

definition data_sector :: "fat_fs \<Rightarrow> u16 \<Rightarrow> u32" where
  "data_sector v cluster = (ucast cluster - 2) * ucast (sectors_per_cluster (fat_params v)) + rootdir_sector v
     + ucast (rootdir_entries (fat_params v)) * 32 div bps v"

function fat_skip :: "fat_fs \<Rightarrow> u16 \<Rightarrow> u32 \<Rightarrow> (u16 \<times> u32) option" where
  "fat_skip v cluster offset =
     (if bps v \<le> offset \<and> ucast cluster < invalid v
      then if bps v = 0 then None else fat_skip v (next_cluster v cluster) (offset - bps v)
      else Some (cluster, offset))"
  by pat_completeness auto

termination
proof (relation "measure (\<lambda>(v, c, offset). unat offset)", goal_cases)
  case (2 v cluster offset)
  then have "0 < unat (bps v)" "unat (bps v) \<le> unat offset" by (auto simp: unat_gt_0 word_le_nat_alt)
  then show ?case by (simp add: unat_sub word_le_nat_alt)
qed simp

text \<open>\<open>off\<close> is the offset in the first sector, which the code uses for every sector.\<close>

function fat_read_loop :: "iodriver \<Rightarrow> fat_fs \<Rightarrow> u32 \<Rightarrow> u16 \<Rightarrow> u32 \<Rightarrow> (int + u8 list) option" where
  "fat_read_loop d v offset cluster count =
     (if ucast cluster < invalid v \<and> count \<noteq> 0
      then if bps v = 0 then None
        else let to_read = (if count > bps v then bps v else count)
          in case read_sector d (data_sector v cluster) of
               Inl _ \<Rightarrow> Some (Inl (- EIO))
             | Inr io_buffer \<Rightarrow>
                 let off = offset mod bps v;
                     len = (if off < to_read then to_read - off else to_read);
                     chunk = slice io_buffer (unat off) (unat len) @ slice io_buffer (unat (off + len)) (unat (to_read - len))
                 in map_option (map_sum id ((@) chunk)) (fat_read_loop d v offset (next_cluster v cluster) (count - to_read))
      else Some (Inr []))"
  by pat_completeness auto

termination
proof (relation "measure (\<lambda>(d, v, offset, c, count). unat count)", goal_cases)
  case (2 d v offset cluster count to_read)
  then have "0 < unat to_read" "unat to_read \<le> unat count"
    by (auto simp: unat_gt_0 word_le_nat_alt word_less_nat_alt split: if_splits)
  then show ?case by (simp add: unat_sub word_le_nat_alt)
qed simp

definition fat_read :: "iodriver \<Rightarrow> fat_fs \<Rightarrow> stat \<Rightarrow> u32 \<Rightarrow> u32 \<Rightarrow> (int + u8 list) option" where
  "fat_read d v st count offset =
     (let f = st_object st
      in if st_private st = NULL then Some (Inl (- EBADFD))
         else if offset \<ge> fe_size f then Some (Inr [])
         else let count' = (if offset + count > fe_size f then fe_size f - offset else count)
           in do {
             (cluster, offset') \<leftarrow> fat_skip v (fe_cluster f) offset;
             fat_read_loop d v offset' cluster count' })"

definition fat_write :: "iodriver \<Rightarrow> stat \<Rightarrow> u8 list \<Rightarrow> u32 \<Rightarrow> int" where
  "fat_write d st buf offset = - EROFS"

section \<open>Directories\<close>

definition entry_offsets :: "nat \<Rightarrow> nat list" where
  "entry_offsets n = map (\<lambda>k. 32 * k) [0..<(n + 31) div 32]"

text \<open>The root directory lies in consecutive sectors; \<open>io_buffer\<close> holds the last one read and \<open>k\<close> is \<open>index - 2\<close>.\<close>

fun root_scan :: "iodriver \<Rightarrow> fat_fs \<Rightarrow> nat list \<Rightarrow> u32 \<Rightarrow> u8 list \<Rightarrow> u32 \<Rightarrow> u32 \<Rightarrow> int + fat_entry" where
  "root_scan d v [] dir_sector io_buffer i k = Inl (- ENOENT)"
| "root_scan d v (j # js) dir_sector io_buffer i k =
     (let off = j mod unat (bps v);
          r = (if off = 0 then map_sum id (\<lambda>b. (b, dir_sector + 1)) (read_sector d dir_sector) else Inr (io_buffer, dir_sector))
      in case r of
           Inl _ \<Rightarrow> Inl (- EIO)
         | Inr (b, ds) \<Rightarrow>
             if b ! off = 0 \<or> volume (slice b off 32) then root_scan d v js ds b i k
             else if i = k then Inr (slice b off 32)
             else root_scan d v js ds b (i + 1) k)"

text \<open>One block of a sub-directory: the entry, or the number of entries seen so far.\<close>

fun block_scan :: "u8 list \<Rightarrow> nat list \<Rightarrow> u32 \<Rightarrow> u32 \<Rightarrow> u32 + fat_entry" where
  "block_scan block [] j index = Inl j"
| "block_scan block (off # offs) j index =
     (if block ! off = 0 then Inl j
      else if j = index then Inr (slice block off 32)
      else block_scan block offs (j + 1) index)"

partial_function (option) sub_scan :: "iodriver \<Rightarrow> fat_fs \<Rightarrow> stat \<Rightarrow> u32 \<Rightarrow> u32 \<Rightarrow> u32 \<Rightarrow> (int + fat_entry) option" where
  "sub_scan d v st i j index = do {
     r \<leftarrow> fat_read d v st (bps v) i;
     case r of
       Inl _ \<Rightarrow> Some (Inl (- ENOENT))
     | Inr bs \<Rightarrow>
         if bs = [] then Some (Inl (- ENOENT))
         else (case block_scan (bs @ replicate (unat (bps v) - length bs) 0) (entry_offsets (unat (bps v))) j index of
                 Inl j' \<Rightarrow> sub_scan d v st (i + bps v) j' index
               | Inr entry \<Rightarrow> Some (Inr entry)) }"

text \<open>The name and the attributes of an entry found; \<open>p\<close> is the address of the copy of the entry.\<close>

definition fat_found :: "iodriver \<Rightarrow> fat_fs \<Rightarrow> ptr \<Rightarrow> fat_entry \<Rightarrow> (u8 list \<times> stat) option" where
  "fat_found d v p entry = do {
     sz \<leftarrow> (if directory entry then fat_calculate_actual_size v entry else Some (fe_size entry));
     let e = (if directory entry then set_size entry sz else entry);
     Some (dos83toStr (fe_name e) (fe_ext e), (fat_stat_fill d v p e)\<lparr>st_ino := ucast (fe_cluster e)\<rparr>) }"

definition fat_readdir :: "iodriver \<Rightarrow> fat_fs \<Rightarrow> ptr \<Rightarrow> stat \<Rightarrow> u32 \<Rightarrow> (int + u8 list \<times> stat) option" where
  "fat_readdir d v p st index =
     (let f = st_object st;
          self = (fat_stat_fill d v (st_private st) f)\<lparr>st_ino := ucast (fe_cluster f)\<rparr>
      in if st_private st = NULL then Some (Inl (- EBADFD))
         else if \<not> directory f then Some (Inl (- ENOTDIR))
         else if fe_cluster f = 0 then
           if index = 0 then Some (Inr ([46], self))
           else if index = 1 then Some (Inr ([46, 46], self))
           else if bps v = 0 \<and> fe_size f \<noteq> 0 then None
           else (case root_scan d v (entry_offsets (unat (fe_size f))) (rootdir_sector v) [] 0 (index - 2) of
                   Inl e \<Rightarrow> Some (Inl e)
                 | Inr entry \<Rightarrow> map_option Inr (fat_found d v p entry))
         else do {
           r \<leftarrow> sub_scan d v st 0 0 index;
           case r of Inl e \<Rightarrow> Some (Inl e) | Inr entry \<Rightarrow> map_option Inr (fat_found d v p entry) })"

definition fat_stat :: "iodriver \<Rightarrow> fat_fs \<Rightarrow> ptr \<Rightarrow> stat \<Rightarrow> u8 list \<Rightarrow> (int + stat option) option" where
  "fat_stat d v p st path = driver_stat (fat_readdir d v p) same_name_nocase (fat_rootdir v) st path"

text \<open>The file system the rest of the kernel sees.\<close>

definition fat_filesystem :: "fat_fs \<Rightarrow> ptr \<Rightarrow> filesystem" where
  "fat_filesystem v p = \<lparr>fs_type = fat_type v, start_lba = fat_start_lba v,
     fs_name = (if fat_type v = FS_FAT12 then [102, 97, 116, 49, 50] else [102, 97, 116, 49, 54]),
     fs_rootdir = fat_rootdir v, case_sensitive = False, fs_read = (\<lambda>d st count offset. fat_read d v st count offset),
     fs_write = fat_write, readdir = (\<lambda>d st index. fat_readdir d v p st index)\<rparr>"

declare actual_size_loop.simps [code] sub_scan.simps [code]
declare fat_skip.simps [simp del] fat_read_loop.simps [simp del]

end
