(* ===== verification/Vfs_Laws.thy ===== *)
theory Vfs_Laws
  imports Vfs
begin

text \<open>
  Path resolution refines a walk along the list of path components over directory listings; mounting makes
  the root of the mounted file system the contents of the mount point.
\<close>

section \<open>Specification\<close>

text \<open>What a file system promises of \<open>readdir\<close>: the entries of a directory by index, then \<open>-ENOENT\<close> at the first index
  behind them.\<close>

definition lists :: "mount_t \<Rightarrow> stat \<Rightarrow> (u8 list \<times> stat) list \<Rightarrow> bool" where
  "lists m dir es \<longleftrightarrow> length es < 2 ^ 32 \<and>
     (\<forall>i\<le>length es. readdir (fs m) (driver m) dir (of_nat i) = Some (if i < length es then Inr (es ! i) else Inl (- ENOENT)))"

text \<open>The walk over the components, with \<open>contents\<close> the listing of each directory.\<close>

type_synonym listing = "mount_t \<Rightarrow> stat \<Rightarrow> (u8 list \<times> stat) list"

fun resolve :: "listing \<Rightarrow> mount_t list \<Rightarrow> mount_t \<Rightarrow> stat \<Rightarrow> stat \<Rightarrow> u8 list list \<Rightarrow> int + mount_t \<times> stat" where
  "resolve contents ms m dir st [] = Inr (m, st)"
| "resolve contents ms m dir st (c # cs) =
     (case find (\<lambda>(n, _). name_matches (fs m) n c) (contents m dir) of
        None \<Rightarrow> Inl (- ENOENT)
      | Some (_, st') \<Rightarrow> (case enter_dir ms m dir st' of (m', dir') \<Rightarrow> resolve contents ms m' dir' st' cs))"

definition component :: "u8 list \<Rightarrow> bool" where
  "component c \<longleftrightarrow> c \<noteq> [] \<and> 47 \<notin> set c"

definition abs_path :: "u8 list list \<Rightarrow> u8 list" where
  "abs_path cs = concat (map (\<lambda>c. 47 # c) cs)"

definition stat_outcome :: "int + mount_t \<times> stat \<Rightarrow> stat_result" where
  "stat_outcome r = (case r of Inl e \<Rightarrow> (e, None, None) | Inr (m, st) \<Rightarrow> (0, Some m, Some st))"

definition resolve_from_root :: "listing \<Rightarrow> vfs_state \<Rightarrow> u8 list list \<Rightarrow> int + mount_t \<times> stat" where
  "resolve_from_root contents v cs = (case root_mount v of None \<Rightarrow> Inl (- ENODEV)
     | Some root \<Rightarrow> resolve contents (mounts v) root (rootdir_st root) (rootdir_st root) cs)"

section \<open>Refinement\<close>

lemma scan_dir_from:
  assumes l: "lists m dir es" and "i \<le> length es"
  shows "scan_dir m dir c (of_nat i) = Some (case find (\<lambda>(n, _). name_matches (fs m) n c) (drop i es) of
    None \<Rightarrow> Inl (- ENOENT) | Some (_, st) \<Rightarrow> Inr st)"
  using assms(2)
proof (induction "length es - i" arbitrary: i)
  case 0
  then have i: "i = length es" by simp
  show ?case using l by (subst scan_dir.simps) (simp add: i lists_def)
next
  case (Suc k)
  then have i: "i < length es" by simp
  obtain n st where e: "es ! i = (n, st)" by force
  have r: "readdir (fs m) (driver m) dir (of_nat i) = Some (Inr (n, st))" using l i e by (simp add: lists_def)
  have d: "drop i es = (n, st) # drop (Suc i) es" using i e by (metis Cons_nth_drop_Suc)
  have "scan_dir m dir c (of_nat i + 1) = Some (case find (\<lambda>(n, _). name_matches (fs m) n c) (drop (Suc i) es) of
    None \<Rightarrow> Inl (- ENOENT) | Some (_, st) \<Rightarrow> Inr st)"
    using Suc.hyps(1)[of "Suc i"] Suc.hyps(2) i by (simp add: add.commute)
  then show ?case by (subst scan_dir.simps) (simp add: r d)
qed

lemma scan_dir_lookup:
  assumes "lists m dir es"
  shows "scan_dir m dir c 0 = Some (case find (\<lambda>(n, _). name_matches (fs m) n c) es of
    None \<Rightarrow> Inl (- ENOENT) | Some (_, st) \<Rightarrow> Inr st)"
  using scan_dir_from[OF assms, of 0] by simp

text \<open>Tokens of the rest of a path: nothing left, or the components behind a slash.\<close>

definition rest_path :: "u8 list list \<Rightarrow> u8 list option" where
  "rest_path cs = (if cs = [] then None else Some (tl (abs_path cs)))"

lemma takeWhile_component [simp]:
  "component c \<Longrightarrow> takeWhile (\<lambda>x. x \<noteq> 47) (c @ 47 # xs) = c" "component c \<Longrightarrow> takeWhile (\<lambda>x. x \<noteq> 47) c = c"
  "component c \<Longrightarrow> dropWhile (\<lambda>x. x \<noteq> 47) (c @ 47 # xs) = 47 # xs" "component c \<Longrightarrow> dropWhile (\<lambda>x. x \<noteq> 47) c = []"
  by (auto simp: component_def takeWhile_append dropWhile_append takeWhile_eq_all_conv dropWhile_eq_Nil_conv)

lemma slash_tok_rest:
  "slash_tok (rest_path []) = (None, None)"
  "component c \<Longrightarrow> slash_tok (rest_path (c # cs)) = (Some c, rest_path cs)"
  by (simp add: slash_tok_def rest_path_def) (cases cs; simp add: slash_tok_def rest_path_def abs_path_def)

lemma enter_dir_mount: "enter_dir ms m dir st = (m', dir') \<Longrightarrow> m' = m \<or> m' \<in> set ms"
  by (auto simp: enter_dir_def split: if_splits option.splits dest: find_SomeD)

text \<open>Directories that are listed, the sub-directories among their entries included.\<close>

definition tree_listed :: "listing \<Rightarrow> (mount_t \<Rightarrow> stat \<Rightarrow> bool) \<Rightarrow> mount_t \<Rightarrow> bool" where
  "tree_listed contents good m \<longleftrightarrow> (\<forall>dir. good m dir \<longrightarrow> lists m dir (contents m dir) \<and>
     (\<forall>(n, st)\<in>set (contents m dir). st_mode st AND S_IFDIR \<noteq> 0 \<longrightarrow> good m st))"

lemma enter_dir_good:
  assumes "enter_dir ms m dir st = (m', dir')" "good m dir" "st_mode st AND S_IFDIR \<noteq> 0 \<longrightarrow> good m st"
    "\<forall>x\<in>set ms. good x (rootdir_st x)"
  shows "good m' dir'"
  using assms by (auto simp: enter_dir_def split: if_splits option.splits dest: find_SomeD)

lemma walk_resolve:
  assumes "\<forall>x\<in>set ms \<union> {m}. tree_listed contents good x" "\<forall>x\<in>set ms. good x (rootdir_st x)" "good m dir" "\<forall>c\<in>set cs. component c"
  shows "walk ms m dir st (fst (slash_tok (rest_path cs))) (snd (slash_tok (rest_path cs)))
    = Some (resolve contents ms m dir st cs)"
  using assms
proof (induction cs arbitrary: m dir st)
  case Nil
  then show ?case by (subst walk.simps) (simp add: slash_tok_rest)
next
  case (Cons c cs)
  have tok: "slash_tok (rest_path (c # cs)) = (Some c, rest_path cs)" "c \<noteq> []"
    using Cons.prems by (auto simp: slash_tok_rest component_def)
  have l: "lists m dir (contents m dir)" using Cons.prems(1,3) by (auto simp: tree_listed_def)
  have IH: "(case slash_tok (rest_path cs) of (f, r) \<Rightarrow> walk ms m' dir' st' f r) = Some (resolve contents ms m' dir' st' cs)"
    if "enter_dir ms m dir st' = (m', dir')" "find (\<lambda>(n, _). name_matches (fs m) n c) (contents m dir) = Some (n, st')" for m' dir' n st'
  proof -
    have "st_mode st' AND S_IFDIR \<noteq> 0 \<longrightarrow> good m st'"
      using Cons.prems(1,3) find_SomeD[OF that(2)] by (auto simp: tree_listed_def)
    then have "good m' dir'" using enter_dir_good[OF that(1), of good] Cons.prems(2,3) by blast
    then show ?thesis using Cons enter_dir_mount[OF that(1)] by (auto simp: case_prod_beta)
  qed
  show ?case
    using tok by (subst walk.simps) (auto simp: scan_dir_lookup[OF l] IH split: option.split prod.split)
qed

text \<open>The mounted file systems keep that promise for every directory that can be reached from their root.\<close>

definition well_listed :: "listing \<Rightarrow> vfs_state \<Rightarrow> bool" where
  "well_listed contents v \<longleftrightarrow> (\<exists>good. \<forall>m\<in>set (mounts v) \<union> set_option (root_mount v).
     good m (rootdir_st m) \<and> tree_listed contents good m)"

lemma tl_abs_path: "cs \<noteq> [] \<Longrightarrow> tl (abs_path cs) = hd cs @ abs_path (tl cs)" "abs_path (c # cs) = 47 # c @ abs_path cs"
  by (cases cs; simp add: abs_path_def)+

lemma stat_abs_path:
  assumes "well_listed contents v" "\<forall>c\<in>set cs. component c" "cs \<noteq> []"
  shows "vfs_stat True (Some (abs_path cs)) v = Some (stat_outcome (resolve_from_root contents v cs))"
proof -
  have ne: "abs_path cs \<noteq> []" "abs_path cs \<noteq> [47]" "hd (abs_path cs) = 47"
    using assms(2,3) by (cases cs; auto simp: abs_path_def component_def)+
  have tok: "slash_tok (Some (tl (abs_path cs))) = slash_tok (rest_path cs)" using assms(3) by (simp add: rest_path_def)
  show ?thesis
    using ne walk_resolve[of "mounts v" _ contents _ _ cs] assms(1,2)
    by (fastforce simp: vfs_stat_def tok resolve_from_root_def stat_outcome_def well_listed_def split: option.split prod.split sum.split)
qed


text \<open>A file system for the witnesses: a root directory with a file and a sub-directory.\<close>

definition sample_dir :: stat where "sample_dir = zero_stat\<lparr>st_ino := 2, st_mode := S_IFDIR\<rparr>"
definition sample_sub :: stat where "sample_sub = zero_stat\<lparr>st_ino := 3, st_mode := S_IFDIR\<rparr>"
definition sample_file :: stat where "sample_file = zero_stat\<lparr>st_ino := 4, st_mode := S_IFREG, st_size := 10\<rparr>"

definition sample_entries :: "stat \<Rightarrow> (u8 list \<times> stat) list" where
  "sample_entries d = (if st_ino d = 2 then [([101], sample_sub), ([102], sample_file)] else [])"

definition sample_fs :: filesystem where
  "sample_fs = \<lparr>fs_type = FS_EMPTY, start_lba = 0, fs_name = [], fs_rootdir = sample_dir, case_sensitive = True,
     fs_read = (\<lambda>_ _ _ _. Some (Inl (- EIO))), fs_write = (\<lambda>_ _ _ _. - EROFS),
     readdir = (\<lambda>_ d i. Some (if unat i < length (sample_entries d) then Inr (sample_entries d ! unat i) else Inl (- ENOENT)))\<rparr>"

definition sample_io :: iodriver where
  "sample_io = \<lparr>device = 0, sector_size = 512, io_size = 0, read_sector = (\<lambda>_. Inl (- EIO))\<rparr>"

definition sample_mount :: mount_t where
  "sample_mount = \<lparr>driver = sample_io, fs = sample_fs, rootdir_name = [47], rootdir_st = sample_dir, ino = 2\<rparr>"

definition sample_vfs :: vfs_state where
  "sample_vfs = \<lparr>root_mount = Some sample_mount, mounts = []\<rparr>"

lemma sample_tree_listed:
  assumes "fs m = sample_fs" shows "tree_listed (\<lambda>_. sample_entries) (\<lambda>_ _. True) m"
proof -
  have l: "length (sample_entries dir) \<le> 2" for dir by (simp add: sample_entries_def)
  have u: "unat (of_nat i :: u32) = i" if "i \<le> 2" for i using that by (simp add: unat_of_nat_small)
  have "lists m dir (sample_entries dir)" for dir
    using assms l[of dir] by (auto simp: lists_def sample_fs_def u)
  then show ?thesis by (simp add: tree_listed_def)
qed

lemma sample_well_listed: "well_listed (\<lambda>_. sample_entries) sample_vfs"
  using sample_tree_listed[of sample_mount]
  by (auto simp: well_listed_def sample_vfs_def sample_mount_def intro!: exI[of _ "\<lambda>_ _. True"])

lemmas sample_vfs_simps = sample_vfs_def sample_mount_def sample_fs_def sample_entries_def sample_dir_def sample_sub_def
  sample_file_def zero_stat_def resolve_from_root_def stat_outcome_def enter_dir_def name_matches_def


text \<open>A path may lead through a file. If the first component names an entry of the root directory that is not
  a directory, the rest of the path is looked up in the root directory: \<open>/file/name\<close> is found whenever \<open>/name\<close> is,
  with the same result, instead of failing.\<close>

theorem vfs_stat_through_file:
  assumes "well_listed contents v" "\<forall>x\<in>set (c # cs). component x" "cs \<noteq> []"
    "resolve_from_root contents v [c] = Inr (m, st)" "st_mode st AND S_IFDIR = 0"
  shows "vfs_stat True (Some (abs_path (c # cs))) v = vfs_stat True (Some (abs_path cs)) v"
proof -
  have "resolve contents ms m' dir st1 cs = resolve contents ms m' dir st2 cs" for ms m' dir st1 st2
    using assms(3) by (cases cs) auto
  then have "resolve_from_root contents v (c # cs) = resolve_from_root contents v cs"
    using assms(4,5) by (auto simp: resolve_from_root_def enter_dir_def split: option.splits if_splits)
  then show ?thesis using stat_abs_path[OF assms(1), of cs] stat_abs_path[OF assms(1), of "c # cs"] assms(2,3) by simp
qed

theorem vfs_stat_through_file_witness:
  "vfs_stat True (Some (abs_path [[102], [101]])) sample_vfs = vfs_stat True (Some (abs_path [[101]])) sample_vfs"
  by (rule vfs_stat_through_file[OF sample_well_listed, where m = sample_mount and st = sample_file])
     (simp_all add: component_def sample_vfs_simps)

text \<open>The working directory plays no part: a path without the leading slash is resolved from the root as well.\<close>

lemma vfs_stat_relative:
  assumes "c \<noteq> []" "hd c \<noteq> 47" "c \<noteq> [47]"
  shows "vfs_stat ok (Some c) v = vfs_stat ok (Some (47 # c)) v"
  using assms by (auto simp: vfs_stat_def split: option.split)

section \<open>Mounting\<close>

text \<open>The inode numbers of the directories a walk passes through.\<close>

fun passed :: "listing \<Rightarrow> mount_t list \<Rightarrow> mount_t \<Rightarrow> stat \<Rightarrow> u8 list list \<Rightarrow> u32 list" where
  "passed contents ms m dir [] = []"
| "passed contents ms m dir (c # cs) =
     (case find (\<lambda>(n, _). name_matches (fs m) n c) (contents m dir) of
        None \<Rightarrow> []
      | Some (_, st') \<Rightarrow> (case enter_dir ms m dir st' of (m', dir') \<Rightarrow> st_ino st' # passed contents ms m' dir' cs))"

lemma enter_dir_mounted: "ino x \<noteq> st_ino st \<Longrightarrow> enter_dir (ms @ [x]) m dir st = enter_dir ms m dir st"
  by (auto simp: enter_dir_def find_append split: option.split)

lemma resolve_into_mount:
  assumes "resolve contents ms m dir st0 cs = Inr (m', st)" "cs \<noteq> []" "st_mode st AND S_IFDIR \<noteq> 0"
    "\<forall>y\<in>set ms. ino y \<noteq> st_ino st" "ino x = st_ino st" "ino x \<notin> set (butlast (passed contents ms m dir cs))"
  shows "resolve contents (ms @ [x]) m dir st0 (cs @ ds) = resolve contents (ms @ [x]) x (rootdir_st x) st ds"
  using assms
proof (induction cs arbitrary: m dir st0)
  case (Cons c cs)
  obtain n st' where f: "find (\<lambda>(n, _). name_matches (fs m) n c) (contents m dir) = Some (n, st')"
    using Cons.prems(1) by (auto split: option.splits)
  show ?case
  proof (cases cs)
    case Nil
    then have "st' = st" using Cons.prems(1) f by (auto split: prod.splits)
    then have "enter_dir (ms @ [x]) m dir st' = (x, rootdir_st x)"
      using Cons.prems by (auto simp: enter_dir_def find_append find_None_iff split: option.split dest: find_SomeD)
    then show ?thesis using Nil f \<open>st' = st\<close> by simp
  next
    case (Cons c' cs')
    obtain m1 dir1 where e: "enter_dir ms m dir st' = (m1, dir1)" by force
    have p: "passed contents ms m dir (c # cs) = st_ino st' # passed contents ms m1 dir1 cs" using f e by simp
    have ne: "passed contents ms m1 dir1 cs \<noteq> []"
      using Cons.prems(1) f e Cons by (auto split: option.splits prod.splits)
    then have i: "ino x \<noteq> st_ino st'" "ino x \<notin> set (butlast (passed contents ms m1 dir1 cs))"
      using Cons.prems(6) p by auto
    have "resolve contents ms m1 dir1 st' cs = Inr (m', st)" using Cons.prems(1) f e by simp
    then have "resolve contents (ms @ [x]) m1 dir1 st' (cs @ ds) = resolve contents (ms @ [x]) x (rootdir_st x) st ds"
      using Cons.IH[of m1 dir1 st'] Cons Cons.prems i(2) by simp
    then show ?thesis using f e enter_dir_mounted[OF i(1)] by simp
  qed
qed simp

definition mounted :: "iodriver \<Rightarrow> filesystem \<Rightarrow> u8 list \<Rightarrow> stat \<Rightarrow> mount_t" where
  "mounted d g p st = \<lparr>driver = d, fs = g, rootdir_name = take 256 p, rootdir_st = fs_rootdir g, ino = st_ino st\<rparr>"

text \<open>A file system whose directories are listed may join.\<close>

lemma well_listed_add:
  assumes "well_listed contents v" "good x (rootdir_st x)" "tree_listed contents good x"
  shows "well_listed contents (v\<lparr>mounts := mounts v @ [x]\<rparr>)"
proof -
  obtain g where g: "\<And>m. m \<in> set (mounts v) \<union> set_option (root_mount v) \<Longrightarrow> g m (rootdir_st m) \<and> tree_listed contents g m"
    using assms(1) by (auto simp: well_listed_def)
  let ?g = "\<lambda>m dir. (m \<in> set (mounts v) \<union> set_option (root_mount v) \<and> g m dir) \<or> (m = x \<and> good x dir)"
  have "lists m dir (contents m dir) \<and> (\<forall>(n, st)\<in>set (contents m dir). st_mode st AND S_IFDIR \<noteq> 0 \<longrightarrow> ?g m st)" if "?g m dir" for m dir
    using that
  proof
    assume "m \<in> set (mounts v) \<union> set_option (root_mount v) \<and> g m dir"
    then show ?thesis using g[of m] by (auto simp: tree_listed_def)
  next
    assume "m = x \<and> good x dir"
    then show ?thesis using assms(3) by (auto simp: tree_listed_def)
  qed
  then have "tree_listed contents ?g m" for m unfolding tree_listed_def by blast
  moreover have "?g m (rootdir_st m)" if "m \<in> set (mounts v @ [x]) \<union> set_option (root_mount v)" for m
    using that assms(2) g[of m] by auto
  ultimately show ?thesis unfolding well_listed_def by (intro exI[of _ ?g]) auto
qed



end
