(* ===== verification/Fat_Laws.thy ===== *)
theory Fat_Laws
  imports Fat Vfs_Laws "HOL-Library.Sublist"
begin

text \<open>
  A file is the chain of its clusters in the allocation table. The packed table is decoded correctly, chains are
  followed to their end exactly when they have one, reads refine slices of the file's bytes, and directories are
  enumerated as \<^verbatim>\<open>Vfs\<close> expects.
\<close>

section \<open>The allocation table\<close>

text \<open>The entries of a FAT12 table as the format packs them: two entries in three bytes.\<close>

fun fat12_pack :: "nat list \<Rightarrow> u8 list" where
  "fat12_pack (x # y # zs) = of_nat (x mod 256) # of_nat (x div 256 + 16 * (y mod 16)) # of_nat (y div 16) # fat12_pack zs"
| "fat12_pack [x] = [of_nat (x mod 256), of_nat (x div 256)]"
| "fat12_pack [] = []"

fun fat16_pack :: "nat list \<Rightarrow> u8 list" where
  "fat16_pack (x # xs) = of_nat (x mod 256) # of_nat (x div 256) # fat16_pack xs"
| "fat16_pack [] = []"

lemma unat_le16: "unat (le16 bs i) = unat (bs ! i) + 256 * unat (bs ! (i + 1))"
proof -
  have "le16 bs i = ucast (bs ! i) + push_bit 8 (ucast (bs ! (i + 1)))"
    unfolding le16_def by (rule disjunctive_add[symmetric]) (auto simp: bit_simps dest: bit_imp_le_length)
  also have "\<dots> = of_nat (unat (bs ! i) + 256 * unat (bs ! (i + 1)))"
    by (simp add: push_bit_eq_mult of_nat_unat mult.commute)
  finally show ?thesis
    using unsigned_less[of "bs ! i", where 'a = nat] unsigned_less[of "bs ! (i + 1)", where 'a = nat]
    by (simp only: unat_of_nat_small) (subst unat_of_nat_small; simp)
qed

lemma unat_and_4095: "unat ((w :: u16) AND 0x0FFF) = unat w mod 4096"
proof -
  have "w AND 0x0FFF = take_bit 12 w" by (simp add: take_bit_eq_mask mask_eq_exp_minus_1)
  then show ?thesis by (simp only: unsigned_take_bit_eq) (simp add: take_bit_eq_mod)
qed

lemma le16_Cons [simp]: "le16 (x # xs) (Suc i) = le16 xs i"
  by (simp add: le16_def)

lemma fat12_pack_even:
  "2 * k < length tbl \<Longrightarrow> \<forall>x\<in>set tbl. x < 4096 \<Longrightarrow> unat (le16 (fat12_pack tbl) (3 * k)) mod 4096 = tbl ! (2 * k)"
proof (induction tbl arbitrary: k rule: fat12_pack.induct)
  case (1 x y zs)
  show ?case
  proof (cases k)
    case 0
    have "x div 256 < 16" "y mod 16 < 16" using 1(3) by auto
    then have "unat (le16 (fat12_pack (x # y # zs)) 0) = x mod 256 + 256 * (x div 256 + 16 * (y mod 16))"
      by (simp add: unat_le16 unat_of_nat del: of_nat_add of_nat_mult)
    also have "\<dots> = x + 4096 * (y mod 16)" by simp
    finally show ?thesis using 0 1(3) by simp
  next
    case (Suc l)
    then show ?thesis using 1 by (simp add: numeral_3_eq_3)
  qed
next
  case (2 x)
  then show ?case by (simp add: unat_le16 unat_of_nat)
qed simp

lemma fat12_pack_odd:
  "2 * k + 1 < length tbl \<Longrightarrow> \<forall>x\<in>set tbl. x < 4096 \<Longrightarrow> unat (le16 (fat12_pack tbl) (3 * k + 1)) div 16 = tbl ! (2 * k + 1)"
proof (induction tbl arbitrary: k rule: fat12_pack.induct)
  case (1 x y zs)
  show ?case
  proof (cases k)
    case 0
    have "x div 256 < 16" "y mod 16 < 16" "y div 16 < 256" using 1(3) by auto
    then have "unat (le16 (fat12_pack (x # y # zs)) 1) = x div 256 + 16 * (y mod 16) + 256 * (y div 16)"
      by (simp add: unat_le16 unat_of_nat del: of_nat_add of_nat_mult)
    also have "\<dots> = x div 256 + 16 * y"
    proof -
      have "y mod 16 + 16 * (y div 16) = y" by simp
      then show ?thesis by linarith
    qed
    also have "\<dots> div 16 = y" using \<open>x div 256 < 16\<close> by simp
    finally show ?thesis using 0 by simp
  next
    case (Suc l)
    then show ?thesis using 1 by (simp add: numeral_3_eq_3)
  qed
qed simp_all

lemma fat16_pack_nth:
  "k < length tbl \<Longrightarrow> \<forall>x\<in>set tbl. x < 65536 \<Longrightarrow> unat (le16 (fat16_pack tbl) (2 * k)) = tbl ! k"
proof (induction tbl arbitrary: k rule: fat16_pack.induct)
  case (1 x xs)
  have "x div 256 < 256" using 1(3) by auto
  then show ?case using 1 by (cases k) (simp_all add: unat_le16 unat_of_nat)
qed simp

text \<open>The place of an entry in the table, split by the code into a sector and an offset, is the byte with that number.\<close>

lemma sector_split:
  fixes a n :: u32 shows "unat (a div n * n) + unat (a mod n) = unat a"
proof -
  have "unat (a div n * n) = unat (a div n) * unat n"
    using unsigned_less[of a, where 'a = nat] by (subst unat_mult_lem[THEN iffD1]) (auto simp: unat_div_distrib intro: le_less_trans[OF div_times_less_eq_dividend])
  then show ?thesis by (simp add: unat_div_distrib unat_mod_distrib)
qed

text \<open>The volume caches a table with these entries, behind which the buffer may go on.\<close>

definition holds_table :: "fat_fs \<Rightarrow> nat list \<Rightarrow> bool" where
  "holds_table v tbl \<longleftrightarrow>
     (fat_type v = FS_FAT12 \<and> (\<forall>x\<in>set tbl. x < 4096) \<and> prefix (fat12_pack tbl) (fat_bitmap v) \<or>
      fat_type v = FS_FAT16 \<and> (\<forall>x\<in>set tbl. x < 65536) \<and> prefix (fat16_pack tbl) (fat_bitmap v))"

lemma length_fat12_pack: "length (fat12_pack tbl) = (3 * length tbl + 1) div 2"
  by (induction tbl rule: fat12_pack.induct) auto

lemma length_fat16_pack: "length (fat16_pack tbl) = 2 * length tbl"
  by (induction tbl rule: fat16_pack.induct) auto

lemma le16_prefix: "prefix xs ys \<Longrightarrow> i + 1 < length xs \<Longrightarrow> le16 ys i = le16 xs i"
  by (rule le16_cong) (auto simp: prefix_def nth_append less_2_cases_iff)

lemma next_cluster_table:
  assumes "holds_table v tbl" "unat c < length tbl"
  shows "unat (next_cluster v c) = tbl ! unat c"
proof (cases "fat_type v = FS_FAT12")
  case True
  let ?o = "ucast c + ucast c div 2 :: u32"
  have o: "unat ?o = unat c + unat c div 2"
    using unsigned_less[of c, where 'a = nat] by (subst unat_add_no_wrap) (simp_all add: unat_div_distrib unat_ucast_up)
  have odd: "(ucast c :: u32) AND 1 \<noteq> 0 \<longleftrightarrow> odd (unat c)"
    using bit_ucast_iff[of c 0, where 'a = 32] bit_unsigned_iff[of c 0, where 'a = nat]
    by (simp add: and_one_eq bit_0 flip: even_iff_mod_2_eq_zero)
  have t: "prefix (fat12_pack tbl) (fat_bitmap v)" "\<forall>x\<in>set tbl. x < 4096" using assms(1) True by (auto simp: holds_table_def)
  show ?thesis
  proof (cases "odd (unat c)")
    case o': True
    then obtain k where k: "unat c = 2 * k + 1" by (metis oddE)
    then have e: "le16 (fat_bitmap v) (3 * k + 1) = le16 (fat12_pack tbl) (3 * k + 1)"
      using assms(2) by (intro le16_prefix[OF t(1)]) (simp add: length_fat12_pack)
    have "unat ?o = 3 * k + 1" using o k by simp
    then show ?thesis using True o' odd e fat12_pack_odd[of k tbl] assms(2) t(2) k
      by (simp add: next_cluster_def fat12_next_cluster_def Let_def sector_split drop_bit_eq_div unat_div_distrib)
  next
    case e': False
    then obtain k where k: "unat c = 2 * k" by (metis evenE)
    then have e: "le16 (fat_bitmap v) (3 * k) = le16 (fat12_pack tbl) (3 * k)"
      using assms(2) by (intro le16_prefix[OF t(1)]) (simp add: length_fat12_pack)
    have "unat ?o = 3 * k" using o k by simp
    then show ?thesis using True e' odd e fat12_pack_even[of k tbl] assms(2) t(2) k
      by (simp add: next_cluster_def fat12_next_cluster_def Let_def sector_split unat_and_4095)
  qed
next
  case False
  then have t: "prefix (fat16_pack tbl) (fat_bitmap v)" "\<forall>x\<in>set tbl. x < 65536" using assms(1) by (auto simp: holds_table_def)
  have o: "unat (ucast c * 2 :: u32) = 2 * unat c"
    using unsigned_less[of c, where 'a = nat] by (subst unat_mult_lem[THEN iffD1]) (simp_all add: unat_ucast_up)
  have "le16 (fat_bitmap v) (2 * unat c) = le16 (fat16_pack tbl) (2 * unat c)"
    using assms(2) by (intro le16_prefix[OF t(1)]) (simp add: length_fat16_pack)
  then show ?thesis using False o fat16_pack_nth[OF assms(2) t(2)]
    by (simp add: next_cluster_def fat16_next_cluster_def Let_def sector_split)
qed

text \<open>The allocation table is decoded correctly. If the cached table is the packed form of the list \<open>tbl\<close> of
  cluster numbers (FAT12: two 12-bit numbers in three bytes; FAT16: two bytes each), then for every cluster of the
  table the next cluster the driver computes is the number the list has there, whatever the sector size.\<close>

theorem fat_next_cluster_decodes:
  assumes "holds_table v tbl" "unat c < length tbl"
  shows "unat (next_cluster v c) = tbl ! unat c"
  using assms by (rule next_cluster_table)

definition sample_fat :: "FileSystemType \<Rightarrow> nat list \<Rightarrow> fat_fs" where
  "sample_fat t tbl = \<lparr>fat_type = t, fat_start_lba = 0,
     fat_params = (bios_params_at (replicate 60 0) 0)\<lparr>bytes_per_sector := 4, sectors_per_cluster := 1, reserved_sectors := 1,
       number_of_fat := 1, rootdir_entries := 0, sectors_per_fat := 2\<rparr>,
     fat_bitmap = (if t = FS_FAT12 then fat12_pack tbl else fat16_pack tbl), fat_rootdir = zero_stat\<rparr>"

lemma sample_holds_table:
  "t \<in> {FS_FAT12, FS_FAT16} \<Longrightarrow> \<forall>x\<in>set tbl. x < 4096 \<Longrightarrow> holds_table (sample_fat t tbl) tbl"
  by (force simp: holds_table_def sample_fat_def)

theorem fat_next_cluster_decodes_witness:
  "unat (next_cluster (sample_fat FS_FAT12 [0xFF0, 0xFFF, 3, 5, 0, 0xFFF]) 3) = 5
    \<and> unat (next_cluster (sample_fat FS_FAT16 [0xFF0, 0xFFF, 3, 5, 0, 0xFFF]) 2) = 3"
  using fat_next_cluster_decodes[OF sample_holds_table, of FS_FAT12 "[0xFF0, 0xFFF, 3, 5, 0, 0xFFF]" 3]
    fat_next_cluster_decodes[OF sample_holds_table, of FS_FAT16 "[0xFF0, 0xFFF, 3, 5, 0, 0xFFF]" 2] by simp

section \<open>Chains\<close>

text \<open>The clusters from \<open>c\<close> to the end mark.\<close>

fun cluster_chain :: "fat_fs \<Rightarrow> u16 \<Rightarrow> u16 list \<Rightarrow> bool" where
  "cluster_chain v c [] \<longleftrightarrow> \<not> ucast c < invalid v"
| "cluster_chain v c (x # xs) \<longleftrightarrow> x = c \<and> ucast c < invalid v \<and> cluster_chain v (next_cluster v c) xs"

lemma cluster_chain_unique: "cluster_chain v c xs \<Longrightarrow> cluster_chain v c ys \<Longrightarrow> xs = ys"
proof (induction xs arbitrary: c ys)
  case Nil
  then show ?case by (cases ys) auto
next
  case (Cons x xs)
  then show ?case by (cases ys) auto
qed

lemma cluster_chain_suffix: "cluster_chain v c (xs @ y # ys) \<Longrightarrow> cluster_chain v y (y # ys)"
  by (induction xs arbitrary: c) auto

text \<open>A chain that ends never comes back to a cluster, hence it is shorter than the table can be.\<close>

lemma cluster_chain_distinct: "cluster_chain v c cs \<Longrightarrow> distinct cs"
proof (induction cs arbitrary: c)
  case (Cons x cs)
  have "x \<notin> set cs"
  proof
    assume "x \<in> set cs"
    then obtain ys zs where cs: "cs = ys @ x # zs" by (meson split_list)
    have c: "cluster_chain v x (x # cs)" using Cons.prems by auto
    then have "cluster_chain v x ((x # ys) @ x # zs)" using cs by simp
    then have "cluster_chain v x (x # zs)" by (rule cluster_chain_suffix)
    then have "cs = zs" using cluster_chain_unique[OF c, of "x # zs"] by simp
    then have "length cs = length (ys @ x # cs)" using cs by simp
    then show False by simp
  qed
  then show ?case using Cons by auto
qed simp

lemma cluster_chain_length: assumes "cluster_chain v c cs" shows "length cs \<le> 65536"
proof -
  have "length cs = card (set cs)" using cluster_chain_distinct[OF assms] by (simp add: distinct_card)
  also have "\<dots> \<le> card (UNIV :: u16 set)" by (rule card_mono) auto
  finally show ?thesis by (simp add: card_word)
qed

lemma actual_size_chain:
  assumes "bps v \<noteq> 0" "cluster_chain v c cs"
  shows "actual_size_loop v c sz = Some (sz + of_nat (length cs) * bps v)"
  using assms(2)
proof (induction cs arbitrary: c sz)
  case Nil
  then show ?case by (subst actual_size_loop.simps) simp
next
  case (Cons x cs)
  then show ?case using assms(1) by (subst actual_size_loop.simps) (simp add: algebra_simps)
qed

lemma actual_size_ends: "actual_size_loop v c sz = Some n \<Longrightarrow> \<exists>cs. cluster_chain v c cs"
proof (rule actual_size_loop.raw_induct[where P = "\<lambda>v c sz n. \<exists>cs. cluster_chain v c cs"])
  fix loop v c sz n
  assume IH: "\<And>v c sz n. loop v c sz = Some n \<Longrightarrow> \<exists>cs. cluster_chain v c cs"
    and eq: "(if ucast c < invalid v then if bps v = 0 then None else loop v (next_cluster v c) (sz + bps v) else Some sz) = Some n"
  show "\<exists>cs. cluster_chain v c cs"
  proof (cases "ucast c < invalid v")
    case True
    then have "loop v (next_cluster v c) (sz + bps v) = Some n" using eq by (auto split: if_splits)
    then obtain cs where "cluster_chain v (next_cluster v c) cs" using IH by blast
    then show ?thesis using True by (intro exI[of _ "c # cs"]) simp
  next
    case False
    then show ?thesis by (intro exI[of _ "[]"]) simp
  qed
qed

text \<open>C30: When the search for the size of a directory ends. For a directory entry that is not the root,
  \<open>fat_calculate_actual_size\<close> returns if and only if the cluster chain of the entry reaches an end mark, and then gives
  the number of clusters times the sector size; on a table with a cycle the kernel hangs.\<close>

theorem fat_actual_size_terminates:
  assumes "bps v \<noteq> 0" "fe_cluster f \<noteq> 0"
  shows "((\<exists>n. fat_calculate_actual_size v f = Some n) \<longleftrightarrow> (\<exists>cs. cluster_chain v (fe_cluster f) cs)) \<and>
    (\<forall>cs. cluster_chain v (fe_cluster f) cs \<longrightarrow>
      fat_calculate_actual_size v f = Some (of_nat (length cs) * bps v) \<and> length cs \<le> 65536 \<and> distinct cs)"
  using assms
  by (auto simp: fat_calculate_actual_size_def actual_size_chain cluster_chain_length cluster_chain_distinct dest: actual_size_ends)

text \<open>A directory entry for the witnesses, with its attributes, first cluster and size.\<close>

definition sample_entry :: "u8 \<Rightarrow> u8 \<Rightarrow> u8 \<Rightarrow> fat_entry" where
  "sample_entry attr cluster sz = [65, 32, 32, 32, 32, 32, 32, 32, 66, 32, 32, attr] @ replicate 14 0 @ [cluster, 0, sz, 0, 0, 0]"

lemma sample_fat_bps: "bps (sample_fat t tbl) = 4" by (simp add: bps_def sample_fat_def)

lemma sample_fat_next: "unat c < 6 \<Longrightarrow>
  next_cluster (sample_fat FS_FAT12 [0xFF0, 0xFFF, 3, 5, 4, 0xFFF]) c = of_nat ([0xFF0, 0xFFF, 3, 5, 4, 0xFFF] ! unat c)"
  using next_cluster_table[OF sample_holds_table, of FS_FAT12 "[0xFF0, 0xFFF, 3, 5, 4, 0xFFF]" c]
  by (simp flip: word_unat_eq_iff add: word_unat_eq_iff) (metis of_nat_unat ucast_id)

lemma sample_fat_no_chain: "\<not> cluster_chain (sample_fat FS_FAT12 [0xFF0, 0xFFF, 3, 5, 4, 0xFFF]) 4 cs"
proof
  assume c: "cluster_chain (sample_fat FS_FAT12 [0xFF0, 0xFFF, 3, 5, 4, 0xFFF]) 4 cs"
  moreover have "(4 :: u32) < invalid (sample_fat FS_FAT12 tbl)" for tbl by (simp add: invalid_def sample_fat_def)
  ultimately obtain ds where "cs = 4 # ds" "cluster_chain (sample_fat FS_FAT12 [0xFF0, 0xFFF, 3, 5, 4, 0xFFF]) 4 ds"
    by (cases cs) (auto simp: sample_fat_next)
  then show False using cluster_chain_unique[OF c, of ds] by simp
qed

theorem fat_actual_size_terminates_witness:
  "fat_calculate_actual_size (sample_fat FS_FAT12 [0xFF0, 0xFFF, 3, 5, 4, 0xFFF]) (sample_entry 0x10 2 0) = Some 12
    \<and> fat_calculate_actual_size (sample_fat FS_FAT12 [0xFF0, 0xFFF, 3, 5, 4, 0xFFF]) (sample_entry 0x10 4 0) = None"
proof -
  let ?v = "sample_fat FS_FAT12 [0xFF0, 0xFFF, 3, 5, 4, 0xFFF]"
  have c: "fe_cluster (sample_entry 0x10 2 0) = 2" "fe_cluster (sample_entry 0x10 4 0) = 4"
    by (simp_all add: fe_cluster_def sample_entry_def le16_def nth_append)
  have "cluster_chain ?v 2 [2, 3, 5]" by (simp add: sample_fat_next) (simp add: invalid_def sample_fat_def)
  then have "fat_calculate_actual_size ?v (sample_entry 0x10 2 0) = Some (of_nat (length [2 :: u16, 3, 5]) * bps ?v)"
    using fat_actual_size_terminates[of ?v "sample_entry 0x10 2 0", unfolded c sample_fat_bps, THEN conjunct2, rule_format, of "[2, 3, 5]"]
    by (simp add: sample_fat_bps del: cluster_chain.simps)
  moreover have "fat_calculate_actual_size ?v (sample_entry 0x10 4 0) = None"
    using fat_actual_size_terminates[of ?v "sample_entry 0x10 4 0"] sample_fat_no_chain by (simp add: c sample_fat_bps)
  ultimately show ?thesis by (simp add: sample_fat_bps)
qed

section \<open>Reading\<close>

text \<open>The bytes of a cluster are those of all its sectors.\<close>

definition cluster_bytes :: "iodriver \<Rightarrow> fat_fs \<Rightarrow> u16 \<Rightarrow> u8 list" where
  "cluster_bytes d v c =
     concat (map (\<lambda>k. sector_bytes d (data_sector v c + of_nat k)) [0..<unat (sectors_per_cluster (fat_params v))])"

definition chain_bytes :: "iodriver \<Rightarrow> fat_fs \<Rightarrow> u16 list \<Rightarrow> u8 list" where
  "chain_bytes d v cs = concat (map (cluster_bytes d v) cs)"

definition one_sector_clusters :: "iodriver \<Rightarrow> fat_fs \<Rightarrow> u16 list \<Rightarrow> bool" where
  "one_sector_clusters d v cs \<longleftrightarrow> bps v \<noteq> 0 \<and> sectors_per_cluster (fat_params v) = 1 \<and>
     (\<forall>c\<in>set cs. readable d (data_sector v c) (unat (bps v)))"

lemma bps_less: "unat (bps v) < 65536"
  using unsigned_less[of "bytes_per_sector (fat_params v)", where 'a = nat] by (simp add: bps_def unat_ucast_up)

lemma cluster_bytes_one:
  "sectors_per_cluster (fat_params v) = 1 \<Longrightarrow> cluster_bytes d v c = sector_bytes d (data_sector v c)"
  by (simp add: cluster_bytes_def)

lemma chain_bytes_simps [simp]:
  "chain_bytes d v [] = []" "chain_bytes d v (c # cs) = cluster_bytes d v c @ chain_bytes d v cs"
  by (simp_all add: chain_bytes_def)

lemma length_chain_bytes: "one_sector_clusters d v cs \<Longrightarrow> length (chain_bytes d v cs) = length cs * unat (bps v)"
  by (induction cs) (auto simp: one_sector_clusters_def cluster_bytes_one dest: readableE(2))

lemma one_sector_clusters_Cons:
  assumes "one_sector_clusters d v (c # cs)"
  shows "one_sector_clusters d v cs" "read_sector d (data_sector v c) = Inr (cluster_bytes d v c)"
    "length (cluster_bytes d v c) = unat (bps v)"
  using assms by (auto simp: one_sector_clusters_def cluster_bytes_one readableE)

lemma fat_read_loop_step:
  assumes "ucast c < invalid v" "count \<noteq> 0" "bps v \<noteq> 0" "read_sector d (data_sector v c) = Inr b"
  shows "fat_read_loop d v offset c count =
    (let to_read = min (bps v) count
     in map_option (map_sum id ((@) (slice b (unat (offset mod bps v)) (unat to_read))))
          (fat_read_loop d v offset (next_cluster v c) (count - to_read)))"
proof -
  let ?r = "if count > bps v then bps v else count"
  have r: "min (bps v) count = ?r" by (auto simp: min_def)
  have "unat (offset mod bps v) < unat (bps v)" using assms(3) by (simp add: unat_mod_distrib unat_gt_0)
  moreover have "unat ?r \<le> unat (bps v)" by (auto simp: word_less_nat_alt)
  ultimately have "unat (offset mod bps v) + unat ?r < 2 ^ 32" using bps_less[of v] by simp
  note chunk = chunk_slice[OF this refl, of b]
  show ?thesis
    unfolding r Let_def by (subst fat_read_loop.simps) (simp only: assms Let_def chunk sum.case simp_thms if_True if_False)
qed

lemma fat_read_loop_0: "fat_read_loop d v offset c 0 = Some (Inr [])"
  by (subst fat_read_loop.simps) simp

lemma fat_read_loop_aligned:
  assumes "cluster_chain v c cs" "one_sector_clusters d v cs" "offset mod bps v = 0" "unat count \<le> length (chain_bytes d v cs)"
  shows "fat_read_loop d v offset c count = Some (Inr (take (unat count) (chain_bytes d v cs)))"
  using assms(1,2,4)
proof (induction cs arbitrary: c count)
  case Nil
  then have "count = 0" by (simp add: unat_eq_0)
  then show ?case by (simp add: fat_read_loop_0)
next
  case (Cons x cs)
  note cl = one_sector_clusters_Cons[OF Cons.prems(2)]
  show ?case
  proof (cases "count = 0")
    case False
    let ?r = "min (bps v) count"
    have r: "unat ?r = min (unat (bps v)) (unat count)" by (simp add: min_def word_le_nat_alt)
    have left: "unat (count - ?r) = unat count - unat (bps v)" by (subst unat_sub) (auto simp: r)
    have "fat_read_loop d v offset (next_cluster v c) (count - ?r) = Some (Inr (take (unat (count - ?r)) (chain_bytes d v cs)))"
      using Cons.prems left cl by (intro Cons.IH) auto
    moreover have "ucast c < invalid v" "bps v \<noteq> 0" "x = c" using Cons.prems by (auto simp: one_sector_clusters_def)
    moreover have "take (min (unat (bps v)) (unat count)) (cluster_bytes d v c) = take (unat count) (cluster_bytes d v c)"
      using cl(3) calculation(4) by (simp add: min_def)
    ultimately show ?thesis
      using False cl(2,3) assms(3) left by (simp add: fat_read_loop_step Let_def r slice_take_drop)
  qed (simp add: fat_read_loop_0)
qed

lemma fat_skip_chain:
  assumes "bps v \<noteq> 0" "cluster_chain v c cs" "unat offset div unat (bps v) < length cs"
  shows "\<exists>c'. fat_skip v c offset = Some (c', offset mod bps v) \<and> cluster_chain v c' (drop (unat offset div unat (bps v)) cs)"
  using assms(2,3)
proof (induction cs arbitrary: c offset)
  case (Cons x cs)
  show ?case
  proof (cases "bps v \<le> offset")
    case True
    let ?o = "offset - bps v" and ?n = "unat (bps v)"
    have o: "unat ?o = unat offset - ?n" using True by (simp add: unat_sub)
    have n: "0 < ?n" "?n \<le> unat offset" using True assms(1) by (simp_all add: unat_gt_0 word_le_nat_alt)
    then have d: "unat offset div ?n = Suc (unat ?o div ?n)" by (simp add: o le_div_geq)
    have m: "?o mod bps v = offset mod bps v"
      using n o by (simp add: word_unat_eq_iff unat_mod_distrib le_mod_geq)
    obtain c' where "fat_skip v (next_cluster v c) ?o = Some (c', ?o mod bps v)" "cluster_chain v c' (drop (unat ?o div ?n) cs)"
      using Cons.IH[of "next_cluster v c" ?o] Cons.prems d by auto
    moreover have "fat_skip v c offset = fat_skip v (next_cluster v c) ?o"
      using True Cons.prems assms(1) by (subst fat_skip.simps) simp
    ultimately show ?thesis using d m by simp
  next
    case False
    then have "offset mod bps v = offset" "unat offset div unat (bps v) = 0"
      by (simp_all add: word_unat_eq_iff unat_mod_distrib word_le_nat_alt)
    then show ?thesis using Cons.prems False by (subst fat_skip.simps) simp
  qed
qed simp

lemma chain_bytes_drop:
  "one_sector_clusters d v cs \<Longrightarrow> chain_bytes d v (drop k cs) = drop (k * unat (bps v)) (chain_bytes d v cs)"
proof (induction cs arbitrary: k)
  case (Cons c cs)
  then show ?case using one_sector_clusters_Cons[OF Cons.prems] by (cases k) auto
qed simp

lemma one_sector_clusters_drop: "one_sector_clusters d v cs \<Longrightarrow> one_sector_clusters d v (drop k cs)"
  using set_drop_subset[of k cs] by (auto simp: one_sector_clusters_def)

text \<open>Both kinds of request the driver serves correctly: a sector boundary, or bytes inside one sector.\<close>

definition well_placed :: "fat_fs \<Rightarrow> u32 \<Rightarrow> u32 \<Rightarrow> bool" where
  "well_placed v offset count \<longleftrightarrow>
     offset mod bps v = 0 \<or> unat (offset mod bps v) + unat count \<le> unat (bps v)"

lemma fat_read_loop_placed:
  assumes "cluster_chain v c cs" "one_sector_clusters d v cs" "well_placed v offset count"
    "unat (offset mod bps v) + unat count \<le> length (chain_bytes d v cs)"
  shows "fat_read_loop d v (offset mod bps v) c count =
    Some (Inr (take (unat count) (drop (unat (offset mod bps v)) (chain_bytes d v cs))))"
proof (cases "offset mod bps v = 0")
  case True
  then show ?thesis using assms fat_read_loop_aligned[of v c cs d 0 count] by simp
next
  case False
  let ?off = "offset mod bps v"
  have fit: "unat ?off + unat count \<le> unat (bps v)" using assms(3) False by (simp add: well_placed_def)
  show ?thesis
  proof (cases "count = 0")
    case c0: False
    obtain cs' where cs: "cs = c # cs'" using assms(1,4) False by (cases cs) (auto simp: unat_eq_0)
    note cl = one_sector_clusters_Cons[OF assms(2)[unfolded cs]]
    have m: "min (bps v) count = count" using fit by (auto simp: min_def word_le_nat_alt word_unat_eq_iff)
    have mm: "?off mod bps v = ?off" by (simp add: word_unat_eq_iff unat_mod_distrib)
    have "fat_read_loop d v ?off c count =
      map_option (map_sum id ((@) (slice (cluster_bytes d v c) (unat ?off) (unat count)))) (Some (Inr []))"
      using assms(1,2) c0 cl(2) cs
      by (subst fat_read_loop_step[where b = "cluster_bytes d v c"])
         (simp_all add: one_sector_clusters_def m mm fat_read_loop_0 Let_def)
    then show ?thesis using cs fit cl(3) by (simp add: slice_take_drop)
  qed (simp add: fat_read_loop_0)
qed

lemma fat_read_slice:
  assumes st: "st_private st \<noteq> NULL" "cluster_chain v (fe_cluster (st_object st)) cs" "one_sector_clusters d v cs"
    and len: "unat (fe_size (st_object st)) \<le> length (chain_bytes d v cs)" "unat offset + unat count < 2 ^ 32"
    and wp: "well_placed v offset count"
  shows "fat_read d v st count offset =
    Some (Inr (take (unat count) (drop (unat offset) (take (unat (fe_size (st_object st))) (chain_bytes d v cs)))))"
proof (cases "fe_size (st_object st) \<le> offset")
  case True
  then show ?thesis using st(1) by (simp add: fat_read_def word_le_nat_alt)
next
  case False
  let ?S = "unat (fe_size (st_object st))" and ?n = "unat (bps v)" and ?B = "chain_bytes d v cs"
  let ?c = "if offset + count > fe_size (st_object st) then fe_size (st_object st) - offset else count"
  let ?k = "unat offset div ?n"
  have S: "unat offset < ?S" using False by (simp add: word_le_nat_alt)
  have c: "unat ?c = min (unat count) (?S - unat offset)"
    using False len(2) by (intro clipped_count) simp_all
  have n: "0 < ?n" "bps v \<noteq> 0" using st(3) by (simp_all add: one_sector_clusters_def unat_gt_0)
  have om: "unat (offset mod bps v) = unat offset mod ?n" by (simp add: unat_mod_distrib)
  have k: "?k < length cs" using S len(1) length_chain_bytes[OF st(3)] by (simp add: div_less_iff_less_mult n(1))
  obtain c' where c': "fat_skip v (fe_cluster (st_object st)) offset = Some (c', offset mod bps v)" "cluster_chain v c' (drop ?k cs)"
    using fat_skip_chain[OF n(2) st(2) k] by blast
  have split: "?k * ?n + unat offset mod ?n = unat offset" by simp
  have "unat (offset mod bps v) + unat ?c \<le> length (chain_bytes d v (drop ?k cs))"
    unfolding c om chain_bytes_drop[OF st(3)] length_drop using S len(1) split by linarith
  moreover have "well_placed v offset ?c" using wp c by (auto simp: well_placed_def)
  ultimately have "fat_read_loop d v (offset mod bps v) c' ?c = Some (Inr (take (unat ?c) (drop (unat offset mod ?n) (drop (?k * ?n) ?B))))"
    using fat_read_loop_placed[OF c'(2) one_sector_clusters_drop[OF st(3)], of offset ?c] om by (simp add: chain_bytes_drop[OF st(3)])
  also have "take (unat ?c) (drop (unat offset mod ?n) (drop (?k * ?n) ?B)) = take (unat count) (drop (unat offset) (take ?S ?B))"
    unfolding c drop_drop using split by (simp add: drop_take add.commute)
  finally show ?thesis using st(1) False c'(1) by (simp add: fat_read_def Let_def)
qed


text \<open>A disk with sectors of four bytes.\<close>

definition sample_disk :: iodriver where
  "sample_disk = \<lparr>device = 0, sector_size = 4, io_size = 64,
     read_sector = (\<lambda>lba. Inr (map (\<lambda>i. 16 * ucast lba + of_nat i) [0..<4]))\<rparr>"

lemma sample_one_sector: "one_sector_clusters sample_disk (sample_fat t tbl) cs"
  by (auto simp: one_sector_clusters_def sample_fat_bps readable_def sample_disk_def) (simp add: sample_fat_def)

lemma sample_fat_chain: "cluster_chain (sample_fat FS_FAT12 [0xFF0, 0xFFF, 3, 5, 4, 0xFFF]) 2 [2, 3, 5]"
  by (simp add: sample_fat_next) (simp add: invalid_def sample_fat_def)

lemma sample_data_sector: "data_sector (sample_fat t tbl) c = ucast c + 1"
  by (simp add: data_sector_def rootdir_sector_def sample_fat_bps) (simp add: sample_fat_def)

lemma sample_chain_bytes:
  "chain_bytes sample_disk (sample_fat t tbl) [2, 3, 5] = [48, 49, 50, 51, 64, 65, 66, 67, 96, 97, 98, 99]"
proof -
  have "sectors_per_cluster (fat_params (sample_fat t tbl)) = 1" by (simp add: sample_fat_def)
  then show ?thesis
    by (simp add: cluster_bytes_one sample_data_sector sector_bytes_def sample_disk_def upt_rec)
qed


section \<open>Directories\<close>

text \<open>The used entries of the root directory, which lies in consecutive sectors, and of a sub-directory, which is read
  block by block, each up to the first free entry.\<close>

definition root_raw :: "iodriver \<Rightarrow> fat_fs \<Rightarrow> nat \<Rightarrow> fat_entry" where
  "root_raw d v k = slice (sector_bytes d (rootdir_sector v + of_nat (32 * k div unat (bps v)))) (32 * k mod unat (bps v)) 32"

definition used_root :: "fat_entry \<Rightarrow> bool" where "used_root e \<longleftrightarrow> e ! 0 \<noteq> 0 \<and> \<not> volume e"

definition root_entries :: "iodriver \<Rightarrow> fat_fs \<Rightarrow> nat \<Rightarrow> fat_entry list" where
  "root_entries d v m = filter used_root (map (root_raw d v) [0..<m])"

definition block_entries :: "u8 list \<Rightarrow> fat_entry list" where
  "block_entries b = takeWhile (\<lambda>e. e ! 0 \<noteq> 0) (map (\<lambda>off. slice b off 32) (entry_offsets (length b)))"

definition sub_entries :: "iodriver \<Rightarrow> fat_fs \<Rightarrow> u16 list \<Rightarrow> fat_entry list" where
  "sub_entries d v cs = concat (map (\<lambda>c. block_entries (cluster_bytes d v c)) cs)"

text \<open>The scan of the root directory from entry \<open>k\<close> on: \<open>io\<close> is the sector of that entry unless a new one begins.\<close>

definition root_pos :: "iodriver \<Rightarrow> fat_fs \<Rightarrow> nat \<Rightarrow> u32 \<Rightarrow> u8 list \<Rightarrow> bool" where
  "root_pos d v k ds io \<longleftrightarrow> (let q = of_nat (32 * k div unat (bps v)) in
     if 32 * k mod unat (bps v) = 0 then ds = rootdir_sector v + q
     else ds = rootdir_sector v + q + 1 \<and> io = sector_bytes d (rootdir_sector v + q))"

lemma div_mod_advance:
  fixes n :: nat assumes "0 < n" "32 dvd n"
  shows "32 * Suc k mod n = 0 \<Longrightarrow> 32 * Suc k div n = Suc (32 * k div n)"
    and "32 * Suc k mod n \<noteq> 0 \<Longrightarrow> 32 * Suc k div n = 32 * k div n"
proof -
  obtain m where n: "n = 32 * m" "0 < m" using assms by auto
  show "32 * Suc k mod n = 0 \<Longrightarrow> 32 * Suc k div n = Suc (32 * k div n)"
    using n by (simp del: mult_Suc_right add: mod_Suc div_Suc split: if_splits)
  show "32 * Suc k mod n \<noteq> 0 \<Longrightarrow> 32 * Suc k div n = 32 * k div n"
    using n by (simp del: mult_Suc_right add: mod_Suc div_Suc split: if_splits)
qed

lemma root_pos_step:
  assumes "root_pos d v k ds io" "bps v \<noteq> 0" "32 dvd unat (bps v)"
    "readable d (rootdir_sector v + of_nat (32 * k div unat (bps v))) n"
  shows "\<exists>b ds'. (if 32 * k mod unat (bps v) = 0 then map_sum id (\<lambda>b. (b, ds + 1)) (read_sector d ds) else Inr (io, ds)) = Inr (b, ds')
    \<and> b = sector_bytes d (rootdir_sector v + of_nat (32 * k div unat (bps v))) \<and> root_pos d v (Suc k) ds' b"
proof -
  have n: "0 < unat (bps v)" using assms(2) by (simp add: unat_gt_0)
  note adv = div_mod_advance[OF n assms(3), of k]
  show ?thesis
    using assms(1,4) adv unfolding root_pos_def Let_def
    by (cases "32 * Suc k mod unat (bps v) = 0"; cases "32 * k mod unat (bps v) = 0")
       (simp_all add: readableE algebra_simps del: mult_Suc_right)
qed

lemma root_scan_entries:
  assumes "bps v \<noteq> 0" "32 dvd unat (bps v)" "\<forall>k<m. readable d (rootdir_sector v + of_nat (32 * k div unat (bps v))) n"
    "root_pos d v k ds io" "k \<le> m" "i \<le> idx"
  shows "root_scan d v (map (\<lambda>k. 32 * k) [k..<m]) ds io i idx
    = nth_entry (filter used_root (map (root_raw d v) [k..<m])) (unat (idx - i))"
  using assms(4-)
proof (induction "m - k" arbitrary: k ds io i)
  case 0
  then show ?case by (simp add: nth_entry_Cons)
next
  case (Suc l)
  then have k: "k < m" by simp
  then obtain b ds' where b: "(if 32 * k mod unat (bps v) = 0 then map_sum id (\<lambda>b. (b, ds + 1)) (read_sector d ds) else Inr (io, ds)) = Inr (b, ds')"
    "b = sector_bytes d (rootdir_sector v + of_nat (32 * k div unat (bps v)))" "root_pos d v (Suc k) ds' b"
    using root_pos_step[OF Suc.prems(1) assms(1,2)] assms(3) by blast
  have raw: "slice b (32 * k mod unat (bps v)) 32 = root_raw d v k" by (simp add: root_raw_def b(2))
  then have u: "b ! (32 * k mod unat (bps v)) = 0 \<or> volume (slice b (32 * k mod unat (bps v)) 32) \<longleftrightarrow> \<not> used_root (root_raw d v k)"
    by (auto simp: used_root_def root_raw_def b(2))
  have IH: "root_scan d v (map (\<lambda>k. 32 * k) [Suc k..<m]) ds' b i' idx
      = nth_entry (filter used_root (map (root_raw d v) [Suc k..<m])) (unat (idx - i'))" if "i' \<le> idx" for i'
    using Suc.hyps(1)[of "Suc k" ds' b i'] Suc.hyps(2) k b(3) that by simp
  have step: "root_scan d v (map (\<lambda>k. 32 * k) [k..<m]) ds io i idx =
      (if \<not> used_root (root_raw d v k) then root_scan d v (map (\<lambda>k. 32 * k) [Suc k..<m]) ds' b i idx
       else if i = idx then Inr (root_raw d v k) else root_scan d v (map (\<lambda>k. 32 * k) [Suc k..<m]) ds' b (i + 1) idx)"
    using k u by (simp add: upt_rec[of k m] b(1) raw Let_def del: upt_Suc)
  show ?case
  proof (cases "i = idx")
    case True
    then show ?thesis using step IH[of i] k by (simp add: upt_rec[of k m] nth_entry_Cons del: upt_Suc)
  next
    case False
    then have "i < idx" using Suc.prems(3) by simp
    moreover have "i + 1 \<le> idx" using \<open>i < idx\<close> inc_le by blast
    ultimately show ?thesis
      using False step IH[of i] IH[of "i + 1"] k Suc.prems(3) unat_diff_step[of i idx]
      by (simp add: upt_rec[of k m] nth_entry_Cons del: upt_Suc)
  qed
qed

lemma block_scan_entries:
  assumes "j \<le> idx"
  shows "block_scan b offs j idx = (let es = takeWhile (\<lambda>e. e ! 0 \<noteq> 0) (map (\<lambda>off. slice b off 32) offs) in
    if unat (idx - j) < length es then Inr (es ! unat (idx - j)) else Inl (j + of_nat (length es)))"
  using assms
proof (induction offs arbitrary: j)
  case (Cons off offs)
  show ?case
  proof (cases "j = idx")
    case False
    then have j: "j < idx" "j + 1 \<le> idx" using Cons.prems by (auto simp: inc_le)
    then show ?thesis using Cons.IH[of "j + 1"] unat_diff_step[OF j(1)] False by (simp add: Let_def add.assoc)
  qed simp
qed (simp add: Let_def)

lemma length_block_entries: "length (block_entries b) \<le> (length b + 31) div 32"
  using length_takeWhile_le[of _ "map (\<lambda>off. slice b off 32) (entry_offsets (length b))"]
  by (simp add: block_entries_def entry_offsets_def)

lemma length_sub_entries:
  "one_sector_clusters d v cs \<Longrightarrow> length (sub_entries d v cs) \<le> length cs * 2048"
proof (induction cs)
  case (Cons c cs)
  have "length (block_entries (cluster_bytes d v c)) \<le> (unat (bps v) + 31) div 32"
    using length_block_entries[of "cluster_bytes d v c"] one_sector_clusters_Cons(3)[OF Cons.prems] by simp
  also have "\<dots> \<le> 2048" using bps_less[of v] by simp
  finally show ?case using Cons one_sector_clusters_Cons(1)[OF Cons.prems] by (simp add: sub_entries_def)
qed (simp add: sub_entries_def)

text \<open>The size of a chain fits into 32 bits.\<close>

lemma cluster_chain_size_bound:
  assumes "cluster_chain v c cs" "k \<le> length cs" shows "k * unat (bps v) + 65535 < 2 ^ 32"
proof -
  have "k * unat (bps v) \<le> 65536 * 65535" using assms cluster_chain_length bps_less[of v] by (intro mult_le_mono) force+
  then show ?thesis by simp
qed

lemma sub_block_read:
  assumes st: "st_private st \<noteq> NULL" "cluster_chain v (fe_cluster (st_object st)) cs" "one_sector_clusters d v cs"
    "fe_size (st_object st) = of_nat (length cs * unat (bps v))" and k: "k < length cs"
  shows "fat_read d v st (bps v) (of_nat (k * unat (bps v))) = Some (Inr (cluster_bytes d v (cs ! k)))"
proof -
  let ?n = "unat (bps v)"
  have sz: "unat (fe_size (st_object st)) = length cs * ?n"
    using cluster_chain_size_bound[OF st(2) order_refl] st(4) by (simp add: unat_of_nat_small del: of_nat_mult)
  have ko: "unat (of_nat (k * ?n) :: u32) = k * ?n"
    using cluster_chain_size_bound[OF st(2), of k] k by (simp add: unat_of_nat_small del: of_nat_mult)
  have "unat (of_nat (k * ?n) mod bps v) = 0" by (simp add: unat_mod_distrib ko del: of_nat_mult)
  then have "well_placed v (of_nat (k * ?n)) (bps v)" by (simp add: well_placed_def unat_eq_0 del: of_nat_mult)
  moreover have "k * ?n + ?n < 2 ^ 32" using cluster_chain_size_bound[OF st(2), of k] k bps_less[of v] by simp
  ultimately have "fat_read d v st (bps v) (of_nat (k * ?n)) =
      Some (Inr (take ?n (drop (k * ?n) (take (length cs * ?n) (chain_bytes d v cs)))))"
    using fat_read_slice[OF st(1-3), of "of_nat (k * ?n)" "bps v"] sz ko length_chain_bytes[OF st(3)] by (simp del: of_nat_mult)
  also have "take (length cs * ?n) (chain_bytes d v cs) = chain_bytes d v cs" using length_chain_bytes[OF st(3)] by simp
  also have "drop (k * ?n) (chain_bytes d v cs) = chain_bytes d v (cs ! k # drop (Suc k) cs)"
    using chain_bytes_drop[OF st(3), of k] k by (simp add: Cons_nth_drop_Suc)
  also have "take ?n (chain_bytes d v (cs ! k # drop (Suc k) cs)) = cluster_bytes d v (cs ! k)"
    using one_sector_clusters_Cons(3)[of d v "cs ! k" "[]"] st(3) k by (simp add: one_sector_clusters_def)
  finally show ?thesis .
qed

lemma sub_scan_entries:
  assumes st: "st_private st \<noteq> NULL" "cluster_chain v (fe_cluster (st_object st)) cs" "one_sector_clusters d v cs"
    "fe_size (st_object st) = of_nat (length cs * unat (bps v))" and "k \<le> length cs" "j \<le> idx"
  shows "sub_scan d v st (of_nat (k * unat (bps v))) j idx = Some (nth_entry (sub_entries d v (drop k cs)) (unat (idx - j)))"
  using assms(5,6)
proof (induction "length cs - k" arbitrary: k j)
  case 0
  then have "fat_read d v st (bps v) (of_nat (k * unat (bps v))) = Some (Inr [])" using st by (simp add: fat_read_def)
  then show ?case using 0 by (subst sub_scan.simps) (simp add: sub_entries_def nth_entry_Cons)
next
  case (Suc l)
  then have k: "k < length cs" by simp
  let ?b = "cluster_bytes d v (cs ! k)" and ?n = "unat (bps v)"
  let ?es = "block_entries ?b"
  have len: "length ?b = ?n" using one_sector_clusters_Cons(3)[of d v "cs ! k" "[]"] st(3) k by (simp add: one_sector_clusters_def)
  then have ne: "?b \<noteq> []" using st(3) by (auto simp: one_sector_clusters_def unat_eq_0)
  have scan: "block_scan ?b (entry_offsets ?n) j idx =
      (if unat (idx - j) < length ?es then Inr (?es ! unat (idx - j)) else Inl (j + of_nat (length ?es)))"
    using block_scan_entries[OF Suc.prems(2), of ?b] by (simp add: block_entries_def len Let_def)
  have ents: "sub_entries d v (drop k cs) = ?es @ sub_entries d v (drop (Suc k) cs)"
    using k by (simp add: sub_entries_def flip: Cons_nth_drop_Suc)
  show ?case
  proof (cases "unat (idx - j) < length ?es")
    case True
    then show ?thesis using sub_block_read[OF st k] ne scan len
      by (subst sub_scan.simps) (simp add: ents nth_entry_def nth_append)
  next
    case False
    let ?j = "j + of_nat (length ?es)"
    have u: "unat (idx - j) = unat idx - unat j" using Suc.prems(2) by (simp add: unat_sub)
    have jj: "unat ?j = unat j + length ?es"
      using False u Suc.prems(2) unat_u32_less[of idx] by (intro unat_add_of_nat) (simp add: word_le_nat_alt)
    then have le: "?j \<le> idx" using False u Suc.prems(2) by (simp add: word_le_nat_alt)
    then have "unat (idx - j) = length ?es + unat (idx - ?j)" using jj u False by (simp add: unat_sub word_le_nat_alt)
    moreover have "sub_scan d v st (of_nat (Suc k * ?n)) ?j idx = Some (nth_entry (sub_entries d v (drop (Suc k) cs)) (unat (idx - ?j)))"
      using Suc.hyps(1)[of "Suc k" ?j] Suc.hyps(2) k le by simp
    ultimately show ?thesis using sub_block_read[OF st k] ne scan len False
      by (subst sub_scan.simps) (simp add: ents nth_entry_append add.commute)
  qed
qed

text \<open>The directories of a volume: \<open>D\<close> gives the cluster chain of each sub-directory, cluster 0 is the root. Every
  directory can be read, and the sub-directories among its entries are directories of the volume again.\<close>

definition entries_of :: "iodriver \<Rightarrow> fat_fs \<Rightarrow> (u16 \<rightharpoonup> u16 list) \<Rightarrow> u16 \<Rightarrow> fat_entry list" where
  "entries_of d v D c = (if c = 0 then root_entries d v (unat (rootdir_entries (fat_params v))) else sub_entries d v (the (D c)))"

definition dir_tree :: "iodriver \<Rightarrow> fat_fs \<Rightarrow> (u16 \<rightharpoonup> u16 list) \<Rightarrow> bool" where
  "dir_tree d v D \<longleftrightarrow> bps v \<noteq> 0 \<and> 32 dvd unat (bps v) \<and>
     (\<forall>k<unat (rootdir_entries (fat_params v)). readable d (rootdir_sector v + of_nat (32 * k div unat (bps v))) (unat (bps v))) \<and>
     (\<forall>c cs. D c = Some cs \<longrightarrow> cluster_chain v c cs \<and> one_sector_clusters d v cs) \<and>
     (\<forall>c\<in>insert 0 (dom D). \<forall>e\<in>set (entries_of d v D c). \<not> fe_device e \<and> (directory e \<longrightarrow> fe_cluster e \<in> insert 0 (dom D)))"

definition fat_dir :: "fat_fs \<Rightarrow> (u16 \<rightharpoonup> u16 list) \<Rightarrow> stat \<Rightarrow> bool" where
  "fat_dir v D st \<longleftrightarrow> st_private st \<noteq> NULL \<and> directory (st_object st) \<and> fe_cluster (st_object st) \<in> insert 0 (dom D) \<and>
     fe_size (st_object st) = (if fe_cluster (st_object st) = 0 then ucast (rootdir_entries (fat_params v)) * 32
       else of_nat (length (the (D (fe_cluster (st_object st)))) * unat (bps v)))"

definition fat_listing :: "iodriver \<Rightarrow> fat_fs \<Rightarrow> (u16 \<rightharpoonup> u16 list) \<Rightarrow> ptr \<Rightarrow> stat \<Rightarrow> (u8 list \<times> stat) list" where
  "fat_listing d v D p st =
     (let f = st_object st; self = (fat_stat_fill d v (st_private st) f)\<lparr>st_ino := ucast (fe_cluster f)\<rparr>
      in (if fe_cluster f = 0 then [([46], self), ([46, 46], self)] else []) @
         map (\<lambda>e. the (fat_found d v p e)) (entries_of d v D (fe_cluster f)))"

lemma nth_set_size: "i < 28 \<Longrightarrow> set_size e n ! i = e ! i"
  by (simp add: set_size_def nth_append)

lemma set_size_fields [simp]:
  "fe_cluster (set_size e n) = fe_cluster e" "fe_attributes (set_size e n) = fe_attributes e" "directory (set_size e n) = directory e"
  "fe_device (set_size e n) = fe_device e" "fe_size (set_size e n) = n"
proof -
  show "fe_cluster (set_size e n) = fe_cluster e" by (simp add: fe_cluster_def le16_def nth_set_size)
  show a: "fe_attributes (set_size e n) = fe_attributes e" by (simp add: fe_attributes_def nth_set_size)
  show "directory (set_size e n) = directory e" "fe_device (set_size e n) = fe_device e" by (simp_all add: directory_def fe_device_def a)
  have "le32 (set_size e n) 28 = le32 (le32_bytes n @ []) 0"
    by (rule le32_cong) (simp add: set_size_def nth_append)
  then show "fe_size (set_size e n) = n" by (simp only: fe_size_def le32_of_bytes)
qed

lemma fat_found_entry:
  assumes "dir_tree d v D" "c \<in> insert 0 (dom D)" "e \<in> set (entries_of d v D c)"
  shows "\<exists>n st. fat_found d v p e = Some (n, st) \<and> st_private st = p \<and> (st_mode st AND S_IFDIR \<noteq> 0 \<longrightarrow> directory e) \<and>
    (directory e \<longrightarrow> p \<noteq> NULL \<longrightarrow> fat_dir v D st)"
proof -
  have e: "\<not> fe_device e" "directory e \<longrightarrow> fe_cluster e \<in> insert 0 (dom D)" using assms by (auto simp: dir_tree_def)
  show ?thesis
  proof (cases "directory e")
    case True
    have b: "bps v \<noteq> 0" and ch: "\<And>cs. D (fe_cluster e) = Some cs \<Longrightarrow> cluster_chain v (fe_cluster e) cs" using assms(1) by (auto simp: dir_tree_def)
    have "fat_calculate_actual_size v e = Some (if fe_cluster e = 0 then ucast (rootdir_entries (fat_params v)) * 32
        else of_nat (length (the (D (fe_cluster e))) * unat (bps v)))"
      using True e(2) ch by (auto simp: fat_calculate_actual_size_def actual_size_chain[OF b])
    then show ?thesis using True e by (auto simp: fat_found_def Let_def fat_stat_fill_def fat_dir_def)
  next
    case False
    have "st_mode (fat_stat_fill d v p e) AND S_IFDIR = 0" using False e(1)
      by (simp add: fat_stat_fill_def bit.conj_disj_distrib2)
    then show ?thesis using False by (auto simp: fat_found_def Let_def fat_stat_fill_def)
  qed
qed

lemma length_entries_of:
  assumes "dir_tree d v D" "c \<in> insert 0 (dom D)"
  shows "length (entries_of d v D c) + 2 < 2 ^ 32"
proof (cases "c = 0")
  case True
  have "length (entries_of d v D c) \<le> unat (rootdir_entries (fat_params v))"
    using True by (simp add: entries_of_def root_entries_def le_trans[OF length_filter_le])
  then show ?thesis using unsigned_less[of "rootdir_entries (fat_params v)", where 'a = nat] by simp
next
  case False
  then obtain cs where "D c = Some cs" "cluster_chain v c cs" "one_sector_clusters d v cs" using assms by (auto simp: dir_tree_def)
  then show ?thesis using False length_sub_entries[of d v cs] cluster_chain_length[of v c cs] by (simp add: entries_of_def)
qed

lemma fat_found_nth:
  assumes "dir_tree d v D" "c \<in> insert 0 (dom D)"
  shows "(case nth_entry (entries_of d v D c) i of Inl e \<Rightarrow> Some (Inl e) | Inr e \<Rightarrow> map_option Inr (fat_found d v p e))
    = Some (nth_entry (map (\<lambda>e. the (fat_found d v p e)) (entries_of d v D c)) i)"
proof (cases "i < length (entries_of d v D c)")
  case True
  then obtain n st where "fat_found d v p (entries_of d v D c ! i) = Some (n, st)"
    using fat_found_entry[OF assms nth_mem] by blast
  then show ?thesis using True by (simp add: nth_entry_def)
qed (simp add: nth_entry_def)

lemma root_scan_all:
  assumes "dir_tree d v D"
  shows "root_scan d v (entry_offsets (unat (ucast (rootdir_entries (fat_params v)) * 32 :: u32))) (rootdir_sector v) [] 0 idx
    = nth_entry (entries_of d v D 0) (unat idx)"
proof -
  let ?r = "unat (rootdir_entries (fat_params v))"
  have "unat (ucast (rootdir_entries (fat_params v)) * 32 :: u32) = ?r * 32"
    using unsigned_less[of "rootdir_entries (fat_params v)", where 'a = nat]
    by (subst unat_mult_lem[THEN iffD1]) (simp_all add: unat_ucast_up)
  moreover have "(?r * 32 + 31) div 32 = ?r" by simp
  ultimately show ?thesis
    using assms root_scan_entries[of v ?r d "unat (bps v)" 0 "rootdir_sector v" "[]" 0 idx]
    by (simp add: dir_tree_def entry_offsets_def entries_of_def root_entries_def root_pos_def)
qed

lemma fat_readdir_nth:
  assumes t: "dir_tree d v D" and st: "fat_dir v D st" and i: "i \<le> length (fat_listing d v D p st)"
  shows "fat_readdir d v p st (of_nat i) = Some (nth_entry (fat_listing d v D p st) i)"
proof -
  let ?c = "fe_cluster (st_object st)"
  have c: "?c \<in> insert 0 (dom D)" "directory (st_object st)" "st_private st \<noteq> NULL" and b: "bps v \<noteq> 0"
    using st t by (auto simp: fat_dir_def dir_tree_def)
  have i32: "i < 2 ^ 32" using i length_entries_of[OF t c(1)] by (auto simp: fat_listing_def Let_def split: if_splits)
  show ?thesis
  proof (cases "?c = 0")
    case True
    consider "i = 0" | "i = 1" | k where "i = k + 2" by (metis Suc_1 add.commute add_2_eq_Suc' le_Suc_ex not_less_eq_eq One_nat_def le_0_eq le_SucE)
    then show ?thesis
    proof cases
      case (3 k)
      then have n0: "(of_nat i :: u32) \<noteq> 0" "(of_nat i :: u32) \<noteq> 1"
        using i32 of_nat_eq_small[of i 0, where 'a = 32] of_nat_eq_small[of i 1, where 'a = 32] by simp_all
      have k: "unat (of_nat i - 2 :: u32) = k" using 3 i32 by (simp add: unat_of_nat_small)
      have sz: "fe_size (st_object st) = ucast (rootdir_entries (fat_params v)) * 32" using st True by (simp add: fat_dir_def)
      have "fat_readdir d v p st (of_nat i) = (case nth_entry (entries_of d v D 0) k of Inl e \<Rightarrow> Some (Inl e)
          | Inr e \<Rightarrow> map_option Inr (fat_found d v p e))"
        using c True n0 b by (simp add: fat_readdir_def Let_def sz root_scan_all[OF t] k)
      also have "\<dots> = Some (nth_entry (fat_listing d v D p st) i)"
        using fat_found_nth[OF t, where c = 0 and i = k and p = p] True 3 by (simp add: fat_listing_def Let_def nth_entry_Cons)
      finally show ?thesis .
    qed (use c True in \<open>simp_all add: fat_readdir_def fat_listing_def Let_def nth_entry_def\<close>)
  next
    case False
    then obtain cs where cs: "D ?c = Some cs" using c(1) by auto
    then have ch: "cluster_chain v ?c cs" "one_sector_clusters d v cs" using t by (auto simp: dir_tree_def)
    have sz: "fe_size (st_object st) = of_nat (length cs * unat (bps v))" using st False cs by (simp add: fat_dir_def)
    have "sub_scan d v st 0 0 (of_nat i) = Some (nth_entry (entries_of d v D ?c) i)"
      using sub_scan_entries[OF c(3) ch sz, of 0 0 "of_nat i"] False cs i32 by (simp add: entries_of_def unat_of_nat_small)
    then have "fat_readdir d v p st (of_nat i) = (case nth_entry (entries_of d v D ?c) i of Inl e \<Rightarrow> Some (Inl e)
          | Inr e \<Rightarrow> map_option Inr (fat_found d v p e))"
      using c False by (simp add: fat_readdir_def Let_def)
    then show ?thesis using fat_found_nth[OF t c(1), where i = i and p = p] False by (simp add: fat_listing_def Let_def)
  qed
qed

text \<open>A mounted volume keeps what \<^verbatim>\<open>Vfs\<close> expects.\<close>

lemma fat_tree_listed:
  assumes "dir_tree d v D" "p \<noteq> NULL" "fs m = fat_filesystem v p" "driver m = d"
  shows "tree_listed (\<lambda>m dir. fat_listing d v D p dir) (\<lambda>m. fat_dir v D) m"
  unfolding tree_listed_def
proof (intro allI impI conjI)
  fix dir assume dir: "fat_dir v D dir"
  let ?c = "fe_cluster (st_object dir)"
  have c: "?c \<in> insert 0 (dom D)" using dir by (simp add: fat_dir_def)
  show "lists m dir (fat_listing d v D p dir)"
    using fat_readdir_nth[OF assms(1) dir] length_entries_of[OF assms(1) c] assms(3,4)
    by (auto simp: lists_def fat_filesystem_def nth_entry_def fat_listing_def Let_def)
  show "\<forall>(n, st)\<in>set (fat_listing d v D p dir). st_mode st AND S_IFDIR \<noteq> 0 \<longrightarrow> fat_dir v D st"
  proof clarify
    fix n st assume "(n, st) \<in> set (fat_listing d v D p dir)" and mode: "st_mode st AND S_IFDIR \<noteq> 0"
    then consider "?c = 0" "st = (fat_stat_fill d v (st_private dir) (st_object dir))\<lparr>st_ino := ucast ?c\<rparr>"
      | e where "e \<in> set (entries_of d v D ?c)" "the (fat_found d v p e) = (n, st)"
      by (auto simp: fat_listing_def Let_def split: if_splits)
    then show "fat_dir v D st"
    proof cases
      case 1
      then show ?thesis using dir by (simp add: fat_dir_def fat_stat_fill_def)
    next
      case (2 e)
      then show ?thesis using fat_found_entry[OF assms(1) c 2(1), of p] mode assms(2) by auto
    qed
  qed
qed

lemma fat_init_root:
  assumes "fat_init d io t lba p0 = Some v" "p0 \<noteq> NULL"
  shows "fat_dir v D (fat_rootdir v)"
proof -
  have e: "fe_cluster (fat_root_entry params) = 0" "directory (fat_root_entry params)"
    "fe_size (fat_root_entry params) = ucast (rootdir_entries params) * 32" for params
  proof -
    show "fe_cluster (fat_root_entry params) = 0" by (simp add: fe_cluster_def fat_root_entry_def le16_def nth_append)
    show "directory (fat_root_entry params)" by (simp add: directory_def fe_attributes_def fat_root_entry_def nth_append bit_iff_odd)
    have "le32 (fat_root_entry params) 28 = le32 (le32_bytes (ucast (rootdir_entries params) * 32) @ []) 0"
      by (rule le32_cong) (simp add: fat_root_entry_def nth_append)
    then show "fe_size (fat_root_entry params) = ucast (rootdir_entries params) * 32" by (simp only: fe_size_def le32_of_bytes)
  qed
  show ?thesis using assms by (auto simp: fat_init_def Let_def fat_dir_def fat_stat_fill_def e split: if_splits)
qed


text \<open>A volume of four sectors of 64 bytes: boot sector, table, root directory with the file \<open>A.BCD\<close>, one data sector.\<close>

definition tiny_sector :: "u32 \<Rightarrow> u8 list" where
  "tiny_sector lba =
     (if lba = 0 then replicate 11 0 @ [64, 0, 1, 1, 0, 1, 2, 0, 0, 0, 0, 1, 0] @ replicate 40 0
      else if lba = 1 then [0xF0, 0xFF, 0xFF, 0xFF, 0x0F] @ replicate 59 0
      else if lba = 2 then [65, 32, 32, 32, 32, 32, 32, 32, 66, 67, 68, 0x20] @ replicate 14 0 @ [2, 0, 5, 0, 0, 0] @ replicate 32 0
      else replicate 64 7)"

definition tiny_disk :: iodriver where
  "tiny_disk = \<lparr>device = 0, sector_size = 64, io_size = 256, read_sector = (\<lambda>lba. Inr (tiny_sector lba))\<rparr>"

definition tiny_fat :: fat_fs where
  "tiny_fat = the (fat_init tiny_disk [] FS_FAT12 0 0x1000)"

lemma tiny_fat_init: "fat_init tiny_disk [] FS_FAT12 0 0x1000 = Some tiny_fat"
proof -
  have "fat_init tiny_disk [] FS_FAT12 0 0x1000 \<noteq> None"
    by (simp add: fat_init_def Let_def bios_params_at_def buffer_after_def tiny_disk_def tiny_sector_def le16_def nth_append)
  then show ?thesis by (auto simp: tiny_fat_def)
qed

lemma tiny_dir_tree: "dir_tree tiny_disk tiny_fat Map.empty"
proof -
  have n: "bps tiny_fat = 64" "rootdir_entries (fat_params tiny_fat) = 2" by code_simp+
  have "length (tiny_sector lba) = 64" for lba by (simp add: tiny_sector_def)
  then have r: "readable tiny_disk lba 64" for lba by (simp add: readable_def tiny_disk_def)
  have "root_entries tiny_disk tiny_fat 2 = [slice (tiny_sector 2) 0 32]" by code_simp
  moreover have "\<not> fe_device (slice (tiny_sector 2) 0 32)" "\<not> directory (slice (tiny_sector 2) 0 32)" by code_simp+
  ultimately show ?thesis using r by (simp add: dir_tree_def n entries_of_def)
qed

definition tiny_file :: stat where
  "tiny_file = (fat_stat_fill tiny_disk tiny_fat 0x2000 (slice (tiny_sector 2) 0 32))\<lparr>st_ino := 2\<rparr>"

lemma tiny_listing: "fat_listing tiny_disk tiny_fat Map.empty 0x2000 (fat_rootdir tiny_fat) =
  [([46], fat_rootdir tiny_fat), ([46, 46], fat_rootdir tiny_fat), ([65, 46, 66, 67, 68], tiny_file)]"
  by code_simp


end
