(* ===== verification/Ext2.thy ===== *)
theory Ext2
  imports Disk
begin

text \<open>
  \<^verbatim>\<open>drivers/fs/ext2.c\<close>: the ext2 file system, read only. Superblock, group descriptors, inodes and directory entries are
  their bytes, as on the disk; an inode is what \<open>st_private\<close> points to. An uninitialised structure is the empty list, so
  that nothing is known of its fields. \<open>None\<close> stands for a division by zero, a panic or a loop that does not end. The
  code divides by the sector size of the driver, which is taken to be positive, and the three tries of a
  deterministic driver give the same result.
\<close>

section \<open>Data\<close>

definition sb_log2_block_size :: "u8 list \<Rightarrow> u32" where "sb_log2_block_size sb = le32 sb 24"
definition sb_inodes_per_group :: "u8 list \<Rightarrow> u32" where "sb_inodes_per_group sb = le32 sb 40"
definition sb_signature :: "u8 list \<Rightarrow> u16" where "sb_signature sb = le16 sb 56"

definition bgd_inode_table_block :: "u8 list \<Rightarrow> u32" where "bgd_inode_table_block g = le32 g 8"

type_synonym ext2_inode = "u8 list"

definition in_type_permission :: "ext2_inode \<Rightarrow> u16" where "in_type_permission f = le16 f 0"
definition in_user_id :: "ext2_inode \<Rightarrow> u16" where "in_user_id f = le16 f 2"
definition in_size :: "ext2_inode \<Rightarrow> u32" where "in_size f = le32 f 4"
definition in_access_time :: "ext2_inode \<Rightarrow> u32" where "in_access_time f = le32 f 8"
definition in_creation_time :: "ext2_inode \<Rightarrow> u32" where "in_creation_time f = le32 f 12"
definition in_modification_time :: "ext2_inode \<Rightarrow> u32" where "in_modification_time f = le32 f 16"
definition in_group_id :: "ext2_inode \<Rightarrow> u16" where "in_group_id f = le16 f 24"
definition in_hard_links :: "ext2_inode \<Rightarrow> u16" where "in_hard_links f = le16 f 26"
definition in_disk_sectors :: "ext2_inode \<Rightarrow> u32" where "in_disk_sectors f = le32 f 28"
definition in_direct :: "ext2_inode \<Rightarrow> u32 list" where "in_direct f = map (\<lambda>i. le32 f (40 + 4 * i)) [0..<12]"
definition in_singly :: "ext2_inode \<Rightarrow> u32" where "in_singly f = le32 f 88"
definition in_doubly :: "ext2_inode \<Rightarrow> u32" where "in_doubly f = le32 f 92"
definition in_triply :: "ext2_inode \<Rightarrow> u32" where "in_triply f = le32 f 96"

abbreviation (input) EXT2_INODE_TYPE_DIRECTORY :: u16 where "EXT2_INODE_TYPE_DIRECTORY \<equiv> 0x4000"
abbreviation (input) EXT2_SIGNATURE :: u16 where "EXT2_SIGNATURE \<equiv> 0xEF53"

record ext2_fs =
  e2_start_lba :: u32
  e2_superblock :: "u8 list"
  e2_rootdir :: stat

definition block_size :: "ext2_fs \<Rightarrow> u32" where
  "block_size v = push_bit (unat (sb_log2_block_size (e2_superblock v))) 1024"

section \<open>Blocks and inodes\<close>

fun read_sectors :: "iodriver \<Rightarrow> u32 \<Rightarrow> nat list \<Rightarrow> u8 list option" where
  "read_sectors d lba [] = Some []"
| "read_sectors d lba (i # is) =
     (case read_sector d (lba + of_nat i) of
        Inl _ \<Rightarrow> None
      | Inr bs \<Rightarrow> map_option ((@) (slice bs 0 (unat (sector_size d)))) (read_sectors d lba is))"

text \<open>\<open>None\<close> is the result \<open>false\<close>.\<close>

definition ext2_read_block :: "iodriver \<Rightarrow> ext2_fs \<Rightarrow> u32 \<Rightarrow> u8 list option" where
  "ext2_read_block d v lba =
     (let ss = unat (sector_size d); n = unat (block_size v)
      in read_sectors d (e2_start_lba v + lba * block_size v div ucast (sector_size d)) [0..<(n + ss - 1) div ss])"

definition ext2_read_bgd :: "iodriver \<Rightarrow> ext2_fs \<Rightarrow> u32 \<Rightarrow> int + u8 list" where
  "ext2_read_bgd d v index =
     (case ext2_read_block d v (if block_size v = 1024 then 2 else 1) of
        None \<Rightarrow> Inl (- EIO)
      | Some block_buffer \<Rightarrow> Inr (slice block_buffer (unat (index * 32)) 32))"

definition ext2_read_inode :: "iodriver \<Rightarrow> ext2_fs \<Rightarrow> u32 \<Rightarrow> (int + ext2_inode) option" where
  "ext2_read_inode d v index =
     (let per_group = sb_inodes_per_group (e2_superblock v)
      in if per_group = 0 \<or> block_size v = 0 then None
         else
           let block_group = (index - 1) div per_group;
               inode_index = (index - 1) mod per_group;
               bgd = (case ext2_read_bgd d v block_group of Inl _ \<Rightarrow> [] | Inr g \<Rightarrow> g);
               block = bgd_inode_table_block bgd + inode_index * 128 div block_size v;
               offset = inode_index * 128 mod block_size v
           in Some (case ext2_read_block d v block of
                      None \<Rightarrow> Inl (- EIO)
                    | Some block_buffer \<Rightarrow> Inr (slice block_buffer (unat offset) 128)))"

definition ext2_stat_fill :: "iodriver \<Rightarrow> ext2_fs \<Rightarrow> ptr \<Rightarrow> ext2_inode \<Rightarrow> stat" where
  "ext2_stat_fill d v p f =
     \<lparr>st_dev = scast (device d), st_ino = 0, st_mode = ucast (in_type_permission f), st_nlink = ucast (in_hard_links f),
      st_uid = ucast (in_user_id f), st_gid = ucast (in_group_id f), st_rdev = 0, st_size = in_size f,
      st_blksize = block_size v, st_blocks = in_disk_sectors f, st_atime = in_access_time f,
      st_mtime = in_modification_time f, st_ctime = in_creation_time f, st_private = p, st_object = f\<rparr>"

text \<open>\<open>Some None\<close>: no ext2 signature, the file system is left without parameters and root directory.\<close>

definition ext2_init :: "iodriver \<Rightarrow> u8 list \<Rightarrow> u32 \<Rightarrow> ptr \<Rightarrow> ext2_fs option option" where
  "ext2_init d io_buffer lba p =
     (let b1 = buffer_after d (lba + 2) io_buffer;
          superblock = (if sector_size d = 512 then slice b1 0 512 @ slice (buffer_after d (lba + 3) b1) 0 512
                        else slice b1 0 1024);
          v = \<lparr>e2_start_lba = lba, e2_superblock = superblock, e2_rootdir = zero_stat\<rparr>
      in if sb_signature superblock \<noteq> EXT2_SIGNATURE then Some None
         else if block_size v < ucast (sector_size d) \<or> sector_size d = 0 \<or> block_size v mod ucast (sector_size d) \<noteq> 0 then None
         else do {
           r \<leftarrow> ext2_read_inode d v 2;
           let f = (case r of Inl _ \<Rightarrow> [] | Inr x \<Rightarrow> x);
           Some (Some (v\<lparr>e2_rootdir := (ext2_stat_fill d v p f)\<lparr>st_ino := 2\<rparr>\<rparr>)) })"

section \<open>Reading files\<close>

text \<open>The loop over block pointers: what was read and how much is left to read. It stops at a pointer that is zero.\<close>

fun read_blocks :: "iodriver \<Rightarrow> ext2_fs \<Rightarrow> u32 \<Rightarrow> u32 list \<Rightarrow> u32 \<Rightarrow> int + u8 list \<times> u32" where
  "read_blocks d v offset [] count = Inr ([], count)"
| "read_blocks d v offset (b # bs) count =
     (if count = 0 \<or> b = 0 then Inr ([], count)
      else case ext2_read_block d v b of
        None \<Rightarrow> Inl (- EIO)
      | Some block_buffer \<Rightarrow>
          let to_read = (if count < block_size v then count else block_size v);
              off = offset mod block_size v;
              len = (if off < to_read then to_read - off else to_read);
              chunk = slice block_buffer (unat off) (unat len) @ slice block_buffer (unat (off + len)) (unat (to_read - len))
          in map_sum id (map_prod ((@) chunk) id) (read_blocks d v offset bs (count - to_read)))"

definition pointers :: "ext2_fs \<Rightarrow> u8 list \<Rightarrow> u32 list" where
  "pointers v block = map (\<lambda>i. le32 block (4 * i)) [0..<unat (block_size v) div 4]"

definition ext2_read_singly_indirect_block_pointer ::
  "iodriver \<Rightarrow> ext2_fs \<Rightarrow> u32 \<Rightarrow> u32 \<Rightarrow> u32 \<Rightarrow> int + u8 list" where
  "ext2_read_singly_indirect_block_pointer d v block_pointer count offset =
     (case ext2_read_block d v block_pointer of
        None \<Rightarrow> Inl (- EIO)
      | Some block \<Rightarrow> map_sum id fst
          (read_blocks d v offset (drop (unat (offset div block_size v div 4)) (pointers v block)) count))"

text \<open>\<open>buf\<close> is what has been read so far.\<close>

definition rest_offset :: "u32 \<Rightarrow> u8 list \<Rightarrow> u32" where
  "rest_offset offset buf = (if offset < of_nat (length buf) then 0 else offset - of_nat (length buf))"

fun singly_loop :: "iodriver \<Rightarrow> ext2_fs \<Rightarrow> u32 \<Rightarrow> u32 list \<Rightarrow> u8 list \<times> u32 \<Rightarrow> int + u8 list \<times> u32" where
  "singly_loop d v offset [] (buf, count) = Inr (buf, count)"
| "singly_loop d v offset (p # ps) (buf, count) =
     (if count = 0 \<or> p = 0 then Inr (buf, count)
      else case ext2_read_singly_indirect_block_pointer d v p count (rest_offset offset buf) of
        Inl e \<Rightarrow> Inl e
      | Inr bs \<Rightarrow> singly_loop d v offset ps (buf @ bs, count - of_nat (length bs)))"

definition read_doubly :: "iodriver \<Rightarrow> ext2_fs \<Rightarrow> u32 \<Rightarrow> u32 \<Rightarrow> u8 list \<times> u32 \<Rightarrow> int + u8 list \<times> u32" where
  "read_doubly d v offset p s =
     (case ext2_read_block d v p of None \<Rightarrow> Inl (- EIO) | Some block \<Rightarrow> singly_loop d v offset (pointers v block) s)"

fun doubly_loop :: "iodriver \<Rightarrow> ext2_fs \<Rightarrow> u32 \<Rightarrow> u32 list \<Rightarrow> u8 list \<times> u32 \<Rightarrow> int + u8 list \<times> u32" where
  "doubly_loop d v offset [] (buf, count) = Inr (buf, count)"
| "doubly_loop d v offset (p # ps) (buf, count) =
     (if count = 0 \<or> p = 0 then Inr (buf, count)
      else case read_doubly d v offset p (buf, count) of
        Inl e \<Rightarrow> Inl e
      | Inr s \<Rightarrow> doubly_loop d v offset ps s)"

definition read_triply :: "iodriver \<Rightarrow> ext2_fs \<Rightarrow> u32 \<Rightarrow> u32 \<Rightarrow> u8 list \<times> u32 \<Rightarrow> int + u8 list \<times> u32" where
  "read_triply d v offset p s =
     (case ext2_read_block d v p of None \<Rightarrow> Inl (- EIO) | Some block \<Rightarrow> doubly_loop d v offset (pointers v block) s)"

text \<open>One level of the pointer tree is read only if bytes are missing and the inode has it.\<close>

definition level :: "u32 \<Rightarrow> (u8 list \<times> u32 \<Rightarrow> int + u8 list \<times> u32) \<Rightarrow> int + u8 list \<times> u32 \<Rightarrow> int + u8 list \<times> u32" where
  "level p f r = (case r of Inl e \<Rightarrow> Inl e | Inr (buf, count) \<Rightarrow> if count \<noteq> 0 \<and> p \<noteq> 0 then f (buf, count) else Inr (buf, count))"

definition ext2_read :: "iodriver \<Rightarrow> ext2_fs \<Rightarrow> stat \<Rightarrow> u32 \<Rightarrow> u32 \<Rightarrow> (int + u8 list) option" where
  "ext2_read d v st count offset =
     (let f = st_object st
      in if st_private st = NULL then Some (Inl (- EBADFD))
         else if offset \<ge> in_size f then Some (Inr [])
         else if block_size v = 0 then None
         else
           let count' = (if offset + count > in_size f then in_size f - offset else count);
               direct = read_blocks d v offset (drop (unat (offset div block_size v)) (in_direct f)) count'
           in Some (map_sum id fst
                (level (in_triply f) (read_triply d v offset (in_triply f))
                  (level (in_doubly f) (read_doubly d v offset (in_doubly f))
                    (level (in_singly f) (singly_loop d v offset [in_singly f]) direct)))))"

definition ext2_write :: "iodriver \<Rightarrow> stat \<Rightarrow> u8 list \<Rightarrow> u32 \<Rightarrow> int" where
  "ext2_write d st buf offset = - EROFS"

section \<open>Directories\<close>

text \<open>An entry is the bytes from its start to the end of the buffer: the structure has room for a name of 256 bytes, of
  which only \<open>name_length\<close> are used. The name ends at a NUL.\<close>

definition de_inode :: "u8 list \<Rightarrow> u32" where "de_inode e = le32 e 0"
definition de_size :: "u8 list \<Rightarrow> u16" where "de_size e = le16 e 4"
definition de_name :: "u8 list \<Rightarrow> u8 list" where
  "de_name e = takeWhile (\<lambda>c. c \<noteq> 0) (slice e 8 (unat (e ! 6)))"

text \<open>The entries of one block: the one asked for, the number of entries passed, or the end of the directory. An entry
  of size 0 keeps the loop in place.\<close>

datatype block_result = Entry "u8 list" | Passed u32 | No_entry

partial_function (option) block_walk :: "ext2_fs \<Rightarrow> u8 list \<Rightarrow> u32 \<Rightarrow> u32 \<Rightarrow> u32 \<Rightarrow> block_result option" where
  "block_walk v block_buffer offset j index =
     (if offset < block_size v then
        let entry = drop (unat offset) block_buffer
        in if de_inode entry = 0 then Some No_entry
           else if j = index then Some (Entry entry)
           else block_walk v block_buffer (offset + ucast (de_size entry)) (j + 1) index
      else Some (Passed j))"

partial_function (option) dir_walk :: "iodriver \<Rightarrow> ext2_fs \<Rightarrow> stat \<Rightarrow> u32 \<Rightarrow> u32 \<Rightarrow> u32 \<Rightarrow> u8 list option option" where
  "dir_walk d v st i j index = do {
     r \<leftarrow> ext2_read d v st (2 * block_size v) i;
     case r of
       Inl _ \<Rightarrow> Some None
     | Inr bs \<Rightarrow>
         if bs = [] then Some None
         else do {
           w \<leftarrow> block_walk v (bs @ replicate (2 * unat (block_size v) - length bs) 0) 0 j index;
           case w of
             Entry e \<Rightarrow> Some (Some e)
           | No_entry \<Rightarrow> Some None
           | Passed j' \<Rightarrow> dir_walk d v st (i + block_size v) j' index } }"

text \<open>\<open>p\<close> is the address of the copy of the inode.\<close>

definition ext2_found :: "iodriver \<Rightarrow> ext2_fs \<Rightarrow> ptr \<Rightarrow> u8 list \<Rightarrow> (int + u8 list \<times> stat) option" where
  "ext2_found d v p e = do {
     r \<leftarrow> ext2_read_inode d v (de_inode e);
     Some (case r of
             Inl _ \<Rightarrow> Inl (- EIO)
           | Inr f \<Rightarrow> Inr (de_name e, (ext2_stat_fill d v p f)\<lparr>st_ino := de_inode e\<rparr>)) }"

definition ext2_readdir :: "iodriver \<Rightarrow> ext2_fs \<Rightarrow> ptr \<Rightarrow> stat \<Rightarrow> u32 \<Rightarrow> (int + u8 list \<times> stat) option" where
  "ext2_readdir d v p st index =
     (if st_private st = NULL then Some (Inl (- EBADFD))
      else if \<not> ISSET_BIT_INT (in_type_permission (st_object st)) EXT2_INODE_TYPE_DIRECTORY then Some (Inl (- ENOTDIR))
      else do {
        w \<leftarrow> dir_walk d v st 0 0 index;
        case w of None \<Rightarrow> Some (Inl (- ENOENT)) | Some e \<Rightarrow> ext2_found d v p e })"

definition ext2_stat :: "iodriver \<Rightarrow> ext2_fs \<Rightarrow> ptr \<Rightarrow> stat \<Rightarrow> u8 list \<Rightarrow> (int + stat option) option" where
  "ext2_stat d v p st path = driver_stat (ext2_readdir d v p) same_name (e2_rootdir v) st path"

definition ext2_filesystem :: "ext2_fs \<Rightarrow> ptr \<Rightarrow> filesystem" where
  "ext2_filesystem v p = \<lparr>fs_type = FS_EXT2, start_lba = e2_start_lba v, fs_name = [101, 120, 116, 50],
     fs_rootdir = e2_rootdir v, case_sensitive = True, fs_read = (\<lambda>d st count offset. ext2_read d v st count offset),
     fs_write = ext2_write, readdir = (\<lambda>d st index. ext2_readdir d v p st index)\<rparr>"

declare block_walk.simps [code] dir_walk.simps [code]

end
