(* ===== verification/Ext2_Laws.thy ===== *)
theory Ext2_Laws
  imports Ext2 Vfs_Laws "HOL-Library.Sublist"
begin

text \<open>
  A file is the concatenation of the blocks its pointer tree names; reads refine slices of it. Inodes are found where
  the format puts them, and directories are enumerated as \<^verbatim>\<open>Vfs\<close> expects.
\<close>

section \<open>Blocks\<close>

definition block_bytes :: "iodriver \<Rightarrow> ext2_fs \<Rightarrow> u32 \<Rightarrow> u8 list" where
  "block_bytes d v b = (case ext2_read_block d v b of None \<Rightarrow> [] | Some x \<Rightarrow> x)"

text \<open>A volume whose blocks can all be read, of a size the format allows.\<close>

definition healthy :: "iodriver \<Rightarrow> ext2_fs \<Rightarrow> bool" where
  "healthy d v \<longleftrightarrow> block_size v \<noteq> 0 \<and> unat (block_size v) \<le> 65536 \<and> (\<forall>b. ext2_read_block d v b = Some (block_bytes d v b) \<and>
     length (block_bytes d v b) = unat (block_size v))"

lemma healthyD:
  assumes "healthy d v"
  shows "block_size v \<noteq> 0" "0 < unat (block_size v)" "ext2_read_block d v b = Some (block_bytes d v b)"
    "length (block_bytes d v b) = unat (block_size v)" "unat (block_size v) \<le> 65536"
  using assms by (simp_all add: healthy_def unat_gt_0)

section \<open>Reading\<close>

text \<open>A step of a read appends the first bytes of \<open>X\<close>, as many as are asked for, and counts them.\<close>

definition taken :: "u32 \<Rightarrow> u8 list \<Rightarrow> u8 list" where "taken count X = take (unat count) X"
definition left :: "u32 \<Rightarrow> u8 list \<Rightarrow> u32" where "left count X = count - of_nat (length (taken count X))"

definition reads :: "(u8 list \<times> u32 \<Rightarrow> int + u8 list \<times> u32) \<Rightarrow> u8 list \<Rightarrow> bool" where
  "reads f X \<longleftrightarrow> (\<forall>buf count. f (buf, count) = Inr (buf @ taken count X, left count X))"

lemma unat_left: "unat (left count X) = unat count - length X"
proof -
  have l: "length (taken count X) = min (length X) (unat count)" by (simp add: taken_def)
  then have "unat (of_nat (length (taken count X)) :: u32) = length (taken count X)"
    using unat_u32_less[of count] by (intro unat_of_nat_small) simp
  then show ?thesis using l by (simp add: left_def unat_sub word_le_nat_alt)
qed

lemma taken_append: "taken count (X @ Y) = taken count X @ taken (left count X) Y"
  by (simp add: taken_def unat_left)

lemma left_append: "left count (X @ Y) = left (left count X) Y"
  by (simp add: word_unat_eq_iff unat_left)

lemma taken_left_Nil [simp]: "taken count [] = []" "left count [] = count" "taken 0 X = []" "left 0 X = 0"
  by (simp_all add: taken_def left_def)

lemma left_0_taken: "left count X = 0 \<Longrightarrow> taken count (X @ Y) = taken count X"
  by (simp add: taken_append)

lemma reads_seq:
  assumes "reads f X" "reads g Y"
  shows "reads (\<lambda>s. case f s of Inl e \<Rightarrow> Inl e | Inr s' \<Rightarrow> g s') (X @ Y)"
  using assms by (simp add: reads_def taken_append left_append)

lemma reads_level:
  assumes "reads f X" "r = Inr (buf, count)"
  shows "level p f r = Inr (buf @ taken count (if p = 0 then [] else X), left count (if p = 0 then [] else X))"
  using assms by (auto simp: level_def reads_def)

text \<open>The loops over pointers read what the pointers before the first zero stand for.\<close>

definition named :: "(u32 \<Rightarrow> u8 list) \<Rightarrow> u32 list \<Rightarrow> u8 list" where
  "named g ps = concat (map g (takeWhile (\<lambda>p. p \<noteq> 0) ps))"

lemma named_Cons: "named g (p # ps) = (if p = 0 then [] else g p @ named g ps)" "named g [] = []"
  by (simp_all add: named_def)

lemma read_blocks_aligned:
  assumes h: "healthy d v" and al: "offset mod block_size v = 0"
  shows "read_blocks d v offset ps count = Inr (taken count (named (block_bytes d v) ps),
    left count (named (block_bytes d v) ps))"
proof (induction ps arbitrary: count)
  case (Cons b ps)
  let ?X = "block_bytes d v b" and ?Y = "named (block_bytes d v) ps" and ?n = "block_size v"
  note b = healthyD[OF h]
  show ?case
  proof (cases "count = 0 \<or> b = 0")
    case False
    let ?r = "if count < ?n then count else ?n"
    have r: "unat ?r = min (unat ?n) (unat count)" by (auto simp: min_def word_less_nat_alt)
    have chunk: "slice ?X (unat 0) (unat ?r) = taken count ?X"
      using b(4)[of b] r by (simp add: slice_take_drop taken_def min.commute) (metis min.commute take_all_iff min_def nat_le_linear)
    have "count - ?r = left count ?X"
      by (simp only: word_unat_eq_iff unat_left b(4)) (auto simp: unat_sub word_less_nat_alt word_le_nat_alt)
    then show ?thesis
      using False b(3)[of b] chunk_slice[of 0 ?r "if 0 < ?r then ?r - 0 else ?r" ?X] al Cons.IH[of "left count ?X"] chunk
      by (simp add: named_def Let_def taken_append left_append)
  qed (auto simp: named_def)
qed (simp add: named_def)

text \<open>The bytes a pointer of a level stands for: a data block, or what the pointers in the block name.\<close>

fun level_bytes :: "iodriver \<Rightarrow> ext2_fs \<Rightarrow> nat \<Rightarrow> u32 \<Rightarrow> u8 list" where
  "level_bytes d v 0 p = block_bytes d v p"
| "level_bytes d v (Suc l) p = named (level_bytes d v l) (pointers v (block_bytes d v p))"

abbreviation (input) singly_bytes :: "iodriver \<Rightarrow> ext2_fs \<Rightarrow> u32 \<Rightarrow> u8 list" where "singly_bytes d v \<equiv> level_bytes d v (Suc 0)"
abbreviation (input) doubly_bytes :: "iodriver \<Rightarrow> ext2_fs \<Rightarrow> u32 \<Rightarrow> u8 list" where "doubly_bytes d v \<equiv> level_bytes d v (Suc (Suc 0))"
abbreviation (input) triply_bytes :: "iodriver \<Rightarrow> ext2_fs \<Rightarrow> u32 \<Rightarrow> u8 list" where "triply_bytes d v \<equiv> level_bytes d v (Suc (Suc (Suc 0)))"

lemma level_bytes_0: "level_bytes d v 0 = block_bytes d v" by (simp add: fun_eq_iff)

lemma rest_offset_0 [simp]: "rest_offset 0 buf = 0"
  by (auto simp: rest_offset_def word_gt_0)

lemma singly_loop_reads:
  assumes h: "healthy d v" shows "reads (singly_loop d v 0 ps) (named (singly_bytes d v) ps)"
  unfolding reads_def
proof (induction ps)
  case (Cons p ps)
  have "ext2_read_singly_indirect_block_pointer d v p count 0 = Inr (taken count (singly_bytes d v p))" for count
    using healthyD(3)[OF h, of p] read_blocks_aligned[OF h, of 0]
    by (simp add: ext2_read_singly_indirect_block_pointer_def level_bytes_0)
  then show ?case using Cons by (simp add: named_Cons taken_append left_append flip: left_def del: level_bytes.simps)
qed (simp add: named_Cons)

lemma read_doubly_reads: "healthy d v \<Longrightarrow> reads (read_doubly d v 0 p) (doubly_bytes d v p)"
  using singly_loop_reads[of d v "pointers v (block_bytes d v p)"]
  by (simp add: reads_def read_doubly_def healthyD(3))

lemma doubly_loop_reads:
  assumes h: "healthy d v" shows "reads (doubly_loop d v 0 ps) (named (doubly_bytes d v) ps)"
  unfolding reads_def
proof (induction ps)
  case (Cons p ps)
  then show ?case using read_doubly_reads[OF h, of p] by (simp add: reads_def named_Cons taken_append left_append del: level_bytes.simps)
qed (simp add: named_Cons)

lemma read_triply_reads: "healthy d v \<Longrightarrow> reads (read_triply d v 0 p) (triply_bytes d v p)"
  using doubly_loop_reads[of d v "pointers v (block_bytes d v p)"]
  by (simp add: reads_def read_triply_def healthyD(3))

text \<open>All bytes the driver finds for an inode, in their order.\<close>

definition stored :: "iodriver \<Rightarrow> ext2_fs \<Rightarrow> ext2_inode \<Rightarrow> u8 list" where
  "stored d v f = named (block_bytes d v) (in_direct f) @ named (singly_bytes d v) [in_singly f]
     @ named (doubly_bytes d v) [in_doubly f] @ named (triply_bytes d v) [in_triply f]"

lemma ext2_read_levels:
  assumes h: "healthy d v"
  shows "level (in_triply f) (read_triply d v 0 (in_triply f))
      (level (in_doubly f) (read_doubly d v 0 (in_doubly f))
        (level (in_singly f) (singly_loop d v 0 [in_singly f]) (read_blocks d v 0 (in_direct f) count)))
    = Inr (taken count (stored d v f), left count (stored d v f))"
  using read_blocks_aligned[OF h, of 0 "in_direct f" count] singly_loop_reads[OF h, of "[in_singly f]"]
    read_doubly_reads[OF h, of "in_doubly f"] read_triply_reads[OF h, of "in_triply f"]
  by (simp add: reads_level[where f = "singly_loop d v 0 [in_singly f]"] reads_level[where f = "read_doubly d v 0 (in_doubly f)"]
      reads_level[where f = "read_triply d v 0 (in_triply f)"] stored_def taken_append left_append named_Cons del: level_bytes.simps)

lemma ext2_read_whole:
  assumes "healthy d v" "st_private st \<noteq> NULL"
  shows "ext2_read d v st count 0 = Some (Inr (take (unat count) (take (unat (in_size (st_object st))) (stored d v (st_object st)))))"
proof (cases "in_size (st_object st) = 0")
  case False
  let ?S = "in_size (st_object st)"
  have "unat (if count > ?S then ?S else count) = min (unat count) (unat ?S)"
    by (auto simp: word_less_nat_alt)
  then show ?thesis
    using ext2_read_levels[OF assms(1), of "st_object st"] assms(2) healthyD(1)[OF assms(1)] False
    by (cases "count > ?S") (simp_all add: ext2_read_def Let_def taken_def)
qed (use assms in \<open>simp add: ext2_read_def\<close>)

section \<open>The file a pointer tree describes\<close>

text \<open>The data blocks of an inode in the order of the format, a missing pointer as 0.\<close>

fun tree_pointers :: "iodriver \<Rightarrow> ext2_fs \<Rightarrow> nat \<Rightarrow> u32 \<Rightarrow> u32 list" where
  "tree_pointers d v 0 p = [p]"
| "tree_pointers d v (Suc l) p = (if p = 0 then [0] else concat (map (tree_pointers d v l) (pointers v (block_bytes d v p))))"

definition file_pointers :: "iodriver \<Rightarrow> ext2_fs \<Rightarrow> ext2_inode \<Rightarrow> u32 list" where
  "file_pointers d v f = in_direct f @ tree_pointers d v 1 (in_singly f) @ tree_pointers d v 2 (in_doubly f)
     @ tree_pointers d v 3 (in_triply f)"

definition file_bytes :: "iodriver \<Rightarrow> ext2_fs \<Rightarrow> ext2_inode \<Rightarrow> u8 list" where
  "file_bytes d v f = take (unat (in_size f)) (concat (map (block_bytes d v) (file_pointers d v f)))"

text \<open>Enough blocks, and none missing: the file has no holes.\<close>

definition complete :: "iodriver \<Rightarrow> ext2_fs \<Rightarrow> ext2_inode \<Rightarrow> bool" where
  "complete d v f \<longleftrightarrow> (\<exists>k\<le>length (file_pointers d v f). unat (in_size f) \<le> k * unat (block_size v) \<and>
     0 \<notin> set (take k (file_pointers d v f)))"

definition agrees :: "iodriver \<Rightarrow> ext2_fs \<Rightarrow> u32 list \<Rightarrow> u8 list \<Rightarrow> bool" where
  "agrees d v ps X \<longleftrightarrow> (if 0 \<in> set ps then prefix (named (block_bytes d v) ps) X else X = named (block_bytes d v) ps)"

lemma named_append: "named g (ps @ qs) = named g ps @ (if 0 \<in> set ps then [] else named g qs)"
  by (induction ps) (auto simp: named_Cons)

lemma named_no_zero: "0 \<notin> set ps \<Longrightarrow> named g ps = concat (map g ps)"
  by (induction ps) (auto simp: named_Cons)

lemma agrees_append: "agrees d v ps X \<Longrightarrow> agrees d v qs Y \<Longrightarrow> agrees d v (ps @ qs) (X @ Y)"
  by (auto simp: agrees_def named_append split: if_splits)

lemma agrees_tree:
  "(p \<noteq> 0 \<longrightarrow> agrees d v (tree_pointers d v l p) (level_bytes d v l p)) \<and>
   agrees d v (concat (map (tree_pointers d v l) ps)) (named (level_bytes d v l) ps)"
proof (induction l arbitrary: p ps)
  case 0
  have "agrees d v (map id ps) (named (block_bytes d v) ps)" by (simp add: agrees_def)
  then show ?case by (simp add: agrees_def named_Cons level_bytes_0) 
next
  case (Suc l)
  have p: "agrees d v (tree_pointers d v (Suc l) p) (level_bytes d v (Suc l) p)" if "p \<noteq> 0" for p
    using Suc[THEN conjunct2, of "pointers v (block_bytes d v p)"] that by simp
  have "agrees d v (concat (map (tree_pointers d v (Suc l)) ps)) (named (level_bytes d v (Suc l)) ps)"
  proof (induction ps)
    case (Cons q ps)
    show ?case
    proof (cases "q = 0")
      case True
      then show ?thesis by (simp add: agrees_def named_Cons)
    next
      case False
      then show ?thesis using agrees_append[OF p[OF False] Cons.IH] by (simp add: named_Cons del: tree_pointers.simps level_bytes.simps)
    qed
  qed (simp add: agrees_def named_Cons)
  then show ?case using p by blast
qed

lemma agrees_stored: "agrees d v (file_pointers d v f) (stored d v f)"
proof -
  have direct: "agrees d v (in_direct f) (named (block_bytes d v) (in_direct f))" by (simp add: agrees_def)
  have tree: "agrees d v (tree_pointers d v l p) (named (level_bytes d v l) [p])" for l p
    using agrees_tree[of _ d v l "[p]"] by simp
  show ?thesis
    unfolding stored_def file_pointers_def numeral_2_eq_2 numeral_3_eq_3 One_nat_def
    by (intro agrees_append direct tree)
qed

lemma stored_file:
  assumes "healthy d v" "complete d v f"
  shows "take (unat (in_size f)) (stored d v f) = file_bytes d v f"
proof -
  let ?ps = "file_pointers d v f" and ?n = "unat (block_size v)" and ?g = "block_bytes d v"
  obtain k where k: "k \<le> length ?ps" "unat (in_size f) \<le> k * ?n" "0 \<notin> set (take k ?ps)"
    using assms(2) by (auto simp: complete_def)
  have len: "length (concat (map ?g qs)) = length qs * ?n" for qs by (induction qs) (simp_all add: healthyD(4)[OF assms(1)])
  have "named ?g ?ps = named ?g (take k ?ps @ drop k ?ps)" by simp
  also have "\<dots> = concat (map ?g (take k ?ps)) @ named ?g (drop k ?ps)"
    unfolding named_append using k(3) by (simp add: named_no_zero)
  finally have "prefix (concat (map ?g (take k ?ps))) (stored d v f)"
    using agrees_stored[of d v f] by (auto simp: agrees_def prefix_def split: if_splits)
  moreover have "concat (map ?g ?ps) = concat (map ?g (take k ?ps)) @ concat (map ?g (drop k ?ps))"
    by (simp flip: concat_append map_append)
  ultimately show ?thesis using k len[of "take k ?ps"] by (auto simp: file_bytes_def prefix_def)
qed

lemma length_blocks: "healthy d v \<Longrightarrow> length (concat (map (block_bytes d v) qs)) = length qs * unat (block_size v)"
  by (induction qs) (simp_all add: healthyD(4))

lemma drop_blocks:
  assumes "healthy d v"
  shows "concat (map (block_bytes d v) (drop k qs)) = drop (k * unat (block_size v)) (concat (map (block_bytes d v) qs))"
proof (induction qs arbitrary: k)
  case (Cons q qs)
  then show ?case by (cases k) (simp_all add: healthyD(4)[OF assms])
qed simp

lemma length_in_direct [simp]: "length (in_direct f) = 12"
  by (simp add: in_direct_def)

text \<open>The direct blocks that a part of the file lies in.\<close>

lemma direct_part:
  assumes "complete d v f" "a \<le> unat (in_size f)" "a \<le> 12 * unat (block_size v)"
  obtains m where "m \<le> 12" "a \<le> m * unat (block_size v)" "0 \<notin> set (take m (in_direct f))"
    "take m (file_pointers d v f) = take m (in_direct f)"
proof -
  obtain k where k: "unat (in_size f) \<le> k * unat (block_size v)" "0 \<notin> set (take k (file_pointers d v f))"
    using assms(1) by (auto simp: complete_def)
  have t: "take (min k 12) (file_pointers d v f) = take (min k 12) (in_direct f)" by (simp add: file_pointers_def)
  moreover have "set (take (min k 12) (file_pointers d v f)) \<subseteq> set (take k (file_pointers d v f))" by (rule set_take_subset_set_take) simp
  ultimately have "0 \<notin> set (take (min k 12) (in_direct f))" using k(2) by auto
  moreover have "a \<le> min k 12 * unat (block_size v)" using assms(2,3) k(1) by (simp add: min_def)
  ultimately show ?thesis using that[of "min k 12"] t by simp
qed

lemma ext2_read_part:
  assumes h: "healthy d v" and st: "st_private st \<noteq> NULL" "f = st_object st" "complete d v f"
    and al: "offset mod block_size v = 0" "unat offset + unat count < 2 ^ 32"
    and direct: "min (unat offset + unat count) (unat (in_size f)) \<le> 12 * unat (block_size v)"
  shows "ext2_read d v st count offset = Some (Inr (take (unat count) (drop (unat offset) (file_bytes d v f))))"
proof (cases "in_size f \<le> offset")
  case True
  then show ?thesis using st by (simp add: ext2_read_def file_bytes_def word_le_nat_alt)
next
  case False
  let ?S = "unat (in_size f)" and ?n = "unat (block_size v)" and ?g = "block_bytes d v" and ?o = "unat offset"
  let ?c = "if offset + count > in_size f then in_size f - offset else count"
  have o: "?o < ?S" using False by (simp add: word_le_nat_alt)
  have c: "unat ?c = min (unat count) (?S - ?o)"
    using o al(2) by (auto simp: unat_sub word_le_nat_alt word_less_nat_alt unat_add_no_wrap)
  then have e: "?o + unat ?c = min (?o + unat count) ?S" using o by simp
  obtain m where m: "m \<le> 12" "?o + unat ?c \<le> m * ?n" "0 \<notin> set (take m (in_direct f))"
      "take m (file_pointers d v f) = take m (in_direct f)"
    using direct_part[OF st(3), of "?o + unat ?c"] direct e by (metis min.cobounded2)
  let ?k = "?o div ?n" and ?A = "concat (map ?g (take m (in_direct f)))"
  have ko: "?k * ?n = ?o" using al(1) div_mult_mod_eq[of ?o ?n] by (simp add: word_unat_eq_iff unat_mod_distrib)
  have km: "?k \<le> m" using m(2) ko healthyD(2)[OF h] by (metis add_leD1 mult_le_cancel2)
  have lenA: "length ?A = m * ?n" using length_blocks[OF h] m(1) by simp
  have nz: "0 \<notin> set (drop ?k (take m (in_direct f)))" using m(3) set_drop_subset by fastforce
  have "drop ?k (in_direct f) = drop ?k (take m (in_direct f)) @ drop m (in_direct f)"
    using km m(1) by (metis append_take_drop_id drop_append drop_take length_take length_in_direct diff_is_0_eq drop_0 min.absorb2)
  then have "named ?g (drop ?k (in_direct f)) = drop ?o ?A @ named ?g (drop m (in_direct f))"
    using nz drop_blocks[OF h, of ?k "take m (in_direct f)"] ko by (simp only: named_append) (simp add: named_no_zero)
  then have r: "read_blocks d v offset (drop ?k (in_direct f)) ?c = Inr (take (unat ?c) (drop ?o ?A), 0)"
    using read_blocks_aligned[OF h al(1)] lenA m(2) by (simp add: taken_def word_unat_eq_iff unat_left)
  have "concat (map ?g (file_pointers d v f)) = ?A @ concat (map ?g (drop m (file_pointers d v f)))"
    using m(4) by (metis append_take_drop_id concat_append map_append)
  then have "take (unat count) (drop ?o (file_bytes d v f)) = take (unat ?c) (drop ?o ?A)"
    unfolding file_bytes_def c using part_of_prefix[of ?o "unat count" ?S ?A] lenA m(2) c by simp
  then show ?thesis
    using st(1) healthyD(1)[OF h] False r by (simp add: ext2_read_def st(2)[symmetric] Let_def level_def unat_div_distrib)
qed

section \<open>Inodes\<close>

text \<open>The inode table of a block group is the run of blocks that starts where the group descriptor says.\<close>

definition inode_table :: "iodriver \<Rightarrow> ext2_fs \<Rightarrow> u32 \<Rightarrow> nat \<Rightarrow> u8 list" where
  "inode_table d v g k = concat (map (block_bytes d v)
     (map (\<lambda>i. le32 (block_bytes d v (if block_size v = 1024 then 2 else 1)) (32 * unat g + 8) + of_nat i) [0..<k]))"

lemma slice_in_blocks:
  assumes "healthy d v" "q < length ps" "a + m \<le> unat (block_size v)"
  shows "slice (concat (map (block_bytes d v) ps)) (q * unat (block_size v) + a) m = slice (block_bytes d v (ps ! q)) a m"
proof -
  let ?n = "unat (block_size v)" and ?C = "concat (map (block_bytes d v) ps)"
  have dr: "drop (q * ?n) ?C = block_bytes d v (ps ! q) @ concat (map (block_bytes d v) (drop (Suc q) ps))"
    using drop_blocks[OF assms(1), of q ps] assms(2) by (simp flip: Cons_nth_drop_Suc)
  have "q * ?n \<le> length ?C" using length_blocks[OF assms(1), of ps] assms(2) by simp
  then have "?C ! (q * ?n + x) = drop (q * ?n) ?C ! x" for x by simp
  then have "?C ! (q * ?n + (a + i)) = block_bytes d v (ps ! q) ! (a + i)" if "i < m" for i
    using that assms(3) healthyD(4)[OF assms(1), of "ps ! q"] by (simp add: dr nth_append)
  then show ?thesis by (simp add: slice_def add.assoc)
qed

lemma read_inode_healthy:
  assumes "healthy d v" "sb_inodes_per_group (e2_superblock v) \<noteq> 0"
  shows "\<exists>f. ext2_read_inode d v i = Some (Inr f)"
  using assms healthyD(1,3)[OF assms(1)] by (simp add: ext2_read_inode_def Let_def)

lemma inode_in_table:
  assumes h: "healthy d v" and g: "128 dvd unat (block_size v)" "0 < unat n"
    and per: "per = unat (sb_inodes_per_group (e2_superblock v))" "0 < per" "per < 2 ^ 25"
    and grp: "32 * ((unat n - 1) div per) + 32 \<le> unat (block_size v)"
    and k: "(unat n - 1) mod per * 128 + 128 \<le> k * unat (block_size v)"
  shows "ext2_read_inode d v n =
    Some (Inr (slice (inode_table d v (of_nat ((unat n - 1) div per)) k) ((unat n - 1) mod per * 128) 128))"
proof -
  let ?bs = "unat (block_size v)" and ?x = "(unat n - 1) mod per" and ?g = "(unat n - 1) div per"
  let ?ipg = "sb_inodes_per_group (e2_superblock v)" and ?G = "block_bytes d v (if block_size v = 1024 then 2 else 1)"
  have n1: "unat (n - 1) = unat n - 1" using g(2) by (intro unat_minus_one) auto
  have x: "unat ((n - 1) mod ?ipg) = ?x" and gr: "unat ((n - 1) div ?ipg) = ?g"
    using per(1) by (simp_all add: unat_mod_distrib unat_div_distrib n1)
  have "?x < per" using per(2) by simp
  then have x128: "unat ((n - 1) mod ?ipg * 128) = ?x * 128"
    using per(3) x by (subst unat_mult_lem[THEN iffD1]) simp_all
  have g32: "unat ((n - 1) div ?ipg * 32) = 32 * ?g"
    using grp gr unat_u32_less[of "block_size v"] by (subst unat_mult_lem[THEN iffD1]) simp_all
  have gw: "unat (of_nat ?g :: u32) = ?g" using gr by (metis unat_of_nat_small unsigned_less)
  have tab: "bgd_inode_table_block (slice G a 32) = le32 G (a + 8)" for G a
    unfolding bgd_inode_table_block_def by (rule le32_cong) (simp add: add.assoc)
  obtain m where m: "?bs = 128 * m" using g(1) by blast
  have bs0: "0 < ?bs" using healthyD(2)[OF h] .
  have "?x * 128 mod ?bs = 128 * (?x mod m)" by (metis m mult.commute mult_mod_right)
  moreover have "?x mod m < m" using m bs0 by simp
  ultimately have off: "?x * 128 mod ?bs + 128 \<le> ?bs" using m by linarith
  have q: "?x * 128 div ?bs < k" using k bs0 by (simp add: div_less_iff_less_mult)
  have blk: "(n - 1) mod ?ipg * 128 div block_size v = of_nat (?x * 128 div ?bs)"
    using x128 unat_div_distrib[of "(n - 1) mod ?ipg * 128" "block_size v"] by (metis of_nat_unat ucast_id)
  have moff: "unat ((n - 1) mod ?ipg * 128 mod block_size v) = ?x * 128 mod ?bs" by (simp add: unat_mod_distrib x128)
  have ne: "?ipg \<noteq> 0" using per(1,2) by auto
  have "ext2_read_inode d v n = Some (Inr (slice (block_bytes d v (le32 ?G (32 * ?g + 8) + of_nat (?x * 128 div ?bs))) (?x * 128 mod ?bs) 128))"
    using ne healthyD(1)[OF h] healthyD(3)[OF h]
    by (simp add: ext2_read_inode_def Let_def ext2_read_bgd_def tab g32 blk moff)
  then show ?thesis
    unfolding inode_table_def gw
    using slice_in_blocks[OF h, of "?x * 128 div ?bs" "map (\<lambda>i. le32 ?G (32 * ?g + 8) + of_nat i) [0..<k]" "?x * 128 mod ?bs" 128] q off
    by (simp split del: if_split)
qed

section \<open>Directories\<close>

text \<open>A block \<open>B\<close> of a directory from \<open>off\<close> on holds the entries, each with its inode number and name.\<close>

type_synonym dirent = "u32 \<times> u8 list"

fun dir_block :: "u8 list \<Rightarrow> nat \<Rightarrow> dirent list \<Rightarrow> bool" where
  "dir_block B off [] \<longleftrightarrow> length B \<le> off"
| "dir_block B off ((inr, name) # es) \<longleftrightarrow>
     off + 8 + unat (B ! (off + 6)) \<le> length B \<and> inr \<noteq> 0 \<and> le32 B off = inr \<and>
     takeWhile (\<lambda>c. c \<noteq> 0) (slice B (off + 8) (unat (B ! (off + 6)))) = name \<and>
     le16 B (off + 4) \<noteq> 0 \<and> dir_block B (off + unat (le16 B (off + 4))) es"

text \<open>What the code sees of an entry in the two blocks it has read.\<close>

lemma entry_fields:
  assumes "off + 8 + unat (B ! (off + 6)) \<le> length B"
  shows "de_inode (drop off (B @ C)) = le32 B off" "de_size (drop off (B @ C)) = le16 B (off + 4)"
    "de_name (drop off (B @ C)) = takeWhile (\<lambda>c. c \<noteq> 0) (slice B (off + 8) (unat (B ! (off + 6))))"
proof -
  have n: "drop off (B @ C) ! i = B ! (off + i)" if "i < 8 + unat (B ! (off + 6))" for i
    using assms that by (simp add: nth_append del: drop_append)
  show "de_inode (drop off (B @ C)) = le32 B off" unfolding de_inode_def by (rule le32_cong) (simp add: n del: drop_append)
  show "de_size (drop off (B @ C)) = le16 B (off + 4)" unfolding de_size_def by (rule le16_cong) (simp add: n add.assoc del: drop_append)
  have "slice (drop off (B @ C)) 8 (unat (drop off (B @ C) ! 6)) = slice B (off + 8) (unat (B ! (off + 6)))"
    by (simp add: n slice_def add.assoc del: drop_append)
  then show "de_name (drop off (B @ C)) = takeWhile (\<lambda>c. c \<noteq> 0) (slice B (off + 8) (unat (B ! (off + 6))))"
    by (simp only: de_name_def)
qed

lemma block_walk_entries:
  assumes "dir_block B (unat offset) es" "length B = unat (block_size v)" "unat (block_size v) \<le> 65536" "j \<le> idx"
    "unat offset \<le> 2 ^ 17"
  shows "if unat (idx - j) < length es
    then \<exists>e. block_walk v (B @ C) offset j idx = Some (Entry e) \<and> (de_inode e, de_name e) = es ! unat (idx - j)
    else block_walk v (B @ C) offset j idx = Some (Passed (j + of_nat (length es)))"
  using assms(1,4,5)
proof (induction es arbitrary: offset j)
  case Nil
  then have "\<not> offset < block_size v" using assms(2) by (simp add: word_less_nat_alt)
  then show ?case by (subst block_walk.simps) simp
next
  case (Cons a es)
  obtain inr name where a: "a = (inr, name)" by force
  let ?o = "unat offset"
  have f: "?o + 8 + unat (B ! (?o + 6)) \<le> length B" using Cons.prems(1) a by simp
  note e = entry_fields[OF f, of C]
  have lt: "offset < block_size v" using f assms(2) by (simp add: word_less_nat_alt)
  have fld: "de_inode (drop ?o (B @ C)) = inr" "de_name (drop ?o (B @ C)) = name" "inr \<noteq> 0" using e Cons.prems(1) a by auto
  show ?case
  proof (cases "j = idx")
    case True
    then show ?thesis using lt fld by (subst (1) block_walk.simps, subst block_walk.simps) (simp add: a Let_def)
  next
    case False
    let ?next = "offset + ucast (de_size (drop ?o (B @ C)))"
    have j: "j < idx" "j + 1 \<le> idx" using False Cons.prems(2) by (auto simp: inc_le)
    have sz: "unat (ucast (de_size (drop ?o (B @ C))) :: u32) = unat (le16 B (?o + 4))" using e(2) by (simp add: unat_ucast_up)
    have "unat (le16 B (?o + 4)) < 2 ^ 16" using unsigned_less[of "le16 B (?o + 4)", where 'a = nat] by simp
    then have nx: "unat ?next = ?o + unat (le16 B (?o + 4))" "unat ?next \<le> 2 ^ 17"
      using f assms(2,3) sz by (simp_all add: unat_add_no_wrap)
    have st: "block_walk v (B @ C) offset j idx = block_walk v (B @ C) ?next (j + 1) idx"
      using lt fld False by (subst block_walk.simps) (simp add: Let_def)
    have "dir_block B (unat ?next) es" using Cons.prems(1) a nx(1) by simp
    from Cons.IH[OF this j(2) nx(2)] show ?thesis
      using unat_diff_step[OF j(1)] by (simp only: st) (simp add: add.assoc del: drop_append split: if_splits)
  qed
qed

text \<open>The directories of a volume: \<open>D\<close> gives for the inode number of each directory the entries of its blocks, which
  are direct blocks. Every entry with the directory bit in its mode is a directory of the volume again.\<close>

definition inode_of :: "iodriver \<Rightarrow> ext2_fs \<Rightarrow> u32 \<Rightarrow> ext2_inode" where
  "inode_of d v i = (case ext2_read_inode d v i of Some (Inr f) \<Rightarrow> f | _ \<Rightarrow> [])"

definition is_dir :: "ext2_inode \<Rightarrow> bool" where
  "is_dir f \<longleftrightarrow> in_type_permission f AND EXT2_INODE_TYPE_DIRECTORY \<noteq> 0"

definition ext2_tree :: "iodriver \<Rightarrow> ext2_fs \<Rightarrow> (u32 \<rightharpoonup> dirent list list) \<Rightarrow> bool" where
  "ext2_tree d v D \<longleftrightarrow> healthy d v \<and> sb_inodes_per_group (e2_superblock v) \<noteq> 0 \<and>
     (\<forall>i bl. D i = Some bl \<longrightarrow> (let f = inode_of d v i in is_dir f \<and> length bl \<le> 12 \<and>
        unat (in_size f) = length bl * unat (block_size v) \<and> 0 \<notin> set (take (length bl) (in_direct f)) \<and>
        (\<forall>k<length bl. dir_block (block_bytes d v (in_direct f ! k)) 0 (bl ! k)) \<and> length (concat bl) < 2 ^ 32 \<and>
        (\<forall>(i', n)\<in>set (concat bl). is_dir (inode_of d v i') \<longrightarrow> i' \<in> dom D)))"

definition ext2_dir :: "iodriver \<Rightarrow> ext2_fs \<Rightarrow> (u32 \<rightharpoonup> dirent list list) \<Rightarrow> stat \<Rightarrow> bool" where
  "ext2_dir d v D st \<longleftrightarrow> st_private st \<noteq> NULL \<and> st_ino st \<in> dom D \<and> st_object st = inode_of d v (st_ino st)"

definition ext2_listing :: "iodriver \<Rightarrow> ext2_fs \<Rightarrow> (u32 \<rightharpoonup> dirent list list) \<Rightarrow> ptr \<Rightarrow> stat \<Rightarrow> (u8 list \<times> stat) list" where
  "ext2_listing d v D p st = map (\<lambda>(i, n). (n, (ext2_stat_fill d v p (inode_of d v i))\<lparr>st_ino := i\<rparr>)) (concat (the (D (st_ino st))))"

lemma ext2_treeD:
  assumes "ext2_tree d v D" "D i = Some bl"
  shows "healthy d v" "is_dir (inode_of d v i)" "length bl \<le> 12" "unat (in_size (inode_of d v i)) = length bl * unat (block_size v)"
    "0 \<notin> set (take (length bl) (in_direct (inode_of d v i)))"
    "\<And>k. k < length bl \<Longrightarrow> dir_block (block_bytes d v (in_direct (inode_of d v i) ! k)) 0 (bl ! k)" "length (concat bl) < 2 ^ 32"
    "\<And>i' n. (i', n) \<in> set (concat bl) \<Longrightarrow> is_dir (inode_of d v i') \<Longrightarrow> i' \<in> dom D"
  using assms unfolding ext2_tree_def Let_def by blast+

lemma dir_complete:
  assumes "ext2_tree d v D" "D i = Some bl"
  shows "complete d v (inode_of d v i)"
    "file_bytes d v (inode_of d v i) = concat (map (block_bytes d v) (take (length bl) (in_direct (inode_of d v i))))"
proof -
  note t = ext2_treeD[OF assms]
  let ?f = "inode_of d v i"
  have tk: "take (length bl) (file_pointers d v ?f) = take (length bl) (in_direct ?f)" using t(3) by (simp add: file_pointers_def)
  then show "complete d v ?f"
    unfolding complete_def using t(3-5) by (intro exI[of _ "length bl"]) (simp add: file_pointers_def)
  have "concat (map (block_bytes d v) (file_pointers d v ?f)) = concat (map (block_bytes d v) (take (length bl) (in_direct ?f)))
      @ concat (map (block_bytes d v) (drop (length bl) (file_pointers d v ?f)))"
    using tk by (metis append_take_drop_id concat_append map_append)
  then show "file_bytes d v ?f = concat (map (block_bytes d v) (take (length bl) (in_direct ?f)))"
    using length_blocks[OF t(1), of "take (length bl) (in_direct ?f)"] t(3,4) by (simp add: file_bytes_def)
qed

lemma dir_window:
  assumes t: "ext2_tree d v D" "D i = Some bl" and st: "st_private st \<noteq> NULL" "st_object st = inode_of d v i" and k: "k < length bl"
  shows "\<exists>C. ext2_read d v st (2 * block_size v) (of_nat (k * unat (block_size v)))
      = Some (Inr (block_bytes d v (in_direct (inode_of d v i) ! k) @ C)) \<and> length C \<le> unat (block_size v)"
proof -
  let ?n = "unat (block_size v)" and ?f = "inode_of d v i" and ?g = "block_bytes d v"
  note t' = ext2_treeD[OF t]
  note n = healthyD[OF t'(1)]
  have "k * ?n \<le> 12 * 65536" using k t'(3) n(5) by (intro mult_le_mono) auto
  moreover have two: "unat (2 * block_size v) = 2 * ?n" using n(5) by (subst unat_mult_lem[THEN iffD1]) simp_all
  ultimately have o: "unat (of_nat (k * ?n) :: u32) = k * ?n" "k * ?n + unat (2 * block_size v) < 2 ^ 32"
    using n(5) by (simp_all add: unat_of_nat_small del: of_nat_mult)
  have "of_nat (k * ?n) mod block_size v = 0" by (simp only: word_unat_eq_iff unat_mod_distrib o) simp
  moreover have "min (k * ?n + unat (2 * block_size v)) (unat (in_size ?f)) \<le> 12 * ?n"
    using t'(3,4) by (simp add: min.coboundedI2)
  ultimately have "ext2_read d v st (2 * block_size v) (of_nat (k * ?n)) = Some (Inr (take (2 * ?n) (drop (k * ?n) (file_bytes d v ?f))))"
    using ext2_read_part[OF t'(1) st(1) st(2)[symmetric] dir_complete(1)[OF t], of "of_nat (k * ?n)" "2 * block_size v"] two o by simp
  also have "drop (k * ?n) (file_bytes d v ?f) = concat (map ?g (drop k (take (length bl) (in_direct ?f))))"
    using dir_complete(2)[OF t] drop_blocks[OF t'(1)] by simp
  also have "\<dots> = ?g (in_direct ?f ! k) @ concat (map ?g (drop (Suc k) (take (length bl) (in_direct ?f))))"
    using k t'(3) by (subst Cons_nth_drop_Suc[symmetric]) simp_all
  finally show ?thesis using n(4)[of "in_direct ?f ! k"] by simp
qed

lemma dir_walk_entries:
  assumes t: "ext2_tree d v D" "D i = Some bl" and st: "st_private st \<noteq> NULL" "st_object st = inode_of d v i"
    and "k \<le> length bl" "j \<le> idx"
  shows "if unat (idx - j) < length (concat (drop k bl))
    then \<exists>e. dir_walk d v st (of_nat (k * unat (block_size v))) j idx = Some (Some e) \<and>
      (de_inode e, de_name e) = concat (drop k bl) ! unat (idx - j)
    else dir_walk d v st (of_nat (k * unat (block_size v))) j idx = Some None"
  using assms(5,6)
proof (induction "length bl - k" arbitrary: k j)
  case 0
  then have "in_size (st_object st) = of_nat (k * unat (block_size v))"
    using ext2_treeD(4)[OF t] st(2) by (metis diff_is_0_eq le_antisym of_nat_unat ucast_id)
  then have "ext2_read d v st (2 * block_size v) (of_nat (k * unat (block_size v))) = Some (Inr [])"
    using st(1) by (simp add: ext2_read_def)
  then show ?case using 0 by (subst (2) dir_walk.simps) simp
next
  case (Suc l)
  let ?n = "unat (block_size v)" and ?B = "block_bytes d v (in_direct (inode_of d v i) ! k)" and ?es = "bl ! k"
  let ?R = "concat (drop (Suc k) bl)"
  have k: "k < length bl" using Suc.hyps(2) by simp
  note n = healthyD[OF ext2_treeD(1)[OF t]]
  obtain C where C: "ext2_read d v st (2 * block_size v) (of_nat (k * ?n)) = Some (Inr (?B @ C))" "length C \<le> ?n"
    using dir_window[OF t st k] by blast
  have ne: "?B \<noteq> []" using n(2) n(4)[of "in_direct (inode_of d v i) ! k"] by auto
  let ?W = "?B @ C @ replicate (2 * ?n - length (?B @ C)) 0"
  have R: "concat (drop k bl) = ?es @ ?R" using k by (simp flip: Cons_nth_drop_Suc)
  have w: "if unat (idx - j) < length ?es then \<exists>e. block_walk v ?W 0 j idx = Some (Entry e) \<and> (de_inode e, de_name e) = ?es ! unat (idx - j)
      else block_walk v ?W 0 j idx = Some (Passed (j + of_nat (length ?es)))"
    using block_walk_entries[of ?B 0 ?es v j idx] ext2_treeD(6)[OF t k] n(4,5) Suc.prems(2) by simp
  show ?case
  proof (cases "unat (idx - j) < length ?es")
    case True
    then obtain e where "block_walk v ?W 0 j idx = Some (Entry e)" "(de_inode e, de_name e) = ?es ! unat (idx - j)" using w by auto
    then show ?thesis using True C(1) ne R by (subst (1) dir_walk.simps, subst dir_walk.simps) (simp add: nth_append)
  next
    case False
    let ?j = "j + of_nat (length ?es)"
    have u: "unat (idx - j) = unat idx - unat j" using Suc.prems(2) by (simp add: unat_sub)
    have jj: "unat ?j = unat j + length ?es"
      using False u Suc.prems(2) unat_u32_less[of idx] by (intro unat_add_of_nat) (simp add: word_le_nat_alt)
    then have le: "?j \<le> idx" using False u Suc.prems(2) by (simp add: word_le_nat_alt)
    then have ij: "unat (idx - j) = length ?es + unat (idx - ?j)" using jj u False by (simp add: unat_sub word_le_nat_alt)
    have st': "dir_walk d v st (of_nat (k * ?n)) j idx = dir_walk d v st (of_nat (Suc k * ?n)) ?j idx"
      using C(1) ne w False by (subst dir_walk.simps) (simp add: add.commute)
    have IH: "if unat (idx - ?j) < length ?R
        then \<exists>e. dir_walk d v st (of_nat (Suc k * ?n)) ?j idx = Some (Some e) \<and> (de_inode e, de_name e) = ?R ! unat (idx - ?j)
        else dir_walk d v st (of_nat (Suc k * ?n)) ?j idx = Some None"
      using Suc.hyps(1)[of "Suc k" ?j] Suc.hyps(2) k le by auto
    then show ?thesis unfolding st' R by (simp only: ij length_append nth_append_length_plus nat_add_left_cancel_less)
  qed
qed

lemma ext2_found_entry:
  assumes "ext2_tree d v D"
  shows "ext2_found d v p e = Some (Inr (de_name e, (ext2_stat_fill d v p (inode_of d v (de_inode e)))\<lparr>st_ino := de_inode e\<rparr>))"
proof -
  obtain f where "ext2_read_inode d v (de_inode e) = Some (Inr f)"
    using read_inode_healthy[of d v "de_inode e"] assms by (auto simp: ext2_tree_def)
  then show ?thesis by (simp add: ext2_found_def inode_of_def)
qed

lemma dir_bit: "ISSET_BIT_INT (in_type_permission f) EXT2_INODE_TYPE_DIRECTORY \<longleftrightarrow> is_dir f"
  "ucast (in_type_permission f) AND S_IFDIR \<noteq> 0 \<longleftrightarrow> is_dir f"
proof -
  show "ISSET_BIT_INT (in_type_permission f) EXT2_INODE_TYPE_DIRECTORY \<longleftrightarrow> is_dir f"
    by (simp add: ISSET_BIT_INT_def is_dir_def)
  have "bit (ucast (in_type_permission f) :: u32) 14 \<longleftrightarrow> bit (in_type_permission f) 14" by (simp add: bit_ucast_iff)
  then show "ucast (in_type_permission f) AND S_IFDIR \<noteq> 0 \<longleftrightarrow> is_dir f"
    using and_single_bit_iff[of 14 "ucast (in_type_permission f) :: u32"] and_single_bit_iff[of 14 "in_type_permission f"]
    by (simp add: is_dir_def)
qed

lemma ext2_readdir_nth:
  assumes t: "ext2_tree d v D" and dir: "ext2_dir d v D st" and i: "i < 2 ^ 32"
  shows "ext2_readdir d v p st (of_nat i) = Some (nth_entry (ext2_listing d v D p st) i)"
proof -
  obtain bl where bl: "D (st_ino st) = Some bl" and st: "st_private st \<noteq> NULL" "st_object st = inode_of d v (st_ino st)"
    using dir by (auto simp: ext2_dir_def)
  have w: "if i < length (concat bl)
      then \<exists>e. dir_walk d v st 0 0 (of_nat i) = Some (Some e) \<and> (de_inode e, de_name e) = concat bl ! i
      else dir_walk d v st 0 0 (of_nat i) = Some None"
    using dir_walk_entries[OF t bl st, of 0 0 "of_nat i"] i by (simp add: unat_of_nat_small split: if_splits)
  have rd: "ext2_readdir d v p st (of_nat i) = (case dir_walk d v st 0 0 (of_nat i) of None \<Rightarrow> None | Some None \<Rightarrow> Some (Inl (- ENOENT))
      | Some (Some e) \<Rightarrow> ext2_found d v p e)"
    using st ext2_treeD(2)[OF t bl] by (simp add: ext2_readdir_def dir_bit split: option.split)
  show ?thesis
  proof (cases "i < length (concat bl)")
    case True
    then obtain e where e: "dir_walk d v st 0 0 (of_nat i) = Some (Some e)" "concat bl ! i = (de_inode e, de_name e)" using w by auto
    then show ?thesis using True by (simp add: rd ext2_found_entry[OF t] nth_entry_def ext2_listing_def bl)
  next
    case False
    then show ?thesis using w by (simp add: rd nth_entry_def ext2_listing_def bl)
  qed
qed

lemma ext2_tree_listed:
  assumes t: "ext2_tree d v D" and "p \<noteq> NULL" "fs m = ext2_filesystem v p" "driver m = d"
  shows "tree_listed (\<lambda>m dir. ext2_listing d v D p dir) (\<lambda>m. ext2_dir d v D) m"
  unfolding tree_listed_def
proof (intro allI impI conjI)
  fix dir assume dir: "ext2_dir d v D dir"
  then obtain bl where bl: "D (st_ino dir) = Some bl" by (auto simp: ext2_dir_def)
  have len: "length (ext2_listing d v D p dir) < 2 ^ 32" using ext2_treeD(7)[OF t bl] by (simp add: ext2_listing_def bl)
  then show "lists m dir (ext2_listing d v D p dir)"
    using ext2_readdir_nth[OF t dir] assms(3,4) by (auto simp: lists_def ext2_filesystem_def nth_entry_def)
  show "\<forall>(n, st)\<in>set (ext2_listing d v D p dir). st_mode st AND S_IFDIR \<noteq> 0 \<longrightarrow> ext2_dir d v D st"
  proof (clarify, simp only: ext2_listing_def bl option.sel set_map, elim imageE, clarsimp)
    fix i n es assume "es \<in> set bl" "(i, n) \<in> set es" "st_mode (ext2_stat_fill d v p (inode_of d v i)) AND S_IFDIR \<noteq> 0"
    then show "ext2_dir d v D (ext2_stat_fill d v p (inode_of d v i)\<lparr>st_ino := i\<rparr>)"
      using ext2_treeD(8)[OF t bl, of i n] assms(2) by (auto simp: ext2_dir_def ext2_stat_fill_def dir_bit)
  qed
qed

lemma ext2_init_root:
  assumes "ext2_init d io lba p0 = Some (Some v)" "p0 \<noteq> NULL" "ext2_tree d v D" "2 \<in> dom D"
  shows "ext2_dir d v D (e2_rootdir v)"
proof -
  define sb where "sb = (if sector_size d = 512
    then slice (buffer_after d (lba + 2) io) 0 512 @ slice (buffer_after d (lba + 3) (buffer_after d (lba + 2) io)) 0 512
    else slice (buffer_after d (lba + 2) io) 0 1024)"
  define v0 where "v0 = \<lparr>e2_start_lba = lba, e2_superblock = sb, e2_rootdir = zero_stat\<rparr>"
  obtain r where v: "v = v0\<lparr>e2_rootdir := (ext2_stat_fill d v0 p0 (case r of Inl _ \<Rightarrow> [] | Inr x \<Rightarrow> x))\<lparr>st_ino := 2\<rparr>\<rparr>"
    "ext2_read_inode d v0 2 = Some r"
    using assms(1) unfolding ext2_init_def Let_def sb_def[symmetric] v0_def[symmetric] by (auto split: if_splits bind_splits)
  have rd: "ext2_read_inode d (v0\<lparr>e2_rootdir := x\<rparr>) i = ext2_read_inode d v0 i" for x i
    by (simp add: ext2_read_inode_def ext2_read_bgd_def ext2_read_block_def block_size_def Let_def cong: sum.case_cong option.case_cong)
  obtain f where f: "ext2_read_inode d v 2 = Some (Inr f)"
    using read_inode_healthy[of d v 2] assms(3) by (auto simp: ext2_tree_def)
  then have "r = Inr f" using v rd by simp
  then show ?thesis using v f assms(2,4) by (simp add: ext2_dir_def ext2_stat_fill_def inode_of_def)
qed

section \<open>Properties\<close>


text \<open>Finding an inode. \<open>ext2_read_inode\<close> gives the 128 bytes at its place in the inode table of its block group, for
  a volume with inodes of 128 bytes whose group descriptors fit into one block.\<close>

theorem ext2_inode_located:
  assumes "healthy d v" "128 dvd unat (block_size v)" "0 < unat n"
    and "per = unat (sb_inodes_per_group (e2_superblock v))" "0 < per" "per < 2 ^ 25"
    and "32 * ((unat n - 1) div per) + 32 \<le> unat (block_size v)"
    and "(unat n - 1) mod per * 128 + 128 \<le> k * unat (block_size v)"
  shows "ext2_read_inode d v n =
    Some (Inr (slice (inode_table d v (of_nat ((unat n - 1) div per)) k) ((unat n - 1) mod per * 128) 128))"
  by (rule inode_in_table) fact+


text \<open>A volume with blocks of 1024 bytes: superblock in block 1, group descriptors in block 2, inode table in block 3, the
  root directory with \<open>.\<close>, \<open>..\<close> and the file \<open>a\<close> in block 4, the data of \<open>a\<close> everywhere else.\<close>

definition sample_sector :: "u32 \<Rightarrow> u8 list" where
  "sample_sector lba =
     (if lba = 2 then replicate 40 0 @ [8] @ replicate 15 0 @ [0x53, 0xEF] @ replicate 454 0
      else if lba = 4 then replicate 8 0 @ [3] @ replicate 503 0
      else if lba = 6 then replicate 128 0 @ [0, 0x40, 0, 0, 0, 4] @ replicate 34 0 @ [4] @ replicate 87 0
        @ [0, 0x80, 0, 0, 5] @ replicate 35 0 @ [5] @ replicate 215 0
      else if lba = 8 then [2, 0, 0, 0, 12, 0, 1, 2, 46, 0, 0, 0, 2, 0, 0, 0, 12, 0, 2, 2, 46, 46, 0, 0, 3, 0, 0, 0, 0xE8, 3, 1, 1, 97]
        @ replicate 479 0
      else replicate 512 (if lba < 10 then 0 else 7))"

definition sample_disk :: iodriver where
  "sample_disk = \<lparr>device = 0, sector_size = 512, io_size = 65536, read_sector = (\<lambda>lba. Inr (sample_sector lba))\<rparr>"

definition sample_volume :: ext2_fs where
  "sample_volume = \<lparr>e2_start_lba = 0, e2_superblock = slice (sample_sector 2) 0 512 @ slice (sample_sector 3) 0 512, e2_rootdir = zero_stat\<rparr>"

definition sample_ext2 :: ext2_fs where
  "sample_ext2 = sample_volume\<lparr>e2_rootdir := (ext2_stat_fill sample_disk sample_volume 0x1000 (slice (sample_sector 6) 128 128))\<lparr>st_ino := 2\<rparr>\<rparr>"

lemma sample_superblock:
  "sb_log2_block_size (e2_superblock sample_volume) = 0" "sb_inodes_per_group (e2_superblock sample_volume) = 8"
  "sb_signature (e2_superblock sample_volume) = EXT2_SIGNATURE" "block_size sample_volume = 1024"
proof -
  show l: "sb_log2_block_size (e2_superblock sample_volume) = 0" "sb_inodes_per_group (e2_superblock sample_volume) = 8"
    "sb_signature (e2_superblock sample_volume) = EXT2_SIGNATURE"
    by (simp_all add: sb_log2_block_size_def sb_inodes_per_group_def sb_signature_def sample_volume_def le32_def le16_def sample_sector_def nth_append)
  show "block_size sample_volume = 1024" by (simp add: block_size_def l)
qed

lemma sample_block: "ext2_read_block sample_disk (sample_volume\<lparr>e2_rootdir := x\<rparr>) b =
  Some (slice (sample_sector (b * 1024 div 512)) 0 512 @ slice (sample_sector (b * 1024 div 512 + 1)) 0 512)"
proof -
  have "block_size (sample_volume\<lparr>e2_rootdir := x\<rparr>) = 1024" using sample_superblock(4) by (simp add: block_size_def)
  moreover have "[0..<2] = [0, Suc 0]" by (simp add: upt_rec)
  ultimately show ?thesis by (simp add: ext2_read_block_def sample_disk_def Let_def sample_volume_def)
qed

lemma sample_inode:
  "ext2_read_inode sample_disk (sample_volume\<lparr>e2_rootdir := x\<rparr>) 2 = Some (Inr (slice (sample_sector 6) 128 128))"
  "ext2_read_inode sample_disk (sample_volume\<lparr>e2_rootdir := x\<rparr>) 3 = Some (Inr (slice (sample_sector 6) 256 128))"
proof -
  have b: "block_size (sample_volume\<lparr>e2_rootdir := x\<rparr>) = 1024" using sample_superblock(4) by (simp add: block_size_def)
  have g: "bgd_inode_table_block (slice (slice (sample_sector 4) 0 512 @ slice (sample_sector 5) 0 512) 0 32) = 3"
    by (simp add: bgd_inode_table_block_def le32_def sample_sector_def nth_append)
  have s: "slice (slice X 0 512 @ Y) a 128 = slice X a 128" if "a + 128 \<le> 512" for X Y a
    using that by (simp add: slice_def nth_append)
  show "ext2_read_inode sample_disk (sample_volume\<lparr>e2_rootdir := x\<rparr>) 2 = Some (Inr (slice (sample_sector 6) 128 128))"
    "ext2_read_inode sample_disk (sample_volume\<lparr>e2_rootdir := x\<rparr>) 3 = Some (Inr (slice (sample_sector 6) 256 128))"
    by (simp_all add: ext2_read_inode_def ext2_read_bgd_def sample_block b g s sample_superblock Let_def)
qed

lemma sample_inodes:
  "inode_of sample_disk sample_ext2 2 = slice (sample_sector 6) 128 128" "inode_of sample_disk sample_ext2 3 = slice (sample_sector 6) 256 128"
  by (simp_all add: inode_of_def sample_ext2_def sample_inode)

lemma sample_init: "ext2_init sample_disk [] 0 0x1000 = Some (Some sample_ext2)"
proof -
  have v: "\<lparr>e2_start_lba = 0, e2_superblock = e2_superblock sample_volume, e2_rootdir = zero_stat\<rparr> = sample_volume"
    "slice (sample_sector 2) 0 512 @ slice (sample_sector 3) 0 512 = e2_superblock sample_volume"
    by (simp_all add: sample_volume_def)
  have d: "sector_size sample_disk = 512" "buffer_after sample_disk b io = sample_sector b" for b io
    by (simp_all add: sample_disk_def buffer_after_def)
  have "sample_volume\<lparr>e2_rootdir := zero_stat\<rparr> = sample_volume" by (simp add: sample_volume_def)
  then have "ext2_read_inode sample_disk sample_volume 2 = Some (Inr (slice (sample_sector 6) 128 128))" using sample_inode(1) by metis
  then show ?thesis unfolding ext2_init_def d
    by (simp only: Let_def v if_True refl) (simp add: v sample_superblock sample_ext2_def)
qed

lemma sample_healthy: "healthy sample_disk sample_ext2"
  using sample_superblock(4) by (simp add: healthy_def block_bytes_def sample_ext2_def sample_block block_size_def)

text \<open>The entries of the root directory.\<close>

definition sample_dirs :: "u32 \<rightharpoonup> dirent list list" where
  "sample_dirs = [2 \<mapsto> [[(2, [46]), (2, [46, 46]), (3, [97])]]]"

lemma sample_fields:
  "in_size (slice (sample_sector 6) 128 128) = 1024" "in_direct (slice (sample_sector 6) 128 128) ! 0 = 4" "is_dir (slice (sample_sector 6) 128 128)"
  "in_size (slice (sample_sector 6) 256 128) = 5" "in_direct (slice (sample_sector 6) 256 128) ! 0 = 5" "\<not> is_dir (slice (sample_sector 6) 256 128)"
  by (simp_all add: in_size_def in_direct_def is_dir_def in_type_permission_def le32_def le16_def sample_sector_def nth_append)

lemma sample_dir_block: "dir_block (slice (sample_sector 8) 0 512 @ slice (sample_sector 9) 0 512) 0 [(2, [46]), (2, [46, 46]), (3, [97])]"
proof -
  have s: "slice X a (Suc 0) = [X ! a]" "slice X a 2 = [X ! a, X ! Suc a]" for X a by (simp_all add: slice_def numeral_2_eq_2)
  show ?thesis by (simp add: le32_def le16_def sample_sector_def nth_append s)
qed

lemma sample_tree: "ext2_tree sample_disk sample_ext2 sample_dirs"
proof -
  let ?f = "slice (sample_sector 6) 128 128"
  have v: "block_size sample_ext2 = 1024" "sb_inodes_per_group (e2_superblock sample_ext2) \<noteq> 0"
    using sample_superblock by (simp_all add: sample_ext2_def block_size_def)
  have "block_bytes sample_disk sample_ext2 4 = slice (sample_sector 8) 0 512 @ slice (sample_sector 9) 0 512"
    by (simp add: block_bytes_def sample_ext2_def sample_block)
  then have b: "dir_block (block_bytes sample_disk sample_ext2 (in_direct ?f ! 0)) 0 [(2, [46]), (2, [46, 46]), (3, [97])]"
    using sample_dir_block sample_fields(2) by (simp del: dir_block.simps)
  have z: "0 \<notin> set (take (Suc 0) (in_direct ?f))" using sample_fields(2) by (simp add: take_Suc_conv_app_nth)
  show ?thesis
    unfolding ext2_tree_def sample_dirs_def using sample_healthy v b z sample_fields sample_inodes
    by (simp add: Let_def del: dir_block.simps)
qed

definition sample_inode_file :: stat where
  "sample_inode_file = (ext2_stat_fill sample_disk sample_ext2 0x2000 (slice (sample_sector 6) 256 128))\<lparr>st_ino := 3\<rparr>"


lemma sample_first_pointer: "\<exists>ps. file_pointers sample_disk sample_ext2 (slice (sample_sector 6) 256 128) = 5 # ps"
  using sample_fields(5) length_in_direct[of "slice (sample_sector 6) 256 128"]
  unfolding file_pointers_def by (cases "in_direct (slice (sample_sector 6) 256 128)") auto

lemma sample_complete: "complete sample_disk sample_ext2 (slice (sample_sector 6) 256 128)"
proof -
  obtain ps where "file_pointers sample_disk sample_ext2 (slice (sample_sector 6) 256 128) = 5 # ps" using sample_first_pointer ..
  moreover have "block_size sample_ext2 = 1024" using sample_superblock by (simp add: sample_ext2_def block_size_def)
  ultimately show ?thesis unfolding complete_def sample_fields(4) by (intro exI[of _ 1]) simp
qed


theorem ext2_inode_located_witness: "ext2_read_inode sample_disk sample_ext2 3 =
  Some (Inr (slice (inode_table sample_disk sample_ext2 0 1) 256 128))"
proof -
  have v: "block_size sample_ext2 = 1024" "sb_inodes_per_group (e2_superblock sample_ext2) = 8"
    using sample_superblock by (simp_all add: sample_ext2_def block_size_def)
  have n: "unat (3 :: u32) = 3" "unat (8 :: u32) = 8" "unat (1024 :: u32) = 1024" by simp_all
  have "128 dvd unat (block_size sample_ext2)" by (simp add: v)
  from ext2_inode_located[OF sample_healthy this, of 3 8 1, unfolded v n] show ?thesis by (simp del: One_nat_def)
qed

end
