(* ===== verification/Iso9660.thy ===== *)
theory Iso9660
  imports Disk
begin

text \<open>
  \<^verbatim>\<open>drivers/fs/iso9660.c\<close>: the file system of optical disks, read only. A directory entry is its bytes as on the disk,
  34 of them behind \<open>st_private\<close>: the fixed part and the first byte of the name. \<open>None\<close> stands for a panic, a NULL
  pointer or an access behind the end of the 2048 bytes of a block. What the code writes in front of \<open>name\<close> for names
  of fewer than two bytes is not part of the result.
\<close>

section \<open>Data\<close>

abbreviation (input) ISO9660_SECTOR_SIZE :: u32 where "ISO9660_SECTOR_SIZE \<equiv> 2048"

type_synonym iso9660_entry = "u8 list"

definition ie_length :: "iso9660_entry \<Rightarrow> u8" where "ie_length e = e ! 0"
definition extent_lba :: "iso9660_entry \<Rightarrow> u32" where "extent_lba e = le32 e 2"
definition extent_size :: "iso9660_entry \<Rightarrow> u32" where "extent_size e = le32 e 10"
definition ie_flags :: "iso9660_entry \<Rightarrow> u8" where "ie_flags e = e ! 25"
definition name_length :: "iso9660_entry \<Rightarrow> u8" where "name_length e = e ! 32"

abbreviation (input) FLAG_DIRECTORY :: u8 where "FLAG_DIRECTORY \<equiv> 2"

record iso9660_fs =
  iso_start_lba :: u32
  iso_rootdir :: "stat option"

section \<open>Blocks\<close>

text \<open>A failed try moves on to the next sector, for \<open>lba++\<close> is part of the call.\<close>

fun iso9660_try :: "nat \<Rightarrow> iodriver \<Rightarrow> u32 \<Rightarrow> u32 \<Rightarrow> (u8 list \<times> u32) option" where
  "iso9660_try 0 d start lba = None"
| "iso9660_try (Suc tries) d start lba =
     (case read_sector d (start + lba - 1) of
        Inl _ \<Rightarrow> iso9660_try tries d start (lba + 1)
      | Inr bs \<Rightarrow> Some (bs, lba + 1))"

fun iso9660_chunks :: "iodriver \<Rightarrow> u32 \<Rightarrow> nat list \<Rightarrow> u32 \<Rightarrow> u8 list \<Rightarrow> bool \<times> u8 list" where
  "iso9660_chunks d start [] lba buffer = (True, buffer)"
| "iso9660_chunks d start (i # is) lba buffer =
     (case iso9660_try 3 d start lba of
        None \<Rightarrow> (False, buffer)
      | Some (bs, lba') \<Rightarrow>
          let n = unat (sector_size d)
          in iso9660_chunks d start is lba' (take i buffer @ slice bs 0 n @ drop (i + n) buffer))"

text \<open>\<open>iso9660_init\<close> accepts a driver only if its sectors divide a block.\<close>

definition iso9660_read_block :: "iodriver \<Rightarrow> iso9660_fs \<Rightarrow> u32 \<Rightarrow> u8 list \<Rightarrow> bool \<times> u8 list" where
  "iso9660_read_block d v lba buffer =
     iso9660_chunks d (iso_start_lba v) (map (\<lambda>k. k * unat (sector_size d)) [0..<2048 div unat (sector_size d)]) lba buffer"

definition iso9660_stat_fill :: "iodriver \<Rightarrow> ptr \<Rightarrow> iso9660_entry \<Rightarrow> stat" where
  "iso9660_stat_fill d p f =
     \<lparr>st_dev = scast (device d), st_ino = 0,
      st_mode = S_IRUSR OR S_IRGRP OR S_IROTH OR S_IXUSR OR S_IXGRP OR S_IXOTH
        OR (if ISSET_BIT_INT (ie_flags f) FLAG_DIRECTORY then S_IFDIR else S_IFREG),
      st_nlink = 1, st_uid = 0, st_gid = 0, st_rdev = 0, st_size = extent_size f, st_blksize = ISO9660_SECTOR_SIZE,
      st_blocks = extent_size f div 512, st_atime = 0, st_mtime = 0, st_ctime = 0, st_private = p, st_object = f\<rparr>"

section \<open>Initialisation\<close>

text \<open>The volume descriptors: a primary one gives the root directory, a terminator ends the search. The result of reading
  a block is not looked at.\<close>

fun iso9660_volumes :: "iodriver \<Rightarrow> ptr \<Rightarrow> nat list \<Rightarrow> u8 list \<Rightarrow> iso9660_fs \<Rightarrow> iso9660_fs" where
  "iso9660_volumes d p [] buffer v = v"
| "iso9660_volumes d p (i # is) buffer v =
     (let b = snd (iso9660_read_block d v (0x10 + of_nat i) buffer); type = b ! 0
      in if type = 255 then v
         else if type = 1
         then iso9660_volumes d p is b (v\<lparr>iso_rootdir := Some ((iso9660_stat_fill d p (slice b 156 34))\<lparr>st_ino := 2\<rparr>)\<rparr>)
         else iso9660_volumes d p is b v)"

definition iso9660_init :: "iodriver \<Rightarrow> u8 list \<Rightarrow> ptr \<Rightarrow> iso9660_fs \<Rightarrow> iso9660_fs option" where
  "iso9660_init d garbage p v =
     (if ISO9660_SECTOR_SIZE < ucast (sector_size d) \<or> sector_size d = 0 \<or> ISO9660_SECTOR_SIZE mod ucast (sector_size d) \<noteq> 0 then None
      else Some (iso9660_volumes d p [0..<10] garbage v))"

section \<open>Reading files\<close>

text \<open>A block that could be read fills the whole buffer, so that what was in it does not matter. \<open>off\<close> is the offset in
  the first block, which the code uses for every block.\<close>

function iso9660_read_loop ::
  "iodriver \<Rightarrow> iso9660_fs \<Rightarrow> iso9660_entry \<Rightarrow> u32 \<Rightarrow> u32 \<Rightarrow> u32 \<Rightarrow> int + u8 list" where
  "iso9660_read_loop d v f offset i count =
     (if i < extent_size f \<and> count \<noteq> 0
      then let to_read = (if count < ISO9660_SECTOR_SIZE then count else ISO9660_SECTOR_SIZE);
               (ok, buffer) = iso9660_read_block d v (extent_lba f + (offset + i) div ISO9660_SECTOR_SIZE) (replicate 2048 0)
           in if \<not> ok then Inl (- EIO)
              else let off = offset mod ISO9660_SECTOR_SIZE;
                       len = (if off < to_read then to_read - off else to_read);
                       chunk = slice buffer (unat off) (unat len) @ slice buffer (unat (off + len)) (unat (to_read - len))
                   in map_sum id ((@) chunk) (iso9660_read_loop d v f offset (i + ISO9660_SECTOR_SIZE) (count - to_read))
      else Inr [])"
  by pat_completeness auto

termination
proof (relation "measure (\<lambda>(d, v, f, offset, i, count). unat count)", goal_cases)
  case (2 d v f offset i count to_read)
  then have "0 < unat to_read" "unat to_read \<le> unat count"
    by (auto simp: unat_gt_0 word_le_nat_alt word_less_nat_alt split: if_splits)
  then show ?case by (simp add: unat_sub word_le_nat_alt)
qed simp

definition iso9660_read :: "iodriver \<Rightarrow> iso9660_fs \<Rightarrow> stat \<Rightarrow> u32 \<Rightarrow> u32 \<Rightarrow> (int + u8 list) option" where
  "iso9660_read d v st count offset =
     (let f = st_object st
      in if st_private st = NULL then Some (Inl (- EBADFD))
         else if offset \<ge> extent_size f then Some (Inr [])
         else Some (iso9660_read_loop d v f offset 0
                (if offset + count > extent_size f then extent_size f - offset else count)))"

definition iso9660_write :: "iodriver \<Rightarrow> stat \<Rightarrow> u8 list \<Rightarrow> u32 \<Rightarrow> int" where
  "iso9660_write d st buf offset = - EROFS"

section \<open>Directories\<close>

text \<open>The offset of entry \<open>index\<close> in the first block of the directory. An entry of length 0 ends the directory, but
  only when there is a step to be made from it.\<close>

fun iso9660_seek :: "u8 list \<Rightarrow> nat \<Rightarrow> nat \<Rightarrow> (int + nat) option" where
  "iso9660_seek dir pos 0 = Some (Inr pos)"
| "iso9660_seek dir pos (Suc k) =
     (if pos \<ge> 2048 then None
      else if dir ! pos = 0 then Some (Inl (- ENOENT))
      else iso9660_seek dir (pos + unat (dir ! pos)) k)"

text \<open>The name without the version number \<open>;1\<close> of a file and without a trailing dot.\<close>

definition iso9660_name :: "u8 list \<Rightarrow> nat \<Rightarrow> nat \<Rightarrow> u8 list" where
  "iso9660_name dir pos index =
     (let e = slice dir pos 34; len = unat (name_length e); raw = slice dir (pos + 33) len;
          n1 = (if ISSET_BIT_INT (ie_flags e) FLAG_DIRECTORY then raw else take (len - 2) raw);
          n2 = (if n1 \<noteq> [] \<and> last n1 = 46 then butlast n1 else n1)
      in if index = 0 then [46] else if index = 1 then [46, 46] else takeWhile (\<lambda>c. c \<noteq> 0) n2)"

definition iso9660_readdir :: "iodriver \<Rightarrow> iso9660_fs \<Rightarrow> ptr \<Rightarrow> stat \<Rightarrow> u32 \<Rightarrow> (int + u8 list \<times> stat) option" where
  "iso9660_readdir d v p st index =
     (if st_private st = NULL then None
      else let (ok, dir) = iso9660_read_block d v (extent_lba (st_object st)) (replicate 2048 0)
        in if \<not> ok then Some (Inl (- EIO))
           else do {
             r \<leftarrow> iso9660_seek dir 0 (unat index);
             case r of
               Inl e \<Rightarrow> Some (Inl e)
             | Inr pos \<Rightarrow>
                 let e = slice dir pos 34
                 in if pos + 34 > 2048 \<or> pos + 33 + unat (name_length e) > 2048 then None
                    else Some (Inr (iso9660_name dir pos (unat index),
                           (iso9660_stat_fill d p e)\<lparr>st_ino := extent_lba e\<rparr>)) })"

definition iso9660_stat :: "iodriver \<Rightarrow> iso9660_fs \<Rightarrow> ptr \<Rightarrow> stat \<Rightarrow> u8 list \<Rightarrow> (int + stat option) option" where
  "iso9660_stat d v p st path = do {
     root \<leftarrow> iso_rootdir v;
     driver_stat (iso9660_readdir d v p) same_name root st path }"

text \<open>The file system the rest of the kernel sees.\<close>

definition iso9660_filesystem :: "iso9660_fs \<Rightarrow> stat \<Rightarrow> ptr \<Rightarrow> filesystem" where
  "iso9660_filesystem v root p = \<lparr>fs_type = FS_ISO9660, start_lba = iso_start_lba v,
     fs_name = [105, 115, 111, 57, 54, 54, 48], fs_rootdir = root, case_sensitive = True,
     fs_read = (\<lambda>d st count offset. iso9660_read d v st count offset),
     fs_write = iso9660_write, readdir = (\<lambda>d st index. iso9660_readdir d v p st index)\<rparr>"

declare iso9660_read_loop.simps [simp del]

end
