(* ===== verification/Iso9660_Laws.thy ===== *)
theory Iso9660_Laws
  imports Iso9660
begin

text \<open>
  On a drive with sectors of 2048 bytes a file is a run of blocks, of which \<open>iso9660_read\<close> returns the requested part,
  and a directory is a sequence of records, which \<open>iso9660_readdir\<close> enumerates.
\<close>

section \<open>Blocks\<close>

definition block_drive :: "iodriver \<Rightarrow> iso9660_fs \<Rightarrow> u32 \<Rightarrow> nat \<Rightarrow> bool" where
  "block_drive d v lba n \<longleftrightarrow> sector_size d = 2048 \<and> (\<forall>k<n. readable d (iso_start_lba v + (lba + of_nat k) - 1) 2048)"

definition iso_block :: "iodriver \<Rightarrow> iso9660_fs \<Rightarrow> u32 \<Rightarrow> u8 list" where
  "iso_block d v lba = sector_bytes d (iso_start_lba v + lba - 1)"

definition iso_extent :: "iodriver \<Rightarrow> iso9660_fs \<Rightarrow> u32 \<Rightarrow> nat \<Rightarrow> u8 list" where
  "iso_extent d v lba n = concat (map (\<lambda>k. iso_block d v (lba + of_nat k)) [0..<n])"

lemma length_iso_block:
  assumes "block_drive d v lba n" "k < n" shows "length (iso_block d v (lba + of_nat k)) = 2048"
  using assms readableE(2) by (auto simp: block_drive_def iso_block_def add.assoc)

lemma read_block_drive:
  assumes "block_drive d v lba n" "k < n" "length b = 2048"
  shows "iso9660_read_block d v (lba + of_nat k) b = (True, iso_block d v (lba + of_nat k))"
proof -
  have "readable d (iso_start_lba v + (lba + of_nat k) - 1) 2048" using assms(1,2) by (simp add: block_drive_def)
  then show ?thesis
    using assms(1,3) readableE[of d "iso_start_lba v + (lba + of_nat k) - 1" 2048]
    by (simp add: iso9660_read_block_def block_drive_def iso_block_def numeral_3_eq_3 slice_all Let_def)
qed

lemma length_iso_extent: "block_drive d v lba n \<Longrightarrow> m \<le> n \<Longrightarrow> length (iso_extent d v lba m) = 2048 * m"
  by (induction m) (simp_all add: iso_extent_def length_iso_block)

lemma iso_extent_split:
  assumes "k < n"
  shows "iso_extent d v lba n = iso_extent d v lba k @ iso_block d v (lba + of_nat k)
    @ concat (map (\<lambda>j. iso_block d v (lba + of_nat j)) [Suc k..<n])"
proof -
  have "[0..<n] = [0..<k] @ k # [Suc k..<n]" using assms upt_add_eq_append[of 0 k "n - k"] by (simp add: upt_conv_Cons)
  then show ?thesis by (simp add: iso_extent_def)
qed

lemma iso_block_part:
  assumes "block_drive d v lba n" "k < n" "r + c \<le> 2048"
  shows "slice (iso_block d v (lba + of_nat k)) r c = take c (drop (2048 * k + r) (iso_extent d v lba n))"
  using assms length_iso_extent[OF assms(1), of k] length_iso_block[OF assms(1,2)]
  by (simp add: iso_extent_split[OF assms(2)] slice_take_drop)

section \<open>Files\<close>

lemma iso_loop_step:
  assumes "i < extent_size f" "count \<noteq> 0"
    and "iso9660_read_block d v (extent_lba f + (offset + i) div 2048) (replicate 2048 0) = (True, b)"
  shows "iso9660_read_loop d v f offset i count =
    map_sum id ((@) (slice b (unat (offset mod 2048)) (unat (min 2048 count)))) (iso9660_read_loop d v f offset (i + 2048) (count - min 2048 count))"
proof -
  let ?r = "if count < 2048 then count else 2048"
  have r: "min 2048 count = ?r" by (auto simp: min_def)
  have "unat (offset mod 2048) < 2048" by (simp add: unat_mod_distrib)
  moreover have "unat ?r \<le> 2048" by (auto simp: word_less_nat_alt)
  ultimately have "unat (offset mod 2048) + unat ?r < 2 ^ 32" by simp
  note chunk = chunk_slice[OF this refl, of b]
  show ?thesis
    unfolding r by (subst iso9660_read_loop.simps) (simp only: assms Let_def chunk prod.case simp_thms if_True if_False)
qed

lemma iso_loop_0: "iso9660_read_loop d v f offset i 0 = Inr []"
  by (subst iso9660_read_loop.simps) simp

lemma word_block_number:
  fixes offset i :: u32
  assumes "unat offset + unat i < 2 ^ 32"
  shows "(offset + i) div 2048 = of_nat ((unat offset + unat i) div 2048)"
proof -
  have "unat (offset + i) = unat offset + unat i" using assms by (simp add: unat_add_no_wrap)
  then have "unat ((offset + i) div 2048) = (unat offset + unat i) div 2048" by (simp add: unat_div_distrib)
  then show ?thesis by (metis of_nat_unat ucast_id)
qed

text \<open>One round, for the block with the byte \<open>offset + i\<close>.\<close>

lemma iso_loop_block:
  assumes bd: "block_drive d v (extent_lba f) n" and n: "unat (extent_size f) \<le> 2048 * n"
    and c: "count \<noteq> 0" and i: "2048 dvd unat i" and fit: "unat offset + unat i + unat count \<le> unat (extent_size f)"
    and wp: "offset mod 2048 = 0 \<or> unat (offset mod 2048) + unat count \<le> 2048"
  shows "iso9660_read_loop d v f offset i count =
    map_sum id ((@) (take (min 2048 (unat count)) (drop (unat offset + unat i) (iso_extent d v (extent_lba f) n))))
      (iso9660_read_loop d v f offset (i + 2048) (count - min 2048 count))"
proof -
  let ?k = "(unat offset + unat i) div 2048" and ?r = "unat offset mod 2048"
  have lt: "unat offset + unat i < unat (extent_size f)" "unat i < unat (extent_size f)" using fit c by (simp_all add: unat_gt_0 flip: unat_gt_0)
  then have "?k < n" using n by (simp add: div_less_iff_less_mult)
  have "unat offset + unat i < 2 ^ 32" using lt unat_u32_less[of "extent_size f"] by simp
  note wb = word_block_number[OF this]
  have om: "unat (offset mod 2048) = ?r" by (simp add: unat_mod_distrib)
  have m: "unat (min 2048 count) = min 2048 (unat count)" by (simp add: min_def word_le_nat_alt)
  have r: "?r + min 2048 (unat count) \<le> 2048" using wp om by (auto simp: word_unat_eq_iff)
  have pos: "2048 * ?k + ?r = unat offset + unat i"
  proof -
    have "(unat offset + unat i) mod 2048 = ?r" using i by (metis mod_add_right_eq dvd_eq_mod_eq_0 add_0_right)
    then show ?thesis using mult_div_mod_eq[of 2048 "unat offset + unat i"] by simp
  qed
  have "i < extent_size f" using lt(2) by (simp only: word_less_nat_alt)
  moreover have "iso9660_read_block d v (extent_lba f + (offset + i) div 2048) (replicate 2048 0) = (True, iso_block d v (extent_lba f + of_nat ?k))"
    unfolding wb by (rule read_block_drive[OF bd \<open>?k < n\<close>]) (simp only: length_replicate)
  ultimately show ?thesis
    by (simp only: iso_loop_step[OF _ c] om m iso_block_part[OF bd \<open>?k < n\<close> r] pos)
qed

lemma iso_loop_reads:
  assumes "block_drive d v (extent_lba f) n" "unat (extent_size f) \<le> 2048 * n"
    and "2048 dvd unat i" "unat offset + unat i + unat count \<le> unat (extent_size f)"
    and "offset mod 2048 = 0 \<or> unat (offset mod 2048) + unat count \<le> 2048"
  shows "iso9660_read_loop d v f offset i count =
    Inr (take (unat count) (drop (unat offset + unat i) (iso_extent d v (extent_lba f) n)))"
  using assms(3-5)
proof (induction "unat count" arbitrary: i count rule: less_induct)
  case less
  let ?B = "drop (unat offset + unat i) (iso_extent d v (extent_lba f) n)"
  show ?case
  proof (cases "count = 0")
    case False
    note step = iso_loop_block[OF assms(1,2) False less.prems]
    show ?thesis
    proof (cases "unat count \<le> 2048")
      case True
      then have "min 2048 count = count" by (auto simp: min_def word_le_nat_alt word_unat_eq_iff)
      then show ?thesis using step True by (simp add: iso_loop_0)
    next
      case big: False
      have m: "min 2048 count = 2048" using big by (simp add: min_def word_le_nat_alt)
      have left: "unat (count - 2048) = unat count - 2048" using big by (subst unat_sub) (simp_all add: word_le_nat_alt)
      have i: "unat (i + 2048) = unat i + 2048"
        using less.prems(2) big unat_u32_less[of "extent_size f"] by (subst unat_add_no_wrap) simp_all
      have "iso9660_read_loop d v f offset (i + 2048) (count - 2048) = Inr (take (unat count - 2048) (drop 2048 ?B))"
        using less.hyps[of "count - 2048" "i + 2048"] less.prems big left i by (auto simp: ac_simps)
      moreover have "take 2048 ?B @ take (unat count - 2048) (drop 2048 ?B) = take (unat count) ?B"
        using big take_add[of 2048 "unat count - 2048" ?B] by simp
      ultimately show ?thesis using step big by (simp add: m)
    qed
  qed (simp add: iso_loop_0)
qed

definition iso_file :: "iodriver \<Rightarrow> iso9660_fs \<Rightarrow> iso9660_entry \<Rightarrow> u8 list" where
  "iso_file d v f = take (unat (extent_size f)) (iso_extent d v (extent_lba f) ((unat (extent_size f) + 2047) div 2048))"

lemma iso_read_slice:
  assumes st: "st_private st \<noteq> NULL" "f = st_object st" "block_drive d v (extent_lba f) ((unat (extent_size f) + 2047) div 2048)"
    and len: "unat offset + unat count < 2 ^ 32"
    and wp: "offset mod 2048 = 0 \<or> unat (offset mod 2048) + unat count \<le> 2048"
  shows "iso9660_read d v st count offset = Some (Inr (take (unat count) (drop (unat offset) (iso_file d v f))))"
proof (cases "extent_size f \<le> offset")
  case True
  then show ?thesis using st(1,2) by (simp add: iso9660_read_def iso_file_def word_le_nat_alt)
next
  case False
  define c where "c = (if offset + count > extent_size f then extent_size f - offset else count)"
  have S: "unat offset < unat (extent_size f)" using False by (simp add: word_le_nat_alt)
  have c: "unat c = min (unat count) (unat (extent_size f) - unat offset)"
    unfolding c_def using False len by (intro clipped_count) simp_all
  have "iso9660_read_loop d v f offset 0 c =
    Inr (take (unat c) (drop (unat offset + unat (0 :: u32)) (iso_extent d v (extent_lba f) ((unat (extent_size f) + 2047) div 2048))))"
    using S wp by (intro iso_loop_reads[OF st(3)]) (auto simp: c)
  moreover have "iso9660_read d v st count offset = Some (iso9660_read_loop d v f offset 0 c)"
    using st(1,2) False by (simp add: iso9660_read_def c_def Let_def)
  ultimately show ?thesis by (simp add: iso_file_def drop_take c)
qed

section \<open>Directories\<close>

text \<open>A directory record as the format lays it out, padded to an even length.\<close>

record iso_item =
  it_lba :: u32
  it_size :: u32
  it_dir :: bool
  it_name :: "u8 list"

definition iso_pad :: "u8 list \<Rightarrow> u8 list" where "iso_pad name = (if even (length name) then [0] else [])"

definition iso_record :: "iso_item \<Rightarrow> u8 list \<Rightarrow> u8 list" where
  "iso_record it name = [of_nat (33 + length name + length (iso_pad name)), 0] @ le32_bytes (it_lba it) @ rev (le32_bytes (it_lba it))
     @ le32_bytes (it_size it) @ rev (le32_bytes (it_size it)) @ replicate 7 0
     @ [if it_dir it then 2 else 0, 0, 0, 0, 0, 0, 0, of_nat (length name)] @ name @ iso_pad name"

text \<open>The name of a file is followed by a dot, unless it has an extension, and the version.\<close>

definition disc_name :: "iso_item \<Rightarrow> u8 list" where
  "disc_name it = (if it_dir it then it_name it else (if 46 \<in> set (it_name it) then it_name it else it_name it @ [46]) @ [59, 49])"

definition iso_name_ok :: "u8 list \<Rightarrow> bool" where
  "iso_name_ok n \<longleftrightarrow> n \<noteq> [] \<and> 0 \<notin> set n \<and> last n \<noteq> 46 \<and> length n \<le> 200"

definition iso_records :: "iso_item \<Rightarrow> iso_item \<Rightarrow> iso_item list \<Rightarrow> u8 list list" where
  "iso_records self parent items = iso_record self [0] # iso_record parent [1] # map (\<lambda>it. iso_record it (disc_name it)) items"

definition well_formed_record :: "u8 list \<Rightarrow> bool" where
  "well_formed_record r \<longleftrightarrow> 0 < length r \<and> length r < 256 \<and> r ! 0 = of_nat (length r)"

lemma seek_records:
  assumes "\<forall>r\<in>set rs. well_formed_record r" "length A + length (concat rs) < 2048"
  shows "iso9660_seek (A @ concat rs @ 0 # B) (length A) k =
    Some (if k \<le> length rs then Inr (length A + length (concat (take k rs))) else Inl (- ENOENT))"
  using assms
proof (induction rs arbitrary: A k)
  case Nil
  then show ?case by (cases k) simp_all
next
  case (Cons r rs)
  show ?case
  proof (cases k)
    case (Suc j)
    have r: "0 < length r" "unat (r ! 0) = length r" "r ! 0 \<noteq> 0"
      using Cons.prems(1) by (auto simp: well_formed_record_def unat_of_nat_small word_unat_eq_iff)
    have "(A @ (r @ concat rs) @ 0 # B) ! length A = r ! 0" using r(1) by (simp add: nth_append)
    then show ?thesis
      using Cons.IH[of "A @ r" j] Cons.prems r Suc by (simp add: add.assoc)
  qed simp
qed

lemma length_iso_record [simp]: "length (iso_record it name) = 33 + length name + length (iso_pad name)"
  by (simp add: iso_record_def)

lemma iso_record_fields:
  assumes "length name \<le> 203"
  shows "well_formed_record (iso_record it name)" "le32 (iso_record it name) 2 = it_lba it" "le32 (iso_record it name) 10 = it_size it"
    "iso_record it name ! 25 = (if it_dir it then 2 else 0)" "iso_record it name ! 32 = of_nat (length name)"
    "slice (iso_record it name) 33 (length name) = name"
proof -
  have "length (iso_pad name) \<le> 1" by (simp add: iso_pad_def)
  then show "well_formed_record (iso_record it name)"
    using assms by (simp add: well_formed_record_def) (simp add: iso_record_def)
  have "le32 (iso_record it name) 2 = le32 (le32_bytes (it_lba it) @ []) 0" "le32 (iso_record it name) 10 = le32 (le32_bytes (it_size it) @ []) 0"
    by (rule le32_cong; simp add: iso_record_def nth_append le32_bytes_def less_Suc_eq numeral_eq_Suc; force)+
  then show "le32 (iso_record it name) 2 = it_lba it" "le32 (iso_record it name) 10 = it_size it" by (simp_all only: le32_of_bytes)
  show "iso_record it name ! 25 = (if it_dir it then 2 else 0)" "iso_record it name ! 32 = of_nat (length name)"
    by (simp_all add: iso_record_def nth_append)
  show "slice (iso_record it name) 33 (length name) = name"
    by (rule nth_equalityI) (simp_all add: iso_record_def nth_append)
qed

text \<open>What \<open>readdir\<close> tells about a record: the name, and attributes from which the extent can be found again.\<close>

definition describes :: "iso_item \<Rightarrow> u8 list \<Rightarrow> u8 list \<times> stat \<Rightarrow> bool" where
  "describes it name r \<longleftrightarrow> fst r = name \<and> st_ino (snd r) = it_lba it \<and> st_size (snd r) = it_size it \<and>
     (st_mode (snd r) AND S_IFDIR \<noteq> 0 \<longleftrightarrow> it_dir it) \<and>
     extent_lba (st_object (snd r)) = it_lba it \<and> extent_size (st_object (snd r)) = it_size it"

definition shown_name :: "nat \<Rightarrow> iso_item \<Rightarrow> u8 list \<Rightarrow> u8 list" where
  "shown_name index it name = (if index = 0 then [46] else if index = 1 then [46, 46]
     else let n1 = (if it_dir it then name else take (length name - 2) name)
          in takeWhile (\<lambda>c. c \<noteq> 0) (if n1 \<noteq> [] \<and> last n1 = 46 then butlast n1 else n1))"

definition iso_answer :: "iodriver \<Rightarrow> ptr \<Rightarrow> u8 list \<Rightarrow> nat \<Rightarrow> nat \<Rightarrow> u8 list \<times> stat" where
  "iso_answer d p dir pos index =
     (iso9660_name dir pos index, (iso9660_stat_fill d p (slice dir pos 34))\<lparr>st_ino := extent_lba (slice dir pos 34)\<rparr>)"

lemma slice_shift: "k + n \<le> m \<Longrightarrow> slice (slice bs pos m) k n = slice bs (pos + k) n"
  by (auto simp: list_eq_iff_nth_eq add.assoc)

lemma le32_slice: "i + 4 \<le> n \<Longrightarrow> le32 (slice bs pos n) i = le32 bs (pos + i)"
  by (rule le32_cong) (simp add: add.assoc)

lemma nth_middle: "j < length r \<Longrightarrow> (A @ r @ B) ! (length A + j) = r ! j"
  by (simp add: nth_append)

lemma slice_middle: "j + n \<le> length r \<Longrightarrow> slice (A @ r @ B) (length A + j) n = slice r j n"
  by (simp add: list_eq_iff_nth_eq nth_append)

lemma iso_answer_record:
  assumes len: "0 < length name" "length name \<le> 203"
  shows "describes it (shown_name index it name) (iso_answer d p (A @ iso_record it name @ B) (length A) index)"
proof -
  let ?r = "iso_record it name" and ?dir = "A @ iso_record it name @ B"
  note f = iso_record_fields[OF len(2), of it]
  have e: "slice ?dir (length A) 34 = slice ?r 0 34"
    using slice_middle[of 0 34 ?r A B] len(1) by simp
  have l: "le32 (slice ?r 0 34) 2 = it_lba it" "le32 (slice ?r 0 34) 10 = it_size it"
    using f(2,3) by (simp_all add: le32_slice del: Suc_1 One_nat_def add_2_eq_Suc add_2_eq_Suc')
  have d: "ISSET_BIT_INT (ie_flags (slice ?r 0 34)) FLAG_DIRECTORY \<longleftrightarrow> it_dir it"
    using f(4) by (simp add: ie_flags_def ISSET_BIT_INT_def)
  have n: "unat (name_length (slice ?r 0 34)) = length name"
    using f(5) len(2) by (simp add: name_length_def unat_of_nat_small)
  have raw: "slice ?dir (length A + 33) (length name) = name"
    using f(6) by (simp add: slice_middle)
  have "iso9660_name ?dir (length A) index = shown_name index it name"
    by (simp only: iso9660_name_def shown_name_def e d n raw Let_def)
  then show ?thesis
    by (simp add: describes_def iso_answer_def e iso9660_stat_fill_def extent_lba_def extent_size_def l d)
qed

lemma shown_disc_name:
  assumes "iso_name_ok (it_name it)" "1 < index"
  shows "shown_name index it (disc_name it) = it_name it"
  using assms by (auto simp: shown_name_def disc_name_def iso_name_ok_def butlast_append takeWhile_eq_all_conv Let_def)

definition iso_items :: "iso_item \<Rightarrow> iso_item \<Rightarrow> iso_item list \<Rightarrow> (iso_item \<times> u8 list) list" where
  "iso_items self parent items = (self, [0]) # (parent, [1]) # map (\<lambda>it. (it, disc_name it)) items"

lemma iso_records_items: "iso_records self parent items = map (\<lambda>(it, name). iso_record it name) (iso_items self parent items)"
  by (simp add: iso_records_def iso_items_def comp_def)

lemma disc_name_length: "iso_name_ok (it_name it) \<Longrightarrow> 0 < length (disc_name it) \<and> length (disc_name it) \<le> 203"
  by (auto simp: disc_name_def iso_name_ok_def)

lemma iso_items_names:
  assumes "\<forall>it\<in>set items. iso_name_ok (it_name it)" "(it, name) \<in> set (iso_items self parent items)"
  shows "0 < length name" "length name \<le> 203"
  using assms(2)
  unfolding iso_items_def by (auto dest!: bspec[OF assms(1), THEN disc_name_length])

lemma concat_split_nth:
  "i < length rs \<Longrightarrow> concat rs = concat (take i rs) @ rs ! i @ concat (drop (Suc i) rs)"
  by (metis concat.simps(2) concat_append id_take_nth_drop)

text \<open>\<open>readdir\<close> on a directory whose block is a sequence of records and zeros.\<close>

lemma readdir_records:
  assumes st: "st_private dir \<noteq> NULL" "block_drive d v (extent_lba (st_object dir)) 1"
    and block: "iso_block d v (extent_lba (st_object dir)) = concat rs @ replicate k 0" "34 \<le> k"
    and rs: "\<forall>r\<in>set rs. well_formed_record r" and i: "i < 2 ^ 32"
    and room: "i < length rs \<Longrightarrow> 34 \<le> length (rs ! i) \<and> 33 + unat (rs ! i ! 32) \<le> length (rs ! i)"
  shows "iso9660_readdir d v p dir (of_nat i) =
    Some (if i \<le> length rs then Inr (iso_answer d p (concat rs @ replicate k 0) (length (concat (take i rs))) i) else Inl (- ENOENT))"
proof -
  let ?B = "concat rs @ replicate k 0" and ?pos = "length (concat (take i rs))"
  have len: "length (concat rs) + k = 2048" using length_iso_block[OF st(2), of 0] block(1) by simp
  have rd: "iso9660_read_block d v (extent_lba (st_object dir)) (replicate 2048 0) = (True, ?B)"
    using read_block_drive[OF st(2), of 0 "replicate 2048 0"] block(1) by simp
  obtain k' where k: "k = Suc k'" using block(2) by (cases k) simp_all
  have seek: "iso9660_seek ?B 0 i = Some (if i \<le> length rs then Inr ?pos else Inl (- ENOENT))"
    using seek_records[OF rs, of "[]" "replicate k' 0" i] len k by simp
  have u: "unat (of_nat i :: u32) = i" using i by (simp add: unat_of_nat_small)
  have fits: "?pos + 34 \<le> 2048 \<and> ?pos + 33 + unat (name_length (slice ?B ?pos 34)) \<le> 2048" if "i \<le> length rs"
  proof (cases "i < length rs")
    case True
    let ?r = "rs ! i"
    have sp: "?B = concat (take i rs) @ ?r @ (concat (drop (Suc i) rs) @ replicate k 0)"
      using concat_split_nth[OF True] by simp
    have "name_length (slice ?B ?pos 34) = ?r ! 32"
      unfolding sp name_length_def using room[OF True] nth_middle[of 32 ?r "concat (take i rs)"] by (subst nth_slice) simp_all
    moreover have "?pos + length ?r + k \<le> 2048" using arg_cong[OF sp, of length] len by simp
    ultimately show ?thesis using room[OF True] by simp
  next
    case False
    then have "?pos = length (concat rs)" using that by simp
    moreover have "name_length (slice ?B (length (concat rs)) 34) = 0" using block(2) by (simp add: name_length_def nth_append)
    ultimately show ?thesis using len block(2) by simp
  qed
  show ?thesis
    using st(1) fits by (auto simp: iso9660_readdir_def rd u seek iso_answer_def Let_def)
qed

lemma iso_entry_listed:
  assumes names: "\<forall>it\<in>set items. iso_name_ok (it_name it)" and i: "i < length items + 2"
  shows "describes ((self # parent # items) ! i) (([46] # [46, 46] # map it_name items) ! i)
    (iso_answer d p (concat (iso_records self parent items) @ zs) (length (concat (take i (iso_records self parent items)))) i)"
proof -
  let ?rs = "iso_records self parent items" and ?is = "iso_items self parent items"
  obtain it name where e: "?is ! i = (it, name)" by force
  have l: "i < length ?rs" "i < length ?is" using i by (simp_all add: iso_records_def iso_items_def)
  then have r: "?rs ! i = iso_record it name" by (simp add: iso_records_items e)
  have "(it, name) \<in> set ?is" using l(2) e by (metis nth_mem)
  note n = iso_items_names[OF names this]
  have "concat ?rs @ zs = concat (take i ?rs) @ iso_record it name @ (concat (drop (Suc i) ?rs) @ zs)"
    using concat_split_nth[OF l(1)] r by simp
  then have "describes it (shown_name i it name) (iso_answer d p (concat ?rs @ zs) (length (concat (take i ?rs))) i)"
    using iso_answer_record[OF n] by metis
  moreover have "it = (self # parent # items) ! i \<and> shown_name i it name = ([46] # [46, 46] # map it_name items) ! i"
  proof (cases "i < 2")
    case True
    then show ?thesis using e by (auto simp: less_2_cases_iff iso_items_def shown_name_def)
  next
    case False
    then obtain j where j: "i = Suc (Suc j)" "j < length items" using i by (metis add_2_eq_Suc' less_2_cases_iff not0_implies_Suc Suc_less_eq One_nat_def)
    then show ?thesis using e names shown_disc_name[of "items ! j" i] by (auto simp: iso_items_def)
  qed
  ultimately show ?thesis by metis
qed

lemma iso_records_room:
  assumes names: "\<forall>it\<in>set items. iso_name_ok (it_name it)"
  shows "\<forall>r\<in>set (iso_records self parent items). well_formed_record r \<and> 34 \<le> length r \<and> 33 + unat (r ! 32) \<le> length r"
proof
  fix r assume "r \<in> set (iso_records self parent items)"
  then obtain it name where r: "r = iso_record it name" "(it, name) \<in> set (iso_items self parent items)"
    by (auto simp: iso_records_items)
  note n = iso_items_names[OF names r(2)]
  have "unat (r ! 32) = length name" using iso_record_fields(5)[OF n(2), of it] n(2) r(1) by (simp add: unat_of_nat_small)
  moreover have "length r = 33 + length name + length (iso_pad name)" by (simp add: r(1))
  ultimately show "well_formed_record r \<and> 34 \<le> length r \<and> 33 + unat (r ! 32) \<le> length r"
    using iso_record_fields(1)[OF n(2), of it] n(1) r(1) by (intro conjI; linarith?) simp
qed

section \<open>Properties\<close>

text \<open>C24: Reading a file. On a drive with sectors of 2048 bytes, all blocks of the file readable, \<open>iso9660_read\<close> returns
  exactly the requested part of the file, and no byte behind its end, if the request starts at a block boundary or stays
  inside one block.\<close>

theorem iso9660_read_correct:
  assumes "st_private st \<noteq> NULL" "f = st_object st" "block_drive d v (extent_lba f) ((unat (extent_size f) + 2047) div 2048)"
    and "unat offset + unat count < 2 ^ 32" "offset mod 2048 = 0 \<or> unat (offset mod 2048) + unat count \<le> 2048"
  shows "iso9660_read d v st count offset = Some (Inr (take (unat count) (drop (unat offset) (iso_file d v f))))"
  using assms by (rule iso_read_slice)


text \<open>A disk with one directory and one file.\<close>

definition iso_item_at :: "u32 \<Rightarrow> u32 \<Rightarrow> bool \<Rightarrow> u8 list \<Rightarrow> iso_item" where
  "iso_item_at lba sz dir name = \<lparr>it_lba = lba, it_size = sz, it_dir = dir, it_name = name\<rparr>"

definition sample_iso_dir :: "u8 list" where
  "sample_iso_dir = concat (iso_records (iso_item_at 20 2048 True [46]) (iso_item_at 20 2048 True [46]) [iso_item_at 21 3 False [65]])"

definition sample_iso_disk :: iodriver where
  "sample_iso_disk = \<lparr>device = 0, sector_size = 2048, io_size = 65536,
     read_sector = (\<lambda>lba. Inr (if lba = 20 then sample_iso_dir @ replicate 1942 0 else replicate 2048 7))\<rparr>"

definition sample_iso :: iso9660_fs where "sample_iso = \<lparr>iso_start_lba = 1, iso_rootdir = None\<rparr>"

definition sample_iso_stat :: "u32 \<Rightarrow> u32 \<Rightarrow> stat" where
  "sample_iso_stat lba sz = zero_stat\<lparr>st_private := 1, st_object := iso_record (iso_item_at lba sz False [65]) [65]\<rparr>"

lemma sample_iso_stat_extent:
  "st_private (sample_iso_stat lba sz) = 1" "extent_lba (st_object (sample_iso_stat lba sz)) = lba"
  "extent_size (st_object (sample_iso_stat lba sz)) = sz"
  using iso_record_fields(2,3)[of "[65]" "iso_item_at lba sz False [65]"]
  by (simp_all add: sample_iso_stat_def extent_lba_def extent_size_def iso_item_at_def)

lemma length_sample_iso_dir: "length sample_iso_dir = 106"
  by (simp add: sample_iso_dir_def iso_records_def disc_name_def iso_pad_def iso_item_at_def)

lemma sample_iso_drive: "block_drive sample_iso_disk sample_iso lba n"
  using length_sample_iso_dir by (auto simp: block_drive_def readable_def sample_iso_disk_def)

theorem iso9660_read_correct_witness:
  "iso9660_read sample_iso_disk sample_iso (sample_iso_stat 21 3) 9 1 = Some (Inr [7, 7])"
proof -
  have "iso_file sample_iso_disk sample_iso (st_object (sample_iso_stat 21 3)) = [7, 7, 7]"
    by (simp add: iso_file_def sample_iso_stat_extent iso_extent_def iso_block_def sector_bytes_def sample_iso_disk_def sample_iso_def)
       (simp add: numeral_eq_Suc)
  then show ?thesis
    using iso9660_read_correct[of "sample_iso_stat 21 3" "st_object (sample_iso_stat 21 3)" sample_iso_disk sample_iso 1 9]
    by (simp add: sample_iso_drive sample_iso_stat_extent)
qed


end
