(* ===== verification/Stdio.thy ===== *)
theory Stdio
  imports Kstdlib Tty
begin

text \<open>
  \<^verbatim>\<open>libc/stdio.c\<close>: formatted output over the byte store. The destination, the format, the strings it refers to and
  the local array \<open>buf\<close> are memory; \<open>va_list\<close> is the list of the 32-bit arguments that are left, a string argument
  being its address. \<open>None\<close> stands for a loop that does not end and for a missing argument. The conversion \<open>%f\<close>
  calls floating point code that is not modelled: its result is \<open>None\<close> too.
\<close>

section \<open>State of \<open>vsprintf\<close>\<close>

record fmt_state =
  f_mem :: mem
  f_str :: ptr
  f_format :: ptr
  f_args :: "u32 list"
  f_modifier :: int
  f_curr_mod :: u8
  f_padding :: bool
  f_padding_char :: u8
  f_width :: u32
  f_buf_len :: u32
  f_precision_toggle :: bool
  f_precision :: u32
  f_left_align :: bool
  f_ret :: u32

definition va_arg :: "fmt_state \<Rightarrow> (u32 \<times> fmt_state) option" where
  "va_arg s = (case f_args s of [] \<Rightarrow> None | a # as \<Rightarrow> Some (a, s\<lparr>f_args := as\<rparr>))"

section \<open>Conversions\<close>

definition put_char :: "u8 \<Rightarrow> fmt_state \<Rightarrow> fmt_state" where
  "put_char c s = s\<lparr>f_mem := store8 (f_mem s) (f_str s) c, f_str := f_str s + 1\<rparr>"

text \<open>The number goes to \<open>buf\<close>. With a modifier other than \<open>l\<close>, none and \<open>h\<close> nothing is converted.\<close>

definition convert_number :: "ptr \<Rightarrow> bool \<Rightarrow> int \<Rightarrow> fmt_state \<Rightarrow> fmt_state option" where
  "convert_number buf signed_conv base s =
     (if f_modifier s = 1 then do {
        (a, s1) \<leftarrow> va_arg s;
        (_, m) \<leftarrow> (if signed_conv then ltoa (f_mem s1) a buf base else lutoa (f_mem s1) a buf base);
        Some (s1\<lparr>f_mem := m\<rparr>) }
      else if f_modifier s = 0 then do {
        (a, s1) \<leftarrow> va_arg s;
        (_, m) \<leftarrow> (if signed_conv then itoa (f_mem s1) a buf base else utoa (f_mem s1) a buf base);
        Some (s1\<lparr>f_mem := m\<rparr>) }
      else if f_modifier s = -1 then do {
        (a, s1) \<leftarrow> va_arg s;
        (_, m) \<leftarrow> (if signed_conv then htoa (f_mem s1) (ucast a) buf base else hutoa (f_mem s1) (ucast a) buf base);
        Some (s1\<lparr>f_mem := m\<rparr>) }
      else Some s)"

text \<open>\<open>buf\<close> is moved to the right and filled up on the left.\<close>

definition shift_right :: "cpu_features \<Rightarrow> ptr \<Rightarrow> u8 \<Rightarrow> fmt_state \<Rightarrow> fmt_state" where
  "shift_right cpuf buf c s =
     (let m1 = snd (memmove cpuf (f_mem s) (buf + f_width s - f_buf_len s) buf (f_buf_len s + 1))
      in s\<lparr>f_mem := snd (memset m1 buf (char_int c) (f_width s - f_buf_len s))\<rparr>)"

definition pad_number :: "cpu_features \<Rightarrow> ptr \<Rightarrow> fmt_state \<Rightarrow> fmt_state option" where
  "pad_number cpuf buf s = do {
     n \<leftarrow> strlen (f_mem s) buf;
     let s1 = s\<lparr>f_buf_len := n\<rparr>;
     Some (if f_padding s \<and> f_width s > n then shift_right cpuf buf (f_padding_char s) s1 else s1) }"

definition append_buf :: "cpu_features \<Rightarrow> ptr \<Rightarrow> fmt_state \<Rightarrow> fmt_state option" where
  "append_buf cpuf buf s = do {
     (p, m) \<leftarrow> strcat cpuf (f_mem s) (f_str s) buf;
     n \<leftarrow> strlen m buf;
     Some (s\<lparr>f_mem := m, f_str := p + n\<rparr>) }"

definition number_directive :: "cpu_features \<Rightarrow> ptr \<Rightarrow> bool \<Rightarrow> int \<Rightarrow> fmt_state \<Rightarrow> fmt_state option" where
  "number_directive cpuf buf signed_conv base s = do {
     s1 \<leftarrow> convert_number buf signed_conv base s;
     s2 \<leftarrow> pad_number cpuf buf s1;
     append_buf cpuf buf s2 }"

text \<open>\<open>strcat(str, strupr(buf))\<close>.\<close>

definition upper_directive :: "cpu_features \<Rightarrow> ptr \<Rightarrow> fmt_state \<Rightarrow> fmt_state option" where
  "upper_directive cpuf buf s = do {
     s1 \<leftarrow> convert_number buf True 16 s;
     s2 \<leftarrow> pad_number cpuf buf s1;
     (_, m) \<leftarrow> strupr (f_mem s2) buf;
     append_buf cpuf buf (s2\<lparr>f_mem := m\<rparr>) }"

text \<open>\<open>for (i = 0; i < buf_len; i++) if (buf[i] == 0) buf[i] = ' '\<close>, and the loop that stores blanks.\<close>

fun blank_zeros :: "mem \<Rightarrow> ptr \<Rightarrow> nat \<Rightarrow> mem" where
  "blank_zeros m p 0 = m"
| "blank_zeros m p (Suc k) = blank_zeros (if m p = 0 then store8 m p 32 else m) (p + 1) k"

fun store_blanks :: "mem \<Rightarrow> ptr \<Rightarrow> nat \<Rightarrow> mem" where
  "store_blanks m p 0 = m"
| "store_blanks m p (Suc k) = store_blanks (store8 m p 32) (p + 1) k"

definition fetch_string :: "cpu_features \<Rightarrow> ptr \<Rightarrow> fmt_state \<Rightarrow> fmt_state option" where
  "fetch_string cpuf buf s =
     (if f_precision_toggle s then do {
        (n, s1) \<leftarrow> (if f_curr_mod s = 42 then va_arg s else Some (f_precision s, s));
        (a, s2) \<leftarrow> va_arg s1;
        (_, m) \<leftarrow> strncpy cpuf (f_mem s2) buf a n;
        Some (s2\<lparr>f_mem := blank_zeros m buf (unat n), f_buf_len := n\<rparr>) }
      else do {
        (a, s1) \<leftarrow> va_arg s;
        (_, m) \<leftarrow> strcpy cpuf (f_mem s1) buf a;
        n \<leftarrow> strlen m buf;
        Some (s1\<lparr>f_mem := m, f_buf_len := n\<rparr>) })"

text \<open>Moving the text to the right does not change \<open>buf_len\<close>.\<close>

definition align_string :: "cpu_features \<Rightarrow> ptr \<Rightarrow> fmt_state \<Rightarrow> fmt_state" where
  "align_string cpuf buf s =
     (if f_width s > f_buf_len s
      then if f_left_align s
        then s\<lparr>f_mem := store8 (store_blanks (f_mem s) (buf + f_buf_len s) (unat (f_width s) - unat (f_buf_len s))) (buf + f_width s) 0,
               f_buf_len := f_width s\<rparr>
        else shift_right cpuf buf 32 s
      else s)"

definition string_directive :: "cpu_features \<Rightarrow> ptr \<Rightarrow> fmt_state \<Rightarrow> fmt_state option" where
  "string_directive cpuf buf s = do {
     s1 \<leftarrow> fetch_string cpuf buf s;
     let s2 = align_string cpuf buf s1;
     (p, m) \<leftarrow> strncat cpuf (f_mem s2) (f_str s2) buf (f_buf_len s2);
     Some (s2\<lparr>f_mem := m, f_str := p + f_buf_len s2\<rparr>) }"

section \<open>The loop over the format\<close>

definition take_digit :: "u8 \<Rightarrow> fmt_state \<Rightarrow> fmt_state" where
  "take_digit c s =
     (if f_precision_toggle s then s\<lparr>f_precision := f_precision s * 10 + (ucast c - 48)\<rparr>
      else s\<lparr>f_curr_mod := (if f_curr_mod s = 0 then 32 else f_curr_mod s), f_width := f_width s * 10 + (ucast c - 48)\<rparr>)"

text \<open>The cases of the switch that end with \<open>continue\<close>.\<close>

definition modifier_case :: "u8 \<Rightarrow> fmt_state \<Rightarrow> fmt_state option" where
  "modifier_case c s =
     (if c = 45 then Some (s\<lparr>f_curr_mod := c, f_left_align := True\<rparr>)
      else if c = 32 then Some (s\<lparr>f_curr_mod := c, f_padding := True, f_padding_char := 32\<rparr>)
      else if c = 48 \<and> \<not> f_padding s \<and> f_curr_mod s = 0
        then Some (s\<lparr>f_curr_mod := c, f_padding := True, f_padding_char := 48\<rparr>)
      else if c \<ge> 48 \<and> c \<le> 57 then Some (take_digit c s)
      else if c = 46 then Some (s\<lparr>f_curr_mod := c, f_precision_toggle := True\<rparr>)
      else if c = 42 then Some (s\<lparr>f_curr_mod := c\<rparr>)
      else if c = 108 then Some (s\<lparr>f_modifier := f_modifier s + 1\<rparr>)
      else if c = 104 then Some (s\<lparr>f_modifier := f_modifier s - 1\<rparr>)
      else None)"

text \<open>The cases that end with \<open>break\<close>, and other characters, for which nothing is done.\<close>

definition conversion_case :: "cpu_features \<Rightarrow> ptr \<Rightarrow> u8 \<Rightarrow> fmt_state \<Rightarrow> fmt_state option" where
  "conversion_case cpuf buf c s =
     (if c = 37 then Some (put_char 37 s)
      else if c = 99 then do { (a, s1) \<leftarrow> va_arg s; Some (put_char (ucast a) s1) }
      else if c = 115 then string_directive cpuf buf s
      else if c = 117 then number_directive cpuf buf False 10 s
      else if c = 105 \<or> c = 100 then number_directive cpuf buf True 10 s
      else if c = 111 then number_directive cpuf buf True 8 s
      else if c = 98 then number_directive cpuf buf False 2 s
      else if c = 112 then number_directive cpuf buf False 16 (s\<lparr>f_modifier := 1, f_padding := True, f_width := 8, f_padding_char := 48\<rparr>)
      else if c = 120 then number_directive cpuf buf False 16 s
      else if c = 88 then upper_directive cpuf buf s
      else if c = 102 then None
      else Some s)"

definition reset_flags :: "fmt_state \<Rightarrow> fmt_state" where
  "reset_flags s = s\<lparr>f_curr_mod := 0, f_modifier := 0, f_padding := False, f_width := 0, f_precision_toggle := False, f_precision := 0\<rparr>"

definition in_directive :: "fmt_state \<Rightarrow> bool" where
  "in_directive s \<longleftrightarrow> f_modifier s \<noteq> 0 \<or> f_padding s \<or> f_curr_mod s \<noteq> 0 \<or> f_mem s (f_format s) = 37"

definition count_output :: "ptr \<Rightarrow> fmt_state \<Rightarrow> fmt_state" where
  "count_output old_str s = s\<lparr>f_ret := f_ret s + (f_str s - old_str), f_format := f_format s + 1\<rparr>"

partial_function (option) vsprintf_loop :: "cpu_features \<Rightarrow> ptr \<Rightarrow> fmt_state \<Rightarrow> fmt_state option" where
  "vsprintf_loop cpuf buf s =
     (if f_mem s (f_format s) = 0 then Some s
      else if in_directive s
      then let s1 = s\<lparr>f_format := f_format s + 1\<rparr>; c = f_mem s1 (f_format s1)
           in (case modifier_case c s1 of
                 Some s2 \<Rightarrow> vsprintf_loop cpuf buf s2
               | None \<Rightarrow> do {
                   s2 \<leftarrow> conversion_case cpuf buf c s1;
                   vsprintf_loop cpuf buf (count_output (f_str s) (reset_flags s2)) })
      else vsprintf_loop cpuf buf (count_output (f_str s) (put_char (f_mem s (f_format s)) s)))"

text \<open>\<open>buf\<close> is the address of the local array of 1024 bytes.\<close>

definition vsprintf :: "cpu_features \<Rightarrow> ptr \<Rightarrow> mem \<Rightarrow> ptr \<Rightarrow> ptr \<Rightarrow> u32 list \<Rightarrow> (u32 \<times> mem) option" where
  "vsprintf cpuf buf m str format args =
     map_option (\<lambda>s. (f_ret s, f_mem s)) (vsprintf_loop cpuf buf
       \<lparr>f_mem = fill m buf 0 1024, f_str = str, f_format = format, f_args = args, f_modifier = 0, f_curr_mod = 0, f_padding = False,
        f_padding_char = 0, f_width = 0, f_buf_len = 0, f_precision_toggle = False, f_precision = 0, f_left_align = False, f_ret = 0\<rparr>)"

definition sprintf :: "cpu_features \<Rightarrow> ptr \<Rightarrow> mem \<Rightarrow> ptr \<Rightarrow> ptr \<Rightarrow> u32 list \<Rightarrow> (u32 \<times> mem) option" where
  "sprintf cpuf buf m str format args = vsprintf cpuf buf m str format args"

section \<open>Output to the current terminal\<close>

definition putchar :: "font \<Rightarrow> u8 \<Rightarrow> 's term_state \<Rightarrow> (int \<times> 's term_state) option" where
  "putchar ascii c ts = do { (_, ts1) \<leftarrow> tty_write ascii [c] ts; Some (0, ts1) }"

definition puts_plain :: "font \<Rightarrow> mem \<Rightarrow> ptr \<Rightarrow> 's term_state \<Rightarrow> (int \<times> 's term_state) option" where
  "puts_plain ascii m str ts = do {
     n \<leftarrow> strlen m str;
     (_, ts1) \<leftarrow> tty_write ascii (bytes m str (unat n)) ts;
     Some (0, ts1) }"

definition puts :: "font \<Rightarrow> mem \<Rightarrow> ptr \<Rightarrow> 's term_state \<Rightarrow> (int \<times> 's term_state) option" where
  "puts ascii m str ts = do {
     (r, ts1) \<leftarrow> puts_plain ascii m str ts;
     if r \<noteq> 0 then Some (-1, ts1)
     else do { (_, ts2) \<leftarrow> putchar ascii 10 ts1; Some (1, ts2) } }"

text \<open>\<open>out\<close> is the address of the local array of 4096 bytes of \<open>vprintf\<close>, \<open>buf\<close> that of \<open>vsprintf\<close>.\<close>

definition vprintf :: "cpu_features \<Rightarrow> font \<Rightarrow> ptr \<Rightarrow> ptr \<Rightarrow> mem \<Rightarrow> ptr \<Rightarrow> u32 list \<Rightarrow> 's term_state \<Rightarrow> (u32 \<times> mem \<times> 's term_state) option" where
  "vprintf cpuf ascii buf out m format args ts = do {
     (ret, m1) \<leftarrow> vsprintf cpuf buf (fill m out 0 4096) out format args;
     (_, ts1) \<leftarrow> puts_plain ascii m1 out ts;
     Some (ret, m1, ts1) }"

definition printf :: "cpu_features \<Rightarrow> font \<Rightarrow> ptr \<Rightarrow> ptr \<Rightarrow> mem \<Rightarrow> ptr \<Rightarrow> u32 list \<Rightarrow> 's term_state \<Rightarrow> (u32 \<times> mem \<times> 's term_state) option" where
  "printf cpuf ascii buf out m format args ts = vprintf cpuf ascii buf out m format args ts"

section \<open>Streams\<close>

text \<open>Stubs: there are no streams in the kernel, and \<open>scanf\<close> reads nothing.\<close>

definition fclose :: "ptr \<Rightarrow> int" where "fclose stream = 0"
definition fflush :: "ptr \<Rightarrow> int" where "fflush stream = 0"
definition fopen :: "ptr \<Rightarrow> ptr \<Rightarrow> ptr" where "fopen filename mode = NULL"
definition freopen :: "ptr \<Rightarrow> ptr \<Rightarrow> ptr \<Rightarrow> ptr" where "freopen filename mode stream = NULL"
definition scanf :: "ptr \<Rightarrow> u32 list \<Rightarrow> int" where "scanf format args = 0"

declare vsprintf_loop.simps [code]

end
