(* ===== verification/Stdio_Laws.thy ===== *)
theory Stdio_Laws
  imports Stdio Kstdlib_Laws Tty_Laws
begin

text \<open>
  What a format means, as a list of directives, and that \<open>vsprintf\<close> writes it.
\<close>

section \<open>Texts in the local buffer\<close>

text \<open>A step that changes memory in the 1024 bytes of \<open>buf\<close> only.\<close>

definition local_change :: "ptr \<Rightarrow> mem \<Rightarrow> mem \<Rightarrow> bool" where
  "local_change buf m m' \<longleftrightarrow> (\<forall>a. 1024 \<le> unat (a - buf) \<longrightarrow> m' a = m a)"

lemma local_change_refl [simp]: "local_change buf m m"
  by (simp add: local_change_def)

lemma local_change_trans: "local_change buf m m' \<Longrightarrow> local_change buf m' m'' \<Longrightarrow> local_change buf m m''"
  by (simp add: local_change_def)

lemma local_change_put: "length t \<le> 1024 \<Longrightarrow> local_change buf m (put m buf t)"
  by (simp add: local_change_def put_outside)

text \<open>A text of less than 1024 characters in \<open>buf\<close>.\<close>

definition holds :: "ptr \<Rightarrow> mem \<Rightarrow> u8 list \<Rightarrow> bool" where
  "holds buf m t \<longleftrightarrow> cstr m buf t \<and> length t < 1024"

lemma holds_put: "0 \<notin> set t \<Longrightarrow> length t < 1024 \<Longrightarrow> holds buf (put m buf (t @ [0])) t"
  by (simp add: holds_def cstr_put)

lemma shift_right_holds:
  assumes t: "holds buf (f_mem s) t" and w: "length t < unat (f_width s)" "unat (f_width s) < 1024" and b: "unat buf + 1024 \<le> 2 ^ 32"
    and n: "f_buf_len s = of_nat (length t)" and c: "c \<noteq> 0"
  shows "\<exists>m. shift_right cpuf buf c s = s\<lparr>f_mem := m\<rparr> \<and> local_change buf (f_mem s) m \<and>
    holds buf m (replicate (unat (f_width s) - length t) c @ t)"
proof -
  let ?m = "f_mem s" and ?n = "length t"
  define d where "d = unat (f_width s) - ?n"
  have d: "unat (f_width s) = d + ?n" "0 < d" "d + ?n < 1024" using w by (auto simp: d_def)
  then have wd: "f_width s = of_nat d + f_buf_len s" by (metis n of_nat_add of_nat_unat ucast_id)
  have "f_buf_len s + 1 = of_nat (Suc ?n)" by (simp add: n)
  then have u: "unat (f_buf_len s + 1) = Suc ?n" using d unat_of_nat_small[of "Suc ?n", where 'a = 32] by (simp del: of_nat_Suc)
  have u2: "unat (buf + of_nat d) = unat buf + d" using d b by (intro unat_add_of_nat) simp
  have u3: "unat (of_nat d :: u32) = d" using d by (intro unat_of_nat_small) simp
  let ?m' = "fill (blit ?m (buf + of_nat d) buf (Suc ?n)) buf c d"
  have "memmove cpuf ?m (buf + of_nat d) buf (f_buf_len s + 1) = (buf + of_nat d, blit ?m (buf + of_nat d) buf (Suc ?n))"
    using d b u u2 by (subst memmove_blit) simp_all
  then have run: "shift_right cpuf buf c s = s\<lparr>f_mem := ?m'\<rparr>"
    by (simp add: shift_right_def Let_def wd u3 memset_def char_int_def)
  have low: "?m' (buf + of_nat i) = c" if "i < d" for i using that d by (intro fill_inside) simp_all
  have high: "?m' (buf + of_nat (d + i)) = ?m (buf + of_nat i)" if "i \<le> ?n" for i
  proof -
    have "?m' (buf + of_nat (d + i)) = blit ?m (buf + of_nat d) buf (Suc ?n) (buf + of_nat (d + i))"
      using that d fill_off[of "d + i" 0 d _ buf c] by (simp del: of_nat_add)
    moreover have "buf + of_nat (d + i) = (buf + of_nat d) + of_nat i" by simp
    moreover have "blit ?m (buf + of_nat d) buf (Suc ?n) ((buf + of_nat d) + of_nat i) = ?m (buf + of_nat i)"
      using that d by (intro blit_inside) simp_all
    ultimately show ?thesis by metis
  qed
  have "cstr ?m' buf (replicate d c @ t)"
  proof (rule cstrI)
    fix i assume i: "i < length (replicate d c @ t)"
    show "?m' (buf + of_nat i) = (replicate d c @ t) ! i"
      using i low[of i] high[of "i - d"] cstr_nth[of ?m buf t "i - d"] t by (cases "i < d") (auto simp: nth_append holds_def)
  qed (use high[of ?n] cstr_end[of ?m buf t] cstr_not_0[of ?m buf t] t c in \<open>auto simp: holds_def\<close>)
  moreover have "local_change buf ?m ?m'"
    unfolding local_change_def
  proof (intro allI impI)
    fix a assume a: "1024 \<le> unat (a - buf)"
    define k where "k = unat (a - buf)"
    have k: "a = buf + of_nat k" "1024 \<le> k" "k < 2 ^ 32" using a unat_u32_less[of "a - buf"] by (simp_all add: k_def)
    then have "\<not> unat (a - (buf + of_nat d)) < Suc ?n" using off_less[of k d "Suc ?n" buf] d by simp
    then show "?m' a = ?m a" using a d by (simp add: fill_outside blit_outside)
  qed
  moreover have "unat (f_width s) - ?n = d" using d by simp
  ultimately show ?thesis using run d by (intro exI[of _ ?m']) (simp add: holds_def)
qed

lemma store_blanks_fill: "k \<le> 2 ^ 32 \<Longrightarrow> store_blanks m p k = fill m p 32 k"
  by (induction k arbitrary: m p) (simp add: fill_def, simp add: fill_Suc)

lemma blank_zeros_at:
  "k \<le> 2 ^ 32 \<Longrightarrow> blank_zeros m p k a = (if unat (a - p) < k \<and> m a = 0 then 32 else m a)"
proof (induction k arbitrary: m p)
  case (Suc k)
  show ?case
  proof (cases "a = p")
    case True
    then show ?thesis using Suc.IH[of _ "p + 1"] Suc.prems unat_pred_diff[of p] by (simp add: store8_def)
  next
    case False
    then show ?thesis using Suc.IH[of _ "p + 1"] Suc.prems unat_diff_Suc[OF False] by (simp add: store8_def)
  qed
qed simp

definition upper :: "u8 \<Rightarrow> u8" where
  "upper c = int_char (toupper (char_int c))"

lemma strupr_text:
  "cstr m p t \<Longrightarrow> \<forall>c\<in>set t. upper c \<noteq> 0 \<Longrightarrow> strupr m p = Some (p, put m p (map upper t))"
  unfolding strupr_def
proof (induction t arbitrary: m p)
  case Nil
  then have "store8 m p 0 = m" "m p = 0" by (auto simp: store8_def)
  moreover have "int_char (toupper (char_int 0)) = 0" by code_simp
  ultimately show ?case by (subst strupr_loop.simps) (simp add: Let_def)
next
  case (Cons c t)
  have len: "length t < 2 ^ 32" using cstr_length[OF Cons.prems(1)] by simp
  have ne: "p + 1 + of_nat i \<noteq> p" if "i \<le> length t" for i
  proof
    assume "p + 1 + of_nat i = p"
    then have "p + of_nat (Suc i) = p + of_nat 0" by (simp add: add.assoc)
    then show False using that cstr_length[OF Cons.prems(1)] word_add_of_nat_inj[of p "Suc i" 0] by simp
  qed
  have "cstr m (p + 1) t" using Cons.prems(1) by simp
  then have "cstr (store8 m p (upper c)) (p + 1) t" by (rule cstr_cong) (use ne in \<open>simp add: store8_def\<close>)
  moreover have c: "m p = c" "upper c \<noteq> 0" "\<forall>c\<in>set t. upper c \<noteq> 0" using Cons.prems by auto
  moreover have "strupr_loop m p = strupr_loop (store8 m p (upper c)) (p + 1)"
    using c(2) by (subst strupr_loop.simps) (simp add: Let_def c(1) flip: upper_def)
  ultimately show ?case using Cons.IH[of "store8 m p (upper c)" "p + 1"] len by (auto simp: put_Cons)
qed

section \<open>Appending to the output\<close>

text \<open>At a place with NULs up to behind the text, \<open>strncat\<close> stores the text.\<close>

lemma strncat_take:
  assumes t: "cstr m buf t" and k: "k \<le> length t" and z: "m str = 0" "m (str + of_nat k) = 0"
    and ok: "fwd_ok str buf k" "unat str + k < 2 ^ 32"
  shows "strncat cpuf m str buf (of_nat k) = Some (str, put m str (take k t))"
proof -
  have n: "unat (of_nat k :: u32) = k" using k cstr_length[OF t] by (simp add: unat_of_nat_small)
  have "strlen m str = Some 0" using strlen_cstr[of m str "[]"] z(1) by simp
  moreover obtain m' where m': "strncpy cpuf m str buf (of_nat k) = Some (str, m')"
    "\<forall>i\<le>k. m' (str + of_nat i) = (if i < k then t ! i else 0)" "\<forall>a. k < unat (a - str) \<longrightarrow> m' a = m a"
    using strncpy_bytes[OF t, of str "of_nat k" cpuf] ok n k by (auto simp: min_absorb2)
  have "m' a = put m str (take k t) a" for a
  proof (cases "k < unat (a - str)")
    case False
    define i where "i = unat (a - str)"
    have a: "a = str + of_nat i" "i \<le> k" "unat (a - str) = i" using False by (simp_all add: i_def)
    have "m' a = (if i < k then t ! i else 0)" using m'(2) a(1,2) by blast
    moreover have "put m str (take k t) a = (if i < k then t ! i else m a)" using k by (simp add: put_def a(3))
    ultimately show ?thesis using z(2) a(1,2) by (cases "i < k") auto
  qed (use m'(3) k in \<open>simp add: put_outside\<close>)
  then have "m' = put m str (take k t)" by (simp add: fun_eq_iff)
  ultimately show ?thesis using m'(1) by (simp add: strncat_def)
qed

lemmas strncat_put = strncat_take[where k = "length t" and t = t for t, OF _ order_refl, simplified take_all order_refl]

text \<open>Two areas that do not overlap.\<close>

definition apart :: "ptr \<Rightarrow> nat \<Rightarrow> ptr \<Rightarrow> nat \<Rightarrow> bool" where
  "apart p n q k \<longleftrightarrow> unat p + n \<le> 2 ^ 32 \<and> unat q + k \<le> 2 ^ 32 \<and> (unat p + n \<le> unat q \<or> unat q + k \<le> unat p)"

lemma apart_fwd: "apart p n q k \<Longrightarrow> j \<le> n \<Longrightarrow> j \<le> k \<Longrightarrow> fwd_ok p q j"
  by (auto simp: apart_def fwd_ok_def)

lemma apart_sym: "apart p n q k \<Longrightarrow> apart q k p n"
  by (auto simp: apart_def)

lemma apart_mono: "apart p n q k \<Longrightarrow> n' \<le> n \<Longrightarrow> k' \<le> k \<Longrightarrow> apart p n' q k'"
  by (auto simp: apart_def)

lemma apart_part: "apart p n q k \<Longrightarrow> i + n' \<le> n \<Longrightarrow> i < n \<Longrightarrow> apart (p + of_nat i) n' q k"
  by (auto simp: apart_def unat_add_of_nat)

lemma apart_address:
  assumes "apart p n q k" "i < n"
  shows "k \<le> unat (p + of_nat i - q)"
proof (rule ccontr)
  assume "\<not> k \<le> unat (p + of_nat i - q)"
  then obtain j where j: "j < k" "p + of_nat i = q + of_nat j" by (auto simp: unat_diff_less_iff not_le)
  then have "unat p + i = unat q + j"
    using assms unat_add_of_nat[of p i] unat_add_of_nat[of q j] by (auto simp: apart_def)
  then show False using assms j(1) by (auto simp: apart_def)
qed

lemma append_buf_put:
  assumes t: "holds buf (f_mem s) t" and z: "f_mem s (f_str s) = 0" "f_mem s (f_str s + of_nat (length t)) = 0"
    and a: "apart (f_str s) (Suc (length t)) buf 1024"
  shows "append_buf cpuf buf s = Some (s\<lparr>f_mem := put (f_mem s) (f_str s) t, f_str := f_str s + of_nat (length t)\<rparr>)"
proof -
  have c: "cstr (f_mem s) buf t" "length t < 1024" using t by (simp_all add: holds_def)
  have "strncat cpuf (f_mem s) (f_str s) buf (of_nat (length t)) = Some (f_str s, put (f_mem s) (f_str s) t)"
    using a c by (intro strncat_put[OF c(1) z] apart_fwd[OF a]) (auto simp: apart_def)
  moreover have "cstr (put (f_mem s) (f_str s) t) buf t"
  proof (rule cstr_cong[OF c(1)])
    fix i assume "i \<le> length t"
    then show "put (f_mem s) (f_str s) t (buf + of_nat i) = f_mem s (buf + of_nat i)"
      using apart_address[OF apart_sym[OF a], of i] c(2) by (intro put_outside) simp
  qed
  ultimately show ?thesis using c(1) by (simp add: append_buf_def strcat_def strlen_cstr)
qed

section \<open>Numbers\<close>

datatype length_mod = Short | Plain | Long

datatype conversion = Unsigned | Signed | Octal | Binary | Hex | Upper_hex

fun mod_value :: "length_mod \<Rightarrow> int" where
  "mod_value Short = -1" | "mod_value Plain = 0" | "mod_value Long = 1"

text \<open>The text of a number. Negative numbers have a sign in decimal only; to the bases 8 and 16 with capitals it is the
  magnitude that is shown.\<close>

definition signed_text :: "nat \<Rightarrow> u32 \<Rightarrow> u8 list" where
  "signed_text b v = (if b = 10 \<and> sint v < 0 then 45 # dig_text b (unat (- v)) else dig_text b (unat (labs v)))"

definition number_text :: "bool \<Rightarrow> nat \<Rightarrow> length_mod \<Rightarrow> u32 \<Rightarrow> u8 list" where
  "number_text signed_conv b l a =
     (if signed_conv then signed_text b (if l = Short then scast (ucast a :: u16) else a)
      else dig_text b (unat (if l = Short then ucast (ucast a :: u16) else a)))"

lemma signed_text_props:
  assumes "2 \<le> b" "b \<le> 36"
  shows "0 \<notin> set (signed_text b v)" "length (signed_text b v) \<le> 33"
  using dig_text_props(1,2)[OF assms, of "unat (- v)"] dig_text_props(1,2)[OF assms, of "unat (labs v)"]
    unat_u32_less[of "- v"] unat_u32_less[of "labs v"] by (auto simp: signed_text_def)

lemma number_text_props:
  assumes "2 \<le> b" "b \<le> 36"
  shows "0 \<notin> set (number_text sc b l a)" "length (number_text sc b l a) \<le> 33"
proof -
  have "0 \<notin> set (dig_text b (unat v))" "length (dig_text b (unat v)) \<le> 32" for v :: u32
    using dig_text_props(1,2)[OF assms, of "unat v"] unat_u32_less[of v] by simp_all
  then show "0 \<notin> set (number_text sc b l a)" "length (number_text sc b l a) \<le> 33"
    using signed_text_props[OF assms] by (auto simp: number_text_def intro: order_trans[where y = 32])
qed

lemma convert_number_text:
  assumes b: "2 \<le> b" "b \<le> 36" and fits: "unat buf + 1024 \<le> 2 ^ 32" and l: "f_modifier s = mod_value l" and a: "f_args s = a # as"
  shows "convert_number buf sc (int b) s =
    Some (s\<lparr>f_mem := put (f_mem s) buf (number_text sc b l a @ [0]), f_args := as\<rparr>)"
proof -
  have u: "lutoa m v buf (int b) = Some (buf, put m buf (dig_text b (unat v) @ [0]))" for m v
    using lutoa_text[OF b] fits by simp
  have i: "ltoa m v buf (int b) = Some (buf, put m buf (signed_text b v @ [0]))" for m v
    using ltoa_text[OF b] fits by (simp add: signed_text_def)
  show ?thesis using l a
    by (cases l) (simp_all add: convert_number_def va_arg_def number_text_def itoa_def htoa_def utoa_def hutoa_def u i)
qed

text \<open>Padding on the left to a width, with blanks or zeros.\<close>

definition pad :: "(u8 \<times> nat) option \<Rightarrow> u8 list \<Rightarrow> u8 list" where
  "pad p t = (case p of None \<Rightarrow> t | Some (c, w) \<Rightarrow> replicate (w - length t) c @ t)"

definition pad_flags :: "(u8 \<times> nat) option \<Rightarrow> fmt_state \<Rightarrow> bool" where
  "pad_flags p s \<longleftrightarrow> (case p of None \<Rightarrow> \<not> f_padding s
     | Some (c, w) \<Rightarrow> f_padding s \<and> f_padding_char s = c \<and> c \<noteq> 0 \<and> f_width s = of_nat w \<and> w < 1024)"

lemma pad_number_holds:
  assumes t: "holds buf (f_mem s) t" and p: "pad_flags p s" and b: "unat buf + 1024 \<le> 2 ^ 32"
  shows "\<exists>m n. pad_number cpuf buf s = Some (s\<lparr>f_mem := m, f_buf_len := n\<rparr>) \<and> local_change buf (f_mem s) m \<and> holds buf m (pad p t)"
proof -
  have n: "strlen (f_mem s) buf = Some (of_nat (length t))" "unat (of_nat (length t) :: u32) = length t"
    using t strlen_cstr unat_cstr_length by (auto simp: holds_def)
  show ?thesis
  proof (cases "f_padding s \<and> f_width s > of_nat (length t)")
    case False
    then have "pad p t = t" using p n(2) by (auto simp: pad_def pad_flags_def word_less_nat_alt unat_of_nat_small split: option.splits)
    then show ?thesis using t n False
      by (intro exI[of _ "f_mem s"] exI[of _ "of_nat (length t)"]) (auto simp: pad_number_def)
  next
    case True
    then obtain c w where cw: "p = Some (c, w)" "f_padding_char s = c" "c \<noteq> 0" "f_width s = of_nat w" "w < 1024"
      using p by (auto simp: pad_flags_def split: option.splits)
    have w: "unat (f_width s) = w" using cw by (simp add: unat_of_nat_small)
    have lt: "length t < w" using True w n(2) by (simp add: word_less_nat_alt)
    let ?s = "s\<lparr>f_buf_len := of_nat (length t)\<rparr>"
    obtain m where "shift_right cpuf buf c ?s = ?s\<lparr>f_mem := m\<rparr>" "local_change buf (f_mem s) m" "holds buf m (replicate (w - length t) c @ t)"
      using shift_right_holds[of buf ?s t c cpuf] t w lt cw b by auto
    then show ?thesis using True n cw
      by (intro exI[of _ m] exI[of _ "of_nat (length t)"]) (simp add: pad_number_def pad_def)
  qed
qed

text \<open>NULs from the place of output on; they stay when only \<open>buf\<close> changes.\<close>

definition zeros_at :: "mem \<Rightarrow> ptr \<Rightarrow> nat \<Rightarrow> bool" where
  "zeros_at m p n \<longleftrightarrow> (\<forall>i\<le>n. m (p + of_nat i) = 0)"

lemma zeros_local: "zeros_at m p n \<Longrightarrow> local_change buf m m' \<Longrightarrow> apart p (Suc n) buf 1024 \<Longrightarrow> zeros_at m' p n"
  using apart_address[of p "Suc n" buf 1024] by (simp add: zeros_at_def local_change_def)

lemma append_out:
  assumes "holds buf (f_mem s) t" "zeros_at (f_mem s) (f_str s) (length t)" "apart (f_str s) (Suc (length t)) buf 1024"
  shows "append_buf cpuf buf s = Some (s\<lparr>f_mem := put (f_mem s) (f_str s) t, f_str := f_str s + of_nat (length t)\<rparr>)"
proof -
  have "f_mem s (f_str s + of_nat 0) = 0" "f_mem s (f_str s + of_nat (length t)) = 0" using assms(2) unfolding zeros_at_def by blast+
  then show ?thesis using assms(1,3) by (intro append_buf_put) simp_all
qed

text \<open>The effect of a conversion: the text is stored at the place of output.\<close>

definition outputs :: "ptr \<Rightarrow> fmt_state \<Rightarrow> u8 list \<Rightarrow> u32 list \<Rightarrow> fmt_state option \<Rightarrow> bool" where
  "outputs buf s t as r \<longleftrightarrow> (\<exists>m n. local_change buf (f_mem s) m \<and>
     r = Some (s\<lparr>f_mem := put m (f_str s) t, f_str := f_str s + of_nat (length t), f_args := as, f_buf_len := n\<rparr>))"

text \<open>A number, padded, in \<open>buf\<close>.\<close>

lemma number_holds:
  assumes b: "2 \<le> b" "b \<le> 36" and fits: "unat buf + 1024 \<le> 2 ^ 32" and l: "f_modifier s = mod_value l" and a: "f_args s = a # as"
    and p: "pad_flags p s"
  obtains m n where "local_change buf (f_mem s) m" "holds buf m (pad p (number_text sc b l a))"
    "(convert_number buf sc (int b) s \<bind> pad_number cpuf buf) = Some (s\<lparr>f_mem := m, f_args := as, f_buf_len := n\<rparr>)"
proof -
  let ?t = "number_text sc b l a"
  let ?s1 = "s\<lparr>f_mem := put (f_mem s) buf (?t @ [0]), f_args := as\<rparr>"
  note tp = number_text_props[OF b, of sc l a]
  have h: "holds buf (f_mem ?s1) ?t" "local_change buf (f_mem s) (f_mem ?s1)"
    using tp by (simp_all add: holds_put local_change_put)
  have "pad_flags p ?s1" using p by (cases p) (auto simp: pad_flags_def)
  from pad_number_holds[OF h(1) this fits, of cpuf] obtain m n where
    m: "pad_number cpuf buf ?s1 = Some (?s1\<lparr>f_mem := m, f_buf_len := n\<rparr>)" "local_change buf (f_mem ?s1) m" "holds buf m (pad p ?t)"
    by auto
  show ?thesis
    using convert_number_text[OF b fits l a] m local_change_trans[OF h(2) m(2)] by (intro that[of m n]) simp_all
qed

lemma number_directive_out:
  assumes b: "2 \<le> b" "b \<le> 36" and fits: "unat buf + 1024 \<le> 2 ^ 32" and l: "f_modifier s = mod_value l" and a: "f_args s = a # as"
    and p: "pad_flags p s" and t: "t = pad p (number_text sc b l a)"
    and z: "zeros_at (f_mem s) (f_str s) (length t)" and ap: "apart (f_str s) (Suc (length t)) buf 1024"
  shows "outputs buf s t as (number_directive cpuf buf sc (int b) s)"
proof -
  obtain m n where m: "local_change buf (f_mem s) m" "holds buf m t"
    "(convert_number buf sc (int b) s \<bind> pad_number cpuf buf) = Some (s\<lparr>f_mem := m, f_args := as, f_buf_len := n\<rparr>)"
    using number_holds[OF b fits l a p, where sc = sc and cpuf = cpuf] t by metis
  have "append_buf cpuf buf (s\<lparr>f_mem := m, f_args := as, f_buf_len := n\<rparr>) =
    Some (s\<lparr>f_mem := put m (f_str s) t, f_args := as, f_buf_len := n, f_str := f_str s + of_nat (length t)\<rparr>)"
    using append_out[of buf "s\<lparr>f_mem := m, f_args := as, f_buf_len := n\<rparr>" t cpuf] m(2) zeros_local[OF z m(1) ap] ap by simp
  moreover have "number_directive cpuf buf sc (int b) s = (convert_number buf sc (int b) s \<bind> pad_number cpuf buf) \<bind> append_buf cpuf buf"
    by (simp add: number_directive_def)
  ultimately show ?thesis
    using m(1,3) unfolding outputs_def by (intro exI[of _ m] exI[of _ n]) simp
qed

lemma upper_0: "upper c = 0 \<longleftrightarrow> c = 0"
proof -
  have "of_int (sint c) = c" by simp
  moreover have "(of_int (sint c - 32) :: u8) \<noteq> 0" if "97 \<le> sint c" "sint c \<le> 122"
  proof
    assume "(of_int (sint c - 32) :: u8) = 0"
    then have "256 dvd sint c - 32" by (simp add: word_of_int_eq_0_iff del: of_int_diff)
    then show False using that by presburger
  qed
  moreover have "c \<noteq> 0" if "97 \<le> sint c" using that by auto
  ultimately show ?thesis by (auto simp: upper_def toupper_def islower_def char_int_def int_char_def)
qed

lemma upper_directive_out:
  assumes fits: "unat buf + 1024 \<le> 2 ^ 32" and l: "f_modifier s = mod_value l" and a: "f_args s = a # as"
    and p: "pad_flags p s" and t: "t = map upper (pad p (number_text True 16 l a))"
    and z: "zeros_at (f_mem s) (f_str s) (length t)" and ap: "apart (f_str s) (Suc (length t)) buf 1024"
  shows "outputs buf s t as (upper_directive cpuf buf s)"
proof -
  let ?t = "pad p (number_text True 16 l a)"
  obtain m n where m: "local_change buf (f_mem s) m" "holds buf m ?t"
    "(convert_number buf True (int 16) s \<bind> pad_number cpuf buf) = Some (s\<lparr>f_mem := m, f_args := as, f_buf_len := n\<rparr>)"
    using number_holds[of 16 buf s l a as p True cpuf] fits l a p by auto
  have c: "cstr m buf ?t" "length t < 1024" "length ?t = length t" using m(2) t by (simp_all add: holds_def)
  have nz: "0 \<notin> set t" using cstr_not_0[OF c(1)] upper_0 t by auto
  have up: "strupr m buf = Some (buf, put m buf t)" using strupr_text[OF c(1)] cstr_not_0[OF c(1)] upper_0 t by auto
  have "put m buf t = put m buf (t @ [0])"
    using put_snoc[of t m buf 0] cstr_end[OF c(1)] c(2,3) put_outside[of t "buf + of_nat (length t)" buf m]
    by (auto simp: store8_def unat_of_nat_small fun_eq_iff)
  then have h: "holds buf (put m buf t) t" using nz c(2) holds_put[of t buf m] by simp
  have lc: "local_change buf (f_mem s) (put m buf t)" using m(1) c(2) by (meson local_change_put local_change_trans less_imp_le)
  have "append_buf cpuf buf (s\<lparr>f_args := as, f_buf_len := n, f_mem := put m buf t\<rparr>) =
    Some (s\<lparr>f_mem := put (put m buf t) (f_str s) t, f_args := as, f_buf_len := n, f_str := f_str s + of_nat (length t)\<rparr>)"
    using append_out[of buf "s\<lparr>f_args := as, f_buf_len := n, f_mem := put m buf t\<rparr>" t cpuf] h zeros_local[OF z lc ap] ap by simp
  moreover have "upper_directive cpuf buf s = (convert_number buf True (int 16) s \<bind> pad_number cpuf buf) \<bind>
    (\<lambda>s2. strupr (f_mem s2) buf \<bind> (\<lambda>(_, m). append_buf cpuf buf (s2\<lparr>f_mem := m\<rparr>)))"
    by (simp add: upper_directive_def)
  ultimately show ?thesis
    using up lc unfolding outputs_def m(3) by (intro exI[of _ "put m buf t"] exI[of _ n]) simp
qed

section \<open>Strings\<close>

lemma fetch_plain:
  assumes "\<not> f_precision_toggle s" "f_args s = a # as" and x: "cstr (f_mem s) a x" "length x < 1024" and ap: "apart buf 1024 a (Suc (length x))"
  obtains m where "local_change buf (f_mem s) m" "holds buf m x"
    "fetch_string cpuf buf s = Some (s\<lparr>f_mem := m, f_args := as, f_buf_len := of_nat (length x)\<rparr>)"
proof -
  have "fwd_ok buf a (length x)" "unat buf + length x < 2 ^ 32" using apart_fwd[OF ap, of "length x"] ap x(2) by (auto simp: apart_def)
  then obtain m where "strcpy cpuf (f_mem s) buf a = Some (buf, m)" "cstr m buf x" "\<forall>b. length x < unat (b - buf) \<longrightarrow> m b = f_mem s b"
    using strcpy_cstr[OF x(1), of buf cpuf] by auto
  then show ?thesis
    using assms strlen_cstr[of m buf x] by (intro that[of m]) (auto simp: local_change_def holds_def fetch_string_def va_arg_def)
qed

lemma fetch_exact:
  assumes s: "f_precision_toggle s" "f_curr_mod s \<noteq> 42" "f_precision s = of_nat k" "k < 1024" "f_args s = a # as"
    and x: "cstr (f_mem s) a x" "length x < 1024" and ap: "apart buf 1024 a (Suc (length x))"
  obtains m where "local_change buf (f_mem s) m" "holds buf m (take k x @ replicate (k - length x) 32)"
    "fetch_string cpuf buf s = Some (s\<lparr>f_mem := m, f_args := as, f_buf_len := of_nat k\<rparr>)"
proof -
  have k: "unat (of_nat k :: u32) = k" using s(4) by (simp add: unat_of_nat_small)
  have "fwd_ok buf a (min (length x) k)" "unat buf + k < 2 ^ 32"
    using apart_fwd[OF ap, of "min (length x) k"] ap s(4) x(2) by (auto simp: apart_def)
  then obtain m where m: "strncpy cpuf (f_mem s) buf a (of_nat k) = Some (buf, m)"
    "\<forall>i\<le>k. m (buf + of_nat i) = (if i < min (length x) k then x ! i else 0)" "\<forall>b. k < unat (b - buf) \<longrightarrow> m b = f_mem s b"
    using strncpy_bytes[OF x(1), of buf "of_nat k" cpuf] k by auto
  let ?m = "blank_zeros m buf k"
  have at: "?m (buf + of_nat i) = (if i < k \<and> m (buf + of_nat i) = 0 then 32 else m (buf + of_nat i))" if "i \<le> k" for i
    using that s(4) by (simp add: blank_zeros_at unat_of_nat_small)
  have nz: "x ! i \<noteq> 0" if "i < length x" for i using cstr_nth[OF x(1) that] by simp
  have "cstr ?m buf (take k x @ replicate (k - length x) 32)"
  proof (rule cstrI)
    fix i assume "i < length (take k x @ replicate (k - length x) 32)"
    then have i: "i < k" by (auto split: if_splits simp: min_def)
    then have "m (buf + of_nat i) = (if i < length x then x ! i else 0)" using m(2) by simp
    then show "?m (buf + of_nat i) = (take k x @ replicate (k - length x) 32) ! i"
      using at[of i] i nz[of i] by (auto simp: nth_append)
  next
    have "length (take k x @ replicate (k - length x) 32) = k" by (simp add: min_def)
    then show "?m (buf + of_nat (length (take k x @ replicate (k - length x) 32))) = 0" using at[of k] m(2) by simp
    show "0 \<notin> set (take k x @ replicate (k - length x) 32)" using cstr_not_0[OF x(1)] by (auto dest: in_set_takeD)
  qed
  then have "holds buf ?m (take k x @ replicate (k - length x) 32)" using s(4) by (simp add: holds_def min_def)
  moreover have "local_change buf (f_mem s) ?m" using m(3) s(4) by (simp add: local_change_def blank_zeros_at)
  ultimately show ?thesis using s m(1) k by (intro that[of ?m]) (simp_all add: fetch_string_def va_arg_def)
qed

lemma align_left:
  assumes t: "holds buf (f_mem s) t" and n: "f_buf_len s = of_nat (length t)" and w: "f_width s = of_nat w" "w < 1024"
    and "w = 0 \<or> f_left_align s"
  obtains m where "local_change buf (f_mem s) m" "holds buf m (t @ replicate (w - length t) 32)"
    "align_string cpuf buf s = s\<lparr>f_mem := m, f_buf_len := of_nat (length (t @ replicate (w - length t) 32))\<rparr>"
proof (cases "length t < w")
  case False
  then have "\<not> f_width s > f_buf_len s" using w n t by (simp add: word_less_nat_alt unat_of_nat_small holds_def)
  then show ?thesis using False t n by (intro that[of "f_mem s"]) (simp_all add: align_string_def)
next
  case True
  have u: "unat (f_width s) = w" "unat (f_buf_len s) = length t" using w n t by (simp_all add: unat_of_nat_small holds_def)
  let ?m = "store8 (fill (f_mem s) (buf + of_nat (length t)) 32 (w - length t)) (buf + of_nat w) 0"
  have run: "align_string cpuf buf s = s\<lparr>f_mem := ?m, f_buf_len := of_nat w\<rparr>"
    using True assms(5) w u by (simp add: align_string_def word_less_nat_alt store_blanks_fill n)
  have at: "?m (buf + of_nat i) = (if i = w then 0 else if length t \<le> i then 32 else f_mem s (buf + of_nat i))" if "i \<le> w" for i
  proof -
    have "buf + of_nat i = buf + of_nat w \<longleftrightarrow> i = w" using that w(2) word_add_of_nat_inj[of buf i w] by auto
    then show ?thesis
      using that True w(2) fill_off[of i "length t" "w - length t" "f_mem s" buf 32] by (simp add: store8_def)
  qed
  have c: "cstr (f_mem s) buf t" using t by (simp add: holds_def)
  have "cstr ?m buf (t @ replicate (w - length t) 32)"
    using at True cstr_nth[OF c] cstr_not_0[OF c] by (intro cstrI) (auto simp: nth_append)
  then have "holds buf ?m (t @ replicate (w - length t) 32)" using True w by (simp add: holds_def)
  moreover have "local_change buf (f_mem s) ?m"
    unfolding local_change_def
  proof (intro allI impI)
    fix a assume a: "1024 \<le> unat (a - buf)"
    define k where "k = unat (a - buf)"
    have k: "a = buf + of_nat k" "1024 \<le> k" "k < 2 ^ 32" using a unat_u32_less[of "a - buf"] by (simp_all add: k_def)
    moreover have "a \<noteq> buf + of_nat w" using a w(2) by (auto simp: unat_of_nat_small)
    ultimately show "?m a = f_mem s a"
      using fill_off[of k "length t" "w - length t" "f_mem s" buf 32] True w(2) by (simp add: store8_def)
  qed
  ultimately show ?thesis using True run by (intro that[of ?m]) simp_all
qed

lemma string_directive_out:
  assumes fetched: "local_change buf (f_mem s) m0" "holds buf m0 x"
      "fetch_string cpuf buf s = Some (s\<lparr>f_mem := m0, f_args := as, f_buf_len := of_nat (length x)\<rparr>)"
    and w: "f_width s = of_nat w" "w < 1024" "w = 0 \<or> f_left_align s" and t: "t = x @ replicate (w - length x) 32"
    and z: "zeros_at (f_mem s) (f_str s) (length t)" and ap: "apart (f_str s) (Suc (length t)) buf 1024"
  shows "outputs buf s t as (string_directive cpuf buf s)"
proof -
  let ?s1 = "s\<lparr>f_mem := m0, f_args := as, f_buf_len := of_nat (length x)\<rparr>"
  obtain m where m: "local_change buf m0 m" "holds buf m t"
    "align_string cpuf buf ?s1 = ?s1\<lparr>f_mem := m, f_buf_len := of_nat (length t)\<rparr>"
    using align_left[of buf ?s1 x w cpuf] fetched(2) w t by auto
  have lc: "local_change buf (f_mem s) m" using fetched(1) m(1) by (rule local_change_trans)
  have zm: "m (f_str s + of_nat i) = 0" if "i \<le> length t" for i
    using zeros_local[OF z lc ap] that by (simp add: zeros_at_def)
  have len: "length t < 1024" "cstr m buf t" using m(2) by (simp_all add: holds_def)
  have "strncat cpuf m (f_str s) buf (of_nat (length t)) = Some (f_str s, put m (f_str s) t)"
    using zm[of 0] zm[of "length t"] ap len by (intro strncat_put apart_fwd[OF ap]) (auto simp: apart_def)
  then show ?thesis
    using fetched(3) m(3) lc unfolding outputs_def string_directive_def Let_def
    by (intro exI[of _ m] exI[of _ "of_nat (length t)"]) simp
qed

section \<open>Formats\<close>

text \<open>A format as a list of directives. Numbers may be padded with zeros or blanks, strings may be cut or filled up to an
  exact length or filled up on the right.\<close>

datatype directive = Literal u8 | Percent | Character | Pointer
  | Number "(u8 \<times> nat) option" length_mod conversion | Text | Text_exact nat | Text_left nat

fun mod_text :: "length_mod \<Rightarrow> u8 list" where
  "mod_text Short = [104]" | "mod_text Plain = []" | "mod_text Long = [108]"

fun conv_char :: "conversion \<Rightarrow> u8" where
  "conv_char Unsigned = 117" | "conv_char Signed = 100" | "conv_char Octal = 111" | "conv_char Binary = 98"
| "conv_char Hex = 120" | "conv_char Upper_hex = 88"

fun pad_text :: "(u8 \<times> nat) option \<Rightarrow> u8 list" where
  "pad_text None = []" | "pad_text (Some (c, w)) = c # dig_text 10 w"

fun directive_text :: "directive \<Rightarrow> u8 list" where
  "directive_text (Literal c) = [c]"
| "directive_text Percent = [37, 37]"
| "directive_text Character = [37, 99]"
| "directive_text Pointer = [37, 112]"
| "directive_text (Number p l cv) = 37 # pad_text p @ mod_text l @ [conv_char cv]"
| "directive_text Text = [37, 115]"
| "directive_text (Text_exact k) = 37 # 46 # dig_text 10 k @ [115]"
| "directive_text (Text_left w) = 37 # 45 # dig_text 10 w @ [115]"

fun wf_directive :: "directive \<Rightarrow> bool" where
  "wf_directive (Literal c) \<longleftrightarrow> c \<noteq> 0 \<and> c \<noteq> 37"
| "wf_directive (Number (Some (c, w)) l cv) \<longleftrightarrow> (c = 48 \<or> c = 32) \<and> w < 1024"
| "wf_directive (Text_exact k) \<longleftrightarrow> k < 1024"
| "wf_directive (Text_left w) \<longleftrightarrow> w < 1024"
| "wf_directive _ \<longleftrightarrow> True"

fun arity :: "directive \<Rightarrow> nat" where
  "arity (Literal c) = 0" | "arity Percent = 0" | "arity _ = 1"

text \<open>The string at an address.\<close>

definition string_at :: "mem \<Rightarrow> ptr \<Rightarrow> u8 list" where
  "string_at m a = (case strlen m a of None \<Rightarrow> [] | Some n \<Rightarrow> bytes m a (unat n))"

fun conv_text :: "conversion \<Rightarrow> length_mod \<Rightarrow> u32 \<Rightarrow> u8 list" where
  "conv_text Unsigned l a = number_text False 10 l a"
| "conv_text Signed l a = number_text True 10 l a"
| "conv_text Octal l a = number_text True 8 l a"
| "conv_text Binary l a = number_text False 2 l a"
| "conv_text Hex l a = number_text False 16 l a"
| "conv_text Upper_hex l a = number_text True 16 l a"

fun directive_out :: "mem \<Rightarrow> directive \<Rightarrow> u32 \<Rightarrow> u8 list" where
  "directive_out m (Literal c) a = [c]"
| "directive_out m Percent a = [37]"
| "directive_out m Character a = [ucast a]"
| "directive_out m Pointer a = pad (Some (48, 8)) (number_text False 16 Long a)"
| "directive_out m (Number p l cv) a = (if cv = Upper_hex then map upper else id) (pad p (conv_text cv l a))"
| "directive_out m Text a = string_at m a"
| "directive_out m (Text_exact k) a = take k (string_at m a) @ replicate (k - length (string_at m a)) 32"
| "directive_out m (Text_left w) a = string_at m a @ replicate (w - length (string_at m a)) 32"

fun render :: "mem \<Rightarrow> directive list \<Rightarrow> u32 list \<Rightarrow> u8 list" where
  "render m [] args = []"
| "render m (d # ds) args = directive_out m d (hd args) @ render m ds (drop (arity d) args)"

fun text_args :: "directive list \<Rightarrow> u32 list \<Rightarrow> ptr list" where
  "text_args [] args = []"
| "text_args (d # ds) args =
     (case d of Text \<Rightarrow> [hd args] | Text_exact k \<Rightarrow> [hd args] | Text_left w \<Rightarrow> [hd args] | _ \<Rightarrow> []) @ text_args ds (drop (arity d) args)"

lemma string_at_cstr: "cstr m a x \<Longrightarrow> string_at m a = x"
  using cstr_nth[of m a x] by (simp add: string_at_def strlen_cstr unat_cstr_length) (rule nth_equalityI, simp_all add: bytes_nth)

section \<open>The loop\<close>

text \<open>The format at the place of reading, out of the way of what is written.\<close>

definition reads_at :: "(ptr \<Rightarrow> bool) \<Rightarrow> fmt_state \<Rightarrow> u8 list \<Rightarrow> bool" where
  "reads_at touched s cs \<longleftrightarrow> cstr (f_mem s) (f_format s) cs \<and> (\<forall>i\<le>length cs. \<not> touched (f_format s + of_nat i))"

lemma reads_at_Cons:
  assumes "reads_at touched s (c # cs)"
  shows "f_mem s (f_format s) = c" "c \<noteq> 0" "reads_at touched (s\<lparr>f_format := f_format s + 1\<rparr>) cs"
proof -
  show "f_mem s (f_format s) = c" "c \<noteq> 0" using assms by (auto simp: reads_at_def)
  have "\<not> touched (f_format s + 1 + of_nat i)" if "i \<le> length cs" for i
  proof -
    have "\<not> touched (f_format s + of_nat (Suc i))" using assms that unfolding reads_at_def by (metis Suc_le_mono length_Cons)
    then show ?thesis by (simp add: add.assoc)
  qed
  then show "reads_at touched (s\<lparr>f_format := f_format s + 1\<rparr>) cs" using assms by (simp add: reads_at_def)
qed

lemma reads_at_change:
  assumes "reads_at touched s cs" "f_format s' = f_format s" "\<And>a. \<not> touched a \<Longrightarrow> f_mem s' a = f_mem s a"
  shows "reads_at touched s' cs"
  using assms cstr_cong[of "f_mem s" "f_format s" cs "f_mem s'"] by (auto simp: reads_at_def)

lemma loop_modifier:
  assumes "in_directive s" "reads_at touched s (x # c # cs)" "modifier_case c (s\<lparr>f_format := f_format s + 1\<rparr>) = Some s2"
  shows "vsprintf_loop cpuf buf s = vsprintf_loop cpuf buf s2"
  using reads_at_Cons[OF assms(2)] reads_at_Cons(1)[OF reads_at_Cons(3)[OF assms(2)]] assms(1,3)
  by (subst vsprintf_loop.simps) (simp add: Let_def)

lemma loop_conversion:
  assumes "in_directive s" "reads_at touched s (x # c # cs)" "modifier_case c (s\<lparr>f_format := f_format s + 1\<rparr>) = None"
    "conversion_case cpuf buf c (s\<lparr>f_format := f_format s + 1\<rparr>) = Some s2"
  shows "vsprintf_loop cpuf buf s = vsprintf_loop cpuf buf (count_output (f_str s) (reset_flags s2))"
  using reads_at_Cons[OF assms(2)] reads_at_Cons(1)[OF reads_at_Cons(3)[OF assms(2)]] assms(1,3,4)
  by (subst vsprintf_loop.simps) (simp add: Let_def)

text \<open>Runs of digits: a width, or a precision.\<close>

lemma dig_char_word:
  assumes "k < 10"
  shows "(48 :: u8) \<le> dig_char k" "dig_char k \<le> 57" "(ucast (dig_char k) :: u32) - 48 = of_nat k" "dig_char k \<noteq> 45" "dig_char k \<noteq> 32"
proof -
  have "list_all (\<lambda>k. (48 :: u8) \<le> dig_char k \<and> dig_char k \<le> 57 \<and> (ucast (dig_char k) :: u32) - 48 = of_nat k \<and>
    dig_char k \<noteq> 45 \<and> dig_char k \<noteq> 32) [0..<10]" by code_simp
  then show "(48 :: u8) \<le> dig_char k" "dig_char k \<le> 57" "(ucast (dig_char k) :: u32) - 48 = of_nat k" "dig_char k \<noteq> 45" "dig_char k \<noteq> 32"
    using assms by (simp_all add: list_all_iff)
qed

fun digits_from :: "nat list \<Rightarrow> fmt_state \<Rightarrow> fmt_state" where
  "digits_from [] s = s"
| "digits_from (k # ks) s = digits_from ks (take_digit (dig_char k) (s\<lparr>f_format := f_format s + 1\<rparr>))"

lemma loop_digits:
  "f_curr_mod s \<noteq> 0 \<Longrightarrow> reads_at touched s (x # map dig_char ks @ cs) \<Longrightarrow> \<forall>k\<in>set ks. k < 10 \<Longrightarrow>
   vsprintf_loop cpuf buf s = vsprintf_loop cpuf buf (digits_from ks s) \<and> (\<exists>y. reads_at touched (digits_from ks s) (y # cs))"
proof (induction ks arbitrary: s x)
  case (Cons k ks)
  let ?s = "s\<lparr>f_format := f_format s + 1\<rparr>"
  let ?t = "take_digit (dig_char k) ?s"
  have mc: "modifier_case (dig_char k) ?s = Some ?t"
    using dig_char_word[of k] Cons.prems(1,3) by (auto simp: modifier_case_def)
  have "reads_at touched ?s (dig_char k # map dig_char ks @ cs)" using reads_at_Cons(3)[OF Cons.prems(2)] by simp
  then have "reads_at touched ?t (dig_char k # map dig_char ks @ cs)" by (rule reads_at_change) (simp_all add: take_digit_def)
  moreover have "f_curr_mod ?t \<noteq> 0" using Cons.prems(1) by (simp add: take_digit_def)
  ultimately have "vsprintf_loop cpuf buf ?t = vsprintf_loop cpuf buf (digits_from ks ?t) \<and> (\<exists>y. reads_at touched (digits_from ks ?t) (y # cs))"
    using Cons.IH[of ?t "dig_char k"] Cons.prems(3) by simp
  moreover have "vsprintf_loop cpuf buf s = vsprintf_loop cpuf buf ?t"
    using Cons.prems(1,2) mc by (intro loop_modifier) (simp_all add: in_directive_def)
  ultimately show ?case by simp
qed auto

lemma digits_from_width:
  "\<not> f_precision_toggle s \<Longrightarrow> f_curr_mod s \<noteq> 0 \<Longrightarrow> \<forall>k\<in>set ks. k < 10 \<Longrightarrow>
   digits_from ks s = s\<lparr>f_width := foldl (\<lambda>a k. a * 10 + of_nat k) (f_width s) ks, f_format := f_format s + of_nat (length ks)\<rparr>"
  by (induction ks arbitrary: s) (simp_all add: take_digit_def dig_char_word add.assoc)

lemma digits_from_precision:
  "f_precision_toggle s \<Longrightarrow> \<forall>k\<in>set ks. k < 10 \<Longrightarrow>
   digits_from ks s = s\<lparr>f_precision := foldl (\<lambda>a k. a * 10 + of_nat k) (f_precision s) ks, f_format := f_format s + of_nat (length ks)\<rparr>"
  by (induction ks arbitrary: s) (simp_all add: take_digit_def dig_char_word add.assoc)

lemma foldl_digits: "foldl (\<lambda>a k. a * 10 + of_nat k) 0 (rev (digs 10 w)) = (of_nat w :: u32)"
  using foldr_digs[of 10 w, where 'a = u32] by (simp add: foldr_conv_foldl)

lemma digs10_less: "\<forall>k\<in>set (rev (digs 10 w)). k < 10"
  using digs_less[of 10 _ w] by simp

text \<open>The state behind a width or a precision.\<close>

lemma loop_width:
  assumes "\<not> f_precision_toggle s" "f_curr_mod s \<noteq> 0" "f_width s = 0" "reads_at touched s (x # dig_text 10 w @ cs)"
  obtains s' y where "vsprintf_loop cpuf buf s = vsprintf_loop cpuf buf s'" "reads_at touched s' (y # cs)"
    "s' = s\<lparr>f_width := of_nat w, f_format := f_format s'\<rparr>"
  using loop_digits[of s touched x "rev (digs 10 w)" cs cpuf buf] digits_from_width[of s "rev (digs 10 w)"] assms digs10_less[of w]
    that[of "digits_from (rev (digs 10 w)) s"] foldl_digits[of w] by (auto simp: dig_text_def)

lemma loop_precision:
  assumes "f_precision_toggle s" "f_curr_mod s \<noteq> 0" "f_precision s = 0" "reads_at touched s (x # dig_text 10 w @ cs)"
  obtains s' y where "vsprintf_loop cpuf buf s = vsprintf_loop cpuf buf s'" "reads_at touched s' (y # cs)"
    "s' = s\<lparr>f_precision := of_nat w, f_format := f_format s'\<rparr>"
  using loop_digits[of s touched x "rev (digs 10 w)" cs cpuf buf] digits_from_precision[of s "rev (digs 10 w)"] assms digs10_less[of w]
    that[of "digits_from (rev (digs 10 w)) s"] foldl_digits[of w] by (auto simp: dig_text_def)

section \<open>One directive\<close>

text \<open>What \<open>vsprintf\<close> writes to: the \<open>n\<close> bytes of the destination and \<open>buf\<close>. Between two directives the first bytes of
  the destination are the output so far, the others are NUL, and everything else is as it was in the beginning.\<close>

definition touched :: "ptr \<Rightarrow> nat \<Rightarrow> ptr \<Rightarrow> ptr \<Rightarrow> bool" where
  "touched str n buf a \<longleftrightarrow> unat (a - str) < n \<or> unat (a - buf) < 1024"

definition inside :: "ptr \<Rightarrow> nat \<Rightarrow> ptr \<Rightarrow> mem \<Rightarrow> u8 list \<Rightarrow> u32 list \<Rightarrow> fmt_state \<Rightarrow> bool" where
  "inside str n buf m out args s \<longleftrightarrow> f_args s = args \<and> f_str s = str + of_nat (length out) \<and> f_ret s = of_nat (length out) \<and>
     (\<forall>a. \<not> touched str n buf a \<longrightarrow> f_mem s a = m a) \<and>
     (\<forall>i<n. f_mem s (str + of_nat i) = (if i < length out then out ! i else 0))"

definition no_flags :: "fmt_state \<Rightarrow> bool" where
  "no_flags s \<longleftrightarrow> f_modifier s = 0 \<and> f_curr_mod s = 0 \<and> \<not> f_padding s \<and> f_width s = 0 \<and> \<not> f_precision_toggle s \<and> f_precision s = 0"

definition layout :: "ptr \<Rightarrow> nat \<Rightarrow> ptr \<Rightarrow> bool" where
  "layout str n buf \<longleftrightarrow> apart str n buf 1024"

lemma inside_zeros:
  assumes "inside str n buf m out args s" "length out + length t < n"
  shows "zeros_at (f_mem s) (f_str s) (length t)"
  unfolding zeros_at_def
proof (intro allI impI)
  fix i assume i: "i \<le> length t"
  have "\<forall>j<n. f_mem s (str + of_nat j) = (if j < length out then out ! j else 0)" using assms(1) by (simp add: inside_def)
  moreover have "length out + i < n" "\<not> length out + i < length out" using assms(2) i by simp_all
  ultimately have "f_mem s (str + of_nat (length out + i)) = 0" by metis
  then show "f_mem s (f_str s + of_nat i) = 0" using assms(1) by (simp add: inside_def add.assoc)
qed

lemma inside_apart:
  assumes "inside str n buf m out args s" "length out + length t < n" "layout str n buf"
  shows "apart (f_str s) (Suc (length t)) buf 1024"
  using assms apart_part[of str n buf 1024 "length out" "Suc (length t)"] by (simp add: inside_def layout_def)

lemma put_char_out: "outputs buf s [c] (f_args s) (Some (put_char c s))"
  unfolding outputs_def put_char_def
  by (intro exI[of _ "f_mem s"] exI[of _ "f_buf_len s"]) (simp add: put_Cons[of "[]", simplified])

lemma inside_outputs:
  assumes i: "inside str n buf m out args s" and r: "outputs buf s t as (Some s2)" and len: "length out + length t < n"
    and l: "layout str n buf"
  shows "inside str n buf m (out @ t) as (count_output (f_str s) (reset_flags s2))" "no_flags (count_output (f_str s) (reset_flags s2))"
    "\<And>a. \<not> touched str n buf a \<Longrightarrow> f_mem s2 a = f_mem s a" "f_format s2 = f_format s"
proof -
  obtain m1 k where m1: "local_change buf (f_mem s) m1" and s2: "s2 = s\<lparr>f_mem := put m1 (f_str s) t, f_str := f_str s + of_nat (length t),
    f_args := as, f_buf_len := k\<rparr>" using r by (auto simp: outputs_def)
  have n32: "n \<le> 2 ^ 32" using l by (simp add: layout_def apart_def)
  have st: "f_str s = str + of_nat (length out)" using i by (simp add: inside_def)
  have at: "f_mem s2 (str + of_nat j) = (if j < length (out @ t) then (out @ t) ! j else 0)" if j: "j < n" for j
  proof -
    have m1j: "m1 (str + of_nat j) = (if j < length out then out ! j else 0)"
      using apart_address[of str n buf 1024 j] l m1 i j by (simp add: local_change_def layout_def inside_def)
    show ?thesis
    proof (cases "length out \<le> j \<and> j < length out + length t")
      case True
      then obtain q where q: "j = length out + q" "q < length t" by (metis le_add_diff_inverse nat_add_left_cancel_less)
      then have "put m1 (f_str s) t (f_str s + of_nat q) = t ! q" using len n32 by (intro put_at) simp_all
      then show ?thesis using q by (simp add: s2 st add.assoc)
    next
      case False
      then have "length t \<le> unat (str + of_nat j - f_str s)"
        using off_less[of j "length out" "length t" str] j len n32 unfolding st not_less[symmetric] by auto
      then show ?thesis using m1j False by (auto simp: s2 put_outside nth_append)
    qed
  qed
  show keep: "f_mem s2 a = f_mem s a" if a: "\<not> touched str n buf a" for a
  proof -
    have "length t \<le> unat (a - f_str s)"
    proof (rule ccontr)
      assume "\<not> length t \<le> unat (a - f_str s)"
      then obtain j where j: "j < length t" "a = f_str s + of_nat j" by (auto simp: not_le unat_diff_less_iff)
      then have "a = str + of_nat (length out + j)" by (simp add: st)
      then have "unat (a - str) < n" using j(1) len n32 by (simp add: unat_of_nat_small del: of_nat_add)
      then show False using a by (simp add: touched_def)
    qed
    then show ?thesis using a m1 by (simp add: s2 put_outside local_change_def touched_def)
  qed
  show "inside str n buf m (out @ t) as (count_output (f_str s) (reset_flags s2))"
    using at keep i unfolding inside_def count_output_def reset_flags_def s2 by (simp add: add.assoc)
  show "no_flags (count_output (f_str s) (reset_flags s2))" by (simp add: no_flags_def count_output_def reset_flags_def)
  show "f_format s2 = f_format s" by (simp add: s2)
qed

text \<open>The character that ends a directive. \<open>s'\<close> is the state in which it is converted.\<close>

lemma loop_finish:
  assumes i: "inside str n buf m out args s'" and d: "in_directive s" and rd: "reads_at (touched str n buf) s (x # c # cs)"
    and mc: "modifier_case c (s\<lparr>f_format := f_format s + 1\<rparr>) = None"
    and s': "f_mem s' = f_mem s" "f_str s' = f_str s" "f_format s' = f_format s + 1"
    and o: "outputs buf s' t as (conversion_case cpuf buf c (s\<lparr>f_format := f_format s + 1\<rparr>))"
    and len: "length out + length t < n" and l: "layout str n buf"
  shows "\<exists>s2. vsprintf_loop cpuf buf s = vsprintf_loop cpuf buf s2 \<and> inside str n buf m (out @ t) as s2 \<and> no_flags s2 \<and>
    reads_at (touched str n buf) s2 cs"
proof -
  obtain s2 where s2: "conversion_case cpuf buf c (s\<lparr>f_format := f_format s + 1\<rparr>) = Some s2" using o by (auto simp: outputs_def)
  let ?s3 = "count_output (f_str s') (reset_flags s2)"
  note io = inside_outputs[OF i o[unfolded s2] len l]
  have "reads_at (touched str n buf) (s\<lparr>f_format := f_format s + 1, f_format := f_format s + 1 + 1\<rparr>) cs"
    using reads_at_Cons(3)[OF reads_at_Cons(3)[OF rd]] by simp
  then have "reads_at (touched str n buf) ?s3 cs"
    by (rule reads_at_change) (use io(3,4) s' in \<open>auto simp: count_output_def reset_flags_def\<close>)
  then show ?thesis
    using loop_conversion[OF d rd mc s2] io(1,2) s'(2) by (intro exI[of _ ?s3]) simp
qed

text \<open>Modifiers do not touch what \<open>inside\<close> speaks of.\<close>

lemma inside_flags:
  assumes "inside str n buf m out args s" "f_mem s' = f_mem s" "f_str s' = f_str s" "f_args s' = f_args s" "f_ret s' = f_ret s"
  shows "inside str n buf m out args s'"
  using assms by (simp add: inside_def)

lemma percent_directive: "reads_at tc s (37 # cs) \<Longrightarrow> in_directive s"
  using reads_at_Cons(1) by (simp add: in_directive_def)

text \<open>\<open>%\<close> and one modifier \<open>c\<close>, which sets \<open>curr_mod\<close>.\<close>

lemma loop_first_modifier:
  assumes "reads_at tc s (37 # c # cs)" "modifier_case c (s\<lparr>f_format := f_format s + 1\<rparr>) = Some s1"
    and "f_mem s1 = f_mem s" "f_format s1 = f_format s + 1"
  shows "vsprintf_loop cpuf buf s = vsprintf_loop cpuf buf s1" "reads_at tc s1 (c # cs)"
proof -
  show "vsprintf_loop cpuf buf s = vsprintf_loop cpuf buf s1"
    using percent_directive[OF assms(1)] assms(1,2) by (rule loop_modifier)
  show "reads_at tc s1 (c # cs)"
    using reads_at_Cons(3)[OF assms(1)] by (rule reads_at_change) (use assms(3,4) in simp_all)
qed

lemma modifier_pad:
  assumes "\<not> f_padding s" "f_curr_mod s = 0" "c = 48 \<or> c = 32"
  shows "modifier_case c s = Some (s\<lparr>f_curr_mod := c, f_padding := True, f_padding_char := c\<rparr>)"
  using assms(3) by (elim disjE) (simp_all add: modifier_case_def assms)

lemma loop_pad:
  assumes i: "inside str n buf m out args s" and f: "no_flags s" and rd: "reads_at tc s (37 # pad_text p @ cs)"
    and p: "\<And>c w. p = Some (c, w) \<Longrightarrow> (c = 48 \<or> c = 32) \<and> w < 1024"
  obtains s1 y where "vsprintf_loop cpuf buf s = vsprintf_loop cpuf buf s1" "inside str n buf m out args s1" "reads_at tc s1 (y # cs)"
    "pad_flags p s1" "f_modifier s1 = 0" "in_directive s1"
proof (cases p)
  case None
  then show ?thesis using that[of s 37] i f rd percent_directive[of tc s] by (simp add: pad_flags_def no_flags_def)
next
  case (Some cw)
  obtain c w where cw: "p = Some (c, w)" "c = 48 \<or> c = 32" "w < 1024" using Some p by (cases cw) auto
  let ?s = "s\<lparr>f_format := f_format s + 1, f_curr_mod := c, f_padding := True, f_padding_char := c\<rparr>"
  have mc: "modifier_case c (s\<lparr>f_format := f_format s + 1\<rparr>) = Some ?s"
    using modifier_pad[of "s\<lparr>f_format := f_format s + 1\<rparr>" c] cw(2) f by (simp add: no_flags_def)
  have rd0: "reads_at tc s (37 # c # dig_text 10 w @ cs)" using rd cw(1) by simp
  have l1: "vsprintf_loop cpuf buf s = vsprintf_loop cpuf buf ?s" by (rule loop_first_modifier(1)[OF rd0 mc]) simp_all
  have rd1: "reads_at tc ?s (c # dig_text 10 w @ cs)" by (rule loop_first_modifier(2)[OF rd0 mc]) simp_all
  obtain s2 y where s2: "vsprintf_loop cpuf buf ?s = vsprintf_loop cpuf buf s2" "reads_at tc s2 (y # cs)"
    "s2 = ?s\<lparr>f_width := of_nat w, f_format := f_format s2\<rparr>"
    by (rule loop_width[OF _ _ _ rd1, where cpuf = cpuf and buf = buf]) (use f cw(2) in \<open>auto simp: no_flags_def\<close>)
  have fl: "f_mem s2 = f_mem s" "f_str s2 = f_str s" "f_args s2 = f_args s" "f_ret s2 = f_ret s" "f_modifier s2 = f_modifier s"
    "f_padding s2" "f_padding_char s2 = c" "f_width s2 = of_nat w" "f_curr_mod s2 = c"
    by (subst s2(3); simp)+
  show ?thesis
    using that[of s2 y] l1 s2(1,2) inside_flags[OF i fl(1-4)] fl(5-9) f cw by (auto simp: pad_flags_def no_flags_def in_directive_def)
qed

lemma loop_length:
  assumes i: "inside str n buf m out args s" and rd: "reads_at tc s (x # mod_text l @ cs)" and d: "in_directive s"
    and f: "f_modifier s = 0" "pad_flags p s"
  obtains s1 y where "vsprintf_loop cpuf buf s = vsprintf_loop cpuf buf s1" "inside str n buf m out args s1" "reads_at tc s1 (y # cs)"
    "pad_flags p s1" "f_modifier s1 = mod_value l" "in_directive s1"
proof (cases "l = Plain")
  case True
  then show ?thesis using that[of s x] i rd d f by simp
next
  case False
  define c :: u8 where "c = (if l = Short then 104 else 108)"
  let ?s = "s\<lparr>f_format := f_format s + 1, f_modifier := mod_value l\<rparr>"
  have mt: "mod_text l = [c]" using False by (cases l) (simp_all add: c_def)
  have "modifier_case c (s\<lparr>f_format := f_format s + 1\<rparr>) = Some ?s"
    using False f by (cases l) (simp_all add: modifier_case_def c_def)
  then have "vsprintf_loop cpuf buf s = vsprintf_loop cpuf buf ?s"
    using loop_modifier[OF d, of tc x c cs] rd mt by simp
  moreover have "reads_at tc ?s (c # cs)"
    by (rule reads_at_change[OF reads_at_Cons(3)[of tc s x "c # cs"]]) (use rd mt in simp_all)
  moreover have "inside str n buf m out args ?s" using i by (rule inside_flags) simp_all
  moreover have "pad_flags p ?s" using f(2) by (cases p) (auto simp: pad_flags_def)
  moreover have "in_directive ?s" using False by (cases l) (simp_all add: in_directive_def)
  ultimately show ?thesis using that[of ?s c] by simp
qed

fun conv_signed :: "conversion \<Rightarrow> bool" where
  "conv_signed Signed = True" | "conv_signed Octal = True" | "conv_signed Upper_hex = True" | "conv_signed _ = False"

fun conv_base :: "conversion \<Rightarrow> nat" where
  "conv_base Unsigned = 10" | "conv_base Signed = 10" | "conv_base Octal = 8" | "conv_base Binary = 2"
| "conv_base Hex = 16" | "conv_base Upper_hex = 16"

lemma conv_text_number: "conv_text cv l a = number_text (conv_signed cv) (conv_base cv) l a" "2 \<le> conv_base cv" "conv_base cv \<le> 36"
  by (cases cv; simp)+

lemma conv_cases:
  "modifier_case (conv_char cv) s = None"
  "cv \<noteq> Upper_hex \<Longrightarrow> conversion_case cpuf buf (conv_char cv) s = number_directive cpuf buf (conv_signed cv) (int (conv_base cv)) s"
  "conversion_case cpuf buf (conv_char Upper_hex) s = upper_directive cpuf buf s"
  by (cases cv; simp add: modifier_case_def conversion_case_def)+

lemma step_number:
  assumes i: "inside str n buf m out (a # as) s" and f: "no_flags s"
    and rd: "reads_at (touched str n buf) s (directive_text (Number p l cv) @ cs)" and wf: "wf_directive (Number p l cv)"
    and len: "length out + length (directive_out m (Number p l cv) a) < n" and lay: "layout str n buf"
  shows "\<exists>s2. vsprintf_loop cpuf buf s = vsprintf_loop cpuf buf s2 \<and>
    inside str n buf m (out @ directive_out m (Number p l cv) a) as s2 \<and> no_flags s2 \<and> reads_at (touched str n buf) s2 cs"
proof -
  have p: "(c = 48 \<or> c = 32) \<and> w < 1024" if "p = Some (c, w)" for c w using wf that by simp
  have fits: "unat buf + 1024 \<le> 2 ^ 32" using lay by (simp add: layout_def apart_def)
  have "reads_at (touched str n buf) s (37 # pad_text p @ mod_text l @ conv_char cv # cs)" using rd by simp
  from loop_pad[OF i f this p, of cpuf]
  obtain s1 y where s1: "vsprintf_loop cpuf buf s = vsprintf_loop cpuf buf s1" "inside str n buf m out (a # as) s1"
    "reads_at (touched str n buf) s1 (y # mod_text l @ conv_char cv # cs)" "pad_flags p s1" "f_modifier s1 = 0" "in_directive s1"
    by auto
  from loop_length[OF s1(2,3,6,5,4), of cpuf]
  obtain s2 z where s2: "vsprintf_loop cpuf buf s1 = vsprintf_loop cpuf buf s2" "inside str n buf m out (a # as) s2"
    "reads_at (touched str n buf) s2 (z # conv_char cv # cs)" "pad_flags p s2" "f_modifier s2 = mod_value l" "in_directive s2" by auto
  let ?s = "s2\<lparr>f_format := f_format s2 + 1\<rparr>" and ?t = "directive_out m (Number p l cv) a"
  have ins: "inside str n buf m out (a # as) ?s" using s2(2) by (rule inside_flags) simp_all
  note z = inside_zeros[OF ins len] and ap = inside_apart[OF ins len lay]
  have ar: "f_args ?s = a # as" "f_modifier ?s = mod_value l" using ins s2(5) by (simp_all add: inside_def)
  have pf: "pad_flags p ?s" using s2(4) by (cases p) (auto simp: pad_flags_def)
  have "outputs buf ?s ?t as (conversion_case cpuf buf (conv_char cv) ?s)"
  proof (cases "cv = Upper_hex")
    case True
    then show ?thesis using upper_directive_out[OF fits ar(2,1) pf _ z ap, of cpuf] by (simp add: conv_cases(3)[simplified])
  next
    case False
    then show ?thesis
      using number_directive_out[OF conv_text_number(2,3)[of cv] fits ar(2,1) pf _ z ap, of "conv_signed cv" cpuf]
      by (simp add: conv_cases(2) conv_text_number(1))
  qed
  then show ?thesis
    using loop_finish[OF ins s2(6,3) conv_cases(1) _ _ _ _ len lay, where cpuf = cpuf and as = as] s1(1) s2(1) by simp
qed

text \<open>A string argument that can be read and is out of the way.\<close>

definition clear_text :: "ptr \<Rightarrow> nat \<Rightarrow> ptr \<Rightarrow> mem \<Rightarrow> ptr \<Rightarrow> bool" where
  "clear_text str n buf m a \<longleftrightarrow> (\<exists>x. cstr m a x \<and> length x < 1024 \<and> apart buf 1024 a (Suc (length x)) \<and> apart str n a (Suc (length x)))"

lemma clear_text_inside:
  assumes "clear_text str n buf m a" "inside str n buf m out args s"
  shows "cstr (f_mem s) a (string_at m a)" "length (string_at m a) < 1024" "apart buf 1024 a (Suc (length (string_at m a)))"
proof -
  obtain x where x: "cstr m a x" "length x < 1024" "apart buf 1024 a (Suc (length x))" "apart str n a (Suc (length x))"
    using assms(1) by (auto simp: clear_text_def)
  have sx: "string_at m a = x" using x(1) by (rule string_at_cstr)
  have "\<not> touched str n buf (a + of_nat i)" if "i \<le> length x" for i
    using that apart_address[OF apart_sym[OF x(3)], of i] apart_address[OF apart_sym[OF x(4)], of i] by (simp add: touched_def not_less)
  then have "cstr (f_mem s) a x" using assms(2) by (intro cstr_cong[OF x(1)]) (simp add: inside_def)
  then show "cstr (f_mem s) a (string_at m a)" "length (string_at m a) < 1024" "apart buf 1024 a (Suc (length (string_at m a)))"
    using x sx by simp_all
qed

lemma text_case: "modifier_case 115 s = None" "conversion_case cpuf buf 115 s = string_directive cpuf buf s"
  by (simp_all add: modifier_case_def conversion_case_def)

text \<open>The \<open>s\<close> that ends a directive for a string.\<close>

lemma finish_text:
  assumes i: "inside str n buf m out (a # as) s" and d: "in_directive s" and rd: "reads_at (touched str n buf) s (x # 115 # cs)"
    and fetched: "local_change buf (f_mem s) m0" "holds buf m0 y"
      "fetch_string cpuf buf (s\<lparr>f_format := f_format s + 1\<rparr>) = Some (s\<lparr>f_format := f_format s + 1, f_mem := m0, f_args := as, f_buf_len := of_nat (length y)\<rparr>)"
    and w: "f_width s = of_nat w" "w < 1024" "w = 0 \<or> f_left_align s" and t: "t = y @ replicate (w - length y) 32"
    and len: "length out + length t < n" and lay: "layout str n buf"
  shows "\<exists>s2. vsprintf_loop cpuf buf s = vsprintf_loop cpuf buf s2 \<and> inside str n buf m (out @ t) as s2 \<and> no_flags s2 \<and>
    reads_at (touched str n buf) s2 cs"
proof -
  let ?s = "s\<lparr>f_format := f_format s + 1\<rparr>"
  have ins: "inside str n buf m out (a # as) ?s" using i by (rule inside_flags) simp_all
  have "outputs buf ?s t as (string_directive cpuf buf ?s)"
    using string_directive_out[of buf ?s m0 y cpuf as w t] fetched w t inside_zeros[OF ins len] inside_apart[OF ins len lay] by simp
  then show ?thesis
    using loop_finish[OF ins d rd text_case(1) _ _ _ _ len lay, where cpuf = cpuf and as = as] by (simp add: text_case(2))
qed

lemma step_text:
  assumes i: "inside str n buf m out (a # as) s" and f: "no_flags s" and rd: "reads_at (touched str n buf) s (37 # 115 # cs)"
    and a: "clear_text str n buf m a" and len: "length out + length (string_at m a) < n" and lay: "layout str n buf"
  shows "\<exists>s2. vsprintf_loop cpuf buf s = vsprintf_loop cpuf buf s2 \<and> inside str n buf m (out @ string_at m a) as s2 \<and> no_flags s2 \<and>
    reads_at (touched str n buf) s2 cs"
proof -
  let ?s = "s\<lparr>f_format := f_format s + 1\<rparr>"
  note x = clear_text_inside[OF a i]
  have sa: "\<not> f_precision_toggle ?s" "f_args ?s = a # as" using f i by (simp_all add: no_flags_def inside_def)
  obtain m0 where "local_change buf (f_mem ?s) m0" "holds buf m0 (string_at m a)"
    "fetch_string cpuf buf ?s = Some (?s\<lparr>f_mem := m0, f_args := as, f_buf_len := of_nat (length (string_at m a))\<rparr>)"
    by (rule fetch_plain[OF sa, of "string_at m a" buf cpuf]) (use x in simp_all)
  then show ?thesis
    using finish_text[OF i percent_directive[OF rd] rd, of m0 "string_at m a" cpuf 0] f len lay by (simp add: no_flags_def)
qed

lemma step_text_exact:
  assumes i: "inside str n buf m out (a # as) s" and f: "no_flags s" and rd: "reads_at (touched str n buf) s (directive_text (Text_exact k) @ cs)"
    and a: "clear_text str n buf m a" and k: "k < 1024" and len: "length out + length (directive_out m (Text_exact k) a) < n" and lay: "layout str n buf"
  shows "\<exists>s2. vsprintf_loop cpuf buf s = vsprintf_loop cpuf buf s2 \<and> inside str n buf m (out @ directive_out m (Text_exact k) a) as s2 \<and>
    no_flags s2 \<and> reads_at (touched str n buf) s2 cs"
proof -
  let ?s = "s\<lparr>f_format := f_format s + 1, f_curr_mod := 46, f_precision_toggle := True\<rparr>" and ?t = "directive_out m (Text_exact k) a"
  have rd0: "reads_at (touched str n buf) s (37 # 46 # dig_text 10 k @ 115 # cs)" using rd by simp
  have mc: "modifier_case 46 (s\<lparr>f_format := f_format s + 1\<rparr>) = Some ?s" by (simp add: modifier_case_def)
  have l1: "vsprintf_loop cpuf buf s = vsprintf_loop cpuf buf ?s" by (rule loop_first_modifier(1)[OF rd0 mc]) simp_all
  have rd1: "reads_at (touched str n buf) ?s (46 # dig_text 10 k @ 115 # cs)" by (rule loop_first_modifier(2)[OF rd0 mc]) simp_all
  obtain s1 y where s1: "vsprintf_loop cpuf buf ?s = vsprintf_loop cpuf buf s1" "reads_at (touched str n buf) s1 (y # 115 # cs)"
    "s1 = ?s\<lparr>f_precision := of_nat k, f_format := f_format s1\<rparr>"
    by (rule loop_precision[OF _ _ _ rd1, where cpuf = cpuf and buf = buf]) (use f in \<open>simp_all add: no_flags_def\<close>)
  have fl: "f_mem s1 = f_mem s" "f_str s1 = f_str s" "f_args s1 = f_args s" "f_ret s1 = f_ret s" "f_width s1 = f_width s"
    "f_precision_toggle s1" "f_precision s1 = of_nat k" "f_curr_mod s1 = 46"
    by (subst s1(3); simp)+
  have i1: "inside str n buf m out (a # as) s1" by (rule inside_flags[OF i fl(1-4)])
  let ?s1 = "s1\<lparr>f_format := f_format s1 + 1\<rparr>"
  note x = clear_text_inside[OF a i1]
  have ar: "f_args ?s1 = a # as" using i1 by (simp add: inside_def)
  obtain m0 where m0: "local_change buf (f_mem ?s1) m0" "holds buf m0 ?t"
    "fetch_string cpuf buf ?s1 = Some (?s1\<lparr>f_mem := m0, f_args := as, f_buf_len := of_nat k\<rparr>)"
    by (rule fetch_exact[of ?s1 k a as "string_at m a" buf cpuf]) (use fl x k ar in simp_all)
  have "length ?t = k" by (simp add: min_def)
  then show ?thesis
    using finish_text[OF i1 _ s1(2), of m0 ?t cpuf 0] m0 fl f len lay l1 s1(1) by (simp add: no_flags_def in_directive_def)
qed

lemma step_text_left:
  assumes i: "inside str n buf m out (a # as) s" and f: "no_flags s" and rd: "reads_at (touched str n buf) s (directive_text (Text_left w) @ cs)"
    and a: "clear_text str n buf m a" and w: "w < 1024" and len: "length out + length (directive_out m (Text_left w) a) < n" and lay: "layout str n buf"
  shows "\<exists>s2. vsprintf_loop cpuf buf s = vsprintf_loop cpuf buf s2 \<and> inside str n buf m (out @ directive_out m (Text_left w) a) as s2 \<and>
    no_flags s2 \<and> reads_at (touched str n buf) s2 cs"
proof -
  let ?s = "s\<lparr>f_format := f_format s + 1, f_curr_mod := 45, f_left_align := True\<rparr>" and ?t = "directive_out m (Text_left w) a"
  have rd0: "reads_at (touched str n buf) s (37 # 45 # dig_text 10 w @ 115 # cs)" using rd by simp
  have mc: "modifier_case 45 (s\<lparr>f_format := f_format s + 1\<rparr>) = Some ?s" by (simp add: modifier_case_def)
  have l1: "vsprintf_loop cpuf buf s = vsprintf_loop cpuf buf ?s" by (rule loop_first_modifier(1)[OF rd0 mc]) simp_all
  have rd1: "reads_at (touched str n buf) ?s (45 # dig_text 10 w @ 115 # cs)" by (rule loop_first_modifier(2)[OF rd0 mc]) simp_all
  obtain s1 y where s1: "vsprintf_loop cpuf buf ?s = vsprintf_loop cpuf buf s1" "reads_at (touched str n buf) s1 (y # 115 # cs)"
    "s1 = ?s\<lparr>f_width := of_nat w, f_format := f_format s1\<rparr>"
    by (rule loop_width[OF _ _ _ rd1, where cpuf = cpuf and buf = buf]) (use f in \<open>simp_all add: no_flags_def\<close>)
  have fl: "f_mem s1 = f_mem s" "f_str s1 = f_str s" "f_args s1 = f_args s" "f_ret s1 = f_ret s" "f_width s1 = of_nat w"
    "f_precision_toggle s1 = f_precision_toggle s" "f_left_align s1" "f_curr_mod s1 = 45"
    by (subst s1(3); simp)+
  have i1: "inside str n buf m out (a # as) s1" by (rule inside_flags[OF i fl(1-4)])
  let ?s1 = "s1\<lparr>f_format := f_format s1 + 1\<rparr>"
  note x = clear_text_inside[OF a i1]
  have sa: "\<not> f_precision_toggle ?s1" "f_args ?s1 = a # as" using f i1 fl(6) by (simp_all add: no_flags_def inside_def)
  obtain m0 where m0: "local_change buf (f_mem ?s1) m0" "holds buf m0 (string_at m a)"
    "fetch_string cpuf buf ?s1 = Some (?s1\<lparr>f_mem := m0, f_args := as, f_buf_len := of_nat (length (string_at m a))\<rparr>)"
    by (rule fetch_plain[OF sa, of "string_at m a" buf cpuf]) (use x in simp_all)
  then show ?thesis
    using finish_text[OF i1 _ s1(2), of m0 "string_at m a" cpuf w ?t] m0 fl w len lay l1 s1(1) by (simp add: in_directive_def)
qed

lemma step_char:
  assumes i: "inside str n buf m out args s" and rd: "reads_at (touched str n buf) s (37 # c # cs)"
    and mc: "modifier_case c (s\<lparr>f_format := f_format s + 1\<rparr>) = None"
    and cc: "conversion_case cpuf buf c (s\<lparr>f_format := f_format s + 1\<rparr>) = Some (put_char x (s\<lparr>f_format := f_format s + 1, f_args := as\<rparr>))"
    and len: "length out + 1 < n" and lay: "layout str n buf"
  shows "\<exists>s2. vsprintf_loop cpuf buf s = vsprintf_loop cpuf buf s2 \<and> inside str n buf m (out @ [x]) as s2 \<and> no_flags s2 \<and>
    reads_at (touched str n buf) s2 cs"
proof -
  let ?s = "s\<lparr>f_format := f_format s + 1, f_args := as\<rparr>"
  have "inside str n buf m out as ?s" using i by (simp add: inside_def)
  moreover have "outputs buf ?s [x] as (Some (put_char x ?s))" using put_char_out[of buf ?s x] by simp
  ultimately show ?thesis
    using loop_finish[OF _ percent_directive[OF rd] rd mc, of m out as ?s "[x]" as cpuf] cc len lay by simp
qed

lemma step_literal:
  assumes i: "inside str n buf m out args s" and f: "no_flags s" and rd: "reads_at (touched str n buf) s (c # cs)" and c: "c \<noteq> 37"
    and len: "length out + 1 < n" and lay: "layout str n buf"
  shows "\<exists>s2. vsprintf_loop cpuf buf s = vsprintf_loop cpuf buf s2 \<and> inside str n buf m (out @ [c]) args s2 \<and> no_flags s2 \<and>
    reads_at (touched str n buf) s2 cs"
proof -
  let ?s2 = "count_output (f_str s) (put_char c s)"
  note rc = reads_at_Cons[OF rd]
  have "\<not> in_directive s" using f c rc(1) by (simp add: in_directive_def no_flags_def)
  then have l: "vsprintf_loop cpuf buf s = vsprintf_loop cpuf buf ?s2" using rc(1,2) by (subst vsprintf_loop.simps) simp
  have o: "outputs buf s [c] args (Some (put_char c s))" using put_char_out[of buf s c] i by (simp add: inside_def)
  have "length out + length [c] < n" using len by simp
  note io = inside_outputs[OF i o this lay]
  have same: "reset_flags (put_char c s) = put_char c s" using f by (simp add: reset_flags_def put_char_def no_flags_def)
  have "reads_at (touched str n buf) ?s2 cs"
    by (rule reads_at_change[OF rc(3)]) (use io(3,4) in \<open>simp_all add: count_output_def\<close>)
  then show ?thesis using l io(1,2) same by auto
qed

lemma step_pointer:
  assumes i: "inside str n buf m out (a # as) s" and rd: "reads_at (touched str n buf) s (37 # 112 # cs)"
    and len: "length out + length (directive_out m Pointer a) < n" and lay: "layout str n buf"
  shows "\<exists>s2. vsprintf_loop cpuf buf s = vsprintf_loop cpuf buf s2 \<and> inside str n buf m (out @ directive_out m Pointer a) as s2 \<and>
    no_flags s2 \<and> reads_at (touched str n buf) s2 cs"
proof -
  let ?s = "s\<lparr>f_format := f_format s + 1, f_modifier := 1, f_padding := True, f_width := 8, f_padding_char := 48\<rparr>"
  have ins: "inside str n buf m out (a # as) ?s" using i by (rule inside_flags) simp_all
  have fits: "unat buf + 1024 \<le> 2 ^ 32" using lay by (simp add: layout_def apart_def)
  have "f_modifier ?s = mod_value Long" "f_args ?s = a # as" "pad_flags (Some (48, 8)) ?s"
    using ins by (simp_all add: inside_def pad_flags_def)
  then have "outputs buf ?s (directive_out m Pointer a) as (number_directive cpuf buf False (int 16) ?s)"
    using inside_zeros[OF ins len] inside_apart[OF ins len lay] by (intro number_directive_out[OF _ _ fits]) simp_all
  moreover have "modifier_case 112 (s\<lparr>f_format := f_format s + 1\<rparr>) = None" by (simp add: modifier_case_def)
  moreover have "conversion_case cpuf buf 112 (s\<lparr>f_format := f_format s + 1\<rparr>) = number_directive cpuf buf False (int 16) ?s"
    by (simp add: conversion_case_def)
  ultimately show ?thesis
    using loop_finish[OF ins percent_directive[OF rd] rd _ _ _ _ _ len lay, where cpuf = cpuf and as = as] by simp
qed

lemma step_directive:
  assumes i: "inside str n buf m out args s" and f: "no_flags s" and rd: "reads_at (touched str n buf) s (directive_text d @ cs)"
    and wf: "wf_directive d" "arity d \<le> length args" "\<forall>a\<in>set (text_args [d] args). clear_text str n buf m a"
    and len: "length out + length (directive_out m d (hd args)) < n" and lay: "layout str n buf"
  shows "\<exists>s2. vsprintf_loop cpuf buf s = vsprintf_loop cpuf buf s2 \<and> inside str n buf m (out @ directive_out m d (hd args)) (drop (arity d) args) s2 \<and>
    no_flags s2 \<and> reads_at (touched str n buf) s2 cs"
proof (cases "arity d = 0")
  case True
  then consider c where "d = Literal c" | "d = Percent" by (cases d) auto
  then show ?thesis
  proof cases
    case 1
    then show ?thesis using step_literal[OF i f, of c cs cpuf] rd wf(1) len lay by simp
  next
    case 2
    have "s\<lparr>f_format := f_format s + 1, f_args := args\<rparr> = s\<lparr>f_format := f_format s + 1\<rparr>" using i by (simp add: inside_def)
    then show ?thesis using 2 step_char[OF i, of 37 cs cpuf 37 args] rd len lay by (simp add: modifier_case_def conversion_case_def)
  qed
next
  case False
  then obtain a as where as: "args = a # as" using wf(2) by (cases args) auto
  have i': "inside str n buf m out (a # as) s" using i as by simp
  have one: "arity d = 1" using False by (cases d) auto
  consider "d = Character" | "d = Pointer" | p l cv where "d = Number p l cv" | "d = Text" | k where "d = Text_exact k" | w where "d = Text_left w"
    using False by (cases d) auto
  then show ?thesis
  proof cases
    case 1
    then show ?thesis using step_char[OF i, of 99 cs cpuf "ucast a" as] rd len lay as i
      by (simp add: modifier_case_def conversion_case_def va_arg_def inside_def)
  next
    case 2
    then show ?thesis using step_pointer[OF i', of cs cpuf] rd len lay as by simp
  next
    case 3
    then show ?thesis using step_number[OF i' f, of p l cv cs cpuf] rd wf(1) len lay as by simp
  next
    case 4
    then show ?thesis using step_text[OF i' f, of cs cpuf] rd wf(3) len lay as by simp
  next
    case 5
    then show ?thesis using step_text_exact[OF i' f, of k cs cpuf] rd wf(1,3) len lay as by simp
  next
    case 6
    then show ?thesis using step_text_left[OF i' f, of w cs cpuf] rd wf(1,3) len lay as by simp
  qed
qed

section \<open>Whole formats\<close>

abbreviation format_text :: "directive list \<Rightarrow> u8 list" where
  "format_text ds \<equiv> concat (map directive_text ds)"

lemma loop_renders:
  assumes lay: "layout str n buf"
  shows "inside str n buf m out args s \<Longrightarrow> no_flags s \<Longrightarrow> reads_at (touched str n buf) s (format_text ds) \<Longrightarrow> \<forall>d\<in>set ds. wf_directive d \<Longrightarrow>
    sum_list (map arity ds) \<le> length args \<Longrightarrow> \<forall>a\<in>set (text_args ds args). clear_text str n buf m a \<Longrightarrow>
    length out + length (render m ds args) < n \<Longrightarrow>
    \<exists>s2 as. vsprintf_loop cpuf buf s = Some s2 \<and> inside str n buf m (out @ render m ds args) as s2"
proof (induction ds arbitrary: out args s)
  case Nil
  then have "f_mem s (f_format s) = 0" by (simp add: reads_at_def)
  then have "vsprintf_loop cpuf buf s = Some s" by (subst vsprintf_loop.simps) simp
  then show ?case using Nil.prems(1) by auto
next
  case (Cons d ds)
  obtain s1 where s1: "vsprintf_loop cpuf buf s = vsprintf_loop cpuf buf s1"
    "inside str n buf m (out @ directive_out m d (hd args)) (drop (arity d) args) s1" "no_flags s1" "reads_at (touched str n buf) s1 (format_text ds)"
    using step_directive[OF Cons.prems(1,2) _ _ _ _ _ lay, of d "format_text ds" cpuf] Cons.prems(3-7) by auto
  have ar: "sum_list (map arity ds) \<le> length args - arity d" using Cons.prems(5) by simp
  obtain s2 as where "vsprintf_loop cpuf buf s1 = Some s2" "inside str n buf m ((out @ directive_out m d (hd args)) @ render m ds (drop (arity d) args)) as s2"
    using Cons.IH[OF s1(2-4)] Cons.prems(4-7) ar by auto
  then show ?case using s1(1) by auto
qed

lemma vsprintf_text:
  assumes "cstr m format (format_text ds)" "apart str n format (Suc (length (format_text ds)))"
    and "apart buf 1024 format (Suc (length (format_text ds)))" "apart str n buf 1024" and "\<forall>i<n. m (str + of_nat i) = 0"
    and "\<forall>d\<in>set ds. wf_directive d" "sum_list (map arity ds) \<le> length args"
    and "\<forall>a\<in>set (text_args ds args). clear_text str n buf m a" and "length (render m ds args) < n"
  shows "\<exists>m'. vsprintf cpuf buf m str format args = Some (of_nat (length (render m ds args)), m') \<and>
    bytes m' str n = render m ds args @ replicate (n - length (render m ds args)) 0 \<and> (\<forall>a. \<not> touched str n buf a \<longrightarrow> m' a = m a)"
proof -
  let ?s = "\<lparr>f_mem = fill m buf 0 1024, f_str = str, f_format = format, f_args = args, f_modifier = 0, f_curr_mod = 0, f_padding = False,
    f_padding_char = 0, f_width = 0, f_buf_len = 0, f_precision_toggle = False, f_precision = 0, f_left_align = False, f_ret = 0\<rparr>"
  have nt: "\<not> touched str n buf (format + of_nat i)" if "i \<le> length (format_text ds)" for i
    using that apart_address[OF apart_sym[OF assms(2)], of i] apart_address[OF apart_sym[OF assms(3)], of i] by (simp add: touched_def not_less)
  have keep: "fill m buf 0 1024 a = m a" if "\<not> touched str n buf a" for a
    using that by (intro fill_outside) (simp add: touched_def)
  have "cstr (fill m buf 0 1024) format (format_text ds)" using nt keep by (intro cstr_cong[OF assms(1)]) simp
  then have rd: "reads_at (touched str n buf) ?s (format_text ds)" using nt by (simp add: reads_at_def)
  have "fill m buf 0 1024 (str + of_nat i) = 0" if "i < n" for i
    using that apart_address[OF assms(4), of i] assms(5) by (simp add: fill_outside)
  then have ins: "inside str n buf m [] args ?s" using keep by (simp add: inside_def)
  have lay: "layout str n buf" using assms(4) by (simp add: layout_def)
  obtain s2 as where s2: "vsprintf_loop cpuf buf ?s = Some s2" "inside str n buf m (render m ds args) as s2"
    using loop_renders[OF lay ins _ rd assms(6-8), of cpuf] assms(9) by (auto simp: no_flags_def)
  have "bytes (f_mem s2) str n = render m ds args @ replicate (n - length (render m ds args)) 0"
    using s2(2) assms(9) by (intro nth_equalityI) (auto simp: bytes_nth inside_def nth_append)
  then show ?thesis using s2 by (auto simp: vsprintf_def inside_def)
qed

text \<open>C12: Formatted output. For every format that is made of literal characters, \<open>%%\<close>, \<open>%c\<close>, \<open>%p\<close>, \<open>%s\<close>, \<open>%.ks\<close>,
  \<open>%-ws\<close> and the number conversions with their length modifiers and padding to a width, \<open>vsprintf\<close> returns, writes to
  a zeroed destination exactly the text the directives describe, and returns its length; nothing but the destination
  and the local buffer changes. Format, strings, destination and buffer do not overlap and the text fits.\<close>

theorem vsprintf_renders:
  assumes "cstr m format (format_text ds)" "apart str n format (Suc (length (format_text ds)))"
    and "apart buf 1024 format (Suc (length (format_text ds)))" "apart str n buf 1024" and "\<forall>i<n. m (str + of_nat i) = 0"
    and "\<forall>d\<in>set ds. wf_directive d" "sum_list (map arity ds) \<le> length args"
    and "\<forall>a\<in>set (text_args ds args). clear_text str n buf m a" and "length (render m ds args) < n"
  shows "\<exists>m'. vsprintf cpuf buf m str format args = Some (of_nat (length (render m ds args)), m') \<and>
    bytes m' str n = render m ds args @ replicate (n - length (render m ds args)) 0 \<and> (\<forall>a. \<not> touched str n buf a \<longrightarrow> m' a = m a)"
  using vsprintf_text[OF assms] .

text \<open>C28: What is printed. \<open>vprintf\<close> puts the text of the format on the current terminal, character by character and in
  order, and returns its length. (Text without NUL and tabulators of less than 4096 characters.)\<close>

theorem vprintf_prints:
  assumes "cstr m format (format_text ds)" "apart out 4096 format (Suc (length (format_text ds)))"
    and "apart buf 1024 format (Suc (length (format_text ds)))" "apart out 4096 buf 1024"
    and "\<forall>d\<in>set ds. wf_directive d" "sum_list (map arity ds) \<le> length args"
    and "\<forall>a\<in>set (text_args ds args). clear_text out 4096 buf m a"
    and "text = render (fill m out 0 4096) ds args" "length text < 4096" "0 \<notin> set text" "9 \<notin> set text"
    and "tty_ok t" "out_ok t"
  shows "\<exists>m' t' s' o'. feed ascii text (t, s) = Some (t', s') \<and>
    vprintf cpuf ascii buf out m format args (t, s) = Some (of_nat (length text), m', (t'\<lparr>out_buffer := o', out_buffer_end := 0\<rparr>, s'))"
proof -
  let ?m = "fill m out 0 4096"
  have keep: "?m (p + of_nat i) = m (p + of_nat i)" if "apart out 4096 p (Suc k)" "i \<le> k" for p k i
    using that apart_address[OF apart_sym[OF that(1)], of i] by (simp add: fill_outside)
  have f: "cstr ?m format (format_text ds)" using keep[OF assms(2)] by (intro cstr_cong[OF assms(1)]) simp
  have c: "clear_text out 4096 buf ?m a" if a: "a \<in> set (text_args ds args)" for a
  proof -
    obtain x where x: "cstr m a x" "length x < 1024" "apart buf 1024 a (Suc (length x))" "apart out 4096 a (Suc (length x))"
      using assms(7) a by (auto simp: clear_text_def)
    have "cstr ?m a x" using keep[OF x(4)] by (intro cstr_cong[OF x(1)]) simp
    then show ?thesis using x by (auto simp: clear_text_def)
  qed
  obtain m' where m': "vsprintf cpuf buf ?m out format args = Some (of_nat (length text), m')"
    "bytes m' out 4096 = text @ replicate (4096 - length text) 0"
    using vsprintf_text[OF f assms(2,3,4), of args cpuf] assms(5,6,8,9) c by (auto simp: fill_inside)
  have "m' (out + of_nat i) = (text @ replicate (4096 - length text) 0) ! i" if "i < 4096" for i
    using that m'(2) bytes_nth[of i 4096 m' out] by simp
  then have tx: "cstr m' out text" using assms(9,10) by (intro cstrI) (simp_all add: nth_append)
  have "bytes m' out (length text) = text" using cstr_nth[OF tx] by (intro nth_equalityI) (simp_all add: bytes_nth)
  moreover obtain t' s' o' where "feed ascii text (t, s) = Some (t', s')"
    "tty_write ascii text (t, s) = Some (int (length text), (t'\<lparr>out_buffer := o', out_buffer_end := 0\<rparr>, s'))"
    using tty_write_feed[OF assms(12,11,13), of ascii s] by blast
  ultimately show ?thesis
    using m'(1) strlen_cstr[OF tx] unat_cstr_length[OF tx]
    by (intro exI[of _ m'] exI[of _ t'] exI[of _ s'] exI[of _ o']) (simp add: vprintf_def puts_plain_def)
qed

text \<open>A string that is shorter than the width and not aligned to the left is not printed: \<open>buf_len\<close> is still the length of
  the string, so that of the blanks and the string behind them only as many characters are appended as the string has.\<close>

theorem right_aligned_string_lost:
  assumes fetched: "local_change buf (f_mem s) m0" "holds buf m0 x"
      "fetch_string cpuf buf s = Some (s\<lparr>f_mem := m0, f_args := as, f_buf_len := of_nat (length x)\<rparr>)"
    and w: "f_width s = of_nat w" "2 * length x \<le> w" "length x < w" "w < 1024" "\<not> f_left_align s"
    and z: "zeros_at (f_mem s) (f_str s) (length x)" and ap: "apart (f_str s) (Suc (length x)) buf 1024"
  shows "outputs buf s (replicate (length x) 32) as (string_directive cpuf buf s)"
proof -
  let ?s1 = "s\<lparr>f_mem := m0, f_args := as, f_buf_len := of_nat (length x)\<rparr>" and ?t = "replicate (w - length x) 32 @ x"
  have u: "unat (f_width s) = w" using w by (simp add: unat_of_nat_small)
  have fits: "unat buf + 1024 \<le> 2 ^ 32" using ap by (simp add: apart_def)
  obtain m where m: "shift_right cpuf buf 32 ?s1 = ?s1\<lparr>f_mem := m\<rparr>" "local_change buf m0 m" "holds buf m ?t"
    using shift_right_holds[of buf ?s1 x 32 cpuf] fetched(2) w u fits by auto
  have lc: "local_change buf (f_mem s) m" using fetched(1) m(2) by (rule local_change_trans)
  have zm: "m (f_str s + of_nat i) = 0" if "i \<le> length x" for i
    using zeros_local[OF z lc ap] that by (simp add: zeros_at_def)
  have tk: "take (length x) ?t = replicate (length x) 32"
  proof -
    have "length x \<le> w - length x" using w(2) by linarith
    then show ?thesis by (simp add: min_absorb1)
  qed
  have "strncat cpuf m (f_str s) buf (of_nat (length x)) = Some (f_str s, put m (f_str s) (take (length x) ?t))"
    using zm[of 0] zm[of "length x"] ap m(3) w by (intro strncat_take apart_fwd[OF ap]) (auto simp: apart_def holds_def)
  moreover have "align_string cpuf buf ?s1 = ?s1\<lparr>f_mem := m\<rparr>"
    using m(1) w u by (simp add: align_string_def word_less_nat_alt unat_of_nat_small)
  ultimately show ?thesis
    using fetched(3) lc tk unfolding outputs_def string_directive_def Let_def
    by (intro exI[of _ m] exI[of _ "of_nat (length x)"]) simp
qed

text \<open>\<open>printf("a=%04d %s\n", -5, "ok")\<close>.\<close>

definition sample_format :: "directive list" where
  "sample_format = [Literal 97, Literal 61, Number (Some (48, 4)) Plain Signed, Literal 32, Text, Literal 10]"

definition sample_text_mem :: mem where
  "sample_text_mem = (\<lambda>_. 0)(0x1000 := 97, 0x1001 := 61, 0x1002 := 37, 0x1003 := 48, 0x1004 := 52, 0x1005 := 100, 0x1006 := 32,
     0x1007 := 37, 0x1008 := 115, 0x1009 := 10, 0x2000 := 111, 0x2001 := 107)"

lemma sample_dig: "dig_text 10 4 = [52]" "dig_text 10 5 = [53]"
  by code_simp+

lemma sample_format_text: "format_text sample_format = [97, 61, 37, 48, 52, 100, 32, 37, 115, 10]"
  by (simp add: sample_format_def sample_dig)

lemma sample_reads:
  "cstr sample_text_mem 0x1000 (format_text sample_format)" "cstr sample_text_mem 0x2000 [111, 107]"
  by (simp_all only: sample_format_text) (simp_all add: sample_text_mem_def)

lemma sample_number: "number_text True 10 Plain 0xFFFFFFFB = [45, 53]"
proof -
  have "sint (0xFFFFFFFB :: u32) = -5" by code_simp
  then show ?thesis by (simp add: number_text_def signed_text_def sample_dig)
qed

lemma sample_render:
  assumes "cstr m 0x2000 [111, 107]"
  shows "render m sample_format [0xFFFFFFFB, 0x2000] = [97, 61, 48, 48, 45, 53, 32, 111, 107, 10]"
  using assms by (simp add: sample_format_def sample_number pad_def string_at_cstr numeral_2_eq_2)

lemma sample_text_args: "text_args sample_format [0xFFFFFFFB, 0x2000] = [0x2000]"
  by (simp add: sample_format_def)

theorem vsprintf_renders_witness:
  "\<exists>m'. vsprintf \<lparr>feat_sse = True, feat_mmx = True\<rparr> 0x4000 sample_text_mem 0x3000 0x1000 [0xFFFFFFFB, 0x2000] = Some (10, m') \<and>
    bytes m' 0x3000 12 = [97, 61, 48, 48, 45, 53, 32, 111, 107, 10, 0, 0]"
proof -
  have c: "clear_text 0x3000 12 0x4000 sample_text_mem 0x2000"
    unfolding clear_text_def using sample_reads(2) by (intro exI[of _ "[111, 107]"]) (simp add: apart_def)
  have "sample_text_mem a = 0" if "0x3000 \<le> unat a" for a using that by (auto simp: sample_text_mem_def)
  moreover have "0x3000 \<le> unat (0x3000 + of_nat i :: u32)" if "i < 12" for i using that unat_add_of_nat[of "0x3000 :: u32" i] by simp
  ultimately have z: "\<forall>i<12. sample_text_mem (0x3000 + of_nat i) = 0" by simp
  have ap: "apart 0x3000 12 0x1000 (Suc (length (format_text sample_format)))" "apart 0x4000 1024 0x1000 (Suc (length (format_text sample_format)))"
    by (simp_all only: sample_format_text) (simp_all add: apart_def)
  have lay: "apart 0x3000 12 0x4000 1024" by (simp add: apart_def)
  have wf: "\<forall>d\<in>set sample_format. wf_directive d" "sum_list (map arity sample_format) \<le> length [0xFFFFFFFB, 0x2000 :: u32]"
    by (simp_all add: sample_format_def)
  have two: "replicate (12 - 10) x = [x, x]" for x :: u8 by (simp add: numeral_2_eq_2)
  show ?thesis
    using vsprintf_renders[OF sample_reads(1) ap lay z wf, of "\<lparr>feat_sse = True, feat_mmx = True\<rparr>"] c two
    by (auto simp: sample_render[OF sample_reads(2)] sample_text_args)
qed

theorem vprintf_prints_witness:
  "\<exists>m' t' s' o'. feed (\<lambda>_ _. 0) [97, 61, 48, 48, 45, 53, 32, 111, 107, 10] (sample_tty, sample_screen) = Some (t', s') \<and>
    vprintf \<lparr>feat_sse = True, feat_mmx = True\<rparr> (\<lambda>_ _. 0) 0x4000 0x8000 sample_text_mem 0x1000 [0xFFFFFFFB, 0x2000] (sample_tty, sample_screen) =
      Some (10, m', (t'\<lparr>out_buffer := o', out_buffer_end := 0\<rparr>, s'))"
proof -
  have c: "clear_text 0x8000 4096 0x4000 sample_text_mem 0x2000"
    unfolding clear_text_def using sample_reads(2) by (intro exI[of _ "[111, 107]"]) (simp add: apart_def)
  have ap: "apart 0x8000 4096 0x1000 (Suc (length (format_text sample_format)))" "apart 0x4000 1024 0x1000 (Suc (length (format_text sample_format)))"
    by (simp_all only: sample_format_text) (simp_all add: apart_def)
  have lay: "apart 0x8000 4096 0x4000 1024" by (simp add: apart_def)
  have wf: "\<forall>d\<in>set sample_format. wf_directive d" "sum_list (map arity sample_format) \<le> length [0xFFFFFFFB, 0x2000 :: u32]"
    by (simp_all add: sample_format_def)
  have "cstr (fill sample_text_mem 0x8000 0 4096) 0x2000 [111, 107]" by (simp add: fill_def sample_text_mem_def)
  note r = sample_render[OF this]
  have "out_ok sample_tty" by (simp add: out_ok_def)
  then show ?thesis
    using vprintf_prints[OF sample_reads(1) ap lay wf _ r[symmetric], of sample_tty "\<lambda>_ _. 0" sample_screen "\<lparr>feat_sse = True, feat_mmx = True\<rparr>"]
      c sample_tty_ok by (simp add: sample_text_args)
qed

end
