(* ===== verification/Process.thy ===== *)
theory Process
  imports Vfs Tty
begin

text \<open>
  \<^verbatim>\<open>modules/process.c\<close>, \<^verbatim>\<open>modules/task.c\<close> and \<^verbatim>\<open>modules/semaphore.c\<close>: processes, the ready queue, the
  round-robin scheduler, file descriptors, deferred tasks and semaphores, on top of paging and the kernel heap.

  The structures live at the addresses \<open>calloc\<close> returns; \<open>procs\<close> and \<open>tasks\<close> are the memory seen as such
  structures. \<open>free\<close> gives the memory back to the heap and leaves the contents, as \<^verbatim>\<open>heap.c\<close> does, so that the
  accesses the code makes to structures it has just freed see the old contents. The arrays a process owns are
  lists next to their addresses, empty for a NULL pointer. \<open>None\<close> means a fault (NULL or out of range access)
  or a loop that does not end.
\<close>

section \<open>Data\<close>

record registers =
  r_cr4 :: u32
  r_cr3 :: u32
  r_cr2 :: u32
  r_cr0 :: u32
  r_gs :: u32
  r_fs :: u32
  r_es :: u32
  r_ds :: u32
  r_edi :: u32
  r_esi :: u32
  r_ebp :: u32
  r_esp :: u32
  r_ebx :: u32
  r_edx :: u32
  r_ecx :: u32
  r_eax :: u32
  r_int_no :: u32
  r_err_code :: u32
  r_eip :: u32
  r_cs :: u32
  r_eflags :: u32
  r_useresp :: u32
  r_ss :: u32

definition zero_registers :: registers where
  "zero_registers = \<lparr>r_cr4 = 0, r_cr3 = 0, r_cr2 = 0, r_cr0 = 0, r_gs = 0, r_fs = 0, r_es = 0, r_ds = 0, r_edi = 0,
     r_esi = 0, r_ebp = 0, r_esp = 0, r_ebx = 0, r_edx = 0, r_ecx = 0, r_eax = 0, r_int_no = 0, r_err_code = 0,
     r_eip = 0, r_cs = 0, r_eflags = 0, r_useresp = 0, r_ss = 0\<rparr>"

text \<open>\<^verbatim>\<open>modules/fd.h\<close>; the terminal is its number.\<close>

record file_descriptor =
  fd_used :: bool
  fd_type :: u32
  fd_mount :: "mount_t option"
  fd_st :: stat
  fd_name :: "u8 list"
  fd_tty :: "nat option"
  fd_fb :: bool
  fd_offset :: u32
  fd_flags :: u32
  fd_read :: bool
  fd_write :: bool

definition zero_fd :: file_descriptor where
  "zero_fd = \<lparr>fd_used = False, fd_type = 0, fd_mount = None, fd_st = zero_stat, fd_name = [], fd_tty = None,
     fd_fb = False, fd_offset = 0, fd_flags = 0, fd_read = False, fd_write = False\<rparr>"

datatype ProcessState = PROCESS_NEW | PROCESS_READY | PROCESS_RUNNING | PROCESS_WAITING | PROCESS_STOPPED | PROCESS_ZOMBIE

record process_t =
  p_pid :: u32
  p_uid :: u32
  p_gid :: u32
  p_euid :: u32
  p_egid :: u32
  p_state :: ProcessState
  p_suspended :: bool
  p_priority :: u8
  p_preemptions :: u32
  p_exit_code :: int
  p_signal :: int
  p_waitpid :: u32
  p_waitpid_status :: ptr
  p_cwd_mount :: "mount_t option"
  p_cwd :: stat
  p_capabilities :: u32
  p_pdt :: ptr
  p_r :: registers
  p_fd_count :: u32
  p_fd_addr :: ptr
  p_fd :: "file_descriptor list"
  p_sig_addr :: ptr
  p_sig_handles :: "u32 list"
  p_parent :: ptr
  p_next :: ptr

definition zero_process :: process_t where
  "zero_process = \<lparr>p_pid = 0, p_uid = 0, p_gid = 0, p_euid = 0, p_egid = 0, p_state = PROCESS_NEW, p_suspended = False,
     p_priority = 0, p_preemptions = 0, p_exit_code = 0, p_signal = 0, p_waitpid = 0, p_waitpid_status = 0,
     p_cwd_mount = None, p_cwd = zero_stat, p_capabilities = 0, p_pdt = 0, p_r = zero_registers, p_fd_count = 0,
     p_fd_addr = 0, p_fd = [], p_sig_addr = 0, p_sig_handles = [], p_parent = 0, p_next = 0\<rparr>"

text \<open>The callback of a task is a code address.\<close>

record task_t =
  t_process :: ptr
  t_callback :: ptr
  t_next :: ptr

record proc_state = kernel_state +
  vfs :: vfs_state
  terminals :: tty_table
  procs :: "ptr \<Rightarrow> process_t"
  tasks :: "ptr \<Rightarrow> task_t"
  process_next_pid :: u32
  ready_queue :: ptr
  current_process :: ptr
  kernel_idle_process :: ptr
  round_robin :: bool
  task_queue :: ptr

abbreviation (input) sizeof_process :: u32 where "sizeof_process \<equiv> 556"
abbreviation (input) sizeof_fd :: u32 where "sizeof_fd \<equiv> 668"
abbreviation (input) NSIG :: nat where "NSIG \<equiv> 32"
abbreviation (input) SIG_IGN :: u32 where "SIG_IGN \<equiv> 1"
abbreviation (input) SIG_DFL :: u32 where "SIG_DFL \<equiv> 2"
abbreviation (input) SIG_HOLD :: u32 where "SIG_HOLD \<equiv> 3"

definition upd_proc :: "ptr \<Rightarrow> (process_t \<Rightarrow> process_t) \<Rightarrow> 'a proc_state_scheme \<Rightarrow> 'a proc_state_scheme" where
  "upd_proc p f s = s\<lparr>procs := (procs s)(p := f (procs s p))\<rparr>"

section \<open>The ready queue\<close>

partial_function (option) last_node :: "(ptr \<Rightarrow> process_t) \<Rightarrow> ptr \<Rightarrow> ptr option" where
  "last_node h node = (if p_next (h node) = NULL then Some node else last_node h (p_next (h node)))"

definition process_add_ready_queue :: "ptr \<Rightarrow> 'a proc_state_scheme \<Rightarrow> 'a proc_state_scheme option" where
  "process_add_ready_queue p s =
     (if ready_queue s = NULL then Some (s\<lparr>ready_queue := p\<rparr>)
      else do { l \<leftarrow> last_node (procs s) (ready_queue s); Some (upd_proc l (\<lambda>x. x\<lparr>p_next := p\<rparr>) s) })"

partial_function (option) remove_loop :: "ptr \<Rightarrow> ptr \<Rightarrow> ptr \<Rightarrow> 'a proc_state_scheme \<Rightarrow> 'a proc_state_scheme option" where
  "remove_loop p prev node s =
     (if node = NULL then Some s
      else if node = p
      then Some (if prev \<noteq> NULL then upd_proc prev (\<lambda>x. x\<lparr>p_next := p_next (procs s node)\<rparr>) s
                 else s\<lparr>ready_queue := p_next (procs s node)\<rparr>)
      else remove_loop p node (p_next (procs s node)) s)"

definition process_remove_ready_queue :: "ptr \<Rightarrow> 'a proc_state_scheme \<Rightarrow> 'a proc_state_scheme option" where
  "process_remove_ready_queue p s = remove_loop p NULL (ready_queue s) s"

partial_function (option) by_pid_loop :: "(ptr \<Rightarrow> process_t) \<Rightarrow> u32 \<Rightarrow> ptr \<Rightarrow> ptr option" where
  "by_pid_loop h i node =
     (if node = NULL then Some NULL
      else if p_pid (h node) = i then Some node
      else by_pid_loop h i (p_next (h node)))"

definition process_by_pid :: "u32 \<Rightarrow> 'a proc_state_scheme \<Rightarrow> ptr option" where
  "process_by_pid i s = by_pid_loop (procs s) i (ready_queue s)"

section \<open>Tasks\<close>

partial_function (option) last_task :: "(ptr \<Rightarrow> task_t) \<Rightarrow> ptr \<Rightarrow> ptr option" where
  "last_task h node = (if t_next (h node) = NULL then Some node else last_task h (t_next (h node)))"

definition task_push :: "ptr \<Rightarrow> 'a proc_state_scheme \<Rightarrow> 'a proc_state_scheme option" where
  "task_push t s =
     (if task_queue s = NULL then Some (s\<lparr>task_queue := t\<rparr>)
      else do { l \<leftarrow> last_task (tasks s) (task_queue s);
                Some (s\<lparr>tasks := (tasks s)(l := (tasks s l)\<lparr>t_next := t\<rparr>)\<rparr>) })"

definition task_pop :: "'a proc_state_scheme \<Rightarrow> ptr \<times> 'a proc_state_scheme" where
  "task_pop s =
     (let t = task_queue s in (t, if t \<noteq> NULL then s\<lparr>task_queue := t_next (tasks s t)\<rparr> else s))"

text \<open>\<open>call\<close> runs the code at an address with the process and its registers \<open>ebx\<close> to \<open>ebp\<close> as arguments.\<close>

definition task_execute ::
  "(ptr \<Rightarrow> ptr \<Rightarrow> u32 list \<Rightarrow> 'a proc_state_scheme \<Rightarrow> (u32 \<times> 'a proc_state_scheme) option) \<Rightarrow> ptr \<Rightarrow>
     'a proc_state_scheme \<Rightarrow> 'a proc_state_scheme option" where
  "task_execute call t s =
     (if t \<noteq> NULL \<and> t_callback (tasks s t) \<noteq> NULL \<and> t_process (tasks s t) \<noteq> NULL
      then let p = t_process (tasks s t); rs = p_r (procs s p)
           in do {
             (ret, s1) \<leftarrow> call (t_callback (tasks s t)) p [r_ebx rs, r_ecx rs, r_edx rs, r_esi rs, r_edi rs, r_ebp rs] s;
             Some (upd_proc p (\<lambda>x. x\<lparr>p_r := (p_r x)\<lparr>r_eax := ret\<rparr>, p_state := PROCESS_READY, p_suspended := False\<rparr>) s1) }
      else Some s)"

text \<open>After removing a node, \<open>prev\<close> is the removed node.\<close>

partial_function (option) task_remove_loop :: "ptr \<Rightarrow> ptr \<Rightarrow> ptr \<Rightarrow> 'a proc_state_scheme \<Rightarrow> 'a proc_state_scheme option" where
  "task_remove_loop p prev node s =
     (if node = NULL then Some s
      else do {
        s1 \<leftarrow> (if t_process (tasks s node) = p
               then free node (if prev \<noteq> NULL
                      then s\<lparr>tasks := (tasks s)(prev := (tasks s prev)\<lparr>t_next := t_next (tasks s node)\<rparr>)\<rparr>
                      else s\<lparr>task_queue := t_next (tasks s node)\<rparr>)
               else Some s);
        task_remove_loop p node (t_next (tasks s1 node)) s1 })"

definition task_remove_all_from :: "ptr \<Rightarrow> 'a proc_state_scheme \<Rightarrow> 'a proc_state_scheme option" where
  "task_remove_all_from p s = task_remove_loop p NULL (task_queue s) s"

section \<open>Creation and destruction\<close>

text \<open>\<open>machine\<close> are the contents of the processor's registers at the time.\<close>

definition process_save_curr_state :: "registers \<Rightarrow> ptr \<Rightarrow> u32 \<Rightarrow> 'a proc_state_scheme \<Rightarrow> 'a proc_state_scheme" where
  "process_save_curr_state machine p eip = upd_proc p (\<lambda>x. x\<lparr>p_r := (p_r x)\<lparr>
     r_esp := r_esp machine, r_ebp := 0, r_cs := r_cs machine, r_ds := r_ds machine, r_es := r_es machine,
     r_fs := r_fs machine, r_gs := r_gs machine, r_ss := r_ss machine, r_eflags := r_eflags machine,
     r_useresp := r_esp machine, r_eax := r_eax machine, r_ebx := r_ebx machine, r_ecx := r_ecx machine,
     r_edx := r_edx machine, r_esi := r_esi machine, r_edi := r_edi machine, r_eip := eip\<rparr>\<rparr>)"

definition process_init :: "registers \<Rightarrow> u32 \<Rightarrow> 'a proc_state_scheme \<Rightarrow> 'a proc_state_scheme option" where
  "process_init machine kernel_int_wait s = do {
     (p, s1) \<leftarrow> calloc 1 sizeof_process s;
     if p = NULL then None
     else
       let s2 = s1\<lparr>kernel_idle_process := p, current_process := p,
                   procs := (procs s1)(p := zero_process\<lparr>p_state := PROCESS_RUNNING, p_pdt := current_pdt s1\<rparr>)\<rparr>
       in Some (process_save_curr_state machine p kernel_int_wait s2) }"

definition process_enable_round_robin :: "'a proc_state_scheme \<Rightarrow> 'a proc_state_scheme" where
  "process_enable_round_robin s = s\<lparr>round_robin := True\<rparr>"

definition process_disable_round_robin :: "'a proc_state_scheme \<Rightarrow> 'a proc_state_scheme" where
  "process_disable_round_robin s = s\<lparr>round_robin := False\<rparr>"

definition process_disable :: "'a proc_state_scheme \<Rightarrow> 'a proc_state_scheme" where
  "process_disable s = process_disable_round_robin (s\<lparr>current_process := kernel_idle_process s\<rparr>)"

definition process_fill_sig_handlers :: "process_t \<Rightarrow> process_t" where
  "process_fill_sig_handlers x = x\<lparr>p_sig_handles := replicate NSIG SIG_DFL\<rparr>"

definition process_create :: "u32 \<Rightarrow> u32 \<Rightarrow> ptr \<Rightarrow> bool \<Rightarrow> 'a proc_state_scheme \<Rightarrow> (ptr \<times> 'a proc_state_scheme) option" where
  "process_create entry stack_base pdt switch_to s = do {
     let i = process_next_pid s;
     (node, s1) \<leftarrow> calloc 1 sizeof_process (s\<lparr>process_next_pid := process_next_pid s + 1\<rparr>);
     if node = NULL then None
     else do {
       (fdp, s2) \<leftarrow> calloc 256 sizeof_fd s1;
       (sg, s3) \<leftarrow> calloc (of_nat NSIG) 4 s2;
       if sg = NULL then None
       else do {
         (_, _, st) \<leftarrow> vfs_stat True (Some [47]) (vfs s3);
         let x = process_fill_sig_handlers (zero_process\<lparr>p_pid := i, p_state := PROCESS_READY, p_pdt := pdt,
           p_fd_count := 256, p_fd_addr := fdp, p_fd := (if fdp = NULL then [] else replicate 256 zero_fd), p_sig_addr := sg,
           p_r := zero_registers\<lparr>r_cs := 27, r_ds := 35, r_es := 35, r_fs := 35, r_gs := 35,
             r_eip := entry, r_useresp := stack_base, r_ebp := stack_base\<rparr>,
           p_cwd := (case st of None \<Rightarrow> zero_stat | Some c \<Rightarrow> c)\<rparr>);
         let s4 = s3\<lparr>procs := (procs s3)(node := x)\<rparr>;
         s5 \<leftarrow> process_add_ready_queue node (if switch_to then s4\<lparr>current_process := node\<rparr> else s4);
         Some (node, s5) } } }"

partial_function (option) reparent_loop :: "ptr \<Rightarrow> ptr \<Rightarrow> 'a proc_state_scheme \<Rightarrow> 'a proc_state_scheme option" where
  "reparent_loop p node s =
     (if node = NULL then Some s
      else let s1 = (if p_parent (procs s node) = p
                     then upd_proc node (\<lambda>x. x\<lparr>p_parent := p_parent (procs s p)\<rparr>) s else s)
           in reparent_loop p (p_next (procs s1 node)) s1)"

text \<open>\<open>fd_count\<close> descriptors are marked as unused; fewer of them is a fault.\<close>

definition close_all :: "process_t \<Rightarrow> process_t option" where
  "close_all x = (if unat (p_fd_count x) \<le> length (p_fd x)
     then Some (x\<lparr>p_fd := map (\<lambda>f. f\<lparr>fd_used := False\<rparr>) (take (unat (p_fd_count x)) (p_fd x)) @ drop (unat (p_fd_count x)) (p_fd x)\<rparr>)
     else None)"

definition process_destroy :: "ptr \<Rightarrow> int \<Rightarrow> 'a proc_state_scheme \<Rightarrow> 'a proc_state_scheme option" where
  "process_destroy p exit_code s =
     (if p = kernel_idle_process s then Some s
      else do {
        let s1 = upd_proc p (\<lambda>x. x\<lparr>p_state := PROCESS_ZOMBIE, p_exit_code := exit_code\<rparr>) s;
        s2 \<leftarrow> mmu_free_pages (p_pdt (procs s1 p)) 0 (0x300 * 1024) s1;
        s3 \<leftarrow> bitmap_free_pages (p_pdt (procs s2 p)) 1 s2;
        x \<leftarrow> close_all (procs s3 p);
        s4 \<leftarrow> free (p_fd_addr x) (upd_proc p (\<lambda>_. x) s3);
        s5 \<leftarrow> reparent_loop p (ready_queue s4) s4;
        s6 \<leftarrow> process_remove_ready_queue p s5;
        s7 \<leftarrow> task_remove_all_from p s6;
        free p s7 })"

section \<open>Switching\<close>

text \<open>\<open>r\<close> is the register frame of the interrupt, which the code changes in place.\<close>

definition process_unload :: "registers \<Rightarrow> 'a proc_state_scheme \<Rightarrow> 'a proc_state_scheme" where
  "process_unload r s =
     (if \<not> round_robin s then s
      else upd_proc (current_process s) (\<lambda>x. x\<lparr>p_r := r, p_state := PROCESS_READY, p_preemptions := p_preemptions x + 1\<rparr>)
             (mmu_load_kernel_pdt s))"

definition process_reload :: "registers \<Rightarrow> 'a proc_state_scheme \<Rightarrow> registers \<times> 'a proc_state_scheme" where
  "process_reload r s =
     (let p = current_process s
      in if \<not> round_robin s \<or> p_state (procs s p) = PROCESS_RUNNING then (r, s)
         else (p_r (procs s p), mmu_load_pdt (p_pdt (procs s p)) (upd_proc p (\<lambda>x. x\<lparr>p_state := PROCESS_RUNNING\<rparr>) s)))"

text \<open>A pending signal with a handler: the frame continues in the handler, with the signal number and the old
  instruction pointer on the user stack.\<close>

definition deliver_signal :: "ptr \<Rightarrow> 'a proc_state_scheme \<Rightarrow> 'a proc_state_scheme option" where
  "deliver_signal p s =
     (let x = procs s p
      in if p_signal x = 0 then Some s
         else do {
           handler \<leftarrow> cell_get (p_sig_handles x) (p_signal x);
           if handler \<noteq> 0 \<and> handler \<noteq> SIG_IGN \<and> handler \<noteq> SIG_DFL \<and> handler \<noteq> SIG_HOLD
           then
             let eip = r_eip (p_r x); esp = r_useresp (p_r x);
                 s1 = upd_proc p (\<lambda>x. x\<lparr>p_r := (p_r x)\<lparr>r_eip := handler, r_useresp := r_useresp (p_r x) - 8\<rparr>\<rparr>) s
             in Some (mmu_writel (p_pdt x) (esp - 8) eip (mmu_writel (p_pdt x) (esp - 4) (of_int (p_signal x)) s1))
           else Some s })"

definition process_switch :: "ptr \<Rightarrow> registers \<Rightarrow> 'a proc_state_scheme \<Rightarrow> (registers \<times> 'a proc_state_scheme) option" where
  "process_switch p r s =
     (if current_process s = p then Some (r, s)
      else do {
        let s1 = (upd_proc (current_process s) (\<lambda>x. x\<lparr>p_state := PROCESS_READY\<rparr>) s)\<lparr>current_process := p\<rparr>;
        s2 \<leftarrow> deliver_signal p s1;
        let s3 = upd_proc p (\<lambda>x. x\<lparr>p_state := PROCESS_RUNNING\<rparr>) s2;
        Some (p_r (procs s2 p), mmu_load_pdt (p_pdt (procs s3 p)) s3) })"

definition process_idle :: "registers \<Rightarrow> 'a proc_state_scheme \<Rightarrow> (registers \<times> 'a proc_state_scheme) option" where
  "process_idle r s = process_switch (kernel_idle_process s) r s"

definition process_is_idle :: "'a proc_state_scheme \<Rightarrow> bool" where
  "process_is_idle s = (current_process s = kernel_idle_process s)"

definition process_do_round_robin :: "ptr \<Rightarrow> registers \<Rightarrow> 'a proc_state_scheme \<Rightarrow> (registers \<times> 'a proc_state_scheme) option" where
  "process_do_round_robin p r s =
     (if p = NULL then Some (r, s)
      else process_switch p r (if current_process s \<noteq> kernel_idle_process s then process_unload r s else s))"

definition runnable :: "process_t \<Rightarrow> bool" where
  "runnable x \<longleftrightarrow> \<not> p_suspended x \<and> p_state x = PROCESS_READY"

partial_function (option) find_ready :: "(ptr \<Rightarrow> process_t) \<Rightarrow> ptr \<Rightarrow> ptr \<Rightarrow> ptr option" where
  "find_ready h stop node =
     (if node = NULL \<or> node = stop then Some NULL
      else if runnable (h node) then Some node
      else find_ready h stop (p_next (h node)))"

definition process_round_robin :: "registers \<Rightarrow> 'a proc_state_scheme \<Rightarrow> (registers \<times> 'a proc_state_scheme) option" where
  "process_round_robin r s =
     (if \<not> round_robin s then Some (r, s)
      else do {
        let cur = current_process s;
        n1 \<leftarrow> (if cur \<noteq> NULL \<and> cur \<noteq> kernel_idle_process s then find_ready (procs s) NULL (p_next (procs s cur)) else Some NULL);
        if n1 \<noteq> NULL then process_do_round_robin n1 r s
        else do {
          n2 \<leftarrow> find_ready (procs s) cur (ready_queue s);
          if n2 \<noteq> NULL then process_do_round_robin n2 r s else Some (r, s) } })"

definition process_set_by_pid :: "u32 \<Rightarrow> 'a proc_state_scheme \<Rightarrow> 'a proc_state_scheme option" where
  "process_set_by_pid i s = do {
     p \<leftarrow> process_by_pid i s;
     Some (if p = NULL then s else s\<lparr>current_process := p\<rparr>) }"

section \<open>Waiting, interrupts, forking\<close>

partial_function (option) notify_loop :: "u32 \<Rightarrow> int \<Rightarrow> ptr \<Rightarrow> 'a proc_state_scheme \<Rightarrow> 'a proc_state_scheme option" where
  "notify_loop i status node s =
     (if node = NULL then Some s
      else
        let x = procs s node;
            s1 = (if p_waitpid x = i
                  then let s' = upd_proc node (\<lambda>x. x\<lparr>p_waitpid := 0, p_suspended := False, p_r := (p_r x)\<lparr>r_eax := i\<rparr>\<rparr>) s
                       in if p_waitpid_status x \<noteq> NULL then mmu_writel (p_pdt x) (p_waitpid_status x) (of_int status) s' else s'
                  else s)
        in notify_loop i status (p_next (procs s1 node)) s1)"

definition process_notify_waitpid :: "u32 \<Rightarrow> int \<Rightarrow> 'a proc_state_scheme \<Rightarrow> 'a proc_state_scheme option" where
  "process_notify_waitpid i status s = notify_loop i status (ready_queue s) s"

definition process_handle_int :: "ptr \<Rightarrow> registers \<Rightarrow> 'a proc_state_scheme \<Rightarrow> (registers \<times> 'a proc_state_scheme) option" where
  "process_handle_int p r s = do { s1 \<leftarrow> process_destroy p 1 s; process_idle r s1 }"

definition process_fork :: "cpu_features \<Rightarrow> ptr \<Rightarrow> 'a proc_state_scheme \<Rightarrow> (ptr \<times> 'a proc_state_scheme) option" where
  "process_fork cpuf p s = do {
     (pdt, s1) \<leftarrow> mmu_clone_pdt cpuf (p_pdt (procs s p)) s;
     (child, s2) \<leftarrow> process_create (r_eip (p_r (procs s1 p))) (r_useresp (p_r (procs s1 p))) pdt False s1;
     let x = procs s2 p;
     if p_fd (procs s2 child) = [] \<or> p_fd x = [] then None
     else Some (child, upd_proc child (\<lambda>y. y\<lparr>p_parent := p, p_uid := p_uid x, p_gid := p_gid x, p_euid := p_euid x,
            p_egid := p_egid x, p_cwd := p_cwd x, p_r := p_r x, p_fd := p_fd x\<rparr>) s2) }"

section \<open>File descriptors\<close>

text \<open>The number in a string, read by \<open>atoi\<close> from a copy of it in memory.\<close>

definition atoi_of :: "u8 list \<Rightarrow> u32 option" where
  "atoi_of bs = atoi (put_bytes (\<lambda>_. 0) 1 bs) 1"

abbreviation (input) dev_tty :: "u8 list" where "dev_tty \<equiv> [47, 100, 101, 118, 47, 116, 116, 121]"
abbreviation (input) dev_fb :: "u8 list" where "dev_fb \<equiv> [47, 100, 101, 118, 47, 102, 98]"
abbreviation (input) O_DIRECTORY :: u32 where "O_DIRECTORY \<equiv> 65536"

definition set_access :: "u32 \<Rightarrow> file_descriptor \<Rightarrow> file_descriptor" where
  "set_access flags f =
     (if flags AND 3 = 0 then f\<lparr>fd_read := True\<rparr>
      else if flags AND 3 = 1 then f\<lparr>fd_write := True\<rparr>
      else if flags AND 3 = 2 then f\<lparr>fd_read := True, fd_write := True\<rparr> else f)"

text \<open>What is opened, in the descriptor \<open>f\<close>, and the return value: 0 stands for success.\<close>

definition open_target :: "bool \<Rightarrow> u8 list \<Rightarrow> u32 \<Rightarrow> vfs_state \<Rightarrow> tty_table \<Rightarrow> file_descriptor \<Rightarrow> (int \<times> file_descriptor) option" where
  "open_target alloc_ok path flags v tt f =
     (if take 8 path = dev_tty then do {
        n \<leftarrow> atoi_of (drop 8 path);
        let num = sint n;
        let f1 = f\<lparr>fd_type := S_IFCHR\<rparr>;
        if num \<noteq> 0 \<and> num > tty_get_count then Some (- ENOENT, f1)
        else Some (0, f1\<lparr>fd_tty := tty_open ((if num = 0 then tty_get_current tt + 1 else num) - 1) tt\<rparr>) }
      else if take 7 path = dev_fb then do {
        n \<leftarrow> atoi_of (drop 7 path);
        let f1 = f\<lparr>fd_type := S_IFCHR\<rparr>;
        if sint n > 0 then Some (- ENOENT, f1) else Some (0, f1\<lparr>fd_fb := True\<rparr>) }
      else do {
        (ret, m, st) \<leftarrow> vfs_stat alloc_ok (Some path) v;
        if ret \<noteq> 0 then Some (ret, f\<lparr>fd_offset := 0, fd_used := False\<rparr>)
        else
          let f1 = f\<lparr>fd_offset := 0, fd_mount := (case m of None \<Rightarrow> fd_mount f | Some x \<Rightarrow> Some x),
                     fd_st := (case st of None \<Rightarrow> fd_st f | Some x \<Rightarrow> x)\<rparr>;
              f2 = f1\<lparr>fd_type := st_mode (fd_st f1) AND S_IFMT\<rparr>
          in if flags AND O_DIRECTORY \<noteq> 0 \<and> st_mode (fd_st f2) AND S_IFDIR = 0
             then Some (- ENOTDIR, f2\<lparr>fd_used := False\<rparr>) else Some (0, f2) })"

definition process_open_file :: "bool \<Rightarrow> ptr \<Rightarrow> u8 list \<Rightarrow> u32 \<Rightarrow> 'a proc_state_scheme \<Rightarrow> (int \<times> 'a proc_state_scheme) option" where
  "process_open_file alloc_ok p path flags s =
     (let x = procs s p
      in if unat (p_fd_count x) > length (p_fd x) then None
         else case List.find (\<lambda>i. \<not> fd_used (p_fd x ! i)) [0..<unat (p_fd_count x)] of
           None \<Rightarrow> Some (- ENOMEM, s)
         | Some i \<Rightarrow> do {
             (ret, f) \<leftarrow> open_target alloc_ok path flags (vfs s) (terminals s)
               (set_access flags ((p_fd x ! i)\<lparr>fd_used := True, fd_flags := flags, fd_offset := 0, fd_name := take 256 path\<rparr>));
             Some (if ret = 0 then int i else ret, upd_proc p (\<lambda>x. x\<lparr>p_fd := (p_fd x)[i := f]\<rparr>) s) })"

definition process_stat_file :: "bool \<Rightarrow> u8 list option \<Rightarrow> 'a proc_state_scheme \<Rightarrow> stat_result option" where
  "process_stat_file alloc_ok path s = vfs_stat alloc_ok path (vfs s)"

text \<open>\<open>fd < p->fd_count\<close> compares as unsigned.\<close>

definition process_close_file :: "ptr \<Rightarrow> u32 \<Rightarrow> 'a proc_state_scheme \<Rightarrow> (int \<times> 'a proc_state_scheme) option" where
  "process_close_file p fd s =
     (let x = procs s p
      in if fd < p_fd_count x then
           (if unat fd \<ge> length (p_fd x) then None
            else if fd_used (p_fd x ! unat fd)
            then Some (0, upd_proc p (\<lambda>x. x\<lparr>p_fd := (p_fd x)[unat fd := (p_fd x ! unat fd)\<lparr>fd_used := False\<rparr>]\<rparr>) s)
            else Some (- EBADFD, s))
         else Some (- EBADFD, s))"

section \<open>Semaphores\<close>

record semaphore_t =
  sem_count :: int
  sem_queue :: ptr

definition semaphore_queue_push :: "ptr \<Rightarrow> semaphore_t \<times> 'a proc_state_scheme \<Rightarrow> (semaphore_t \<times> 'a proc_state_scheme) option" where
  "semaphore_queue_push p ss = (case ss of (sem, s) \<Rightarrow>
     if sem_queue sem = NULL then Some (sem\<lparr>sem_queue := p\<rparr>, upd_proc p (\<lambda>x. x\<lparr>p_next := NULL\<rparr>) s)
     else do {
       l \<leftarrow> last_node (procs s) (sem_queue sem);
       Some (sem, upd_proc p (\<lambda>x. x\<lparr>p_next := NULL\<rparr>) (upd_proc l (\<lambda>x. x\<lparr>p_next := p\<rparr>) s)) })"

definition semaphore_queue_pop :: "semaphore_t \<times> 'a proc_state_scheme \<Rightarrow> ptr \<times> semaphore_t" where
  "semaphore_queue_pop ss = (case ss of (sem, s) \<Rightarrow>
     if sem_queue sem = NULL then (NULL, sem)
     else (sem_queue sem, sem\<lparr>sem_queue := p_next (procs s (sem_queue sem))\<rparr>))"

definition semaphore_down :: "ptr \<Rightarrow> semaphore_t \<times> 'a proc_state_scheme \<Rightarrow> (semaphore_t \<times> 'a proc_state_scheme) option" where
  "semaphore_down p ss = (case ss of (sem, s) \<Rightarrow>
     if sem_count sem > 0 then Some (sem\<lparr>sem_count := sem_count sem - 1\<rparr>, s)
     else do {
       s1 \<leftarrow> process_remove_ready_queue p (upd_proc p (\<lambda>x. x\<lparr>p_state := PROCESS_WAITING\<rparr>) s);
       semaphore_queue_push p (sem, s1) })"

definition semaphore_up :: "semaphore_t \<times> 'a proc_state_scheme \<Rightarrow> (semaphore_t \<times> 'a proc_state_scheme) option" where
  "semaphore_up ss = (case ss of (sem, s) \<Rightarrow>
     let (p, sem1) = semaphore_queue_pop (sem\<lparr>sem_count := sem_count sem + 1\<rparr>, s)
     in if p = NULL then Some (sem1, s)
        else do {
          s1 \<leftarrow> process_add_ready_queue p (upd_proc p (\<lambda>x. x\<lparr>p_state := PROCESS_READY\<rparr>) s);
          Some (sem1, s1) })"

declare last_node.simps [code] remove_loop.simps [code] by_pid_loop.simps [code] last_task.simps [code]
  task_remove_loop.simps [code] reparent_loop.simps [code] find_ready.simps [code] notify_loop.simps [code]

end
