(* ===== verification/Syscall.thy ===== *)
theory Syscall
  imports Process
begin

text \<open>
  \<^verbatim>\<open>cpu/syscall.c\<close>: the system calls on files, processes and signals. Each takes the register frame of the
  interrupt and returns its result, the frame and the state. Calls made of the path name copy it to the kernel
  heap; the copy is the string it holds. Waiting for interrupts in between does not change the state here.
\<close>

type_synonym 'a sys_result = "(int \<times> registers \<times> 'a proc_state_scheme) option"

definition syscall_sleep_proc :: "registers \<Rightarrow> ptr \<Rightarrow> 'a proc_state_scheme \<Rightarrow> (registers \<times> 'a proc_state_scheme) option" where
  "syscall_sleep_proc r p s = do {
     (r1, s1) \<leftarrow> process_idle r s;
     Some (r1, process_disable_round_robin (upd_proc p (\<lambda>x. x\<lparr>p_suspended := True\<rparr>) s1)) }"

definition syscall_wake_proc :: "registers \<Rightarrow> ptr \<Rightarrow> 'a proc_state_scheme \<Rightarrow> (registers \<times> 'a proc_state_scheme) option" where
  "syscall_wake_proc r p s = do {
     (r1, s1) \<leftarrow> process_switch p r (process_enable_round_robin s);
     Some (r1, upd_proc p (\<lambda>x. x\<lparr>p_suspended := False\<rparr>) s1) }"

section \<open>Files\<close>

text \<open>\<open>mmu_memcpy\<close> fetches the string in words of four bytes, then of two, then byte by byte; a word that straddles
  two pages is read from the frame of the first. The copy ends at its first NUL byte.\<close>

definition copied_byte :: "ptr \<Rightarrow> ptr \<Rightarrow> nat \<Rightarrow> 'a proc_state_scheme \<Rightarrow> nat \<Rightarrow> u8" where
  "copied_byte pdt addr n s i =
     (if i < n div 4 * 4 then ucast (drop_bit (8 * (i mod 4)) (mmu_readl pdt (addr + of_nat (i div 4 * 4)) s))
      else if i < n div 2 * 2 then ucast (drop_bit (8 * (i mod 2)) (mmu_readw pdt (addr + of_nat (i div 2 * 2)) s))
      else mmu_readb pdt (addr + of_nat i) s)"

definition user_string :: "ptr \<Rightarrow> ptr \<Rightarrow> 'a proc_state_scheme \<Rightarrow> u8 list option" where
  "user_string pdt addr s = do {
     n \<leftarrow> mmu_strlen pdt addr s;
     Some (takeWhile (\<lambda>c. c \<noteq> 0) (map (copied_byte pdt addr (unat n) s) [0..<unat n])) }"

text \<open>The structure \<open>stat\<close> in memory, word by word.\<close>

definition stat_words :: "stat \<Rightarrow> u32 list" where
  "stat_words st = [st_dev st, st_ino st, st_mode st, st_nlink st, st_uid st, st_gid st, st_rdev st, st_size st,
     st_blksize st, st_blocks st, st_atime st, st_mtime st, st_ctime st, st_private st]"

definition put_words :: "ptr \<Rightarrow> u32 list \<Rightarrow> 'a proc_state_scheme \<Rightarrow> 'a proc_state_scheme" where
  "put_words a ws s = s\<lparr>kmem := fold (\<lambda>i m. store32 m (a + of_nat (4 * i)) (ws ! i)) [0..<length ws] (kmem s)\<rparr>"

definition syscall_open :: "bool \<Rightarrow> registers \<Rightarrow> ptr \<Rightarrow> u32 \<Rightarrow> 'a proc_state_scheme \<Rightarrow> 'a sys_result" where
  "syscall_open alloc_ok r path flags s = do {
     let p = current_process s;
     (r1, s1) \<leftarrow> syscall_sleep_proc r p s;
     n \<leftarrow> mmu_strlen (p_pdt (procs s1 p)) path s1;
     (k, s2) \<leftarrow> malloc (n + 1) s1;
     name \<leftarrow> user_string (p_pdt (procs s2 p)) path s2;
     if k = NULL then None
     else do {
       (fd, s3) \<leftarrow> process_open_file alloc_ok p name flags s2;
       s4 \<leftarrow> free k s3;
       (r2, s5) \<leftarrow> syscall_wake_proc r1 p s4;
       Some (fd, r2, s5) } }"

definition syscall_close :: "registers \<Rightarrow> u32 \<Rightarrow> 'a proc_state_scheme \<Rightarrow> 'a sys_result" where
  "syscall_close r fd s = map_option (\<lambda>(ret, s'). (ret, r, s')) (process_close_file (current_process s) fd s)"

definition syscall_stat :: "bool \<Rightarrow> registers \<Rightarrow> ptr \<Rightarrow> ptr \<Rightarrow> 'a proc_state_scheme \<Rightarrow> 'a sys_result" where
  "syscall_stat alloc_ok r filename statbuf s = do {
     let p = current_process s;
     (r1, s1) \<leftarrow> syscall_sleep_proc r p s;
     n \<leftarrow> mmu_strlen (p_pdt (procs s1 p)) filename s1;
     (k, s2) \<leftarrow> malloc (n + 1) s1;
     name \<leftarrow> user_string (p_pdt (procs s2 p)) filename s2;
     if k = NULL then None
     else do {
       (ret, _, st) \<leftarrow> process_stat_file alloc_ok (Some name) s2;
       let s3 = (case st of Some x \<Rightarrow>
                   if statbuf \<noteq> NULL
                   then put_words (mmu_get_physical_address_pdt statbuf (p_pdt (procs s2 p)) s2) (stat_words x) s2 else s2
                 | None \<Rightarrow> s2);
       s4 \<leftarrow> free k s3;
       (r2, s5) \<leftarrow> syscall_wake_proc r1 p s4;
       Some (ret, r2, s5) } }"

definition syscall_lstat :: "bool \<Rightarrow> registers \<Rightarrow> ptr \<Rightarrow> ptr \<Rightarrow> 'a proc_state_scheme \<Rightarrow> 'a sys_result" where
  "syscall_lstat alloc_ok r filename statbuf s = syscall_stat alloc_ok r filename statbuf s"

text \<open>\<open>fd < 0 || fd >= p->fd_count || !p->fd[fd].used\<close> with an unsigned \<open>fd\<close>: the descriptor, or \<open>None\<close> for a bad one.\<close>

definition open_fd :: "u32 \<Rightarrow> process_t \<Rightarrow> file_descriptor option option" where
  "open_fd fd x =
     (if fd \<ge> p_fd_count x then Some None
      else do { f \<leftarrow> cell_get (p_fd x) (uint fd); Some (if fd_used f then Some f else None) })"

text \<open>Without the last word, which is for the kernel only.\<close>

definition syscall_fstat :: "registers \<Rightarrow> u32 \<Rightarrow> ptr \<Rightarrow> 'a proc_state_scheme \<Rightarrow> 'a sys_result" where
  "syscall_fstat r fd statbuf s = do {
     let x = procs s (current_process s);
     d \<leftarrow> open_fd fd x;
     case d of None \<Rightarrow> Some (- EBADFD, r, s)
     | Some f \<Rightarrow> Some (0, r, if statbuf \<noteq> NULL
         then put_words (mmu_get_physical_address_pdt statbuf (p_pdt x) s) (butlast (stat_words (fd_st f))) s else s) }"

definition syscall_lseek :: "registers \<Rightarrow> u32 \<Rightarrow> u32 \<Rightarrow> int \<Rightarrow> 'a proc_state_scheme \<Rightarrow> 'a sys_result" where
  "syscall_lseek r fd offset whence s = do {
     let p = current_process s;
     d \<leftarrow> open_fd fd (procs s p);
     case d of None \<Rightarrow> Some (- EBADFD, r, s)
     | Some f \<Rightarrow>
         if whence < 0 \<or> whence > 2 then Some (- EINVAL, r, s)
         else
           let o' = (if whence = 0 then offset else if whence = 1 then fd_offset f + offset else st_size (fd_st f) + offset)
           in Some (sint o', r, upd_proc p (\<lambda>x. x\<lparr>p_fd := (p_fd x)[unat fd := f\<lparr>fd_offset := o'\<rparr>]\<rparr>) s) }"

text \<open>The path is read at its physical address.\<close>

definition syscall_chdir :: "bool \<Rightarrow> registers \<Rightarrow> ptr \<Rightarrow> 'a proc_state_scheme \<Rightarrow> 'a sys_result" where
  "syscall_chdir alloc_ok r path s = do {
     let p = current_process s;
     (r1, s1) \<leftarrow> syscall_sleep_proc r p s;
     let a = mmu_get_physical_address_pdt path (p_pdt (procs s1 p)) s1;
     n \<leftarrow> strlen (kmem s1) a;
     (ret, _, st) \<leftarrow> process_stat_file alloc_ok (Some (bytes (kmem s1) a (unat n))) s1;
     let s2 = (case st of None \<Rightarrow> s1 | Some x \<Rightarrow> upd_proc p (\<lambda>y. y\<lparr>p_cwd := x\<rparr>) s1);
     (r2, s3) \<leftarrow> syscall_wake_proc r1 p s2;
     Some (ret, r2, s3) }"

definition syscall_fchdir :: "registers \<Rightarrow> int \<Rightarrow> 'a proc_state_scheme \<Rightarrow> 'a sys_result" where
  "syscall_fchdir r fd s =
     (let p = current_process s; x = procs s p
      in if fd < 0 \<or> fd \<ge> 256 then Some (-1, r, s)
         else do {
           f \<leftarrow> cell_get (p_fd x) fd;
           if \<not> fd_used f then Some (-1, r, s) else Some (0, r, upd_proc p (\<lambda>y. y\<lparr>p_cwd := fd_st f\<rparr>) s) })"

section \<open>Processes\<close>

definition syscall_getpid :: "registers \<Rightarrow> 'a proc_state_scheme \<Rightarrow> 'a sys_result" where
  "syscall_getpid r s = Some (sint (p_pid (procs s (current_process s))), r, s)"

definition syscall_getppid :: "registers \<Rightarrow> 'a proc_state_scheme \<Rightarrow> 'a sys_result" where
  "syscall_getppid r s =
     (let q = p_parent (procs s (current_process s)) in Some (if q \<noteq> NULL then sint (p_pid (procs s q)) else 0, r, s))"

definition syscall_getuid :: "registers \<Rightarrow> 'a proc_state_scheme \<Rightarrow> 'a sys_result" where
  "syscall_getuid r s = Some (sint (p_uid (procs s (current_process s))), r, s)"

definition syscall_getgid :: "registers \<Rightarrow> 'a proc_state_scheme \<Rightarrow> 'a sys_result" where
  "syscall_getgid r s = Some (sint (p_gid (procs s (current_process s))), r, s)"

definition syscall_geteuid :: "registers \<Rightarrow> 'a proc_state_scheme \<Rightarrow> 'a sys_result" where
  "syscall_geteuid r s = Some (sint (p_euid (procs s (current_process s))), r, s)"

definition syscall_getegid :: "registers \<Rightarrow> 'a proc_state_scheme \<Rightarrow> 'a sys_result" where
  "syscall_getegid r s = Some (sint (p_egid (procs s (current_process s))), r, s)"

definition syscall_fork :: "cpu_features \<Rightarrow> registers \<Rightarrow> 'a proc_state_scheme \<Rightarrow> 'a sys_result" where
  "syscall_fork cpuf r s = do {
     (child, s1) \<leftarrow> process_fork cpuf (current_process s) s;
     if child = NULL then Some (-1, r, s1)
     else
       let s2 = upd_proc child (\<lambda>x. x\<lparr>p_r := (p_r x)\<lparr>r_eax := 0\<rparr>\<rparr>) s1
       in Some (sint (p_pid (procs s2 child)), r, s2) }"

text \<open>The structure of the process is used after it has been freed.\<close>

definition syscall_exit :: "registers \<Rightarrow> int \<Rightarrow> 'a proc_state_scheme \<Rightarrow> 'a sys_result" where
  "syscall_exit r exit_code s = do {
     let p = current_process s;
     s1 \<leftarrow> process_destroy p exit_code s;
     (r1, s2) \<leftarrow> process_idle r s1;
     s3 \<leftarrow> process_notify_waitpid (p_pid (procs s2 p)) exit_code s2;
     Some (exit_code, r1, s3) }"

definition syscall_waitpid :: "registers \<Rightarrow> u32 \<Rightarrow> ptr \<Rightarrow> 'a proc_state_scheme \<Rightarrow> 'a sys_result" where
  "syscall_waitpid r pid status s = do {
     let p = current_process s;
     target \<leftarrow> process_by_pid pid s;
     if target = NULL then Some (- ESRCH, r, s)
     else if p_state (procs s target) = PROCESS_ZOMBIE
     then Some (0, r, mmu_writel (p_pdt (procs s p)) status (of_int (p_exit_code (procs s target))) s)
     else do {
       (r1, s1) \<leftarrow> process_idle r (upd_proc p (\<lambda>x. x\<lparr>p_waitpid := pid\<rparr>) s);
       Some (0, r1, upd_proc p (\<lambda>x. x\<lparr>p_suspended := True, p_waitpid_status := status\<rparr>) s1) } }"

section \<open>Signals\<close>

abbreviation (input) SIGKILL :: int where "SIGKILL \<equiv> 9"

definition syscall_signal :: "registers \<Rightarrow> int \<Rightarrow> u32 \<Rightarrow> 'a proc_state_scheme \<Rightarrow> 'a sys_result" where
  "syscall_signal r signum handler s =
     (let p = current_process s
      in if signum < 0 \<or> signum \<ge> int NSIG then Some (- EINVAL, r, s)
         else if signum = 0 then Some (0, r, s)
         else do {
           hs \<leftarrow> cell_set (p_sig_handles (procs s p)) signum handler;
           Some (sint handler, r, upd_proc p (\<lambda>x. x\<lparr>p_sig_handles := hs\<rparr>) s) })"

text \<open>Killing process 1 ends in a panic.\<close>

definition syscall_kill :: "registers \<Rightarrow> u32 \<Rightarrow> int \<Rightarrow> 'a proc_state_scheme \<Rightarrow> 'a sys_result" where
  "syscall_kill r pid sig s = do {
     let p = current_process s;
     let i = (if pid = 0 then p_pid (procs s p) else pid);
     target \<leftarrow> process_by_pid i s;
     if target = NULL then Some (- ESRCH, r, s)
     else if sig < 0 \<or> sig \<ge> int NSIG then Some (- EINVAL, r, s)
     else if sig = 0 then Some (0, r, s)
     else do {
       s1 \<leftarrow> process_notify_waitpid i (sig * 65536) s;
       if sig = SIGKILL then do {
         s2 \<leftarrow> process_destroy target sig s1;
         (r1, s3) \<leftarrow> (if target = p then process_idle r s2 else Some (r, s2));
         if p_pid (procs s3 target) = 1 then None else Some (0, r1, s3) }
       else if p_signal (procs s1 target) \<noteq> 0 then Some (- EBUSY, r, s1)
       else Some (0, r, upd_proc target (\<lambda>x. x\<lparr>p_signal := sig\<rparr>) s1) } }"

definition syscall_pause :: "registers \<Rightarrow> 'a proc_state_scheme \<Rightarrow> 'a sys_result" where
  "syscall_pause r s = do { (r1, s1) \<leftarrow> process_idle r s; Some (-1, r1, s1) }"

section \<open>Calls that are not implemented\<close>

text \<open>They fail with -1, whatever their arguments are.\<close>

definition syscall_poll :: "registers \<Rightarrow> 'a proc_state_scheme \<Rightarrow> 'a sys_result" where
  "syscall_poll r s = Some (-1, r, s)"

definition syscall_mmap :: "registers \<Rightarrow> 'a proc_state_scheme \<Rightarrow> 'a sys_result" where
  "syscall_mmap r s = Some (-1, r, s)"

definition syscall_mprotect :: "registers \<Rightarrow> 'a proc_state_scheme \<Rightarrow> 'a sys_result" where
  "syscall_mprotect r s = Some (-1, r, s)"

definition syscall_munmap :: "registers \<Rightarrow> 'a proc_state_scheme \<Rightarrow> 'a sys_result" where
  "syscall_munmap r s = Some (-1, r, s)"

definition syscall_brk :: "registers \<Rightarrow> 'a proc_state_scheme \<Rightarrow> 'a sys_result" where
  "syscall_brk r s = Some (-1, r, s)"

definition syscall_socket :: "registers \<Rightarrow> 'a proc_state_scheme \<Rightarrow> 'a sys_result" where
  "syscall_socket r s = Some (-1, r, s)"

definition syscall_connect :: "registers \<Rightarrow> 'a proc_state_scheme \<Rightarrow> 'a sys_result" where
  "syscall_connect r s = Some (-1, r, s)"

definition syscall_accept :: "registers \<Rightarrow> 'a proc_state_scheme \<Rightarrow> 'a sys_result" where
  "syscall_accept r s = Some (-1, r, s)"

definition syscall_shutdown :: "registers \<Rightarrow> 'a proc_state_scheme \<Rightarrow> 'a sys_result" where
  "syscall_shutdown r s = Some (-1, r, s)"

definition syscall_bind :: "registers \<Rightarrow> 'a proc_state_scheme \<Rightarrow> 'a sys_result" where
  "syscall_bind r s = Some (-1, r, s)"

definition syscall_listen :: "registers \<Rightarrow> 'a proc_state_scheme \<Rightarrow> 'a sys_result" where
  "syscall_listen r s = Some (-1, r, s)"

definition syscall_getcwd :: "registers \<Rightarrow> 'a proc_state_scheme \<Rightarrow> 'a sys_result" where
  "syscall_getcwd r s = Some (-1, r, s)"

definition syscall_setuid :: "registers \<Rightarrow> 'a proc_state_scheme \<Rightarrow> 'a sys_result" where
  "syscall_setuid r s = Some (-1, r, s)"

definition syscall_setgid :: "registers \<Rightarrow> 'a proc_state_scheme \<Rightarrow> 'a sys_result" where
  "syscall_setgid r s = Some (-1, r, s)"

text \<open>A task for the idle process. Its link to the next task keeps what the memory held.\<close>

definition syscall_on_idle :: "registers \<Rightarrow> ptr \<Rightarrow> 'a proc_state_scheme \<Rightarrow> (registers \<times> 'a proc_state_scheme) option" where
  "syscall_on_idle r callback s = do {
     let p = current_process s;
     (r1, s1) \<leftarrow> process_idle r s;
     (t, s2) \<leftarrow> malloc 16 (upd_proc p (\<lambda>x. x\<lparr>p_suspended := True\<rparr>) s1);
     if t = NULL then None
     else do {
       s3 \<leftarrow> task_push t (s2\<lparr>tasks := (tasks s2)(t := (tasks s2 t)\<lparr>t_process := p, t_callback := callback\<rparr>)\<rparr>);
       Some (r1, s3) } }"

end
