(* ===== verification/Process_Laws.thy ===== *)
theory Process_Laws
  imports Process
begin

text \<open>
  The queues of processes and tasks are chains of \<open>next\<close> pointers that behave as lists; the scheduler is a
  fair round robin over the ready queue; descriptors, process numbers and semaphores.
\<close>

section \<open>Chains of pointers\<close>

text \<open>What the queues of \<^verbatim>\<open>process.c\<close>, \<^verbatim>\<open>semaphore.c\<close> and \<^verbatim>\<open>task.c\<close> share: a link field and the loop to the
  last node.\<close>

locale linked =
  fixes nxt :: "'n \<Rightarrow> ptr"
    and set_nxt :: "ptr \<Rightarrow> 'n \<Rightarrow> 'n"
    and last_loop :: "(ptr \<Rightarrow> 'n) \<Rightarrow> ptr \<Rightarrow> ptr option"
  assumes nxt_set [simp]: "nxt (set_nxt q x) = q"
    and last_unfold: "last_loop h a = (if nxt (h a) = NULL then Some a else last_loop h (nxt (h a)))"
begin

fun chain :: "(ptr \<Rightarrow> 'n) \<Rightarrow> ptr \<Rightarrow> ptr list \<Rightarrow> bool" where
  "chain h a [] \<longleftrightarrow> a = NULL"
| "chain h a (p # ps) \<longleftrightarrow> a = p \<and> p \<noteq> NULL \<and> chain h (nxt (h p)) ps"

lemma chain_cong: "(\<And>p. p \<in> set ps \<Longrightarrow> nxt (h p) = nxt (h' p)) \<Longrightarrow> chain h a ps = chain h' a ps"
  by (induction ps arbitrary: a) auto

lemma chain_upd_other [simp]: "p \<notin> set ps \<Longrightarrow> chain (h(p := x)) a ps = chain h a ps"
  by (rule chain_cong) auto

lemma chain_if_other [simp]: "p \<notin> set ps \<Longrightarrow> chain (\<lambda>q. if q = p then x else h q) a ps = chain h a ps"
  by (rule chain_cong) auto

lemma chain_unique: "chain h a ps \<Longrightarrow> chain h a qs \<Longrightarrow> ps = qs"
  by (induction ps arbitrary: a qs) (case_tac qs; auto)+

lemma chain_suffix: "chain h a (xs @ p # ys) \<Longrightarrow> p \<noteq> NULL \<and> chain h p (p # ys)"
  by (induction xs arbitrary: a) auto

lemma chain_NULL: "chain h a ps \<Longrightarrow> NULL \<notin> set ps"
  by (induction ps arbitrary: a) auto

lemma chain_distinct: "chain h a ps \<Longrightarrow> distinct ps"
proof (induction ps arbitrary: a)
  case (Cons p ps)
  have "p \<notin> set ps"
  proof
    assume "p \<in> set ps"
    then obtain xs ys where "ps = xs @ p # ys" by (auto dest: split_list)
    then have "chain h p (p # ys)" "chain h p (p # ps)" using Cons.prems chain_suffix[of h a "p # xs" p ys] by auto
    then show False using \<open>ps = xs @ p # ys\<close> by (auto dest: chain_unique)
  qed
  then show ?case using Cons by auto
qed simp

lemma last_of_chain: "chain h a ps \<Longrightarrow> ps \<noteq> [] \<Longrightarrow> last_loop h a = Some (last ps)"
proof (induction ps arbitrary: a)
  case (Cons p ps)
  then show ?case by (cases ps) (auto simp: last_unfold[of h p])
qed simp

lemma chain_append_node:
  assumes "chain h a ps" "ps \<noteq> []" "chain h p qs" "set ps \<inter> set qs = {}"
  shows "chain (h(last ps := set_nxt p (h (last ps)))) a (ps @ qs)"
  using assms
proof (induction ps arbitrary: a)
  case (Cons x xs)
  show ?case
  proof (cases "xs = []")
    case True
    then show ?thesis using Cons.prems chain_upd_other[of x qs h "set_nxt p (h x)" p] by simp
  next
    case False
    then have "x \<noteq> last xs" using chain_distinct[OF Cons.prems(1)] by auto
    then show ?thesis using Cons False by auto
  qed
qed simp

text \<open>Taking a node out, given the node before it.\<close>

lemma chain_drop_node:
  assumes "chain h a (xs @ q # p # ys)"
  shows "chain (h(q := set_nxt (nxt (h p)) (h q))) a (xs @ q # ys)"
  using assms
proof (induction xs arbitrary: a)
  case Nil
  then have "q \<notin> set ys" using chain_distinct[OF Nil] by auto
  then show ?case using Nil chain_upd_other[of q ys h "set_nxt (nxt (h p)) (h q)" "nxt (h p)"] by simp
next
  case (Cons x xs)
  then show ?case using chain_distinct[OF Cons.prems] by auto
qed

end

interpretation pq: linked p_next "\<lambda>q x. x\<lparr>p_next := q\<rparr>" last_node
  by unfold_locales (simp, rule last_node.simps)

interpretation tq: linked t_next "\<lambda>q x. x\<lparr>t_next := q\<rparr>" last_task
  by unfold_locales (simp, rule last_task.simps)

section \<open>The ready queue as a list\<close>

definition ready_list :: "'a proc_state_scheme \<Rightarrow> ptr list \<Rightarrow> bool" where
  "ready_list s ps \<longleftrightarrow> pq.chain (procs s) (ready_queue s) ps"

lemma ready_list_facts: "ready_list s ps \<Longrightarrow> distinct ps \<and> NULL \<notin> set ps"
  by (simp add: ready_list_def pq.chain_distinct pq.chain_NULL)

lemma upd_proc_simps [simp]:
  "ready_queue (upd_proc p f s) = ready_queue s" "current_process (upd_proc p f s) = current_process s"
  "kernel_idle_process (upd_proc p f s) = kernel_idle_process s" "round_robin (upd_proc p f s) = round_robin s"
  "process_next_pid (upd_proc p f s) = process_next_pid s" "vfs (upd_proc p f s) = vfs s"
  "procs (upd_proc p f s) = (procs s)(p := f (procs s p))" "task_queue (upd_proc p f s) = task_queue s"
  "terminals (upd_proc p f s) = terminals s" "tasks (upd_proc p f s) = tasks s"
  by (simp_all add: upd_proc_def)

text \<open>Everything but the links of the nodes and the head of the queue.\<close>

definition same_but_links :: "ptr list \<Rightarrow> 'a proc_state_scheme \<Rightarrow> 'a proc_state_scheme \<Rightarrow> bool" where
  "same_but_links ps s s' \<longleftrightarrow> s'\<lparr>procs := procs s, ready_queue := ready_queue s\<rparr> = s
     \<and> (\<forall>p. (procs s' p)\<lparr>p_next := 0\<rparr> = (procs s p)\<lparr>p_next := 0\<rparr>) \<and> (\<forall>p. p \<notin> set ps \<longrightarrow> procs s' p = procs s p)"

lemma process_add_ready_queue_list:
  assumes "ready_list s ps" "pq.chain (procs s) p qs" "set ps \<inter> set qs = {}"
  shows "\<exists>s'. process_add_ready_queue p s = Some s' \<and> ready_list s' (ps @ qs) \<and> same_but_links ps s s'"
proof (cases "ps = []")
  case True
  then show ?thesis using assms by (simp add: process_add_ready_queue_def ready_list_def same_but_links_def)
next
  case False
  then have "ready_queue s \<noteq> NULL" using assms(1) by (cases ps) (auto simp: ready_list_def)
  moreover have "last_node (procs s) (ready_queue s) = Some (last ps)"
    using assms(1) False by (simp add: ready_list_def pq.last_of_chain)
  ultimately have "process_add_ready_queue p s = Some (upd_proc (last ps) (\<lambda>x. x\<lparr>p_next := p\<rparr>) s)"
    by (simp add: process_add_ready_queue_def)
  moreover have "ready_list (upd_proc (last ps) (\<lambda>x. x\<lparr>p_next := p\<rparr>) s) (ps @ qs)"
    using pq.chain_append_node[OF _ False assms(2,3)] assms(1) by (simp add: ready_list_def)
  moreover have "same_but_links ps s (upd_proc (last ps) (\<lambda>x. x\<lparr>p_next := p\<rparr>) s)"
    using last_in_set[OF False] by (auto simp: same_but_links_def upd_proc_def)
  ultimately show ?thesis by blast
qed

lemma remove_loop_list:
  assumes "pq.chain (procs s) (ready_queue s) (xs @ ys)" "p \<notin> set xs"
    "node = (if ys = [] then NULL else hd ys)" "prev = (if xs = [] then NULL else last xs)"
  shows "\<exists>s'. remove_loop p prev node s = Some s' \<and> ready_list s' (xs @ remove1 p ys) \<and> same_but_links (xs @ ys) s s'"
  using assms
proof (induction ys arbitrary: xs node prev)
  case Nil
  then show ?case by (subst remove_loop.simps) (simp add: ready_list_def same_but_links_def)
next
  case (Cons y ys)
  have nn: "y \<noteq> NULL" "pq.chain (procs s) (p_next (procs s y)) ys" using pq.chain_suffix[OF Cons.prems(1)] by auto
  show ?case
  proof (cases "y = p")
    case False
    have "p_next (procs s y) = (if ys = [] then NULL else hd ys)" using nn(2) by (cases ys) auto
    then have "\<exists>s'. remove_loop p y (p_next (procs s y)) s = Some s' \<and> ready_list s' ((xs @ [y]) @ remove1 p ys) \<and> same_but_links ((xs @ [y]) @ ys) s s'"
      using Cons.IH[of "xs @ [y]" "p_next (procs s y)" y] Cons.prems(1,2) False by simp
    then show ?thesis using False nn(1) Cons.prems(3) by (subst remove_loop.simps) simp
  next
    case True
    show ?thesis
    proof (cases "xs = []")
      case True
      then show ?thesis using \<open>y = p\<close> nn Cons.prems
        by (subst remove_loop.simps) (simp add: ready_list_def same_but_links_def)
    next
      case False
      obtain xs' q where xs: "xs = xs' @ [q]" using False by (meson rev_exhaust)
      have "q \<noteq> NULL" using pq.chain_NULL[OF Cons.prems(1)] xs by auto
      moreover have "pq.chain ((procs s)(q := (procs s q)\<lparr>p_next := p_next (procs s p)\<rparr>)) (ready_queue s) (xs' @ q # ys)"
        using pq.chain_drop_node[of "procs s" "ready_queue s" xs' q p ys] Cons.prems(1) xs \<open>y = p\<close> by simp
      ultimately show ?thesis using \<open>y = p\<close> nn(1) Cons.prems(3,4) xs
        by (subst remove_loop.simps) (simp add: ready_list_def same_but_links_def upd_proc_def)
    qed
  qed
qed

lemma process_remove_ready_queue_list:
  assumes "ready_list s ps"
  shows "\<exists>s'. process_remove_ready_queue p s = Some s' \<and> ready_list s' (remove1 p ps) \<and> same_but_links ps s s'"
proof -
  have "ready_queue s = (if ps = [] then NULL else hd ps)" using assms by (cases ps) (auto simp: ready_list_def)
  then show ?thesis using remove_loop_list[of s "[]" ps p "ready_queue s" NULL] assms
    by (simp add: process_remove_ready_queue_def ready_list_def)
qed

lemma by_pid_chain:
  "pq.chain h a ps \<Longrightarrow> by_pid_loop h i a = Some (case find (\<lambda>p. p_pid (h p) = i) ps of None \<Rightarrow> NULL | Some p \<Rightarrow> p)"
proof (induction ps arbitrary: a)
  case Nil
  then show ?case by (subst by_pid_loop.simps) simp
next
  case (Cons p ps)
  then show ?case by (subst by_pid_loop.simps) auto
qed

lemma process_by_pid_list:
  "ready_list s ps \<Longrightarrow> process_by_pid i s = Some (case find (\<lambda>p. p_pid (procs s p) = i) ps of None \<Rightarrow> NULL | Some p \<Rightarrow> p)"
  by (simp add: process_by_pid_def ready_list_def by_pid_chain)

lemma find_ready_chain:
  "pq.chain h a ps \<Longrightarrow> find_ready h stop a =
     Some (case find (\<lambda>p. runnable (h p)) (takeWhile (\<lambda>p. p \<noteq> stop) ps) of None \<Rightarrow> NULL | Some p \<Rightarrow> p)"
proof (induction ps arbitrary: a)
  case Nil
  then show ?case by (subst find_ready.simps) simp
next
  case (Cons p ps)
  then show ?case by (subst find_ready.simps) auto
qed

section \<open>Round robin\<close>

lemma mmu_keeps_procs [simp]:
  "procs (mmu_load_pdt d s) = procs s" "ready_queue (mmu_load_pdt d s) = ready_queue s"
  "current_process (mmu_load_pdt d s) = current_process s" "kernel_idle_process (mmu_load_pdt d s) = kernel_idle_process s"
  "round_robin (mmu_load_pdt d s) = round_robin s"
  "procs (mmu_load_kernel_pdt s) = procs s" "ready_queue (mmu_load_kernel_pdt s) = ready_queue s"
  "current_process (mmu_load_kernel_pdt s) = current_process s" "kernel_idle_process (mmu_load_kernel_pdt s) = kernel_idle_process s"
  "round_robin (mmu_load_kernel_pdt s) = round_robin s"
  "procs (mmu_writel d v x s) = procs s" "ready_queue (mmu_writel d v x s) = ready_queue s"
  "current_process (mmu_writel d v x s) = current_process s" "kernel_idle_process (mmu_writel d v x s) = kernel_idle_process s"
  "round_robin (mmu_writel d v x s) = round_robin s"
  by (simp_all add: mmu_load_pdt_def mmu_load_kernel_pdt_def mmu_writel_def Let_def split: option.split)

text \<open>The processes behind the current one, in the order in which the scheduler looks at them.\<close>

definition after :: "ptr \<Rightarrow> ptr list \<Rightarrow> ptr list" where
  "after c ps = tl (dropWhile (\<lambda>p. p \<noteq> c) ps) @ takeWhile (\<lambda>p. p \<noteq> c) ps"

lemma while_notin:
  "c \<notin> set ps \<Longrightarrow> takeWhile (\<lambda>p. p \<noteq> c) ps = ps" "c \<notin> set ps \<Longrightarrow> dropWhile (\<lambda>p. p \<noteq> c) ps = []"
  "c \<notin> set ps \<Longrightarrow> takeWhile (\<lambda>p. p \<noteq> c) (ps @ c # qs) = ps" "c \<notin> set ps \<Longrightarrow> dropWhile (\<lambda>p. p \<noteq> c) (ps @ c # qs) = c # qs"
  by (induction ps) auto

lemma after_split: "distinct (xs @ c # ys) \<Longrightarrow> after c (xs @ c # ys) = ys @ xs"
  by (simp add: after_def while_notin)

lemma after_none: "c \<notin> set ps \<Longrightarrow> after c ps = ps"
  by (simp add: after_def while_notin)

lemma set_after: "distinct ps \<Longrightarrow> set (after c ps) = set ps - {c}"
proof (cases "c \<in> set ps")
  case True
  assume "distinct ps"
  then show ?thesis using split_list[OF True] by (auto simp: after_split)
qed (simp add: after_none)

lemma after_next:
  assumes "distinct ps" "after c ps = as @ q # bs"
  shows "after q ps = bs @ (if c \<in> set ps then [c] else []) @ as"
proof (cases "c \<in> set ps")
  case False
  then show ?thesis using assms after_split[of as q bs] by (auto simp: after_none)
next
  case True
  then obtain xs ys where ps: "ps = xs @ c # ys" by (auto dest: split_list)
  then have e: "ys @ xs = as @ q # bs" using assms after_split[of xs c ys] by simp
  then consider (left) us where "ys = as @ q # us" "bs = us @ xs" | (right) us where "as = ys @ us" "xs = us @ q # bs"
    by (auto simp: append_eq_append_conv2 append_eq_Cons_conv)
  then show ?thesis
  proof cases
    case left
    then show ?thesis using ps True assms(1) after_split[of "xs @ c # as" q us] by simp
  next
    case right
    then show ?thesis using ps True assms(1) after_split[of us q "bs @ c # ys"] by simp
  qed
qed

text \<open>The state the scheduler works on: a queue, the current process in it or the idle process outside, and signal
  numbers within the tables.\<close>

definition sched_inv :: "'a proc_state_scheme \<Rightarrow> ptr list \<Rightarrow> bool" where
  "sched_inv s ps \<longleftrightarrow> ready_list s ps \<and> round_robin s \<and> kernel_idle_process s \<notin> set ps \<and> kernel_idle_process s \<noteq> NULL
     \<and> (current_process s \<in> set ps \<or> current_process s = kernel_idle_process s)
     \<and> (\<forall>p\<in>set ps. 0 \<le> p_signal (procs s p) \<and> p_signal (procs s p) < int (length (p_sig_handles (procs s p))))"

definition willing :: "'a proc_state_scheme \<Rightarrow> ptr \<Rightarrow> bool" where
  "willing s p \<longleftrightarrow> \<not> p_suspended (procs s p) \<and> (p_state (procs s p) = PROCESS_READY \<or> p = current_process s)"

lemma do_round_robin_NULL [simp]: "process_do_round_robin NULL r s = Some (r, s)"
  by (simp add: process_do_round_robin_def)

lemma round_robin_choice:
  assumes "sched_inv s ps"
  shows "process_round_robin r s = (case find (\<lambda>p. runnable (procs s p)) (after (current_process s) ps) of
    None \<Rightarrow> Some (r, s) | Some p \<Rightarrow> process_do_round_robin p r s)"
proof -
  let ?c = "current_process s"
  have inv: "pq.chain (procs s) (ready_queue s) ps" "round_robin s" "distinct ps" "NULL \<notin> set ps"
    using assms ready_list_facts by (auto simp: sched_inv_def ready_list_def)
  have n: "p \<noteq> NULL" if "find P qs = Some p" "set qs \<subseteq> set ps" for P p qs
    using that inv(4) by (auto dest: find_SomeD)
  show ?thesis
  proof (cases "?c \<in> set ps")
    case False
    then have "?c = kernel_idle_process s" "takeWhile (\<lambda>p. p \<noteq> ?c) ps = ps"
      using assms False by (auto simp: sched_inv_def while_notin)
    then show ?thesis
      using find_ready_chain[OF inv(1), of ?c] inv(2) n[of _ ps] False
      by (auto simp: process_round_robin_def Let_def after_none while_notin split: option.split)
  next
    case True
    then obtain xs ys where ps: "ps = xs @ ?c # ys" by (auto dest: split_list)
    then have c: "?c \<noteq> NULL" "?c \<noteq> kernel_idle_process s" "pq.chain (procs s) (p_next (procs s ?c)) ys"
      using True assms inv pq.chain_suffix[of "procs s" "ready_queue s" xs ?c ys] by (auto simp: sched_inv_def)
    have t: "takeWhile (\<lambda>p. p \<noteq> ?c) ps = xs" "takeWhile (\<lambda>p. p \<noteq> NULL) ys = ys" "after ?c ps = ys @ xs"
      using inv(3,4) ps after_split[of xs ?c ys] while_notin(3)[of ?c xs ys] by (simp_all add: while_notin)
    show ?thesis
      using find_ready_chain[OF inv(1), of ?c] find_ready_chain[OF c(3), of NULL] c inv(2) t n[of _ ys] n[of _ xs] ps
      by (auto simp: process_round_robin_def Let_def find_append split: option.split)
  qed
qed

lemma deliver_signal_keeps:
  assumes "0 \<le> p_signal (procs s p)" "p_signal (procs s p) < int (length (p_sig_handles (procs s p)))"
  shows "\<exists>s' rs. deliver_signal p s = Some s' \<and> procs s' = (procs s)(p := (procs s p)\<lparr>p_r := rs\<rparr>)
    \<and> ready_queue s' = ready_queue s \<and> current_process s' = current_process s
    \<and> kernel_idle_process s' = kernel_idle_process s \<and> round_robin s' = round_robin s"
proof -
  have "(procs s)(p := (procs s p)\<lparr>p_r := p_r (procs s p)\<rparr>) = procs s" by simp
  then show ?thesis using assms by (auto simp: deliver_signal_def Let_def cell_get_def intro: exI[of _ "p_r (procs s p)"])
qed

lemma process_switch_step:
  assumes inv: "sched_inv s ps" and p: "p \<in> set ps" "p \<noteq> current_process s"
  shows "\<exists>r' s'. process_do_round_robin p r s = Some (r', s') \<and> sched_inv s' ps \<and> current_process s' = p
    \<and> p_state (procs s' p) = PROCESS_RUNNING \<and> (\<forall>q\<in>set ps. willing s q \<longrightarrow> willing s' q)
    \<and> (current_process s \<noteq> kernel_idle_process s \<longrightarrow> p_r (procs s' (current_process s)) = r)
    \<and> (p_signal (procs s p) = 0 \<longrightarrow> r' = p_r (procs s p))"
proof -
  let ?c = "current_process s"
  have nn: "p \<noteq> NULL" using p inv ready_list_facts by (auto simp: sched_inv_def)
  define s0 where "s0 = (if ?c \<noteq> kernel_idle_process s then process_unload r s else s)"
  define s1 where "s1 = (upd_proc ?c (\<lambda>x. x\<lparr>p_state := PROCESS_READY\<rparr>) s0)\<lparr>current_process := p\<rparr>"
  have s0: "ready_queue s0 = ready_queue s" "current_process s0 = ?c" "kernel_idle_process s0 = kernel_idle_process s"
      "round_robin s0 = round_robin s" "q \<noteq> ?c \<Longrightarrow> procs s0 q = procs s q" for q
    by (simp_all add: s0_def process_unload_def)
  have keep: "p_signal (procs s1 q) = p_signal (procs s q)" "p_sig_handles (procs s1 q) = p_sig_handles (procs s q)"
      "p_next (procs s1 q) = p_next (procs s q)" "p_suspended (procs s1 q) = p_suspended (procs s q)"
      "q \<noteq> ?c \<Longrightarrow> procs s1 q = procs s q" "p_state (procs s1 ?c) = PROCESS_READY"
      "?c \<noteq> kernel_idle_process s \<Longrightarrow> p_r (procs s1 ?c) = r" for q
    using inv by (auto simp: s1_def s0_def process_unload_def sched_inv_def)
  obtain s2 rs where s2: "deliver_signal p s1 = Some s2" "procs s2 = (procs s1)(p := (procs s1 p)\<lparr>p_r := rs\<rparr>)"
      "ready_queue s2 = ready_queue s1" "current_process s2 = current_process s1"
      "kernel_idle_process s2 = kernel_idle_process s1" "round_robin s2 = round_robin s1"
    using deliver_signal_keeps[of s1 p] inv p(1) keep by (auto simp: sched_inv_def)
  define s3 where "s3 = mmu_load_pdt (p_pdt (procs s2 p)) (upd_proc p (\<lambda>x. x\<lparr>p_state := PROCESS_RUNNING\<rparr>) s2)"
  have res: "process_do_round_robin p r s = Some (p_r (procs s2 p), s3)"
    using nn p(2) s2(1) s0(2) by (simp add: process_do_round_robin_def process_switch_def s0_def[symmetric] s1_def[symmetric] s3_def)
  have fields: "ready_queue s3 = ready_queue s" "current_process s3 = p" "kernel_idle_process s3 = kernel_idle_process s"
      "round_robin s3 = round_robin s" "procs s3 = (procs s2)(p := (procs s2 p)\<lparr>p_state := PROCESS_RUNNING\<rparr>)"
    using s2 s0 by (simp_all add: s3_def s1_def)
  have "pq.chain (procs s3) (ready_queue s) ps = pq.chain (procs s) (ready_queue s) ps"
    by (rule pq.chain_cong) (simp add: fields s2 keep)
  then have "sched_inv s3 ps" using inv p fields s2 keep by (auto simp: sched_inv_def ready_list_def)
  moreover have "\<forall>q\<in>set ps. willing s q \<longrightarrow> willing s3 q"
  proof (intro ballI impI)
    fix q assume "willing s q"
    then show "willing s3 q" using keep(4)[of q] keep(5)[of q] keep(6) by (cases "q = ?c") (auto simp: willing_def fields s2)
  qed
  moreover have "r' = p_r (procs s p)" if "p_signal (procs s p) = 0" "r' = p_r (procs s2 p)" for r'
    using that s2(1) keep(1)[of p] keep(5)[of p] p(2) by (simp add: deliver_signal_def Let_def)
  ultimately show ?thesis using res fields s2 keep(7) p(2) by auto
qed


text \<open>Timer interrupts with the register frames they find.\<close>

fun ticks :: "registers list \<Rightarrow> 'a proc_state_scheme \<Rightarrow> 'a proc_state_scheme option" where
  "ticks [] s = Some s"
| "ticks (r # rs) s = do { (_, s') \<leftarrow> process_round_robin r s; ticks rs s' }"

lemma ticks_reach:
  assumes "sched_inv s ps" "after (current_process s) ps = as @ p # bs" "willing s p" "length as < length rs"
  shows "\<exists>k \<le> Suc (length as). \<exists>s'. ticks (take k rs) s = Some s' \<and> current_process s' = p"
  using assms
proof (induction "length as" arbitrary: s as bs rs rule: less_induct)
  case less
  let ?c = "current_process s"
  have d: "distinct ps" using less.prems(1) ready_list_facts by (auto simp: sched_inv_def)
  have pc: "p \<in> set ps" "p \<noteq> ?c" using set_after[OF d, of ?c] less.prems(2) by auto
  then have "runnable (procs s p)" using less.prems(3) by (auto simp: runnable_def willing_def)
  then obtain q where q: "find (\<lambda>p. runnable (procs s p)) (after ?c ps) = Some q"
    using less.prems(2) by (cases "find (\<lambda>p. runnable (procs s p)) (after ?c ps)") (auto simp: find_None_iff)
  obtain r rs' where rs: "rs = r # rs'" using less.prems(4) by (cases rs) auto
  have qp: "q \<in> set ps" "q \<noteq> ?c" using find_SomeD[OF q] d by (auto simp: set_after)
  obtain r' s' where st: "process_round_robin r s = Some (r', s')" "sched_inv s' ps" "current_process s' = q"
      "\<forall>x\<in>set ps. willing s x \<longrightarrow> willing s' x"
    using round_robin_choice[OF less.prems(1), of r] q process_switch_step[OF less.prems(1) qp, of r] by auto
  show ?case
  proof (cases "q = p")
    case True
    then show ?thesis using st rs by (intro exI[of _ 1]) auto
  next
    case False
    have "q \<in> set as"
    proof (rule ccontr)
      assume "q \<notin> set as"
      then have "find (\<lambda>p. runnable (procs s p)) as = None"
        using q less.prems(2) by (auto simp: find_append split: option.splits dest: find_SomeD)
      then show False using q less.prems(2) \<open>runnable (procs s p)\<close> False by (simp add: find_append)
    qed
    then obtain us vs where as: "as = us @ q # vs" by (auto dest: split_list)
    then have "after q ps = vs @ p # bs @ (if ?c \<in> set ps then [?c] else []) @ us"
      using after_next[OF d, of ?c us q "vs @ p # bs"] less.prems(2) by simp
    then obtain k s'' where "k \<le> Suc (length vs)" "ticks (take k rs') s' = Some s''" "current_process s'' = p"
      using less.hyps[of vs s' "bs @ (if ?c \<in> set ps then [?c] else []) @ us" rs'] st less.prems(3,4) as pc(1) rs by auto
    then show ?thesis using st(1) rs as by (intro exI[of _ "Suc k"]) auto
  qed
qed


section \<open>A sample state\<close>

definition sample_process :: "u32 \<Rightarrow> ptr \<Rightarrow> process_t" where
  "sample_process i nx = process_fill_sig_handlers
     (zero_process\<lparr>p_pid := i, p_state := PROCESS_READY, p_fd_count := 2, p_fd := [zero_fd, zero_fd], p_next := nx\<rparr>)"

definition sample_procs :: "ptr \<Rightarrow> process_t" where
  "sample_procs = (\<lambda>_. zero_process)(16 := sample_process 1 32, 32 := sample_process 2 0)"

text \<open>The idle process at 48 runs; processes 1 and 2 are ready.\<close>

definition sample_state :: proc_state where
  "sample_state = \<lparr>kmem = (\<lambda>_. 0), lock_index = 3, bitmap_lock = Some False, bitmap = 0x100000, frames = 64, start_addr = 0x100000,
     kernel_end = 0, mmu_lock = Some False, kernel_pdt = 0x105000, current_pdt = 0x105000, old_pdt = 0, cr3 = 0x105000,
     vmem = (\<lambda>_. 0), kernel_heap = \<lparr>first_block = 0\<rparr>, malloc_lock = Some False,
     vfs = \<lparr>root_mount = None, mounts = []\<rparr>, terminals = \<lparr>ttys = [], current_tty = 0\<rparr>,
     procs = sample_procs, tasks = (\<lambda>_. \<lparr>t_process = 0, t_callback = 0, t_next = 0\<rparr>), process_next_pid = 3,
     ready_queue = 16, current_process = 48, kernel_idle_process = 48, round_robin = True, task_queue = 0\<rparr>"

lemma sample_procs_simps [simp]:
  "sample_procs 16 = sample_process 1 32" "sample_procs 32 = sample_process 2 0" "sample_procs 48 = zero_process"
  "p_next (sample_process i nx) = nx" "p_signal (sample_process i nx) = 0" "length (p_sig_handles (sample_process i nx)) = 32"
  "p_pid (sample_process i nx) = i" "p_suspended (sample_process i nx) = False" "p_state (sample_process i nx) = PROCESS_READY"
  "p_fd (sample_process i nx) = [zero_fd, zero_fd]" "p_fd_count (sample_process i nx) = 2"
  by (simp_all add: sample_procs_def sample_process_def zero_process_def process_fill_sig_handlers_def)

lemma sample_state_simps [simp]:
  "procs sample_state = sample_procs" "ready_queue sample_state = 16" "current_process sample_state = 48"
  "kernel_idle_process sample_state = 48" "round_robin sample_state" "vfs sample_state = \<lparr>root_mount = None, mounts = []\<rparr>"
  by (simp_all add: sample_state_def)

lemma sample_sched_inv: "sched_inv sample_state [16, 32]"
  by (simp add: sched_inv_def ready_list_def)



section \<open>Memory management leaves the processes alone\<close>

text \<open>What the allocators change lies in the part of the state they own.\<close>

lemma bitmap_frame:
  "bitmap_acquire s = Some s1 \<Longrightarrow> bitmap_state.more s1 = bitmap_state.more s"
  "bitmap_state.more (bitmap_release s) = bitmap_state.more s"
  "bitmap_state.more (free_loop a k s) = bitmap_state.more s"
  "bitmap_state.more (run_mark i j k s) = bitmap_state.more s"
  "bitmap_state.more (zero_page p s) = bitmap_state.more s"
  "bitmap_state.more (bitmap_put i w s) = bitmap_state.more s"
proof -
  show "bitmap_state.more (free_loop a k s) = bitmap_state.more s"
    by (induction k arbitrary: a s) (simp_all add: Let_def bitmap_put_def)
  show "bitmap_state.more (run_mark i j k s) = bitmap_state.more s"
    by (induction i j k s rule: run_mark.induct) (auto simp: Let_def bitmap_put_def)
qed (auto simp: bitmap_acquire_def bitmap_release_def zero_page_def bitmap_put_def split: bind_splits)

lemma bitmap_ops_frame:
  "bitmap_free_pages a n s = Some s' \<Longrightarrow> bitmap_state.more s' = bitmap_state.more s"
  "bitmap_alloc_page s = Some (p, s') \<Longrightarrow> bitmap_state.more s' = bitmap_state.more s"
  "bitmap_alloc_contiguous_pages n s = Some (p, s') \<Longrightarrow> bitmap_state.more s' = bitmap_state.more s"
  by (auto simp: bitmap_free_pages_def bitmap_alloc_page_def bitmap_alloc_contiguous_pages_def Let_def bitmap_frame
      split: bind_splits option.splits prod.splits)

lemma more_up: "bitmap_state.more s' = bitmap_state.more (s :: 'a mmu_state_scheme) \<Longrightarrow> mmu_state.more s' = mmu_state.more s"
  by (cases s; cases s') simp

lemma mmu_frame:
  "mmu_acquire s = Some s1 \<Longrightarrow> mmu_state.more s1 = mmu_state.more s"
  "mmu_state.more (mmu_release s) = mmu_state.more s"
  "mmu_state.more (upd_entry t i f s) = mmu_state.more s"
  "mmu_state.more (mmu_unmap_page d v s) = mmu_state.more s"
  "mmu_state.more (unmap_loop k d v s) = mmu_state.more s"
proof -
  have 1: "mmu_state.more (mmu_unmap_page d v s) = mmu_state.more s" for d v and s :: "'a mmu_state_scheme"
    by (simp add: mmu_unmap_page_def Let_def upd_entry_def)
  then show "mmu_state.more (mmu_unmap_page d v s) = mmu_state.more s" .
  show "mmu_state.more (unmap_loop k d v s) = mmu_state.more s" by (induction k arbitrary: v s) (simp_all add: 1)
qed (auto simp: mmu_acquire_def mmu_release_def upd_entry_def split: bind_splits)

lemma get_table_frame: "get_table d i s = Some (p, s') \<Longrightarrow> mmu_state.more s' = mmu_state.more s"
  using more_up[OF bitmap_ops_frame(2), of s]
  by (auto simp: get_table_def Let_def mmu_frame more_up[OF bitmap_frame(5)] split: bind_splits if_splits)

lemma map_page_frame:
  "mmu_map_page d a v rw us s = Some s' \<Longrightarrow> mmu_state.more s' = mmu_state.more s"
  "map_loop k d a v rw us s = Some s' \<Longrightarrow> mmu_state.more s' = mmu_state.more s"
proof -
  have 1: "mmu_state.more s' = mmu_state.more s" if "mmu_map_page d a v rw us s = Some s'" for d a v rw us and s s' :: "'a mmu_state_scheme"
    using that by (auto simp: mmu_map_page_def mmu_frame split: bind_splits dest!: get_table_frame)
  then show "mmu_map_page d a v rw us s = Some s' \<Longrightarrow> mmu_state.more s' = mmu_state.more s" .
  show "map_loop k d a v rw us s = Some s' \<Longrightarrow> mmu_state.more s' = mmu_state.more s"
    by (induction k arbitrary: a v s) (auto split: bind_splits dest!: 1)
qed

lemma mmu_ops_frame:
  "mmu_map_pages d a v n rw us x s = Some s' \<Longrightarrow> mmu_state.more s' = mmu_state.more s"
  "mmu_unmap_pages d v n s = Some s' \<Longrightarrow> mmu_state.more s' = mmu_state.more s"
  "mmu_alloc_pages n s = Some (p, s') \<Longrightarrow> mmu_state.more s' = mmu_state.more s"
  "mmu_free_pages d v n s = Some s' \<Longrightarrow> mmu_state.more s' = mmu_state.more s"
proof -
  have map: "mmu_state.more s' = mmu_state.more s" if "mmu_map_pages d a v n rw us x s = Some s'" for d a v n rw us x and s s' :: "'a mmu_state_scheme"
    using that by (auto simp: mmu_map_pages_def mmu_frame split: bind_splits dest!: map_page_frame)
  have unmap: "mmu_state.more s' = mmu_state.more s" if "mmu_unmap_pages d v n s = Some s'" for d v n and s s' :: "'a mmu_state_scheme"
    using that by (auto simp: mmu_unmap_pages_def mmu_frame split: bind_splits)
  show "mmu_map_pages d a v n rw us x s = Some s' \<Longrightarrow> mmu_state.more s' = mmu_state.more s" by (rule map)
  show "mmu_unmap_pages d v n s = Some s' \<Longrightarrow> mmu_state.more s' = mmu_state.more s" by (rule unmap)
  show "mmu_alloc_pages n s = Some (p, s') \<Longrightarrow> mmu_state.more s' = mmu_state.more s"
    by (auto simp: mmu_alloc_pages_def Let_def mmu_frame split: bind_splits if_splits dest!: map more_up[OF bitmap_ops_frame(3)])
  have "free_pages_loop k d v s = Some s' \<Longrightarrow> mmu_state.more s' = mmu_state.more s" for k
    by (induction k arbitrary: v s) (auto simp: Let_def split: bind_splits if_splits dest!: unmap more_up[OF bitmap_ops_frame(1)])
  then show "mmu_free_pages d v n s = Some s' \<Longrightarrow> mmu_state.more s' = mmu_state.more s" by (simp add: mmu_free_pages_def)
qed

lemma kmore_up: "mmu_state.more s' = mmu_state.more (s :: 'a kernel_state_scheme) \<Longrightarrow> kernel_state.more s' = kernel_state.more s"
  by (cases s; cases s') simp

lemma heap_ops_frame:
  "free p s = Some s' \<Longrightarrow> kernel_state.more s' = kernel_state.more s"
  "malloc n s = Some (p, s') \<Longrightarrow> kernel_state.more s' = kernel_state.more s"
  "calloc k n s = Some (p, s') \<Longrightarrow> kernel_state.more s' = kernel_state.more s"
proof -
  have acq: "malloc_acquire s = Some s1 \<Longrightarrow> kernel_state.more s1 = kernel_state.more s" for s s1 :: "'a kernel_state_scheme"
    by (auto simp: malloc_acquire_def split: bind_splits)
  have rel: "kernel_state.more (malloc_release s) = kernel_state.more s" for s :: "'a kernel_state_scheme"
    by (simp add: malloc_release_def)
  show "free p s = Some s' \<Longrightarrow> kernel_state.more s' = kernel_state.more s"
    by (auto simp: free_def rel split: bind_splits if_splits dest!: acq)
  have mal: "malloc n s = Some (p, s') \<Longrightarrow> kernel_state.more s' = kernel_state.more s" for n p and s s' :: "'a kernel_state_scheme"
    by (auto simp: malloc_def rel Let_def split: bind_splits if_splits prod.splits dest!: acq kmore_up[OF mmu_ops_frame(3)])
  then show "malloc n s = Some (p, s') \<Longrightarrow> kernel_state.more s' = kernel_state.more s" .
  show "calloc k n s = Some (p, s') \<Longrightarrow> kernel_state.more s' = kernel_state.more s"
    by (auto simp: calloc_def split: bind_splits if_splits dest!: mal)
qed

section \<open>Semaphores\<close>

definition sem_list :: "semaphore_t \<Rightarrow> 'a proc_state_scheme \<Rightarrow> ptr list \<Rightarrow> bool" where
  "sem_list sem s ws \<longleftrightarrow> pq.chain (procs s) (sem_queue sem) ws"

lemma same_but_links_field:
  "same_but_links ps s s' \<Longrightarrow> p_state (procs s' q) = p_state (procs s q) \<and> p_pid (procs s' q) = p_pid (procs s q)
     \<and> p_parent (procs s' q) = p_parent (procs s q) \<and> p_waitpid (procs s' q) = p_waitpid (procs s q)
     \<and> p_suspended (procs s' q) = p_suspended (procs s q)"
proof -
  assume "same_but_links ps s s'"
  then have e: "(procs s' q)\<lparr>p_next := 0\<rparr> = (procs s q)\<lparr>p_next := 0\<rparr>" by (simp add: same_but_links_def)
  show ?thesis using arg_cong[OF e, of p_state] arg_cong[OF e, of p_pid] arg_cong[OF e, of p_parent]
      arg_cong[OF e, of p_waitpid] arg_cong[OF e, of p_suspended] by simp
qed

text \<open>Waiting on a semaphore. When the count is 0, \<open>semaphore_down\<close> takes the process out of the ready queue and
  puts it behind the processes already waiting, in the order of arrival; the order of the others is kept. With a
  positive count it only counts down.\<close>

theorem semaphore_down_correct:
  assumes "ready_list s rs" "sem_list sem s ws" "set rs \<inter> set ws = {}" "p \<in> set rs"
  shows "if 0 < sem_count sem then semaphore_down p (sem, s) = Some (sem\<lparr>sem_count := sem_count sem - 1\<rparr>, s)
    else \<exists>sem' s'. semaphore_down p (sem, s) = Some (sem', s') \<and> ready_list s' (remove1 p rs) \<and> sem_list sem' s' (ws @ [p])
      \<and> sem_count sem' = sem_count sem \<and> p_state (procs s' p) = PROCESS_WAITING"
proof (cases "0 < sem_count sem")
  case True
  then show ?thesis by (simp add: semaphore_down_def)
next
  case False
  let ?s = "upd_proc p (\<lambda>x. x\<lparr>p_state := PROCESS_WAITING\<rparr>) s"
  have "ready_list ?s rs" unfolding ready_list_def using assms(1)
    by (subst pq.chain_cong[of _ _ "procs s"]) (auto simp: ready_list_def)
  then obtain s1 where s1: "process_remove_ready_queue p ?s = Some s1" "ready_list s1 (remove1 p rs)" "same_but_links rs ?s s1"
    using process_remove_ready_queue_list by blast
  have pn: "p \<noteq> NULL" "distinct rs" "p \<notin> set ws" using assms ready_list_facts by auto
  have ws: "pq.chain (procs s1) (sem_queue sem) ws"
    using assms(2,3,4) s1(3) unfolding sem_list_def
    by (subst pq.chain_cong[of _ _ "procs s"]) (auto simp: same_but_links_def)
  have st: "p_state (procs s1 p) = PROCESS_WAITING" using same_but_links_field[OF s1(3), of p] by simp
  let ?clear = "upd_proc p (\<lambda>x. x\<lparr>p_next := NULL\<rparr>)"
  have rl: "ready_list (?clear t) (remove1 p rs) = ready_list t (remove1 p rs)" for t :: "'a proc_state_scheme"
    using pn(2) by (simp add: ready_list_def)
  show ?thesis
  proof (cases "ws = []")
    case True
    then have "sem_queue sem = NULL" using assms(2) by (simp add: sem_list_def)
    then show ?thesis using True False s1 pn rl st
      by (auto simp: semaphore_down_def semaphore_queue_push_def sem_list_def)
  next
    case ne: False
    let ?t = "upd_proc (last ws) (\<lambda>x. x\<lparr>p_next := p\<rparr>) s1"
    have l: "last ws \<in> set ws" "last ws \<noteq> p" using ne pn(3) by auto
    have q: "sem_queue sem \<noteq> NULL" using ne assms(2) by (cases ws) (auto simp: sem_list_def)
    have "semaphore_queue_push p (sem, s1) = Some (sem, ?clear ?t)"
      using q pq.last_of_chain[OF ws ne] by (simp add: semaphore_queue_push_def)
    moreover have "ready_list ?t (remove1 p rs)"
    proof -
      have "last ws \<notin> set (remove1 p rs)" using l assms(3) set_remove1_subset[of p rs] by auto
      then show ?thesis using s1(2) by (simp add: ready_list_def)
    qed
    moreover have "pq.chain (procs (?clear ?t)) (sem_queue sem) (ws @ [p])"
    proof -
      let ?h = "(procs s1)(p := (procs s1 p)\<lparr>p_next := NULL\<rparr>)"
      have "pq.chain ?h (sem_queue sem) ws" "pq.chain ?h p [p]" using ws pn by auto
      then have "pq.chain (?h(last ws := (?h (last ws))\<lparr>p_next := p\<rparr>)) (sem_queue sem) (ws @ [p])"
        using pq.chain_append_node[of ?h "sem_queue sem" ws p "[p]"] ne pn(3) by auto
      then show ?thesis using l(2) by (simp add: fun_upd_twist)
    qed
    moreover have "p_state (procs (?clear ?t) p) = PROCESS_WAITING" using st l(2) by simp
    ultimately show ?thesis using False s1(1) rl[of ?t] by (simp add: semaphore_down_def sem_list_def)
  qed
qed

text \<open>Waking is not selective. When processes wait, \<open>semaphore_up\<close> appends not only the first of them to the
  ready queue but the whole wait queue, because the link of the process taken out still leads to the others, which
  stay in the wait queue at the same time. The first becomes ready and, in addition, the count is raised, so that one
  more process may pass.\<close>

theorem semaphore_up_wakes_all:
  assumes "ready_list s rs" "sem_list sem s (w # ws)" "set rs \<inter> set (w # ws) = {}"
  shows "\<exists>sem' s'. semaphore_up (sem, s) = Some (sem', s') \<and> ready_list s' (rs @ w # ws) \<and> sem_list sem' s' ws
    \<and> p_state (procs s' w) = PROCESS_READY \<and> sem_count sem' = sem_count sem + 1"
proof -
  let ?s = "upd_proc w (\<lambda>x. x\<lparr>p_state := PROCESS_READY\<rparr>) s"
  have w: "sem_queue sem = w" "w \<noteq> NULL" "pq.chain (procs s) (p_next (procs s w)) ws" using assms(2) by (auto simp: sem_list_def)
  have keep: "pq.chain (procs ?s) a qs = pq.chain (procs s) a qs" for a qs by (rule pq.chain_cong) simp
  have "pq.chain (procs ?s) w (w # ws)" using w keep by simp
  then obtain s1 where s1: "process_add_ready_queue w ?s = Some s1" "ready_list s1 (rs @ w # ws)" "same_but_links rs ?s s1"
    using process_add_ready_queue_list[of ?s rs w "w # ws"] assms(1,3) keep by (auto simp: ready_list_def)
  have "pq.chain (procs s1) (p_next (procs s w)) ws"
    using w(3) s1(3) assms(3) by (subst pq.chain_cong[of _ _ "procs s"]) (auto simp: same_but_links_def)
  moreover have "p_state (procs s1 w) = PROCESS_READY" using same_but_links_field[OF s1(3), of w] by simp
  ultimately show ?thesis using s1(1,2) w(1,2) by (auto simp: semaphore_up_def semaphore_queue_pop_def sem_list_def)
qed

theorem semaphore_down_correct_witness:
  "\<exists>sem' s'. semaphore_down 16 (\<lparr>sem_count = 0, sem_queue = 0\<rparr>, sample_state) = Some (sem', s') \<and> ready_list s' [32]
     \<and> sem_list sem' s' [16] \<and> sem_count sem' = 0 \<and> p_state (procs s' 16) = PROCESS_WAITING"
  using semaphore_down_correct[of sample_state "[16, 32]" "\<lparr>sem_count = 0, sem_queue = 0\<rparr>" "[]" 16] sample_sched_inv
  by (simp add: sched_inv_def sem_list_def)

theorem semaphore_up_wakes_all_witness:
  "\<exists>sem' s'. semaphore_up (\<lparr>sem_count = 0, sem_queue = 16\<rparr>, sample_state\<lparr>ready_queue := 0\<rparr>) = Some (sem', s')
     \<and> ready_list s' [16, 32] \<and> sem_list sem' s' [32] \<and> p_state (procs s' 16) = PROCESS_READY \<and> sem_count sem' = 1"
  using semaphore_up_wakes_all[of "sample_state\<lparr>ready_queue := 0\<rparr>" "[]" "\<lparr>sem_count = 0, sem_queue = 16\<rparr>" 16 "[32]"]
  by (simp add: ready_list_def sem_list_def)

section \<open>File descriptors\<close>

text \<open>A file opened for reading may be writable. A descriptor that was open for writing keeps that right when it
  is closed, and the next successful open that gets it, whatever its flags, returns it still writable.\<close>

theorem open_recycled_descriptor_writable:
  assumes "unat (p_fd_count (procs s p)) = length (p_fd (procs s p))" "n < length (p_fd (procs s p))"
    "\<forall>i<n. fd_used (p_fd (procs s p) ! i)" "fd_used (p_fd (procs s p) ! n)" "fd_write (p_fd (procs s p) ! n)"
    "process_close_file p (of_nat n) s = Some (0, s1)" "process_open_file ok p path flags s1 = Some (int n, s2)"
  shows "fd_write (p_fd (procs s2 p) ! n)"
proof -
  let ?x = "procs s p"
  let ?fds = "(p_fd ?x)[n := (p_fd ?x ! n)\<lparr>fd_used := False\<rparr>]"
  have "unat (p_fd_count ?x) < 2 ^ 32" using unsigned_less[of "p_fd_count ?x", where 'a = nat] by simp
  then have "length (p_fd ?x) < 2 ^ 32" using assms(1) by simp
  then have n: "unat (of_nat n :: u32) = n" using assms(2) by (simp add: unat_of_nat_small)
  have s1: "procs s1 p = ?x\<lparr>p_fd := ?fds\<rparr>"
    using assms(2,4,6) n by (auto simp: process_close_file_def Let_def split: if_splits)
  have "List.find (\<lambda>i. \<not> fd_used (?fds ! i)) [0..<length (p_fd ?x)] = Some n"
    using assms(2,3) by (auto simp: find_Some_iff nth_list_update intro!: exI[of _ n])
  then have f: "List.find (\<lambda>i. \<not> fd_used (p_fd (procs s1 p) ! i)) [0..<unat (p_fd_count (procs s1 p))] = Some n"
    using s1 assms(1) by simp
  obtain ret f' where o: "open_target ok path flags (vfs s1) (terminals s1) (set_access flags
      ((?fds ! n)\<lparr>fd_used := True, fd_flags := flags, fd_offset := 0, fd_name := take 256 path\<rparr>)) = Some (ret, f')"
      "s2 = upd_proc p (\<lambda>x. x\<lparr>p_fd := (p_fd x)[n := f']\<rparr>) s1"
    using assms(7) f s1 by (auto simp: process_open_file_def Let_def split: if_splits bind_splits)
  have keeps: "fd_write f'" if "open_target ok path flags v t g = Some (ret, f')" "fd_write g" for v t g
    using that by (auto simp: open_target_def Let_def split: if_splits bind_splits option.splits)
  have "fd_write f'" using o(1) assms(2,5) by (intro keeps[OF o(1)]) (simp add: set_access_def)
  then show ?thesis using o(2) s1 assms(2) by simp
qed

text \<open>A process with one descriptor open for reading and writing on a terminal.\<close>

definition open_state :: proc_state where
  "open_state = upd_proc 16 (\<lambda>x. x\<lparr>p_fd := [zero_fd\<lparr>fd_used := True, fd_read := True, fd_write := True\<rparr>, zero_fd]\<rparr>) sample_state"

lemma atoi_of_Nil: "atoi_of [] = Some 0"
proof -
  have m: "put_bytes (\<lambda>_. 0) 1 [] = (\<lambda>_. 0)" by (simp add: put_bytes_def fun_eq_iff)
  have "skip_spaces (\<lambda>_. 0) 1 = Some 1" by (subst skip_spaces.simps) (simp add: isspace_def isblank_def char_int_def)
  then show ?thesis by (simp add: atoi_of_def atoi_def atol_def strtol_def m)
qed

theorem open_recycled_descriptor_writable_witness:
  "\<exists>s1 s2. process_close_file 16 0 open_state = Some (0, s1) \<and> process_open_file True 16 dev_tty 0 s1 = Some (0, s2)
     \<and> fd_write (p_fd (procs s2 16) ! 0)"
proof -
  obtain s1 where c: "process_close_file 16 0 open_state = Some (0, s1)"
    by (simp add: process_close_file_def Let_def open_state_def)
  then have s1: "p_fd (procs s1 16) = [zero_fd\<lparr>fd_read := True, fd_write := True\<rparr>, zero_fd]" "p_fd_count (procs s1 16) = 2"
    by (auto simp: process_close_file_def Let_def open_state_def zero_fd_def)
  have "[0..<unat (2 :: u32)] = [0, 1]" by (simp add: upt_rec)
  then obtain s2 where o: "process_open_file True 16 dev_tty 0 s1 = Some (0, s2)"
    by (simp add: process_open_file_def Let_def s1 open_target_def atoi_of_Nil zero_fd_def tty_get_count_def)
  have "fd_write (p_fd (procs s2 16) ! 0)"
    using open_recycled_descriptor_writable[of open_state 16 0 s1 True dev_tty 0 s2] c o by (simp add: open_state_def)
  then show ?thesis using c o by blast
qed

section \<open>Destruction\<close>

lemma kmoreD:
  "kernel_state.more s' = kernel_state.more (s :: 'a proc_state_scheme) \<Longrightarrow> procs s' = procs s \<and> ready_queue s' = ready_queue s
     \<and> current_process s' = current_process s \<and> kernel_idle_process s' = kernel_idle_process s \<and> tasks s' = tasks s
     \<and> round_robin s' = round_robin s \<and> vfs s' = vfs s"
  by (cases s; cases s') simp

lemma free_keeps:
  "free p (s :: 'a proc_state_scheme) = Some s' \<Longrightarrow> procs s' = procs s \<and> ready_queue s' = ready_queue s
     \<and> current_process s' = current_process s \<and> kernel_idle_process s' = kernel_idle_process s"
  using kmoreD[OF heap_ops_frame(1)] by blast

lemma task_remove_keeps:
  fixes s s' :: "'a proc_state_scheme"
  assumes "task_remove_loop p prev node s = Some s'"
  shows "procs s' = procs s \<and> ready_queue s' = ready_queue s \<and> current_process s' = current_process s
    \<and> kernel_idle_process s' = kernel_idle_process s"
proof (rule task_remove_loop.raw_induct[OF _ assms, where P = "\<lambda>p prev node s s'. procs s' = procs s \<and> ready_queue s' = ready_queue s
    \<and> current_process s' = current_process s \<and> kernel_idle_process s' = kernel_idle_process s"])
  fix f :: "ptr \<Rightarrow> ptr \<Rightarrow> ptr \<Rightarrow> 'a proc_state_scheme \<Rightarrow> 'a proc_state_scheme option" and p prev node and s y :: "'a proc_state_scheme"
  assume IH: "\<And>p prev node s y. f p prev node s = Some y \<Longrightarrow> procs y = procs s \<and> ready_queue y = ready_queue s
      \<and> current_process y = current_process s \<and> kernel_idle_process y = kernel_idle_process s"
    and step: "(if node = NULL then Some s
      else do {
        s1 \<leftarrow> (if t_process (tasks s node) = p
               then free node (if prev \<noteq> NULL
                      then s\<lparr>tasks := (tasks s)(prev := (tasks s prev)\<lparr>t_next := t_next (tasks s node)\<rparr>)\<rparr>
                      else s\<lparr>task_queue := t_next (tasks s node)\<rparr>)
               else Some s);
        f p node (t_next (tasks s1 node)) s1 }) = Some y"
  then show "procs y = procs s \<and> ready_queue y = ready_queue s \<and> current_process y = current_process s
      \<and> kernel_idle_process y = kernel_idle_process s"
    by (auto split: if_splits bind_splits dest!: IH free_keeps)
qed

definition reparented :: "ptr \<Rightarrow> ptr list \<Rightarrow> (ptr \<Rightarrow> process_t) \<Rightarrow> ptr \<Rightarrow> process_t" where
  "reparented p ps h = (\<lambda>q. if q \<in> set ps \<and> p_parent (h q) = p then (h q)\<lparr>p_parent := p_parent (h p)\<rparr> else h q)"

lemma reparent_chain:
  assumes "pq.chain (procs s) node ps" "p_parent (procs s p) \<noteq> p"
  shows "reparent_loop p node s = Some (s\<lparr>procs := reparented p ps (procs s)\<rparr>)"
  using assms
proof (induction ps arbitrary: node s)
  case Nil
  then show ?case by (subst reparent_loop.simps) (simp add: reparented_def)
next
  case (Cons q ps)
  let ?s = "if p_parent (procs s q) = p then upd_proc q (\<lambda>x. x\<lparr>p_parent := p_parent (procs s p)\<rparr>) s else s"
  have q: "node = q" "q \<noteq> NULL" "q \<notin> set ps" using pq.chain_distinct[OF Cons.prems(1)] Cons.prems(1) by auto
  have nx: "p_next (procs ?s x) = p_next (procs s x)" "p_parent (procs ?s p) = p_parent (procs s p)" for x
    using Cons.prems(2) by auto
  have "pq.chain (procs ?s) (p_next (procs s q)) ps"
    using Cons.prems(1) nx(1) by (subst pq.chain_cong[of _ _ "procs s"]) auto
  then have IH: "reparent_loop p (p_next (procs s q)) ?s = Some (?s\<lparr>procs := reparented p ps (procs ?s)\<rparr>)"
    using Cons.IH[of ?s "p_next (procs s q)"] nx(2) Cons.prems(2) by simp
  have "reparented p ps (procs ?s) = reparented p (q # ps) (procs s)"
    using q(3) Cons.prems(2) by (intro ext) (simp add: reparented_def)
  then have "?s\<lparr>procs := reparented p ps (procs ?s)\<rparr> = s\<lparr>procs := reparented p (q # ps) (procs s)\<rparr>"
    by (cases "p_parent (procs s q) = p") (simp_all only: if_True if_False upd_proc_def simp_thms, simp_all)
  moreover have "reparent_loop p node s = reparent_loop p (p_next (procs ?s q)) ?s"
    using q by (subst reparent_loop.simps) (simp only: Let_def if_False)
  ultimately show ?case using IH nx(1)[of q] by (simp only:)
qed

lemma process_destroy_effect:
  fixes s s' :: "'a proc_state_scheme"
  assumes ready: "ready_list s ps" and p: "p \<noteq> kernel_idle_process s" "p_parent (procs s p) \<noteq> p"
    and d: "process_destroy p c s = Some s'"
  shows "ready_list s' (remove1 p ps) \<and> current_process s' = current_process s \<and> kernel_idle_process s' = kernel_idle_process s
    \<and> (\<forall>q. p_pid (procs s' q) = p_pid (procs s q)) \<and> p_state (procs s' p) = PROCESS_ZOMBIE
    \<and> (\<forall>q. q \<notin> set ps \<longrightarrow> q \<noteq> p \<longrightarrow> procs s' q = procs s q)
    \<and> (\<forall>q\<in>set ps. q \<noteq> p \<longrightarrow> p_state (procs s' q) = p_state (procs s q)
        \<and> p_waitpid (procs s' q) = p_waitpid (procs s q) \<and> p_suspended (procs s' q) = p_suspended (procs s q)
        \<and> p_parent (procs s' q) = (if p_parent (procs s q) = p then p_parent (procs s p) else p_parent (procs s q)))"
proof -
  define s1 where "s1 = upd_proc p (\<lambda>x. x\<lparr>p_state := PROCESS_ZOMBIE, p_exit_code := c\<rparr>) s"
  obtain s2 s3 x s4 s5 s6 s7 where st: "mmu_free_pages (p_pdt (procs s1 p)) 0 (0x300 * 1024) s1 = Some s2"
      "bitmap_free_pages (p_pdt (procs s2 p)) 1 s2 = Some s3" "close_all (procs s3 p) = Some x"
      "free (p_fd_addr x) (upd_proc p (\<lambda>_. x) s3) = Some s4" "reparent_loop p (ready_queue s4) s4 = Some s5"
      "process_remove_ready_queue p s5 = Some s6" "task_remove_all_from p s6 = Some s7" "free p s7 = Some s'"
    using d p(1) by (auto simp: process_destroy_def s1_def split: bind_splits)
  have k2: "procs s2 = procs s1 \<and> ready_queue s2 = ready_queue s1 \<and> current_process s2 = current_process s1 \<and> kernel_idle_process s2 = kernel_idle_process s1"
    using kmoreD[OF kmore_up[OF mmu_ops_frame(4)[OF st(1)]]] by simp
  have k3: "procs s3 = procs s2 \<and> ready_queue s3 = ready_queue s2 \<and> current_process s3 = current_process s2 \<and> kernel_idle_process s3 = kernel_idle_process s2"
    using kmoreD[OF kmore_up[OF more_up[OF bitmap_ops_frame(1)[OF st(2)]]]] by simp
  obtain fds where x: "x = (procs s1 p)\<lparr>p_fd := fds\<rparr>" using st(3) k2 k3 by (auto simp: close_all_def split: if_splits)
  have k4: "procs s4 = (procs s1)(p := x)" "ready_queue s4 = ready_queue s" "current_process s4 = current_process s"
      "kernel_idle_process s4 = kernel_idle_process s"
    using free_keeps[OF st(4)] k2 k3 by (simp_all add: s1_def)
  have old: "p_next (procs s4 q) = p_next (procs s q)" "p_parent (procs s4 q) = p_parent (procs s q)" "p_pid (procs s4 q) = p_pid (procs s q)"
      "q \<noteq> p \<Longrightarrow> procs s4 q = procs s q" "p_state (procs s4 p) = PROCESS_ZOMBIE" for q
    by (auto simp: k4 x s1_def)
  have ch: "pq.chain (procs s4) (ready_queue s4) ps"
    using ready old(1) unfolding ready_list_def k4(2) by (subst pq.chain_cong[of _ _ "procs s"]) auto
  have s5: "s5 = s4\<lparr>procs := reparented p ps (procs s4)\<rparr>" using st(5) reparent_chain[OF ch, of p] old(2) p(2) by simp
  have "ready_list s5 ps" unfolding ready_list_def s5 using ch
    by (subst pq.chain_cong[of _ _ "procs s4"]) (auto simp: reparented_def)
  then have r6: "ready_list s6 (remove1 p ps)" "same_but_links ps s5 s6"
    using process_remove_ready_queue_list[of s5 ps p] st(6) by auto
  have f6: "current_process s6 = current_process s5" "kernel_idle_process s6 = kernel_idle_process s5"
    using r6(2) by (auto simp: same_but_links_def dest: arg_cong[of _ _ current_process] arg_cong[of _ _ kernel_idle_process])
  have k8: "procs s' = procs s6" "ready_queue s' = ready_queue s6" "current_process s' = current_process s6"
      "kernel_idle_process s' = kernel_idle_process s6"
    using free_keeps[OF st(8)] task_remove_keeps[of p NULL "task_queue s6" s6 s7] st(7) by (auto simp: task_remove_all_from_def)
  have fld: "p_state (procs s' q) = p_state (procs s5 q)" "p_pid (procs s' q) = p_pid (procs s5 q)" "p_parent (procs s' q) = p_parent (procs s5 q)"
      "p_waitpid (procs s' q) = p_waitpid (procs s5 q)" "p_suspended (procs s' q) = p_suspended (procs s5 q)" for q
    using same_but_links_field[OF r6(2), of q] k8(1) by auto
  have s5q: "p_state (procs s5 q) = p_state (procs s4 q)" "p_pid (procs s5 q) = p_pid (procs s q)"
      "p_waitpid (procs s5 q) = p_waitpid (procs s4 q)" "p_suspended (procs s5 q) = p_suspended (procs s4 q)"
      "q \<in> set ps \<Longrightarrow> p_parent (procs s5 q) = (if p_parent (procs s q) = p then p_parent (procs s p) else p_parent (procs s q))" for q
    by (simp_all add: s5 reparented_def old(2,3))
  have "ready_list s' (remove1 p ps)" using r6(1) k8(1,2) by (simp add: ready_list_def)
  moreover have "current_process s' = current_process s" "kernel_idle_process s' = kernel_idle_process s"
    using k8(3,4) f6 s5 k4(3,4) by simp_all
  moreover have "procs s' q = procs s q" if "q \<notin> set ps" "q \<noteq> p" for q
    using that r6(2) old(4)[of q] by (simp add: k8(1) same_but_links_def s5 reparented_def)
  ultimately show ?thesis using fld s5q old(4,5) by simp
qed

end
