(* ===== verification/Syscall_Laws.thy ===== *)
theory Syscall_Laws
  imports Syscall Process_Laws
begin

text \<open>
  Exit, wait and seek: who is woken by the end of a process, what becomes of its exit status, and the
  arithmetic of file offsets.
\<close>

section \<open>Switching and notification keep the queue\<close>

definition same_ids :: "'a proc_state_scheme \<Rightarrow> 'a proc_state_scheme \<Rightarrow> bool" where
  "same_ids s s' \<longleftrightarrow> ready_queue s' = ready_queue s \<and> kernel_idle_process s' = kernel_idle_process s \<and>
     (\<forall>q. p_next (procs s' q) = p_next (procs s q) \<and> p_pid (procs s' q) = p_pid (procs s q)
        \<and> p_waitpid (procs s' q) = p_waitpid (procs s q) \<and> p_suspended (procs s' q) = p_suspended (procs s q))"

lemma same_ids_trans: "same_ids s t \<Longrightarrow> same_ids t u \<Longrightarrow> same_ids s u"
  by (simp add: same_ids_def)

lemma same_ids_list: "same_ids s s' \<Longrightarrow> ready_list s' ps = ready_list s ps"
  unfolding ready_list_def same_ids_def by (metis pq.chain_cong)

lemma same_ids_load [simp]: "same_ids s (mmu_load_pdt d t) = same_ids s t" "same_ids s (mmu_writel d v x t) = same_ids s t"
  by (simp_all add: same_ids_def)

lemma deliver_same_ids: "deliver_signal p s = Some s' \<Longrightarrow> same_ids s s'"
  by (auto simp: deliver_signal_def Let_def split: if_splits bind_splits) (simp_all add: same_ids_def)

lemma process_switch_same_ids:
  assumes "process_switch p r s = Some (r', s')"
  shows "same_ids s s' \<and> current_process s' = p"
proof (cases "current_process s = p")
  case True
  then show ?thesis using assms by (auto simp: process_switch_def same_ids_def)
next
  case False
  let ?s1 = "(upd_proc (current_process s) (\<lambda>x. x\<lparr>p_state := PROCESS_READY\<rparr>) s)\<lparr>current_process := p\<rparr>"
  obtain s2 where s2: "deliver_signal p ?s1 = Some s2"
      "s' = mmu_load_pdt (p_pdt (procs s2 p)) (upd_proc p (\<lambda>x. x\<lparr>p_state := PROCESS_RUNNING\<rparr>) s2)"
    using assms False by (auto simp: process_switch_def split: bind_splits)
  have "current_process s2 = p" using s2(1) by (auto simp: deliver_signal_def Let_def split: if_splits bind_splits)
  moreover have "same_ids s ?s1" by (simp add: same_ids_def)
  moreover have "same_ids s2 s'" unfolding s2(2) same_ids_load by (simp add: same_ids_def)
  ultimately have "same_ids s s'" using deliver_same_ids[OF s2(1)] by (blast intro: same_ids_trans)
  then show ?thesis using \<open>current_process s2 = p\<close> by (simp add: s2(2))
qed

text \<open>A process woken by the end of process \<open>i\<close>.\<close>

definition woken :: "u32 \<Rightarrow> process_t \<Rightarrow> process_t" where
  "woken i x = x\<lparr>p_waitpid := 0, p_suspended := False, p_r := (p_r x)\<lparr>r_eax := i\<rparr>\<rparr>"

lemma notify_chain:
  assumes "pq.chain (procs s) node ps"
  shows "\<exists>s'. notify_loop i st node s = Some s' \<and> ready_queue s' = ready_queue s \<and> current_process s' = current_process s
    \<and> procs s' = (\<lambda>q. if q \<in> set ps \<and> p_waitpid (procs s q) = i then woken i (procs s q) else procs s q)"
  using assms
proof (induction ps arbitrary: node s)
  case Nil
  then show ?case by (subst notify_loop.simps) (simp add: fun_eq_iff)
next
  case (Cons q ps)
  have q: "node = q" "q \<noteq> NULL" "q \<notin> set ps" using pq.chain_distinct[OF Cons.prems] Cons.prems by auto
  define s1 where "s1 = (if p_waitpid (procs s q) = i
     then let s' = upd_proc q (\<lambda>x. x\<lparr>p_waitpid := 0, p_suspended := False, p_r := (p_r x)\<lparr>r_eax := i\<rparr>\<rparr>) s
          in if p_waitpid_status (procs s q) \<noteq> NULL then mmu_writel (p_pdt (procs s q)) (p_waitpid_status (procs s q)) (of_int st) s' else s'
     else s)"
  have s1: "procs s1 = (if p_waitpid (procs s q) = i then (procs s)(q := woken i (procs s q)) else procs s)"
      "ready_queue s1 = ready_queue s" "current_process s1 = current_process s" "p_next (procs s1 x) = p_next (procs s x)" for x
    by (simp_all add: s1_def Let_def woken_def)
  have "pq.chain (procs s1) (p_next (procs s q)) ps"
    using Cons.prems q(1) s1(4) by (subst pq.chain_cong[of _ _ "procs s"]) auto
  then obtain s' where s': "notify_loop i st (p_next (procs s q)) s1 = Some s'" "ready_queue s' = ready_queue s1"
      "current_process s' = current_process s1"
      "procs s' = (\<lambda>x. if x \<in> set ps \<and> p_waitpid (procs s1 x) = i then woken i (procs s1 x) else procs s1 x)"
    using Cons.IH[of s1 "p_next (procs s q)"] by auto
  have "notify_loop i st node s = Some s'"
    using s'(1) q by (subst notify_loop.simps) (simp add: s1_def Let_def split: if_splits)
  moreover have "procs s' = (\<lambda>x. if x \<in> set (q # ps) \<and> p_waitpid (procs s x) = i then woken i (procs s x) else procs s x)"
    using q(3) unfolding s'(4) by (auto simp: fun_eq_iff s1(1))
  ultimately show ?case using s'(2,3) s1(2,3) by auto
qed

section \<open>Exit\<close>

lemma syscall_exit_effect:
  assumes inv: "sched_inv s ps" and cur: "current_process s = p" "p \<in> set ps" "p_parent (procs s p) \<noteq> p"
    and e: "syscall_exit r code s = Some (ret, r', s')"
  shows "ret = code \<and> current_process s' = kernel_idle_process s \<and> ready_list s' (remove1 p ps)
    \<and> (\<forall>q\<in>set ps. q \<noteq> p \<longrightarrow> p_pid (procs s' q) = p_pid (procs s q) \<and>
        (if p_waitpid (procs s q) = p_pid (procs s p) then p_waitpid (procs s' q) = 0 \<and> \<not> p_suspended (procs s' q) \<and> r_eax (p_r (procs s' q)) = p_pid (procs s p)
         else p_waitpid (procs s' q) = p_waitpid (procs s q) \<and> p_suspended (procs s' q) = p_suspended (procs s q)))"
proof -
  have ready: "ready_list s ps" "p \<noteq> kernel_idle_process s" using inv cur by (auto simp: sched_inv_def)
  obtain s1 s2 where st: "process_destroy p code s = Some s1" "process_switch (kernel_idle_process s1) r s1 = Some (r', s2)"
      "notify_loop (p_pid (procs s2 p)) code (ready_queue s2) s2 = Some s'" "ret = code"
  proof -
    obtain s1 where s1: "process_destroy p code s = Some s1"
      using e cur(1) by (cases "process_destroy p code s") (simp_all add: syscall_exit_def)
    obtain r1 s2 where s2: "process_switch (kernel_idle_process s1) r s1 = Some (r1, s2)"
      using e cur(1) s1 by (cases "process_switch (kernel_idle_process s1) r s1") (auto simp: syscall_exit_def process_idle_def)
    obtain s3 where s3: "notify_loop (p_pid (procs s2 p)) code (ready_queue s2) s2 = Some s3"
      using e cur(1) s1 s2 by (cases "notify_loop (p_pid (procs s2 p)) code (ready_queue s2) s2")
        (auto simp: syscall_exit_def process_idle_def process_notify_waitpid_def)
    have "ret = code" "r' = r1" "s' = s3"
      using e cur(1) s1 s2 s3 by (auto simp: syscall_exit_def process_idle_def process_notify_waitpid_def)
    then show thesis using that[of s1 s2] s1 s2 s3 by simp
  qed
  note d = process_destroy_effect[OF ready cur(3) st(1)]
  note sw = process_switch_same_ids[OF st(2)]
  have r2: "ready_list s2 (remove1 p ps)" using d sw same_ids_list by blast
  obtain s3 where "notify_loop (p_pid (procs s2 p)) code (ready_queue s2) s2 = Some s3" and s3: "ready_queue s3 = ready_queue s2"
      "current_process s3 = current_process s2"
      "procs s3 = (\<lambda>q. if q \<in> set (remove1 p ps) \<and> p_waitpid (procs s2 q) = p_pid (procs s2 p) then woken (p_pid (procs s2 p)) (procs s2 q) else procs s2 q)"
    using notify_chain[of s2 "ready_queue s2" "remove1 p ps" "p_pid (procs s2 p)" code] r2 by (auto simp: ready_list_def)
  then have [simp]: "s' = s3" using st(3) by simp
  have ids: "p_pid (procs s2 q) = p_pid (procs s q)" for q using d sw by (simp add: same_ids_def)
  have "ready_list s3 (remove1 p ps)" unfolding ready_list_def s3(1) using r2
    by (subst pq.chain_cong[of _ _ "procs s2"]) (auto simp: ready_list_def s3(3) woken_def)
  moreover have "p_waitpid (procs s2 q) = p_waitpid (procs s q)" "p_suspended (procs s2 q) = p_suspended (procs s q)"
      "q \<in> set (remove1 p ps)" if "q \<in> set ps" "q \<noteq> p" for q
    using that d sw by (auto simp: same_ids_def)
  ultimately show ?thesis using st(4) s3 d sw ids by (simp add: woken_def)
qed

text \<open>C9: Exit wakes exactly the waiting processes. When the running process ends, it leaves the ready queue (the
  order of the others is kept), the idle process takes over, and of the other processes exactly those that wait for
  it are released from waiting, with its process number as the result of their call; the others stay suspended or
  not as they were.\<close>

theorem exit_wakes_waiters:
  assumes "sched_inv s ps" "current_process s = p" "p \<in> set ps" "p_parent (procs s p) \<noteq> p"
    "syscall_exit r code s = Some (ret, r', s')"
  shows "current_process s' = kernel_idle_process s \<and> ready_list s' (remove1 p ps)
    \<and> (\<forall>q\<in>set ps. q \<noteq> p \<longrightarrow>
        (if p_waitpid (procs s q) = p_pid (procs s p)
         then p_waitpid (procs s' q) = 0 \<and> \<not> p_suspended (procs s' q) \<and> r_eax (p_r (procs s' q)) = p_pid (procs s p)
         else p_waitpid (procs s' q) = p_waitpid (procs s q) \<and> p_suspended (procs s' q) = p_suspended (procs s q)))"
  using syscall_exit_effect[OF assms] by blast

text \<open>The exit status of a process nobody waits for yet is lost. After the exit of a process, \<open>waitpid\<close> for it
  fails with \<open>-ESRCH\<close> for every caller: the process is gone from the ready queue, where \<open>waitpid\<close> looks for it, so
  that the case of a zombie process is never reached.\<close>

theorem exit_status_lost:
  assumes "sched_inv s ps" "current_process s = p" "p \<in> set ps" "p_parent (procs s p) \<noteq> p"
    "inj_on (\<lambda>q. p_pid (procs s q)) (set ps)" "syscall_exit r code s = Some (ret, r', s')"
  shows "syscall_waitpid r'' (p_pid (procs s p)) status (s'\<lparr>current_process := q\<rparr>)
    = Some (- ESRCH, r'', s'\<lparr>current_process := q\<rparr>)"
proof -
  note e = syscall_exit_effect[OF assms(1-4,6)]
  have d: "distinct ps" using assms(1) ready_list_facts by (auto simp: sched_inv_def)
  have "find (\<lambda>q. p_pid (procs s' q) = p_pid (procs s p)) (remove1 p ps) = None"
    using e assms(3,5) d by (auto simp: find_None_iff inj_on_def)
  then have "process_by_pid (p_pid (procs s p)) s' = Some NULL" using process_by_pid_list[of s' "remove1 p ps"] e by simp
  then show ?thesis by (simp add: syscall_waitpid_def process_by_pid_def)
qed

text \<open>Process 1 runs, process 2 waits for it.\<close>

definition exit_state :: proc_state where
  "exit_state = upd_proc 32 (\<lambda>x. x\<lparr>p_waitpid := 1, p_suspended := True\<rparr>) (sample_state\<lparr>current_process := 16\<rparr>)"

lemma free_unmapped: "(\<And>v. \<not> mmu_is_mapped d v s) \<Longrightarrow> free_pages_loop k d v s = Some s"
  by (induction k arbitrary: v) (simp_all add: Let_def)

lemma exit_state_inv: "sched_inv exit_state [16, 32]"
  by (simp add: sched_inv_def exit_state_def ready_list_def)

text \<open>With an empty kernel heap and no page mapped, ending a process succeeds.\<close>

definition free_ok :: "'a kernel_state_scheme \<Rightarrow> bool" where
  "free_ok s \<longleftrightarrow> malloc_lock s = Some False \<and> first_block (kernel_heap s) = NULL"

lemma free_ok_free: "free_ok s \<Longrightarrow> \<exists>s'. free p s = Some s'"
  by (simp add: free_ok_def free_def malloc_acquire_def spinlock_lock_def heap_free_def find_block.simps[of _ _ NULL])

lemma free_ok_more: "bitmap_state.more s' = bitmap_state.more (s :: 'a kernel_state_scheme) \<Longrightarrow> free_ok s' = free_ok s"
  by (cases s; cases s') (simp add: free_ok_def)

lemma same_but_links_rest:
  assumes "same_but_links ps s s'"
  shows "free_ok s' = free_ok s" "task_queue s' = task_queue s"
proof -
  have e: "s'\<lparr>procs := procs s, ready_queue := ready_queue s\<rparr> = s" using assms by (simp add: same_but_links_def)
  show "free_ok s' = free_ok s" "task_queue s' = task_queue s"
    using arg_cong[OF e, of malloc_lock] arg_cong[OF e, of kernel_heap] arg_cong[OF e, of task_queue] by (simp_all add: free_ok_def)
qed

lemma process_destroy_returns:
  fixes s :: "'a proc_state_scheme"
  assumes ready: "ready_list s ps" and p: "p_parent (procs s p) \<noteq> p" "p_fd_addr (procs s p) = NULL"
      "unat (p_fd_count (procs s p)) \<le> length (p_fd (procs s p))"
    and m: "\<And>v. \<not> mmu_is_mapped (p_pdt (procs s p)) v s" "bitmap_lock s = Some False" "free_ok s" "task_queue s = NULL"
  shows "\<exists>s'. process_destroy p c s = Some s'"
proof (cases "p = kernel_idle_process s")
  case True
  then show ?thesis by (simp add: process_destroy_def)
next
  case False
  define s1 where "s1 = upd_proc p (\<lambda>x. x\<lparr>p_state := PROCESS_ZOMBIE, p_exit_code := c\<rparr>) s"
  have more1: "bitmap_lock s1 = Some False" "kmem s1 = kmem s" "free_ok s1" "task_queue s1 = NULL"
    using m by (simp_all add: s1_def upd_proc_def free_ok_def)
  have "\<not> mmu_is_mapped (p_pdt (procs s1 p)) v s1" for v
  proof -
    have "mmu_is_mapped d v s1 = mmu_is_mapped d v s" for d by (simp add: mmu_is_mapped_def get_entry_def more1(2) Let_def)
    then show ?thesis using m(1)[of v] by (simp add: s1_def)
  qed
  then have f: "mmu_free_pages (p_pdt (procs s1 p)) 0 (0x300 * 1024) s1 = Some s1"
    by (simp add: mmu_free_pages_def free_unmapped)
  obtain s3 where s3: "bitmap_free_pages (p_pdt (procs s1 p)) 1 s1 = Some s3"
    using more1(1) by (simp add: bitmap_free_pages_def bitmap_acquire_def spinlock_lock_def)
  note more3 = bitmap_ops_frame(1)[OF s3]
  have p3: "procs s3 = procs s1" "ready_queue s3 = ready_queue s1" "task_queue s3 = task_queue s1"
    using more3 by (cases s1; cases s3; simp)+
  obtain x where x: "close_all (procs s3 p) = Some x" "p_fd_addr x = NULL" "p_next x = p_next (procs s p)" "p_parent x = p_parent (procs s p)"
    using p(2,3) p3(1) by (auto simp: close_all_def s1_def)
  define s4 where "s4 = upd_proc p (\<lambda>_. x) s3"
  have s4: "free (p_fd_addr x) s4 = Some s4" using x(2) by (simp add: free_def)
  have nx: "p_next (procs s4 q) = p_next (procs s q)" "p_parent (procs s4 p) = p_parent (procs s p)" for q
    using x(3,4) by (auto simp: s4_def p3(1) s1_def)
  have ch: "pq.chain (procs s4) (ready_queue s4) ps"
  proof -
    have "ready_queue s4 = ready_queue s" by (simp add: s4_def p3(2) s1_def)
    then show ?thesis using ready nx(1) unfolding ready_list_def by (subst pq.chain_cong[of _ _ "procs s"]) auto
  qed
  define s5 where "s5 = s4\<lparr>procs := reparented p ps (procs s4)\<rparr>"
  have r5: "reparent_loop p (ready_queue s4) s4 = Some s5" using reparent_chain[OF ch, of p] nx(2) p(1) by (simp add: s5_def)
  have "ready_list s5 ps" unfolding ready_list_def s5_def using ch
    by (subst pq.chain_cong[of _ _ "procs s4"]) (auto simp: reparented_def)
  then obtain s6 where s6: "process_remove_ready_queue p s5 = Some s6" "same_but_links ps s5 s6"
    using process_remove_ready_queue_list by blast
  have "free_ok s5" "task_queue s5 = NULL"
    using more1(3,4) free_ok_more[OF more3] p3(3) by (simp_all add: s5_def s4_def upd_proc_def free_ok_def)
  then have ok6: "free_ok s6" "task_queue s6 = NULL" using same_but_links_rest[OF s6(2)] by simp_all
  then have "task_remove_all_from p s6 = Some s6" by (simp add: task_remove_all_from_def task_remove_loop.simps)
  then show ?thesis using False f s3 x(1) s4 r5 s6(1) free_ok_free[OF ok6(1), of p]
    by (simp add: process_destroy_def s1_def[symmetric] s4_def[symmetric])
qed

lemma exit_state_exits: "\<exists>r' s'. syscall_exit zero_registers 5 exit_state = Some (5, r', s')"
proof -
  have ready: "ready_list exit_state [16, 32]" using exit_state_inv by (simp add: sched_inv_def)
  have z: "load32 (\<lambda>_. 0) a = 0" for a by (simp add: load32_def)
  have "\<not> mmu_is_mapped d v exit_state" for d v
    by (simp add: mmu_is_mapped_def get_entry_def exit_state_def upd_proc_def sample_state_def z entry_present_def)
  then obtain s1 where s1: "process_destroy 16 5 exit_state = Some s1"
    using process_destroy_returns[OF ready, of 16 5]
    by (auto simp: exit_state_def sample_process_def zero_process_def process_fill_sig_handlers_def upd_proc_def sample_state_def free_ok_def)
  have d: "ready_list s1 [32]" "current_process s1 = 16" "kernel_idle_process s1 = 48"
    using process_destroy_effect[OF ready _ _ s1]
    by (auto simp: exit_state_def sample_process_def zero_process_def process_fill_sig_handlers_def)
  have "p_signal (procs s1 48) = 0"
    using process_destroy_effect[OF ready _ _ s1]
    by (auto simp: exit_state_def sample_process_def zero_process_def process_fill_sig_handlers_def)
  then obtain r' s2 where s2: "process_idle zero_registers s1 = Some (r', s2)"
    using d(2,3) by (simp add: process_idle_def process_switch_def deliver_signal_def Let_def)
  have "pq.chain (procs s2) (ready_queue s2) [32]"
    using process_switch_same_ids[of 48 zero_registers s1 r' s2] s2 d same_ids_list[of s1 s2 "[32]"] by (simp add: process_idle_def ready_list_def)
  then show ?thesis using notify_chain[of s2 "ready_queue s2" "[32]" "p_pid (procs s2 16)" 5] s1 s2
    by (auto simp: syscall_exit_def process_notify_waitpid_def) (simp add: exit_state_def)
qed

theorem exit_wakes_waiters_witness:
  "\<exists>r' s'. syscall_exit zero_registers 5 exit_state = Some (5, r', s') \<and> current_process s' = 48 \<and> ready_list s' [32]
     \<and> p_waitpid (procs s' 32) = 0 \<and> \<not> p_suspended (procs s' 32) \<and> r_eax (p_r (procs s' 32)) = 1"
proof -
  obtain r' s' where e: "syscall_exit zero_registers 5 exit_state = Some (5, r', s')" using exit_state_exits by blast
  have "p_parent (procs exit_state 16) \<noteq> 16"
    by (simp add: exit_state_def sample_process_def zero_process_def process_fill_sig_handlers_def)
  from exit_wakes_waiters[OF exit_state_inv _ _ this e] show ?thesis using e by (simp add: exit_state_def)
qed

theorem exit_status_lost_witness:
  "\<exists>r' s'. syscall_exit zero_registers 5 exit_state = Some (5, r', s') \<and>
     syscall_waitpid zero_registers 1 0 (s'\<lparr>current_process := 32\<rparr>) = Some (- ESRCH, zero_registers, s'\<lparr>current_process := 32\<rparr>)"
proof -
  obtain r' s' where e: "syscall_exit zero_registers 5 exit_state = Some (5, r', s')" using exit_state_exits by blast
  have "p_parent (procs exit_state 16) \<noteq> 16"
    by (simp add: exit_state_def sample_process_def zero_process_def process_fill_sig_handlers_def)
  from exit_status_lost[OF exit_state_inv _ _ this _ e] show ?thesis using e by (simp add: exit_state_def)
qed

section \<open>Seeking\<close>

lemma uint_less_int: "uint (w :: u32) < int n \<longleftrightarrow> unat w < n"
  by (metis of_nat_less_iff of_nat_unat)

text \<open>Moving the offset of an open descriptor and moving it back restores the state, also when the offset wraps
  around on the way.\<close>

theorem lseek_there_and_back:
  assumes "open_fd fd (procs s (current_process s)) = Some (Some f)"
  shows "\<exists>s1. syscall_lseek r fd offset 1 s = Some (sint (fd_offset f + offset), r, s1)
    \<and> syscall_lseek r fd (- offset) 1 s1 = Some (sint (fd_offset f), r, s)"
proof -
  let ?p = "current_process s"
  let ?s1 = "upd_proc ?p (\<lambda>x. x\<lparr>p_fd := (p_fd x)[unat fd := f\<lparr>fd_offset := fd_offset f + offset\<rparr>]\<rparr>) s"
  have f: "fd < p_fd_count (procs s ?p)" "unat fd < length (p_fd (procs s ?p))" "f = p_fd (procs s ?p) ! unat fd" "fd_used f"
    using assms by (auto simp: open_fd_def cell_get_def uint_less_int split: if_splits bind_splits)
  have o: "open_fd fd (procs ?s1 ?p) = Some (Some (f\<lparr>fd_offset := fd_offset f + offset\<rparr>))"
    using f by (auto simp: open_fd_def cell_get_def uint_less_int)
  have "upd_proc ?p (\<lambda>x. x\<lparr>p_fd := (p_fd x)[unat fd := f]\<rparr>) ?s1 = s"
    using f(3) by (simp add: upd_proc_def)
  then show ?thesis using assms o by (auto simp: syscall_lseek_def Let_def)
qed

end
