(* ===== verification/Loader.thy ===== *)
theory Loader
  imports Syscall
begin

text \<open>
  \<^verbatim>\<open>modules/elf.h\<close>, \<^verbatim>\<open>modules/elf.c\<close> and the part of \<^verbatim>\<open>modules/process.c\<close> that replaces the program of a process
  (\<open>process_execve\<close>, in the 32-bit build), with the symbol search of \<^verbatim>\<open>debug.c\<close>. A loaded file is in the kernel heap,
  \<open>vmem\<close>; the structures are packed, so a field is read at its offset. The new program's pages, stack and
  argument pages are frames in \<open>kmem\<close>.
\<close>

section \<open>ELF structures\<close>

record elf_header_ident =
  magic :: "u8 list"
  elf_class :: u8
  endian :: u8
  ident_version :: u8
  osabi :: u8

record elf32_header =
  ident :: elf_header_ident
  elf_type :: u16
  machine :: u16
  elf_version :: u32
  entry :: u32
  program_header_offset :: u32
  section_header_offset :: u32
  elf_flags :: u32
  header_size :: u16
  program_header_size :: u16
  program_header_count :: u16
  section_header_size :: u16
  section_header_count :: u16
  section_name_index :: u16

record elf32_program_header =
  ph_type :: u32
  ph_offset :: u32
  virtual_address :: u32
  physical_address :: u32
  file_size :: u32
  memory_size :: u32
  ph_flags :: u32
  alignment :: u32

record elf32_section_header =
  sh_name :: u32
  sh_type :: u32
  sh_flags :: u32
  sh_address :: u32
  sh_offset :: u32
  sh_size :: u32
  sh_link :: u32
  sh_info :: u32
  address_align :: u32
  entry_size :: u32

record elf32_symbol_table_entry =
  sym_name :: u32
  sym_value :: u32
  sym_size :: u32
  sym_info :: u8
  sym_other :: u8
  section_index :: u16

definition ident_at :: "mem \<Rightarrow> ptr \<Rightarrow> elf_header_ident" where
  "ident_at m a = \<lparr>magic = bytes m a 4, elf_class = m (a + 4), endian = m (a + 5), ident_version = m (a + 6), osabi = m (a + 7)\<rparr>"

definition header_at :: "mem \<Rightarrow> ptr \<Rightarrow> elf32_header" where
  "header_at m a = \<lparr>ident = ident_at m a, elf_type = load16 m (a + 16), machine = load16 m (a + 18),
     elf_version = load32 m (a + 20), entry = load32 m (a + 24), program_header_offset = load32 m (a + 28),
     section_header_offset = load32 m (a + 32), elf_flags = load32 m (a + 36), header_size = load16 m (a + 40),
     program_header_size = load16 m (a + 42), program_header_count = load16 m (a + 44),
     section_header_size = load16 m (a + 46), section_header_count = load16 m (a + 48),
     section_name_index = load16 m (a + 50)\<rparr>"

definition program_header_at :: "mem \<Rightarrow> ptr \<Rightarrow> elf32_program_header" where
  "program_header_at m a = \<lparr>ph_type = load32 m a, ph_offset = load32 m (a + 4), virtual_address = load32 m (a + 8),
     physical_address = load32 m (a + 12), file_size = load32 m (a + 16), memory_size = load32 m (a + 20),
     ph_flags = load32 m (a + 24), alignment = load32 m (a + 28)\<rparr>"

definition section_header_at :: "mem \<Rightarrow> ptr \<Rightarrow> elf32_section_header" where
  "section_header_at m a = \<lparr>sh_name = load32 m a, sh_type = load32 m (a + 4), sh_flags = load32 m (a + 8),
     sh_address = load32 m (a + 12), sh_offset = load32 m (a + 16), sh_size = load32 m (a + 20), sh_link = load32 m (a + 24),
     sh_info = load32 m (a + 28), address_align = load32 m (a + 32), entry_size = load32 m (a + 36)\<rparr>"

definition symbol_at :: "mem \<Rightarrow> ptr \<Rightarrow> elf32_symbol_table_entry" where
  "symbol_at m a = \<lparr>sym_name = load32 m a, sym_value = load32 m (a + 4), sym_size = load32 m (a + 8), sym_info = m (a + 12),
     sym_other = m (a + 13), section_index = load16 m (a + 14)\<rparr>"

abbreviation (input) elf_magic :: "u8 list" where "elf_magic \<equiv> [0x7F, 69, 76, 70]"
abbreviation (input) ELF_ARCH_X86 :: u8 where "ELF_ARCH_X86 \<equiv> 1"
abbreviation (input) ELF_PT_LOAD :: u32 where "ELF_PT_LOAD \<equiv> 1"

section \<open>Sections\<close>

text \<open>\<open>i\<close> sections are left; \<open>name\<close> is a string in the same memory. In the 64-bit variant the offsets, truncated to
  the width of a pointer, are at other places and a section header takes 64 bytes.\<close>

fun find_section_loop :: "nat \<Rightarrow> u32 \<Rightarrow> mem \<Rightarrow> ptr \<Rightarrow> ptr \<Rightarrow> ptr \<Rightarrow> ptr option" where
  "find_section_loop 0 stride m names name sh = Some NULL"
| "find_section_loop (Suc i) stride m names name sh = do {
     c \<leftarrow> strcmp m (names + load32 m sh) name;
     if c = 0 then Some sh else find_section_loop i stride m names name (sh + stride) }"

definition elf32_find_section :: "mem \<Rightarrow> ptr \<Rightarrow> ptr \<Rightarrow> ptr option" where
  "elf32_find_section m hdr name =
     (let h = header_at m hdr;
          section_header = hdr + section_header_offset h;
          section_name_header = section_header + ucast (section_name_index h) * ucast (section_header_size h)
      in find_section_loop (unat (section_header_count h)) 40 m (hdr + sh_offset (section_header_at m section_name_header)) name section_header)"

definition elf64_find_section :: "mem \<Rightarrow> ptr \<Rightarrow> ptr \<Rightarrow> ptr option" where
  "elf64_find_section m hdr name =
     (let section_header = hdr + load32 m (hdr + 40);
          section_name_header = section_header + ucast (load16 m (hdr + 62)) * ucast (load16 m (hdr + 58))
      in find_section_loop (unat (load16 m (hdr + 60))) 64 m (hdr + load32 m (section_name_header + 24)) name section_header)"

text \<open>The function a code address belongs to, as \<open>callstack\<close> looks it up: of the symbols with a name, the one with the
  greatest value below \<open>eip\<close>. The loop makes as many rounds as the table has bytes.\<close>

fun symbol_loop :: "nat \<Rightarrow> mem \<Rightarrow> u32 \<Rightarrow> ptr \<Rightarrow> u32 \<Rightarrow> ptr \<Rightarrow> ptr" where
  "symbol_loop 0 m eip entry_ptr func_addr func = func"
| "symbol_loop (Suc i) m eip entry_ptr func_addr func =
     (let e = symbol_at m entry_ptr
      in if sym_name e \<noteq> 0 \<and> sym_value e > func_addr \<and> sym_value e < eip
         then symbol_loop i m eip (entry_ptr + 16) (sym_value e) entry_ptr
         else symbol_loop i m eip (entry_ptr + 16) func_addr func)"

definition callstack_symbol :: "mem \<Rightarrow> ptr \<Rightarrow> ptr \<Rightarrow> u32 \<Rightarrow> ptr" where
  "callstack_symbol m kernel_header section_symtab eip =
     (let sh = section_header_at m section_symtab
      in symbol_loop (unat (sh_size sh)) m eip (kernel_header + sh_offset sh) 0 NULL)"

section \<open>Replacing the program of a process\<close>

text \<open>\<open>pages_of\<close> is the number of pages the segment touches.\<close>

definition pages_of :: "elf32_program_header \<Rightarrow> u32" where
  "pages_of ph = (virtual_address ph + memory_size ph - 1) div BITMAP_PAGE_SIZE - virtual_address ph div BITMAP_PAGE_SIZE + 1"

fun map_segments :: "nat \<Rightarrow> ptr \<Rightarrow> ptr \<Rightarrow> ptr \<Rightarrow> 'a kernel_state_scheme \<Rightarrow> 'a kernel_state_scheme option" where
  "map_segments 0 pdt addr ph s = Some s"
| "map_segments (Suc i) pdt addr ph s = do {
     let h = program_header_at (vmem s) ph;
     s1 \<leftarrow> (if ph_type h = ELF_PT_LOAD
            then mmu_map_pages pdt (mmu_get_physical_address (addr + ph_offset h) s) (virtual_address h) (pages_of h) True True True s
            else Some s);
     map_segments i pdt addr (ph + 32) s1 }"

text \<open>The strings of a vector of the old address space are copied to one page and their new addresses, from \<open>base\<close> on,
  to another. An empty string ends the vector too. The number of strings copied is returned.\<close>

partial_function (option) copy_vector ::
  "ptr \<Rightarrow> ptr \<Rightarrow> ptr \<Rightarrow> ptr \<Rightarrow> u32 \<Rightarrow> u32 \<Rightarrow> u32 \<Rightarrow> 'a mmu_state_scheme \<Rightarrow> (u32 \<times> 'a mmu_state_scheme) option" where
  "copy_vector pdt vec table strs base argc nxt s =
     (let a = mmu_readl pdt (vec + 4 * argc) s
      in if a = 0 then Some (argc, s)
         else do {
           let s1 = s\<lparr>kmem := store32 (kmem s) (table + 4 * argc) (base + nxt)\<rparr>;
           len \<leftarrow> mmu_strlen pdt a s1;
           if len = 0 then Some (argc, s1)
           else do {
             (_, s2) \<leftarrow> mmu_strncpy pdt a (strs + nxt) len s1;
             copy_vector pdt vec table strs base (argc + 1) (nxt + len + 1) s2 } })"

text \<open>Two fresh pages at \<open>va\<close> and \<open>va + 0x1000\<close> with the copy of the vector.\<close>

definition pass_vector :: "ptr \<Rightarrow> ptr \<Rightarrow> ptr \<Rightarrow> u32 \<Rightarrow> 'a mmu_state_scheme \<Rightarrow> (u32 \<times> 'a mmu_state_scheme) option" where
  "pass_vector from_pdt new_pdt vec va s = do {
     (table, s1) \<leftarrow> bitmap_alloc_page s;
     (strs, s2) \<leftarrow> bitmap_alloc_page s1;
     s3 \<leftarrow> mmu_map_pages new_pdt table va 1 True True False s2;
     s4 \<leftarrow> mmu_map_pages new_pdt strs (va + 0x1000) 1 True True False s3;
     copy_vector from_pdt vec table strs (va + 0x1000) 0 0 (zero_page strs (zero_page table s4)) }"

text \<open>The address space of the new program: its segments, two pages of stack below the kernel, 1024 pages of heap, the
  arguments and the environment, and the kernel. The results are the directory, the stack and the argument count.\<close>

definition build_image ::
  "cpu_features \<Rightarrow> ptr \<Rightarrow> ptr \<Rightarrow> ptr \<Rightarrow> ptr \<Rightarrow> 'a kernel_state_scheme \<Rightarrow> (ptr \<times> ptr \<times> u32 \<times> 'a kernel_state_scheme) option" where
  "build_image cpuf from_pdt addr argv envp s = do {
     (pdt, s1) \<leftarrow> mmu_new_page_directory s;
     (stack, s2) \<leftarrow> bitmap_alloc_contiguous_pages 2 s1;
     let h = header_at (vmem s2) addr;
     s3 \<leftarrow> map_segments (unat (program_header_count h)) pdt addr (addr + program_header_offset h) s2;
     s4 \<leftarrow> mmu_map_pages pdt stack (0xC0000000 - 0x2000) 2 True True False s3;
     (heap, s5) \<leftarrow> bitmap_alloc_contiguous_pages 1024 s4;
     s6 \<leftarrow> mmu_map_pages pdt heap 0xC00000 1024 True True False s5;
     (argc, s7) \<leftarrow> pass_vector from_pdt pdt argv 0xB00000 s6;
     (envc, s8) \<leftarrow> pass_vector from_pdt pdt envp 0xB02000 s7;
     Some (pdt, stack, argc, mmu_copy_kernel_pages cpuf pdt s8) }"

definition start_program :: "u32 \<Rightarrow> ptr \<Rightarrow> process_t \<Rightarrow> process_t" where
  "start_program eip pdt x =
     x\<lparr>p_r := (p_r x)\<lparr>r_eip := eip, r_ebp := 0xC0000000 - 2, r_useresp := 0xC0000000 - 0x10\<rparr>, p_pdt := pdt\<rparr>"

definition push_arguments :: "ptr \<Rightarrow> u32 \<Rightarrow> 'a mmu_state_scheme \<Rightarrow> 'a mmu_state_scheme" where
  "push_arguments stack argc s =
     s\<lparr>kmem := store32 (store32 (store32 (kmem s) (stack + 4 * 2047) 0xB02000) (stack + 4 * 2046) 0xB00000) (stack + 4 * 2045) argc\<rparr>"

text \<open>\<open>vfs_stat\<close> does not set \<open>mount\<close> when it is asked for the root; then its value is undefined.\<close>

definition process_execve ::
  "bool \<Rightarrow> cpu_features \<Rightarrow> ptr \<Rightarrow> u8 list \<Rightarrow> ptr \<Rightarrow> ptr \<Rightarrow> 'a proc_state_scheme \<Rightarrow> (int \<times> 'a proc_state_scheme) option" where
  "process_execve alloc_ok cpuf p path argv envp s = do {
     (ret, mo, sto) \<leftarrow> vfs_stat alloc_ok (Some path) (vfs s);
     if ret \<noteq> 0 then Some (ret, s)
     else do {
       m \<leftarrow> mo;
       st \<leftarrow> sto;
       (addr, s1) \<leftarrow> vfs_load_file m st s;
       let h = header_at (vmem s1) addr;
       if addr = NULL then Some (- ENOMEM, s1)
       else if magic (ident h) \<noteq> elf_magic then Some (- ENOEXEC, s1)
       else if ident_version (ident h) \<noteq> ELF_ARCH_X86 then Some (- ENOEXEC, s1)
       else do {
         let old = p_pdt (procs s1 p);
         (pdt, stack, argc, s2) \<leftarrow> build_image cpuf old addr argv envp s1;
         s3 \<leftarrow> mmu_free_pages old 0 (0x300 * 1024) s2;
         s4 \<leftarrow> bitmap_free_pages old 1 s3;
         let s5 = upd_proc p (start_program (entry (header_at (vmem s4) addr)) pdt) s4;
         Some (0, push_arguments stack argc s5) } } }"

definition syscall_execve ::
  "bool \<Rightarrow> cpu_features \<Rightarrow> registers \<Rightarrow> ptr \<Rightarrow> ptr \<Rightarrow> ptr \<Rightarrow> 'a proc_state_scheme \<Rightarrow> 'a sys_result" where
  "syscall_execve alloc_ok cpuf r filename argv envp s = do {
     let p = current_process s;
     (r1, s1) \<leftarrow> syscall_sleep_proc r p s;
     n \<leftarrow> mmu_strlen (p_pdt (procs s1 p)) filename s1;
     (k, s2) \<leftarrow> malloc (n + 1) s1;
     name \<leftarrow> user_string (p_pdt (procs s2 p)) filename s2;
     if k = NULL then None
     else do {
       (ret, s3) \<leftarrow> process_execve alloc_ok cpuf p name argv envp s2;
       s4 \<leftarrow> free k s3;
       (r2, s5) \<leftarrow> syscall_wake_proc r1 p s4;
       Some (ret, r2, s5) } }"

declare copy_vector.simps [code]

end
