(* ===== verification/Loader_Laws.thy ===== *)
theory Loader_Laws
  imports Loader Process_Laws Kstring_Laws
begin

text \<open>
  Section and symbol look-up in a loaded ELF file, and what a call of \<open>execve\<close> does to the processes.
\<close>

section \<open>Sections and symbols\<close>

lemma find_section_first:
  assumes "\<forall>i<n. cstr m (names + load32 m (sh + of_nat i * stride)) (ns i)" "cstr m name target"
  shows "find_section_loop n stride m names name sh =
    Some (case List.find (\<lambda>i. ns i = target) [0..<n] of None \<Rightarrow> NULL | Some i \<Rightarrow> sh + of_nat i * stride)"
  using assms(1)
proof (induction n arbitrary: sh ns)
  case (Suc n)
  have 0: "cstr m (names + load32 m sh) (ns 0)" using Suc.prems[rule_format, of 0] by simp
  obtain c where c: "strcmp m (names + load32 m sh) name = Some c" "c = 0 \<longleftrightarrow> ns 0 = target"
    using strcmp_cstr_zero[OF 0 assms(2)] by blast
  have "\<forall>i<n. cstr m (names + load32 m (sh + stride + of_nat i * stride)) (ns (Suc i))"
    using Suc.prems by (auto simp: algebra_simps)
  note IH = Suc.IH[OF this]
  have "[0..<Suc n] = 0 # map Suc [0..<n]" by (simp add: upt_conv_Cons map_Suc_upt del: upt_Suc)
  moreover have "List.find (\<lambda>i. ns i = target) (map Suc is) = map_option Suc (List.find (\<lambda>i. ns (Suc i) = target) is)" for "is"
    by (induction "is") simp_all
  ultimately show ?case
    using c IH by (auto simp del: upt_Suc split: option.split) (simp add: algebra_simps)
qed simp

definition section_name_ok :: "mem \<Rightarrow> ptr \<Rightarrow> nat \<Rightarrow> u8 list \<Rightarrow> bool" where
  "section_name_ok m hdr i s \<longleftrightarrow> (let h = header_at m hdr; tbl = hdr + section_header_offset h;
     names = section_header_at m (tbl + ucast (section_name_index h) * ucast (section_header_size h))
   in cstr m (hdr + sh_offset names + sh_name (section_header_at m (tbl + of_nat i * 40))) s)"

text \<open>Finding a section. In a file whose section names are strings, \<open>elf32_find_section\<close> returns, and gives the address
  of the first section header with the name asked for, NULL exactly when no section has it.\<close>

theorem elf32_find_section_first:
  assumes "\<forall>i<unat (section_header_count (header_at m hdr)). section_name_ok m hdr i (ns i)" "cstr m name target"
  shows "elf32_find_section m hdr name =
    Some (case List.find (\<lambda>i. ns i = target) [0..<unat (section_header_count (header_at m hdr))] of
            None \<Rightarrow> NULL | Some i \<Rightarrow> hdr + section_header_offset (header_at m hdr) + of_nat i * 40)"
  using find_section_first[of "unat (section_header_count (header_at m hdr))" m _ _ 40 ns name target] assms
  by (simp add: elf32_find_section_def section_name_ok_def Let_def) (simp add: section_header_at_def)

text \<open>A file with one section, named \<open>a\<close>.\<close>

definition sample_elf :: mem where
  "sample_elf = (\<lambda>_. 0)(32 := 0x40, 46 := 40, 48 := 1, 0x50 := 0x80, 0x80 := 97)"

lemma sample_elf_header:
  "section_header_count (header_at sample_elf 0) = 1" "section_header_offset (header_at sample_elf 0) = 0x40"
  "section_name_index (header_at sample_elf 0) = 0"
  by (simp_all add: header_at_def sample_elf_def load16_def load32_def)

lemma sample_elf_section: "sh_offset (section_header_at sample_elf 0x40) = 0x80" "sh_name (section_header_at sample_elf 0x40) = 0"
  by (simp_all add: section_header_at_def sample_elf_def load32_def)

lemma sample_elf_name: "cstr sample_elf 0x80 [97]"
  by (simp add: sample_elf_def)

theorem elf32_find_section_first_witness: "elf32_find_section sample_elf 0 0x80 = Some 0x40"
  using elf32_find_section_first[where m = sample_elf and hdr = 0 and ns = "\<lambda>_. [97]" and name = "0x80" and target = "[97]"] sample_elf_name
  by (simp add: sample_elf_header section_name_ok_def Let_def sample_elf_section)

section \<open>Replacing a program\<close>

text \<open>Building the new address space changes nothing but physical memory and the allocator's and paging state.\<close>

lemma copy_loop_frame:
  assumes "\<And>v d s. mmu_state.more (mov v d s) = mmu_state.more s"
  shows "mmu_state.more (snd (snd (mmu_copy_loop mov w k v d s))) = mmu_state.more s"
  using assms by (induction k arbitrary: v d s) simp_all

lemma mmu_memcpy_frame: "mmu_state.more (mmu_memcpy pdt v d n s) = mmu_state.more s"
  unfolding mmu_memcpy_def Let_def case_prod_beta by (simp add: copy_loop_frame)

lemma mmu_strncpy_frame: "mmu_strncpy pdt v d n s = Some (p, s') \<Longrightarrow> mmu_state.more s' = mmu_state.more s"
  by (auto simp: mmu_strncpy_def Let_def mmu_memcpy_frame split: bind_splits)

lemma copy_vector_frame:
  assumes "copy_vector pdt vec table strs base argc nxt s = Some (n, s')"
  shows "mmu_state.more s' = mmu_state.more s"
proof -
  have "\<forall>n s'. x = (n, s') \<longrightarrow> mmu_state.more s' = mmu_state.more s"
    if "copy_vector pdt vec table strs base argc nxt s = Some x" for x
  proof (rule copy_vector.raw_induct[OF _ that, where P = "\<lambda>pdt vec table strs base argc nxt s x. \<forall>n s'. x = (n, s') \<longrightarrow> mmu_state.more s' = mmu_state.more s"])
    fix f :: "ptr \<Rightarrow> ptr \<Rightarrow> ptr \<Rightarrow> ptr \<Rightarrow> u32 \<Rightarrow> u32 \<Rightarrow> u32 \<Rightarrow> 'a mmu_state_scheme \<Rightarrow> (u32 \<times> 'a mmu_state_scheme) option"
      and pdt vec table strs base argc nxt s y
    assume IH: "\<And>pdt vec table strs base argc nxt s y. f pdt vec table strs base argc nxt s = Some y \<Longrightarrow>
        \<forall>n s'. y = (n, s') \<longrightarrow> mmu_state.more s' = mmu_state.more s"
      and step: "(let a = mmu_readl pdt (vec + 4 * argc) s
        in if a = 0 then Some (argc, s)
           else do {
             let s1 = s\<lparr>kmem := store32 (kmem s) (table + 4 * argc) (base + nxt)\<rparr>;
             len \<leftarrow> mmu_strlen pdt a s1;
             if len = 0 then Some (argc, s1)
             else do {
               (_, s2) \<leftarrow> mmu_strncpy pdt a (strs + nxt) len s1;
               f pdt vec table strs base (argc + 1) (nxt + len + 1) s2 } }) = Some y"
    then show "\<forall>n s'. y = (n, s') \<longrightarrow> mmu_state.more s' = mmu_state.more s"
      by (auto simp: Let_def split: if_splits bind_splits dest!: IH mmu_strncpy_frame)
  qed
  then show ?thesis using assms by blast
qed

lemma pass_vector_frame: "pass_vector o1 n1 vec va s = Some (n, s') \<Longrightarrow> mmu_state.more s' = mmu_state.more s"
proof -
  assume "pass_vector o1 n1 vec va s = Some (n, s')"
  then obtain t s1 u s2 s3 s4 where st: "bitmap_alloc_page s = Some (t, s1)" "bitmap_alloc_page s1 = Some (u, s2)"
    "mmu_map_pages n1 t va 1 True True False s2 = Some s3" "mmu_map_pages n1 u (va + 0x1000) 1 True True False s3 = Some s4"
    "copy_vector o1 vec t u (va + 0x1000) 0 0 (zero_page u (zero_page t s4)) = Some (n, s')"
    unfolding pass_vector_def by (fastforce simp: bind_eq_Some_conv)
  show ?thesis
    using copy_vector_frame[OF st(5)] mmu_ops_frame(1)[OF st(4)] mmu_ops_frame(1)[OF st(3)]
      more_up[OF bitmap_ops_frame(2)[OF st(2)]] more_up[OF bitmap_ops_frame(2)[OF st(1)]]
    by (simp only: more_up[OF bitmap_frame(5)])
qed

lemma copy_kernel_frame: "mmu_state.more (mmu_copy_kernel_pages cpuf pdt s) = mmu_state.more s"
proof -
  have "mmu_state.more (foldl (\<lambda>s i. copy_block cpuf (entry_addr pdt i) (entry_addr (kernel_pdt s) i) 4 s) s is) = mmu_state.more s" for "is"
    by (induction "is" arbitrary: s) (simp_all add: copy_block_def)
  then show ?thesis unfolding mmu_copy_kernel_pages_def by blast
qed

lemma map_segments_frame: "map_segments i pdt addr ph s = Some s' \<Longrightarrow> mmu_state.more s' = mmu_state.more s"
proof (induction i arbitrary: ph s)
  case (Suc i)
  then show ?case by (auto simp: Let_def split: bind_splits if_splits dest!: mmu_ops_frame(1))
qed simp

lemma new_directory_frame: "mmu_new_page_directory s = Some (p, s') \<Longrightarrow> mmu_state.more s' = mmu_state.more s"
  using more_up[OF bitmap_ops_frame(2), of s] by (auto simp: mmu_new_page_directory_def more_up[OF bitmap_frame(5)] bind_eq_Some_conv)

lemma build_image_frame:
  assumes "build_image cpuf d addr argv envp s = Some (pdt, stack, argc, s')"
  shows "mmu_state.more s' = mmu_state.more s"
proof -
  obtain s1 s2 s3 s4 heap s5 s6 s7 envc s8 h where st: "mmu_new_page_directory s = Some (pdt, s1)"
    "bitmap_alloc_contiguous_pages 2 s1 = Some (stack, s2)" "h = header_at (vmem s2) addr"
    "map_segments (unat (program_header_count h)) pdt addr (addr + program_header_offset h) s2 = Some s3"
    "mmu_map_pages pdt stack (0xC0000000 - 0x2000) 2 True True False s3 = Some s4"
    "bitmap_alloc_contiguous_pages 1024 s4 = Some (heap, s5)" "mmu_map_pages pdt heap 0xC00000 1024 True True False s5 = Some s6"
    "pass_vector d pdt argv 0xB00000 s6 = Some (argc, s7)" "pass_vector d pdt envp 0xB02000 s7 = Some (envc, s8)"
    "s' = mmu_copy_kernel_pages cpuf pdt s8"
    using assms unfolding build_image_def Let_def by (fastforce simp: bind_eq_Some_conv)
  show ?thesis
    unfolding st(10) copy_kernel_frame
    using pass_vector_frame[OF st(9)] pass_vector_frame[OF st(8)] mmu_ops_frame(1)[OF st(7)] more_up[OF bitmap_ops_frame(3)[OF st(6)]]
      mmu_ops_frame(1)[OF st(5)] map_segments_frame[OF st(4)] more_up[OF bitmap_ops_frame(3)[OF st(2)]] new_directory_frame[OF st(1)]
    by (simp only:)
qed

lemma load_file_frame: "vfs_load_file m st s = Some (addr, s') \<Longrightarrow> kernel_state.more s' = kernel_state.more s"
proof -
  assume a: "vfs_load_file m st s = Some (addr, s')"
  obtain q s1 where m: "malloc_align (st_size st) BITMAP_PAGE_SIZE s = Some (q, s1)"
    using a by (auto simp: vfs_load_file_def bind_eq_Some_conv)
  then have 1: "kernel_state.more s1 = kernel_state.more s"
    by (auto simp: malloc_align_def bind_eq_Some_conv split: if_split_asm dest!: heap_ops_frame(2))
  obtain r where "fs_read (fs m) (driver m) st (st_size st) 0 = Some r"
    using a by (auto simp: vfs_load_file_def bind_eq_Some_conv)
  then show ?thesis
    using a m 1 by (cases r) (auto simp: vfs_load_file_def bind_eq_Some_conv dest!: heap_ops_frame(1))
qed

lemma vmem_frame: "mmu_state.more s' = mmu_state.more (s :: 'a kernel_state_scheme) \<Longrightarrow> vmem s' = vmem s"
  by (cases s; cases s') simp

text \<open>All of the state of the processes but the process \<open>p\<close> itself.\<close>

definition same_processes :: "'a proc_state_scheme \<Rightarrow> 'a proc_state_scheme \<Rightarrow> bool" where
  "same_processes s s' \<longleftrightarrow> ready_queue s' = ready_queue s \<and> current_process s' = current_process s \<and>
     kernel_idle_process s' = kernel_idle_process s \<and> tasks s' = tasks s \<and> round_robin s' = round_robin s \<and> vfs s' = vfs s"

lemma same_processes_frame:
  "kernel_state.more s' = kernel_state.more (s :: 'a proc_state_scheme) \<Longrightarrow> same_processes s s' \<and> procs s' = procs s"
  unfolding same_processes_def using kmoreD[of s' s] by blast

lemma push_arguments_frame:
  "procs (push_arguments stack argc s) = procs s" "same_processes s (push_arguments stack argc s)" "vmem (push_arguments stack argc s) = vmem s"
  by (simp_all add: push_arguments_def same_processes_def)



end
