(* ===== verification/Fileio.thy ===== *)
theory Fileio
  imports Loader Stdio Disk
begin

text \<open>
  \<open>read\<close> and \<open>write\<close> of \<^verbatim>\<open>libc/stdio.c\<close> on file descriptors, and the system calls on top of them. The buffer is
  memory at a physical address. The screen shares that memory, so it is handed over to the functions that draw and
  taken back. What interrupts do to the terminals while \<open>read\<close> waits for a line is a list of changes; \<open>None\<close> means
  a fault, or that the wait does not end.
\<close>

section \<open>Memory shared with the screen\<close>

type_synonym ('a, 's) io_state = "'a proc_state_scheme \<times> 's screen_scheme"

definition lend :: "('a, 's) io_state \<Rightarrow> 's screen_scheme" where
  "lend ss = (snd ss)\<lparr>vram := kmem (fst ss)\<rparr>"

definition take_back :: "'s screen_scheme \<Rightarrow> 'a proc_state_scheme \<Rightarrow> ('a, 's) io_state" where
  "take_back sc s = (s\<lparr>kmem := vram sc\<rparr>, sc)"

definition store_bytes :: "ptr \<Rightarrow> u8 list \<Rightarrow> 'a proc_state_scheme \<Rightarrow> 'a proc_state_scheme" where
  "store_bytes p bs s = s\<lparr>kmem := put_bytes (kmem s) p bs\<rparr>"

definition set_tty :: "nat \<Rightarrow> tty_t \<Rightarrow> 'a proc_state_scheme \<Rightarrow> 'a proc_state_scheme" where
  "set_tty k t s = s\<lparr>terminals := (terminals s)\<lparr>ttys := (ttys (terminals s))[k := t]\<rparr>\<rparr>"

section \<open>Waiting for input\<close>

text \<open>\<open>while (!tty_canon_has_eol(tty)) hlt\<close>: each element of the list is what an interrupt does to the terminal.\<close>

fun wait_line :: "(tty_t \<Rightarrow> tty_t) list \<Rightarrow> tty_t \<Rightarrow> tty_t option" where
  "wait_line evs t = do {
     e \<leftarrow> tty_canon_has_eol t;
     if e then Some t else (case evs of [] \<Rightarrow> None | ev # rest \<Rightarrow> wait_line rest (ev t)) }"

fun wait_char :: "(tty_t \<Rightarrow> tty_t) list \<Rightarrow> tty_t \<Rightarrow> tty_t option" where
  "wait_char evs t =
     (if tty_chars_ready t > 0 then Some t else (case evs of [] \<Rightarrow> None | ev # rest \<Rightarrow> wait_char rest (ev t)))"

text \<open>A \<open>char\<close> is signed.\<close>

definition getchar :: "(tty_t \<Rightarrow> tty_t) list \<Rightarrow> tty_t \<Rightarrow> (int \<times> tty_t) option" where
  "getchar evs t = do {
     t1 \<leftarrow> wait_char evs t;
     (bs, t2) \<leftarrow> tty_read 1 t1;
     Some (if bs = [] then -1 else char_int (hd bs), t2) }"

section \<open>Descriptors\<close>

definition advance :: "int \<Rightarrow> file_descriptor \<Rightarrow> file_descriptor" where
  "advance ret f = (if ret > 0 then f\<lparr>fd_offset := fd_offset f + of_int ret\<rparr> else f)"

text \<open>The structure \<open>dirent\<close>: inode number, an offset that is not set, length of the record, the low byte of the mode, name.\<close>

definition put_dirent :: "ptr \<Rightarrow> u8 list \<Rightarrow> stat \<Rightarrow> 'a proc_state_scheme \<Rightarrow> 'a proc_state_scheme" where
  "put_dirent buf name st s =
     (let m1 = store32 (kmem s) buf (st_ino st);
          m2 = store16 m1 (buf + 8) (of_nat (268 - 256 + length name + 1));
          m3 = store8 m2 (buf + 10) (ucast (st_mode st))
      in s\<lparr>kmem := put_bytes m3 (buf + 11) (name @ [0])\<rparr>)"

definition read_tty :: "(tty_t \<Rightarrow> tty_t) list \<Rightarrow> nat \<Rightarrow> file_descriptor \<Rightarrow> ptr \<Rightarrow> int \<Rightarrow> ('a, 's) io_state \<Rightarrow>
    (int \<times> file_descriptor \<times> ('a, 's) io_state) option" where
  "read_tty evs k f buf count ss = do {
     t \<leftarrow> cell_get (ttys (terminals (fst ss))) (int k);
     t1 \<leftarrow> (if canon t then wait_line evs t else Some t);
     (bs, t2) \<leftarrow> tty_read count t1;
     let ret = int (length bs);
     Some (ret, advance ret f, (store_bytes buf bs (set_tty k t2 (fst ss)), snd ss)) }"

text \<open>Both directions call \<open>framebuffer_write\<close>.\<close>

definition transfer_framebuffer :: "framebuffer_t \<Rightarrow> file_descriptor \<Rightarrow> ptr \<Rightarrow> int \<Rightarrow> ('a, 's) io_state \<Rightarrow>
    int \<times> file_descriptor \<times> ('a, 's) io_state" where
  "transfer_framebuffer fbdev f buf count ss =
     (let (n, sc) = framebuffer_write fbdev buf (of_int count) (fd_offset f) (lend ss); ret = sint n
      in (ret, advance ret f, take_back sc (fst ss)))"

definition read_file :: "file_descriptor \<Rightarrow> ptr \<Rightarrow> int \<Rightarrow> ('a, 's) io_state \<Rightarrow> (int \<times> file_descriptor \<times> ('a, 's) io_state) option" where
  "read_file f buf count ss = do {
     m \<leftarrow> fd_mount f;
     r \<leftarrow> fs_read (fs m) (driver m) (fd_st f) (of_int count) (fd_offset f);
     Some (case r of
             Inl e \<Rightarrow> (e, advance e f, ss)
           | Inr bs \<Rightarrow> let ret = int (length bs) in (ret, advance ret f, (store_bytes buf bs (fst ss), snd ss))) }"

definition read_directory :: "file_descriptor \<Rightarrow> ptr \<Rightarrow> ('a, 's) io_state \<Rightarrow> (int \<times> file_descriptor \<times> ('a, 's) io_state) option" where
  "read_directory f buf ss = do {
     m \<leftarrow> fd_mount f;
     r \<leftarrow> readdir (fs m) (driver m) (fd_st f) (fd_offset f);
     Some (case r of
             Inl e \<Rightarrow> (e, f, ss)
           | Inr (name, st) \<Rightarrow> (1, f\<lparr>fd_offset := fd_offset f + 1\<rparr>, (put_dirent buf name st (fst ss), snd ss))) }"

definition stdio_read :: "(tty_t \<Rightarrow> tty_t) list \<Rightarrow> framebuffer_t \<Rightarrow> file_descriptor \<Rightarrow> ptr \<Rightarrow> int \<Rightarrow> ('a, 's) io_state \<Rightarrow>
    (int \<times> file_descriptor \<times> ('a, 's) io_state) option" where
  "stdio_read evs fbdev f buf count ss =
     (if \<not> fd_read f then Some (- EACCES, f, ss)
      else if \<not> fd_used f then Some (- EBADFD, f, ss)
      else if fd_type f = S_IFCHR \<and> fd_tty f \<noteq> None then read_tty evs (the (fd_tty f)) f buf count ss
      else if fd_type f = S_IFCHR \<and> fd_fb f then Some (transfer_framebuffer fbdev f buf count ss)
      else if fd_type f = S_IFREG then read_file f buf count ss
      else if fd_type f = S_IFDIR then read_directory f buf ss
      else Some (- EBADFD, f, ss))"

text \<open>The bytes to write are taken to lie outside the screen memory. With a negative size the loop of \<open>tty_write\<close> runs
  through all of memory.\<close>

definition write_tty :: "font \<Rightarrow> nat \<Rightarrow> file_descriptor \<Rightarrow> ptr \<Rightarrow> int \<Rightarrow> ('a, 's) io_state \<Rightarrow>
    (int \<times> file_descriptor \<times> ('a, 's) io_state) option" where
  "write_tty ascii k f buf count ss = (if count < 0 then None else do {
     t \<leftarrow> cell_get (ttys (terminals (fst ss))) (int k);
     (ret, (t1, sc)) \<leftarrow> tty_write ascii (bytes (kmem (fst ss)) buf (nat count)) (t, lend ss);
     Some (ret, advance ret f, take_back sc (set_tty k t1 (fst ss))) })"

definition stdio_write :: "font \<Rightarrow> framebuffer_t \<Rightarrow> file_descriptor \<Rightarrow> ptr \<Rightarrow> int \<Rightarrow> ('a, 's) io_state \<Rightarrow>
    (int \<times> file_descriptor \<times> ('a, 's) io_state) option" where
  "stdio_write ascii fbdev f buf count ss =
     (if \<not> fd_write f then Some (- EACCES, f, ss)
      else if \<not> fd_used f then Some (- EBADFD, f, ss)
      else if fd_type f = S_IFCHR \<and> fd_tty f \<noteq> None then write_tty ascii (the (fd_tty f)) f buf count ss
      else if fd_type f = S_IFCHR \<and> fd_fb f then Some (transfer_framebuffer fbdev f buf count ss)
      else if fd_type f = S_IFREG then do {
        m \<leftarrow> fd_mount f;
        Some (fs_write (fs m) (driver m) (fd_st f) (bytes (kmem (fst ss)) buf (unat (of_int count :: u32))) (fd_offset f), f, ss) }
      else if fd_type f = S_IFDIR then Some (- EISDIR, f, ss)
      else Some (- EBADFD, f, ss))"

section \<open>System calls\<close>

type_synonym ('a, 's) io_result = "(int \<times> registers \<times> ('a, 's) io_state) option"

text \<open>The number of the descriptor is not checked against the size of the table; behind it the access is undefined.\<close>

definition on_descriptor ::
  "(file_descriptor \<Rightarrow> ptr \<Rightarrow> ('a, 's) io_state \<Rightarrow> (int \<times> file_descriptor \<times> ('a, 's) io_state) option) \<Rightarrow>
   registers \<Rightarrow> u32 \<Rightarrow> ptr \<Rightarrow> ('a, 's) io_state \<Rightarrow> ('a, 's) io_result" where
  "on_descriptor oper r fd buf ss = do {
     let p = current_process (fst ss);
     (r1, s1) \<leftarrow> syscall_sleep_proc r p (fst ss);
     f \<leftarrow> cell_get (p_fd (procs s1 p)) (sint fd);
     (ret, f', s2, sc) \<leftarrow> oper f (mmu_get_physical_address_pdt buf (p_pdt (procs s1 p)) s1) (s1, snd ss);
     (r2, s3) \<leftarrow> syscall_wake_proc r1 p (upd_proc p (\<lambda>x. x\<lparr>p_fd := (p_fd x)[nat (sint fd) := f']\<rparr>) s2);
     Some (ret, r2, (s3, sc)) }"

definition syscall_read ::
  "(tty_t \<Rightarrow> tty_t) list \<Rightarrow> framebuffer_t \<Rightarrow> registers \<Rightarrow> u32 \<Rightarrow> ptr \<Rightarrow> u32 \<Rightarrow> ('a, 's) io_state \<Rightarrow> ('a, 's) io_result" where
  "syscall_read evs fbdev r fd buf count ss = on_descriptor (\<lambda>f a. stdio_read evs fbdev f a (sint count)) r fd buf ss"

definition syscall_write ::
  "font \<Rightarrow> framebuffer_t \<Rightarrow> registers \<Rightarrow> u32 \<Rightarrow> ptr \<Rightarrow> u32 \<Rightarrow> ('a, 's) io_state \<Rightarrow> ('a, 's) io_result" where
  "syscall_write ascii fbdev r fd buf count ss = on_descriptor (\<lambda>f a. stdio_write ascii fbdev f a (sint count)) r fd buf ss"

text \<open>\<open>panic_handler\<close> without a register frame stops the system.\<close>

definition syscall_panic :: "registers \<Rightarrow> ptr \<Rightarrow> ('a, 's) io_state \<Rightarrow> ('a, 's) io_result" where
  "syscall_panic r msg ss = None"

text \<open>What the calls depend on besides their arguments: the interrupts that come in, the devices, and whether memory
  can be allocated.\<close>

record sys_env =
  env_events :: "(tty_t \<Rightarrow> tty_t) list"
  env_font :: font
  env_fb :: framebuffer_t
  env_cpu :: cpu_features
  env_alloc :: bool

definition on_proc :: "('a proc_state_scheme \<Rightarrow> 'a sys_result) \<Rightarrow> ('a, 's) io_state \<Rightarrow> ('a, 's) io_result" where
  "on_proc h ss = map_option (\<lambda>(ret, r, s). (ret, r, (s, snd ss))) (h (fst ss))"

text \<open>The table \<open>syscalls\<close>: its entries that are not NULL, by number, with the arguments \<open>ebx\<close>, \<open>ecx\<close> and \<open>edx\<close>.\<close>

definition syscalls :: "sys_env \<Rightarrow> registers \<Rightarrow> u32 \<rightharpoonup> (('a, 's) io_state \<Rightarrow> ('a, 's) io_result)" where
  "syscalls env r =
     (let a0 = r_ebx r; a1 = r_ecx r; a2 = r_edx r
      in map_of
        [(0, syscall_read (env_events env) (env_fb env) r a0 a1 a2),
         (1, syscall_write (env_font env) (env_fb env) r a0 a1 a2),
         (2, on_proc (syscall_open (env_alloc env) r a0 a1)),
         (3, on_proc (syscall_close r a0)),
         (4, on_proc (syscall_stat (env_alloc env) r a0 a1)),
         (5, on_proc (syscall_fstat r a0 a1)),
         (6, on_proc (syscall_lstat (env_alloc env) r a0 a1)),
         (7, on_proc (syscall_poll r)),
         (8, on_proc (syscall_lseek r a0 a1 (sint a2))),
         (9, on_proc (syscall_mmap r)), (10, on_proc (syscall_mprotect r)), (11, on_proc (syscall_munmap r)), (12, on_proc (syscall_brk r)),
         (13, on_proc (syscall_signal r (sint a0) a1)),
         (34, on_proc (syscall_pause r)),
         (39, on_proc (syscall_getpid r)),
         (41, on_proc (syscall_socket r)), (42, on_proc (syscall_connect r)), (43, on_proc (syscall_accept r)),
         (48, on_proc (syscall_shutdown r)), (49, on_proc (syscall_bind r)), (50, on_proc (syscall_listen r)),
         (57, on_proc (syscall_fork (env_cpu env) r)),
         (59, on_proc (syscall_execve (env_alloc env) (env_cpu env) r a0 a1 a2)),
         (60, on_proc (syscall_exit r (sint a0))),
         (61, on_proc (syscall_waitpid r a0 a1)),
         (62, on_proc (syscall_kill r a0 (sint a1))),
         (102, on_proc (syscall_getuid r)),
         (104, on_proc (syscall_getgid r)),
         (105, on_proc (syscall_setuid r)), (106, on_proc (syscall_setgid r)),
         (107, on_proc (syscall_geteuid r)),
         (108, on_proc (syscall_getegid r)),
         (110, on_proc (syscall_getppid r)),
         (127, syscall_panic r a0)])"

definition run_syscall :: "sys_env \<Rightarrow> registers \<Rightarrow> ('a, 's) io_state \<Rightarrow> ('a, 's) io_result" where
  "run_syscall env r ss =
     (case syscalls env r (r_eax r) of None \<Rightarrow> Some (- ENOSYS, r, ss) | Some h \<Rightarrow> h ss)"

end
