(* ===== verification/Fileio_Laws.thy ===== *)
theory Fileio_Laws
  imports Fileio Process_Laws Fat_Laws Ext2_Laws Iso9660_Laws
begin

text \<open>
  What the file systems promise of \<open>read\<close>, as two interfaces, and what \<open>read\<close> and the system calls make of it: the
  buffer is respected whatever is on the disk, and consecutive reads of a file give its contents.
\<close>

section \<open>Reads stay inside the request\<close>

lemma read_file_cases:
  assumes "fd_mount f = Some m" "read_file f buf count ss = Some (ret, f', ss')"
  obtains (error) e where "fs_read (fs m) (driver m) (fd_st f) (of_int count) (fd_offset f) = Some (Inl e)"
      "ret = e" "f' = advance e f" "ss' = ss"
    | (data) bs where "fs_read (fs m) (driver m) (fd_st f) (of_int count) (fd_offset f) = Some (Inr bs)"
      "ret = int (length bs)" "f' = advance ret f" "ss' = (store_bytes buf bs (fst ss), snd ss)"
proof -
  obtain x where x: "fs_read (fs m) (driver m) (fd_st f) (of_int count) (fd_offset f) = Some x"
    using assms by (auto simp: read_file_def bind_eq_Some_conv)
  then show ?thesis using assms error data by (cases x) (auto simp: read_file_def Let_def)
qed

text \<open>A result of \<open>read\<close> that keeps to the buffer: at most \<open>count\<close> bytes, nothing else in memory changed, the offset
  advanced by what was read, and nothing changed at all after an error.\<close>

definition keeps_to_buffer :: "file_descriptor \<Rightarrow> ptr \<Rightarrow> int \<Rightarrow> ('a, 's) io_state \<Rightarrow> int \<times> file_descriptor \<times> ('a, 's) io_state \<Rightarrow> bool" where
  "keeps_to_buffer f buf count ss res = (case res of (ret, f', ss') \<Rightarrow> ret \<le> count \<and>
     (\<forall>a. nat count \<le> unat (a - buf) \<longrightarrow> kmem (fst ss') a = kmem (fst ss) a) \<and>
     (ret < 0 \<longrightarrow> f' = f \<and> ss' = ss) \<and> (0 \<le> ret \<longrightarrow> f' = f\<lparr>fd_offset := fd_offset f + of_int ret\<rparr>))"

lemma request_size: "0 \<le> count \<Longrightarrow> count < 2 ^ 31 \<Longrightarrow> unat (of_int count :: u32) = nat count"
  by (simp add: unsigned_of_int take_bit_int_eq_self)

text \<open>The function a file system installs as \<open>read\<close>: no more bytes than asked for, and negative error codes.\<close>

locale bounded_reader =
  fixes rd :: "'v \<Rightarrow> iodriver \<Rightarrow> stat \<Rightarrow> u32 \<Rightarrow> u32 \<Rightarrow> (int + u8 list) option"
  assumes within: "rd v d st count offset = Some (Inr bs) \<Longrightarrow> length bs \<le> unat count"
    and negative: "rd v d st count offset = Some (Inl e) \<Longrightarrow> e < 0"
begin

lemma read_result:
  assumes "rd v d st w offset = Some x" "unat w = nat count"
  shows "case x of Inl e \<Rightarrow> e < 0 | Inr bs \<Rightarrow> length bs \<le> nat count"
  using assms within[of v d st w offset] negative[of v d st w offset] by (cases x) auto

lemma read_file_within:
  assumes m: "fd_mount f = Some m" "fs_read (fs m) = rd v" and c: "0 \<le> count" "count < 2 ^ 31"
    and r: "read_file f buf count ss = Some (ret, f', ss')"
  shows "keeps_to_buffer f buf count ss (ret, f', ss')"
  using m(1) r
proof (cases rule: read_file_cases)
  case (error e)
  then have "e < 0" using read_result m(2) request_size[OF c] by fastforce
  then show ?thesis using error c by (simp add: advance_def keeps_to_buffer_def)
next
  case (data bs)
  then have l: "length bs \<le> nat count" using read_result m(2) request_size[OF c] by fastforce
  have "kmem (fst ss') a = kmem (fst ss) a" if "nat count \<le> unat (a - buf)" for a
    using that l data(4) by (simp add: store_bytes_def put_bytes_def)
  then show ?thesis using data(2,3) l c by (auto simp: advance_def keeps_to_buffer_def)
qed

end

lemma chunk_length:
  fixes off to_read :: u32
  assumes "len = (if off < to_read then to_read - off else to_read)"
  shows "length (slice b (unat off) (unat len) @ slice b (unat (off + len)) (unat (to_read - len))) = unat to_read"
  using assms by (auto simp: unat_sub word_less_nat_alt word_le_nat_alt)

lemma clipped_le:
  fixes offset count sz :: u32
  assumes "\<not> sz \<le> offset"
  shows "unat (if offset + count > sz then sz - offset else count) \<le> unat count"
proof (cases "unat offset + unat count < 2 ^ 32")
  case True
  then show ?thesis using clipped_count[of offset sz count] assms by (simp add: not_le)
next
  case False
  show ?thesis
  proof (cases "offset + count > sz")
    case True
    have "unat (sz - offset) = unat sz - unat offset" using assms by (simp add: unat_sub)
    then show ?thesis using False True unat_u32_less[of sz] by simp
  qed simp
qed

definition read_ok :: "u32 \<Rightarrow> int + u8 list \<Rightarrow> bool" where
  "read_ok count r \<longleftrightarrow> (case r of Inl e \<Rightarrow> e < 0 | Inr bs \<Rightarrow> length bs \<le> unat count)"

lemma read_ok_step:
  assumes "n \<le> count" "length chunk = unat n" "read_ok (count - n) r"
  shows "read_ok count (map_sum id ((@) chunk) r)"
  using assms by (cases r) (auto simp: read_ok_def unat_sub word_le_nat_alt)

lemma read_ok_mono: "read_ok n r \<Longrightarrow> unat n \<le> unat count \<Longrightarrow> read_ok count r"
  by (auto simp: read_ok_def split: sum.splits)

lemma fat_loop_within: "fat_read_loop d v offset c count = Some r \<Longrightarrow> read_ok count r"
proof (induction "unat count" arbitrary: c count r rule: less_induct)
  case less
  show ?case
  proof (cases "ucast c < invalid v \<and> count \<noteq> 0 \<and> bps v \<noteq> 0")
    case True
    show ?thesis
    proof (cases "read_sector d (data_sector v c)")
      case (Inl e)
      then show ?thesis using less.prems True by (subst (asm) fat_read_loop.simps) (auto simp: Let_def read_ok_def)
    next
      case (Inr b)
      let ?r = "min (bps v) count"
      obtain r' where r': "fat_read_loop d v offset (next_cluster v c) (count - ?r) = Some r'"
        "r = map_sum id ((@) (slice b (unat (offset mod bps v)) (unat ?r))) r'"
        using less.prems fat_read_loop_step[of c v count d b offset] True Inr by (auto simp: Let_def)
      have "0 < unat ?r" "?r \<le> count" using True by (auto simp: min_def unat_gt_0)
      moreover from this have "unat (count - ?r) < unat count" by (simp add: unat_sub word_le_nat_alt)
      ultimately show ?thesis using less.hyps[OF _ r'(1)] unfolding r'(2) by (intro read_ok_step[where n = ?r]) simp_all
    qed
  next
    case False
    then show ?thesis using less.prems by (subst (asm) fat_read_loop.simps) (auto simp: read_ok_def split: if_splits)
  qed
qed

lemma fat_read_within: "fat_read d v st count offset = Some r \<Longrightarrow> read_ok count r"
  using read_ok_mono[OF _ clipped_le[of "fe_size (st_object st)" offset count]]
  by (auto simp: fat_read_def Let_def bind_eq_Some_conv read_ok_def[of _ "Inl _"] read_ok_def[of _ "Inr []"]
      split: if_split_asm dest!: fat_loop_within)

lemma iso_loop_within: "read_ok count (iso9660_read_loop d v f offset i count)"
proof (induction "unat count" arbitrary: i count rule: less_induct)
  case less
  show ?case
  proof (cases "i < extent_size f \<and> count \<noteq> 0")
    case True
    obtain ok b where b: "iso9660_read_block d v (extent_lba f + (offset + i) div 2048) (replicate 2048 0) = (ok, b)" by force
    show ?thesis
    proof (cases ok)
      case o: True
      let ?r = "min 2048 count"
      have "0 < unat ?r" "?r \<le> count" using True by (auto simp: min_def unat_gt_0)
      moreover from this have "unat (count - ?r) < unat count" by (simp add: unat_sub word_le_nat_alt)
      moreover have "iso9660_read_loop d v f offset i count = map_sum id ((@) (slice b (unat (offset mod 2048)) (unat ?r)))
        (iso9660_read_loop d v f offset (i + 2048) (count - ?r))" using iso_loop_step[of i f count d v offset b] True b o by simp
      ultimately show ?thesis using less.hyps[of "count - ?r" "i + 2048"] by (simp only:) (intro read_ok_step[where n = ?r]; simp)
    next
      case False
      then show ?thesis using True b by (subst iso9660_read_loop.simps) (simp add: read_ok_def)
    qed
  next
    case False
    then show ?thesis by (subst iso9660_read_loop.simps) (auto simp: read_ok_def)
  qed
qed

lemma iso9660_read_within: "iso9660_read d v st count offset = Some r \<Longrightarrow> read_ok count r"
  using read_ok_mono[OF iso_loop_within clipped_le[of "extent_size (st_object st)" offset count], of d v "st_object st" offset 0]
  by (auto simp: iso9660_read_def Let_def read_ok_def[of _ "Inl _"] read_ok_def[of _ "Inr []"] split: if_split_asm)

text \<open>In the ext2 driver the bytes read and the bytes left add up to the request.\<close>

definition conserves :: "nat \<Rightarrow> int + u8 list \<times> u32 \<Rightarrow> bool" where
  "conserves n r = (case r of Inl e \<Rightarrow> e < 0 | Inr (b, c) \<Rightarrow> length b + unat c = n)"

lemma read_blocks_conserves: "conserves (unat count) (read_blocks d v offset bs count)"
proof (induction bs arbitrary: count)
  case Nil
  then show ?case by (simp add: conserves_def)
next
  case (Cons b bs)
  let ?n = "if count < block_size v then count else block_size v"
  have n: "?n \<le> count" by auto
  have u: "unat (count - ?n) = unat count - unat ?n" "unat ?n \<le> unat count" using n by (simp_all only: unat_sub word_le_nat_alt)
  show ?case
  proof (cases "count = 0 \<or> b = 0")
    case False
    show ?thesis
    proof (cases "ext2_read_block d v b")
      case None
      then show ?thesis using False by (simp add: conserves_def)
    next
      case (Some blk)
      obtain chunk where ch: "length chunk = unat ?n"
        "read_blocks d v offset (b # bs) count = map_sum id (map_prod ((@) chunk) id) (read_blocks d v offset bs (count - ?n))"
        using False Some chunk_length[OF refl, of blk "offset mod block_size v" ?n] by (simp only: read_blocks.simps Let_def if_False option.case simp_thms)
      show ?thesis
        unfolding ch(2) using Cons.IH[of "count - ?n"] u ch(1)
        by (cases "read_blocks d v offset bs (count - ?n)") (auto simp: conserves_def)
    qed
  qed (simp add: conserves_def)
qed

lemma singly_pointer_within: "read_ok count (ext2_read_singly_indirect_block_pointer d v p count offset)"
proof (cases "ext2_read_block d v p")
  case (Some block)
  let ?bs = "drop (unat (offset div block_size v div 4)) (pointers v block)"
  show ?thesis
    using read_blocks_conserves[of count d v offset ?bs] Some
    by (cases "read_blocks d v offset ?bs count") (auto simp: ext2_read_singly_indirect_block_pointer_def conserves_def read_ok_def)
qed (simp add: ext2_read_singly_indirect_block_pointer_def read_ok_def)

lemma singly_loop_conserves: "conserves (length buf + unat count) (singly_loop d v offset ps (buf, count))"
proof (induction ps arbitrary: buf count)
  case (Cons p ps)
  let ?r = "ext2_read_singly_indirect_block_pointer d v p count (rest_offset offset buf)"
  note w = singly_pointer_within[of count d v p "rest_offset offset buf"]
  show ?case
  proof (cases ?r)
    case (Inl e)
    then show ?thesis using w by (simp add: read_ok_def conserves_def)
  next
    case (Inr bs)
    then have "length bs \<le> unat count" using w by (simp add: read_ok_def)
    then have "unat (of_nat (length bs) :: u32) = length bs" using unat_u32_less[of count] by (simp add: unat_of_nat_small)
    then have "unat (count - of_nat (length bs)) + length bs = unat count"
      using \<open>length bs \<le> unat count\<close> by (simp add: unat_sub word_le_nat_alt)
    then have "length (buf @ bs) + unat (count - of_nat (length bs)) = length buf + unat count" by simp
    with Cons.IH[of "buf @ bs" "count - of_nat (length bs)"]
    have "conserves (length buf + unat count) (singly_loop d v offset ps (buf @ bs, count - of_nat (length bs)))" by (simp only:)
    then show ?thesis using Inr by (simp add: conserves_def)
  qed
qed (simp add: conserves_def)

lemma read_doubly_conserves: "conserves (length buf + unat count) (read_doubly d v offset p (buf, count))"
  using singly_loop_conserves by (auto simp: read_doubly_def conserves_def split: option.split)

lemma doubly_loop_conserves: "conserves (length buf + unat count) (doubly_loop d v offset ps (buf, count))"
proof (induction ps arbitrary: buf count)
  case (Cons p ps)
  show ?case
  proof (cases "read_doubly d v offset p (buf, count)")
    case (Inl e)
    then show ?thesis using read_doubly_conserves[of buf count d v offset p] by (simp add: conserves_def)
  next
    case (Inr s)
    then show ?thesis
      using read_doubly_conserves[of buf count d v offset p] Cons.IH[of "fst s" "snd s"] by (cases s) (simp add: conserves_def)
  qed
qed (simp add: conserves_def)

lemma read_triply_conserves: "conserves (length buf + unat count) (read_triply d v offset p (buf, count))"
  using doubly_loop_conserves by (auto simp: read_triply_def conserves_def split: option.split)

lemma level_conserves:
  assumes "conserves n r" "\<And>buf count. conserves (length buf + unat count) (f (buf, count))"
  shows "conserves n (level p f r)"
  using assms(1) assms(2)[of "fst (projr r)" "snd (projr r)"] by (auto simp: level_def conserves_def split: sum.splits)

lemma ext2_read_within: "ext2_read d v st count offset = Some r \<Longrightarrow> read_ok count r"
proof -
  assume a: "ext2_read d v st count offset = Some r"
  let ?f = "st_object st"
  let ?c = "if offset + count > in_size ?f then in_size ?f - offset else count"
  let ?x = "level (in_triply ?f) (read_triply d v offset (in_triply ?f))
    (level (in_doubly ?f) (read_doubly d v offset (in_doubly ?f))
      (level (in_singly ?f) (singly_loop d v offset [in_singly ?f])
        (read_blocks d v offset (drop (unat (offset div block_size v)) (in_direct ?f)) ?c)))"
  have "conserves (unat ?c) ?x"
    by (intro level_conserves read_blocks_conserves singly_loop_conserves read_doubly_conserves read_triply_conserves)
  then have "read_ok ?c (map_sum id fst ?x)" by (cases ?x) (auto simp: conserves_def read_ok_def)
  then have x: "\<not> in_size ?f \<le> offset \<Longrightarrow> read_ok count (map_sum id fst ?x)" by (rule read_ok_mono[OF _ clipped_le])
  consider "r = Inl (- EBADFD)" | "r = Inr []" | "\<not> in_size ?f \<le> offset" "r = map_sum id fst ?x"
    using a unfolding ext2_read_def Let_def by (auto split: if_split_asm)
  then show ?thesis using x by cases (auto simp: read_ok_def)
qed

interpretation fat_bounded: bounded_reader "\<lambda>v d st. fat_read d v st"
  by unfold_locales (auto dest!: fat_read_within simp: read_ok_def)

interpretation ext2_bounded: bounded_reader "\<lambda>v d st. ext2_read d v st"
  by unfold_locales (auto dest!: ext2_read_within simp: read_ok_def)

interpretation iso_bounded: bounded_reader "\<lambda>v d st. iso9660_read d v st"
  by unfold_locales (auto dest!: iso9660_read_within simp: read_ok_def)

section \<open>Consecutive reads\<close>

text \<open>\<open>k\<close> calls of \<open>read\<close> on a descriptor with the same buffer: what each of them leaves in the buffer.\<close>

fun read_calls :: "(tty_t \<Rightarrow> tty_t) list \<Rightarrow> framebuffer_t \<Rightarrow> ptr \<Rightarrow> int \<Rightarrow> nat \<Rightarrow> file_descriptor \<Rightarrow> ('a, 's) io_state \<Rightarrow>
    (u8 list list \<times> file_descriptor \<times> ('a, 's) io_state) option" where
  "read_calls evs fbdev buf count 0 f ss = Some ([], f, ss)"
| "read_calls evs fbdev buf count (Suc k) f ss = do {
     (ret, f1, ss1) \<leftarrow> stdio_read evs fbdev f buf count ss;
     (parts, f2, ss2) \<leftarrow> read_calls evs fbdev buf count k f1 ss1;
     Some (bytes (kmem (fst ss1)) buf (nat ret) # parts, f2, ss2) }"

definition open_file :: "mount_t \<Rightarrow> file_descriptor \<Rightarrow> bool" where
  "open_file m f \<longleftrightarrow> fd_used f \<and> fd_read f \<and> fd_type f = S_IFREG \<and> fd_mount f = Some m"

lemma stdio_read_file: "open_file m f \<Longrightarrow> stdio_read evs fbdev f buf count ss = read_file f buf count ss"
  by (simp add: stdio_read_def open_file_def)

lemma bytes_put_bytes:
  assumes "length bs < 2 ^ 32" shows "bytes (put_bytes m p bs) p (length bs) = bs"
proof (rule nth_equalityI)
  fix i assume "i < length (bytes (put_bytes m p bs) p (length bs))"
  then have "i < length bs" by simp
  moreover from this have "unat (of_nat i :: u32) = i" using assms by (simp add: unat_of_nat_small)
  ultimately show "bytes (put_bytes m p bs) p (length bs) ! i = bs ! i" by (simp add: put_bytes_def bytes_nth)
qed simp

text \<open>The contract of a file system: on the requests it serves it returns the part of the contents asked for. What the
  contents are may depend on a certificate, such as the cluster chain of the file.\<close>

locale file_reader =
  fixes rd :: "'v \<Rightarrow> iodriver \<Rightarrow> stat \<Rightarrow> u32 \<Rightarrow> u32 \<Rightarrow> (int + u8 list) option"
    and contents :: "'v \<Rightarrow> 'c \<Rightarrow> iodriver \<Rightarrow> stat \<Rightarrow> u8 list"
    and serves :: "'v \<Rightarrow> 'c \<Rightarrow> iodriver \<Rightarrow> stat \<Rightarrow> u32 \<Rightarrow> u32 \<Rightarrow> bool"
  assumes part: "serves v c d st count offset \<Longrightarrow>
    rd v d st count offset = Some (Inr (take (unat count) (drop (unat offset) (contents v c d st))))"
begin

lemma read_open_file:
  assumes f: "open_file m f" "fs_read (fs m) = rd v" "serves v c (driver m) (fd_st f) (of_int count) (of_nat pos)"
    and o: "fd_offset f = of_nat pos" "pos \<le> length X" "X = contents v c (driver m) (fd_st f)"
    and n: "0 < count" "count < 2 ^ 31" "length X + nat count < 2 ^ 32"
  shows "\<exists>ss1 ret. stdio_read evs fbdev f buf count ss = Some (ret, f\<lparr>fd_offset := of_nat (min (pos + nat count) (length X))\<rparr>, ss1) \<and>
    bytes (kmem (fst ss1)) buf (nat ret) = take (nat count) (drop pos X)"
proof -
  let ?bs = "take (nat count) (drop pos X)"
  have u: "unat (of_nat pos :: u32) = pos" using o n by (simp add: unat_of_nat_small)
  have w: "unat (of_int count :: u32) = nat count" using n by (intro request_size) simp_all
  have rd: "rd v (driver m) (fd_st f) (of_int count) (of_nat pos) = Some (Inr ?bs)"
    using part[OF f(3)] o(3) by (simp add: u w)
  have adv: "advance (int (length ?bs)) f = f\<lparr>fd_offset := of_nat (min (pos + nat count) (length X))\<rparr>"
  proof (cases "pos = length X")
    case True
    then show ?thesis using o(1) by (simp add: advance_def)
  next
    case False
    then have l: "pos + length ?bs = min (pos + nat count) (length X)" "0 < length ?bs" using o(2) n(1) by auto
    then show ?thesis using o(1) by (simp only: advance_def of_nat_0_less_iff if_True of_int_of_nat_eq of_nat_add[symmetric])
  qed
  have "stdio_read evs fbdev f buf count ss =
    Some (int (length ?bs), f\<lparr>fd_offset := of_nat (min (pos + nat count) (length X))\<rparr>, (store_bytes buf ?bs (fst ss), snd ss))"
    using f(1) unfolding stdio_read_file[OF f(1)] read_file_def adv[symmetric] by (simp add: open_file_def f(2) o(1) rd Let_def)
  moreover have "bytes (kmem (store_bytes buf ?bs (fst ss))) buf (nat (int (length ?bs))) = ?bs"
    unfolding nat_int store_bytes_def using bytes_put_bytes[of ?bs "kmem (fst ss)" buf] n(3) by simp
  ultimately show ?thesis by auto
qed

lemma consecutive_reads:
  assumes "open_file m f" "fs_read (fs m) = rd v" "X = contents v c (driver m) (fd_st f)"
    and "\<forall>j<k. serves v c (driver m) (fd_st f) (of_int count) (of_nat (min (pos + j * nat count) (length X)))"
    and "fd_offset f = of_nat pos" "pos \<le> length X" "0 < count" "count < 2 ^ 31" "length X + nat count < 2 ^ 32"
  shows "\<exists>parts ss'. read_calls evs fbdev buf count k f ss =
      Some (parts, f\<lparr>fd_offset := of_nat (min (pos + k * nat count) (length X))\<rparr>, ss') \<and>
    concat parts = take (k * nat count) (drop pos X)"
  using assms(1,3-6)
proof (induction k arbitrary: f pos ss)
  case 0
  have "f = f\<lparr>fd_offset := of_nat (min pos (length X))\<rparr>" using 0 by (simp add: min_absorb1)
  then show ?case by simp
next
  case (Suc k)
  let ?pos = "min (pos + nat count) (length X)" and ?f = "f\<lparr>fd_offset := of_nat (min (pos + nat count) (length X))\<rparr>"
  have "serves v c (driver m) (fd_st f) (of_int count) (of_nat pos)" using Suc.prems(3)[rule_format, of 0] Suc.prems(5) by (simp add: min_absorb1)
  from read_open_file[OF Suc.prems(1) assms(2) this Suc.prems(4,5,2) assms(7-9), of evs fbdev buf ss]
  obtain ss1 ret where r: "stdio_read evs fbdev f buf count ss = Some (ret, ?f, ss1)"
    "bytes (kmem (fst ss1)) buf (nat ret) = take (nat count) (drop pos X)" by blast
  have mn: "min (?pos + j * nat count) (length X) = min (pos + Suc j * nat count) (length X)" for j
    by (simp add: min_def)
  have "\<forall>j<k. serves v c (driver m) (fd_st ?f) (of_int count) (of_nat (min (?pos + j * nat count) (length X)))"
    using Suc.prems(3) unfolding mn by auto
  from Suc.IH[OF _ _ this, of ss1] obtain parts ss' where p: "read_calls evs fbdev buf count k ?f ss1 =
      Some (parts, ?f\<lparr>fd_offset := of_nat (min (?pos + k * nat count) (length X))\<rparr>, ss')"
    "concat parts = take (k * nat count) (drop ?pos X)"
    using Suc.prems(1,2) by (auto simp: open_file_def)
  have "drop ?pos X = drop (nat count) (drop pos X)" by (auto simp: min_def add.commute)
  then have "take (nat count) (drop pos X) @ concat parts = take (Suc k * nat count) (drop pos X)"
    using p(2) take_add[of "nat count" "k * nat count" "drop pos X"] by simp
  then show ?case using r p(1) unfolding mn by (simp del: drop_drop)
qed

end

text \<open>FAT, with the cluster chain as the certificate, ext2 and ISO 9660.\<close>

definition fat_contents :: "fat_fs \<Rightarrow> u16 list \<Rightarrow> iodriver \<Rightarrow> stat \<Rightarrow> u8 list" where
  "fat_contents v cs d st = take (unat (fe_size (st_object st))) (chain_bytes d v cs)"

definition fat_file :: "fat_fs \<Rightarrow> u16 list \<Rightarrow> iodriver \<Rightarrow> stat \<Rightarrow> bool" where
  "fat_file v cs d st \<longleftrightarrow> st_private st \<noteq> NULL \<and> cluster_chain v (fe_cluster (st_object st)) cs \<and> one_sector_clusters d v cs \<and>
     unat (fe_size (st_object st)) \<le> length (chain_bytes d v cs)"

definition fat_serves :: "fat_fs \<Rightarrow> u16 list \<Rightarrow> iodriver \<Rightarrow> stat \<Rightarrow> u32 \<Rightarrow> u32 \<Rightarrow> bool" where
  "fat_serves v cs d st count offset \<longleftrightarrow> fat_file v cs d st \<and>
     (fe_size (st_object st) \<le> offset \<or> unat offset + unat count < 2 ^ 32 \<and> well_placed v offset count)"

lemma fat_part:
  assumes "fat_serves v cs d st count offset"
  shows "fat_read d v st count offset = Some (Inr (take (unat count) (drop (unat offset) (fat_contents v cs d st))))"
proof (cases "fe_size (st_object st) \<le> offset")
  case True
  then show ?thesis
    using assms by (auto simp: fat_serves_def fat_file_def fat_read_def fat_contents_def word_le_nat_alt)
next
  case False
  then show ?thesis
    using assms fat_read_slice[of st v cs d offset count] by (simp add: fat_serves_def fat_file_def fat_contents_def)
qed

interpretation fat_reader: file_reader "\<lambda>v d st. fat_read d v st" fat_contents fat_serves
  by unfold_locales (rule fat_part)

definition ext2_serves :: "ext2_fs \<Rightarrow> unit \<Rightarrow> iodriver \<Rightarrow> stat \<Rightarrow> u32 \<Rightarrow> u32 \<Rightarrow> bool" where
  "ext2_serves v c d st count offset \<longleftrightarrow> healthy d v \<and> st_private st \<noteq> NULL \<and> complete d v (st_object st) \<and>
     offset mod block_size v = 0 \<and> unat offset + unat count < 2 ^ 32 \<and>
     min (unat offset + unat count) (unat (in_size (st_object st))) \<le> 12 * unat (block_size v)"

lemma ext2_part:
  assumes "ext2_serves v c d st count offset"
  shows "ext2_read d v st count offset = Some (Inr (take (unat count) (drop (unat offset) (file_bytes d v (st_object st)))))"
  using assms unfolding ext2_serves_def by (elim conjE, intro ext2_read_part) (assumption | rule refl)+

interpretation ext2_reader: file_reader "\<lambda>v d st. ext2_read d v st" "\<lambda>v c d st. file_bytes d v (st_object st)" ext2_serves
  by unfold_locales (rule ext2_part)

definition iso_stored :: "iso9660_fs \<Rightarrow> iodriver \<Rightarrow> stat \<Rightarrow> bool" where
  "iso_stored v d st \<longleftrightarrow> st_private st \<noteq> NULL \<and>
     block_drive d v (extent_lba (st_object st)) ((unat (extent_size (st_object st)) + 2047) div 2048)"

definition iso_serves :: "iso9660_fs \<Rightarrow> unit \<Rightarrow> iodriver \<Rightarrow> stat \<Rightarrow> u32 \<Rightarrow> u32 \<Rightarrow> bool" where
  "iso_serves v c d st count offset \<longleftrightarrow> iso_stored v d st \<and>
     (extent_size (st_object st) \<le> offset \<or> unat offset + unat count < 2 ^ 32 \<and> offset mod 2048 = 0)"

lemma iso_part:
  assumes "iso_serves v c d st count offset"
  shows "iso9660_read d v st count offset = Some (Inr (take (unat count) (drop (unat offset) (iso_file d v (st_object st)))))"
proof (cases "extent_size (st_object st) \<le> offset")
  case True
  then show ?thesis
    using assms by (auto simp: iso_serves_def iso_stored_def iso9660_read_def iso_file_def word_le_nat_alt)
next
  case False
  then show ?thesis
    using assms iso_read_slice[of st "st_object st" d v offset count] by (simp add: iso_serves_def iso_stored_def)
qed

interpretation iso_reader: file_reader "\<lambda>v d st. iso9660_read d v st" "\<lambda>v c d st. iso_file d v (st_object st)" iso_serves
  by unfold_locales (rule iso_part)

text \<open>Requests of whole sectors from the start of the file are all served.\<close>

lemma aligned_offset:
  fixes w :: u32
  assumes "n < 2 ^ 32" "unat w dvd n" shows "(of_nat n :: u32) mod w = 0"
proof -
  have "unat ((of_nat n :: u32) mod w) = n mod unat w" using assms(1) by (simp add: unat_mod_distrib unat_of_nat_small)
  then show ?thesis using assms(2) by (simp add: word_unat_eq_iff)
qed

lemma fat_serves_aligned:
  assumes f: "fat_file v cs d st" and n: "unat (bps v) dvd nat count" "0 < count" "count < 2 ^ 31"
    and len: "unat (fe_size (st_object st)) + nat count < 2 ^ 32"
  shows "fat_serves v cs d st (of_int count) (of_nat (min (j * nat count) (length (fat_contents v cs d st))))"
proof -
  let ?S = "unat (fe_size (st_object st))" and ?n = "min (j * nat count) (length (fat_contents v cs d st))"
  have L: "length (fat_contents v cs d st) = ?S" using f by (simp add: fat_contents_def fat_file_def)
  have n32: "?n < 2 ^ 32" using L len by simp
  then have u: "unat (of_nat ?n :: u32) = ?n" by (simp add: unat_of_nat_small)
  show ?thesis
  proof (cases "j * nat count < ?S")
    case True
    then have m: "?n = j * nat count" using L by simp
    have "(of_nat ?n :: u32) mod bps v = 0" using n(1) n32 unfolding m by (intro aligned_offset) simp_all
    moreover have "unat (of_nat ?n :: u32) + unat (of_int count :: u32) < 2 ^ 32"
      unfolding u using request_size[of count] n len L by simp
    ultimately show ?thesis using f by (simp add: fat_serves_def well_placed_def)
  next
    case False
    then have "unat (of_nat ?n :: u32) = ?S" unfolding u using L by simp
    then show ?thesis using f by (simp add: fat_serves_def word_le_nat_alt)
  qed
qed

lemma read_bounded:
  assumes "bounded_reader rd" "open_file m f" "fs_read (fs m) = rd v" "0 \<le> count" "count < 2 ^ 31"
    and "stdio_read evs fbdev f buf count ss = Some res"
  shows "keeps_to_buffer f buf count ss res"
proof -
  have "fd_mount f = Some m" using assms(2) by (simp add: open_file_def)
  then show ?thesis
    using bounded_reader.read_file_within[OF assms(1) _ assms(3-5)] assms(6) unfolding stdio_read_file[OF assms(2)] by (cases res) blast
qed

section \<open>Properties\<close>


text \<open>C22: Reading a file in parts. On an open file of a FAT volume with one sector per cluster, calls of \<open>read\<close> from the
  start of the file, each for the same whole number of sectors, return the file piece by piece: the pieces put together
  are the beginning of the file, and the whole file once enough calls were made; the offset then is its size.\<close>

theorem fat_file_read_in_parts:
  assumes "open_file m f" "fs m = fat_filesystem v p" "fat_file v cs (driver m) (fd_st f)" "fd_offset f = 0"
    and "unat (bps v) dvd nat count" "0 < count" "count < 2 ^ 31" "unat (fe_size (st_object (fd_st f))) + nat count < 2 ^ 32"
  shows "\<exists>parts ss'. read_calls evs fbdev buf count k f ss =
      Some (parts, f\<lparr>fd_offset := of_nat (min (k * nat count) (unat (fe_size (st_object (fd_st f)))))\<rparr>, ss') \<and>
    concat parts = take (k * nat count) (fat_contents v cs (driver m) (fd_st f))"
proof -
  have L: "length (fat_contents v cs (driver m) (fd_st f)) = unat (fe_size (st_object (fd_st f)))"
    using assms(3) by (simp add: fat_contents_def fat_file_def)
  show ?thesis
    using fat_reader.consecutive_reads[of m f v "fat_contents v cs (driver m) (fd_st f)" cs k count 0 evs fbdev buf ss]
      fat_serves_aligned[OF assms(3,5-8)] assms L by (simp add: fat_filesystem_def)
qed

lemma cell_get_unat: "unat w < length xs \<Longrightarrow> cell_get xs (uint w) = Some (xs ! unat w)"
  by (simp add: cell_get_def unsigned_greater_eq nat_less_iff[symmetric] flip: unat_eq_nat_uint)

lemma syscall_table:
  "syscalls env r 3 = Some (on_proc (syscall_close r (r_ebx r)))"
  "syscalls env r 5 = Some (on_proc (syscall_fstat r (r_ebx r) (r_ecx r)))"
  "syscalls env r 8 = Some (on_proc (syscall_lseek r (r_ebx r) (r_ecx r) (sint (r_edx r))))"
  by (simp_all add: syscalls_def Let_def)

text \<open>C25: Bad descriptors are rejected. The system calls \<open>close\<close>, \<open>fstat\<close> and \<open>lseek\<close> on a number that is not that of an
  open descriptor return \<open>-EBADFD\<close> and leave registers, process, memory and screen as they were.\<close>

theorem bad_descriptor_rejected:
  assumes "r_eax r = 3 \<or> r_eax r = 5 \<or> r_eax r = 8" and "x = procs (fst ss) (current_process (fst ss))"
    and "unat (p_fd_count x) \<le> length (p_fd x)" "p_fd_count x \<le> r_ebx r \<or> \<not> fd_used (p_fd x ! unat (r_ebx r))"
  shows "run_syscall env r ss = Some (- EBADFD, r, ss)"
proof -
  have c: "cell_get (p_fd x) (uint (r_ebx r)) = Some (p_fd x ! unat (r_ebx r))" if "\<not> p_fd_count x \<le> r_ebx r"
    using that assms(3) by (intro cell_get_unat) (simp add: word_le_nat_alt)
  have "open_fd (r_ebx r) x = Some None" using c assms(4) by (auto simp: open_fd_def)
  moreover have "process_close_file (current_process (fst ss)) (r_ebx r) (fst ss) = Some (- EBADFD, fst ss)"
    using assms(2-4) by (auto simp: process_close_file_def Let_def word_le_nat_alt word_less_nat_alt)
  ultimately have "syscall_close r (r_ebx r) (fst ss) = Some (- EBADFD, r, fst ss)"
    "syscall_fstat r (r_ebx r) b (fst ss) = Some (- EBADFD, r, fst ss)" "syscall_lseek r (r_ebx r) b w (fst ss) = Some (- EBADFD, r, fst ss)" for b w
    using assms(2) by (simp_all add: syscall_close_def syscall_fstat_def syscall_lseek_def)
  then show ?thesis using assms(1) by (auto simp: run_syscall_def syscall_table on_proc_def)
qed


text \<open>An open file on the sample volumes.\<close>

definition sample_fd :: "filesystem \<Rightarrow> iodriver \<Rightarrow> stat \<Rightarrow> file_descriptor" where
  "sample_fd g d st = zero_fd\<lparr>fd_used := True, fd_read := True, fd_type := S_IFREG, fd_st := st,
     fd_mount := Some \<lparr>driver = d, fs = g, rootdir_name = [], rootdir_st = zero_stat, ino = 0\<rparr>\<rparr>"

definition sample_chain_fat :: fat_fs where "sample_chain_fat = sample_fat FS_FAT12 [0xFF0, 0xFFF, 3, 5, 4, 0xFFF]"

definition sample_fat_stat :: stat where "sample_fat_stat = zero_stat\<lparr>st_private := 1, st_object := sample_entry 0x20 2 10\<rparr>"

lemma sample_fat_entry: "fe_cluster (st_object sample_fat_stat) = 2" "fe_size (st_object sample_fat_stat) = 10"
  by (simp_all add: sample_fat_stat_def fe_cluster_def fe_size_def sample_entry_def le16_def le32_def nth_append)

lemma sample_fat_file: "fat_file sample_chain_fat [2, 3, 5] Fat_Laws.sample_disk sample_fat_stat"
  unfolding fat_file_def sample_fat_entry sample_chain_fat_def
  using sample_fat_chain sample_one_sector sample_chain_bytes by (simp add: sample_fat_stat_def del: cluster_chain.simps chain_bytes_simps)

lemma sample_open: "open_file (the (fd_mount (sample_fd g d st))) (sample_fd g d st)" "fd_st (sample_fd g d st) = st"
  "fd_offset (sample_fd g d st) = 0" "fs (the (fd_mount (sample_fd g d st))) = g" "driver (the (fd_mount (sample_fd g d st))) = d"
  by (simp_all add: open_file_def sample_fd_def zero_fd_def)

definition sample_io_state :: "(unit, unit) io_state" where
  "sample_io_state = (sample_state, \<lparr>cpu = \<lparr>feat_sse = False, feat_mmx = False\<rparr>, vram = (\<lambda>_. 0), caret = 0\<rparr>)"

theorem fat_file_read_in_parts_witness:
  "\<exists>parts f' ss'. read_calls [] fb0 0x1000 8 2 (sample_fd (fat_filesystem sample_chain_fat 1) Fat_Laws.sample_disk sample_fat_stat) sample_io_state
      = Some (parts, f', ss') \<and> concat parts = [48, 49, 50, 51, 64, 65, 66, 67, 96, 97]"
proof -
  let ?f = "sample_fd (fat_filesystem sample_chain_fat 1) Fat_Laws.sample_disk sample_fat_stat"
  have "fat_contents sample_chain_fat [2, 3, 5] Fat_Laws.sample_disk sample_fat_stat = [48, 49, 50, 51, 64, 65, 66, 67, 96, 97]"
    unfolding fat_contents_def sample_fat_entry sample_chain_fat_def sample_chain_bytes by simp
  moreover have "bps sample_chain_fat = 4" by (simp add: sample_chain_fat_def sample_fat_bps)
  ultimately show ?thesis
    using fat_file_read_in_parts[where m = "the (fd_mount ?f)" and v = sample_chain_fat and p = 1 and f = ?f and cs = "[2, 3, 5]" and count = 8
        and evs = "[]" and fbdev = fb0 and buf = "0x1000" and k = 2 and ss = sample_io_state]
    by (auto simp: sample_open sample_fat_file sample_fat_entry)
qed


theorem bad_descriptor_rejected_witness:
  "run_syscall \<lparr>env_events = [], env_font = (\<lambda>_ _. 0), env_fb = fb0, env_cpu = \<lparr>feat_sse = False, feat_mmx = False\<rparr>, env_alloc = True\<rparr>
     (zero_registers\<lparr>r_eax := 3, r_ebx := 7\<rparr>) sample_io_state = Some (- EBADFD, zero_registers\<lparr>r_eax := 3, r_ebx := 7\<rparr>, sample_io_state)"
  by (rule bad_descriptor_rejected[OF _ refl]) (simp_all add: sample_io_state_def zero_process_def)

lemma sample_iso_entry: "\<exists>name st. iso9660_readdir sample_iso_disk sample_iso 1 (sample_iso_stat 20 2048) 2 = Some (Inr (name, st))"
proof -
  let ?rs = "iso_records (iso_item_at 20 2048 True [46]) (iso_item_at 20 2048 True [46]) [iso_item_at 21 3 False [65]]"
  have "iso_block sample_iso_disk sample_iso (extent_lba (st_object (sample_iso_stat 20 2048))) = concat ?rs @ replicate 1942 0"
    by (simp add: sample_iso_stat_extent iso_block_def sector_bytes_def sample_iso_disk_def sample_iso_def sample_iso_dir_def)
  moreover have "\<forall>r\<in>set ?rs. well_formed_record r \<and> 34 \<le> length r \<and> 33 + unat (r ! 32) \<le> length r"
    by (rule iso_records_room) (simp add: iso_name_ok_def iso_item_at_def)
  moreover have "length ?rs = 3" by (simp add: iso_records_def)
  ultimately show ?thesis
    using readdir_records[of "sample_iso_stat 20 2048" sample_iso_disk sample_iso ?rs 1942 2 1] sample_iso_drive
    by (simp add: sample_iso_stat_extent iso_answer_def)
qed


end
