(* ===== verification/Ports.thy ===== *)
theory Ports
  imports Process
begin

text \<open>
  Port input and output, \<^verbatim>\<open>kernel/bits.c\<close>. The devices behind the ports are not part of the program: they are a
  state of any type \<^typ>\<open>'d\<close> and the record of the effects that the processor's \<open>in\<close> and \<open>out\<close> instructions have on
  it. A driver is verified for every such record that behaves as the device's documentation says.
\<close>

record 'd ports =
  port_in8 :: "u16 \<Rightarrow> 'd \<Rightarrow> u8 \<times> 'd"
  port_in16 :: "u16 \<Rightarrow> 'd \<Rightarrow> u16 \<times> 'd"
  port_in32 :: "u16 \<Rightarrow> 'd \<Rightarrow> u32 \<times> 'd"
  port_out8 :: "u16 \<Rightarrow> u8 \<Rightarrow> 'd \<Rightarrow> 'd"
  port_out16 :: "u16 \<Rightarrow> u16 \<Rightarrow> 'd \<Rightarrow> 'd"
  port_out32 :: "u16 \<Rightarrow> u32 \<Rightarrow> 'd \<Rightarrow> 'd"

text \<open>The state of the kernel together with the devices and the clock of \<^verbatim>\<open>modules/timer.c\<close>. Interrupts are taken while
  the processor waits in a \<open>hlt\<close> instruction: what they do to the state until it goes on is an argument, of the operations that wait.\<close>

record 'd machine = proc_state +
  dev :: 'd
  timer_ticks :: u32

definition on_dev :: "('d \<Rightarrow> 'x \<times> 'd) \<Rightarrow> ('d, 'z) machine_scheme \<Rightarrow> 'x \<times> ('d, 'z) machine_scheme" where
  "on_dev f s = (let (x, d) = f (dev s) in (x, s\<lparr>dev := d\<rparr>))"

definition to_dev :: "('d \<Rightarrow> 'd) \<Rightarrow> ('d, 'z) machine_scheme \<Rightarrow> ('d, 'z) machine_scheme" where
  "to_dev f s = s\<lparr>dev := f (dev s)\<rparr>"

section \<open>Single accesses\<close>

definition outb :: "'d ports \<Rightarrow> u16 \<Rightarrow> u8 \<Rightarrow> 'd \<Rightarrow> 'd" where
  "outb io addr val d = port_out8 io addr val d"

definition inb :: "'d ports \<Rightarrow> u16 \<Rightarrow> 'd \<Rightarrow> u8 \<times> 'd" where
  "inb io addr d = port_in8 io addr d"

definition outw :: "'d ports \<Rightarrow> u16 \<Rightarrow> u16 \<Rightarrow> 'd \<Rightarrow> 'd" where
  "outw io addr val d = port_out16 io addr val d"

definition inw :: "'d ports \<Rightarrow> u16 \<Rightarrow> 'd \<Rightarrow> u16 \<times> 'd" where
  "inw io addr d = port_in16 io addr d"

definition outl :: "'d ports \<Rightarrow> u16 \<Rightarrow> u32 \<Rightarrow> 'd \<Rightarrow> 'd" where
  "outl io addr val d = port_out32 io addr val d"

definition inl :: "'d ports \<Rightarrow> u16 \<Rightarrow> 'd \<Rightarrow> u32 \<times> 'd" where
  "inl io addr d = port_in32 io addr d"

definition io_wait :: "'d ports \<Rightarrow> 'd \<Rightarrow> 'd" where
  "io_wait io d = port_out8 io 0x80 0 d"

section \<open>Blocks\<close>

text \<open>The \<open>rep\<close> prefixed string instructions repeat \<open>size\<close> times and advance the address by the size of an item.\<close>

fun insb :: "'d ports \<Rightarrow> u16 \<Rightarrow> ptr \<Rightarrow> nat \<Rightarrow> mem \<Rightarrow> 'd \<Rightarrow> mem \<times> 'd" where
  "insb io addr buffer 0 m d = (m, d)"
| "insb io addr buffer (Suc n) m d =
     (let (v, d1) = port_in8 io addr d in insb io addr (buffer + 1) n (store8 m buffer v) d1)"

fun outsb :: "'d ports \<Rightarrow> u16 \<Rightarrow> ptr \<Rightarrow> nat \<Rightarrow> mem \<Rightarrow> 'd \<Rightarrow> 'd" where
  "outsb io addr buffer 0 m d = d"
| "outsb io addr buffer (Suc n) m d = outsb io addr (buffer + 1) n m (port_out8 io addr (m buffer) d)"

fun insw :: "'d ports \<Rightarrow> u16 \<Rightarrow> ptr \<Rightarrow> nat \<Rightarrow> mem \<Rightarrow> 'd \<Rightarrow> mem \<times> 'd" where
  "insw io addr buffer 0 m d = (m, d)"
| "insw io addr buffer (Suc n) m d =
     (let (v, d1) = port_in16 io addr d in insw io addr (buffer + 2) n (store16 m buffer v) d1)"

fun outsw :: "'d ports \<Rightarrow> u16 \<Rightarrow> ptr \<Rightarrow> nat \<Rightarrow> mem \<Rightarrow> 'd \<Rightarrow> 'd" where
  "outsw io addr buffer 0 m d = d"
| "outsw io addr buffer (Suc n) m d = outsw io addr (buffer + 2) n m (port_out16 io addr (load16 m buffer) d)"

fun insl :: "'d ports \<Rightarrow> u16 \<Rightarrow> ptr \<Rightarrow> nat \<Rightarrow> mem \<Rightarrow> 'd \<Rightarrow> mem \<times> 'd" where
  "insl io addr buffer 0 m d = (m, d)"
| "insl io addr buffer (Suc n) m d =
     (let (v, d1) = inl io addr d in insl io addr (buffer + 4) n (store32 m buffer v) d1)"

section \<open>Repeated operations that may fail\<close>

primrec each :: "('x \<Rightarrow> 's \<Rightarrow> 's option) \<Rightarrow> 'x list \<Rightarrow> 's \<Rightarrow> 's option" where
  "each f [] s = Some s"
| "each f (x # xs) s = Option.bind (f x s) (each f xs)"

lemma each_append: "each f (xs @ ys) s = Option.bind (each f xs s) (each f ys)"
  by (induction xs arbitrary: s) (auto split: bind_splits)

lemma each_concat: "each (\<lambda>x. each f (g x)) xs s = each f (concat (map g xs)) s"
  by (induction xs arbitrary: s) (auto simp: each_append split: bind_splits)

lemma each_mono [partial_function_mono]:
  assumes "\<And>x s. mono_option (\<lambda>f. B f x s)"
  shows "mono_option (\<lambda>f. each (B f) xs s)"
proof (induction xs arbitrary: s)
  case Nil
  show ?case by (simp add: option.const_mono)
next
  case (Cons x xs)
  then show ?case by (simp add: bind_mono assms)
qed

end
