(* ===== verification/Pci.thy ===== *)
theory Pci
  imports Ports Disk
begin

text \<open>
  The PCI bus, \<^verbatim>\<open>drivers/pci.c\<close>: access to the configuration space through two ports, the addresses of a device's
  base address registers, and the enumeration that starts a driver for every function that is found.
\<close>

abbreviation (input) PCI_BASE_ADDRESS :: u32 where "PCI_BASE_ADDRESS \<equiv> 0x80000000"
abbreviation (input) PCI_CONFIG_ADDRESS :: u16 where "PCI_CONFIG_ADDRESS \<equiv> 0xCF8"
abbreviation (input) PCI_CONFIG_DATA :: u16 where "PCI_CONFIG_DATA \<equiv> 0xCFC"

section \<open>Structures\<close>

text \<open>Both are packed: a structure is read from its bytes. The bit fields are kept as the bytes and words that hold
  them.\<close>

record pci_header =
  ph_vendor :: u16
  ph_device :: u16
  ph_command :: u16
  ph_status :: u16
  ph_revision :: u8
  ph_prog_if :: u8
  ph_subclass :: u8
  ph_class :: u8
  ph_cache_line_size :: u8
  ph_latency_timer :: u8
  ph_header_type :: u8
  ph_bist :: u8

definition pci_header_of :: "u8 list \<Rightarrow> pci_header" where
  "pci_header_of bs = \<lparr>ph_vendor = le16 bs 0, ph_device = le16 bs 2, ph_command = le16 bs 4, ph_status = le16 bs 6,
     ph_revision = bs ! 8, ph_prog_if = bs ! 9, ph_subclass = bs ! 10, ph_class = bs ! 11, ph_cache_line_size = bs ! 12,
     ph_latency_timer = bs ! 13, ph_header_type = bs ! 14, ph_bist = bs ! 15\<rparr>"

definition header_kind :: "pci_header \<Rightarrow> u8" where
  "header_kind h = ph_header_type h AND 0x7F"

definition multi_func :: "pci_header \<Rightarrow> bool" where
  "multi_func h \<longleftrightarrow> bit (ph_header_type h) 7"

record pci_device =
  pd_header :: pci_header
  base_address :: "u32 list"
  cardbus_cis :: u32
  subsystem_vendor :: u16
  subsystem_device :: u16
  rom_base_address :: u32
  capabilities_pointer :: u8
  interrupt_line :: u8
  interrupt_pin :: u8
  min_grant :: u8
  max_latency :: u8

definition pci_device_of :: "u8 list \<Rightarrow> pci_device" where
  "pci_device_of bs = \<lparr>pd_header = pci_header_of bs, base_address = map (\<lambda>i. le32 bs (16 + 4 * i)) [0..<6],
     cardbus_cis = le32 bs 40, subsystem_vendor = le16 bs 44, subsystem_device = le16 bs 46, rom_base_address = le32 bs 48,
     capabilities_pointer = bs ! 52, interrupt_line = bs ! 60, interrupt_pin = bs ! 61, min_grant = bs ! 62,
     max_latency = bs ! 63\<rparr>"

section \<open>Configuration space\<close>

definition pci_config_address :: "u8 \<Rightarrow> u8 \<Rightarrow> u8 \<Rightarrow> u16 \<Rightarrow> u32" where
  "pci_config_address bus slot func offset =
     PCI_BASE_ADDRESS OR push_bit 16 (ucast bus) OR push_bit 11 (ucast slot) OR push_bit 8 (ucast func)
       OR (ucast offset AND 0xFC)"

definition pci_read_byte :: "'d ports \<Rightarrow> u8 \<Rightarrow> u8 \<Rightarrow> u8 \<Rightarrow> u16 \<Rightarrow> 'd \<Rightarrow> u8 \<times> 'd" where
  "pci_read_byte io bus slot func offset d =
     (let d1 = outl io PCI_CONFIG_ADDRESS (pci_config_address bus slot func offset) d;
          (v, d2) = inl io PCI_CONFIG_DATA d1
      in (ucast (drop_bit (unat (offset AND 2) * 8) v) AND 0xFF, d2))"

definition pci_read_word :: "'d ports \<Rightarrow> u8 \<Rightarrow> u8 \<Rightarrow> u8 \<Rightarrow> u16 \<Rightarrow> 'd \<Rightarrow> u16 \<times> 'd" where
  "pci_read_word io bus slot func offset d =
     (let d1 = outl io PCI_CONFIG_ADDRESS (pci_config_address bus slot func offset) d;
          (v, d2) = inl io PCI_CONFIG_DATA d1
      in (ucast (drop_bit (unat (offset AND 2) * 8) v) AND 0xFFFF, d2))"

definition pci_write_byte :: "'d ports \<Rightarrow> u8 \<Rightarrow> u8 \<Rightarrow> u8 \<Rightarrow> u16 \<Rightarrow> u8 \<Rightarrow> 'd \<Rightarrow> 'd" where
  "pci_write_byte io bus slot func offset val d =
     outl io PCI_CONFIG_DATA (ucast val) (outl io PCI_CONFIG_ADDRESS (pci_config_address bus slot func offset) d)"

definition pci_write_word :: "'d ports \<Rightarrow> u8 \<Rightarrow> u8 \<Rightarrow> u8 \<Rightarrow> u16 \<Rightarrow> u16 \<Rightarrow> 'd \<Rightarrow> 'd" where
  "pci_write_word io bus slot func offset val d =
     outl io PCI_CONFIG_DATA (ucast val) (outl io PCI_CONFIG_ADDRESS (pci_config_address bus slot func offset) d)"

text \<open>The loops of the four readers: the words at the offsets, in the order of memory.\<close>

fun read_words :: "'d ports \<Rightarrow> u8 \<Rightarrow> u8 \<Rightarrow> u8 \<Rightarrow> nat list \<Rightarrow> 'd \<Rightarrow> u8 list \<times> 'd" where
  "read_words io bus slot func [] d = ([], d)"
| "read_words io bus slot func (i # is) d =
     (let (v, d1) = pci_read_word io bus slot func (of_nat i) d;
          (bs, d2) = read_words io bus slot func is d1
      in (ucast v # ucast (drop_bit 8 v) # bs, d2))"

definition even_offsets :: "nat \<Rightarrow> nat \<Rightarrow> nat list" where
  "even_offsets a b = map (\<lambda>k. a + 2 * k) [0..<(b - a) div 2]"

definition pci_read_header :: "'d ports \<Rightarrow> u8 \<Rightarrow> u8 \<Rightarrow> u8 \<Rightarrow> 'd \<Rightarrow> u8 list \<times> 'd" where
  "pci_read_header io bus slot func d = read_words io bus slot func (even_offsets 0 16) d"

definition pci_read_device :: "'d ports \<Rightarrow> u8 \<Rightarrow> u8 \<Rightarrow> u8 \<Rightarrow> u8 list \<Rightarrow> 'd \<Rightarrow> u8 list \<times> 'd" where
  "pci_read_device io bus slot func header d =
     (let (bs, d1) = read_words io bus slot func (even_offsets 16 64) d in (header @ bs, d1))"

definition pci_read_pci_bridge :: "'d ports \<Rightarrow> u8 \<Rightarrow> u8 \<Rightarrow> u8 \<Rightarrow> u8 list \<Rightarrow> 'd \<Rightarrow> u8 list \<times> 'd" where
  "pci_read_pci_bridge io bus slot func header d =
     (let (bs, d1) = read_words io bus slot func (even_offsets 16 64) d in (header @ bs, d1))"

definition pci_read_cardbus_bridge :: "'d ports \<Rightarrow> u8 \<Rightarrow> u8 \<Rightarrow> u8 \<Rightarrow> u8 list \<Rightarrow> 'd \<Rightarrow> u8 list \<times> 'd" where
  "pci_read_cardbus_bridge io bus slot func header d =
     (let (bs, d1) = read_words io bus slot func (even_offsets 16 72) d in (header @ bs, d1))"

text \<open>\<open>secondary_bus\<close> of the structure \<open>pci_pci_bridge\<close>.\<close>

definition secondary_bus :: "u8 list \<Rightarrow> u8" where
  "secondary_bus bs = bs ! 25"

section \<open>Base address registers\<close>

text \<open>\<open>(bar[i] > 1) & 0x2\<close>: the comparison gives 0 or 1.\<close>

definition bar_value :: "u32 list \<Rightarrow> nat \<Rightarrow> u64" where
  "bar_value bar i =
     (if \<not> ISSET_BIT (bar ! i) 0
      then let kind = (if bar ! i > 1 then 1 else 0) AND (0x2 :: u32)
           in if kind = 0 then ucast (bar ! i AND 0xFFFFFFF0)
              else if kind = 2
              then ucast (bar ! i AND 0xFFFFFFF0) OR push_bit 32 (ucast (bar ! (i + 1) AND 0xFFFFFFF0))
              else 0
      else ucast (bar ! i AND 0xFFFFFFFC))"

definition pci_get_bar_address :: "u32 list \<Rightarrow> nat \<Rightarrow> 'a mmu_state_scheme \<Rightarrow> (u64 \<times> 'a mmu_state_scheme) option" where
  "pci_get_bar_address bar i s = do {
     let ret = bar_value bar i;
     s1 \<leftarrow> mmu_map_pages (current_pdt s) (ucast ret) (ucast ret) 8 True False True s;
     Some (ret, s1) }"

section \<open>Enumeration\<close>

text \<open>The drivers that the enumeration starts. \<open>usb_init\<close> prints only.\<close>

record 's pci_drivers =
  drv_ata_init :: "pci_device \<Rightarrow> u8 \<Rightarrow> u8 \<Rightarrow> u8 \<Rightarrow> 's \<Rightarrow> 's option"
  drv_floppy_init :: "pci_device \<Rightarrow> u8 \<Rightarrow> u8 \<Rightarrow> u8 \<Rightarrow> 's \<Rightarrow> 's option"
  drv_ethernet_init :: "pci_device \<Rightarrow> u8 \<Rightarrow> u8 \<Rightarrow> u8 \<Rightarrow> 's \<Rightarrow> 's option"

definition pci_device_found ::
  "'d ports \<Rightarrow> ('d, 'z) machine_scheme pci_drivers \<Rightarrow> u8 \<Rightarrow> u8 \<Rightarrow> u8 \<Rightarrow> u8 list \<Rightarrow> ('d, 'z) machine_scheme
     \<Rightarrow> ('d, 'z) machine_scheme option" where
  "pci_device_found io drv bus slot func header s =
     (let h = pci_header_of header
      in if header_kind h = 0
         then let (bs, s1) = on_dev (pci_read_device io bus slot func header) s;
                  device = pci_device_of bs
              in if ph_class h = 1 \<and> ph_subclass h = 1 then drv_ata_init drv device bus slot func s1
                 else if ph_class h = 1 \<and> ph_subclass h = 2 then drv_floppy_init drv device bus slot func s1
                 else if ph_class h = 2 \<and> ph_subclass h = 0 then drv_ethernet_init drv device bus slot func s1
                 else Some s1
         else Some s)"

text \<open>\<open>pci_check_function\<close>, \<open>pci_check_device\<close> and \<open>pci_check_bus\<close> call one another: the first two take the recursive
  call as an argument. Every caller passes the header.\<close>

definition pci_check_function ::
  "(u8 \<Rightarrow> ('d, 'z) machine_scheme \<Rightarrow> ('d, 'z) machine_scheme option) \<Rightarrow> 'd ports \<Rightarrow> u8 \<Rightarrow> u8 \<Rightarrow> u8 \<Rightarrow> u8 list \<Rightarrow> ('d, 'z) machine_scheme \<Rightarrow> ('d, 'z) machine_scheme option" where
  "pci_check_function check_bus io bus slot func header s =
     (if ph_class (pci_header_of header) = 6 \<and> ph_subclass (pci_header_of header) = 4
      then let (bridge, s1) = on_dev (pci_read_pci_bridge io bus slot func header) s
           in check_bus (secondary_bus bridge) s1
      else Some s)"

definition check_other_function ::
  "(u8 \<Rightarrow> ('d, 'z) machine_scheme \<Rightarrow> ('d, 'z) machine_scheme option) \<Rightarrow> 'd ports \<Rightarrow> ('d, 'z) machine_scheme pci_drivers \<Rightarrow> u8 \<Rightarrow> u8 \<Rightarrow> u8 \<Rightarrow> ('d, 'z) machine_scheme \<Rightarrow> ('d, 'z) machine_scheme option" where
  "check_other_function check_bus io drv bus slot func s =
     (let (header, s1) = on_dev (pci_read_header io bus slot func) s
      in if ph_vendor (pci_header_of header) \<noteq> 0xFFFF
         then do { s2 \<leftarrow> pci_device_found io drv bus slot func header s1;
                   pci_check_function check_bus io bus slot func header s2 }
         else Some s1)"

definition pci_check_device ::
  "(u8 \<Rightarrow> ('d, 'z) machine_scheme \<Rightarrow> ('d, 'z) machine_scheme option) \<Rightarrow> 'd ports \<Rightarrow> ('d, 'z) machine_scheme pci_drivers \<Rightarrow> u8 \<Rightarrow> u8 \<Rightarrow> ('d, 'z) machine_scheme \<Rightarrow> ('d, 'z) machine_scheme option" where
  "pci_check_device check_bus io drv bus slot s =
     (let (header, s1) = on_dev (pci_read_header io bus slot 0) s
      in if ph_vendor (pci_header_of header) = 0xFFFF then Some s1
         else do {
           s2 \<leftarrow> pci_check_function check_bus io bus slot 0 header s1;
           if multi_func (pci_header_of header)
           then each (check_other_function check_bus io drv bus slot) [1, 2, 3, 4, 5, 6, 7] s2
           else pci_device_found io drv bus slot 0 header s2 })"

lemma pci_check_function_mono [partial_function_mono]:
  assumes "\<And>b s. mono_option (\<lambda>f. B f b s)"
  shows "mono_option (\<lambda>f. pci_check_function (B f) io bus slot func header s)"
  unfolding pci_check_function_def Let_def
  by (cases "on_dev (pci_read_pci_bridge io bus slot func header) s") (simp add: assms option.const_mono if_mono)

lemma check_other_function_mono [partial_function_mono]:
  assumes "\<And>b s. mono_option (\<lambda>f. B f b s)"
  shows "mono_option (\<lambda>f. check_other_function (B f) io drv bus slot func s)"
  unfolding check_other_function_def Let_def
  by (cases "on_dev (pci_read_header io bus slot func) s")
    (auto intro!: if_mono option.const_mono bind_mono pci_check_function_mono assms)

lemma pci_check_device_mono [partial_function_mono]:
  assumes "\<And>b s. mono_option (\<lambda>f. B f b s)"
  shows "mono_option (\<lambda>f. pci_check_device (B f) io drv bus slot s)"
  unfolding pci_check_device_def Let_def
  by (cases "on_dev (pci_read_header io bus slot 0) s")
    (auto intro!: if_mono option.const_mono bind_mono each_mono pci_check_function_mono check_other_function_mono assms)

partial_function (option) pci_check_bus :: "'d ports \<Rightarrow> ('d, 'z) machine_scheme pci_drivers \<Rightarrow> u8 \<Rightarrow> ('d, 'z) machine_scheme \<Rightarrow> ('d, 'z) machine_scheme option" where
  "pci_check_bus io drv bus s =
     each (\<lambda>slot. pci_check_device (\<lambda>b. pci_check_bus io drv b) io drv bus (of_nat slot)) [0..<32] s"

text \<open>The loop over the functions of the host controller, for a controller with several of them.\<close>

fun discover_loop :: "'d ports \<Rightarrow> ('d, 'z) machine_scheme pci_drivers \<Rightarrow> nat list \<Rightarrow> ('d, 'z) machine_scheme \<Rightarrow> ('d, 'z) machine_scheme option" where
  "discover_loop io drv [] s = Some s"
| "discover_loop io drv (func # funcs) s =
     (let (header, s1) = on_dev (pci_read_header io 0 0 (of_nat func)) s
      in if ph_vendor (pci_header_of header) \<noteq> 0xFFFF then Some s1
         else do { s2 \<leftarrow> pci_check_bus io drv (of_nat func) s1; discover_loop io drv funcs s2 })"

definition pci_discover_devices :: "'d ports \<Rightarrow> ('d, 'z) machine_scheme pci_drivers \<Rightarrow> ('d, 'z) machine_scheme \<Rightarrow> ('d, 'z) machine_scheme option" where
  "pci_discover_devices io drv s =
     (let (header, s1) = on_dev (pci_read_header io 0 0 0) s
      in if \<not> multi_func (pci_header_of header) then pci_check_bus io drv 0 s1
         else discover_loop io drv [0..<8] s1)"

definition pci_init :: "'d ports \<Rightarrow> ('d, 'z) machine_scheme pci_drivers \<Rightarrow> ('d, 'z) machine_scheme \<Rightarrow> ('d, 'z) machine_scheme option" where
  "pci_init io drv s = do {
     s1 \<leftarrow> mmu_map_pages (current_pdt s) PCI_BASE_ADDRESS PCI_BASE_ADDRESS 4 True False True s;
     pci_discover_devices io drv s1 }"

end
