(* ===== verification/Pci_Laws.thy ===== *)
theory Pci_Laws
  imports Pci
begin

text \<open>
  The configuration space is read as it is, and the enumeration starts the drivers of the functions it should find,
  in order, and ends. What is assumed of the hardware is the predicate \<open>config_space\<close>: after an address has been
  written to the address port, the data port gives the register that the fields of the address select. The register
  with command and status, number 1, may change at any time.
\<close>

section \<open>Addresses\<close>

type_synonym config = "nat \<Rightarrow> nat \<Rightarrow> nat \<Rightarrow> nat \<Rightarrow> u32"

definition config_space :: "'d ports \<Rightarrow> config \<Rightarrow> ('d \<Rightarrow> bool) \<Rightarrow> bool" where
  "config_space io cfg P \<longleftrightarrow> (\<forall>d a v d'. P d \<longrightarrow> bit a 31 \<longrightarrow> inl io PCI_CONFIG_DATA (outl io PCI_CONFIG_ADDRESS a d) = (v, d') \<longrightarrow>
     P d' \<and> (take_bit 6 (drop_bit 2 a) \<noteq> 1 \<longrightarrow>
       v = cfg (unat (take_bit 8 (drop_bit 16 a))) (unat (take_bit 5 (drop_bit 11 a))) (unat (take_bit 3 (drop_bit 8 a)))
             (unat (take_bit 6 (drop_bit 2 a)))))"

lemma config_spaceD:
  assumes "config_space io cfg P" "P d" "bit a 31" "inl io PCI_CONFIG_DATA (outl io PCI_CONFIG_ADDRESS a d) = (v, d')"
  shows "P d'" "take_bit 6 (drop_bit 2 a) \<noteq> 1 \<Longrightarrow>
    v = cfg (unat (take_bit 8 (drop_bit 16 a))) (unat (take_bit 5 (drop_bit 11 a))) (unat (take_bit 3 (drop_bit 8 a)))
          (unat (take_bit 6 (drop_bit 2 a)))"
  using assms unfolding config_space_def by blast+

lemma not_bit_small:
  fixes w :: "'a::len word"
  assumes "unat w < 2 ^ k" "k \<le> n"
  shows "\<not> bit w n"
proof -
  have "unat w < 2 ^ n" using assms by (meson less_le_trans one_le_numeral power_increasing)
  then have "\<not> bit (unat w) n" by (simp add: bit_iff_odd)
  then show ?thesis by (auto simp: bit_unsigned_iff dest: bit_imp_le_length)
qed

lemma config_address_fields:
  fixes bus slot func :: u8
  assumes "slot < 32" "func < 8"
  shows "bit (pci_config_address bus slot func off) 31"
    "take_bit 8 (drop_bit 16 (pci_config_address bus slot func off)) = ucast bus"
    "take_bit 5 (drop_bit 11 (pci_config_address bus slot func off)) = ucast slot"
    "take_bit 3 (drop_bit 8 (pci_config_address bus slot func off)) = ucast func"
    "take_bit 6 (drop_bit 2 (pci_config_address bus slot func off)) = take_bit 6 (drop_bit 2 (ucast off))"
proof -
  have s: "\<not> bit slot n" if "5 \<le> n" for n using not_bit_small[of slot 5 n] assms(1) that by (simp add: word_less_nat_alt)
  have f: "\<not> bit func n" if "3 \<le> n" for n using not_bit_small[of func 3 n] assms(2) that by (simp add: word_less_nat_alt)
  have b: "n < 8" if "bit bus n" for n using bit_imp_le_length[OF that] by simp
  have top: "bit (0x80000000 :: u32) n \<longleftrightarrow> n = 31" for n
    using bit_exp_iff[of 31 n, where 'a = u32] bit_imp_le_length[of "0x80000000 :: u32" n] by auto
  have fc: "bit (0xFC :: u32) n \<longleftrightarrow> 2 \<le> n \<and> n < 8" for n
  proof -
    have "(0xFC :: u32) = push_bit 2 (mask 6)" by (simp add: mask_eq_exp_minus_1 push_bit_eq_mult)
    then show ?thesis by (simp only: bit_push_bit_iff bit_mask_iff) auto
  qed
  have low: "bit (63 :: int) n \<longleftrightarrow> n < 6" for n
    using bit_mask_iff[of 6 n, where 'a = int] by (auto simp: mask_eq_exp_minus_1)
  show "bit (pci_config_address bus slot func off) 31" by (simp add: pci_config_address_def bit_or_iff top)
  show "take_bit 8 (drop_bit 16 (pci_config_address bus slot func off)) = ucast bus"
    by (rule bit_word_eqI) (auto simp: pci_config_address_def bit_simps top fc low s f dest: b)
  show "take_bit 5 (drop_bit 11 (pci_config_address bus slot func off)) = ucast slot"
    by (rule bit_word_eqI) (auto simp: pci_config_address_def bit_simps top fc low s f dest: b)
  show "take_bit 3 (drop_bit 8 (pci_config_address bus slot func off)) = ucast func"
    by (rule bit_word_eqI) (auto simp: pci_config_address_def bit_simps top fc low s f dest: b)
  show "take_bit 6 (drop_bit 2 (pci_config_address bus slot func off)) = take_bit 6 (drop_bit 2 (ucast off))"
    by (rule bit_word_eqI) (auto simp: pci_config_address_def bit_simps top fc low s f dest: b)
qed

section \<open>Registers\<close>

definition cfg_byte :: "config \<Rightarrow> u8 \<Rightarrow> u8 \<Rightarrow> u8 \<Rightarrow> nat \<Rightarrow> u8" where
  "cfg_byte cfg bus slot func i = ucast (drop_bit (8 * (i mod 4)) (cfg (unat bus) (unat slot) (unat func) (i div 4)))"

lemma word_in_register:
  "k \<in> set [0..<128] \<Longrightarrow> unat ((of_nat (2 * k) :: u16) AND 2) = 2 * k mod 4"
proof -
  have "\<forall>k \<in> set [0..<128]. unat ((of_nat (2 * k) :: u16) AND 2) = 2 * k mod 4" by code_simp
  then show "k \<in> set [0..<128] \<Longrightarrow> unat ((of_nat (2 * k) :: u16) AND 2) = 2 * k mod 4" by blast
qed

lemma register_of_offset:
  assumes "i < 256"
  shows "unat (take_bit 6 (drop_bit 2 (ucast (of_nat i :: u16) :: u32))) = i div 4"
proof -
  have "unat (ucast (of_nat i :: u16) :: u32) = i" using assms by (simp add: unat_ucast_up unat_of_nat_small)
  then have "unat (drop_bit 2 (ucast (of_nat i :: u16) :: u32)) = i div 4" by (simp add: drop_bit_eq_div unat_div)
  then show ?thesis using assms by (simp only: unsigned_take_bit_eq) (simp add: take_bit_nat_eq_self)
qed

lemma and_mask_all16: "w AND 0xFFFF = (w :: u16)"
proof -
  have "(0xFFFF :: u16) = - 1" by simp
  then show ?thesis by (metis and.right_neutral)
qed

lemma pci_read_word_config:
  assumes c: "config_space io cfg P" "P d" and sf: "slot < 32" "func < 8" and i: "even i" "i < 256"
    and r: "pci_read_word io bus slot func (of_nat i) d = (v, d')"
  shows "P d'" "i div 4 \<noteq> 1 \<Longrightarrow> ucast v = cfg_byte cfg bus slot func i"
    "i div 4 \<noteq> 1 \<Longrightarrow> ucast (drop_bit 8 v) = cfg_byte cfg bus slot func (Suc i)"
proof -
  let ?a = "pci_config_address bus slot func (of_nat i)"
  obtain x where x: "inl io PCI_CONFIG_DATA (outl io PCI_CONFIG_ADDRESS ?a d) = (x, d')"
    and v: "v = ucast (drop_bit (unat ((of_nat i :: u16) AND 2) * 8) x)"
    using r and_mask_all16 by (auto simp: pci_read_word_def Let_def split: prod.splits)
  note f = config_address_fields[OF sf, of bus "of_nat i"]
  show "P d'" by (rule config_spaceD(1)[OF c f(1) x])
  assume s: "i div 4 \<noteq> 1"
  then have "take_bit 6 (drop_bit 2 (ucast (of_nat i :: u16) :: u32)) \<noteq> 1"
    using register_of_offset[OF i(2)] by auto
  then have X: "x = cfg (unat bus) (unat slot) (unat func) (i div 4)"
    using config_spaceD(2)[OF c f(1) x] register_of_offset[OF i(2)] by (simp add: f(2-5) unat_ucast_up)
  have k: "unat ((of_nat i :: u16) AND 2) = i mod 4"
    using word_in_register[of "i div 2"] i by auto
  have m: "i mod 4 = 0 \<or> i mod 4 = 2" using i(1) by presburger
  have S: "Suc i div 4 = i div 4" "Suc i mod 4 = Suc (i mod 4)" using m by presburger+
  show "ucast v = cfg_byte cfg bus slot func i" unfolding v k X cfg_byte_def
    by (rule bit_word_eqI) (use m in \<open>auto simp: bit_simps ac_simps\<close>)
  show "ucast (drop_bit 8 v) = cfg_byte cfg bus slot func (Suc i)" unfolding v k X cfg_byte_def S
    by (rule bit_word_eqI) (use m in \<open>auto simp: bit_simps ac_simps\<close>)
qed

section \<open>Structures\<close>

definition matches :: "config \<Rightarrow> u8 \<Rightarrow> u8 \<Rightarrow> u8 \<Rightarrow> nat \<Rightarrow> nat \<Rightarrow> u8 list \<Rightarrow> bool" where
  "matches cfg bus slot func a b bs \<longleftrightarrow> length bs = b - a \<and>
     (\<forall>k < b - a. (a + k) div 4 \<noteq> 1 \<longrightarrow> bs ! k = cfg_byte cfg bus slot func (a + k))"

lemma read_words_config:
  assumes "config_space io cfg P" "slot < 32" "func < 8" "\<forall>i \<in> set is. even i \<and> i < 256" "P d"
    "read_words io bus slot func is d = (bs, d')"
  shows "P d' \<and> length bs = 2 * length is \<and> (\<forall>j < length is. is ! j div 4 \<noteq> 1 \<longrightarrow>
    bs ! (2 * j) = cfg_byte cfg bus slot func (is ! j) \<and> bs ! (2 * j + 1) = cfg_byte cfg bus slot func (Suc (is ! j)))"
  using assms(4-6)
proof (induction "is" arbitrary: d bs)
  case Nil
  then show ?case by simp
next
  case (Cons i "is")
  obtain v d1 bs2 where r: "pci_read_word io bus slot func (of_nat i) d = (v, d1)"
    "read_words io bus slot func is d1 = (bs2, d')" "bs = ucast v # ucast (drop_bit 8 v) # bs2"
    using Cons.prems(3) by (auto simp: Let_def split: prod.splits)
  have i: "even i" "i < 256" using Cons.prems(1) by auto
  note w = pci_read_word_config[OF assms(1) Cons.prems(2) assms(2,3) i r(1)]
  have tail: "P d' \<and> length bs2 = 2 * length is \<and> (\<forall>j < length is. is ! j div 4 \<noteq> 1 \<longrightarrow>
    bs2 ! (2 * j) = cfg_byte cfg bus slot func (is ! j) \<and> bs2 ! (2 * j + 1) = cfg_byte cfg bus slot func (Suc (is ! j)))"
    by (rule Cons.IH[OF _ w(1) r(2)]) (use Cons.prems(1) in simp)
  then show ?case using w(2,3) by (simp add: r(3) all_less_Suc_shift)
qed

lemma read_words_matches:
  assumes c: "config_space io cfg P" "slot < 32" "func < 8" "P d" and ab: "even a" "even b" "b \<le> 256"
    and r: "read_words io bus slot func (even_offsets a b) d = (bs, d')"
  shows "P d'" "matches cfg bus slot func a b bs"
proof -
  have e: "\<forall>i \<in> set (even_offsets a b). even i \<and> i < 256" using ab by (auto simp: even_offsets_def)
  note w = read_words_config[OF c(1-3) e c(4) r]
  then show "P d'" by simp
  have "bs ! k = cfg_byte cfg bus slot func (a + k)" if "k < b - a" "(a + k) div 4 \<noteq> 1" for k
  proof -
    have j: "k div 2 < length (even_offsets a b)" using that(1) ab by (simp add: even_offsets_def) presburger
    moreover have o: "even_offsets a b ! (k div 2) = a + 2 * (k div 2)" using j by (simp add: even_offsets_def)
    moreover have "(a + 2 * (k div 2)) div 4 = (a + k) div 4" using ab(1) by presburger
    ultimately have "bs ! (2 * (k div 2)) = cfg_byte cfg bus slot func (a + 2 * (k div 2))"
      "bs ! (2 * (k div 2) + 1) = cfg_byte cfg bus slot func (Suc (a + 2 * (k div 2)))"
      using w that(2) by (metis (no_types))+
    then show ?thesis by (cases "even k") (auto elim!: oddE)
  qed
  moreover have "length bs = b - a" using w ab by (simp add: even_offsets_def)
  ultimately show "matches cfg bus slot func a b bs" by (simp add: matches_def)
qed

lemma matches_append:
  assumes "matches cfg bus slot func 0 a xs" "matches cfg bus slot func a b ys" "a \<le> b"
  shows "matches cfg bus slot func 0 b (xs @ ys)"
  using assms by (auto simp: matches_def nth_append)

text \<open>The header and the structure of a function, up to command and status.\<close>

definition forget_command :: "pci_header \<Rightarrow> pci_header" where
  "forget_command h = h\<lparr>ph_command := 0, ph_status := 0\<rparr>"

definition function_header :: "config \<Rightarrow> u8 \<Rightarrow> u8 \<Rightarrow> u8 \<Rightarrow> pci_header" where
  "function_header cfg bus slot func = forget_command (pci_header_of (map (cfg_byte cfg bus slot func) [0..<16]))"

definition forget_device :: "pci_device \<Rightarrow> pci_device" where
  "forget_device p = p\<lparr>pd_header := forget_command (pd_header p)\<rparr>"

definition function_device :: "config \<Rightarrow> u8 \<Rightarrow> u8 \<Rightarrow> u8 \<Rightarrow> pci_device" where
  "function_device cfg bus slot func = forget_device (pci_device_of (map (cfg_byte cfg bus slot func) [0..<64]))"

lemma matches_nth:
  assumes "matches cfg bus slot func 0 n bs" "i < n" "i div 4 \<noteq> 1"
  shows "bs ! i = cfg_byte cfg bus slot func i"
  using assms by (simp add: matches_def)

lemma header_forget:
  assumes "matches cfg bus slot func 0 n bs" "16 \<le> n"
  shows "forget_command (pci_header_of bs) = function_header cfg bus slot func"
  using assms(2) by (simp add: function_header_def forget_command_def pci_header_of_def le16_def matches_nth[OF assms(1)] numeral_2_eq_2)

lemma header_fields:
  assumes "matches cfg bus slot func 0 n bs" "16 \<le> n"
  shows "ph_vendor (pci_header_of bs) = ph_vendor (function_header cfg bus slot func)"
    "ph_class (pci_header_of bs) = ph_class (function_header cfg bus slot func)"
    "ph_subclass (pci_header_of bs) = ph_subclass (function_header cfg bus slot func)"
    "header_kind (pci_header_of bs) = header_kind (function_header cfg bus slot func)"
    "multi_func (pci_header_of bs) = multi_func (function_header cfg bus slot func)"
  unfolding header_forget[OF assms, symmetric] by (simp_all add: forget_command_def header_kind_def multi_func_def)

lemma device_forget:
  assumes "matches cfg bus slot func 0 64 bs"
  shows "forget_device (pci_device_of bs) = function_device cfg bus slot func"
  by (simp add: function_device_def forget_device_def pci_device_of_def le16_def le32_def matches_nth[OF assms]
      forget_command_def pci_header_of_def numeral_2_eq_2)

section \<open>The functions that are found\<close>

datatype pci_driver = Ata | Floppy | Ethernet

fun driver_call :: "'s pci_drivers \<Rightarrow> pci_driver \<Rightarrow> pci_device \<Rightarrow> u8 \<Rightarrow> u8 \<Rightarrow> u8 \<Rightarrow> 's \<Rightarrow> 's option" where
  "driver_call drv Ata = drv_ata_init drv"
| "driver_call drv Floppy = drv_floppy_init drv"
| "driver_call drv Ethernet = drv_ethernet_init drv"

definition driver_for :: "pci_header \<Rightarrow> pci_driver option" where
  "driver_for h =
     (if header_kind h \<noteq> 0 then None
      else if ph_class h = 1 \<and> ph_subclass h = 1 then Some Ata
      else if ph_class h = 1 \<and> ph_subclass h = 2 then Some Floppy
      else if ph_class h = 2 \<and> ph_subclass h = 0 then Some Ethernet
      else None)"

definition present :: "config \<Rightarrow> u8 \<Rightarrow> u8 \<Rightarrow> u8 \<Rightarrow> bool" where
  "present cfg bus slot func \<longleftrightarrow> ph_vendor (function_header cfg bus slot func) \<noteq> 0xFFFF"

text \<open>The bus behind a function that is a bridge.\<close>

definition bus_behind :: "config \<Rightarrow> u8 \<Rightarrow> u8 \<Rightarrow> u8 \<Rightarrow> u8 option" where
  "bus_behind cfg bus slot func =
     (let h = function_header cfg bus slot func
      in if ph_class h = 6 \<and> ph_subclass h = 4 then Some (cfg_byte cfg bus slot func 25) else None)"

text \<open>Firmware numbers the buses from the host outwards: a bridge leads to a bus with a higher number.\<close>

definition buses_ascend :: "config \<Rightarrow> bool" where
  "buses_ascend cfg \<longleftrightarrow> (\<forall>bus slot func b. bus_behind cfg bus slot func = Some b \<longrightarrow> bus < b)"

text \<open>The functions below a bus in the order of the enumeration. Of a device with several functions, function 0 is
  not among them: only a bridge there is followed.\<close>

function bus_functions :: "config \<Rightarrow> u8 \<Rightarrow> (u8 \<times> u8 \<times> u8) list" where
  "bus_functions cfg bus =
     (let behind = (\<lambda>slot func. case bus_behind cfg bus slot func of
                       None \<Rightarrow> [] | Some b \<Rightarrow> if bus < b then bus_functions cfg b else [])
      in concat (map (\<lambda>i. let slot = of_nat i
           in if \<not> present cfg bus slot 0 then []
              else behind slot 0 @
                (if multi_func (function_header cfg bus slot 0)
                 then concat (map (\<lambda>func. if present cfg bus slot func then (bus, slot, func) # behind slot func else [])
                               [1, 2, 3, 4, 5, 6, 7])
                 else [(bus, slot, 0)])) [0..<32]))"
  by pat_completeness auto
termination
  by (relation "measure (\<lambda>(cfg, bus). 256 - unat bus)")
    (auto simp: word_less_nat_alt intro!: diff_less_mono2 less_le_trans[OF unsigned_less])

declare bus_functions.simps [simp del]

section \<open>The enumeration\<close>

text \<open>\<open>runs P \<alpha> f g\<close>: on every state whose devices satisfy \<open>P\<close>, \<open>f\<close> returns, keeps \<open>P\<close>, and does \<open>g\<close> to the view \<open>\<alpha>\<close>.\<close>

definition runs :: "('d \<Rightarrow> bool) \<Rightarrow> (('d, 'z) machine_scheme \<Rightarrow> 'v) \<Rightarrow> (('d, 'z) machine_scheme \<Rightarrow> ('d, 'z) machine_scheme option) \<Rightarrow> ('v \<Rightarrow> 'v) \<Rightarrow> bool" where
  "runs P \<alpha> f g \<longleftrightarrow> (\<forall>s. P (dev s) \<longrightarrow> (\<exists>s'. f s = Some s' \<and> P (dev s') \<and> \<alpha> s' = g (\<alpha> s)))"

lemma runs_Some: "runs P \<alpha> Some (fold g [])"
  by (simp add: runs_def)

lemma runs_bind:
  assumes "runs P \<alpha> f (fold g xs)" "runs P \<alpha> f' (fold g ys)"
  shows "runs P \<alpha> (\<lambda>s. Option.bind (f s) f') (fold g (xs @ ys))"
  using assms unfolding runs_def by (metis Option.bind.bind_lunit comp_apply fold_append)

lemma runs_each:
  assumes "\<And>x. x \<in> set xs \<Longrightarrow> runs P \<alpha> (f x) (fold g (l x))"
  shows "runs P \<alpha> (each f xs) (fold g (concat (map l xs)))"
  using assms
proof (induction xs)
  case Nil
  have "each f [] = Some" by (rule ext) simp
  then show ?case using runs_Some[of P \<alpha> g] by (simp add: id_def)
next
  case (Cons x xs)
  have "each f (x # xs) = (\<lambda>s. Option.bind (f x s) (each f xs))" by (rule ext) simp
  then show ?case using runs_bind[OF Cons.prems Cons.IH] Cons.prems by (simp add: comp_def)
qed

text \<open>Accesses to the configuration space do not change the view.\<close>

definition config_silent :: "'d ports \<Rightarrow> ('d \<Rightarrow> bool) \<Rightarrow> (('d, 'z) machine_scheme \<Rightarrow> 'v) \<Rightarrow> bool" where
  "config_silent io P \<alpha> \<longleftrightarrow> (\<forall>s a. P (dev s) \<longrightarrow>
     \<alpha> (s\<lparr>dev := snd (inl io PCI_CONFIG_DATA (outl io PCI_CONFIG_ADDRESS a (dev s)))\<rparr>) = \<alpha> s)"

lemma config_space_view:
  assumes "config_space io cfg P" "config_silent io P \<alpha>"
  shows "config_space io cfg (\<lambda>d. P d \<and> \<alpha> (s\<lparr>dev := d\<rparr>) = \<alpha> s)"
  unfolding config_space_def
proof (intro allI impI)
  fix d a v d'
  assume p: "P d \<and> \<alpha> (s\<lparr>dev := d\<rparr>) = \<alpha> s" and "bit a 31"
    and r: "inl io PCI_CONFIG_DATA (outl io PCI_CONFIG_ADDRESS a d) = (v, d')"
  note D = config_spaceD[OF assms(1) _ \<open>bit a 31\<close> r]
  have "\<alpha> (s\<lparr>dev := d'\<rparr>) = \<alpha> (s\<lparr>dev := d\<rparr>)"
    using assms(2)[unfolded config_silent_def, rule_format, of "s\<lparr>dev := d\<rparr>" a] p r by simp
  then show "(P d' \<and> \<alpha> (s\<lparr>dev := d'\<rparr>) = \<alpha> s) \<and> (take_bit 6 (drop_bit 2 a) \<noteq> 1 \<longrightarrow>
       v = cfg (unat (take_bit 8 (drop_bit 16 a))) (unat (take_bit 5 (drop_bit 11 a))) (unat (take_bit 3 (drop_bit 8 a)))
             (unat (take_bit 6 (drop_bit 2 a))))" using D p by auto
qed

lemma on_dev_words:
  assumes c: "config_space io cfg P" "config_silent io P \<alpha>" and sf: "slot < 32" "func < 8" and p: "P (dev s)"
    and ab: "even a" "even b" "b \<le> 256" and r: "on_dev (read_words io bus slot func (even_offsets a b)) s = (bs, s')"
  shows "P (dev s')" "\<alpha> s' = \<alpha> s" "matches cfg bus slot func a b bs"
proof -
  obtain d' where d: "read_words io bus slot func (even_offsets a b) (dev s) = (bs, d')" "s' = s\<lparr>dev := d'\<rparr>"
    using r by (auto simp: on_dev_def split: prod.splits)
  have "P (dev s) \<and> \<alpha> (s\<lparr>dev := dev s\<rparr>) = \<alpha> s" using p by simp
  note w = read_words_matches[OF config_space_view[OF c, of s] sf this ab d(1)]
  show "P (dev s')" "\<alpha> s' = \<alpha> s" using w(1) d(2) by auto
  show "matches cfg bus slot func a b bs" by (rule w(2))
qed

text \<open>What the enumeration relies on: the configuration space, and drivers that return.\<close>

definition pci_machine ::
  "'d ports \<Rightarrow> ('d, 'z) machine_scheme pci_drivers \<Rightarrow> config \<Rightarrow> ('d \<Rightarrow> bool) \<Rightarrow> (('d, 'z) machine_scheme \<Rightarrow> 'v)
     \<Rightarrow> (pci_driver \<Rightarrow> pci_device \<Rightarrow> u8 \<Rightarrow> u8 \<Rightarrow> u8 \<Rightarrow> 'v \<Rightarrow> 'v) \<Rightarrow> bool" where
  "pci_machine io drv cfg P \<alpha> act \<longleftrightarrow> config_space io cfg P \<and> config_silent io P \<alpha> \<and>
     (\<forall>k p bus slot func. runs P \<alpha> (driver_call drv k p bus slot func) (act k (forget_device p) bus slot func))"

definition start_driver ::
  "config \<Rightarrow> (pci_driver \<Rightarrow> pci_device \<Rightarrow> u8 \<Rightarrow> u8 \<Rightarrow> u8 \<Rightarrow> 'v \<Rightarrow> 'v) \<Rightarrow> u8 \<times> u8 \<times> u8 \<Rightarrow> 'v \<Rightarrow> 'v" where
  "start_driver cfg act = (\<lambda>(bus, slot, func). case driver_for (function_header cfg bus slot func) of
     None \<Rightarrow> id | Some k \<Rightarrow> act k (function_device cfg bus slot func) bus slot func)"

lemma pci_machineD:
  assumes "pci_machine io drv cfg P \<alpha> act"
  shows "config_space io cfg P" "config_silent io P \<alpha>"
    "runs P \<alpha> (driver_call drv k p bus slot func) (act k (forget_device p) bus slot func)"
  using assms by (auto simp: pci_machine_def)

lemma pci_device_found_call:
  assumes "on_dev (pci_read_device io bus slot func header) s = (bs, s1)"
  shows "pci_device_found io drv bus slot func header s =
    (if header_kind (pci_header_of header) \<noteq> 0 then Some s
     else case driver_for (pci_header_of header) of
       None \<Rightarrow> Some s1 | Some k \<Rightarrow> driver_call drv k (pci_device_of bs) bus slot func s1)"
  using assms by (simp add: pci_device_found_def driver_for_def Let_def)

lemma driver_for_forget: "driver_for (forget_command h) = driver_for h"
  by (simp add: driver_for_def forget_command_def header_kind_def)

lemma on_dev_rest:
  assumes "pci_machine io drv cfg P \<alpha> act" "slot < 32" "func < 8" "P (dev s)" "matches cfg bus slot func 0 16 header"
    and r: "on_dev (\<lambda>d. let (bs, d1) = read_words io bus slot func (even_offsets 16 64) d in (header @ bs, d1)) s = (bs, s1)"
  shows "P (dev s1)" "\<alpha> s1 = \<alpha> s" "matches cfg bus slot func 0 64 bs"
proof -
  obtain rest where w: "on_dev (read_words io bus slot func (even_offsets 16 64)) s = (rest, s1)" and bs: "bs = header @ rest"
    using r by (auto simp: on_dev_def split: prod.splits)
  note m = on_dev_words[OF pci_machineD(1,2)[OF assms(1)] assms(2-4) _ _ _ w]
  then show "P (dev s1)" "\<alpha> s1 = \<alpha> s" by simp_all
  show "matches cfg bus slot func 0 64 bs" unfolding bs by (rule matches_append[OF assms(5)]) (use m in simp_all)
qed

lemma pci_device_found_runs:
  fixes io :: "'d ports" and \<alpha> :: "('d, 'z) machine_scheme \<Rightarrow> 'v"
  assumes m: "pci_machine io drv cfg P \<alpha> act" "slot < 32" "func < 8" and h: "matches cfg bus slot func 0 16 header"
  shows "runs P \<alpha> (pci_device_found io drv bus slot func header) (fold (start_driver cfg act) [(bus, slot, func)])"
  unfolding runs_def
proof (intro allI impI)
  fix s :: "('d, 'z) machine_scheme" assume p: "P (dev s)"
  obtain bs s1 where r: "on_dev (pci_read_device io bus slot func header) s = (bs, s1)" by fastforce
  note w = on_dev_rest[OF m p h r[unfolded pci_read_device_def]]
  have d: "driver_for (pci_header_of header) = driver_for (function_header cfg bus slot func)"
    using header_forget[OF h] driver_for_forget[of "pci_header_of header"] by simp
  show "\<exists>s'. pci_device_found io drv bus slot func header s = Some s' \<and> P (dev s') \<and>
    \<alpha> s' = fold (start_driver cfg act) [(bus, slot, func)] (\<alpha> s)"
  proof (cases "driver_for (pci_header_of header)")
    case None
    then show ?thesis using w(1,2) p d by (simp add: pci_device_found_call[OF r] start_driver_def)
  next
    case (Some k)
    then have "header_kind (pci_header_of header) = 0" by (auto simp: driver_for_def split: if_splits)
    then show ?thesis
      using pci_machineD(3)[OF m(1), of k "pci_device_of bs" bus slot func] w(1,2) Some d
      by (auto simp: pci_device_found_call[OF r] start_driver_def runs_def device_forget[OF w(3)])
  qed
qed

definition functions_behind :: "config \<Rightarrow> u8 \<Rightarrow> u8 \<Rightarrow> u8 \<Rightarrow> (u8 \<times> u8 \<times> u8) list" where
  "functions_behind cfg bus slot func = (case bus_behind cfg bus slot func of
     None \<Rightarrow> [] | Some b \<Rightarrow> if bus < b then bus_functions cfg b else [])"

lemma pci_check_function_runs:
  fixes io :: "'d ports" and \<alpha> :: "('d, 'z) machine_scheme \<Rightarrow> 'v"
  assumes m: "pci_machine io drv cfg P \<alpha> act" "slot < 32" "func < 8" and h: "matches cfg bus slot func 0 16 header"
    and asc: "buses_ascend cfg"
    and rec: "\<And>b. bus < b \<Longrightarrow> runs P \<alpha> (check_bus b) (fold (start_driver cfg act) (bus_functions cfg b))"
  shows "runs P \<alpha> (pci_check_function check_bus io bus slot func header)
    (fold (start_driver cfg act) (functions_behind cfg bus slot func))"
  unfolding runs_def
proof (intro allI impI)
  fix s :: "('d, 'z) machine_scheme" assume p: "P (dev s)"
  obtain bs s1 where r: "on_dev (pci_read_pci_bridge io bus slot func header) s = (bs, s1)" by fastforce
  note w = on_dev_rest[OF m p h r[unfolded pci_read_pci_bridge_def]]
  have b: "secondary_bus bs = cfg_byte cfg bus slot func 25"
    using matches_nth[OF w(3), of 25] by (simp add: secondary_bus_def)
  note hf = header_fields[OF h]
  show "\<exists>s'. pci_check_function check_bus io bus slot func header s = Some s' \<and> P (dev s') \<and>
    \<alpha> s' = fold (start_driver cfg act) (functions_behind cfg bus slot func) (\<alpha> s)"
  proof (cases "bus_behind cfg bus slot func")
    case None
    then have "\<not> (ph_class (pci_header_of header) = 6 \<and> ph_subclass (pci_header_of header) = 4)"
      using hf by (auto simp: bus_behind_def Let_def split: if_splits)
    then show ?thesis using p None by (auto simp: pci_check_function_def functions_behind_def)
  next
    case (Some x)
    then have x: "bus < x" "x = cfg_byte cfg bus slot func 25" "ph_class (pci_header_of header) = 6" "ph_subclass (pci_header_of header) = 4"
      using asc hf by (auto simp: buses_ascend_def bus_behind_def Let_def split: if_splits)
    then show ?thesis
      using rec[OF x(1)] w(1,2) Some by (auto simp: pci_check_function_def functions_behind_def r b runs_def)
  qed
qed

lemma on_dev_header:
  assumes "pci_machine io drv cfg P \<alpha> act" "slot < 32" "func < 8" "P (dev s)"
    and "on_dev (pci_read_header io bus slot func) s = (header, s1)"
  shows "P (dev s1)" "\<alpha> s1 = \<alpha> s" "matches cfg bus slot func 0 16 header"
  using on_dev_words[OF pci_machineD(1,2)[OF assms(1)] assms(2-4), of 0 16 bus header s1] assms(5)
  by (simp_all add: pci_read_header_def[abs_def])

text \<open>An operation that reads the header first.\<close>

lemma runs_header:
  fixes io :: "'d ports" and \<alpha> :: "('d, 'z) machine_scheme \<Rightarrow> 'v"
  assumes m: "pci_machine io drv cfg P \<alpha> act" "slot < 32" "func < 8"
    and f: "\<And>header. matches cfg bus slot func 0 16 header \<Longrightarrow> runs P \<alpha> (f header) g"
  shows "runs P \<alpha> (\<lambda>s. let (header, s1) = on_dev (pci_read_header io bus slot func) s in f header s1) g"
  unfolding runs_def
proof (intro allI impI)
  fix s :: "('d, 'z) machine_scheme" assume p: "P (dev s)"
  obtain header s1 where r: "on_dev (pci_read_header io bus slot func) s = (header, s1)" by fastforce
  note w = on_dev_header[OF m p r]
  show "\<exists>s'. (let (header, s1) = on_dev (pci_read_header io bus slot func) s in f header s1) = Some s' \<and> P (dev s') \<and> \<alpha> s' = g (\<alpha> s)"
    using f[OF w(3), unfolded runs_def, rule_format, OF w(1)] w(2) by (simp add: r)
qed

definition functions_at :: "config \<Rightarrow> u8 \<Rightarrow> u8 \<Rightarrow> u8 \<Rightarrow> (u8 \<times> u8 \<times> u8) list" where
  "functions_at cfg bus slot func =
     (if present cfg bus slot func then (bus, slot, func) # functions_behind cfg bus slot func else [])"

definition slot_functions :: "config \<Rightarrow> u8 \<Rightarrow> u8 \<Rightarrow> (u8 \<times> u8 \<times> u8) list" where
  "slot_functions cfg bus slot =
     (if \<not> present cfg bus slot 0 then []
      else functions_behind cfg bus slot 0 @
        (if multi_func (function_header cfg bus slot 0) then concat (map (functions_at cfg bus slot) [1, 2, 3, 4, 5, 6, 7])
         else [(bus, slot, 0)]))"

lemma bus_functions_slots: "bus_functions cfg bus = concat (map (\<lambda>i. slot_functions cfg bus (of_nat i)) [0..<32])"
  by (subst bus_functions.simps) (simp only: Let_def slot_functions_def functions_at_def[abs_def] functions_behind_def)

lemma check_other_function_runs:
  assumes m: "pci_machine io drv cfg P \<alpha> act" "slot < 32" "func < 8" and asc: "buses_ascend cfg"
    and rec: "\<And>b. bus < b \<Longrightarrow> runs P \<alpha> (check_bus b) (fold (start_driver cfg act) (bus_functions cfg b))"
  shows "runs P \<alpha> (check_other_function check_bus io drv bus slot func) (fold (start_driver cfg act) (functions_at cfg bus slot func))"
  unfolding check_other_function_def[abs_def]
proof (rule runs_header[OF m])
  fix header assume h: "matches cfg bus slot func 0 16 header"
  have v: "(ph_vendor (pci_header_of header) \<noteq> 0xFFFF) = present cfg bus slot func" using header_fields(1)[OF h] by (simp add: present_def)
  note two = runs_bind[OF pci_device_found_runs[OF m h] pci_check_function_runs[OF m h asc rec]]
  show "runs P \<alpha> (\<lambda>s1. if ph_vendor (pci_header_of header) \<noteq> 65535
         then pci_device_found io drv bus slot func header s1 \<bind> pci_check_function check_bus io bus slot func header
         else Some s1) (fold (start_driver cfg act) (functions_at cfg bus slot func))"
    using two runs_Some[of P \<alpha> "start_driver cfg act"] by (cases "present cfg bus slot func") (simp_all add: v functions_at_def)
qed

lemma pci_check_device_runs:
  assumes m: "pci_machine io drv cfg P \<alpha> act" "slot < 32" and asc: "buses_ascend cfg"
    and rec: "\<And>b. bus < b \<Longrightarrow> runs P \<alpha> (check_bus b) (fold (start_driver cfg act) (bus_functions cfg b))"
  shows "runs P \<alpha> (pci_check_device check_bus io drv bus slot) (fold (start_driver cfg act) (slot_functions cfg bus slot))"
  unfolding pci_check_device_def[abs_def]
proof (rule runs_header[OF m])
  fix header assume h: "matches cfg bus slot 0 0 16 header"
  let ?st = "start_driver cfg act"
  have v: "(ph_vendor (pci_header_of header) = 0xFFFF) = (\<not> present cfg bus slot 0)" using header_fields(1)[OF h] by (simp add: present_def)
  have mf: "multi_func (pci_header_of header) = multi_func (function_header cfg bus slot 0)" using header_fields(5)[OF h] by simp
  have other: "runs P \<alpha> (each (check_other_function check_bus io drv bus slot) [1, 2, 3, 4, 5, 6, 7])
      (fold ?st (concat (map (functions_at cfg bus slot) [1, 2, 3, 4, 5, 6, 7])))"
    by (rule runs_each, rule check_other_function_runs[OF m _ asc rec]) auto
  note behind = pci_check_function_runs[OF m _ h asc rec]
  note two = runs_bind[OF behind other] runs_bind[OF behind pci_device_found_runs[OF m _ h]]
  show "runs P \<alpha> (\<lambda>s1. if ph_vendor (pci_header_of header) = 65535 then Some s1
         else pci_check_function check_bus io bus slot 0 header s1 \<bind>
              (\<lambda>s2. if multi_func (pci_header_of header)
                    then each (check_other_function check_bus io drv bus slot) [1, 2, 3, 4, 5, 6, 7] s2
                    else pci_device_found io drv bus slot 0 header s2)) (fold ?st (slot_functions cfg bus slot))"
    using two runs_Some[of P \<alpha> ?st] unfolding v mf slot_functions_def
    by (cases "present cfg bus slot 0"; cases "multi_func (function_header cfg bus slot 0)") (simp_all del: concat.simps list.map(2) each.simps)
qed simp

lemma pci_check_bus_runs:
  assumes m: "pci_machine io drv cfg P \<alpha> act" and asc: "buses_ascend cfg"
  shows "runs P \<alpha> (pci_check_bus io drv bus) (fold (start_driver cfg act) (bus_functions cfg bus))"
proof (induction "256 - unat bus" arbitrary: bus rule: less_induct)
  case less
  have rec: "runs P \<alpha> (pci_check_bus io drv b) (fold (start_driver cfg act) (bus_functions cfg b))" if "bus < b" for b
    using that unsigned_less[of b, where 'a = nat] by (intro less) (simp add: word_less_nat_alt)
  have "pci_check_bus io drv bus = each (\<lambda>i. pci_check_device (\<lambda>b. pci_check_bus io drv b) io drv bus (of_nat i)) [0..<32]"
    by (rule ext) (subst pci_check_bus.simps, rule refl)
  moreover have "runs P \<alpha> (each (\<lambda>i. pci_check_device (\<lambda>b. pci_check_bus io drv b) io drv bus (of_nat i)) [0..<32])
      (fold (start_driver cfg act) (concat (map (\<lambda>i. slot_functions cfg bus (of_nat i)) [0..<32])))"
    by (rule runs_each, rule pci_check_device_runs[OF m _ asc rec]) (auto simp: word_less_nat_alt unat_of_nat_small)
  ultimately show ?case by (simp only: bus_functions_slots)
qed

section \<open>Discovery\<close>

text \<open>C19: Device discovery. On hardware that answers configuration accesses, whose bridges lead to buses with higher
  numbers and whose host controller has one function, \<open>pci_discover_devices\<close> returns, and what it has done is to
  start, in the order of the enumeration, the driver of each function found on bus 0 and on the buses behind its
  bridges, with the contents of that function's configuration registers.\<close>

theorem pci_discover_starts_drivers:
  assumes "pci_machine io drv cfg P \<alpha> act" "buses_ascend cfg" "\<not> multi_func (function_header cfg 0 0 0)" "P (dev s)"
  shows "\<exists>s'. pci_discover_devices io drv s = Some s' \<and> P (dev s') \<and>
    \<alpha> s' = fold (start_driver cfg act) (bus_functions cfg 0) (\<alpha> s)"
proof -
  obtain header s1 where r: "on_dev (pci_read_header io 0 0 0) s = (header, s1)" by fastforce
  note w = on_dev_header[OF assms(1) _ _ assms(4) r]
  have "\<not> multi_func (pci_header_of header)" using header_fields(5)[OF w(3)] assms(3) by simp
  then show ?thesis
    using pci_check_bus_runs[OF assms(1,2), of 0, unfolded runs_def, rule_format, of s1] w(1,2)
    by (simp add: pci_discover_devices_def r)
qed

text \<open>A host controller with several functions: the loop stops at function 0, which is the one that is always there, so
  that no bus is looked at and no driver is started.\<close>

lemma pci_multifunction_host_finds_nothing:
  assumes m: "pci_machine io drv cfg P \<alpha> act" and h: "multi_func (function_header cfg 0 0 0)" "present cfg 0 0 0" and p: "P (dev s)"
  shows "\<exists>d. pci_discover_devices io drv s = Some (s\<lparr>dev := d\<rparr>)"
proof -
  obtain header s1 where r: "on_dev (pci_read_header io 0 0 0) s = (header, s1)" by fastforce
  note w = on_dev_header[OF m _ _ p r]
  have mf: "multi_func (pci_header_of header)" using header_fields(5)[OF w(3)] h(1) by simp
  obtain header' s2 where r2: "on_dev (pci_read_header io 0 0 0) s1 = (header', s2)" by fastforce
  have p1: "P (dev s1)" using w(1) by simp
  note w2 = on_dev_header[OF m _ _ p1 r2]
  have "ph_vendor (pci_header_of header') \<noteq> 0xFFFF" using header_fields(1)[OF w2(3)] h(2) by (simp add: present_def)
  then have "pci_discover_devices io drv s = Some s2" using mf by (simp add: pci_discover_devices_def r r2 upt_rec)
  moreover have "\<exists>d. s2 = s\<lparr>dev := d\<rparr>" using r r2 by (auto simp: on_dev_def split: prod.splits)
  ultimately show ?thesis by metis
qed

text \<open>The test for 64-bit registers never succeeds: the upper half of such an address is lost.\<close>

lemma bar_value_32_bits: "bar_value bar i < 2 ^ 32"
proof -
  have u: "(ucast (w :: u32) :: u64) < 2 ^ 32" for w
    using unsigned_less[of w, where 'a = nat] by (simp add: word_less_nat_alt unat_ucast_up)
  show ?thesis using u[of "bar ! i AND 0xFFFFFFF0"] u[of "bar ! i AND 0xFFFFFFFC"] by (simp add: bar_value_def Let_def)
qed

section \<open>A sample machine\<close>

text \<open>The state of the devices is the address that was written last. A host controller and a disk controller.\<close>

definition sample_config :: config where
  "sample_config b sl f r =
     (if b = 0 \<and> sl = 0 \<and> f = 0 then (if r = 0 then 0x12378086 else if r = 2 then 0x06000002 else 0)
      else if b = 0 \<and> sl = 1 \<and> f = 0 then (if r = 0 then 0x70108086 else if r = 2 then 0x01018000 else if r = 8 then 0xC001 else 0)
      else 0xFFFFFFFF)"

definition sample_ports :: "u32 ports" where
  "sample_ports = \<lparr>port_in8 = \<lambda>_ d. (0, d), port_in16 = \<lambda>_ d. (0, d),
     port_in32 = \<lambda>p d. (if p = 0xCFC then sample_config (unat (take_bit 8 (drop_bit 16 d))) (unat (take_bit 5 (drop_bit 11 d)))
        (unat (take_bit 3 (drop_bit 8 d))) (unat (take_bit 6 (drop_bit 2 d))) else 0, d),
     port_out8 = \<lambda>_ _ d. d, port_out16 = \<lambda>_ _ d. d, port_out32 = \<lambda>p v d. if p = 0xCF8 then v else d\<rparr>"

definition sample_drivers :: "u32 machine pci_drivers" where
  "sample_drivers = \<lparr>drv_ata_init = \<lambda>p _ _ _ s. Some (s\<lparr>kernel_end := base_address p ! 4\<rparr>),
     drv_floppy_init = \<lambda>_ _ _ _ s. Some (s\<lparr>kernel_end := 1\<rparr>), drv_ethernet_init = \<lambda>_ _ _ _ s. Some (s\<lparr>kernel_end := 2\<rparr>)\<rparr>"

fun sample_act :: "pci_driver \<Rightarrow> pci_device \<Rightarrow> u8 \<Rightarrow> u8 \<Rightarrow> u8 \<Rightarrow> u32 \<Rightarrow> u32" where
  "sample_act Ata p _ _ _ _ = base_address p ! 4"
| "sample_act Floppy _ _ _ _ _ = 1"
| "sample_act Ethernet _ _ _ _ _ = 2"

lemma sample_machine: "pci_machine sample_ports sample_drivers sample_config (\<lambda>_. True) kernel_end sample_act"
proof -
  have "runs (\<lambda>_. True) kernel_end (driver_call sample_drivers k p b sl f) (sample_act k (forget_device p) b sl f)" for k p b sl f
    by (cases k) (simp_all add: runs_def sample_drivers_def forget_device_def)
  then show ?thesis by (simp add: pci_machine_def config_space_def config_silent_def inl_def outl_def sample_ports_def)
qed

lemma unat_eq_one: "unat (w :: u8) = Suc 0 \<longleftrightarrow> w = 1"
  by (simp add: word_unat_eq_iff)

lemma sample_bytes:
  "cfg_byte sample_config b sl f 10 = (if b = 0 \<and> f = 0 \<and> sl = 0 then 0 else if b = 0 \<and> f = 0 \<and> sl = 1 then 1 else 0xFF)"
  "cfg_byte sample_config b sl f 11 = (if b = 0 \<and> f = 0 \<and> sl = 0 then 6 else if b = 0 \<and> f = 0 \<and> sl = 1 then 1 else 0xFF)"
  "cfg_byte sample_config b sl f 14 = (if b = 0 \<and> f = 0 \<and> (sl = 0 \<or> sl = 1) then 0 else 0xFF)"
  "cfg_byte sample_config b sl f 0 = (if b = 0 \<and> f = 0 \<and> (sl = 0 \<or> sl = 1) then 0x86 else 0xFF)"
  "cfg_byte sample_config b sl f (Suc 0) = (if b = 0 \<and> f = 0 \<and> (sl = 0 \<or> sl = 1) then 0x80 else 0xFF)"
  by (auto simp: cfg_byte_def sample_config_def unat_eq_0 unat_eq_one)

lemma sample_header:
  "ph_class (function_header sample_config b sl f) = cfg_byte sample_config b sl f 11"
  "ph_subclass (function_header sample_config b sl f) = cfg_byte sample_config b sl f 10"
  "ph_header_type (function_header sample_config b sl f) = cfg_byte sample_config b sl f 14"
  "ph_vendor (function_header sample_config b sl f) = ucast (cfg_byte sample_config b sl f 0) OR push_bit 8 (ucast (cfg_byte sample_config b sl f 1))"
  by (simp_all add: function_header_def forget_command_def pci_header_of_def le16_def)

lemma sample_no_bridge: "bus_behind sample_config b sl f = None"
  by (simp add: bus_behind_def Let_def sample_header sample_bytes)

lemma concat_map_Nil: "(\<And>x. x \<in> set xs \<Longrightarrow> f x = []) \<Longrightarrow> concat (map f xs) = []"
  by (induction xs) auto

lemma sample_functions: "bus_functions sample_config 0 = [(0, 0, 0), (0, 1, 0)]"
proof -
  have there: "present sample_config 0 sl 0 \<longleftrightarrow> sl = 0 \<or> sl = 1" for sl
    by (simp add: present_def sample_header sample_bytes)
  have here: "slot_functions sample_config 0 sl = (if sl = 0 \<or> sl = 1 then [(0, sl, 0)] else [])" for sl
    by (simp add: slot_functions_def there functions_behind_def sample_no_bridge multi_func_def sample_header sample_bytes)
  have rest: "slot_functions sample_config 0 (of_nat i) = []" if "i \<in> set [2..<32]" for i
    using that by (auto simp: here)
  have "[0..<32] = 0 # 1 # [2..<32]" by (simp add: upt_rec)
  moreover have "concat (map (\<lambda>i. slot_functions sample_config 0 (of_nat i)) [2..<32]) = []"
    by (rule concat_map_Nil) (use rest in blast)
  ultimately show ?thesis by (simp add: bus_functions_slots here)
qed

theorem pci_discover_starts_drivers_witness:
  "\<forall>s. \<exists>s'. pci_discover_devices sample_ports sample_drivers s = Some s' \<and> kernel_end s' = 0xC001"
proof
  fix s
  have "buses_ascend sample_config" by (simp add: buses_ascend_def sample_no_bridge)
  moreover have "\<not> multi_func (function_header sample_config 0 0 0)" by (simp add: multi_func_def sample_header sample_bytes)
  ultimately obtain s' where "pci_discover_devices sample_ports sample_drivers s = Some s'"
    "kernel_end s' = fold (start_driver sample_config sample_act) [(0, 0, 0), (0, 1, 0)] (kernel_end s)"
    using pci_discover_starts_drivers[OF sample_machine] by (metis sample_functions)
  moreover have "fold (start_driver sample_config sample_act) [(0, 0, 0), (0, 1, 0)] x = 0xC001" for x
  proof -
    have "driver_for (function_header sample_config 0 0 0) = None" "driver_for (function_header sample_config 0 1 0) = Some Ata"
      by (simp_all add: driver_for_def header_kind_def sample_header sample_bytes)
    moreover have "base_address (function_device sample_config 0 1 0) ! 4 = 0xC001"
      by (simp add: function_device_def forget_device_def pci_device_of_def le32_def cfg_byte_def sample_config_def upt_rec)
    ultimately show ?thesis by (simp add: start_driver_def)
  qed
  ultimately show "\<exists>s'. pci_discover_devices sample_ports sample_drivers s = Some s' \<and> kernel_end s' = 0xC001" by auto
qed

end
