(* ===== verification/Interrupts.thy ===== *)
theory Interrupts
  imports Ports
begin

text \<open>
  Descriptor tables and interrupt dispatch: \<^verbatim>\<open>cpu/gdt.c\<close>, \<^verbatim>\<open>cpu/tss.c\<close>, \<^verbatim>\<open>cpu/idt.c\<close>, \<^verbatim>\<open>cpu/isr.c\<close>, \<^verbatim>\<open>cpu/irq.c\<close>,
  \<^verbatim>\<open>cpu/pic.c\<close> and \<^verbatim>\<open>cpu/interrupts.c\<close>. The instructions that load the tables into the processor have no effect on
  the modelled state. Functions are addresses; what the function at an address does is the argument \<open>code\<close> of the
  dispatchers. The entry points \<open>isr0\<close> to \<open>isr31\<close>, \<open>isr127\<close> and \<open>irq0\<close> to \<open>irq15\<close> are written in assembler.
\<close>

section \<open>Tables\<close>

record idt_entry =
  id_base_low :: u16
  id_selector :: u16
  id_zero :: u8
  id_flags :: u8
  id_base_high :: u16

record gdt_entry =
  gd_limit_low :: u16
  gd_base_low :: u16
  gd_base_middle :: u8
  gd_access :: u8
  gd_granularity :: u8
  gd_base_high :: u8

record tss_entry =
  prev_tss :: u32
  esp0 :: u32
  ss0 :: u32
  esp1 :: u32
  ss1 :: u32
  esp2 :: u32
  ss2 :: u32
  tss_cr3 :: u32
  tss_eip :: u32
  tss_eflags :: u32
  tss_eax :: u32
  tss_ecx :: u32
  tss_edx :: u32
  tss_ebx :: u32
  tss_esp :: u32
  tss_ebp :: u32
  tss_esi :: u32
  tss_edi :: u32
  tss_es :: u32
  tss_cs :: u32
  tss_ss :: u32
  tss_ds :: u32
  tss_fs :: u32
  tss_gs :: u32
  tss_ldt :: u32
  tss_trap :: u16
  iomap_base :: u16

record 'd cpu_state = "'d machine" +
  gdt :: "gdt_entry list"
  idt :: "idt_entry list"
  tss :: tss_entry
  irq_routines :: "ptr list"
  isr_routines :: "ptr list"
  was_interrupts_enabled :: bool

definition zero_tss :: tss_entry where
  "zero_tss = \<lparr>prev_tss = 0, esp0 = 0, ss0 = 0, esp1 = 0, ss1 = 0, esp2 = 0, ss2 = 0, tss_cr3 = 0, tss_eip = 0, tss_eflags = 0,
     tss_eax = 0, tss_ecx = 0, tss_edx = 0, tss_ebx = 0, tss_esp = 0, tss_ebp = 0, tss_esi = 0, tss_edi = 0, tss_es = 0,
     tss_cs = 0, tss_ss = 0, tss_ds = 0, tss_fs = 0, tss_gs = 0, tss_ldt = 0, tss_trap = 0, iomap_base = 0\<rparr>"

definition zero_gate :: idt_entry where
  "zero_gate = \<lparr>id_base_low = 0, id_selector = 0, id_zero = 0, id_flags = 0, id_base_high = 0\<rparr>"

section \<open>Segments\<close>

definition gdt_set_gate :: "nat \<Rightarrow> u32 \<Rightarrow> u32 \<Rightarrow> u8 \<Rightarrow> u8 \<Rightarrow> ('d, 'z) cpu_state_scheme \<Rightarrow> ('d, 'z) cpu_state_scheme" where
  "gdt_set_gate i base limit access gran s = s\<lparr>gdt := (gdt s)[i :=
     \<lparr>gd_limit_low = ucast (limit AND 0xFFFF), gd_base_low = ucast (base AND 0xFFFF),
      gd_base_middle = ucast (drop_bit 16 base AND 0xFF), gd_access = access,
      gd_granularity = ucast (drop_bit 16 limit AND 0x0F) OR (gran AND 0xF0),
      gd_base_high = ucast (drop_bit 24 base AND 0xFF)\<rparr>]\<rparr>"

text \<open>\<open>sizeof(tss)\<close> is 104; \<open>addr\<close> is the address of \<open>tss\<close>.\<close>

definition install_tss :: "ptr \<Rightarrow> nat \<Rightarrow> u16 \<Rightarrow> u32 \<Rightarrow> ('d, 'z) cpu_state_scheme \<Rightarrow> ('d, 'z) cpu_state_scheme" where
  "install_tss addr i ss esp s =
     (gdt_set_gate i addr (addr + 104) 0xE9 0x00 s)\<lparr>tss := zero_tss\<lparr>ss0 := ucast ss, esp0 := esp, tss_cs := 0x0b,
        tss_ss := 0x13, tss_ds := 0x13, tss_es := 0x13, tss_fs := 0x13, tss_gs := 0x13, iomap_base := 104\<rparr>\<rparr>"

definition set_kernel_stack :: "u32 \<Rightarrow> ('d, 'z) cpu_state_scheme \<Rightarrow> ('d, 'z) cpu_state_scheme" where
  "set_kernel_stack stack s = s\<lparr>tss := (tss s)\<lparr>esp0 := stack\<rparr>\<rparr>"

definition gdt_init :: "ptr \<Rightarrow> ('d, 'z) cpu_state_scheme \<Rightarrow> ('d, 'z) cpu_state_scheme" where
  "gdt_init tss_addr s =
     install_tss tss_addr 5 0x10 0x0
       (gdt_set_gate 4 0 0xFFFFFFFF (0x80 OR 0x60 OR 0x10 OR 0x00 OR 0x02) 0xCF
         (gdt_set_gate 3 0 0xFFFFFFFF (0x80 OR 0x60 OR 0x10 OR 0x08 OR 0x02) 0xCF
           (gdt_set_gate 2 0 0xFFFFFFFF (0x80 OR 0x00 OR 0x10 OR 0x00 OR 0x02) 0xCF
             (gdt_set_gate 1 0 0xFFFFFFFF (0x80 OR 0x00 OR 0x10 OR 0x08 OR 0x02) 0xCF
               (gdt_set_gate 0 0 0 0 0 s)))))"

section \<open>Gates\<close>

definition idt_set_gate :: "nat \<Rightarrow> u32 \<Rightarrow> u16 \<Rightarrow> u8 \<Rightarrow> ('d, 'z) cpu_state_scheme \<Rightarrow> ('d, 'z) cpu_state_scheme" where
  "idt_set_gate i base sel flags s = s\<lparr>idt := (idt s)[i :=
     \<lparr>id_base_low = ucast (base AND 0xFFFF), id_selector = sel, id_zero = 0, id_flags = flags OR 0x60,
      id_base_high = ucast (drop_bit 16 base AND 0xFFFF)\<rparr>]\<rparr>"

definition idt_init :: "('d, 'z) cpu_state_scheme \<Rightarrow> ('d, 'z) cpu_state_scheme" where
  "idt_init s = s\<lparr>idt := replicate 256 zero_gate\<rparr>"

definition isr_init :: "(nat \<Rightarrow> ptr) \<Rightarrow> ('d, 'z) cpu_state_scheme \<Rightarrow> ('d, 'z) cpu_state_scheme" where
  "isr_init isr s = fold (\<lambda>i. idt_set_gate i (isr i) 0x08 0x8E) ([0..<32] @ [127]) s"

definition irq_init :: "(nat \<Rightarrow> ptr) \<Rightarrow> ('d, 'z) cpu_state_scheme \<Rightarrow> ('d, 'z) cpu_state_scheme" where
  "irq_init irq s = fold (\<lambda>i. idt_set_gate (32 + i) (irq i) 0x08 0x8E) [0..<16] s"

definition syscall_init :: "ptr \<Rightarrow> ('d, 'z) cpu_state_scheme \<Rightarrow> ('d, 'z) cpu_state_scheme" where
  "syscall_init syscall_handler s = idt_set_gate 128 syscall_handler 0x08 0x8E s"

section \<open>The interrupt controllers\<close>

abbreviation (input) PIC1 :: u16 where "PIC1 \<equiv> 0x20"
abbreviation (input) PIC2 :: u16 where "PIC2 \<equiv> 0xA0"
abbreviation (input) PIC_COMMAND :: u16 where "PIC_COMMAND \<equiv> 0"
abbreviation (input) PIC_DATA :: u16 where "PIC_DATA \<equiv> 1"

definition pic_read :: "'d ports \<Rightarrow> u16 \<Rightarrow> u16 \<Rightarrow> 'd \<Rightarrow> u8 \<times> 'd" where
  "pic_read io pic reg d = inb io (pic + reg) d"

definition pic_write :: "'d ports \<Rightarrow> u16 \<Rightarrow> u16 \<Rightarrow> u8 \<Rightarrow> 'd \<Rightarrow> 'd" where
  "pic_write io pic reg data d = outb io (pic + reg) data d"

definition pic_send_eoi :: "'d ports \<Rightarrow> u8 \<Rightarrow> 'd \<Rightarrow> 'd" where
  "pic_send_eoi io irq d =
     pic_write io PIC1 PIC_COMMAND 0x20 (if irq \<ge> 8 then pic_write io PIC2 PIC_COMMAND 0x20 d else d)"

text \<open>\<open>ICW1_INIT | ICW1_ICW4\<close> is 0x11, \<open>ICW4_8086\<close> is 1.\<close>

definition pic_remap :: "'d ports \<Rightarrow> u8 \<Rightarrow> u8 \<Rightarrow> 'd \<Rightarrow> 'd" where
  "pic_remap io offset1 offset2 d =
     (let w = (\<lambda>pic reg v d. io_wait io (pic_write io pic reg v d));
          d1 = w PIC2 PIC_COMMAND 0x11 (w PIC1 PIC_COMMAND 0x11 d);
          d2 = w PIC2 PIC_DATA offset2 (w PIC1 PIC_DATA offset1 d1);
          d3 = w PIC2 PIC_DATA 2 (w PIC1 PIC_DATA 4 d2);
          d4 = w PIC2 PIC_DATA 1 (w PIC1 PIC_DATA 1 d3)
      in pic_write io PIC2 PIC_DATA 0 (pic_write io PIC1 PIC_DATA 0 d4))"

section \<open>Hardware interrupts\<close>

definition irq_install_handler :: "nat \<Rightarrow> ptr \<Rightarrow> ('d, 'z) cpu_state_scheme \<Rightarrow> ('d, 'z) cpu_state_scheme" where
  "irq_install_handler irq handler s = s\<lparr>irq_routines := (irq_routines s)[irq := handler]\<rparr>"

definition irq_uninstall_handler :: "nat \<Rightarrow> ('d, 'z) cpu_state_scheme \<Rightarrow> ('d, 'z) cpu_state_scheme" where
  "irq_uninstall_handler irq s = s\<lparr>irq_routines := (irq_routines s)[irq := 0]\<rparr>"

type_synonym ('d, 'z) code = "ptr \<Rightarrow> registers \<Rightarrow> u32 \<Rightarrow> ('d, 'z) cpu_state_scheme \<Rightarrow> (registers \<times> ('d, 'z) cpu_state_scheme) option"

definition irq_handler ::
  "'d ports \<Rightarrow> ('d, 'z) code \<Rightarrow> registers \<Rightarrow> ('d, 'z) cpu_state_scheme \<Rightarrow> (registers \<times> ('d, 'z) cpu_state_scheme) option" where
  "irq_handler io code r s = do {
     let h = irq_routines s ! unat (r_int_no r - 32);
     (r1, s1) \<leftarrow> (if h \<noteq> NULL then code h r (r_int_no r - 32) s else Some (r, s));
     Some (r1, to_dev (pic_send_eoi io (ucast (r_int_no r1 - 32))) s1) }"

text \<open>The port of the masks is taken to be the controller's first port.\<close>

definition irq_mask :: "'d ports \<Rightarrow> u8 \<Rightarrow> 'd \<Rightarrow> 'd" where
  "irq_mask io irq d =
     (let (port, i) = (if irq < 8 then (PIC1, irq) else (PIC2, irq - 8));
          (v, d1) = inb io port d
      in outb io port (v OR push_bit (unat i) 1) d1)"

definition irq_unmask :: "'d ports \<Rightarrow> u8 \<Rightarrow> 'd \<Rightarrow> 'd" where
  "irq_unmask io irq d =
     (let (port, i) = (if irq < 8 then (PIC1, irq) else (PIC2, irq - 8));
          (v, d1) = inb io port d
      in outb io port (v AND NOT (push_bit (unat i) 1)) d1)"

section \<open>Exceptions\<close>

definition isr_install_handler :: "nat \<Rightarrow> ptr \<Rightarrow> ('d, 'z) cpu_state_scheme \<Rightarrow> ('d, 'z) cpu_state_scheme" where
  "isr_install_handler isr handler s = s\<lparr>isr_routines := (isr_routines s)[isr := handler]\<rparr>"

definition isr_uninstall_handler :: "nat \<Rightarrow> ('d, 'z) cpu_state_scheme \<Rightarrow> ('d, 'z) cpu_state_scheme" where
  "isr_uninstall_handler isr s = s\<lparr>isr_routines := (isr_routines s)[isr := 0]\<rparr>"

text \<open>A panic does not return: for an exception inside the kernel it stops the machine, and without a current process
  it dereferences a null pointer.\<close>

definition isr_fault_handler ::
  "('d, 'z) code \<Rightarrow> registers \<Rightarrow> ('d, 'z) cpu_state_scheme \<Rightarrow> (registers \<times> ('d, 'z) cpu_state_scheme) option" where
  "isr_fault_handler code r s =
     (if r_int_no r < 32 \<or> r_int_no r = 127
      then if r_int_no r < 32 \<and> isr_routines s ! unat (r_int_no r) \<noteq> NULL
           then code (isr_routines s ! unat (r_int_no r)) r (r_int_no r) s
           else if r_cs r AND 3 \<noteq> 0 \<and> current_process s \<noteq> NULL
           then process_handle_int (current_process s) r s
           else None
      else Some (r, s))"

section \<open>The interrupt flag\<close>

text \<open>Only the remembered setting is part of the state.\<close>

definition interrupts_was_enabled :: "('d, 'z) cpu_state_scheme \<Rightarrow> bool" where
  "interrupts_was_enabled s = was_interrupts_enabled s"

definition interrupts_enable :: "('d, 'z) cpu_state_scheme \<Rightarrow> ('d, 'z) cpu_state_scheme" where
  "interrupts_enable s = s\<lparr>was_interrupts_enabled := True\<rparr>"

end
