(* ===== verification/Interrupts_Laws.thy ===== *)
theory Interrupts_Laws
  imports Interrupts
begin

text \<open>
  The descriptors hold what they are given, the vectors lead to their entry points, and interrupts reach the
  handlers that were installed for them.
\<close>

section \<open>Segments\<close>

definition gate_base :: "gdt_entry \<Rightarrow> u32" where
  "gate_base e = ucast (gd_base_low e) OR push_bit 16 (ucast (gd_base_middle e)) OR push_bit 24 (ucast (gd_base_high e))"

definition gate_limit :: "gdt_entry \<Rightarrow> u32" where
  "gate_limit e = ucast (gd_limit_low e) OR push_bit 16 (ucast (gd_granularity e AND 0x0F))"

lemma bit_masks:
  "bit (0xFF :: int) n \<longleftrightarrow> n < 8" "bit (0xFFFF :: int) n \<longleftrightarrow> n < 16" "bit (0x0F :: int) n \<longleftrightarrow> n < 4"
  "bit (0xF0 :: int) n \<longleftrightarrow> 4 \<le> n \<and> n < 8"
proof -
  show "bit (0xFF :: int) n \<longleftrightarrow> n < 8" "bit (0xFFFF :: int) n \<longleftrightarrow> n < 16" "bit (0x0F :: int) n \<longleftrightarrow> n < 4"
    using bit_mask_iff[of 8 n, where 'a = int] bit_mask_iff[of 16 n, where 'a = int] bit_mask_iff[of 4 n, where 'a = int]
    by (auto simp: mask_eq_exp_minus_1)
  have "(0xF0 :: int) = push_bit 4 (mask 4)" by (simp add: mask_eq_exp_minus_1 push_bit_eq_mult)
  then show "bit (0xF0 :: int) n \<longleftrightarrow> 4 \<le> n \<and> n < 8" by (simp only: bit_push_bit_iff bit_mask_iff) auto
qed

lemma gdt_set_gate_base:
  assumes "i < length (gdt s)"
  shows "gate_base (gdt (gdt_set_gate i base limit access gran s) ! i) = base"
proof (rule bit_word_eqI)
  fix n assume "n < LENGTH(32)"
  then show "bit (gate_base (gdt (gdt_set_gate i base limit access gran s) ! i)) n = bit base n"
    using assms by (cases "24 \<le> n") (auto simp: gdt_set_gate_def gate_base_def bit_simps bit_masks)
qed

text \<open>The limit has 20 bits.\<close>

lemma gdt_set_gate_limit:
  assumes "i < length (gdt s)"
  shows "gate_limit (gdt (gdt_set_gate i base limit access gran s) ! i) = take_bit 20 limit"
  using assms by (intro bit_word_eqI) (auto simp: gdt_set_gate_def gate_limit_def bit_simps bit_masks)

section \<open>Vectors\<close>

definition gate_handler :: "idt_entry \<Rightarrow> u32 option" where
  "gate_handler e = (if bit (id_flags e) 7 then Some (ucast (id_base_low e) OR push_bit 16 (ucast (id_base_high e))) else None)"

text \<open>The lowest privilege that may raise the interrupt by an instruction.\<close>

definition gate_privilege :: "idt_entry \<Rightarrow> u8" where
  "gate_privilege e = drop_bit 5 (id_flags e) AND 3"

lemma length_idt_set_gate [simp]: "length (idt (idt_set_gate i base sel flags s)) = length (idt s)"
  by (simp add: idt_set_gate_def)

lemma idt_set_gate_handler:
  assumes "n < length (idt s)"
  shows "gate_handler (idt (idt_set_gate i base sel 0x8E s) ! n) = (if n = i then Some base else gate_handler (idt s ! n))"
proof -
  have "ucast (ucast (base AND 0xFFFF) :: u16) OR push_bit 16 (ucast (ucast (drop_bit 16 base AND 0xFFFF) :: u16)) = base"
    by (rule bit_word_eqI) (auto simp: bit_simps bit_masks)
  then show ?thesis using assms by (simp add: idt_set_gate_def gate_handler_def nth_list_update)
qed

lemma fold_gates:
  assumes "n < length (idt s)"
  shows "gate_handler (idt (fold (\<lambda>i. idt_set_gate (f i) (g i) sel 0x8E) is s) ! n) =
    (case List.find (\<lambda>i. f i = n) (rev is) of Some i \<Rightarrow> Some (g i) | None \<Rightarrow> gate_handler (idt s ! n))"
  using assms
proof (induction "is" arbitrary: s)
  case (Cons i "is")
  have "n < length (idt (idt_set_gate (f i) (g i) sel 0x8E s))" using Cons.prems by simp
  then show ?case using Cons by (simp add: find_append idt_set_gate_handler split: option.splits)
qed simp

lemma find_point:
  assumes "i \<in> set xs" "f i = n" "\<And>j. f j = n \<Longrightarrow> j = i"
  shows "List.find (\<lambda>i. f i = n) xs = Some i"
proof (cases "List.find (\<lambda>i. f i = n) xs")
  case None
  then show ?thesis using assms(1,2) by (auto simp: find_None_iff)
next
  case (Some j)
  then show ?thesis using find_SomeD[OF Some] assms(3) by auto
qed

lemma length_fold_gates [simp]: "length (idt (fold (\<lambda>i. idt_set_gate (f i) (g i) sel flags) is s)) = length (idt s)"
  by (induction "is" arbitrary: s) auto

lemma isr_init_handler:
  assumes "n < length (idt s)"
  shows "gate_handler (idt (isr_init isr s) ! n) = (if n < 32 \<or> n = 127 then Some (isr n) else gate_handler (idt s ! n))"
proof -
  have "List.find (\<lambda>i. i = n) (rev ([0..<32] @ [127])) = (if n < 32 \<or> n = 127 then Some n else None)"
    using find_point[of n "rev ([0..<32] @ [127])" "\<lambda>i. i" n] by (auto simp: find_None_iff)
  then show ?thesis using fold_gates[OF assms, of "\<lambda>i. i" isr 8 "[0..<32] @ [127]"] by (simp add: isr_init_def)
qed

lemma irq_init_handler:
  assumes "n < length (idt s)"
  shows "gate_handler (idt (irq_init irq s) ! n) = (if 32 \<le> n \<and> n < 48 then Some (irq (n - 32)) else gate_handler (idt s ! n))"
proof -
  have "List.find (\<lambda>i. 32 + i = n) (rev [0..<16]) = (if 32 \<le> n \<and> n < 48 then Some (n - 32) else None)"
  proof (cases "32 \<le> n \<and> n < 48")
    case True
    then have "n - 32 \<in> set (rev [0..<16])" by (simp only: set_rev set_upt) auto
    then show ?thesis unfolding if_P[OF True] by (rule find_point) (use True in auto)
  next
    case False
    then have "List.find (\<lambda>i. 32 + i = n) (rev [0..<16]) = None" by (simp only: find_None_iff set_rev set_upt) auto
    then show ?thesis unfolding if_not_P[OF False] .
  qed
  then show ?thesis using fold_gates[OF assms, of "\<lambda>i. 32 + i" irq 8 "[0..<16]"] by (simp add: irq_init_def)
qed

text \<open>C36: Interrupt vectors. After the initialisation of the kernel, exceptions 0 to 31 and vector 127 lead to their
  entry points, vectors 32 to 47 to those of the 16 hardware interrupts, vector 128 to the system call handler, and
  every other vector is absent.\<close>

theorem interrupt_vectors_installed:
  assumes "n < 256"
  shows "gate_handler (idt (syscall_init h (irq_init irq (isr_init isr (idt_init s)))) ! n) =
    (if n < 32 \<or> n = 127 then Some (isr n) else if n < 48 then Some (irq (n - 32)) else if n = 128 then Some h else None)"
proof -
  have l: "length (idt (idt_init s)) = 256" by (simp add: idt_init_def)
  then have l2: "length (idt (isr_init isr (idt_init s))) = 256" by (simp add: isr_init_def)
  then have l3: "length (idt (irq_init irq (isr_init isr (idt_init s)))) = 256" by (simp add: irq_init_def)
  have z: "gate_handler (idt (idt_init s) ! n) = None" using assms by (simp add: idt_init_def zero_gate_def gate_handler_def)
  show ?thesis
    using assms l l2 l3 by (simp add: syscall_init_def idt_set_gate_handler irq_init_handler isr_init_handler z)
qed

theorem interrupt_vectors_installed_witness:
  "(14 :: nat) < 256 \<and> (\<forall>s :: (unit, unit) cpu_state_scheme.
     gate_handler (idt (syscall_init 9 (irq_init (\<lambda>i. of_nat (100 + i)) (isr_init of_nat (idt_init s)))) ! 14) = Some 14)"
proof (intro conjI allI)
  fix s :: "(unit, unit) cpu_state_scheme"
  show "gate_handler (idt (syscall_init 9 (irq_init (\<lambda>i. of_nat (100 + i)) (isr_init of_nat (idt_init s)))) ! 14) = Some 14"
    using interrupt_vectors_installed[of 14 9 "\<lambda>i. of_nat (100 + i)" of_nat s] by simp
qed simp

text \<open>Every gate may be used by user programs: the flags get privilege level 3 whatever they were.\<close>

lemma idt_set_gate_user:
  assumes "i < length (idt s)"
  shows "gate_privilege (idt (idt_set_gate i base sel flags s) ! i) = 3"
proof -
  have "bit (0x60 :: int) n \<longleftrightarrow> n = 5 \<or> n = 6" for n
  proof -
    have "(0x60 :: int) = push_bit 5 (mask 2)" by (simp add: mask_eq_exp_minus_1 push_bit_eq_mult)
    then show ?thesis by (simp only: bit_push_bit_iff bit_mask_iff) auto
  qed
  moreover have "bit (3 :: int) n \<longleftrightarrow> n < 2" for n
    using bit_mask_iff[of 2 n, where 'a = int] by (simp add: mask_eq_exp_minus_1)
  ultimately show ?thesis
    using assms by (intro bit_word_eqI) (auto simp: idt_set_gate_def gate_privilege_def bit_simps)
qed

end
