(* ===== verification/Timer.thy ===== *)
theory Timer
  imports Interrupts "HOL-Library.Signed_Division"
begin

text \<open>
  The clock: \<^verbatim>\<open>modules/cmos.c\<close> and \<^verbatim>\<open>modules/timer.c\<close>. The handler of the timer interrupt counts, and calls the
  scheduler when the count is a multiple of 1000. When \<open>display_time\<close> is set it also reads the clock
  and prints a status line; the calls that print it are the argument \<open>status_line\<close>. Nothing in the kernel sets it.
\<close>

section \<open>The real-time clock\<close>

record rtc_time =
  hour :: u8
  minute :: u8
  second :: u8

record rtc_date =
  year :: u32
  month :: u32
  day :: u32

record 'd timer_state = "'d cpu_state" +
  t_time :: rtc_time
  t_date :: rtc_date
  display_time :: bool

definition read_cmos_register :: "'d ports \<Rightarrow> u8 \<Rightarrow> u8 \<Rightarrow> 'd \<Rightarrow> u8 \<times> 'd" where
  "read_cmos_register io reg nmi d = inb io 0x71 (outb io 0x70 (push_bit 7 nmi OR reg) d)"

definition from_bcd :: "int \<Rightarrow> int" where
  "from_bcd val = (val sdiv 16) * 10 + (val smod 16)"

definition read_bcd :: "'d ports \<Rightarrow> u8 \<Rightarrow> 'd \<Rightarrow> int \<times> 'd" where
  "read_bcd io reg d = (let (v, d1) = read_cmos_register io reg 1 d in (from_bcd (uint v), d1))"

definition read_rtc :: "'d ports \<Rightarrow> ('d, 'z) timer_state_scheme \<Rightarrow> ('d, 'z) timer_state_scheme" where
  "read_rtc io s =
     (let (sec, d1) = read_bcd io 0x00 (dev s);
          (mi, d2) = read_bcd io 0x02 d1;
          (ho, d3) = read_bcd io 0x04 d2;
          (da, d4) = read_bcd io 0x07 d3;
          (mo, d5) = read_bcd io 0x08 d4;
          (ye, d6) = read_bcd io 0x09 d5;
          (c, d7) = read_bcd io 0x32 d6;
          y = of_int ye :: u32;
          century = (if c = 0 then (if y \<ge> 90 then 19 else 20) else c)
      in s\<lparr>dev := d7, t_time := \<lparr>hour = of_int ho, minute = of_int mi, second = of_int sec\<rparr>,
           t_date := \<lparr>year = y + of_int (century * 100), month = of_int mo, day = of_int da\<rparr>\<rparr>)"

definition rtc_init :: "'d ports \<Rightarrow> ('d, 'z) timer_state_scheme \<Rightarrow> ('d, 'z) timer_state_scheme" where
  "rtc_init io s = read_rtc io (to_dev (\<lambda>d. outb io 0x71 0x20 (outb io 0x70 0x8A d)) s)"

section \<open>The timer\<close>

definition timer_phase :: "'d ports \<Rightarrow> int \<Rightarrow> 'd \<Rightarrow> 'd" where
  "timer_phase io hz d =
     (let divisor = 1193180 sdiv hz
      in outb io 0x40 (of_int (divisor div 256)) (outb io 0x40 (of_int divisor) (outb io 0x43 0x36 d)))"

text \<open>\<open>timer_ticks\<close> is a signed integer; the sum wraps around.\<close>

definition timer_irq_handler ::
  "'d ports \<Rightarrow> (registers \<Rightarrow> ('d, 'z) timer_state_scheme \<Rightarrow> ('d, 'z) timer_state_scheme option) \<Rightarrow> registers
     \<Rightarrow> ('d, 'z) timer_state_scheme \<Rightarrow> (registers \<times> ('d, 'z) timer_state_scheme) option" where
  "timer_irq_handler io status_line r s = do {
     let s1 = s\<lparr>timer_ticks := timer_ticks s + 100\<rparr>;
     let full = (sint (timer_ticks s1) smod 1000 = 0);
     s2 \<leftarrow> (if display_time s1 \<and> full then status_line r (read_rtc io s1) else Some s1);
     if full then process_round_robin r s2 else Some (r, s2) }"

text \<open>The loop compares as unsigned numbers. \<open>hlt\<close> is what happens until the processor goes on.\<close>

partial_function (option) wait_until ::
  "(('d, 'z) machine_scheme \<Rightarrow> ('d, 'z) machine_scheme) \<Rightarrow> u32 \<Rightarrow> ('d, 'z) machine_scheme \<Rightarrow> ('d, 'z) machine_scheme option" where
  "wait_until hlt elapsed_ticks s = (if timer_ticks s < elapsed_ticks then wait_until hlt elapsed_ticks (hlt s) else Some s)"

definition timer_wait ::
  "(('d, 'z) machine_scheme \<Rightarrow> ('d, 'z) machine_scheme) \<Rightarrow> u32 \<Rightarrow> ('d, 'z) machine_scheme \<Rightarrow> ('d, 'z) machine_scheme option" where
  "timer_wait hlt ms s = wait_until hlt (timer_ticks s + ms) s"

definition timer_init :: "'d ports \<Rightarrow> ptr \<Rightarrow> ('d, 'z) timer_state_scheme \<Rightarrow> ('d, 'z) timer_state_scheme" where
  "timer_init io handler s = irq_install_handler 0 handler (to_dev (timer_phase io 100) (rtc_init io s))"

definition timer_enable_display :: "('d, 'z) timer_state_scheme \<Rightarrow> ('d, 'z) timer_state_scheme" where
  "timer_enable_display s = s\<lparr>display_time := True\<rparr>"

definition timer_disable_display :: "('d, 'z) timer_state_scheme \<Rightarrow> ('d, 'z) timer_state_scheme" where
  "timer_disable_display s = s\<lparr>display_time := False\<rparr>"

end
