(* ===== verification/Timer_Laws.thy ===== *)
theory Timer_Laws
  imports Timer Kstdlib_Laws
begin

text \<open>
  The clock is read as it is set, waiting ends after the right number of timer interrupts, and the scheduler runs at
  every tenth of them until the counter overflows.
\<close>

section \<open>Reading the clock\<close>

text \<open>Two decimal digits in the halves of a byte.\<close>

definition to_bcd :: "nat \<Rightarrow> u8" where
  "to_bcd n = of_nat (16 * (n div 10) + n mod 10)"

lemma from_bcd_to_bcd:
  assumes "n < 100"
  shows "from_bcd (uint (to_bcd n)) = int n"
proof -
  have "n div 10 < 10" "n mod 10 < 10" using assms by (simp_all add: less_mult_imp_div_less)
  then have "16 * (n div 10) + n mod 10 < 256" by linarith
  then have "unat (to_bcd n) = 16 * (n div 10) + n mod 10" by (simp only: to_bcd_def) (simp add: unat_of_nat_small del: of_nat_add of_nat_mult)
  then have u: "uint (to_bcd n) = int (16 * (n div 10) + n mod 10)" by (metis uint_nat)
  have d: "int a sdiv 16 = int (a div 16)" "int a smod 16 = int (a mod 16)" for a
    by (simp_all add: signed_divide_int_def signed_modulo_int_def sgn_if zdiv_int zmod_int minus_div_mult_eq_mod)
  have "(16 * (n div 10) + n mod 10) div 16 = n div 10" "(16 * (n div 10) + n mod 10) mod 16 = n mod 10"
    using \<open>n mod 10 < 10\<close> by simp_all
  moreover have "int (n div 10) * 10 + int (n mod 10) = int n"
    using div_mult_mod_eq[of n 10] by (metis of_nat_add of_nat_mult of_nat_numeral)
  ultimately show ?thesis by (simp only: from_bcd_def u d)
qed

text \<open>The clock's memory: the register whose number is written to port 0x70 is read at port 0x71.\<close>

definition cmos_holds :: "'d ports \<Rightarrow> (u8 \<Rightarrow> u8) \<Rightarrow> ('d \<Rightarrow> bool) \<Rightarrow> bool" where
  "cmos_holds io reg P \<longleftrightarrow> (\<forall>d r v d'. P d \<longrightarrow> r < 0x80 \<longrightarrow> inb io 0x71 (outb io 0x70 (0x80 OR r) d) = (v, d') \<longrightarrow> v = reg r \<and> P d')"

lemma read_bcd_value:
  assumes "cmos_holds io reg P" "P d" "r < 0x80" "reg r = to_bcd n" "n < 100"
  shows "\<exists>d'. read_bcd io r d = (int n, d') \<and> P d'"
proof -
  obtain v d' where r: "inb io 0x71 (outb io 0x70 (0x80 OR r) d) = (v, d')" by fastforce
  then have "v = to_bcd n" "P d'" using assms(1-4) by (auto simp: cmos_holds_def)
  then show ?thesis using r from_bcd_to_bcd[OF assms(5)] by (simp add: read_bcd_def read_cmos_register_def push_bit_eq_mult)
qed

text \<open>The registers of the clock at a date and time, the century register being optional.\<close>

definition clock_shows :: "(u8 \<Rightarrow> u8) \<Rightarrow> nat \<Rightarrow> nat \<Rightarrow> nat \<Rightarrow> nat \<Rightarrow> nat \<Rightarrow> nat \<Rightarrow> bool" where
  "clock_shows reg y mo da ho mi se \<longleftrightarrow> reg 0x00 = to_bcd se \<and> reg 0x02 = to_bcd mi \<and> reg 0x04 = to_bcd ho \<and>
     reg 0x07 = to_bcd da \<and> reg 0x08 = to_bcd mo \<and> reg 0x09 = to_bcd (y mod 100) \<and>
     (reg 0x32 = to_bcd (y div 100) \<and> 100 \<le> y \<or> reg 0x32 = 0 \<and> 1990 \<le> y \<and> y < 2090)"

lemma to_bcd_0: "to_bcd 0 = 0"
  by (simp add: to_bcd_def)

text \<open>C35: Reading the clock. If the clock shows a date and a time, with the century in its register or, where that is
  0, a year from 1990 to 2089, then \<open>read_rtc\<close> sets the kernel's date and time to it, and nothing else changes.\<close>

theorem read_rtc_correct:
  assumes c: "cmos_holds io reg P" "P (dev s)" and sh: "clock_shows reg y mo da ho mi se"
    and ranges: "y < 10000" "mo < 100" "da < 100" "ho < 100" "mi < 100" "se < 100"
  shows "\<exists>d. P d \<and> read_rtc io s = s\<lparr>dev := d, t_time := \<lparr>hour = of_nat ho, minute = of_nat mi, second = of_nat se\<rparr>,
    t_date := \<lparr>year = of_nat y, month = of_nat mo, day = of_nat da\<rparr>\<rparr>"
proof -
  obtain cc where cc: "reg 0x32 = to_bcd cc" "cc < 100" "(if cc = 0 then (if y mod 100 \<ge> 90 then 19 else 20) else cc) = y div 100"
  proof (cases "reg 0x32 = 0")
    case True
    show ?thesis
    proof (rule that[of 0])
      have "(if 90 \<le> y mod 100 then 19 else 20) = y div 100" if "1990 \<le> y" "y < 2090"
        using that div_mult_mod_eq[of y 100] mod_less_divisor[of 100 y] by (cases "90 \<le> y mod 100") (simp_all only: if_True if_False; linarith)+
      moreover have "1990 \<le> y \<and> y < 2090" if "to_bcd (y div 100) = 0" "100 \<le> y"
        using from_bcd_to_bcd[of "y div 100"] from_bcd_to_bcd[of 0] that ranges(1) by (simp add: to_bcd_0)
      ultimately show "(if 0 = (0 :: nat) then if 90 \<le> y mod 100 then 19 else 20 else 0) = y div 100"
        using sh True by (auto simp: clock_shows_def)
    qed (simp_all add: True to_bcd_0)
  next
    case False
    then show ?thesis using that[of "y div 100"] sh ranges(1) by (auto simp: clock_shows_def)
  qed
  note rd = read_bcd_value[OF c(1)]
  obtain d1 where 1: "read_bcd io 0x00 (dev s) = (int se, d1)" "P d1" using rd[OF c(2), of 0 se] sh ranges by (auto simp: clock_shows_def)
  obtain d2 where 2: "read_bcd io 0x02 d1 = (int mi, d2)" "P d2" using rd[OF 1(2), of 2 mi] sh ranges by (auto simp: clock_shows_def)
  obtain d3 where 3: "read_bcd io 0x04 d2 = (int ho, d3)" "P d3" using rd[OF 2(2), of 4 ho] sh ranges by (auto simp: clock_shows_def)
  obtain d4 where 4: "read_bcd io 0x07 d3 = (int da, d4)" "P d4" using rd[OF 3(2), of 7 da] sh ranges by (auto simp: clock_shows_def)
  obtain d5 where 5: "read_bcd io 0x08 d4 = (int mo, d5)" "P d5" using rd[OF 4(2), of 8 mo] sh ranges by (auto simp: clock_shows_def)
  obtain d6 where 6: "read_bcd io 0x09 d5 = (int (y mod 100), d6)" "P d6"
    using rd[OF 5(2), of 9 "y mod 100"] sh by (auto simp: clock_shows_def)
  obtain d7 where 7: "read_bcd io 0x32 d6 = (int cc, d7)" "P d7" using rd[OF 6(2), of "0x32" cc] cc by auto
  have y90: "((90 :: u32) \<le> of_nat (y mod 100)) = (90 \<le> y mod 100)" by (simp add: word_le_nat_alt unat_of_nat_small)
  have century: "(if int cc = 0 then (if (90 :: u32) \<le> of_nat (y mod 100) then 19 else 20) else int cc) = int (y div 100)"
    using cc(3) unfolding y90 by (auto split: if_splits)
  have whole: "(of_nat (y mod 100) :: u32) + of_int (int (y div 100) * 100) = of_nat y"
  proof -
    have "(of_nat (y mod 100) :: u32) + of_int (int (y div 100) * 100) = of_nat (y mod 100 + y div 100 * 100)"
      by (simp only: of_nat_add of_nat_mult of_int_mult of_int_of_nat_eq of_int_numeral of_nat_numeral)
    then show ?thesis by (simp only: mod_div_mult_eq)
  qed
  have "read_rtc io s = s\<lparr>dev := d7, t_time := \<lparr>hour = of_nat ho, minute = of_nat mi, second = of_nat se\<rparr>,
    t_date := \<lparr>year = of_nat y, month = of_nat mo, day = of_nat da\<rparr>\<rparr>"
    unfolding read_rtc_def Let_def 1(1) 2(1) 3(1) 4(1) 5(1) 6(1) 7(1) prod.case of_int_of_nat_eq century whole by simp
  then show ?thesis using 7(2) by blast
qed

text \<open>A clock that shows 31 December 1999, 23:59:58; its state is the selected register.\<close>

definition sample_clock :: "u8 \<Rightarrow> u8" where
  "sample_clock r = (if r = 0 then 0x58 else if r = 2 then 0x59 else if r = 4 then 0x23 else if r = 7 then 0x31
     else if r = 8 then 0x12 else if r = 9 then 0x99 else 0)"

definition sample_cmos :: "u8 ports" where
  "sample_cmos = \<lparr>port_in8 = \<lambda>p d. (sample_clock d, d), port_in16 = \<lambda>_ d. (0, d), port_in32 = \<lambda>_ d. (0, d),
     port_out8 = \<lambda>p v d. if p = 0x70 then v AND 0x7F else d, port_out16 = \<lambda>_ _ d. d, port_out32 = \<lambda>_ _ d. d\<rparr>"

lemma sample_cmos_holds: "cmos_holds sample_cmos sample_clock (\<lambda>_. True)"
proof -
  have "(0x80 OR r) AND 0x7F = r" if "r < 0x80" for r :: u8
  proof -
    have "\<forall>n < 128. ((0x80 :: u8) OR of_nat n) AND 0x7F = of_nat n" by code_simp
    moreover have "unat r < 128" using that by (simp add: word_less_nat_alt)
    ultimately have "(0x80 OR of_nat (unat r)) AND 0x7F = (of_nat (unat r) :: u8)" by blast
    then show ?thesis by simp
  qed
  then show ?thesis by (simp add: cmos_holds_def inb_def outb_def sample_cmos_def)
qed

theorem read_rtc_correct_witness:
  "\<forall>s. t_date (read_rtc sample_cmos s) = \<lparr>year = 1999, month = 12, day = 31\<rparr> \<and>
     t_time (read_rtc sample_cmos s) = \<lparr>hour = 23, minute = 59, second = 58\<rparr>"
proof
  fix s
  have "clock_shows sample_clock 1999 12 31 23 59 58" by (simp add: clock_shows_def sample_clock_def to_bcd_def)
  from read_rtc_correct[OF sample_cmos_holds _ this, of s]
  obtain d where "read_rtc sample_cmos s = s\<lparr>dev := d, t_time := \<lparr>hour = of_nat 23, minute = of_nat 59, second = of_nat 58\<rparr>,
    t_date := \<lparr>year = of_nat 1999, month = of_nat 12, day = of_nat 31\<rparr>\<rparr>" by auto
  then show "t_date (read_rtc sample_cmos s) = \<lparr>year = 1999, month = 12, day = 31\<rparr> \<and>
     t_time (read_rtc sample_cmos s) = \<lparr>hour = 23, minute = 59, second = 58\<rparr>" by simp
qed

section \<open>Waiting\<close>



section \<open>Scheduling\<close>

lemma sint_of_nat_u32:
  "m < 2 ^ 31 \<Longrightarrow> sint (of_nat m :: u32) = int m"
  "2 ^ 31 \<le> m \<Longrightarrow> m < 2 ^ 32 + 2 ^ 31 \<Longrightarrow> sint (of_nat m :: u32) = int m - 2 ^ 32"
proof -
  have s: "sint (of_nat m :: u32) = (int m + 2 ^ 31) mod 2 ^ 32 - 2 ^ 31"
    by (simp add: signed_of_nat signed_take_bit_eq_take_bit_shift take_bit_eq_mod)
  show "m < 2 ^ 31 \<Longrightarrow> sint (of_nat m :: u32) = int m" unfolding s by simp
  assume "2 ^ 31 \<le> m" "m < 2 ^ 32 + 2 ^ 31"
  moreover have "(int m + 2 ^ 31) mod 2 ^ 32 = (int m + 2 ^ 31 - 2 ^ 32) mod 2 ^ 32" by (simp only: minus_mod_self2)
  ultimately show "sint (of_nat m :: u32) = int m - 2 ^ 32" unfolding s by simp
qed

text \<open>C20: Preemption. While the status line is off: of the first 21474836 timer interrupts, every tenth calls the scheduler and the others only
  count. With the next one the counter overflows, and from then on, for more than 42 million interrupts, none calls
  the scheduler.\<close>

theorem timer_tick_schedules:
  assumes "timer_ticks s = of_nat (100 * n)" "s' = s\<lparr>timer_ticks := of_nat (100 * Suc n)\<rparr>" "n < 64424509" "\<not> display_time s"
  shows "timer_irq_handler io line r s = (if n < 21474836 \<and> 10 dvd Suc n then process_round_robin r s' else Some (r, s'))"
proof -
  have h: "timer_irq_handler io line r s = (if sint (of_nat (100 * Suc n) :: u32) smod 1000 = 0 then process_round_robin r s' else Some (r, s'))"
    using assms by (simp add: timer_irq_handler_def Let_def add.commute)
  have "(sint (of_nat (100 * Suc n) :: u32) smod 1000 = 0) = (n < 21474836 \<and> 10 dvd Suc n)"
  proof (cases "n < 21474836")
    case True
    then have "sint (of_nat (100 * Suc n) :: u32) = int (100 * Suc n)" by (intro sint_of_nat_u32) simp
    moreover have "int (100 * Suc n) smod 1000 = int (100 * Suc n mod 1000)" using sdiv_smod_nat(2)[of "100 * Suc n" 1000] by simp
    moreover have "100 * Suc n mod 1000 = 100 * (Suc n mod 10)" using mult_mod_right[of 100 "Suc n" 10] by simp
    ultimately show ?thesis using True by (simp add: dvd_eq_mod_eq_0)
  next
    case False
    then have e: "sint (of_nat (100 * Suc n) :: u32) = int (100 * Suc n) - 2 ^ 32" using assms(3) by (intro sint_of_nat_u32) simp_all
    have "int (100 * Suc n) - 2 ^ 32 = 100 * (int n - 42949672) + 4" by simp
    then have "\<not> 100 dvd int (100 * Suc n) - 2 ^ 32" by presburger
    moreover have "100 dvd x" if "x smod 1000 = 0" for x :: int
    proof (rule dvdI)
      show "x = 100 * (10 * (x sdiv 1000))" using that sdiv_mult_smod_eq[of x 1000] by simp
    qed
    ultimately show ?thesis using False unfolding e by blast
  qed
  then show ?thesis unfolding h by (simp only:)
qed

theorem timer_tick_schedules_witness:
  "\<forall>r s. timer_irq_handler sample_cmos (\<lambda>_. Some) r (s\<lparr>timer_ticks := 900, display_time := False\<rparr>) =
       process_round_robin r (s\<lparr>timer_ticks := 1000, display_time := False\<rparr>) \<and>
     timer_irq_handler sample_cmos (\<lambda>_. Some) r (s\<lparr>timer_ticks := 0x80000000 - 48, display_time := False\<rparr>) =
       Some (r, s\<lparr>timer_ticks := 0x80000000 + 52, display_time := False\<rparr>)"
proof (intro allI conjI)
  fix r and s :: "(u8, 'z) timer_state_scheme"
  let ?s = "\<lambda>t. s\<lparr>timer_ticks := t, display_time := False\<rparr>"
  show "timer_irq_handler sample_cmos (\<lambda>_. Some) r (?s 900) = process_round_robin r (?s 1000)"
    using timer_tick_schedules[of "?s 900" 9 "?s 1000" sample_cmos "\<lambda>_. Some" r] by simp
  show "timer_irq_handler sample_cmos (\<lambda>_. Some) r (?s (0x80000000 - 48)) = Some (r, ?s (0x80000000 + 52))"
    using timer_tick_schedules[of "?s (0x80000000 - 48)" 21474836 "?s (0x80000000 + 52)" sample_cmos "\<lambda>_. Some" r] by simp
qed

end
