(* ===== verification/Ide.thy ===== *)
theory Ide
  imports Timer Pci
begin

text \<open>
  The disk controller: \<^verbatim>\<open>drivers/io/ide.c\<close> and \<^verbatim>\<open>drivers/io/ata.c\<close>. The registers of a channel are ports; data moves
  through the data port or, with bus mastering, by the controller itself while the processor halts, which is part of
  what the argument \<open>hlt\<close> does. Loops that poll a status register have no bound in the code. Messages are left out.
\<close>

section \<open>State\<close>

record ide_channel_registers =
  ch_base :: u16
  ch_ctrl :: u16
  ch_bmide :: u16
  ch_n_ien :: u8

record ide_device =
  id_reserved :: u8
  id_channel :: u8
  id_drive :: u8
  id_type :: u16
  id_signature :: u16
  id_capabilities :: u16
  id_command_sets :: u32
  id_size :: u32
  id_sector_size :: u32
  id_model :: "u8 list"

abbreviation (input) IDE_ATA :: u16 where "IDE_ATA \<equiv> 0"
abbreviation (input) IDE_ATAPI :: u16 where "IDE_ATAPI \<equiv> 1"

text \<open>The fields of \<open>iodriver\<close> that are data.\<close>

record ata_driver =
  ad_device :: u16
  ad_io_buffer :: ptr
  ad_sector_size :: u16
  ad_size :: u32

record 'd ide_state = "'d timer_state" +
  ide_channels :: "ide_channel_registers list"
  ide_devices :: "ide_device list"
  support_dma :: bool
  irq_primary_c :: int
  irq_secondary_c :: int
  ata_io :: ata_driver

datatype IOOperation = IO_READ | IO_WRITE

abbreviation (input) ATA_REG_DATA :: u8 where "ATA_REG_DATA \<equiv> 0x00"
abbreviation (input) ATA_REG_ERROR :: u8 where "ATA_REG_ERROR \<equiv> 0x01"
abbreviation (input) ATA_REG_FEATURES :: u8 where "ATA_REG_FEATURES \<equiv> 0x01"
abbreviation (input) ATA_REG_SECCOUNT0 :: u8 where "ATA_REG_SECCOUNT0 \<equiv> 0x02"
abbreviation (input) ATA_REG_LBA0 :: u8 where "ATA_REG_LBA0 \<equiv> 0x03"
abbreviation (input) ATA_REG_LBA1 :: u8 where "ATA_REG_LBA1 \<equiv> 0x04"
abbreviation (input) ATA_REG_LBA2 :: u8 where "ATA_REG_LBA2 \<equiv> 0x05"
abbreviation (input) ATA_REG_HDDEVSEL :: u8 where "ATA_REG_HDDEVSEL \<equiv> 0x06"
abbreviation (input) ATA_REG_COMMAND :: u8 where "ATA_REG_COMMAND \<equiv> 0x07"
abbreviation (input) ATA_REG_STATUS :: u8 where "ATA_REG_STATUS \<equiv> 0x07"
abbreviation (input) ATA_REG_SECCOUNT1 :: u8 where "ATA_REG_SECCOUNT1 \<equiv> 0x08"
abbreviation (input) ATA_REG_LBA3 :: u8 where "ATA_REG_LBA3 \<equiv> 0x09"
abbreviation (input) ATA_REG_LBA4 :: u8 where "ATA_REG_LBA4 \<equiv> 0x0A"
abbreviation (input) ATA_REG_LBA5 :: u8 where "ATA_REG_LBA5 \<equiv> 0x0B"
abbreviation (input) ATA_REG_CONTROL :: u8 where "ATA_REG_CONTROL \<equiv> 0x0C"
abbreviation (input) ATA_REG_ALTSTATUS :: u8 where "ATA_REG_ALTSTATUS \<equiv> 0x0C"

abbreviation (input) ATA_SR_BSY :: u8 where "ATA_SR_BSY \<equiv> 0x80"
abbreviation (input) ATA_SR_DRDY :: u8 where "ATA_SR_DRDY \<equiv> 0x40"
abbreviation (input) ATA_SR_DF :: u8 where "ATA_SR_DF \<equiv> 0x20"
abbreviation (input) ATA_SR_DRQ :: u8 where "ATA_SR_DRQ \<equiv> 0x08"
abbreviation (input) ATA_SR_ERR :: u8 where "ATA_SR_ERR \<equiv> 0x01"

section \<open>Registers\<close>

definition ide_port :: "ide_channel_registers \<Rightarrow> u8 \<Rightarrow> u16 option" where
  "ide_port c reg =
     (if reg < 0x08 then Some (ch_base c + ucast reg)
      else if reg < 0x0C then Some (ch_base c + ucast reg - 0x06)
      else if reg < 0x0E then Some (ch_ctrl c + ucast reg - 0x0A)
      else if reg < 0x16 then Some (ch_bmide c + ucast reg - 0x0E)
      else None)"

definition ide_out :: "'d ports \<Rightarrow> ide_channel_registers \<Rightarrow> u8 \<Rightarrow> u8 \<Rightarrow> 'd \<Rightarrow> 'd" where
  "ide_out io c reg data d = (case ide_port c reg of Some p \<Rightarrow> outb io p data d | None \<Rightarrow> d)"

text \<open>The registers 8 to 11 share their ports with 2 to 5: bit 7 of the control register selects them.\<close>

definition ide_write :: "'d ports \<Rightarrow> ide_channel_registers \<Rightarrow> u8 \<Rightarrow> u8 \<Rightarrow> 'd \<Rightarrow> 'd" where
  "ide_write io c reg data d =
     (if reg > 0x07 \<and> reg < 0x0C
      then ide_out io c ATA_REG_CONTROL (ch_n_ien c)
             (ide_out io c reg data (ide_out io c ATA_REG_CONTROL (0x80 OR ch_n_ien c) d))
      else ide_out io c reg data d)"

text \<open>For a register without a port the result is an uninitialised variable, here 0; there is no such call.\<close>

definition ide_read :: "'d ports \<Rightarrow> ide_channel_registers \<Rightarrow> u8 \<Rightarrow> 'd \<Rightarrow> u8 \<times> 'd" where
  "ide_read io c reg d =
     (let d1 = (if reg > 0x07 \<and> reg < 0x0C then ide_write io c ATA_REG_CONTROL (0x80 OR ch_n_ien c) d else d);
          (v, d2) = (case ide_port c reg of Some p \<Rightarrow> inb io p d1 | None \<Rightarrow> (0, d1))
      in (v, if reg > 0x07 \<and> reg < 0x0C then ide_write io c ATA_REG_CONTROL (ch_n_ien c) d2 else d2))"

definition ide_read_buffer :: "'d ports \<Rightarrow> ide_channel_registers \<Rightarrow> u8 \<Rightarrow> ptr \<Rightarrow> nat \<Rightarrow> mem \<Rightarrow> 'd \<Rightarrow> mem \<times> 'd" where
  "ide_read_buffer io c reg buffer quads m d =
     (let d1 = (if reg > 0x07 \<and> reg < 0x0C then ide_write io c ATA_REG_CONTROL (0x80 OR ch_n_ien c) d else d);
          (m1, d2) = (case ide_port c reg of Some p \<Rightarrow> insl io p buffer quads m d1 | None \<Rightarrow> (m, d1))
      in (m1, if reg > 0x07 \<and> reg < 0x0C then ide_write io c ATA_REG_CONTROL (ch_n_ien c) d2 else d2))"

definition ata_400ns_delay :: "'d ports \<Rightarrow> ide_channel_registers \<Rightarrow> 'd \<Rightarrow> 'd" where
  "ata_400ns_delay io c d = ((\<lambda>d. snd (ide_read io c ATA_REG_ALTSTATUS d)) ^^ 4) d"

section \<open>Waiting for the controller\<close>

partial_function (option) poll_busy :: "'d ports \<Rightarrow> ide_channel_registers \<Rightarrow> 'd \<Rightarrow> 'd option" where
  "poll_busy io c d =
     (let (status, d1) = ide_read io c ATA_REG_STATUS d
      in if ISSET_BIT_INT status ATA_SR_BSY then poll_busy io c d1 else Some d1)"

definition ide_polling :: "'d ports \<Rightarrow> ide_channel_registers \<Rightarrow> bool \<Rightarrow> 'd \<Rightarrow> (u8 \<times> 'd) option" where
  "ide_polling io c advanced_check d = do {
     d1 \<leftarrow> poll_busy io c (ata_400ns_delay io c d);
     if advanced_check
     then let (state, d2) = ide_read io c ATA_REG_STATUS d1
          in Some (if ISSET_BIT_INT state ATA_SR_ERR then 2
                   else if ISSET_BIT_INT state ATA_SR_DF then 1
                   else if \<not> ISSET_BIT_INT state ATA_SR_DRQ then 3 else 0, d2)
     else Some (0, d1) }"

text \<open>The value of \<open>ATA_ERR_AMNT\<close> is 0.\<close>

definition ide_print_error :: "'d ports \<Rightarrow> ide_channel_registers \<Rightarrow> u8 \<Rightarrow> 'd \<Rightarrow> u8 \<times> 'd" where
  "ide_print_error io c err d =
     (if err = 0 then (0, d)
      else if err = 1 then (19, d)
      else if err = 2
      then let (st, d1) = ide_read io c ATA_REG_ERROR d
           in (if ISSET_BIT_INT st 0x00 then 7
               else if ISSET_BIT_INT st 0x01 then 3
               else if ISSET_BIT_INT st 0x04 then 20
               else if ISSET_BIT_INT st 0x08 then 3
               else if ISSET_BIT_INT st 0x10 then 21
               else if ISSET_BIT_INT st 0x20 then 3
               else if ISSET_BIT_INT st 0x40 then 22
               else if ISSET_BIT_INT st 0x80 then 13
               else err, d1)
      else if err = 3 then (23, d)
      else if err = 4 then (8, d)
      else (err, d))"

text \<open>The interrupt handlers count; \<open>hlt\<close> is what happens until the processor goes on.\<close>

definition ata_primary_handler :: "('d, 'z) ide_state_scheme \<Rightarrow> ('d, 'z) ide_state_scheme" where
  "ata_primary_handler s = s\<lparr>irq_primary_c := irq_primary_c s + 1\<rparr>"

definition ata_secondary_handler :: "('d, 'z) ide_state_scheme \<Rightarrow> ('d, 'z) ide_state_scheme" where
  "ata_secondary_handler s = s\<lparr>irq_secondary_c := irq_secondary_c s + 1\<rparr>"

partial_function (option) ata_wait_irq_primary ::
  "(('d, 'z) ide_state_scheme \<Rightarrow> ('d, 'z) ide_state_scheme) \<Rightarrow> ('d, 'z) ide_state_scheme \<Rightarrow> ('d, 'z) ide_state_scheme option" where
  "ata_wait_irq_primary hlt s =
     (if irq_primary_c s \<le> 0 then ata_wait_irq_primary hlt (hlt s) else Some (s\<lparr>irq_primary_c := irq_primary_c s - 1\<rparr>))"

partial_function (option) ata_wait_irq_secondary ::
  "(('d, 'z) ide_state_scheme \<Rightarrow> ('d, 'z) ide_state_scheme) \<Rightarrow> ('d, 'z) ide_state_scheme \<Rightarrow> ('d, 'z) ide_state_scheme option" where
  "ata_wait_irq_secondary hlt s =
     (if irq_secondary_c s \<le> 0 then ata_wait_irq_secondary hlt (hlt s) else Some (s\<lparr>irq_secondary_c := irq_secondary_c s - 1\<rparr>))"

section \<open>The motor\<close>

definition device_of :: "ata_driver \<Rightarrow> ('d, 'z) ide_state_scheme \<Rightarrow> ide_device" where
  "device_of drv s = ide_devices s ! unat (ad_device drv)"

definition channel_of :: "ide_device \<Rightarrow> ('d, 'z) ide_state_scheme \<Rightarrow> ide_channel_registers" where
  "channel_of x s = ide_channels s ! unat (id_channel x)"

definition set_start_bit :: "'d ports \<Rightarrow> bool \<Rightarrow> ide_channel_registers \<Rightarrow> 'd \<Rightarrow> 'd" where
  "set_start_bit io on c d =
     (let (v, d1) = inb io (ch_bmide c) d in outb io (ch_bmide c) (if on then v OR 1 else v AND NOT 1) d1)"

definition ide_motor_on :: "'d ports \<Rightarrow> ata_driver \<Rightarrow> ('d, 'z) ide_state_scheme \<Rightarrow> ('d, 'z) ide_state_scheme" where
  "ide_motor_on io drv s =
     (if support_dma s then to_dev (set_start_bit io True (channel_of (device_of drv s) s)) s else s)"

definition ide_motor_off :: "'d ports \<Rightarrow> ata_driver \<Rightarrow> ('d, 'z) ide_state_scheme \<Rightarrow> ('d, 'z) ide_state_scheme" where
  "ide_motor_off io drv s =
     (if support_dma s then to_dev (set_start_bit io False (channel_of (device_of drv s) s)) s else s)"

section \<open>Packet commands\<close>

partial_function (option) packet_ready :: "'d ports \<Rightarrow> ide_channel_registers \<Rightarrow> 'd \<Rightarrow> (bool \<times> 'd) option" where
  "packet_ready io c d =
     (let (status, d1) = ide_read io c ATA_REG_STATUS d
      in if ISSET_BIT_INT status ATA_SR_ERR \<or> ISSET_BIT_INT status ATA_SR_DF then Some (False, d1)
         else if \<not> ISSET_BIT_INT status ATA_SR_BSY \<and> ISSET_BIT_INT status ATA_SR_DRDY then Some (True, d1)
         else packet_ready io c (ata_400ns_delay io c d1))"

partial_function (option) packet_done :: "'d ports \<Rightarrow> ide_channel_registers \<Rightarrow> 'd \<Rightarrow> (bool \<times> 'd) option" where
  "packet_done io c d =
     (let (status, d1) = ide_read io c ATA_REG_STATUS d
      in if ISSET_BIT_INT status ATA_SR_ERR \<or> ISSET_BIT_INT status ATA_SR_DF then Some (False, d1)
         else if \<not> ISSET_BIT_INT status ATA_SR_BSY \<and> \<not> ISSET_BIT_INT status ATA_SR_DRDY then Some (True, d1)
         else if ISSET_BIT_INT status ATA_SR_DRQ then Some (True, d1)
         else packet_done io c (ata_400ns_delay io c d1))"

text \<open>The command is an array of 12 bytes, sent as 6 words. The result is -1 or the number of bytes the device offers.\<close>

definition ide_send_atapi_command ::
  "'d ports \<Rightarrow> ide_channel_registers \<Rightarrow> u8 \<Rightarrow> u16 \<Rightarrow> u8 list \<Rightarrow> 'd \<Rightarrow> (int \<times> 'd) option" where
  "ide_send_atapi_command io c drive len command d = do {
     let d1 = ata_400ns_delay io c (ide_write io c ATA_REG_HDDEVSEL (0xA0 OR push_bit 4 drive) d);
     let d2 = ide_write io c ATA_REG_FEATURES 0 (ide_write io c ATA_REG_ERROR 0 d1);
     let d3 = ide_write io c ATA_REG_LBA2 (ucast (drop_bit 8 len)) (ide_write io c ATA_REG_LBA1 (ucast len) d2);
     let d4 = ata_400ns_delay io c (ide_write io c ATA_REG_COMMAND 0xA0 d3);
     (ready, d5) \<leftarrow> packet_ready io c d4;
     if \<not> ready then Some (-1, d5)
     else do {
       let d6 = fold (port_out16 io (ch_base c)) (map (\<lambda>i. le16 command (2 * i)) [0..<6]) d5;
       (ok, d7) \<leftarrow> packet_done io c d6;
       if \<not> ok then Some (-1, d7)
       else let (hi, d8) = ide_read io c ATA_REG_LBA2 d7; (lo, d9) = ide_read io c ATA_REG_LBA1 d8
            in Some (uint hi * 256 + uint lo, d9) } }"

definition be32_bytes :: "u32 \<Rightarrow> u8 list" where
  "be32_bytes w = [ucast (drop_bit 24 w), ucast (drop_bit 16 w), ucast (drop_bit 8 w), ucast w]"

definition atapi_command :: "IOOperation \<Rightarrow> u32 \<Rightarrow> u16 \<Rightarrow> u8 list" where
  "atapi_command direction lba number_of_sectors =
     (if direction = IO_READ then 0xA8 else 0xAA) # 0 # be32_bytes lba @ be32_bytes (ucast number_of_sectors) @ [0, 0]"

definition ide_atapi_do_sector ::
  "'d ports \<Rightarrow> IOOperation \<Rightarrow> ata_driver \<Rightarrow> u32 \<Rightarrow> u16 \<Rightarrow> ptr \<Rightarrow> bool \<Rightarrow> ('d, 'z) ide_state_scheme \<Rightarrow> (int \<times> ('d, 'z) ide_state_scheme) option" where
  "ide_atapi_do_sector io direction drv lba number_of_sectors buffer keepOn s = do {
     let x = device_of drv s;
     let c = channel_of x s;
     (len, d) \<leftarrow> ide_send_atapi_command io c (id_drive x) (number_of_sectors * ad_sector_size drv)
                  (atapi_command direction lba number_of_sectors) (dev s);
     let s1 = s\<lparr>dev := d\<rparr>;
     if len = -1 then Some (1, s1)
     else do {
       let n = nat (len div 2);
       let s2 = (if direction = IO_READ
                 then let (m, d') = insw io (ch_base c) buffer n (vmem s1) (dev s1) in s1\<lparr>vmem := m, dev := d'\<rparr>
                 else to_dev (outsw io (ch_base c) buffer n (vmem s1)) s1);
       Some (0, if keepOn then s2 else ide_motor_off io drv s2) } }"

section \<open>Sectors\<close>

text \<open>How a sector is addressed: mode (0: cylinder, head and sector; 1: 28 bits; 2: 48 bits), the six address bytes and the
  head. The variables are 16 bits wide.\<close>

record ide_address =
  lba_mode :: nat
  lba_bytes :: "u8 list"
  lba_head :: u16

definition sector_address :: "ide_device \<Rightarrow> u32 \<Rightarrow> ide_address" where
  "sector_address x lba =
     (if lba \<ge> 0x10000000
      then \<lparr>lba_mode = 2, lba_bytes = [ucast lba, ucast (drop_bit 8 lba), ucast (drop_bit 16 lba), ucast (drop_bit 24 lba), 0, 0],
            lba_head = 0\<rparr>
      else if ISSET_BIT_INT (id_capabilities x) 0x200
      then \<lparr>lba_mode = 1, lba_bytes = [ucast lba, ucast (drop_bit 8 lba), ucast (drop_bit 16 lba), 0, 0, 0],
            lba_head = ucast (drop_bit 24 (lba AND 0xF000000))\<rparr>
      else let sector = ucast (lba mod 63 + 1) :: u16;
               cylinder = ucast ((lba + 1 - ucast sector) div (16 * 63)) :: u16
           in \<lparr>lba_mode = 0, lba_bytes = [ucast sector, ucast cylinder, ucast (drop_bit 8 cylinder), 0, 0, 0],
               lba_head = ucast ((lba + 1 - ucast sector) mod (16 * 63) div 63)\<rparr>)"

definition sector_command :: "nat \<Rightarrow> bool \<Rightarrow> IOOperation \<Rightarrow> u8" where
  "sector_command mode dma direction =
     (case direction of
        IO_READ \<Rightarrow> if dma then if mode = 2 then 0x25 else 0xC8 else if mode = 2 then 0x24 else 0x20
      | IO_WRITE \<Rightarrow> if dma then if mode = 2 then 0x35 else 0xCA else if mode = 2 then 0x34 else 0x30)"

text \<open>The registers that select the sector and start the command. The type of the device is not \<open>IDE_ATAPI\<close> here.\<close>

definition sector_select ::
  "'d ports \<Rightarrow> ide_channel_registers \<Rightarrow> ide_device \<Rightarrow> ide_address \<Rightarrow> u16 \<Rightarrow> u8 \<Rightarrow> 'd \<Rightarrow> 'd" where
  "sector_select io c x a number_of_sectors cmd d =
     (let w = ide_write io c;
          b = lba_bytes a;
          d1 = w ATA_REG_HDDEVSEL ((if lba_mode a = 0 then 0xA0 else 0xE0) OR push_bit 4 (id_drive x) OR ucast (lba_head a)) d;
          d2 = (if id_type x = IDE_ATA then w ATA_REG_FEATURES 0 d1 else d1);
          d3 = (if lba_mode a = 2
                then w ATA_REG_LBA5 (b ! 5) (w ATA_REG_LBA4 (b ! 4) (w ATA_REG_LBA3 (b ! 3) (w ATA_REG_SECCOUNT1 0 d2)))
                else d2);
          d4 = w ATA_REG_SECCOUNT0 (ucast number_of_sectors) d3
      in w ATA_REG_COMMAND cmd (w ATA_REG_LBA2 (b ! 2) (w ATA_REG_LBA1 (b ! 1) (w ATA_REG_LBA0 (b ! 0) d4))))"

text \<open>The transfer by bus mastering. \<open>prdt\<close> is the address of the descriptor on the stack.\<close>

definition dma_prepare ::
  "'d ports \<Rightarrow> ide_channel_registers \<Rightarrow> IOOperation \<Rightarrow> ptr \<Rightarrow> u16 \<Rightarrow> ptr \<Rightarrow> ('d, 'z) ide_state_scheme \<Rightarrow> (u8 \<times> ('d, 'z) ide_state_scheme) option" where
  "dma_prepare io c direction prdt sz buffer s = do {
     let m = store16 (store16 (store32 (vmem s) prdt (mmu_get_physical_address buffer s)) (prdt + 4) sz) (prdt + 6) 0x8000;
     let d1 = outl io (ch_bmide c + 4) (mmu_get_physical_address prdt s) (outb io (ch_bmide c) 0 (dev s));
     (_, d2) \<leftarrow> ide_polling io c False d1;
     let cmd = (if direction = IO_READ then 8 else 0);
     (_, d3) \<leftarrow> ide_polling io c False (outb io (ch_bmide c) cmd d2);
     let (status, d4) = inb io (ch_bmide c + 2) d3;
     Some (cmd, s\<lparr>vmem := m, dev := outb io (ch_bmide c + 2) (status AND NOT 2 AND NOT 4) d4\<rparr>) }"

definition dma_finish ::
  "'d ports \<Rightarrow> (('d, 'z) ide_state_scheme \<Rightarrow> ('d, 'z) ide_state_scheme) \<Rightarrow> ata_driver \<Rightarrow> ide_channel_registers \<Rightarrow> u8 \<Rightarrow> bool
     \<Rightarrow> ('d, 'z) ide_state_scheme \<Rightarrow> (int \<times> ('d, 'z) ide_state_scheme) option" where
  "dma_finish io hlt drv c cmd keepOn s = do {
     let s1 = ide_motor_on io drv (to_dev (outb io (ch_bmide c) (cmd OR 1)) s);
     s2 \<leftarrow> (if id_channel (device_of drv s) = 0 then ata_wait_irq_primary hlt s1 else ata_wait_irq_secondary hlt s1);
     let s3 = to_dev (outb io (ch_bmide c) (cmd AND NOT 1)) s2;
     let s4 = (if keepOn then s3 else ide_motor_off io drv s3);
     (_, d1) \<leftarrow> ide_polling io c False (dev s4);
     let (status, d2) = inb io (ch_bmide c + 2) d1;
     Some (if bit status 1 then (1, s4\<lparr>dev := outb io (ch_bmide c + 2) 2 d2\<rparr>) else (0, s4\<lparr>dev := d2\<rparr>)) }"

text \<open>The transfer through the data port: words are read in both directions.\<close>

definition pio_finish ::
  "'d ports \<Rightarrow> ata_driver \<Rightarrow> ide_channel_registers \<Rightarrow> u16 \<Rightarrow> ptr \<Rightarrow> bool \<Rightarrow> ('d, 'z) ide_state_scheme \<Rightarrow> (int \<times> ('d, 'z) ide_state_scheme) option" where
  "pio_finish io drv c number_of_sectors buffer keepOn s = do {
     (err, d1) \<leftarrow> ide_polling io c True (dev s);
     let (e, d2) = ide_print_error io c err d1;
     if e \<noteq> 0 then Some (1, s\<lparr>dev := d2\<rparr>)
     else do {
       let (m, d3) = insw io (ch_base c) buffer (unat (ad_sector_size drv) * unat number_of_sectors div 2) (vmem s) d2;
       (_, d4) \<leftarrow> ide_polling io c False d3;
       let s1 = s\<lparr>vmem := m, dev := d4\<rparr>;
       Some (0, if keepOn then s1 else ide_motor_off io drv s1) } }"

definition ide_do_sector ::
  "'d ports \<Rightarrow> (('d, 'z) ide_state_scheme \<Rightarrow> ('d, 'z) ide_state_scheme) \<Rightarrow> ptr \<Rightarrow> IOOperation \<Rightarrow> ata_driver \<Rightarrow> u32 \<Rightarrow> u16 \<Rightarrow> ptr
     \<Rightarrow> bool \<Rightarrow> ('d, 'z) ide_state_scheme \<Rightarrow> (int \<times> ('d, 'z) ide_state_scheme) option" where
  "ide_do_sector io hlt prdt direction drv lba number_of_sectors buffer keepOn s =
     (let x = device_of drv s; a = sector_address x lba; cmd = sector_command (lba_mode a) (support_dma s) direction
      in if id_type x = IDE_ATAPI then ide_atapi_do_sector io direction drv lba number_of_sectors buffer keepOn s
         else if support_dma s
         then do {
           let c = channel_of x s;
           (bmr, s1) \<leftarrow> dma_prepare io c direction prdt (number_of_sectors * ad_sector_size drv) buffer s;
           dma_finish io hlt drv c bmr keepOn (to_dev (sector_select io c x a number_of_sectors cmd) s1) }
         else do {
           let c = (channel_of x s)\<lparr>ch_n_ien := 2\<rparr>;
           let s1 = s\<lparr>ide_channels := (ide_channels s)[unat (id_channel x) := c]\<rparr>;
           (_, d) \<leftarrow> ide_polling io c False (ide_write io c ATA_REG_CONTROL 2 (dev s1));
           pio_finish io drv c number_of_sectors buffer keepOn (s1\<lparr>dev := sector_select io c x a number_of_sectors cmd d\<rparr>) })"

definition ide_sector_read ::
  "'d ports \<Rightarrow> (('d, 'z) ide_state_scheme \<Rightarrow> ('d, 'z) ide_state_scheme) \<Rightarrow> ptr \<Rightarrow> ata_driver \<Rightarrow> u32 \<Rightarrow> ptr \<Rightarrow> bool
     \<Rightarrow> ('d, 'z) ide_state_scheme \<Rightarrow> (int \<times> ('d, 'z) ide_state_scheme) option" where
  "ide_sector_read io hlt prdt drv lba buffer keepOn s = ide_do_sector io hlt prdt IO_READ drv lba 1 buffer keepOn s"

definition ide_sector_write ::
  "'d ports \<Rightarrow> (('d, 'z) ide_state_scheme \<Rightarrow> ('d, 'z) ide_state_scheme) \<Rightarrow> ptr \<Rightarrow> ata_driver \<Rightarrow> u32 \<Rightarrow> ptr \<Rightarrow> bool
     \<Rightarrow> ('d, 'z) ide_state_scheme \<Rightarrow> (int \<times> ('d, 'z) ide_state_scheme) option" where
  "ide_sector_write io hlt prdt drv lba buffer keepOn s = ide_do_sector io hlt prdt IO_WRITE drv lba 1 buffer keepOn s"

definition ide_reset :: "ata_driver \<Rightarrow> ('d, 'z) ide_state_scheme \<Rightarrow> int \<times> ata_driver" where
  "ide_reset drv s =
     (let x = device_of drv s; sz = ucast (id_sector_size x) :: u16
      in (0, drv\<lparr>ad_sector_size := sz, ad_size := id_size x * ucast sz\<rparr>))"

section \<open>Drives\<close>

text \<open>The loop of both searches.\<close>

fun nth_device :: "ide_device list \<Rightarrow> u16 \<Rightarrow> int \<Rightarrow> int \<Rightarrow> nat \<Rightarrow> int" where
  "nth_device [] kind wanted count i = -1"
| "nth_device (x # xs) kind wanted count i =
     (if id_reserved x \<noteq> 1 then nth_device xs kind wanted count (Suc i)
      else if id_type x = kind
      then if count = wanted then int i else nth_device xs kind wanted (count + 1) (Suc i)
      else nth_device xs kind wanted count (Suc i))"

definition ide_search_for_drive :: "int \<Rightarrow> ('d, 'z) ide_state_scheme \<Rightarrow> int" where
  "ide_search_for_drive boot_drive s =
     (if boot_drive \<ge> 0xE0 \<and> boot_drive < 0xF0 then nth_device (ide_devices s) IDE_ATAPI (boot_drive - 0xE0) 0 0
      else if boot_drive \<ge> 0x80 then nth_device (ide_devices s) IDE_ATA (boot_drive - 0x80) 0 0
      else -1)"

definition ata_search_for_drive :: "int \<Rightarrow> ('d, 'z) ide_state_scheme \<Rightarrow> int" where
  "ata_search_for_drive boot_drive s = ide_search_for_drive boot_drive s"

section \<open>Initialisation\<close>

partial_function (option) identify_wait :: "'d ports \<Rightarrow> ide_channel_registers \<Rightarrow> 'd \<Rightarrow> (bool \<times> 'd) option" where
  "identify_wait io c d =
     (let (status, d1) = ide_read io c ATA_REG_STATUS d
      in if ISSET_BIT_INT status ATA_SR_ERR then Some (True, d1)
         else if \<not> ISSET_BIT_INT status ATA_SR_BSY \<and> ISSET_BIT_INT status ATA_SR_DRQ then Some (False, d1)
         else identify_wait io c d1)"

definition put_device :: "nat \<Rightarrow> ide_device \<Rightarrow> ('d, 'z) ide_state_scheme \<Rightarrow> ('d, 'z) ide_state_scheme" where
  "put_device i x s = s\<lparr>ide_devices := (ide_devices s)[i := x]\<rparr>"

text \<open>The kind of the drive that answered, \<open>None\<close> for one that is neither a disk nor a packet device.\<close>

definition ide_drive_kind ::
  "'d ports \<Rightarrow> (('d, 'z) ide_state_scheme \<Rightarrow> ('d, 'z) ide_state_scheme) \<Rightarrow> ide_channel_registers \<Rightarrow> ('d, 'z) ide_state_scheme
     \<Rightarrow> (u16 option \<times> ('d, 'z) ide_state_scheme) option" where
  "ide_drive_kind io hlt c s = do {
     (err, d) \<leftarrow> identify_wait io c (dev s);
     let s1 = s\<lparr>dev := d\<rparr>;
     if \<not> err then Some (Some IDE_ATA, s1)
     else do {
       let (cl, s2) = on_dev (ide_read io c ATA_REG_LBA1) s1;
       let (ch, s3) = on_dev (ide_read io c ATA_REG_LBA2) s2;
       if cl = 0x14 \<and> ch = 0xEB \<or> cl = 0x69 \<and> ch = 0x96
       then do { s4 \<leftarrow> timer_wait hlt 1 (to_dev (ide_write io c ATA_REG_COMMAND 0xA1) s3); Some (Some IDE_ATAPI, s4) }
       else Some (None, s3) } }"

text \<open>Capacity of a packet device, in the device's entry; \<open>False\<close> when the command fails.\<close>

definition atapi_capacity ::
  "'d ports \<Rightarrow> ide_channel_registers \<Rightarrow> ide_device \<Rightarrow> ('d, 'z) ide_state_scheme
     \<Rightarrow> (bool \<times> ide_device \<times> ('d, 'z) ide_state_scheme) option" where
  "atapi_capacity io c x s = do {
     (len, d) \<leftarrow> ide_send_atapi_command io c (id_drive x) 0x0808 (0x25 # replicate 11 0) (dev s);
     if len = -1 then Some (False, x, s\<lparr>dev := d\<rparr>)
     else do {
       (buf, s1) \<leftarrow> malloc 8 (s\<lparr>dev := d\<rparr>);
       let (m, d2) = insw io (ch_base c) buf 4 (vmem s1) (dev s1);
       let last_lba = switch_endian_32 (load32 m buf);
       let block_size = switch_endian_32 (load32 m (buf + 4));
       s2 \<leftarrow> free buf (s1\<lparr>vmem := m, dev := d2\<rparr>);
       Some (True, x\<lparr>id_size := (last_lba + 1) * block_size, id_sector_size := block_size\<rparr>, s2) } }"

definition identify_device :: "mem \<Rightarrow> ptr \<Rightarrow> u16 \<Rightarrow> u8 \<Rightarrow> u8 \<Rightarrow> ide_device \<Rightarrow> ide_device" where
  "identify_device m buf kind i j x =
     (let sets = load32 m (buf + 164);
          y = x\<lparr>id_reserved := 1, id_type := kind, id_channel := i, id_drive := j, id_signature := load16 m buf,
                id_capabilities := load16 m (buf + 98), id_command_sets := sets\<rparr>
      in if kind = IDE_ATA
         then y\<lparr>id_sector_size := 512, id_size := (if ISSET_BIT_INT sets 0x4000000 then load32 m (buf + 200) else load32 m (buf + 120))\<rparr>
         else y)"

definition device_model :: "mem \<Rightarrow> ptr \<Rightarrow> u8 list" where
  "device_model m buf = concat (map (\<lambda>k. [m (buf + 54 + of_nat (2 * k) + 1), m (buf + 54 + of_nat (2 * k))]) [0..<20]) @ [0]"

definition ide_probe ::
  "'d ports \<Rightarrow> (('d, 'z) ide_state_scheme \<Rightarrow> ('d, 'z) ide_state_scheme) \<Rightarrow> ptr \<Rightarrow> u8 \<Rightarrow> u8 \<Rightarrow> nat \<Rightarrow> ('d, 'z) ide_state_scheme
     \<Rightarrow> (nat \<times> ('d, 'z) ide_state_scheme) option" where
  "ide_probe io hlt buf i j count s = do {
     let x = (ide_devices s ! count)\<lparr>id_reserved := 0\<rparr>;
     let c = ide_channels s ! unat i;
     let s1 = to_dev (ide_write io c ATA_REG_HDDEVSEL (0xA0 OR push_bit 4 j)) (put_device count x s);
     s2 \<leftarrow> timer_wait hlt 1 s1;
     s3 \<leftarrow> timer_wait hlt 1 (to_dev (ide_write io c ATA_REG_COMMAND 0xEC) s2);
     let (status, s4) = on_dev (ide_read io c ATA_REG_STATUS) s3;
     if status = 0 then Some (count, s4)
     else do {
       (kind, s5) \<leftarrow> ide_drive_kind io hlt c s4;
       case kind of
         None \<Rightarrow> Some (count, s5)
       | Some k \<Rightarrow> do {
           let (m, d) = ide_read_buffer io c ATA_REG_DATA buf 128 (vmem s5) (dev s5);
           let y = identify_device m buf k i j (ide_devices s5 ! count);
           let s6 = put_device count y (s5\<lparr>vmem := m, dev := d\<rparr>);
           (ok, z, s7) \<leftarrow> (if k = IDE_ATAPI then atapi_capacity io c y s6 else Some (True, y, s6));
           if \<not> ok then Some (count, s7)
           else Some (Suc count, put_device count (z\<lparr>id_model := device_model (vmem s7) buf\<rparr>) s7) } } }"

definition set_channels ::
  "u32 list \<Rightarrow> ('d, 'z) ide_state_scheme \<Rightarrow> ('d, 'z) ide_state_scheme option" where
  "set_channels bar s = do {
     (b0, s0) \<leftarrow> pci_get_bar_address bar 0 s;
     (b1, s1) \<leftarrow> pci_get_bar_address bar 1 s0;
     (b2, s2) \<leftarrow> pci_get_bar_address bar 2 s1;
     (b3, s3) \<leftarrow> pci_get_bar_address bar 3 s2;
     (b4, s4) \<leftarrow> pci_get_bar_address bar 4 s3;
     (b5, s5) \<leftarrow> pci_get_bar_address bar 4 s4;
     let dflt = (\<lambda>i p. if bar ! i = 0 then p else 0 :: u16);
     let p = (ide_channels s5 ! 0)\<lparr>ch_base := ucast b0 + dflt 0 0x1F0, ch_ctrl := ucast b1 + dflt 1 0x3F6, ch_bmide := ucast b4\<rparr>;
     let q = (ide_channels s5 ! 1)\<lparr>ch_base := ucast b2 + dflt 2 0x170, ch_ctrl := ucast b3 + dflt 3 0x376, ch_bmide := ucast b5 + 8\<rparr>;
     Some (s5\<lparr>ide_channels := [p, q]\<rparr>) }"

text \<open>\<open>sizeof(iodriver)\<close> is 40; the field \<open>size\<close>, at offset 12, keeps what the allocated memory holds.\<close>

definition ide_init ::
  "'d ports \<Rightarrow> (('d, 'z) ide_state_scheme \<Rightarrow> ('d, 'z) ide_state_scheme) \<Rightarrow> u32 list \<Rightarrow> ('d, 'z) ide_state_scheme
     \<Rightarrow> (ata_driver \<times> ('d, 'z) ide_state_scheme) option" where
  "ide_init io hlt bar s = do {
     (buf, s1) \<leftarrow> malloc 2048 (s\<lparr>support_dma := False\<rparr>);
     s2 \<leftarrow> set_channels bar (s1\<lparr>support_dma := (bar ! 4 \<noteq> 0)\<rparr>);
     let s3 = to_dev (\<lambda>d. ide_write io (ide_channels s2 ! 1) ATA_REG_CONTROL 2 (ide_write io (ide_channels s2 ! 0) ATA_REG_CONTROL 2 d)) s2;
     (c1, s4) \<leftarrow> ide_probe io hlt buf 0 0 0 s3;
     (c2, s5) \<leftarrow> ide_probe io hlt buf 0 1 c1 s4;
     (c3, s6) \<leftarrow> ide_probe io hlt buf 1 0 c2 s5;
     (c4, s7) \<leftarrow> ide_probe io hlt buf 1 1 c3 s6;
     (p, s8) \<leftarrow> malloc 40 s7;
     Some (\<lparr>ad_device = -1, ad_io_buffer = buf, ad_sector_size = 512, ad_size = load32 (vmem s8) (p + 12)\<rparr>, s8) }"

text \<open>A controller in compatibility mode gets the standard ports. The two interrupt handlers are given by their addresses.\<close>

definition ata_bars :: "pci_device \<Rightarrow> u32 list" where
  "ata_bars p =
     (let f = ucast (ph_prog_if (pd_header p)) :: u32;
          b1 = (if ISSET_BIT f 0 then base_address p else (base_address p)[0 := 0x1F0, 1 := 0x3F6]);
          b2 = (if ISSET_BIT f 2 then b1 else b1[2 := 0x170, 3 := 0x376])
      in if ISSET_BIT f 7 then b2 else b2[4 := 0])"

definition ata_init ::
  "'d ports \<Rightarrow> (('d, 'z) ide_state_scheme \<Rightarrow> ('d, 'z) ide_state_scheme) \<Rightarrow> ptr \<Rightarrow> ptr \<Rightarrow> pci_device \<Rightarrow> u8 \<Rightarrow> u8 \<Rightarrow> u8
     \<Rightarrow> ('d, 'z) ide_state_scheme \<Rightarrow> ('d, 'z) ide_state_scheme option" where
  "ata_init io hlt primary secondary p bus slot func s = do {
     let f = (ucast (ph_prog_if (pd_header p)) :: u32);
     let irq_primary = (if ISSET_BIT f 0 then unat (interrupt_line p) else 14);
     let irq_secondary = (if ISSET_BIT f 2 then unat (interrupt_line p) else 15);
     let s1 = s\<lparr>irq_primary_c := 0, irq_secondary_c := 0\<rparr>;
     let s2 = (if ISSET_BIT f 7 then to_dev (pci_write_word io bus slot func 4 (ph_command (pd_header p) OR 4 OR 2)) s1 else s1);
     (drv, s3) \<leftarrow> ide_init io hlt (ata_bars p) s2;
     Some (irq_install_handler irq_secondary secondary (irq_install_handler irq_primary primary (s3\<lparr>ata_io := drv\<rparr>))) }"

end
