(* ===== verification/Ide_Laws.thy ===== *)
theory Ide_Laws
  imports Ide Kstdlib_Laws
begin

text \<open>
  Addresses of sectors are decoded by the drive to the sector that was asked for, the search finds the drive that is
  meant, and reading a sector through the data port of a controller that follows the ATA protocol delivers its
  contents.
\<close>

section \<open>Addresses\<close>

text \<open>The sector that a drive selects.\<close>

definition decoded :: "ide_address \<Rightarrow> nat" where
  "decoded a =
     (let b = (\<lambda>i. unat (lba_bytes a ! i)); h = unat (lba_head a)
      in if lba_mode a = 0 then ((b 1 + 256 * b 2) * 16 + h) * 63 + b 0 - 1
         else if lba_mode a = 1 then b 0 + 256 * b 1 + 65536 * b 2 + 16777216 * h
         else b 0 + 256 * b 1 + 65536 * b 2 + 16777216 * b 3)"

lemma byte_of: "unat (ucast (w :: u32) :: u8) = unat w mod 256"
  by (simp add: unsigned_ucast_eq take_bit_eq_mod)

lemma unat_shift: "unat (drop_bit k (w :: 'a::len word)) = unat w div 2 ^ k"
  by (simp only: unat_drop_bit_eq) (simp only: drop_bit_eq_div)

lemma four_bytes:
  fixes n :: nat
  shows "n mod 256 + 256 * (n div 256 mod 256) + 65536 * (n div 65536 mod 256) + 16777216 * (n div 16777216) = n"
proof -
  have "n div 65536 = n div 256 div 256" "n div 16777216 = n div 65536 div 256" by (simp_all flip: div_mult2_eq)
  then show ?thesis using div_mult_mod_eq[of n 256] div_mult_mod_eq[of "n div 256" 256] div_mult_mod_eq[of "n div 65536" 256]
    by linarith
qed

lemma head_bits:
  fixes lba :: u32
  assumes "lba < 0x10000000"
  shows "unat (ucast (drop_bit 24 (lba AND 0xF000000)) :: u16) = unat lba div 2 ^ 24"
proof -
  have m: "bit (0xF000000 :: int) n \<longleftrightarrow> 24 \<le> n \<and> n < 28" for n
  proof -
    have "(0xF000000 :: int) = push_bit 24 (mask 4)" by (simp add: mask_eq_exp_minus_1 push_bit_eq_mult)
    then show ?thesis by (simp only: bit_push_bit_iff bit_mask_iff) auto
  qed
  have m4: "bit (15 :: int) n \<longleftrightarrow> n < 4" for n
    using bit_mask_iff[of 4 n, where 'a = int] by (simp add: mask_eq_exp_minus_1)
  have "drop_bit 24 (lba AND 0xF000000) = take_bit 4 (drop_bit 24 lba)"
    by (rule bit_word_eqI) (auto simp: bit_simps m m4)
  then have "unat (drop_bit 24 (lba AND 0xF000000)) = unat lba div 2 ^ 24 mod 16"
    by (simp only: unsigned_take_bit_eq unat_shift) (simp add: take_bit_eq_mod)
  moreover have "unat lba div 2 ^ 24 < 16" using assms by (simp add: word_less_nat_alt less_mult_imp_div_less)
  ultimately have u: "unat (drop_bit 24 (lba AND 0xF000000)) = unat lba div 2 ^ 24" by simp
  then show ?thesis using \<open>unat lba div 2 ^ 24 < 16\<close>
    by (simp only: unsigned_ucast_eq) (simp add: take_bit_nat_eq_self)
qed

lemma chs_fields:
  fixes lba :: u32
  assumes "unat lba < 65536 * 1008"
  defines "sector \<equiv> ucast (lba mod 63 + 1) :: u16"
  shows "unat (ucast sector :: u8) = unat lba mod 63 + 1"
    "unat (ucast ((lba + 1 - ucast sector) div (16 * 63)) :: u16) = unat lba div 63 div 16"
    "unat (ucast ((lba + 1 - ucast sector) mod (16 * 63) div 63) :: u16) = unat lba div 63 mod 16"
proof -
  let ?n = "unat lba"
  have r: "?n mod 63 < 63" by simp
  have "unat (lba mod 63) = ?n mod 63" by (simp add: unat_mod)
  then have m: "unat (lba mod 63 + 1) = ?n mod 63 + 1" using r by (simp add: unat_add_no_wrap)
  then have s: "unat sector = ?n mod 63 + 1"
    using r unfolding sector_def by (simp only: unsigned_ucast_eq) (simp add: take_bit_nat_eq_self)
  then show "unat (ucast sector :: u8) = ?n mod 63 + 1"
    using r by (simp only: unsigned_ucast_eq) (simp add: take_bit_nat_eq_self)
  have "(ucast sector :: u32) = lba mod 63 + 1"
    using s m by (intro word_unat_eq_iff[THEN iffD2]) (simp add: unat_ucast_up)
  then have "lba + 1 - ucast sector = lba - lba mod 63" by simp
  moreover have "unat (lba - lba mod 63) = ?n - ?n mod 63"
    using unat_sub[of "lba mod 63" lba] by (simp add: unat_mod word_le_nat_alt)
  ultimately have d: "unat (lba + 1 - ucast sector) = 63 * (?n div 63)" by (simp add: minus_mod_eq_mult_div)
  have q: "?n div 63 div 16 < 65536"
  proof -
    have "?n div 63 div 16 = ?n div 1008" by (simp flip: div_mult2_eq)
    then show ?thesis using assms(1) by (simp add: less_mult_imp_div_less)
  qed
  have "unat ((lba + 1 - ucast sector) div (16 * 63)) = ?n div 63 div 16"
  proof -
    have "63 * (?n div 63) div (63 * 16) = ?n div 63 div 16" by simp
    then show ?thesis using d by (simp add: unat_div)
  qed
  then show "unat (ucast ((lba + 1 - ucast sector) div (16 * 63)) :: u16) = ?n div 63 div 16"
    using q by (simp only: unsigned_ucast_eq) (simp add: take_bit_nat_eq_self)
  have "unat ((lba + 1 - ucast sector) mod (16 * 63) div 63) = ?n div 63 mod 16"
  proof -
    have "63 * (?n div 63) mod (63 * 16) div 63 = ?n div 63 mod 16" by (simp only: mult_mod_right[symmetric] nonzero_mult_div_cancel_left)
    then show ?thesis using d by (simp add: unat_div unat_mod)
  qed
  moreover have "?n div 63 mod 16 < 16" by simp
  ultimately show "unat (ucast ((lba + 1 - ucast sector) mod (16 * 63) div 63) :: u16) = ?n div 63 mod 16"
    by (simp only: unsigned_ucast_eq) (simp add: take_bit_nat_eq_self)
qed


definition sample_drive :: ide_device where
  "sample_drive = \<lparr>id_reserved = 1, id_channel = 0, id_drive = 0, id_type = 0, id_signature = 0, id_capabilities = 0,
     id_command_sets = 0, id_size = 100000, id_sector_size = 512, id_model = []\<rparr>"


section \<open>Finding drives\<close>

definition is_kind :: "u16 \<Rightarrow> ide_device \<Rightarrow> bool" where
  "is_kind k x \<longleftrightarrow> id_reserved x = 1 \<and> id_type x = k"

lemma nth_device_correct:
  assumes "cnt \<le> wnt"
  shows "nth_device xs k wnt cnt i =
    (let is = filter (\<lambda>j. is_kind k (xs ! j)) [0..<length xs]
     in if wnt - cnt < int (length is) then int (i + is ! nat (wnt - cnt)) else -1)"
  using assms
proof (induction xs arbitrary: cnt i)
  case (Cons x xs)
  let ?is = "filter (\<lambda>j. is_kind k (xs ! j)) [0..<length xs]"
  have shift: "filter (\<lambda>j. is_kind k ((x # xs) ! j)) [0..<length (x # xs)] = (if is_kind k x then [0] else []) @ map Suc ?is"
  proof -
    have "[0..<length (x # xs)] = 0 # map Suc [0..<length xs]" by (simp only: length_Cons upt_conv_Cons map_Suc_upt zero_less_Suc)
    then show ?thesis by (simp add: filter_map comp_def)
  qed
  have step: "nth_device (x # xs) k wnt cnt i =
    (if is_kind k x then if cnt = wnt then int i else nth_device xs k wnt (cnt + 1) (Suc i)
     else nth_device xs k wnt cnt (Suc i))" by (simp add: is_kind_def)
  define L where "L = ?is"
  note IH = Cons.IH[folded L_def]
  show ?case
  proof (cases "is_kind k x \<and> cnt \<noteq> wnt")
    case True
    then have "cnt + 1 \<le> wnt" "nat (wnt - cnt) = Suc (nat (wnt - (cnt + 1)))" using Cons.prems by auto
    then show ?thesis using True IH[of "cnt + 1" "Suc i"] unfolding shift step Let_def L_def[symmetric]
      by (auto simp: nat_less_iff)
  next
    case False
    then show ?thesis using Cons.prems IH[of cnt "Suc i"] unfolding shift step Let_def L_def[symmetric]
      by (auto simp: nat_less_iff)
  qed
qed simp

text \<open>Boot drives. Drive number 0x80 + n, below 0xE0, is the n-th disk and 0xE0 + n, below 0xF0, the n-th packet
  device among the drives that were found, counted from 0; there is none exactly when fewer were found.\<close>

theorem ide_search_for_drive_finds:
  assumes "base = 0x80 \<and> n < 0x60 \<and> k = IDE_ATA \<or> base = 0xE0 \<and> n < 0x10 \<and> k = IDE_ATAPI"
  shows "ide_search_for_drive (base + int n) s =
    (let is = filter (\<lambda>i. is_kind k (ide_devices s ! i)) [0..<length (ide_devices s)]
     in if n < length is then int (is ! n) else -1)"
  using assms nth_device_correct[of 0 "int n" "ide_devices s" k 0]
  by (auto simp: ide_search_for_drive_def Let_def)

theorem ide_search_for_drive_finds_witness:
  "\<forall>s. ide_search_for_drive (0x80 + int 1) (s\<lparr>ide_devices := [sample_drive, sample_drive\<lparr>id_type := 1\<rparr>, sample_drive]\<rparr>) = 2"
proof
  fix s :: "('d, 'z) ide_state_scheme"
  show "ide_search_for_drive (0x80 + int 1) (s\<lparr>ide_devices := [sample_drive, sample_drive\<lparr>id_type := 1\<rparr>, sample_drive]\<rparr>) = 2"
    using ide_search_for_drive_finds[of "0x80" 1 0 "s\<lparr>ide_devices := [sample_drive, sample_drive\<lparr>id_type := 1\<rparr>, sample_drive]\<rparr>"]
    by (simp add: is_kind_def sample_drive_def upt_rec)
qed

section \<open>The control register\<close>

text \<open>With the standard ports the control register of the first channel is sought at port 0x3F2, which belongs to the
  floppy controller: bits 0 to 3 of 0x3F6 are cleared as those of a memory address.\<close>

lemma standard_control_port:
  assumes "set_channels [0x1F0, 0x3F6, 0x170, 0x376, 0, 0] s = Some s'"
  shows "ide_port (ide_channels s' ! 0) ATA_REG_CONTROL = Some 0x3F2" "ch_base (ide_channels s' ! 0) = 0x1F0"
  using assms by (auto simp: set_channels_def bind_Some_iff pci_get_bar_address_def bar_value_def ISSET_BIT_def ide_port_def)

section \<open>A controller\<close>

text \<open>A drive that follows the ATA protocol for reading single sectors through the data port, on the standard ports of
  the first channel: a register that is written keeps its previous value for the upper half of a 48-bit address, the
  commands 0x20 and 0x24 make the words of the addressed sector available, and the drive is never busy for long enough
  to be seen. Other ports have no effect.\<close>

record ata_drive =
  dr_disk :: "nat \<Rightarrow> u16 list"
  dr_sel :: u8
  dr_l0 :: u8
  dr_l1 :: u8
  dr_l2 :: u8
  dr_h0 :: u8
  dr_h1 :: u8
  dr_h2 :: u8
  dr_data :: "u16 list"

definition dr_lba :: "ata_drive \<Rightarrow> bool \<Rightarrow> nat" where
  "dr_lba d ext =
     (let l = unat (dr_l0 d) + 256 * unat (dr_l1 d) + 65536 * unat (dr_l2 d); h = unat (dr_sel d AND 15)
      in if ext then l + 16777216 * unat (dr_h0 d) + 2 ^ 32 * unat (dr_h1 d) + 2 ^ 40 * unat (dr_h2 d)
         else if bit (dr_sel d) 6 then l + 16777216 * h
         else ((unat (dr_l1 d) + 256 * unat (dr_l2 d)) * 16 + h) * 63 + unat (dr_l0 d) - 1)"

definition dr_out8 :: "u16 \<Rightarrow> u8 \<Rightarrow> ata_drive \<Rightarrow> ata_drive" where
  "dr_out8 p v d =
     (if p = 0x1F3 then d\<lparr>dr_h0 := dr_l0 d, dr_l0 := v\<rparr>
      else if p = 0x1F4 then d\<lparr>dr_h1 := dr_l1 d, dr_l1 := v\<rparr>
      else if p = 0x1F5 then d\<lparr>dr_h2 := dr_l2 d, dr_l2 := v\<rparr>
      else if p = 0x1F6 then d\<lparr>dr_sel := v\<rparr>
      else if p = 0x1F7
      then if v = 0x20 then d\<lparr>dr_data := dr_disk d (dr_lba d False)\<rparr>
           else if v = 0x24 then d\<lparr>dr_data := dr_disk d (dr_lba d True)\<rparr> else d
      else d)"

definition drive_ports :: "ata_drive ports" where
  "drive_ports = \<lparr>port_in8 = \<lambda>p d. (if p = 0x1F7 then if dr_data d = [] then 0x40 else 0x48 else 0, d),
     port_in16 = \<lambda>p d. if p = 0x1F0 then (hd (dr_data d), d\<lparr>dr_data := tl (dr_data d)\<rparr>) else (0, d),
     port_in32 = \<lambda>_ d. (0, d), port_out8 = dr_out8, port_out16 = \<lambda>_ _ d. d, port_out32 = \<lambda>_ _ d. d\<rparr>"

text \<open>The channel: its control port is not one of the drive's.\<close>

definition drive_channel :: "ide_channel_registers \<Rightarrow> bool" where
  "drive_channel c \<longleftrightarrow> ch_base c = 0x1F0 \<and> ch_ctrl c + 2 \<notin> {0x1F3, 0x1F4, 0x1F5, 0x1F6, 0x1F7}"

lemma drive_control:
  assumes "drive_channel c"
  shows "ide_out drive_ports c ATA_REG_CONTROL v d = d"
proof -
  have "ch_ctrl c + 12 - 10 = ch_ctrl c + 2" by simp
  then show ?thesis using assms
    by (auto simp: ide_out_def ide_port_def drive_channel_def outb_def drive_ports_def dr_out8_def)
qed

lemma drive_writes:
  assumes "drive_channel c"
  shows "ide_write drive_ports c 1 v d = d" "ide_write drive_ports c 2 v d = d"
    "ide_write drive_ports c 3 v d = dr_out8 0x1F3 v d" "ide_write drive_ports c 4 v d = dr_out8 0x1F4 v d"
    "ide_write drive_ports c 5 v d = dr_out8 0x1F5 v d" "ide_write drive_ports c 6 v d = dr_out8 0x1F6 v d"
    "ide_write drive_ports c 7 v d = dr_out8 0x1F7 v d" "ide_write drive_ports c 8 v d = d"
    "ide_write drive_ports c 9 v d = dr_out8 0x1F3 v d" "ide_write drive_ports c 0x0A v d = dr_out8 0x1F4 v d"
    "ide_write drive_ports c 0x0B v d = dr_out8 0x1F5 v d" "ide_write drive_ports c ATA_REG_CONTROL v d = d"
  using assms drive_control[OF assms]
  by (simp_all add: ide_write_def) (simp_all add: ide_out_def ide_port_def drive_channel_def outb_def drive_ports_def dr_out8_def)

lemma drive_reads:
  assumes "drive_channel c"
  shows "ide_read drive_ports c ATA_REG_STATUS d = (if dr_data d = [] then 0x40 else 0x48, d)"
    "\<exists>v. ide_read drive_ports c ATA_REG_ALTSTATUS d = (v, d)" "ide_read drive_ports c ATA_REG_ERROR d = (0, d)"
  using assms by (simp_all add: ide_read_def ide_port_def inb_def drive_ports_def drive_channel_def)

lemma drive_delay:
  assumes "drive_channel c"
  shows "ata_400ns_delay drive_ports c d = d"
proof -
  have "(\<lambda>d. snd (ide_read drive_ports c ATA_REG_ALTSTATUS d)) = id" using drive_reads(2)[OF assms] by (metis eq_id_iff snd_conv)
  then show ?thesis by (simp add: ata_400ns_delay_def)
qed

lemma drive_polling:
  assumes "drive_channel c"
  shows "ide_polling drive_ports c False d = Some (0, d)"
    "dr_data d \<noteq> [] \<Longrightarrow> ide_polling drive_ports c True d = Some (0, d)"
proof -
  have b: "poll_busy drive_ports c d = Some d"
    using drive_reads(1)[OF assms] by (subst poll_busy.simps) (simp add: ISSET_BIT_INT_def)
  then show "ide_polling drive_ports c False d = Some (0, d)" by (simp add: ide_polling_def drive_delay[OF assms])
  show "ide_polling drive_ports c True d = Some (0, d)" if "dr_data d \<noteq> []"
    using that b drive_reads(1)[OF assms] by (simp add: ide_polling_def drive_delay[OF assms] ISSET_BIT_INT_def)
qed

definition word_bytes :: "u16 list \<Rightarrow> u8 list" where
  "word_bytes ws = concat (map (\<lambda>w. [ucast w, ucast (drop_bit 8 w)]) ws)"

lemma length_word_bytes: "length (word_bytes ws) = 2 * length ws"
  by (induction ws) (simp_all add: word_bytes_def)

lemma drive_insw:
  assumes "2 * length ws < 2 ^ 32" "dr_data d = ws"
  shows "insw drive_ports 0x1F0 buf (length ws) m d = (put m buf (word_bytes ws), d\<lparr>dr_data := []\<rparr>)"
  using assms
proof (induction ws arbitrary: buf m d)
  case Nil
  then show ?case by (simp add: word_bytes_def)
next
  case (Cons w ws)
  have "put m buf (word_bytes (w # ws)) = put (store16 m buf w) (buf + 2) (word_bytes ws)"
    using Cons.prems(1) length_word_bytes[of ws]
    by (simp add: word_bytes_def put_Cons store16_def store8_def add.assoc)
  moreover have "insw drive_ports 0x1F0 (buf + 2) (length ws) (store16 m buf w) (d\<lparr>dr_data := ws\<rparr>) =
    (put (store16 m buf w) (buf + 2) (word_bytes ws), d\<lparr>dr_data := []\<rparr>)"
    using Cons.IH[of "d\<lparr>dr_data := ws\<rparr>" "buf + 2" "store16 m buf w"] Cons.prems(1) by simp
  ultimately show ?case using Cons.prems(2) by (simp add: drive_ports_def)
qed

section \<open>Reading a sector\<close>

lemma select_bits:
  fixes v :: u8 and h :: u16
  assumes "v < 2" "h < 16"
  shows "unat ((0xA0 OR push_bit 4 v OR ucast h :: u8) AND 15) = unat h" "\<not> bit (0xA0 OR push_bit 4 v OR ucast h :: u8) 6"
    "unat ((0xE0 OR push_bit 4 v OR ucast h :: u8) AND 15) = unat h" "bit (0xE0 OR push_bit 4 v OR ucast h :: u8) 6"
proof -
  have all: "\<forall>i \<in> set [0..<2]. \<forall>n \<in> set [0..<16].
    unat ((0xA0 OR push_bit 4 (of_nat i) OR of_nat n :: u8) AND 15) = n \<and> \<not> bit (0xA0 OR push_bit 4 (of_nat i) OR of_nat n :: u8) 6 \<and>
    unat ((0xE0 OR push_bit 4 (of_nat i) OR of_nat n :: u8) AND 15) = n \<and> bit (0xE0 OR push_bit 4 (of_nat i) OR of_nat n :: u8) 6"
    by code_simp
  have "unat v \<in> set [0..<2]" "unat h \<in> set [0..<16]" using assms by (simp_all add: word_less_nat_alt del: upt_Suc)
  moreover have "of_nat (unat v) = v" "(of_nat (unat h) :: u8) = ucast h" by simp_all
  ultimately show "unat ((0xA0 OR push_bit 4 v OR ucast h :: u8) AND 15) = unat h" "\<not> bit (0xA0 OR push_bit 4 v OR ucast h :: u8) 6"
    "unat ((0xE0 OR push_bit 4 v OR ucast h :: u8) AND 15) = unat h" "bit (0xE0 OR push_bit 4 v OR ucast h :: u8) 6"
    using all by metis+
qed

lemma drive_select:
  assumes c: "drive_channel c" and x: "id_drive x < 2" "id_type x = IDE_ATA"
    and a: "lba_mode a \<le> 2" "lba_head a < 16" "lba_mode a = 2 \<Longrightarrow> lba_bytes a ! 4 = 0 \<and> lba_bytes a ! 5 = 0"
  shows "\<exists>d'. sector_select drive_ports c x a n (sector_command (lba_mode a) False IO_READ) d = d' \<and>
    dr_data d' = dr_disk d (decoded a) \<and> dr_disk d' = dr_disk d"
proof -
  note bits = select_bits[OF x(1) a(2)]
  consider "lba_mode a = 0" | "lba_mode a = 1" | "lba_mode a = 2" using a(1) by linarith
  then show ?thesis
  proof cases
    case 1
    then show ?thesis using x(2) bits(1,2)
      by (simp add: sector_select_def drive_writes[OF c] sector_command_def dr_out8_def dr_lba_def decoded_def Let_def)
  next
    case 2
    then show ?thesis using x(2) bits(3,4)
      by (simp add: sector_select_def drive_writes[OF c] sector_command_def dr_out8_def dr_lba_def decoded_def Let_def)
  next
    case 3
    then show ?thesis using x(2) a(3)
      by (simp add: sector_select_def drive_writes[OF c] sector_command_def dr_out8_def dr_lba_def decoded_def Let_def)
  qed
qed

lemma sector_address_form:
  assumes "lba \<ge> 0x10000000 \<or> ISSET_BIT_INT (id_capabilities x) 0x200 \<or> unat lba < 65536 * 1008"
  shows "lba_mode (sector_address x lba) \<le> 2" "lba_head (sector_address x lba) < 16"
    "lba_mode (sector_address x lba) = 2 \<Longrightarrow> lba_bytes (sector_address x lba) ! 4 = 0 \<and> lba_bytes (sector_address x lba) ! 5 = 0"
proof -
  show "lba_mode (sector_address x lba) \<le> 2" by (simp add: sector_address_def Let_def)
  show "lba_mode (sector_address x lba) = 2 \<Longrightarrow> lba_bytes (sector_address x lba) ! 4 = 0 \<and> lba_bytes (sector_address x lba) ! 5 = 0"
    by (auto simp: sector_address_def Let_def split: if_splits)
  consider (ext) "lba \<ge> 0x10000000" | (lba28) "\<not> lba \<ge> 0x10000000" "ISSET_BIT_INT (id_capabilities x) 0x200"
    | (chs) "\<not> lba \<ge> 0x10000000" "\<not> ISSET_BIT_INT (id_capabilities x) 0x200" "unat lba < 65536 * 1008"
    using assms by blast
  then show "lba_head (sector_address x lba) < 16"
  proof cases
    case ext
    then show ?thesis by (simp add: sector_address_def)
  next
    case lba28
    then have l: "lba < 0x10000000" by simp
    then have "unat lba div 2 ^ 24 < 16" by (simp add: word_less_nat_alt less_mult_imp_div_less)
    then show ?thesis unfolding sector_address_def if_not_P[OF lba28(1)] if_P[OF lba28(2)]
      using head_bits[OF l] by (simp add: word_less_nat_alt)
  next
    case chs
    then show ?thesis unfolding sector_address_def if_not_P[OF chs(1)] if_not_P[OF chs(2)]
      using chs_fields(3)[OF chs(3)] by (simp add: word_less_nat_alt Let_def)
  qed
qed


definition sample_ata_drive :: ata_drive where
  "sample_ata_drive = \<lparr>dr_disk = \<lambda>n. replicate 256 (of_nat n), dr_sel = 0, dr_l0 = 0, dr_l1 = 0, dr_l2 = 0, dr_h0 = 0, dr_h1 = 0,
     dr_h2 = 0, dr_data = []\<rparr>"

definition with_drive :: "(ata_drive, 'z) ide_state_scheme \<Rightarrow> (ata_drive, 'z) ide_state_scheme" where
  "with_drive s = s\<lparr>dev := sample_ata_drive, support_dma := False, ide_devices := [sample_drive],
     ide_channels := [\<lparr>ch_base = 0x1F0, ch_ctrl = 0x3F0, ch_bmide = 0, ch_n_ien = 0\<rparr>]\<rparr>"


section \<open>Writing a sector\<close>

lemma insw_device:
  assumes "insw io a p n m d = (m1, d1)" "insw io a p n m' d = (m2, d2)"
  shows "d1 = d2"
  using assms by (induction n arbitrary: p m m' d) (auto simp: Let_def split: prod.splits)

text \<open>Without bus mastering, what a write does to the devices does not depend on the memory that holds the data: the
  words are read from the data port, over the data, instead of being written to it.\<close>

lemma ide_sector_write_ignores_data:
  assumes "\<not> support_dma s" "id_type (device_of drv s) = IDE_ATA"
  shows "map_option (\<lambda>(e, s'). (e, dev s')) (ide_sector_write io hlt prdt drv lba buf keepOn (s\<lparr>vmem := m\<rparr>)) =
    map_option (\<lambda>(e, s'). (e, dev s')) (ide_sector_write io hlt prdt drv lba buf keepOn s)"
proof -
  have o: "device_of drv (s\<lparr>vmem := m\<rparr>) = device_of drv s" "channel_of y (s\<lparr>vmem := m\<rparr>) = channel_of y s" for y
    by (simp_all add: device_of_def channel_of_def)
  have p: "map_option (\<lambda>(e, s'). (e, dev s')) (pio_finish io drv c n buf keepOn t) =
    map_option (\<lambda>(e, s'). (e, dev s')) (pio_finish io drv c n buf keepOn t')"
    if "dev t = dev t'" "\<not> support_dma t" "\<not> support_dma t'" for c n t t'
    using that by (auto simp: pio_finish_def ide_motor_off_def Let_def split: prod.splits bind_splits dest: insw_device)
  show ?thesis using assms
    by (auto simp: ide_sector_write_def ide_do_sector_def o Let_def split: bind_splits intro!: p)
qed

end
