(* ===== verification/Spec2Isabelle.thy ===== *)
theory Spec2Isabelle
  imports Kstring_Laws Bitmap_Laws Mmu_Laws Kheap_Laws Kstdlib_Laws Net_Laws Tty_Laws Disk_Laws Fat_Laws Ext2_Laws Iso9660_Laws Stdio_Laws Syscall_Laws Loader_Laws Fileio_Laws Pci_Laws Interrupts_Laws Timer_Laws Ide_Laws
begin

text \<open>
  This library models and verifies the core of a 32-bit x86 kernel written in C: memory management, the kernel's C
  library, the network stack, terminals, the virtual file system with three file systems below it, processes with
  their scheduler, program loading and system calls.
  Sources are named relative to \<^verbatim>\<open>src/kernel\<close>.

  \<^bold>\<open>The program.\<close> At start-up the kernel hands the memory behind its image to the page allocator
  (\<^verbatim>\<open>modules/bitmap.c\<close>), builds page tables from those pages (\<^verbatim>\<open>cpu/mmu.c\<close>) and a heap from mapped pages
  (\<^verbatim>\<open>modules/heap.c\<close>, \<^verbatim>\<open>libc/stdlib.c\<close>). Everything else allocates from that heap: terminals
  (\<^verbatim>\<open>drivers/tty.c\<close>), mounts (\<^verbatim>\<open>modules/vfs.c\<close>), processes (\<^verbatim>\<open>modules/process.c\<close>). A mount is a file system
  (\<^verbatim>\<open>drivers/fs\<close>) over a disk driver that moves sectors (\<^verbatim>\<open>drivers/iodriver.h\<close>). The timer interrupt calls the scheduler, the keyboard interrupt feeds the current terminal, received frames enter the network stack at
  \<^verbatim>\<open>drivers/ethernet.c\<close>, and user programs enter through \<^verbatim>\<open>cpu/syscall.c\<close>.

  \<^bold>\<open>How code is modelled.\<close> Machine integers are words of their width, so that wrap-around, sign extension and
  unsigned comparison are those of the target; \<open>int\<close> values that are only compared and returned are integers.
  Memory is a function from 32-bit addresses to bytes. Structures that the code lays out in memory itself (page
  tables, heap blocks, packets) are read and written byte by byte; the others are records. Global variables are fields
  of state records that extend one another: \<open>bitmap_state\<close>, \<open>mmu_state\<close>, \<open>kernel_state\<close>, \<open>proc_state\<close>. An operation
  takes the state and returns it; the result \<open>None\<close> means that the C function does not return normally: it loops
  for ever, spins on a held lock, faults or panics. Loops with a bound in the code are structural recursions; loops
  without one are \<^theory_text>\<open>partial_function (option)\<close>, and the theorems show that they end.

  \<^bold>\<open>Theories.\<close>
  \<^item> \<^verbatim>\<open>Kernel_Prelude\<close>: integer types, shared lemmas and theorem collections. \<^verbatim>\<open>Errno\<close>: error numbers.
  \<^item> \<^verbatim>\<open>Bits\<close>, \<^verbatim>\<open>Ctype\<close>: \<^verbatim>\<open>bits.c\<close>, \<^verbatim>\<open>bits.h\<close>, \<^verbatim>\<open>libc/arpa/inet.c\<close>, \<^verbatim>\<open>libc/ctype.c\<close>.
  \<^item> \<^verbatim>\<open>Phys_Memory\<close>, \<^verbatim>\<open>Kstring\<close>, \<^verbatim>\<open>Kstring_Laws\<close>: the byte store and all of \<^verbatim>\<open>libc/string.c\<close>. Block moves are correct
    under every overlap and on every processor; the string functions end on every terminated string and compute
    what they should, with the exceptions stated.
  \<^item> \<^verbatim>\<open>Spinlock\<close>, \<^verbatim>\<open>Bitmap\<close>, \<^verbatim>\<open>Bitmap_Laws\<close>: \<^verbatim>\<open>modules/spinlock.c\<close>, \<^verbatim>\<open>modules/bitmap.c\<close> and the memory test of
    \<^verbatim>\<open>kernel.c\<close>. The allocator refines a set of used pages; the locales \<open>page_allocator\<close> and \<open>page_pool\<close> are its
    contract, from which the memory test is verified.
  \<^item> \<^verbatim>\<open>Mmu\<close>, \<^verbatim>\<open>Mmu_Laws\<close>: \<^verbatim>\<open>cpu/mmu.c\<close>. Mapping and unmapping refine updates of a finite map from page numbers to
    frames; the locale \<open>address_space\<close> states this contract.
  \<^item> \<^verbatim>\<open>Kheap\<close>, \<^verbatim>\<open>Kheap_Laws\<close>: \<^verbatim>\<open>modules/heap.c\<close>. Runs of blocks are marked with ids that differ from those of the
    neighbours, so that freeing finds exactly the run that was allocated.
  \<^item> \<^verbatim>\<open>Kstdlib\<close>, \<^verbatim>\<open>Kstdlib_Laws\<close>: \<^verbatim>\<open>libc/stdlib.c\<close>, with sorting, searching, number conversion and \<open>malloc\<close> over paging
    and heap.
  \<^item> \<^verbatim>\<open>Net\<close>, \<^verbatim>\<open>Net_Apps\<close>, \<^verbatim>\<open>Net_Laws\<close>: \<^verbatim>\<open>drivers/ethernet.c\<close> and \<^verbatim>\<open>modules/net\<close>. A datagram goes through all layers
    unchanged, damaged headers are dropped, ARP and DHCP learn what they are told.
  \<^item> \<^verbatim>\<open>Framebuffer\<close>, \<^verbatim>\<open>Tty\<close>, \<^verbatim>\<open>Tty_Laws\<close>: \<^verbatim>\<open>drivers/video/framebuffer.c\<close>, \<^verbatim>\<open>drivers/tty.c\<close>, \<^verbatim>\<open>drivers/keyboard.c\<close>.
    Characters stay inside the screen, buffered output equals unbuffered output, and input is a queue (locale
    \<open>input_queue\<close>) until its buffer has been used up.
  \<^item> \<^verbatim>\<open>Vfs\<close>, \<^verbatim>\<open>Vfs_Laws\<close>: \<^verbatim>\<open>modules/vfs.c\<close>. Path resolution refines a walk along the components over directory
    listings; a file system is the record of its functions, and what is assumed of \<open>readdir\<close> is the predicate
    \<open>well_listed\<close>.
  \<^item> \<^verbatim>\<open>Process\<close>, \<^verbatim>\<open>Process_Laws\<close>: \<^verbatim>\<open>modules/process.c\<close>, \<^verbatim>\<open>modules/task.c\<close>, \<^verbatim>\<open>modules/semaphore.c\<close>. The queues are chains of
    pointers (locale \<open>linked\<close>, interpreted for processes and tasks) that refine lists; round robin is correct and
    fair.
  \<^item> \<^verbatim>\<open>Disk\<close>, \<^verbatim>\<open>Disk_Laws\<close>: \<^verbatim>\<open>drivers/iodriver.h\<close>, \<^verbatim>\<open>drivers/io/ramdisk.c\<close>, \<^verbatim>\<open>drivers/mbr.c\<close>. A driver is the record of its
    functions; sectors written are read back, and the partition table is found through its signature.
  \<^item> \<^verbatim>\<open>Fat\<close>, \<^verbatim>\<open>Ext2\<close>, \<^verbatim>\<open>Iso9660\<close> and their laws: \<^verbatim>\<open>drivers/fs/fat.c\<close>, \<^verbatim>\<open>ext2.c\<close>, \<^verbatim>\<open>iso9660.c\<close>. For each, a read returns the
    bytes of the file that the structures on the disk describe (a cluster chain, direct and indirect blocks, an
    extent), and a directory listing returns its entries in order.
  \<^item> \<^verbatim>\<open>Stdio\<close>, \<^verbatim>\<open>Stdio_Laws\<close>: \<^verbatim>\<open>libc/stdio.c\<close> without floating point. The formatter is equal to a specification that
    works on the list of directives.
  \<^item> \<^verbatim>\<open>Loader\<close>, \<^verbatim>\<open>Loader_Laws\<close>: \<^verbatim>\<open>modules/elf.c\<close>, \<open>process_execve\<close> and the symbol search of \<^verbatim>\<open>debug.c\<close>.
  \<^item> \<^verbatim>\<open>Syscall\<close>, \<^verbatim>\<open>Syscall_Laws\<close>, \<^verbatim>\<open>Fileio\<close>, \<^verbatim>\<open>Fileio_Laws\<close>: \<^verbatim>\<open>cpu/syscall.c\<close> with the descriptors behind it: exit, waiting,
    seeking, reading and writing, and the dispatch by number. The locales \<open>bounded_reader\<close> and \<open>file_reader\<close> state
    what a file system's read function promises; they are interpreted for FAT, ext2 and ISO 9660, and what holds
    of the read system call over each of them is proved once inside.

  \<^item> \<^verbatim>\<open>Ports\<close>: port input and output of \<^verbatim>\<open>bits.c\<close>. The devices are a state and a record of the effects of the
    instructions, arguments of every operation of the next four.
  \<^item> \<^verbatim>\<open>Pci\<close>, \<^verbatim>\<open>Pci_Laws\<close>: \<^verbatim>\<open>drivers/pci.c\<close>. On hardware that answers configuration accesses, the enumeration ends and
    starts the drivers of the functions it finds, in order.
  \<^item> \<^verbatim>\<open>Interrupts\<close>, \<^verbatim>\<open>Interrupts_Laws\<close>: \<^verbatim>\<open>cpu/gdt.c\<close>, \<^verbatim>\<open>tss.c\<close>, \<^verbatim>\<open>idt.c\<close>, \<^verbatim>\<open>isr.c\<close>, \<^verbatim>\<open>irq.c\<close>, \<^verbatim>\<open>pic.c\<close>. Descriptors hold what they are
    given and the vectors lead to their entry points.
  \<^item> \<^verbatim>\<open>Timer\<close>, \<^verbatim>\<open>Timer_Laws\<close>: \<^verbatim>\<open>modules/timer.c\<close>, \<^verbatim>\<open>modules/cmos.c\<close>. The clock is read as it is set, waiting ends, and the
    scheduler is called at every tenth interrupt until the counter overflows.
  \<^item> \<^verbatim>\<open>Ide\<close>, \<^verbatim>\<open>Ide_Laws\<close>: \<^verbatim>\<open>drivers/io/ide.c\<close>, \<^verbatim>\<open>drivers/io/ata.c\<close>. Sector addresses are decoded to the sector that was asked
    for, and a sector read from a controller that follows the protocol, itself a definition, arrives in memory.

  \<^bold>\<open>Bounds.\<close> \<open>grow_pages\<close> has four rounds because 256 doubled four times is the limit 4096 of the loop. Waits of the
  network code take the number of rounds from the timeout in the code, and what happens meanwhile is an argument. No
  other fuel is used.

  \<^bold>\<open>Not modelled.\<close> The drivers of floppy disks, network cards, the serial line and power management, privileged instructions,
  translation caches, debug output, name resolution, tables of data (fonts, key maps) and the user programs. Of the
  modelled files, the parts left out are listed with the components of the manifest: chiefly the 64-bit branch of \<open>process_execve\<close>, floating point conversions and text that
  is only printed. Structures of processes and tasks are typed memory of their own: reuse of freed structures by
  other allocations is not visible in the model, and the image of a loaded program is a memory of the process, not
  a part of the physical memory that holds the page tables. Interrupts do not occur inside an operation.
\<close>

end
